(* ===== verification/K8s_Prelude.thy ===== *)
theory K8s_Prelude
  imports Main "HOL-Library.Word" "HOL-Library.Multiset" "HOL-Library.Monad_Syntax"
begin

text \<open>
  Shared vocabulary of the development: how Go's run-time panics, error values, 64-bit
  integers, map iteration and slice surgery are written in HOL, and the generic lemmas on
  lists and maps that the component theories use.

  \<^item> A Go statement that may panic (index out of range, nil dereference, send on a closed
    channel) has a result of type \<open>'a go\<close>; \<^term>\<open>None\<close> is the panic.
  \<^item> A Go function that returns an \<open>error\<close> returns \<open>go_error option\<close> beside its other
    results, \<^term>\<open>None\<close> being Go's \<open>nil\<close>; a multi-result \<open>(v, error)\<close> whose value is
    meaningless on error is \<open>go_error + 'v\<close>.
  \<^item> \<open>for k := range m\<close> over a Go map visits the keys in an unspecified order. Every
    definition that models such a loop takes the order as an argument, and
    \<open>range_order\<close> says that a list of keys is a possible order for a map.
  \<^item> \<open>time.Time\<close> and \<open>time.Duration\<close> are integers (nanoseconds); where the source
    multiplies durations the 64-bit wrap-around is written out with \<open>wrap64\<close>.
\<close>

named_theorems go_simps "equations that evaluate the models of the Go code"
named_theorems go_inv "preservation of component invariants"

type_synonym 'a go = "'a option"

text \<open>\<open>Wrapf\<close> is \<open>fmt.Errorf\<close> with a trailing \<open>: %w\<close>.\<close>

datatype go_error =
    Errorf string
  | Wrapf string go_error
  | KeyError go_error
  | ErrRequeue "go_error option"
  | ErrFIFOClosed
  | ErrZeroLengthDeltasObject


section \<open>Integers of 64 bits\<close>

definition wrap64 :: "int \<Rightarrow> int" where
  "wrap64 x = (x + 2 ^ 63) mod 2 ^ 64 - 2 ^ 63"

definition max_int64 :: int where
  "max_int64 = 2 ^ 63 - 1"

definition in_int64 :: "int \<Rightarrow> bool" where
  "in_int64 x \<longleftrightarrow> - (2 ^ 63) \<le> x \<and> x \<le> max_int64"

lemma wrap64_id: "in_int64 x \<Longrightarrow> wrap64 x = x"
  by (simp add: wrap64_def in_int64_def max_int64_def)

lemma wrap64_in_int64: "in_int64 (wrap64 x)"
proof -
  have "0 \<le> (x + 2 ^ 63) mod 2 ^ 64" "(x + 2 ^ 63) mod 2 ^ 64 < 2 ^ 64"
    by (rule pos_mod_sign, simp) (rule pos_mod_bound, simp)
  then show ?thesis by (simp add: wrap64_def in_int64_def max_int64_def)
qed

text \<open>The written-out wrap-around is two's complement on 64-bit words.\<close>

lemma wrap64_sint: "wrap64 x = sint (word_of_int x :: 64 word)"
  by (simp add: wrap64_def signed_of_int signed_take_bit_eq_take_bit_shift take_bit_eq_mod)


section \<open>Ranging over a Go map\<close>

definition range_order :: "'k list \<Rightarrow> ('k \<rightharpoonup> 'v) \<Rightarrow> bool" where
  "range_order ks m \<longleftrightarrow> distinct ks \<and> set ks = dom m"

lemma range_order_memD: "range_order ks m \<Longrightarrow> k \<in> set ks \<Longrightarrow> \<exists>v. m k = Some v"
  by (auto simp: range_order_def)

lemma range_order_finite: "range_order ks m \<Longrightarrow> finite (dom m)"
  by (metis List.finite_set range_order_def)

lemma range_order_length: "range_order ks m \<Longrightarrow> length ks = card (dom m)"
  by (metis distinct_card range_order_def)

lemma range_order_Nil_iff: "range_order ks m \<Longrightarrow> ks = [] \<longleftrightarrow> m = Map.empty"
  unfolding range_order_def by (metis dom_empty dom_eq_empty_conv set_empty)

lemma ex_range_order: "finite (dom m) \<Longrightarrow> \<exists>ks. range_order ks m"
  by (metis finite_distinct_list range_order_def)


section \<open>Slices\<close>

text \<open>\<open>append(s[:i], s[i+1:]...)\<close> and the swap \<open>s[i], s[j] = s[j], s[i]\<close>.\<close>

definition remove_at :: "nat \<Rightarrow> 'a list \<Rightarrow> 'a list" where
  "remove_at i xs = take i xs @ drop (Suc i) xs"

definition list_swap :: "'a list \<Rightarrow> nat \<Rightarrow> nat \<Rightarrow> 'a list" where
  "list_swap xs i j = xs[i := xs ! j, j := xs ! i]"

lemma length_list_swap [simp]: "length (list_swap xs i j) = length xs"
  by (simp add: list_swap_def)

lemma nth_list_swap:
  "i < length xs \<Longrightarrow> j < length xs \<Longrightarrow> k < length xs \<Longrightarrow>
   list_swap xs i j ! k = (if k = i then xs ! j else if k = j then xs ! i else xs ! k)"
  by (auto simp: list_swap_def nth_list_update)

lemma mset_list_swap [simp]:
  "i < length xs \<Longrightarrow> j < length xs \<Longrightarrow> mset (list_swap xs i j) = mset xs"
  unfolding list_swap_def by (rule mset_swap)

lemma set_list_swap [simp]:
  "i < length xs \<Longrightarrow> j < length xs \<Longrightarrow> set (list_swap xs i j) = set xs"
  by (metis mset_eq_setD mset_list_swap)

lemma distinct_list_swap [simp]:
  "i < length xs \<Longrightarrow> j < length xs \<Longrightarrow> distinct (list_swap xs i j) = distinct xs"
  by (metis mset_eq_imp_distinct_iff mset_list_swap)

lemma list_swap_map: 
  "i < length xs \<Longrightarrow> j < length xs \<Longrightarrow> list_swap (map f xs) i j = map f (list_swap xs i j)"
  by (simp add: list_swap_def map_update)

lemma set_take_distinct:
  assumes "distinct xs" "length xs = Suc n"
  shows "set (take n xs) = set xs - {xs ! n}"
proof -
  have "xs = take n xs @ [xs ! n]"
    using assms(2) take_Suc_conv_app_nth [of n xs] by simp
  with assms(1) have "xs ! n \<notin> set (take n xs)" "set xs = insert (xs ! n) (set (take n xs))"
    by (metis distinct_append distinct.simps(2) not_distinct_conv_prefix,
        metis Un_insert_right append_Nil2 empty_set list.simps(15) set_append sup_bot_right)
  then show ?thesis by blast
qed

lemma remove_at_Nil [simp]: "remove_at i [] = []"
  by (simp add: remove_at_def)

lemma remove_at_Cons_0 [simp]: "remove_at 0 (x # xs) = xs"
  by (simp add: remove_at_def)

lemma remove_at_Cons_Suc [simp]: "remove_at (Suc i) (x # xs) = x # remove_at i xs"
  by (simp add: remove_at_def)

lemma length_remove_at [simp]: "i < length xs \<Longrightarrow> length (remove_at i xs) = length xs - 1"
  by (simp add: remove_at_def)

lemma mset_remove_at: "i < length xs \<Longrightarrow> mset (remove_at i xs) = mset xs - {#xs ! i#}"
  by (induction xs arbitrary: i) (auto simp: less_Suc_eq_0_disj)

text \<open>The first index whose element satisfies a predicate: a \<open>for i, x := range s\<close> loop
  that acts on the first match and leaves.\<close>

fun find_index :: "('a \<Rightarrow> bool) \<Rightarrow> 'a list \<Rightarrow> nat option" where
  "find_index P [] = None"
| "find_index P (x # xs) = (if P x then Some 0 else map_option Suc (find_index P xs))"

lemma find_index_None: "find_index P xs = None \<longleftrightarrow> (\<forall>x\<in>set xs. \<not> P x)"
  by (induction xs) auto

lemma find_index_SomeD:
  "find_index P xs = Some i \<Longrightarrow> i < length xs \<and> P (xs ! i) \<and> (\<forall>k<i. \<not> P (xs ! k))"
proof (induction xs arbitrary: i)
  case (Cons x xs)
  then show ?case
    by (auto split: if_splits simp: less_Suc_eq_0_disj)
qed simp

lemma remove_at_find_index_eq:
  "distinct xs \<Longrightarrow> find_index (\<lambda>y. y = x) xs = Some i \<Longrightarrow> remove_at i xs = remove1 x xs"
  by (induction xs arbitrary: i) (auto split: if_splits)

lemma filter_remove_at_first:
  "find_index P xs = Some i \<Longrightarrow> (\<forall>k<length xs. P (xs ! k) \<longrightarrow> k = i) \<Longrightarrow>
   remove_at i xs = filter (\<lambda>x. \<not> P x) xs"
proof (induction xs arbitrary: i)
  case (Cons x xs)
  show ?case
  proof (cases "P x")
    case True
    with Cons.prems(1) have i: "i = 0" by simp
    have "\<not> P y" if "y \<in> set xs" for y
    proof
      assume "P y"
      from \<open>y \<in> set xs\<close> obtain k where "k < length xs" "xs ! k = y" by (auto simp: in_set_conv_nth)
      with Cons.prems(2) \<open>P y\<close> i show False by (auto dest: spec [of _ "Suc k"])
    qed
    with True i show ?thesis by (simp add: filter_True)
  next
    case False
    with Cons.prems(1) obtain i' where i': "find_index P xs = Some i'" "i = Suc i'" by auto
    with Cons.prems(2) have "\<forall>k<length xs. P (xs ! k) \<longrightarrow> k = i'" by auto
    from Cons.IH [OF i'(1) this] False i'(2) show ?thesis by simp
  qed
qed simp


section \<open>Strings\<close>

text \<open>\<open>strings.Split\<close> with a separator of one character, \<open>strings.HasPrefix\<close>,
  \<open>strings.Contains\<close> and the decimal \<open>%d\<close> of \<open>fmt.Sprintf\<close>.\<close>

fun split_on :: "char \<Rightarrow> string \<Rightarrow> string list" where
  "split_on sep [] = [[]]"
| "split_on sep (ch # cs) =
     (if ch = sep then [] # split_on sep cs
      else (case split_on sep cs of [] \<Rightarrow> [[ch]] | p # ps \<Rightarrow> (ch # p) # ps))"

fun HasPrefix :: "string \<Rightarrow> string \<Rightarrow> bool" where
  "HasPrefix s [] \<longleftrightarrow> True"
| "HasPrefix [] (p # ps) \<longleftrightarrow> False"
| "HasPrefix (ch # cs) (p # ps) \<longleftrightarrow> ch = p \<and> HasPrefix cs ps"

fun Contains :: "string \<Rightarrow> string \<Rightarrow> bool" where
  "Contains [] sub \<longleftrightarrow> sub = []"
| "Contains (ch # cs) sub \<longleftrightarrow> HasPrefix (ch # cs) sub \<or> Contains cs sub"

fun dec_nat :: "nat \<Rightarrow> string" where
  "dec_nat n = (if n < 10 then [char_of (48 + n)] else dec_nat (n div 10) @ [char_of (48 + n mod 10)])"

declare dec_nat.simps [simp del]

definition dec_int :: "int \<Rightarrow> string" where
  "dec_int i = (if i < 0 then CHR ''-'' # dec_nat (nat (- i)) else dec_nat (nat i))"

lemma split_on_nonempty [simp]: "split_on sep s \<noteq> []"
  by (cases s) (auto split: list.split)

lemma split_on_plain: "sep \<notin> set s \<Longrightarrow> split_on sep s = [s]"
  by (induction s) auto

lemma split_on_cons: "sep \<notin> set s \<Longrightarrow> split_on sep (s @ sep # t) = s # split_on sep t"
  by (induction s) auto

lemma split_on_parts: "p \<in> set (split_on sep s) \<Longrightarrow> sep \<notin> set p"
proof (induction s arbitrary: p)
  case (Cons ch s)
  then show ?case by (cases "split_on sep s") (auto split: if_splits)
qed simp

lemma split_on_eq_single: "split_on sep s = [p] \<longleftrightarrow> p = s \<and> sep \<notin> set s"
proof (induction s arbitrary: p)
  case (Cons ch s)
  then show ?case by (cases "split_on sep s") (auto split: if_splits)
qed auto

lemma split_on_eq_pair: "split_on sep s = [p, q] \<longleftrightarrow> s = p @ sep # q \<and> sep \<notin> set p \<and> sep \<notin> set q"
proof
  assume "split_on sep s = [p, q]"
  then show "s = p @ sep # q \<and> sep \<notin> set p \<and> sep \<notin> set q"
  proof (induction s arbitrary: p)
    case (Cons ch s)
    show ?case
    proof (cases "ch = sep")
      case True
      then show ?thesis using Cons.prems split_on_eq_single [of sep s q] by auto
    next
      case False
      then obtain p' where "split_on sep s = [p', q]" "p = ch # p'"
        using Cons.prems by (cases "split_on sep s") auto
      then show ?thesis using Cons.IH False by auto
    qed
  qed simp
qed (simp add: split_on_cons split_on_plain)

lemma HasPrefix_iff: "HasPrefix s p \<longleftrightarrow> (\<exists>t. s = p @ t)"
  by (induction s p rule: HasPrefix.induct) auto

lemma Contains_iff: "Contains s sub \<longleftrightarrow> (\<exists>u v. s = u @ sub @ v)"
proof (induction s)
  case (Cons ch cs)
  show ?case
  proof
    assume "Contains (ch # cs) sub"
    then consider v where "ch # cs = sub @ v" | u v where "cs = u @ sub @ v"
      using Cons.IH by (auto simp: HasPrefix_iff)
    then show "\<exists>u v. ch # cs = u @ sub @ v"
    proof cases
      case 1
      then show ?thesis by (intro exI [of _ "[]"] exI [of _ v]) simp
    next
      case (2 u v)
      then show ?thesis by (intro exI [of _ "ch # u"] exI [of _ v]) simp
    qed
  next
    assume "\<exists>u v. ch # cs = u @ sub @ v"
    then obtain u v where "ch # cs = u @ sub @ v" by blast
    then have "HasPrefix (ch # cs) sub \<or> Contains cs sub"
      using Cons.IH by (cases u) (auto simp: HasPrefix_iff)
    then show "Contains (ch # cs) sub" by simp
  qed
qed simp


section \<open>Maps\<close>

lemma card_dom_upd_new: "finite (dom m) \<Longrightarrow> m k = None \<Longrightarrow> card (dom (m(k \<mapsto> v))) = Suc (card (dom m))"
  by (simp add: domIff)

lemma card_dom_upd_old: "m k = Some w \<Longrightarrow> card (dom (m(k \<mapsto> v))) = card (dom m)"
  by (metis dom_fun_upd domI insert_absorb option.distinct(1))

lemma map_Some_eqI: "(\<And>k x. m k = Some x \<longleftrightarrow> m' k = Some x) \<Longrightarrow> m = m'"
  by (intro ext) (metis option.exhaust)

lemma ran_upd_None_unique:
  assumes "m k = Some x" "\<And>k'. m k' = Some x \<Longrightarrow> k' = k"
  shows "ran (m(k := None)) = ran m - {x}"
proof (intro equalityI subsetI)
  fix y assume "y \<in> ran (m(k := None))"
  then obtain k' where "k' \<noteq> k" "m k' = Some y" by (auto simp: ran_def split: if_splits)
  with assms(2) show "y \<in> ran m - {x}" by (auto intro: ranI)
next
  fix y assume "y \<in> ran m - {x}"
  then obtain k' where "m k' = Some y" "y \<noteq> x" by (auto simp: ran_def)
  with assms(1) show "y \<in> ran (m(k := None))" by (intro ranI [of _ k']) auto
qed

lemma option_bind_SomeE:
  assumes "Option.bind m f = Some y"
  obtains x where "m = Some x" "f x = Some y"
  using assms by (cases m) auto

end
