(* ===== verification/Container_Heap.thy ===== *)
theory Container_Heap
  imports K8s_Prelude
begin

text \<open>
  Go's standard package \<open>container/heap\<close>, which the scheduler's keyed heap
  (\<open>pkg/scheduler/internal/heap\<close>), client-go's keyed heap (\<open>tools/cache/heap.go\<close>) and the
  delaying work queue's \<open>waitForPriorityQueue\<close> instantiate. The functions take the methods
  of \<open>heap.Interface\<close> as arguments. \<open>Less\<close> and \<open>Swap\<close> may panic, so do the functions that
  call them.

  The locale \<open>heap_interface\<close> is the contract of \<open>heap.Interface\<close>: what \<open>Less\<close> and
  \<open>Swap\<close> of an implementation must do on its contents for the package's algorithms to be
  correct. Its lemmas show that under the contract no operation panics, that each one
  permutes, adds or removes exactly the elements it should, and that the heap order is
  restored.
\<close>

section \<open>The algorithms\<close>

definition heap_parent :: "nat \<Rightarrow> nat" where
  "heap_parent j = (j - 1) div 2"

lemma heap_parent_less: "0 < j \<Longrightarrow> heap_parent j < j"
  unfolding heap_parent_def by arith

lemma heap_parent_0 [simp]: "heap_parent 0 = 0"
  by (simp add: heap_parent_def)

lemma heap_parent_eq_iff: "0 < j \<Longrightarrow> heap_parent j = i \<longleftrightarrow> j = 2 * i + 1 \<or> j = 2 * i + 2"
  unfolding heap_parent_def by arith

lemma heap_parent_same: "heap_parent j = j \<longleftrightarrow> j = 0"
  unfolding heap_parent_def by arith

text \<open>\<open>up(h, j)\<close>: move the element at \<open>j\<close> towards the root while it is less than its parent.\<close>

function heap_up ::
  "('h \<Rightarrow> nat \<Rightarrow> nat \<Rightarrow> bool go) \<Rightarrow> ('h \<Rightarrow> nat \<Rightarrow> nat \<Rightarrow> 'h go) \<Rightarrow> 'h \<Rightarrow> nat \<Rightarrow> 'h go" where
  "heap_up ls sw h j =
     (let i = heap_parent j in
      if i = j then Some h
      else (case ls h j i of
          None \<Rightarrow> None
        | Some b \<Rightarrow>
            if \<not> b then Some h
            else (case sw h i j of None \<Rightarrow> None | Some h' \<Rightarrow> heap_up ls sw h' i)))"
  by pat_completeness auto
termination
  by (relation "measure (\<lambda>(ls, sw, h, j). j)") (auto simp: heap_parent_def)

declare heap_up.simps [simp del]

text \<open>\<open>down(h, i, n)\<close>: move the element at \<open>i\<close> away from the root among the first \<open>n\<close>
  elements; the second component is the index where it stops (Go returns whether it moved).\<close>

definition heap_down_child ::
  "('h \<Rightarrow> nat \<Rightarrow> nat \<Rightarrow> bool go) \<Rightarrow> 'h \<Rightarrow> nat \<Rightarrow> nat \<Rightarrow> nat go" where
  "heap_down_child ls h i n =
     (let j1 = 2 * i + 1; j2 = j1 + 1 in
      if j2 < n then (case ls h j2 j1 of None \<Rightarrow> None | Some b \<Rightarrow> Some (if b then j2 else j1))
      else Some j1)"

lemma heap_down_child_cases:
  "heap_down_child ls h i n = Some j \<Longrightarrow> j = 2 * i + 1 \<or> j = 2 * i + 2 \<and> j < n"
  by (auto simp: heap_down_child_def Let_def split: if_splits option.splits)

function heap_down ::
  "('h \<Rightarrow> nat \<Rightarrow> nat \<Rightarrow> bool go) \<Rightarrow> ('h \<Rightarrow> nat \<Rightarrow> nat \<Rightarrow> 'h go) \<Rightarrow> 'h \<Rightarrow> nat \<Rightarrow> nat \<Rightarrow> ('h \<times> nat) go" where
  "heap_down ls sw h i n =
     (if 2 * i + 1 \<ge> n then Some (h, i)
      else (case heap_down_child ls h i n of
          None \<Rightarrow> None
        | Some j \<Rightarrow>
            (case ls h j i of
               None \<Rightarrow> None
             | Some b \<Rightarrow>
                 if \<not> b then Some (h, i)
                 else (case sw h i j of None \<Rightarrow> None | Some h' \<Rightarrow> heap_down ls sw h' j n))))"
  by pat_completeness auto
termination
  by (relation "measure (\<lambda>(ls, sw, h, i, n). n - i)") (auto dest: heap_down_child_cases)

declare heap_down.simps [simp del]

text \<open>
  \<open>heap.Push\<close>, \<open>heap.Pop\<close>, \<open>heap.Fix\<close> and \<open>heap.Remove\<close>. With an empty heap,
  \<open>heap.Pop\<close> calls \<open>Swap(0, -1)\<close> and \<open>heap.Remove\<close> calls \<open>Swap(i, -1)\<close>, a panic in
  every slice-backed implementation.
\<close>

definition heap_Push ::
  "('h \<Rightarrow> nat) \<Rightarrow> ('h \<Rightarrow> nat \<Rightarrow> nat \<Rightarrow> bool go) \<Rightarrow> ('h \<Rightarrow> nat \<Rightarrow> nat \<Rightarrow> 'h go) \<Rightarrow> ('h \<Rightarrow> 'x \<Rightarrow> 'h)
   \<Rightarrow> 'h \<Rightarrow> 'x \<Rightarrow> 'h go" where
  "heap_Push len ls sw push h x = (let h' = push h x in heap_up ls sw h' (len h' - 1))"

definition heap_Pop ::
  "('h \<Rightarrow> nat) \<Rightarrow> ('h \<Rightarrow> nat \<Rightarrow> nat \<Rightarrow> bool go) \<Rightarrow> ('h \<Rightarrow> nat \<Rightarrow> nat \<Rightarrow> 'h go) \<Rightarrow> ('h \<Rightarrow> ('x \<times> 'h) go)
   \<Rightarrow> 'h \<Rightarrow> ('x \<times> 'h) go" where
  "heap_Pop len ls sw pop h =
     (if len h = 0 then None
      else do {
        h1 \<leftarrow> sw h 0 (len h - 1);
        (h2, _) \<leftarrow> heap_down ls sw h1 0 (len h - 1);
        pop h2
      })"

definition heap_Fix ::
  "('h \<Rightarrow> nat) \<Rightarrow> ('h \<Rightarrow> nat \<Rightarrow> nat \<Rightarrow> bool go) \<Rightarrow> ('h \<Rightarrow> nat \<Rightarrow> nat \<Rightarrow> 'h go) \<Rightarrow> 'h \<Rightarrow> nat \<Rightarrow> 'h go" where
  "heap_Fix len ls sw h i =
     do {
       (h1, i') \<leftarrow> heap_down ls sw h i (len h);
       if i < i' then Some h1 else heap_up ls sw h1 i
     }"

definition heap_Remove ::
  "('h \<Rightarrow> nat) \<Rightarrow> ('h \<Rightarrow> nat \<Rightarrow> nat \<Rightarrow> bool go) \<Rightarrow> ('h \<Rightarrow> nat \<Rightarrow> nat \<Rightarrow> 'h go) \<Rightarrow> ('h \<Rightarrow> ('x \<times> 'h) go)
   \<Rightarrow> 'h \<Rightarrow> nat \<Rightarrow> ('x \<times> 'h) go" where
  "heap_Remove len ls sw pop h i =
     (if len h = 0 then None
      else let n = len h - 1 in
        if n \<noteq> i then do {
          h1 \<leftarrow> sw h i n;
          (h2, i') \<leftarrow> heap_down ls sw h1 i n;
          h3 \<leftarrow> (if i < i' then Some h2 else heap_up ls sw h2 i);
          pop h3
        }
        else pop h)"


section \<open>Heap order on lists\<close>

text \<open>The comparison must be a strict weak order; \<open>\<not> lt y x\<close> is then a total preorder.\<close>

definition strict_weak_order :: "('a \<Rightarrow> 'a \<Rightarrow> bool) \<Rightarrow> bool" where
  "strict_weak_order lt \<longleftrightarrow>
     (\<forall>x y. lt x y \<longrightarrow> \<not> lt y x) \<and> (\<forall>x y z. lt x z \<longrightarrow> lt x y \<or> lt y z)"

lemma swo_asym: "strict_weak_order lt \<Longrightarrow> lt x y \<Longrightarrow> \<not> lt y x"
  by (simp add: strict_weak_order_def)

lemma swo_irrefl: "strict_weak_order lt \<Longrightarrow> \<not> lt x x"
  using swo_asym by metis

lemma swo_ge_trans: "strict_weak_order lt \<Longrightarrow> \<not> lt y x \<Longrightarrow> \<not> lt z y \<Longrightarrow> \<not> lt z x"
  unfolding strict_weak_order_def by blast

lemma swo_key: "strict_weak_order (\<lambda>x y. f x < (f y :: 'b :: linorder))"
  by (auto simp: strict_weak_order_def)

text \<open>
  \<open>heap_ordered lt xs n\<close>: the first \<open>n\<close> elements satisfy the heap order.
  \<open>heap_hole lt xs n i\<close>: they do everywhere except around position \<open>i\<close>, whose children are
  still no less than its parent. \<open>heap_kids lt xs n i\<close>: position \<open>i\<close> is in order with its
  children.
\<close>

definition heap_ordered :: "('a \<Rightarrow> 'a \<Rightarrow> bool) \<Rightarrow> 'a list \<Rightarrow> nat \<Rightarrow> bool" where
  "heap_ordered lt xs n \<longleftrightarrow> (\<forall>j. 0 < j \<and> j < n \<longrightarrow> \<not> lt (xs ! j) (xs ! heap_parent j))"

definition heap_hole :: "('a \<Rightarrow> 'a \<Rightarrow> bool) \<Rightarrow> 'a list \<Rightarrow> nat \<Rightarrow> nat \<Rightarrow> bool" where
  "heap_hole lt xs n i \<longleftrightarrow>
     (\<forall>j. 0 < j \<and> j < n \<and> j \<noteq> i \<and> heap_parent j \<noteq> i \<longrightarrow> \<not> lt (xs ! j) (xs ! heap_parent j)) \<and>
     (\<forall>j. 0 < j \<and> j < n \<and> heap_parent j = i \<and> 0 < i \<longrightarrow> \<not> lt (xs ! j) (xs ! heap_parent i))"

definition heap_kids :: "('a \<Rightarrow> 'a \<Rightarrow> bool) \<Rightarrow> 'a list \<Rightarrow> nat \<Rightarrow> nat \<Rightarrow> bool" where
  "heap_kids lt xs n i \<longleftrightarrow> (\<forall>j. 0 < j \<and> j < n \<and> heap_parent j = i \<longrightarrow> \<not> lt (xs ! j) (xs ! i))"

lemma heap_kids_leaf:
  assumes "n \<le> 2 * i + 1"
  shows "heap_kids lt xs n i"
  unfolding heap_kids_def
proof (intro allI impI; elim conjE)
  fix j assume "0 < j" "j < n" "heap_parent j = i"
  with heap_parent_eq_iff [of j i] assms show "\<not> lt (xs ! j) (xs ! i)" by linarith
qed

lemma heap_orderedI:
  assumes "heap_hole lt xs n i" "heap_kids lt xs n i"
    and "0 < i \<Longrightarrow> i < n \<Longrightarrow> \<not> lt (xs ! i) (xs ! heap_parent i)"
  shows "heap_ordered lt xs n"
  using assms unfolding heap_ordered_def heap_hole_def heap_kids_def by metis

text \<open>Replacing one element of a heap leaves a hole there.\<close>

lemma heap_hole_update:
  assumes swo: "strict_weak_order lt" and heap: "heap_ordered lt xs n"
    and "n \<le> length xs" "i < n"
  shows "heap_hole lt (xs[i := x]) n i"
  unfolding heap_hole_def
proof (intro conjI allI impI; elim conjE)
  fix j assume "0 < j" "j < n" "j \<noteq> i" "heap_parent j \<noteq> i"
  with heap show "\<not> lt (xs[i := x] ! j) (xs[i := x] ! heap_parent j)"
    by (simp add: heap_ordered_def)
next
  fix j assume j: "0 < j" "j < n" "heap_parent j = i" "0 < i"
  then have "i < j" "heap_parent i < i" by (auto intro: heap_parent_less)
  have "\<not> lt (xs ! j) (xs ! i)" "\<not> lt (xs ! i) (xs ! heap_parent i)"
    using heap j \<open>i < n\<close> by (auto simp: heap_ordered_def)
  then have "\<not> lt (xs ! j) (xs ! heap_parent i)" using swo_ge_trans [OF swo] by blast
  then show "\<not> lt (xs[i := x] ! j) (xs[i := x] ! heap_parent i)"
    using \<open>i < j\<close> \<open>heap_parent i < i\<close> by simp
qed

lemma heap_hole_ordered:
  "strict_weak_order lt \<Longrightarrow> heap_ordered lt xs n \<Longrightarrow> n \<le> length xs \<Longrightarrow> i < n \<Longrightarrow> heap_hole lt xs n i"
  using heap_hole_update [of lt xs n i "xs ! i"] by simp

text \<open>So does changing how one element of a heap compares.\<close>

lemma heap_hole_reorder:
  assumes swo: "strict_weak_order lt" and heap: "heap_ordered lt xs n"
    and "n \<le> length xs" "i < n" "distinct xs"
    and same: "\<And>a b. a \<noteq> xs ! i \<Longrightarrow> b \<noteq> xs ! i \<Longrightarrow> lt' a b = lt a b"
  shows "heap_hole lt' xs n i"
proof -
  have hole: "heap_hole lt xs n i" using heap_hole_update [OF swo heap assms(3,4), of "xs ! i"] by simp
  have ne: "xs ! j \<noteq> xs ! i" if "j < n" "j \<noteq> i" for j
    using that assms(3-5) by (simp add: nth_eq_iff_index_eq)
  have par: "heap_parent j < n" if "j < n" for j using that unfolding heap_parent_def by arith
  have pne: "heap_parent i \<noteq> i" if "0 < i" using that heap_parent_less [OF that] by simp
  have kid: "j \<noteq> i" if "0 < j" "heap_parent j = i" for j using that heap_parent_less [OF that(1)] by simp
  show ?thesis
    using hole ne par pne kid assms(4) unfolding heap_hole_def by (simp add: same)
qed

lemma heap_parent_bound: "j < n \<Longrightarrow> heap_parent j < n"
  unfolding heap_parent_def by arith

lemma heap_ordered_mono: "heap_ordered lt xs n \<Longrightarrow> m \<le> n \<Longrightarrow> heap_ordered lt xs m"
  by (simp add: heap_ordered_def)

lemma heap_ordered_take: "heap_ordered lt (take n xs) n \<longleftrightarrow> heap_ordered lt xs n"
  by (auto simp: heap_ordered_def heap_parent_bound)

text \<open>Appending an element to a heap leaves a hole at the end.\<close>

lemma heap_hole_snoc:
  assumes "heap_ordered lt xs (length xs)"
  shows "heap_hole lt (xs @ [x]) (Suc (length xs)) (length xs)"
    and "heap_kids lt (xs @ [x]) (Suc (length xs)) (length xs)"
proof -
  have par: "heap_parent j < length xs" if "0 < j" "j \<le> length xs" for j
    using that heap_parent_less [of j] by simp
  show "heap_hole lt (xs @ [x]) (Suc (length xs)) (length xs)"
    using assms par unfolding heap_hole_def heap_ordered_def
    by (auto simp: nth_append) (metis less_Suc_eq_le nat_less_le)+
  show "heap_kids lt (xs @ [x]) (Suc (length xs)) (length xs)"
    by (rule heap_kids_leaf) simp
qed

text \<open>One step of \<open>up\<close>.\<close>

lemma heap_up_step:
  assumes swo: "strict_weak_order lt" and hole: "heap_hole lt xs n j" and kids: "heap_kids lt xs n j"
    and "0 < j" "j < n" "n \<le> length xs" and lt: "lt (xs ! j) (xs ! heap_parent j)"
  shows "heap_hole lt (list_swap xs (heap_parent j) j) n (heap_parent j)"
    and "heap_kids lt (list_swap xs (heap_parent j) j) n (heap_parent j)"
proof -
  let ?i = "heap_parent j" and ?ys = "list_swap xs (heap_parent j) j"
  have ij: "?i < j" using \<open>0 < j\<close> by (rule heap_parent_less)
  have nth: "?ys ! k = (if k = ?i then xs ! j else if k = j then xs ! ?i else xs ! k)" if "k < n" for k
    using that ij assms by (auto simp: nth_list_swap)
  have par: "heap_parent k < n" if "k < n" for k
    using that heap_parent_less [of k] by (cases "k = 0") auto
  have ord: "\<not> lt (xs ! k) (xs ! heap_parent k)"
    if "0 < k" "k < n" "k \<noteq> j" "heap_parent k \<noteq> j" for k
    using hole that by (simp add: heap_hole_def)
  have kid: "\<not> lt (xs ! k) (xs ! ?i)" if "0 < k" "k < n" "heap_parent k = j" for k
    using hole that \<open>0 < j\<close> by (simp add: heap_hole_def)
  show "heap_hole lt ?ys n ?i"
    unfolding heap_hole_def
  proof (intro conjI allI impI; elim conjE)
    fix k assume k: "0 < k" "k < n" "k \<noteq> ?i" "heap_parent k \<noteq> ?i"
    show "\<not> lt (?ys ! k) (?ys ! heap_parent k)"
    proof (cases "heap_parent k = j")
      case True
      with k kid [of k] ij \<open>j < n\<close> show ?thesis by (auto simp: nth)
    next
      case False
      with k ord [of k] show ?thesis by (auto simp: nth par)
    qed
  next
    fix k assume k: "0 < k" "k < n" "heap_parent k = ?i" "0 < ?i"
    have pp: "heap_parent ?i < ?i" using k(4) by (rule heap_parent_less)
    have up: "\<not> lt (xs ! ?i) (xs ! heap_parent ?i)"
      using ord [of ?i] k(4) ij \<open>j < n\<close> pp by auto
    have ki: "k \<noteq> ?i" using heap_parent_less [OF k(1)] k(3) by simp
    show "\<not> lt (?ys ! k) (?ys ! heap_parent ?i)"
    proof (cases "k = j")
      case True
      with up pp ij \<open>j < n\<close> show ?thesis by (auto simp: nth)
    next
      case False
      then have "\<not> lt (xs ! k) (xs ! ?i)" using ord [of k] k ij by auto
      with up swo_ge_trans [OF swo] have "\<not> lt (xs ! k) (xs ! heap_parent ?i)" by blast
      with False ki pp ij \<open>j < n\<close> k(2) show ?thesis by (auto simp: nth)
    qed
  qed
  show "heap_kids lt ?ys n ?i"
    unfolding heap_kids_def
  proof (intro allI impI; elim conjE)
    fix k assume k: "0 < k" "k < n" "heap_parent k = ?i"
    have ki: "k \<noteq> ?i" using heap_parent_less [OF k(1)] k(3) by simp
    show "\<not> lt (?ys ! k) (?ys ! ?i)"
    proof (cases "k = j")
      case True
      with swo_asym [OF swo lt] ij \<open>j < n\<close> show ?thesis by (auto simp: nth)
    next
      case False
      then have "\<not> lt (xs ! k) (xs ! ?i)" using ord [of k] k ij by auto
      with swo_ge_trans [OF swo swo_asym [OF swo lt]] have "\<not> lt (xs ! k) (xs ! j)" by blast
      with False ki ij \<open>j < n\<close> k(2) show ?thesis by (auto simp: nth)
    qed
  qed
qed

text \<open>One step of \<open>down\<close>: \<open>j\<close> is a least child of \<open>i\<close>.\<close>

lemma heap_down_step:
  assumes swo: "strict_weak_order lt" and hole: "heap_hole lt xs n i"
    and "0 < j" "heap_parent j = i" "j < n" "n \<le> length xs" and lt: "lt (xs ! j) (xs ! i)"
    and least: "\<And>k. 0 < k \<Longrightarrow> k < n \<Longrightarrow> heap_parent k = i \<Longrightarrow> \<not> lt (xs ! k) (xs ! j)"
  shows "heap_hole lt (list_swap xs i j) n j"
    and "\<not> lt (list_swap xs i j ! j) (list_swap xs i j ! i)"
proof -
  let ?ys = "list_swap xs i j"
  have ij: "i < j" using \<open>0 < j\<close> \<open>heap_parent j = i\<close> heap_parent_less by blast
  have nth: "?ys ! k = (if k = i then xs ! j else if k = j then xs ! i else xs ! k)" if "k < n" for k
    using that ij assms by (auto simp: nth_list_swap)
  have par: "heap_parent k < n" if "k < n" for k
    using that heap_parent_less [of k] by (cases "k = 0") auto
  have ord: "\<not> lt (xs ! k) (xs ! heap_parent k)"
    if "0 < k" "k < n" "k \<noteq> i" "heap_parent k \<noteq> i" for k
    using hole that by (simp add: heap_hole_def)
  have top: "\<not> lt (xs ! k) (xs ! heap_parent i)" if "0 < k" "k < n" "heap_parent k = i" "0 < i" for k
    using hole that by (simp add: heap_hole_def)
  show "heap_hole lt ?ys n j"
    unfolding heap_hole_def
  proof (intro conjI allI impI; elim conjE)
    fix k assume k: "0 < k" "k < n" "k \<noteq> j" "heap_parent k \<noteq> j"
    show "\<not> lt (?ys ! k) (?ys ! heap_parent k)"
    proof (cases "k = i")
      case True
      then have "\<not> lt (xs ! j) (xs ! heap_parent i)" using top [of j] assms k by auto
      moreover have "heap_parent i < i" using True k(1) heap_parent_less by blast
      ultimately show ?thesis using True k ij \<open>j < n\<close> by (auto simp: nth par)
    next
      case False
      with k ord [of k] least [of k] show ?thesis by (auto simp: nth par)
    qed
  next
    fix k assume k: "0 < k" "k < n" "heap_parent k = j" "0 < j"
    then have "k \<noteq> i" "k \<noteq> j" using heap_parent_less [of k] ij by auto
    with k ord [of k] ij \<open>heap_parent j = i\<close> \<open>j < n\<close> show "\<not> lt (?ys ! k) (?ys ! heap_parent j)"
      by (auto simp: nth)
  qed
  show "\<not> lt (?ys ! j) (?ys ! i)"
    using swo_asym [OF swo lt] ij \<open>j < n\<close> by (simp add: nth)
qed

text \<open>The root of a heap is a least element.\<close>

lemma heap_root_least:
  assumes "strict_weak_order lt" "heap_ordered lt xs n" "k < n"
  shows "\<not> lt (xs ! k) (xs ! 0)"
  using \<open>k < n\<close>
proof (induction k rule: less_induct)
  case (less k)
  show ?case
  proof (cases "k = 0")
    case True
    with assms(1) show ?thesis by (simp add: swo_irrefl)
  next
    case False
    then have p: "heap_parent k < k" by (simp add: heap_parent_less)
    with less have "\<not> lt (xs ! heap_parent k) (xs ! 0)" by simp
    moreover have "\<not> lt (xs ! k) (xs ! heap_parent k)"
      using False less.prems assms(2) by (simp add: heap_ordered_def)
    ultimately show ?thesis using swo_ge_trans [OF assms(1)] by blast
  qed
qed


section \<open>The contract of heap.Interface\<close>

lemma drop_list_swap: "i < n \<Longrightarrow> j < n \<Longrightarrow> drop n (list_swap xs i j) = drop n xs"
  by (simp add: list_swap_def)

locale heap_interface =
  fixes hinv :: "'h \<Rightarrow> bool"
    and contents :: "'h \<Rightarrow> 'a list"
    and frame :: "'h \<Rightarrow> 'f"
    and lt :: "'f \<Rightarrow> 'a \<Rightarrow> 'a \<Rightarrow> bool"
    and ls :: "'h \<Rightarrow> nat \<Rightarrow> nat \<Rightarrow> bool go"
    and sw :: "'h \<Rightarrow> nat \<Rightarrow> nat \<Rightarrow> 'h go"
  assumes order: "hinv h \<Longrightarrow> strict_weak_order (lt (frame h))"
    and less_ok: "hinv h \<Longrightarrow> i < length (contents h) \<Longrightarrow> j < length (contents h) \<Longrightarrow>
      ls h i j = Some (lt (frame h) (contents h ! i) (contents h ! j))"
    and swap_ok: "hinv h \<Longrightarrow> i < length (contents h) \<Longrightarrow> j < length (contents h) \<Longrightarrow>
      \<exists>h'. sw h i j = Some h' \<and> hinv h' \<and> frame h' = frame h \<and>
           contents h' = list_swap (contents h) i j"
begin

text \<open>\<open>h'\<close> holds the elements of \<open>h\<close>, those from position \<open>n\<close> on in place.\<close>

definition keeps :: "nat \<Rightarrow> 'h \<Rightarrow> 'h \<Rightarrow> bool" where
  "keeps n h h' \<longleftrightarrow> hinv h' \<and> frame h' = frame h \<and> mset (contents h') = mset (contents h) \<and>
     drop n (contents h') = drop n (contents h)"

lemma keeps_refl: "hinv h \<Longrightarrow> keeps n h h"
  by (simp add: keeps_def)

lemma keeps_trans: "keeps n h1 h2 \<Longrightarrow> keeps n h2 h3 \<Longrightarrow> keeps n h1 h3"
  by (simp add: keeps_def)

lemma keeps_length: "keeps n h h' \<Longrightarrow> length (contents h') = length (contents h)"
  by (metis keeps_def size_mset)

lemma swap_keeps:
  assumes "hinv h" "i < n" "j < n" "n \<le> length (contents h)"
  shows "\<exists>h'. sw h i j = Some h' \<and> keeps n h h' \<and> contents h' = list_swap (contents h) i j"
  using swap_ok [of h i j] assms by (auto simp: keeps_def drop_list_swap)

lemma up_ok:
  assumes "hinv h" "j < n" "n \<le> length (contents h)"
    and "heap_hole (lt (frame h)) (contents h) n j" "heap_kids (lt (frame h)) (contents h) n j"
  shows "\<exists>h'. heap_up ls sw h j = Some h' \<and> keeps n h h' \<and>
           heap_ordered (lt (frame h)) (contents h') n"
  using assms
proof (induction j arbitrary: h rule: less_induct)
  case (less j h)
  let ?i = "heap_parent j"
  show ?case
  proof (cases "j = 0")
    case True
    then show ?thesis
      using less.prems heap_orderedI [of "lt (frame h)" "contents h" n j]
      by (auto simp: heap_up.simps [of ls sw h 0] keeps_refl)
  next
    case False
    then have ij: "?i < j" by (simp add: heap_parent_less)
    have cmp: "ls h j ?i = Some (lt (frame h) (contents h ! j) (contents h ! ?i))"
      using less.prems ij by (intro less_ok) auto
    show ?thesis
    proof (cases "lt (frame h) (contents h ! j) (contents h ! ?i)")
      case False
      then show ?thesis
        using less.prems cmp ij heap_orderedI [of _ _ _ j]
        by (auto simp: heap_up.simps [of ls sw h j] keeps_refl)
    next
      case True
      obtain h1 where h1: "sw h ?i j = Some h1" "keeps n h h1"
        "contents h1 = list_swap (contents h) ?i j"
        using swap_keeps [OF less.prems(1) less_trans [OF ij less.prems(2)] less.prems(2,3)] by blast
      have pre: "hinv h1" "frame h1 = frame h" "length (contents h1) = length (contents h)"
        using h1(2) keeps_length [OF h1(2)] by (auto simp: keeps_def)
      have "\<exists>h'. heap_up ls sw h1 ?i = Some h' \<and> keeps n h1 h' \<and>
          heap_ordered (lt (frame h1)) (contents h') n"
        using less.prems pre ij h1(3) True \<open>j \<noteq> 0\<close>
          heap_up_step [of "lt (frame h)" "contents h" n j] order [of h]
        by (intro less.IH) auto
      then show ?thesis
        using ij cmp True h1(1) pre keeps_trans [OF h1(2)]
        by (auto simp: heap_up.simps [of ls sw h j])
    qed
  qed
qed

lemma down_child_ok:
  assumes "hinv h" "2 * i + 1 < n" "n \<le> length (contents h)"
  obtains j where "heap_down_child ls h i n = Some j" "0 < j" "j < n" "heap_parent j = i"
    "\<And>k. 0 < k \<Longrightarrow> k < n \<Longrightarrow> heap_parent k = i \<Longrightarrow>
       \<not> lt (frame h) (contents h ! k) (contents h ! j)"
proof -
  let ?j1 = "2 * i + 1" and ?j2 = "2 * i + 2"
  note swo = order [OF \<open>hinv h\<close>]
  have kid: "k = ?j1 \<or> k = ?j2" if "0 < k" "heap_parent k = i" for k
    using that heap_parent_eq_iff by blast
  have p: "heap_parent ?j1 = i" "heap_parent ?j2 = i" by (simp_all add: heap_parent_def)
  show thesis
  proof (cases "?j2 < n")
    case False
    have "\<not> lt (frame h) (contents h ! k) (contents h ! ?j1)"
      if "0 < k" "k < n" "heap_parent k = i" for k
      using kid [OF that(1,3)] that(2) False swo_irrefl [OF swo] by auto
    with False assms p that [of ?j1] show thesis by (simp add: heap_down_child_def)
  next
    case True
    then have cmp: "ls h ?j2 ?j1 = Some (lt (frame h) (contents h ! ?j2) (contents h ! ?j1))"
      using assms by (intro less_ok) auto
    show thesis
    proof (cases "lt (frame h) (contents h ! ?j2) (contents h ! ?j1)")
      case less: True
      have "\<not> lt (frame h) (contents h ! k) (contents h ! ?j2)"
        if "0 < k" "k < n" "heap_parent k = i" for k
        using kid [OF that(1,3)] swo_asym [OF swo less] swo_irrefl [OF swo] by auto
      with True less cmp p that [of ?j2] show thesis by (simp add: heap_down_child_def)
    next
      case False
      have "\<not> lt (frame h) (contents h ! k) (contents h ! ?j1)"
        if "0 < k" "k < n" "heap_parent k = i" for k
        using kid [OF that(1,3)] False swo_irrefl [OF swo] by auto
      with True False cmp p that [of ?j1] show thesis by (simp add: heap_down_child_def)
    qed
  qed
qed

lemma down_ok:
  assumes "hinv h" "n \<le> length (contents h)" "heap_hole (lt (frame h)) (contents h) n i"
  shows "\<exists>h' i'. heap_down ls sw h i n = Some (h', i') \<and> keeps n h h' \<and> i \<le> i' \<and>
           heap_hole (lt (frame h)) (contents h') n i' \<and> heap_kids (lt (frame h)) (contents h') n i' \<and>
           (i < i' \<longrightarrow> \<not> lt (frame h) (contents h' ! i') (contents h' ! heap_parent i')) \<and>
           (i = i' \<longrightarrow> h' = h)"
  using assms
proof (induction "n - i" arbitrary: h i rule: less_induct)
  case (less i h)
  show ?case
  proof (cases "2 * i + 1 < n")
    case False
    then have "heap_kids (lt (frame h)) (contents h) n i"
      by (intro heap_kids_leaf) simp
    with False less.prems show ?thesis
      by (auto simp: heap_down.simps [of ls sw h i n] keeps_refl)
  next
    case True
    obtain j where j: "heap_down_child ls h i n = Some j" "0 < j" "j < n" "heap_parent j = i"
      "\<And>k. 0 < k \<Longrightarrow> k < n \<Longrightarrow> heap_parent k = i \<Longrightarrow>
         \<not> lt (frame h) (contents h ! k) (contents h ! j)"
      using down_child_ok less.prems True by blast
    have ij: "i < j" using j heap_parent_less by blast
    have cmp: "ls h j i = Some (lt (frame h) (contents h ! j) (contents h ! i))"
      using less.prems j ij by (intro less_ok) auto
    show ?thesis
    proof (cases "lt (frame h) (contents h ! j) (contents h ! i)")
      case False
      then have "heap_kids (lt (frame h)) (contents h) n i"
        using j(5) swo_ge_trans [OF order] less.prems(1) unfolding heap_kids_def by blast
      with False True cmp j less.prems show ?thesis
        by (auto simp: heap_down.simps [of ls sw h i n] keeps_refl)
    next
      case lt: True
      obtain h1 where h1: "sw h i j = Some h1" "keeps n h h1"
        "contents h1 = list_swap (contents h) i j"
        using swap_keeps [OF less.prems(1) less_trans [OF ij j(3)] j(3) less.prems(2)] by blast
      have pre: "hinv h1" "frame h1 = frame h" "length (contents h1) = length (contents h)"
        using h1(2) keeps_length [OF h1(2)] by (auto simp: keeps_def)
      have st: "heap_hole (lt (frame h)) (list_swap (contents h) i j) n j"
          "\<not> lt (frame h) (list_swap (contents h) i j ! j) (list_swap (contents h) i j ! i)"
        using heap_down_step [OF order [OF less.prems(1)] less.prems(3) j(2,4,3) less.prems(2) lt] j(5)
        by blast+
      have "\<exists>h' i'. heap_down ls sw h1 j n = Some (h', i') \<and> keeps n h1 h' \<and> j \<le> i' \<and>
           heap_hole (lt (frame h1)) (contents h') n i' \<and> heap_kids (lt (frame h1)) (contents h') n i' \<and>
           (j < i' \<longrightarrow> \<not> lt (frame h1) (contents h' ! i') (contents h' ! heap_parent i')) \<and>
           (j = i' \<longrightarrow> h' = h1)"
      proof (rule less.hyps)
        show "n - j < n - i" using ij j(3) by simp
        show "hinv h1" "n \<le> length (contents h1)" using pre less.prems(2) by simp_all
        show "heap_hole (lt (frame h1)) (contents h1) n j" unfolding pre(2) h1(3) by (rule st(1))
      qed
      then obtain h' i' where h': "heap_down ls sw h1 j n = Some (h', i')" "keeps n h1 h'" "j \<le> i'"
           "heap_hole (lt (frame h)) (contents h') n i'" "heap_kids (lt (frame h)) (contents h') n i'"
           "j < i' \<Longrightarrow> \<not> lt (frame h) (contents h' ! i') (contents h' ! heap_parent i')"
           "j = i' \<Longrightarrow> h' = h1"
        unfolding pre(2) by blast
      have "\<not> lt (frame h) (contents h' ! i') (contents h' ! heap_parent i')"
        using h'(3,6,7) st(2) h1(3) j(4) by (cases "j = i'") auto
      moreover have "heap_down ls sw h i n = Some (h', i')"
        using True j(1) cmp lt h1(1) h'(1) by (simp add: heap_down.simps [of ls sw h i n])
      ultimately show ?thesis
        using h'(3-5) keeps_trans [OF h1(2) h'(2)] ij by auto
    qed
  qed
qed

text \<open>\<open>down\<close> followed, if the element did not move, by \<open>up\<close>, repairs a hole.\<close>

lemma down_up_ok:
  assumes "hinv h" "i < n" "n \<le> length (contents h)" "heap_hole (lt (frame h)) (contents h) n i"
  shows "\<exists>h1 i' h'. heap_down ls sw h i n = Some (h1, i') \<and>
           (if i < i' then Some h1 else heap_up ls sw h1 i) = Some h' \<and>
           keeps n h h' \<and> heap_ordered (lt (frame h)) (contents h') n"
proof -
  obtain h1 i' where d: "heap_down ls sw h i n = Some (h1, i')" "keeps n h h1" "i \<le> i'"
      "heap_hole (lt (frame h)) (contents h1) n i'" "heap_kids (lt (frame h)) (contents h1) n i'"
      "i < i' \<longrightarrow> \<not> lt (frame h) (contents h1 ! i') (contents h1 ! heap_parent i')"
      "i = i' \<longrightarrow> h1 = h"
    using down_ok [OF assms(1,3,4)] by blast
  show ?thesis
  proof (cases "i < i'")
    case True
    then have "heap_ordered (lt (frame h)) (contents h1) n"
      using d heap_orderedI by blast
    with d True show ?thesis by auto
  next
    case False
    with d have "i = i'" "h1 = h" by auto
    with up_ok [of h i n] assms d show ?thesis by auto
  qed
qed

lemma push_up_ok:
  assumes "hinv h'" "contents h' = contents h @ [x]" "frame h' = frame h"
    and "heap_ordered (lt (frame h)) (contents h) (length (contents h))"
  shows "\<exists>h''. heap_up ls sw h' (length (contents h)) = Some h'' \<and>
           keeps (length (contents h')) h' h'' \<and>
           heap_ordered (lt (frame h)) (contents h'') (length (contents h'))"
  using up_ok [of h' "length (contents h)" "Suc (length (contents h))"]
    heap_hole_snoc [OF assms(4), of x] assms by auto

lemma fix_ok:
  assumes "hinv h" "len h = length (contents h)" "i < len h"
    and "heap_hole (lt (frame h)) (contents h) (len h) i"
  shows "\<exists>h'. heap_Fix len ls sw h i = Some h' \<and> keeps (len h) h h' \<and>
           heap_ordered (lt (frame h)) (contents h') (len h)"
proof -
  obtain h1 i' h' where r: "heap_down ls sw h i (len h) = Some (h1, i')"
      "(if i < i' then Some h1 else heap_up ls sw h1 i) = Some h'"
      "keeps (len h) h h'" "heap_ordered (lt (frame h)) (contents h') (len h)"
    using down_up_ok [of h i "len h"] assms by auto
  then have "heap_Fix len ls sw h i = Some h'" by (simp add: heap_Fix_def)
  with r show ?thesis by blast
qed

text \<open>Moving the last element into position \<open>i\<close> of a heap leaves a hole among the others.\<close>

lemma swap_last_hole:
  assumes swo: "strict_weak_order r" and "heap_ordered r xs (length xs)" "i < n" "length xs = Suc n"
  shows "heap_hole r (list_swap xs i n) n i"
proof -
  have "heap_ordered r xs n" using assms by (simp add: heap_ordered_def)
  then have "heap_hole r (xs[i := xs ! n]) n i"
    using heap_hole_update [OF swo] assms by simp
  moreover have "list_swap xs i n ! k = xs[i := xs ! n] ! k" if "k < n" for k
    using that assms by (simp add: nth_list_swap nth_list_update)
  moreover have "heap_parent k < n" if "k < n" for k
    using that heap_parent_less [of k] by (cases "k = 0") auto
  ultimately show ?thesis using \<open>i < n\<close> by (auto simp: heap_hole_def)
qed

text \<open>
  \<open>heap.Remove\<close> and \<open>heap.Pop\<close> up to the final call of the implementation's \<open>Pop\<close>: the
  removed element has become the last one, and the others form a heap.
\<close>

lemma remove_prefix_ok:
  assumes inv: "hinv h" and len: "length (contents h) = Suc n" and "i < n"
    and heap: "heap_ordered (lt (frame h)) (contents h) (Suc n)"
  shows "\<exists>h1 h2 i' h3. sw h i n = Some h1 \<and> heap_down ls sw h1 i n = Some (h2, i') \<and>
     (if i < i' then Some h2 else heap_up ls sw h2 i) = Some h3 \<and>
     keeps (Suc n) h h3 \<and> contents h3 ! n = contents h ! i \<and>
     heap_ordered (lt (frame h)) (contents h3) n"
proof -
  obtain h1 where h1: "sw h i n = Some h1" "hinv h1" "frame h1 = frame h"
      "contents h1 = list_swap (contents h) i n"
    using swap_ok [OF inv, of i n] assms by auto
  have hole: "heap_hole (lt (frame h1)) (contents h1) n i"
    unfolding h1(3,4)
    by (rule swap_last_hole) (use assms order [OF inv] in auto)
  obtain h2 i' h3 where r: "heap_down ls sw h1 i n = Some (h2, i')"
      "(if i < i' then Some h2 else heap_up ls sw h2 i) = Some h3"
      "keeps n h1 h3" "heap_ordered (lt (frame h)) (contents h3) n"
    using down_up_ok [OF h1(2) \<open>i < n\<close> _ hole] len h1 by auto
  have l3: "length (contents h3) = Suc n"
    using keeps_length [OF r(3)] h1(4) len by simp
  have "contents h3 ! n = drop n (contents h3) ! 0" using l3 by simp
  also have "\<dots> = contents h1 ! n" using r(3) h1(4) len by (simp add: keeps_def)
  finally have "contents h3 ! n = contents h ! i"
    using h1(4) len \<open>i < n\<close> by (simp add: nth_list_swap)
  moreover have "keeps (Suc n) h h3"
    using r(3) h1 len \<open>i < n\<close> l3 by (simp add: keeps_def)
  ultimately show ?thesis using h1(1) r by blast
qed

lemma pop_prefix_ok:
  assumes inv: "hinv h" and len: "length (contents h) = Suc n"
    and heap: "heap_ordered (lt (frame h)) (contents h) (Suc n)"
  shows "\<exists>h1 h2 i'. sw h 0 n = Some h1 \<and> heap_down ls sw h1 0 n = Some (h2, i') \<and>
     keeps (Suc n) h h2 \<and> contents h2 ! n = contents h ! 0 \<and>
     heap_ordered (lt (frame h)) (contents h2) n"
proof (cases n)
  case 0
  obtain h1 where h1: "sw h 0 n = Some h1" "hinv h1" "frame h1 = frame h"
      "contents h1 = list_swap (contents h) 0 n"
    using swap_ok [OF inv, of 0 n] assms by auto
  with 0 len show ?thesis
    by (simp add: heap_down.simps [of ls sw _ 0 0] keeps_def heap_ordered_def nth_list_swap)
next
  case (Suc m)
  obtain h1 h2 i' h3 where r: "sw h 0 n = Some h1" "heap_down ls sw h1 0 n = Some (h2, i')"
     "(if 0 < i' then Some h2 else heap_up ls sw h2 0) = Some h3"
     "keeps (Suc n) h h3" "contents h3 ! n = contents h ! 0"
     "heap_ordered (lt (frame h)) (contents h3) n"
    using remove_prefix_ok [OF inv len _ heap, of 0] Suc by auto
  have "h3 = h2" using r(3) by (simp add: heap_up.simps [of ls sw h2 0] split: if_splits)
  with r show ?thesis by blast
qed

end

end
