(* ===== verification/Keyed_Queue.thy ===== *)
theory Keyed_Queue
  imports Container_Heap
begin

text \<open>
  The contract that the repository's keyed heaps offer their clients: a finite map from keys
  to objects, where adding an object replaces the one with its key, and where \<open>Pop\<close> removes
  an object that no other precedes. Clients (the scheduling queue) rely on these laws only.
\<close>

locale keyed_queue =
  fixes qinv :: "'q \<Rightarrow> bool"
    and qmap :: "'q \<Rightarrow> string \<rightharpoonup> 'a"
    and qkey :: "'q \<Rightarrow> 'a \<Rightarrow> go_error + string"
    and qless :: "'q \<Rightarrow> 'a \<Rightarrow> 'a \<Rightarrow> bool"
    and qadd :: "'q \<Rightarrow> 'a \<Rightarrow> ('q \<times> go_error option) go"
    and qdelete :: "'q \<Rightarrow> 'a \<Rightarrow> ('q \<times> go_error option) go"
    and qpop :: "'q \<Rightarrow> ('q \<times> (go_error + 'a)) go"
    and qpeek :: "'q \<Rightarrow> 'a option go"
    and qlen :: "'q \<Rightarrow> nat"
  assumes q_finite: "qinv q \<Longrightarrow> finite (dom (qmap q))"
    and q_keys: "qinv q \<Longrightarrow> qmap q k = Some x \<Longrightarrow> qkey q x = Inr k"
    and q_order: "qinv q \<Longrightarrow> strict_weak_order (qless q)"
    and q_len: "qinv q \<Longrightarrow> qlen q = card (dom (qmap q))"
    and q_add: "qinv q \<Longrightarrow> qkey q x = Inr k \<Longrightarrow>
      \<exists>q'. qadd q x = Some (q', None) \<and> qinv q' \<and> qmap q' = (qmap q)(k \<mapsto> x) \<and>
           qkey q' = qkey q \<and> qless q' = qless q"
    and q_add_err: "qkey q x = Inl e \<Longrightarrow> qadd q x = Some (q, Some (KeyError e))"
    and q_delete: "qinv q \<Longrightarrow> qkey q x = Inr k \<Longrightarrow> qmap q k \<noteq> None \<Longrightarrow>
      \<exists>q'. qdelete q x = Some (q', None) \<and> qinv q' \<and> qmap q' = (qmap q)(k := None) \<and>
           qkey q' = qkey q \<and> qless q' = qless q"
    and q_delete_absent: "qkey q x = Inr k \<Longrightarrow> qmap q k = None \<Longrightarrow>
      \<exists>e. qdelete q x = Some (q, Some e)"
    and q_delete_err: "qkey q x = Inl e \<Longrightarrow> qdelete q x = Some (q, Some (KeyError e))"
    and q_pop: "qinv q \<Longrightarrow> qmap q \<noteq> Map.empty \<Longrightarrow>
      \<exists>q' x k. qpop q = Some (q', Inr x) \<and> qinv q' \<and> qmap q k = Some x \<and>
           qmap q' = (qmap q)(k := None) \<and> (\<forall>y \<in> ran (qmap q). \<not> qless q y x) \<and>
           qkey q' = qkey q \<and> qless q' = qless q"
    and q_peek_empty: "qinv q \<Longrightarrow> qmap q = Map.empty \<Longrightarrow> qpeek q = Some None"
    and q_peek: "qinv q \<Longrightarrow> qpop q = Some (q', Inr x) \<Longrightarrow> qpeek q = Some (Some x)"

text \<open>Popping \<open>n\<close> times, stopping at the first error.\<close>

fun pop_all :: "('q \<Rightarrow> ('q \<times> (go_error + 'a)) go) \<Rightarrow> nat \<Rightarrow> 'q \<Rightarrow> 'a list go" where
  "pop_all pop 0 q = Some []"
| "pop_all pop (Suc n) q =
     (case pop q of
        Some (q', Inr x) \<Rightarrow> map_option (Cons x) (pop_all pop n q')
      | _ \<Rightarrow> None)"

context keyed_queue
begin

lemma ran_upd_None:
  assumes "qinv q" "qmap q k = Some x"
  shows "ran ((qmap q)(k := None)) = ran (qmap q) - {x}"
  using q_keys [OF assms(1)] assms(2) by (intro ran_upd_None_unique) (auto, metis Inr_inject)

lemma pop_all_drains:
  assumes "qinv q" "card (dom (qmap q)) = n"
  shows "\<exists>xs. pop_all qpop n q = Some xs \<and> set xs = ran (qmap q) \<and> distinct xs \<and>
           sorted_wrt (\<lambda>x y. \<not> qless q y x) xs"
  using assms
proof (induction n arbitrary: q)
  case 0
  then have "qmap q = Map.empty" using q_finite by simp
  then show ?case by simp
next
  case (Suc n)
  then have "qmap q \<noteq> Map.empty" by auto
  then obtain q' x k where p: "qpop q = Some (q', Inr x)" "qinv q'" "qmap q k = Some x"
      "qmap q' = (qmap q)(k := None)" "\<forall>y \<in> ran (qmap q). \<not> qless q y x" "qless q' = qless q"
    using q_pop [OF Suc.prems(1)] by blast
  have "card (dom (qmap q')) = n"
    using Suc.prems q_finite p(3,4) by (simp add: domI)
  then obtain xs where xs: "pop_all qpop n q' = Some xs" "set xs = ran (qmap q')" "distinct xs"
      "sorted_wrt (\<lambda>x y. \<not> qless q y x) xs"
    using Suc.IH [OF p(2)] p(6) by auto
  have "ran (qmap q') = ran (qmap q) - {x}" "x \<in> ran (qmap q)"
    using ran_upd_None [OF Suc.prems(1) p(3)] p(3,4) by (auto intro: ranI)
  with p(1,5) xs show ?case by auto
qed

end

end
