(* ===== verification/Scheduler_Heap.thy ===== *)
theory Scheduler_Heap
  imports Keyed_Queue
begin

text \<open>
  The scheduler's keyed heap, \<open>pkg/scheduler/internal/heap/heap.go\<close>: a \<open>container/heap\<close>
  whose elements are also found by key. \<open>data\<close> keeps the objects in a map together with
  their position in the slice \<open>queue\<close> of keys; \<open>Heap\<close> wraps it with an optional metric
  recorder, modelled as the value of its gauge.

  The theory shows that the map and the slice stay in step, that no operation panics, and
  that the heap implements the contract \<open>keyed_queue\<close>: a finite map from keys to objects
  whose \<open>Pop\<close> returns a least object.
\<close>

section \<open>The data behind the heap\<close>

record 'a heapItem =
  hi_obj :: 'a
  hi_index :: nat

record 'a heap_data =
  hd_items :: "string \<rightharpoonup> 'a heapItem"
  hd_queue :: "string list"
  hd_keyFunc :: "'a \<Rightarrow> go_error + string"
  hd_lessFunc :: "'a \<Rightarrow> 'a \<Rightarrow> bool"

definition data_Less :: "'a heap_data \<Rightarrow> nat \<Rightarrow> nat \<Rightarrow> bool go" where
  "data_Less h i j =
     (let n = length (hd_queue h) in
      if i > n \<or> j > n then Some False
      else if i \<ge> n then None
      else (case hd_items h (hd_queue h ! i) of
          None \<Rightarrow> Some False
        | Some itemi \<Rightarrow>
            if j \<ge> n then None
            else (case hd_items h (hd_queue h ! j) of
                None \<Rightarrow> Some False
              | Some itemj \<Rightarrow> Some (hd_lessFunc h (hi_obj itemi) (hi_obj itemj)))))"

definition data_Len :: "'a heap_data \<Rightarrow> nat" where
  "data_Len h = length (hd_queue h)"

text \<open>\<open>item.index = i\<close> through the pointer found in the map; a missing key is a nil pointer.\<close>

definition set_index :: "'a heap_data \<Rightarrow> string \<Rightarrow> nat \<Rightarrow> 'a heap_data go" where
  "set_index h k i =
     (case hd_items h k of
        None \<Rightarrow> None
      | Some item \<Rightarrow> Some (h\<lparr>hd_items := (hd_items h)(k \<mapsto> item\<lparr>hi_index := i\<rparr>)\<rparr>))"

definition data_Swap :: "'a heap_data \<Rightarrow> nat \<Rightarrow> nat \<Rightarrow> 'a heap_data go" where
  "data_Swap h i j =
     (if i \<ge> length (hd_queue h) \<or> j \<ge> length (hd_queue h) then None
      else
        let q = list_swap (hd_queue h) i j in
        do {
          h1 \<leftarrow> set_index (h\<lparr>hd_queue := q\<rparr>) (q ! i) i;
          set_index h1 (q ! j) j
        })"

definition data_Push :: "'a heap_data \<Rightarrow> string \<times> 'a \<Rightarrow> 'a heap_data" where
  "data_Push h kv =
     (let n = length (hd_queue h) in
      h\<lparr>hd_items := (hd_items h)(fst kv \<mapsto> \<lparr>hi_obj = snd kv, hi_index = n\<rparr>),
        hd_queue := hd_queue h @ [fst kv]\<rparr>)"

definition data_Pop :: "'a heap_data \<Rightarrow> ('a option \<times> 'a heap_data) go" where
  "data_Pop h =
     (if hd_queue h = [] then None
      else
        let key = last (hd_queue h); h1 = h\<lparr>hd_queue := butlast (hd_queue h)\<rparr> in
        (case hd_items h key of
           None \<Rightarrow> Some (None, h1)
         | Some item \<Rightarrow> Some (Some (hi_obj item), h1\<lparr>hd_items := (hd_items h)(key := None)\<rparr>)))"

definition data_Peek :: "'a heap_data \<Rightarrow> 'a option go" where
  "data_Peek h =
     (if length (hd_queue h) > 0
      then (case hd_items h (hd_queue h ! 0) of
              None \<Rightarrow> None
            | Some item \<Rightarrow> Some (Some (hi_obj item)))
      else Some None)"

section \<open>The heap\<close>

record 'a Heap =
  h_data :: "'a heap_data"
  h_metricRecorder :: "int option"

definition metric_Inc :: "'a Heap \<Rightarrow> 'a Heap" where
  "metric_Inc h = h\<lparr>h_metricRecorder := map_option (\<lambda>m. m + 1) (h_metricRecorder h)\<rparr>"

definition metric_Dec :: "'a Heap \<Rightarrow> 'a Heap" where
  "metric_Dec h = h\<lparr>h_metricRecorder := map_option (\<lambda>m. m - 1) (h_metricRecorder h)\<rparr>"

definition Heap_Add :: "'a Heap \<Rightarrow> 'a \<Rightarrow> ('a Heap \<times> go_error option) go" where
  "Heap_Add h x =
     (let d = h_data h in
      case hd_keyFunc d x of
        Inl err \<Rightarrow> Some (h, Some (KeyError err))
      | Inr key \<Rightarrow>
          (case hd_items d key of
             Some item \<Rightarrow>
               (let d1 = d\<lparr>hd_items := (hd_items d)(key \<mapsto> item\<lparr>hi_obj := x\<rparr>)\<rparr> in
                do {
                  d2 \<leftarrow> heap_Fix data_Len data_Less data_Swap d1 (hi_index item);
                  Some (h\<lparr>h_data := d2\<rparr>, None)
                })
           | None \<Rightarrow>
               do {
                 d1 \<leftarrow> heap_Push data_Len data_Less data_Swap data_Push d (key, x);
                 Some (metric_Inc (h\<lparr>h_data := d1\<rparr>), None)
               }))"

definition Heap_AddIfNotPresent :: "'a Heap \<Rightarrow> 'a \<Rightarrow> ('a Heap \<times> go_error option) go" where
  "Heap_AddIfNotPresent h x =
     (let d = h_data h in
      case hd_keyFunc d x of
        Inl err \<Rightarrow> Some (h, Some (KeyError err))
      | Inr key \<Rightarrow>
          (if hd_items d key = None then
             do {
               d1 \<leftarrow> heap_Push data_Len data_Less data_Swap data_Push d (key, x);
               Some (metric_Inc (h\<lparr>h_data := d1\<rparr>), None)
             }
           else Some (h, None)))"

definition Heap_Update :: "'a Heap \<Rightarrow> 'a \<Rightarrow> ('a Heap \<times> go_error option) go" where
  "Heap_Update h x = Heap_Add h x"

definition Heap_Delete :: "'a Heap \<Rightarrow> 'a \<Rightarrow> ('a Heap \<times> go_error option) go" where
  "Heap_Delete h x =
     (let d = h_data h in
      case hd_keyFunc d x of
        Inl err \<Rightarrow> Some (h, Some (KeyError err))
      | Inr key \<Rightarrow>
          (case hd_items d key of
             Some item \<Rightarrow>
               do {
                 (_, d1) \<leftarrow> heap_Remove data_Len data_Less data_Swap data_Pop d (hi_index item);
                 Some (metric_Dec (h\<lparr>h_data := d1\<rparr>), None)
               }
           | None \<Rightarrow> Some (h, Some (Errorf ''object not found''))))"

definition Heap_Peek :: "'a Heap \<Rightarrow> 'a option go" where
  "Heap_Peek h = data_Peek (h_data h)"

definition Heap_Pop :: "'a Heap \<Rightarrow> ('a Heap \<times> (go_error + 'a)) go" where
  "Heap_Pop h =
     do {
       (x, d1) \<leftarrow> heap_Pop data_Len data_Less data_Swap data_Pop (h_data h);
       Some (case x of
           Some y \<Rightarrow> (metric_Dec (h\<lparr>h_data := d1\<rparr>), Inr y)
         | None \<Rightarrow> (h\<lparr>h_data := d1\<rparr>, Inl (Errorf ''object was removed from heap data'')))
     }"

definition Heap_GetByKey :: "'a Heap \<Rightarrow> string \<Rightarrow> 'a option" where
  "Heap_GetByKey h key = map_option hi_obj (hd_items (h_data h) key)"

definition Heap_Get :: "'a Heap \<Rightarrow> 'a \<Rightarrow> go_error + 'a option" where
  "Heap_Get h x =
     (case hd_keyFunc (h_data h) x of
        Inl err \<Rightarrow> Inl (KeyError err)
      | Inr key \<Rightarrow> Inr (Heap_GetByKey h key))"

text \<open>\<open>List\<close> ranges over the map; \<open>ks\<close> is the order in which it does.\<close>

definition Heap_List :: "string list \<Rightarrow> 'a Heap \<Rightarrow> 'a list" where
  "Heap_List ks h = List.map_filter (Heap_GetByKey h) ks"

definition Heap_Len :: "'a Heap \<Rightarrow> nat" where
  "Heap_Len h = length (hd_queue (h_data h))"

definition NewWithRecorder ::
  "('a \<Rightarrow> go_error + string) \<Rightarrow> ('a \<Rightarrow> 'a \<Rightarrow> bool) \<Rightarrow> int option \<Rightarrow> 'a Heap" where
  "NewWithRecorder keyFn lessFn metricRecorder =
     \<lparr>h_data = \<lparr>hd_items = Map.empty, hd_queue = [], hd_keyFunc = keyFn, hd_lessFunc = lessFn\<rparr>,
      h_metricRecorder = metricRecorder\<rparr>"

definition Heap_New :: "('a \<Rightarrow> go_error + string) \<Rightarrow> ('a \<Rightarrow> 'a \<Rightarrow> bool) \<Rightarrow> 'a Heap" where
  "Heap_New keyFn lessFn = NewWithRecorder keyFn lessFn None"

section \<open>The map and the slice stay in step\<close>

definition data_inv :: "'a heap_data \<Rightarrow> bool" where
  "data_inv d \<longleftrightarrow>
     strict_weak_order (hd_lessFunc d) \<and>
     distinct (hd_queue d) \<and> dom (hd_items d) = set (hd_queue d) \<and>
     (\<forall>i < length (hd_queue d). \<exists>x. hd_items d (hd_queue d ! i) = Some \<lparr>hi_obj = x, hi_index = i\<rparr>
          \<and> hd_keyFunc d x = Inr (hd_queue d ! i))"

definition data_contents :: "'a heap_data \<Rightarrow> 'a list" where
  "data_contents d = map (\<lambda>k. hi_obj (the (hd_items d k))) (hd_queue d)"

definition data_frame :: "'a heap_data \<Rightarrow> ('a \<Rightarrow> go_error + string) \<times> ('a \<Rightarrow> 'a \<Rightarrow> bool)" where
  "data_frame d = (hd_keyFunc d, hd_lessFunc d)"

lemma length_data_contents [simp]: "length (data_contents d) = length (hd_queue d)"
  by (simp add: data_contents_def)

lemma data_inv_nth:
  assumes "data_inv d" "i < length (hd_queue d)"
  shows "hd_items d (hd_queue d ! i) = Some \<lparr>hi_obj = data_contents d ! i, hi_index = i\<rparr>"
    and "hd_keyFunc d (data_contents d ! i) = Inr (hd_queue d ! i)"
  using assms by (auto simp: data_inv_def data_contents_def)

lemma data_inv_item:
  assumes "data_inv d" "hd_items d k = Some item"
  shows "hi_index item < length (hd_queue d)" "hd_queue d ! hi_index item = k"
    "data_contents d ! hi_index item = hi_obj item" "hd_keyFunc d (hi_obj item) = Inr k"
proof -
  from assms have "k \<in> set (hd_queue d)" by (auto simp: data_inv_def)
  then obtain i where i: "i < length (hd_queue d)" "hd_queue d ! i = k"
    by (auto simp: in_set_conv_nth)
  with data_inv_nth [OF assms(1) i(1)] assms(2)
  show "hi_index item < length (hd_queue d)" "hd_queue d ! hi_index item = k"
    "data_contents d ! hi_index item = hi_obj item" "hd_keyFunc d (hi_obj item) = Inr k"
    by auto
qed

lemma data_Less_ok:
  assumes "data_inv d" "i < length (data_contents d)" "j < length (data_contents d)"
  shows "data_Less d i j = Some (snd (data_frame d) (data_contents d ! i) (data_contents d ! j))"
  using assms by (simp add: data_Less_def data_frame_def data_inv_nth)

lemma data_Swap_ok:
  assumes inv: "data_inv d" and i: "i < length (data_contents d)" and j: "j < length (data_contents d)"
  shows "\<exists>d'. data_Swap d i j = Some d' \<and> data_inv d' \<and> data_frame d' = data_frame d \<and>
           data_contents d' = list_swap (data_contents d) i j"
proof -
  let ?q = "hd_queue d" and ?q' = "list_swap (hd_queue d) i j"
  let ?x = "\<lambda>k. data_contents d ! k"
  let ?m = "(hd_items d)(?q ! j \<mapsto> \<lparr>hi_obj = ?x j, hi_index = i\<rparr>, ?q ! i \<mapsto> \<lparr>hi_obj = ?x i, hi_index = j\<rparr>)"
  let ?d = "d\<lparr>hd_items := ?m, hd_queue := ?q'\<rparr>"
  have ij: "i < length ?q" "j < length ?q" using i j by simp_all
  have dist: "distinct ?q" using inv by (simp add: data_inv_def)
  have q': "?q' ! i = ?q ! j" "?q' ! j = ?q ! i" using ij by (simp_all add: nth_list_swap)
  note at = data_inv_nth [OF inv ij(1)] data_inv_nth [OF inv ij(2)]
  have "data_Swap d i j = Some ?d"
  proof (cases "i = j")
    case True
    with ij at(1) show ?thesis by (simp add: data_Swap_def set_index_def nth_list_swap Let_def)
  next
    case False
    with dist ij have "?q ! i \<noteq> ?q ! j" by (simp add: nth_eq_iff_index_eq)
    with ij at(1,3) show ?thesis by (simp add: data_Swap_def set_index_def q' Let_def)
  qed
  moreover have nth: "hd_items ?d (?q' ! k) = Some \<lparr>hi_obj = list_swap (data_contents d) i j ! k, hi_index = k\<rparr>
      \<and> hd_keyFunc ?d (list_swap (data_contents d) i j ! k) = Inr (?q' ! k)"
    if "k < length ?q'" for k
    using that ij at data_inv_nth [OF inv, of k] dist
    by (auto simp: nth_list_swap nth_eq_iff_index_eq)
  moreover have "dom ?m = set ?q'"
    using inv ij by (auto simp: data_inv_def)
  ultimately show ?thesis
    using inv ij by (auto simp: data_inv_def data_frame_def data_contents_def intro!: nth_equalityI)
qed

interpretation sched_heap: heap_interface data_inv data_contents data_frame snd data_Less data_Swap
proof unfold_locales
  fix h :: "'a heap_data" assume "data_inv h"
  then show "strict_weak_order (snd (data_frame h))" by (simp add: data_inv_def data_frame_def)
qed (auto simp: data_Less_ok dest: data_Swap_ok)


section \<open>The heap as a keyed queue\<close>

definition data_map :: "'a heap_data \<Rightarrow> string \<rightharpoonup> 'a" where
  "data_map d k = map_option hi_obj (hd_items d k)"

lemma data_map_iff:
  assumes "data_inv d"
  shows "data_map d k = Some x \<longleftrightarrow> x \<in> set (data_contents d) \<and> hd_keyFunc d x = Inr k"
proof
  assume "data_map d k = Some x"
  then obtain item where "hd_items d k = Some item" "hi_obj item = x"
    by (auto simp: data_map_def)
  with data_inv_item [OF assms] show "x \<in> set (data_contents d) \<and> hd_keyFunc d x = Inr k"
    by (metis length_data_contents nth_mem)
next
  assume *: "x \<in> set (data_contents d) \<and> hd_keyFunc d x = Inr k"
  then obtain i where "i < length (hd_queue d)" "x = data_contents d ! i"
    by (auto simp: in_set_conv_nth)
  with data_inv_nth [OF assms this(1)] * show "data_map d k = Some x"
    by (auto simp: data_map_def)
qed

lemma distinct_data_contents:
  assumes "data_inv d"
  shows "distinct (data_contents d)"
  unfolding distinct_conv_nth
proof (intro allI impI)
  fix i j assume "i < length (data_contents d)" "j < length (data_contents d)" "i \<noteq> j"
  then have "hd_queue d ! i \<noteq> hd_queue d ! j"
    using assms by (simp add: data_inv_def nth_eq_iff_index_eq)
  with data_inv_nth(2) [OF assms] \<open>i < _\<close> \<open>j < _\<close>
  show "data_contents d ! i \<noteq> data_contents d ! j" by (metis Inr_inject length_data_contents)
qed

lemma data_map_cong:
  assumes "data_inv d" "data_inv d'" "hd_keyFunc d' = hd_keyFunc d"
    and "set (data_contents d') = set (data_contents d)"
  shows "data_map d' = data_map d"
  by (rule map_Some_eqI) (simp add: data_map_iff assms)

lemma dom_data_map [simp]: "dom (data_map d) = dom (hd_items d)"
  by (auto simp: data_map_def)

definition heap_inv :: "'a Heap \<Rightarrow> bool" where
  "heap_inv h \<longleftrightarrow> data_inv (h_data h) \<and>
     heap_ordered (hd_lessFunc (h_data h)) (data_contents (h_data h)) (length (hd_queue (h_data h)))"

definition heap_map :: "'a Heap \<Rightarrow> string \<rightharpoonup> 'a" where
  "heap_map h = data_map (h_data h)"

abbreviation heap_key :: "'a Heap \<Rightarrow> 'a \<Rightarrow> go_error + string" where
  "heap_key h \<equiv> hd_keyFunc (h_data h)"

abbreviation heap_less :: "'a Heap \<Rightarrow> 'a \<Rightarrow> 'a \<Rightarrow> bool" where
  "heap_less h \<equiv> hd_lessFunc (h_data h)"

text \<open>The recorder's gauge shows the number of elements relative to its start.\<close>

definition recorder_moves :: "'a Heap \<Rightarrow> 'a Heap \<Rightarrow> bool" where
  "recorder_moves h h' \<longleftrightarrow>
     (case (h_metricRecorder h, h_metricRecorder h') of
        (None, None) \<Rightarrow> True
      | (Some m, Some m') \<Rightarrow> m' - m = int (Heap_Len h') - int (Heap_Len h)
      | _ \<Rightarrow> False)"

lemma keeps_data_map:
  assumes "data_inv d" "sched_heap.keeps n d d'"
  shows "data_inv d'" "data_frame d' = data_frame d" "data_map d' = data_map d"
    "length (hd_queue d') = length (hd_queue d)"
proof -
  from assms(2) show inv: "data_inv d'" and fr: "data_frame d' = data_frame d"
    by (auto simp: sched_heap.keeps_def)
  have "set (data_contents d') = set (data_contents d)"
    using assms(2) mset_eq_setD by (auto simp: sched_heap.keeps_def)
  with assms(1) inv fr show "data_map d' = data_map d"
    by (intro data_map_cong) (auto simp: data_frame_def)
  show "length (hd_queue d') = length (hd_queue d)"
    using sched_heap.keeps_length [OF assms(2)] by simp
qed

text \<open>Storing a new object under a present key, and appending a new key.\<close>

lemma data_set_obj:
  assumes inv: "data_inv d" and item: "hd_items d k = Some item" and key: "hd_keyFunc d x = Inr k"
  defines "d1 \<equiv> d\<lparr>hd_items := (hd_items d)(k \<mapsto> item\<lparr>hi_obj := x\<rparr>)\<rparr>"
  shows "data_inv d1" "data_contents d1 = (data_contents d)[hi_index item := x]"
    "data_map d1 = (data_map d)(k \<mapsto> x)"
proof -
  note it = data_inv_item [OF inv item]
  have at: "hd_items d1 (hd_queue d ! i) =
      Some \<lparr>hi_obj = (data_contents d)[hi_index item := x] ! i, hi_index = i\<rparr>"
    if "i < length (hd_queue d)" for i
  proof (cases "i = hi_index item")
    case True
    with it show ?thesis by (cases item) (simp add: d1_def)
  next
    case False
    with that it inv have "hd_queue d ! i \<noteq> k"
      by (metis data_inv_def nth_eq_iff_index_eq)
    with False that data_inv_nth [OF inv that] show ?thesis by (simp add: d1_def)
  qed
  then show c: "data_contents d1 = (data_contents d)[hi_index item := x]"
    by (intro nth_equalityI) (auto simp: data_contents_def d1_def)
  have "hd_keyFunc d ((data_contents d)[hi_index item := x] ! i) = Inr (hd_queue d ! i)"
    if "i < length (hd_queue d)" for i
    using that it key data_inv_nth [OF inv that] by (auto simp: nth_list_update)
  with at inv item show "data_inv d1"
    by (auto simp: data_inv_def d1_def)
  show "data_map d1 = (data_map d)(k \<mapsto> x)"
    by (auto simp: data_map_def d1_def)
qed

lemma data_Push_ok:
  assumes inv: "data_inv d" and new: "hd_items d k = None" and key: "hd_keyFunc d x = Inr k"
  shows "data_inv (data_Push d (k, x))" "data_contents (data_Push d (k, x)) = data_contents d @ [x]"
    "data_map (data_Push d (k, x)) = (data_map d)(k \<mapsto> x)"
    "data_frame (data_Push d (k, x)) = data_frame d"
proof -
  have notin: "k \<notin> set (hd_queue d)" using inv new by (auto simp: data_inv_def)
  then show c: "data_contents (data_Push d (k, x)) = data_contents d @ [x]"
    by (auto simp: data_contents_def data_Push_def)
  have "\<exists>y. hd_items (data_Push d (k, x)) ((hd_queue d @ [k]) ! i) = Some \<lparr>hi_obj = y, hi_index = i\<rparr>
          \<and> hd_keyFunc d y = Inr ((hd_queue d @ [k]) ! i)" if "i < Suc (length (hd_queue d))" for i
  proof (cases "i < length (hd_queue d)")
    case True
    then have "hd_queue d ! i \<noteq> k" using notin nth_mem by metis
    with True data_inv_nth [OF inv True] show ?thesis by (simp add: data_Push_def nth_append)
  next
    case False
    with that key show ?thesis by (simp add: data_Push_def nth_append)
  qed
  with inv notin show "data_inv (data_Push d (k, x))"
    by (auto simp: data_inv_def data_Push_def)
qed (auto simp: data_map_def data_frame_def data_Push_def)

text \<open>The final \<open>Pop\<close> of \<open>heap.Pop\<close> and \<open>heap.Remove\<close>.\<close>

lemma data_Pop_ok:
  assumes inv: "data_inv d" and len: "length (hd_queue d) = Suc n"
  defines "x \<equiv> data_contents d ! n"
  shows "\<exists>d'. data_Pop d = Some (Some x, d') \<and> data_inv d' \<and> data_frame d' = data_frame d \<and>
           data_contents d' = take n (data_contents d) \<and>
           data_map d' = (data_map d)(hd_queue d ! n := None) \<and> length (hd_queue d') = n"
proof -
  let ?k = "hd_queue d ! n"
  let ?d = "d\<lparr>hd_queue := take n (hd_queue d), hd_items := (hd_items d)(?k := None)\<rparr>"
  have n: "n < length (hd_queue d)" using len by simp
  have dist: "distinct (hd_queue d)" using inv by (simp add: data_inv_def)
  have kn: "hd_queue d ! i \<noteq> ?k" if "i < n" for i
    using that n dist by (simp add: nth_eq_iff_index_eq)
  have ne: "hd_queue d \<noteq> []" using len by auto
  then have q: "last (hd_queue d) = ?k" "butlast (hd_queue d) = take n (hd_queue d)"
    using len by (simp_all add: last_conv_nth butlast_conv_take)
  have "data_Pop d = Some (Some x, ?d)"
    using ne q data_inv_nth(1) [OF inv n] by (simp add: data_Pop_def x_def Let_def)
  moreover have "set (take n (hd_queue d)) = set (hd_queue d) - {?k}"
    using dist len by (rule set_take_distinct)
  then have "data_inv ?d"
    using inv data_inv_nth [OF inv] n kn by (auto simp: data_inv_def)
  moreover have "data_contents ?d = take n (data_contents d)"
    using kn n by (intro nth_equalityI) (auto simp: data_contents_def)
  moreover have "data_map ?d = (data_map d)(?k := None)"
    by (auto simp: data_map_def)
  ultimately show ?thesis using len by (intro exI [of _ ?d]) (auto simp: data_frame_def)
qed


text \<open>What every successful operation ensures: the invariant, the new contents \<open>m\<close>, the
  same key and order functions, and a gauge that follows the length.\<close>

definition heap_step :: "'a Heap \<Rightarrow> 'a Heap \<Rightarrow> (string \<rightharpoonup> 'a) \<Rightarrow> bool" where
  "heap_step h h' m \<longleftrightarrow> heap_inv h' \<and> heap_map h' = m \<and> heap_key h' = heap_key h \<and>
     heap_less h' = heap_less h \<and> recorder_moves h h'"

lemma Heap_Len_card: "heap_inv h \<Longrightarrow> Heap_Len h = card (dom (heap_map h))"
  by (auto simp: heap_inv_def data_inv_def Heap_Len_def heap_map_def distinct_card)

lemma Heap_Push_ok:
  assumes inv: "heap_inv h" and new: "heap_map h k = None" and key: "heap_key h x = Inr k"
  shows "\<exists>d1. heap_Push data_Len data_Less data_Swap data_Push (h_data h) (k, x) = Some d1 \<and>
           heap_step h (metric_Inc (h\<lparr>h_data := d1\<rparr>)) ((heap_map h)(k \<mapsto> x))"
proof -
  let ?d = "h_data h" and ?d' = "data_Push (h_data h) (k, x)"
  have new': "hd_items ?d k = None" using new by (simp add: heap_map_def data_map_def)
  have dinv: "data_inv ?d" and ord: "heap_ordered (heap_less h) (data_contents ?d) (length (data_contents ?d))"
    using inv by (auto simp: heap_inv_def)
  note push = data_Push_ok [OF dinv new' key]
  obtain d1 where d1: "heap_up data_Less data_Swap ?d' (length (data_contents ?d)) = Some d1"
      "sched_heap.keeps (length (data_contents ?d')) ?d' d1"
      "heap_ordered (heap_less h) (data_contents d1) (length (data_contents ?d'))"
    using sched_heap.push_up_ok [OF push(1,2,4)] ord by (auto simp: data_frame_def)
  have len: "length (hd_queue ?d') = Suc (length (hd_queue ?d))" by (simp add: data_Push_def)
  have run: "heap_Push data_Len data_Less data_Swap data_Push ?d (k, x) = Some d1"
    using d1(1) len by (simp add: heap_Push_def data_Len_def)
  note keep = keeps_data_map [OF push(1) d1(2)]
  have fr: "data_frame d1 = data_frame ?d" using keep(2) push(4) by simp
  have "heap_step h (metric_Inc (h\<lparr>h_data := d1\<rparr>)) ((heap_map h)(k \<mapsto> x))"
    using keep fr d1(3) push(3) len
    by (auto simp: heap_step_def heap_inv_def heap_map_def metric_Inc_def data_frame_def
        recorder_moves_def Heap_Len_def split: option.splits)
  with run show ?thesis by blast
qed

lemma Heap_Add_ok:
  assumes inv: "heap_inv h" and key: "heap_key h x = Inr k"
  shows "\<exists>h'. Heap_Add h x = Some (h', None) \<and> heap_step h h' ((heap_map h)(k \<mapsto> x))"
proof (cases "hd_items (h_data h) k")
  case None
  then have "heap_map h k = None" by (simp add: heap_map_def data_map_def)
  from Heap_Push_ok [OF inv this key] None key show ?thesis
    by (auto simp: Heap_Add_def)
next
  case (Some item)
  let ?d = "h_data h"
  let ?d1 = "?d\<lparr>hd_items := (hd_items ?d)(k \<mapsto> item\<lparr>hi_obj := x\<rparr>)\<rparr>"
  have dinv: "data_inv ?d" and ord: "heap_ordered (heap_less h) (data_contents ?d) (length (hd_queue ?d))"
    using inv by (auto simp: heap_inv_def)
  note set = data_set_obj [OF dinv Some key]
  note it = data_inv_item [OF dinv Some]
  have "heap_hole (heap_less h) (data_contents ?d1) (length (hd_queue ?d)) (hi_index item)"
    unfolding set(2) using dinv ord it(1) by (intro heap_hole_update) (auto simp: data_inv_def)
  then obtain d2 where d2: "heap_Fix data_Len data_Less data_Swap ?d1 (hi_index item) = Some d2"
      "sched_heap.keeps (data_Len ?d1) ?d1 d2"
      "heap_ordered (heap_less h) (data_contents d2) (data_Len ?d1)"
    using sched_heap.fix_ok [OF set(1), of data_Len "hi_index item"] it(1)
    by (auto simp: data_Len_def data_frame_def)
  note keep = keeps_data_map [OF set(1) d2(2)]
  have "heap_step h (h\<lparr>h_data := d2\<rparr>) ((heap_map h)(k \<mapsto> x))"
    using keep d2(3) set(3)
    by (auto simp: heap_step_def heap_inv_def heap_map_def data_frame_def recorder_moves_def
        Heap_Len_def data_Len_def split: option.splits)
  with d2(1) Some key show ?thesis by (auto simp: Heap_Add_def)
qed

lemma Heap_Delete_ok:
  assumes inv: "heap_inv h" and key: "heap_key h x = Inr k" and has: "heap_map h k \<noteq> None"
  shows "\<exists>h'. Heap_Delete h x = Some (h', None) \<and> heap_step h h' ((heap_map h)(k := None))"
proof -
  let ?d = "h_data h" and ?pop = "heap_Remove data_Len data_Less data_Swap data_Pop (h_data h)"
  obtain item where Some: "hd_items ?d k = Some item"
    using has by (auto simp: heap_map_def data_map_def)
  have dinv: "data_inv ?d" using inv by (simp add: heap_inv_def)
  note it = data_inv_item [OF dinv Some]
  obtain n where n: "length (hd_queue ?d) = Suc n" using it(1) by (cases "length (hd_queue ?d)") auto
  have ord: "heap_ordered (heap_less h) (data_contents ?d) (Suc n)"
    using inv n by (simp add: heap_inv_def)
  have "\<exists>d3. ?pop (hi_index item) = data_Pop d3 \<and> data_inv d3 \<and> data_frame d3 = data_frame ?d \<and>
      data_map d3 = data_map ?d \<and> length (hd_queue d3) = Suc n \<and> hd_queue d3 ! n = k \<and>
      heap_ordered (heap_less h) (take n (data_contents d3)) n"
  proof (cases "hi_index item = n")
    case True
    with dinv n it(2) ord show ?thesis
      by (intro exI [of _ ?d])
        (auto simp: heap_Remove_def data_Len_def heap_ordered_take intro: heap_ordered_mono)
  next
    case False
    with it(1) n have "hi_index item < n" by simp
    then obtain d1 d2 i' d3 where r: "data_Swap ?d (hi_index item) n = Some d1"
       "heap_down data_Less data_Swap d1 (hi_index item) n = Some (d2, i')"
       "(if hi_index item < i' then Some d2 else heap_up data_Less data_Swap d2 (hi_index item)) = Some d3"
       "sched_heap.keeps (Suc n) ?d d3" "data_contents d3 ! n = data_contents ?d ! hi_index item"
       "heap_ordered (heap_less h) (data_contents d3) n"
      using sched_heap.remove_prefix_ok [OF dinv, of n "hi_index item"] n ord
      by (auto simp: data_frame_def)
    note keep = keeps_data_map [OF dinv r(4)]
    have "hd_queue d3 ! n = k"
      using data_inv_nth(2) [OF keep(1), of n] keep(2,4) n r(5) it(3,4) by (simp add: data_frame_def)
    moreover have "?pop (hi_index item) = data_Pop d3"
      using False n r(1-3) by (simp add: heap_Remove_def data_Len_def Let_def)
    ultimately show ?thesis
      using keep n r(6) by (intro exI [of _ d3]) (auto simp: heap_ordered_take)
  qed
  then obtain d3 where d3: "?pop (hi_index item) = data_Pop d3" "data_inv d3"
      "data_frame d3 = data_frame ?d" "data_map d3 = data_map ?d" "length (hd_queue d3) = Suc n"
      "hd_queue d3 ! n = k" "heap_ordered (heap_less h) (take n (data_contents d3)) n"
    by blast
  obtain d' where d': "data_Pop d3 = Some (Some (data_contents d3 ! n), d')" "data_inv d'"
      "data_frame d' = data_frame ?d" "data_contents d' = take n (data_contents d3)"
      "data_map d' = (data_map ?d)(k := None)" "length (hd_queue d') = n"
    using data_Pop_ok [OF d3(2,5)] d3 by auto
  have "heap_step h (metric_Dec (h\<lparr>h_data := d'\<rparr>)) ((heap_map h)(k := None))"
    using d' d3(7) n
    by (auto simp: heap_step_def heap_inv_def heap_map_def metric_Dec_def data_frame_def
        recorder_moves_def Heap_Len_def split: option.splits)
  with d'(1) d3(1) Some key show ?thesis by (auto simp: Heap_Delete_def)
qed

lemma Heap_Pop_ok:
  assumes inv: "heap_inv h" and ne: "heap_map h \<noteq> Map.empty"
  shows "\<exists>h' x k. Heap_Pop h = Some (h', Inr x) \<and> heap_map h k = Some x \<and>
           heap_step h h' ((heap_map h)(k := None)) \<and> (\<forall>y \<in> ran (heap_map h). \<not> heap_less h y x) \<and>
           Heap_Peek h = Some (Some x)"
proof -
  let ?d = "h_data h"
  have dinv: "data_inv ?d" using inv by (simp add: heap_inv_def)
  have "hd_queue ?d \<noteq> []" using ne dinv by (auto simp: heap_map_def data_map_def data_inv_def)
  then obtain n where n: "length (hd_queue ?d) = Suc n" by (cases "hd_queue ?d") auto
  have ord: "heap_ordered (heap_less h) (data_contents ?d) (Suc n)"
    using inv n by (simp add: heap_inv_def)
  let ?x = "data_contents ?d ! 0"
  obtain d1 d2 i' where r: "data_Swap ?d 0 n = Some d1"
     "heap_down data_Less data_Swap d1 0 n = Some (d2, i')" "sched_heap.keeps (Suc n) ?d d2"
     "data_contents d2 ! n = ?x" "heap_ordered (heap_less h) (data_contents d2) n"
    using sched_heap.pop_prefix_ok [OF dinv, of n] n ord by (auto simp: data_frame_def)
  note keep = keeps_data_map [OF dinv r(3)]
  have l2: "length (hd_queue d2) = Suc n" using keep(4) n by simp
  have k: "hd_keyFunc ?d ?x = Inr (hd_queue d2 ! n)"
    using data_inv_nth(2) [OF keep(1), of n] l2 r(4) keep(2) by (simp add: data_frame_def)
  obtain d' where d': "data_Pop d2 = Some (Some ?x, d')" "data_inv d'"
      "data_frame d' = data_frame ?d" "data_contents d' = take n (data_contents d2)"
      "data_map d' = (data_map ?d)(hd_queue d2 ! n := None)" "length (hd_queue d') = n"
    using data_Pop_ok [OF keep(1) l2] r(4) keep by auto
  have run: "Heap_Pop h = Some (metric_Dec (h\<lparr>h_data := d'\<rparr>), Inr ?x)"
    using r(1,2) d'(1) n by (simp add: Heap_Pop_def heap_Pop_def data_Len_def)
  have x: "?x \<in> set (data_contents ?d)" using n by (simp add: nth_mem)
  then have mk: "heap_map h (hd_queue d2 ! n) = Some ?x"
    using k by (simp add: heap_map_def data_map_iff [OF dinv])
  have least: "\<not> heap_less h y ?x" if "y \<in> ran (heap_map h)" for y
  proof -
    from that have "y \<in> set (data_contents ?d)"
      by (auto simp: ran_def heap_map_def data_map_iff [OF dinv])
    then obtain i where i: "i < Suc n" "y = data_contents ?d ! i"
      by (metis in_set_conv_nth length_data_contents n)
    show ?thesis unfolding i(2)
      by (rule heap_root_least [OF _ ord i(1)]) (use dinv in \<open>simp add: data_inv_def\<close>)
  qed
  have peek: "Heap_Peek h = Some (Some ?x)"
    using data_inv_nth(1) [OF dinv, of 0] n by (simp add: Heap_Peek_def data_Peek_def)
  have "heap_step h (metric_Dec (h\<lparr>h_data := d'\<rparr>)) ((heap_map h)(hd_queue d2 ! n := None))"
    using d' r(5) n
    by (auto simp: heap_step_def heap_inv_def heap_map_def metric_Dec_def data_frame_def
        recorder_moves_def Heap_Len_def heap_ordered_take split: option.splits)
  with run mk least peek show ?thesis by blast
qed


lemma heap_step_refl: "heap_inv h \<Longrightarrow> heap_step h h (heap_map h)"
  by (auto simp: heap_step_def recorder_moves_def split: option.splits)

lemma Heap_AddIfNotPresent_ok:
  assumes inv: "heap_inv h" and key: "heap_key h x = Inr k"
  shows "\<exists>h'. Heap_AddIfNotPresent h x = Some (h', None) \<and>
           heap_step h h' (if heap_map h k = None then (heap_map h)(k \<mapsto> x) else heap_map h)"
proof (cases "hd_items (h_data h) k")
  case None
  then have "heap_map h k = None" by (simp add: heap_map_def data_map_def)
  from Heap_Push_ok [OF inv this key] None key \<open>heap_map h k = None\<close> show ?thesis
    by (auto simp: Heap_AddIfNotPresent_def)
next
  case (Some item)
  then have "heap_map h k \<noteq> None" by (simp add: heap_map_def data_map_def)
  with Some key heap_step_refl [OF inv] show ?thesis
    by (auto simp: Heap_AddIfNotPresent_def)
qed

lemma Heap_Delete_absent:
  "heap_key h x = Inr k \<Longrightarrow> heap_map h k = None \<Longrightarrow>
   Heap_Delete h x = Some (h, Some (Errorf ''object not found''))"
  by (auto simp: Heap_Delete_def heap_map_def data_map_def)

lemma Heap_key_errors:
  assumes "heap_key h x = Inl e"
  shows "Heap_Add h x = Some (h, Some (KeyError e))"
    and "Heap_AddIfNotPresent h x = Some (h, Some (KeyError e))"
    and "Heap_Delete h x = Some (h, Some (KeyError e))"
    and "Heap_Get h x = Inl (KeyError e)"
  using assms by (simp_all add: Heap_Add_def Heap_AddIfNotPresent_def Heap_Delete_def Heap_Get_def)

lemma Heap_Get_map: "heap_key h x = Inr k \<Longrightarrow> Heap_Get h x = Inr (heap_map h k)"
  by (simp add: Heap_Get_def Heap_GetByKey_def heap_map_def data_map_def)

lemma Heap_Peek_empty: "heap_inv h \<Longrightarrow> heap_map h = Map.empty \<Longrightarrow> Heap_Peek h = Some None"
  by (auto simp: heap_inv_def data_inv_def heap_map_def Heap_Peek_def data_Peek_def data_map_def
      fun_eq_iff dom_def)

lemma NewWithRecorder_inv:
  assumes "strict_weak_order lessFn"
  shows "heap_inv (NewWithRecorder keyFn lessFn r)" "heap_map (NewWithRecorder keyFn lessFn r) = Map.empty"
    "heap_key (NewWithRecorder keyFn lessFn r) = keyFn" "heap_less (NewWithRecorder keyFn lessFn r) = lessFn"
  using assms
  by (auto simp: heap_inv_def data_inv_def heap_ordered_def NewWithRecorder_def heap_map_def data_map_def)

interpretation sched_queue: keyed_queue heap_inv heap_map heap_key heap_less
  Heap_Add Heap_Delete Heap_Pop Heap_Peek Heap_Len
proof unfold_locales
  fix q :: "'a Heap" and k x
  assume inv: "heap_inv q"
  show "finite (dom (heap_map q))" using inv by (simp add: heap_map_def heap_inv_def data_inv_def)
  show "strict_weak_order (heap_less q)" using inv by (simp add: heap_inv_def data_inv_def)
  show "Heap_Len q = card (dom (heap_map q))" using inv by (rule Heap_Len_card)
  assume "heap_map q k = Some x"
  with inv show "heap_key q x = Inr k" by (simp add: heap_inv_def heap_map_def data_map_iff)
next
  fix q q' :: "'a Heap" and x
  assume inv: "heap_inv q" and pop: "Heap_Pop q = Some (q', Inr x)"
  have "heap_map q \<noteq> Map.empty"
  proof
    assume "heap_map q = Map.empty"
    with inv have "Heap_Len q = 0" by (simp add: Heap_Len_card)
    with pop show False by (simp add: Heap_Pop_def heap_Pop_def data_Len_def Heap_Len_def)
  qed
  from Heap_Pop_ok [OF inv this] pop show "Heap_Peek q = Some (Some x)" by auto
next
  fix q :: "'a Heap"
  assume "heap_inv q" "heap_map q \<noteq> Map.empty"
  from Heap_Pop_ok [OF this]
  show "\<exists>q' x k. Heap_Pop q = Some (q', Inr x) \<and> heap_inv q' \<and> heap_map q k = Some x \<and>
      heap_map q' = (heap_map q)(k := None) \<and> (\<forall>y\<in>ran (heap_map q). \<not> heap_less q y x) \<and>
      heap_key q' = heap_key q \<and> heap_less q' = heap_less q"
    unfolding heap_step_def by metis
qed (auto simp: heap_step_def Heap_key_errors Heap_Peek_empty dest: Heap_Add_ok Heap_Delete_ok
    Heap_Delete_absent)

section \<open>Reachable heaps\<close>

text \<open>The heaps obtained from \<open>NewWithRecorder\<close> by any sequence of the mutating methods.\<close>

inductive heap_reachable :: "('a \<Rightarrow> go_error + string) \<Rightarrow> ('a \<Rightarrow> 'a \<Rightarrow> bool) \<Rightarrow> 'a Heap \<Rightarrow> bool"
  for keyFn lessFn where
  reach_new: "heap_reachable keyFn lessFn (NewWithRecorder keyFn lessFn (Some 0))"
| reach_add: "heap_reachable keyFn lessFn h \<Longrightarrow> Heap_Add h x = Some (h', e) \<Longrightarrow> heap_reachable keyFn lessFn h'"
| reach_addIfNotPresent:
    "heap_reachable keyFn lessFn h \<Longrightarrow> Heap_AddIfNotPresent h x = Some (h', e) \<Longrightarrow> heap_reachable keyFn lessFn h'"
| reach_update: "heap_reachable keyFn lessFn h \<Longrightarrow> Heap_Update h x = Some (h', e) \<Longrightarrow> heap_reachable keyFn lessFn h'"
| reach_delete: "heap_reachable keyFn lessFn h \<Longrightarrow> Heap_Delete h x = Some (h', e) \<Longrightarrow> heap_reachable keyFn lessFn h'"
| reach_pop: "heap_reachable keyFn lessFn h \<Longrightarrow> Heap_Pop h = Some (h', r) \<Longrightarrow> heap_reachable keyFn lessFn h'"

text \<open>The gauge of the recorder is the number of queued objects.\<close>

definition heap_ok :: "('a \<Rightarrow> go_error + string) \<Rightarrow> ('a \<Rightarrow> 'a \<Rightarrow> bool) \<Rightarrow> 'a Heap \<Rightarrow> bool" where
  "heap_ok keyFn lessFn h \<longleftrightarrow> heap_inv h \<and> heap_key h = keyFn \<and> heap_less h = lessFn \<and>
     h_metricRecorder h = Some (int (Heap_Len h))"

lemma heap_ok_step: "heap_ok keyFn lessFn h \<Longrightarrow> heap_step h h' m \<Longrightarrow> heap_ok keyFn lessFn h'"
  by (auto simp: heap_ok_def heap_step_def recorder_moves_def split: option.splits)

lemma heap_ok_Add:
  assumes "heap_ok keyFn lessFn h"
  shows "\<exists>h' e. Heap_Add h x = Some (h', e) \<and> heap_ok keyFn lessFn h'"
    and "\<exists>h' e. Heap_AddIfNotPresent h x = Some (h', e) \<and> heap_ok keyFn lessFn h'"
    and "\<exists>h' e. Heap_Delete h x = Some (h', e) \<and> heap_ok keyFn lessFn h'"
proof -
  have inv: "heap_inv h" using assms by (simp add: heap_ok_def)
  show "\<exists>h' e. Heap_Add h x = Some (h', e) \<and> heap_ok keyFn lessFn h'"
    using Heap_Add_ok [OF inv, of x] Heap_key_errors(1) [of h x] heap_ok_step [OF assms] assms
    by (cases "heap_key h x") fastforce+
  show "\<exists>h' e. Heap_AddIfNotPresent h x = Some (h', e) \<and> heap_ok keyFn lessFn h'"
    using Heap_AddIfNotPresent_ok [OF inv, of x] Heap_key_errors(2) [of h x] heap_ok_step [OF assms] assms
    by (cases "heap_key h x") blast+
  show "\<exists>h' e. Heap_Delete h x = Some (h', e) \<and> heap_ok keyFn lessFn h'"
  proof (cases "heap_key h x")
    case (Inl e)
    with Heap_key_errors(3) [of h x] assms show ?thesis by auto
  next
    case (Inr k)
    with Heap_Delete_ok [OF inv Inr] Heap_Delete_absent [OF Inr] heap_ok_step [OF assms] assms
    show ?thesis by (cases "heap_map h k") auto
  qed
qed

lemma heap_ok_Pop:
  assumes "heap_ok keyFn lessFn h"
  shows "Heap_Len h = 0 \<Longrightarrow> Heap_Pop h = None"
    and "0 < Heap_Len h \<Longrightarrow> \<exists>h' x. Heap_Pop h = Some (h', Inr x) \<and> heap_ok keyFn lessFn h'"
proof -
  show "Heap_Len h = 0 \<Longrightarrow> Heap_Pop h = None"
    by (simp add: Heap_Pop_def heap_Pop_def data_Len_def Heap_Len_def)
  assume "0 < Heap_Len h"
  with assms have "heap_map h \<noteq> Map.empty" by (auto simp: heap_ok_def Heap_Len_card)
  with Heap_Pop_ok [of h] assms heap_ok_step [OF assms]
  show "\<exists>h' x. Heap_Pop h = Some (h', Inr x) \<and> heap_ok keyFn lessFn h'"
    by (metis heap_ok_def)
qed

lemma heap_reachable_ok:
  assumes "heap_reachable keyFn lessFn h" "strict_weak_order lessFn"
  shows "heap_ok keyFn lessFn h"
  using assms
proof (induction rule: heap_reachable.induct)
  case reach_new
  then show ?case
    using NewWithRecorder_inv [of lessFn keyFn "Some 0"]
    by (auto simp: heap_ok_def Heap_Len_def NewWithRecorder_def)
next
  case (reach_add h x h' e)
  then show ?case using heap_ok_Add(1) [of keyFn lessFn h x] by auto
next
  case (reach_addIfNotPresent h x h' e)
  then show ?case using heap_ok_Add(2) [of keyFn lessFn h x] by auto
next
  case (reach_update h x h' e)
  then show ?case using heap_ok_Add(1) [of keyFn lessFn h x] by (auto simp: Heap_Update_def)
next
  case (reach_delete h x h' e)
  then show ?case using heap_ok_Add(3) [of keyFn lessFn h x] by auto
next
  case (reach_pop h h' r)
  then show ?case using heap_ok_Pop [of keyFn lessFn h] by (cases "Heap_Len h = 0") auto
qed

section \<open>A concrete heap\<close>

text \<open>Numbers ordered by \<open><\<close> and keyed by a name, after \<open>Add\<close> of 3, 1 and 2; used by the
  witnesses.\<close>

definition demo_key :: "nat \<Rightarrow> go_error + string" where
  "demo_key n = (if n = 0 then Inl (Errorf ''no key'')
     else Inr (if n = 1 then ''one'' else if n = 2 then ''two'' else ''three''))"

definition demo_heap :: "nat Heap" where
  "demo_heap =
     \<lparr>h_data = \<lparr>hd_items = [''three'' \<mapsto> \<lparr>hi_obj = 3, hi_index = 1\<rparr>, ''one'' \<mapsto> \<lparr>hi_obj = 1, hi_index = 0\<rparr>,
                            ''two'' \<mapsto> \<lparr>hi_obj = 2, hi_index = 2\<rparr>],
                hd_queue = [''one'', ''three'', ''two''], hd_keyFunc = demo_key, hd_lessFunc = (<)\<rparr>,
      h_metricRecorder = Some 3\<rparr>"

lemmas heap_eval = Heap_Add_def heap_Push_def heap_Fix_def heap_Pop_def heap_Remove_def
  data_Len_def data_Less_def data_Swap_def data_Push_def data_Pop_def set_index_def
  metric_Inc_def metric_Dec_def heap_up.simps heap_down.simps heap_down_child_def heap_parent_def
  list_swap_def Let_def

lemma demo_reachable: "heap_reachable demo_key (<) demo_heap"
proof -
  let ?h1 = "fst (the (Heap_Add (NewWithRecorder demo_key (<) (Some 0)) 3))"
  let ?h2 = "fst (the (Heap_Add ?h1 1))"
  have "heap_reachable demo_key (<) ?h1"
    by (rule reach_add [OF reach_new, where x = 3 and e = None])
      (simp add: heap_eval NewWithRecorder_def demo_key_def)
  then have "heap_reachable demo_key (<) ?h2"
    by (rule reach_add [where x = 1 and e = None])
      (simp add: heap_eval NewWithRecorder_def demo_key_def)
  then show ?thesis
    by (rule reach_add [where x = 2 and e = None])
      (simp add: heap_eval NewWithRecorder_def demo_key_def demo_heap_def fun_upd_twist numeral_2_eq_2)
qed

lemma demo_map: "heap_map demo_heap = [''three'' \<mapsto> 3, ''one'' \<mapsto> 1, ''two'' \<mapsto> 2]"
  by (simp add: heap_map_def data_map_def demo_heap_def fun_eq_iff)

lemma demo_order: "strict_weak_order ((<) :: nat \<Rightarrow> nat \<Rightarrow> bool)"
  using swo_key [of id] by simp

section \<open>Properties\<close>

text \<open>C5 (safety). In every heap reachable from \<open>NewWithRecorder\<close> with a strict weak order,
  the map \<open>items\<close> and the slice \<open>queue\<close> agree (same keys, and each item's \<open>index\<close> is
  its position), the metric recorder shows the length, and none of \<open>Add\<close>,
  \<open>AddIfNotPresent\<close>, \<open>Delete\<close>, \<open>Peek\<close> panics; \<open>Pop\<close> panics exactly on the empty heap.\<close>

theorem heap_reachable_safe:
  assumes "heap_reachable keyFn lessFn h" "strict_weak_order lessFn"
  shows "dom (hd_items (h_data h)) = set (hd_queue (h_data h)) \<and>
     (\<forall>k item. hd_items (h_data h) k = Some item \<longrightarrow>
        hi_index item < Heap_Len h \<and> hd_queue (h_data h) ! hi_index item = k) \<and>
     h_metricRecorder h = Some (int (Heap_Len h)) \<and>
     Heap_Add h x \<noteq> None \<and> Heap_AddIfNotPresent h x \<noteq> None \<and> Heap_Delete h x \<noteq> None \<and>
     Heap_Peek h \<noteq> None \<and> (Heap_Pop h = None \<longleftrightarrow> Heap_Len h = 0)"
proof -
  have ok: "heap_ok keyFn lessFn h" using assms by (rule heap_reachable_ok)
  then have inv: "heap_inv h" and gauge: "h_metricRecorder h = Some (int (Heap_Len h))"
    by (auto simp: heap_ok_def)
  have dom: "dom (hd_items (h_data h)) = set (hd_queue (h_data h))"
    using inv by (simp add: heap_inv_def data_inv_def)
  have index: "\<forall>k item. hd_items (h_data h) k = Some item \<longrightarrow>
      hi_index item < Heap_Len h \<and> hd_queue (h_data h) ! hi_index item = k"
    using inv data_inv_item by (fastforce simp: heap_inv_def Heap_Len_def)
  have pop: "Heap_Pop h = None \<longleftrightarrow> Heap_Len h = 0"
    using heap_ok_Pop [OF ok] by (cases "Heap_Len h = 0") auto
  have peek: "Heap_Peek h \<noteq> None"
    using Heap_Peek_empty [OF inv] Heap_Pop_ok [OF inv] by (cases "heap_map h = Map.empty") auto
  show ?thesis using dom index gauge pop peek heap_ok_Add [OF ok, of x] by auto
qed

theorem heap_reachable_safe_witness:
  "heap_reachable demo_key (<) demo_heap \<and> strict_weak_order ((<) :: nat \<Rightarrow> nat \<Rightarrow> bool) \<and>
   Heap_Add demo_heap 2 \<noteq> None \<and> Heap_Pop demo_heap \<noteq> None \<and>
   h_metricRecorder demo_heap = Some (int (Heap_Len demo_heap))"
  using heap_reachable_safe [OF demo_reachable demo_order, of 2] demo_reachable demo_order
  by (simp add: demo_heap_def Heap_Len_def)

text \<open>C17 (functional). Popping a heap as often as it has elements returns every object once,
  in an order where no object is less than one returned before it.\<close>

theorem Heap_drain_sorted:
  assumes "heap_reachable keyFn lessFn h" "strict_weak_order lessFn"
  shows "\<exists>xs. pop_all Heap_Pop (Heap_Len h) h = Some xs \<and> distinct xs \<and>
           set xs = ran (heap_map h) \<and> sorted_wrt (\<lambda>x y. \<not> lessFn y x) xs"
proof -
  have "heap_ok keyFn lessFn h" using assms by (rule heap_reachable_ok)
  then have "heap_inv h" "lessFn = heap_less h" by (auto simp: heap_ok_def)
  with sched_queue.pop_all_drains [of h] show ?thesis by (auto simp: Heap_Len_card)
qed

theorem Heap_drain_sorted_witness:
  "heap_reachable demo_key (<) demo_heap \<and> strict_weak_order ((<) :: nat \<Rightarrow> nat \<Rightarrow> bool) \<and>
   (\<exists>xs. pop_all Heap_Pop 3 demo_heap = Some xs \<and> set xs = {1, 2, 3} \<and> sorted_wrt (\<lambda>x y. \<not> y < x) xs)"
proof -
  have "Heap_Len demo_heap = 3" by (simp add: Heap_Len_def demo_heap_def)
  moreover have "ran (heap_map demo_heap) = {1, 2, 3}"
    by (simp add: demo_map ran_map_upd insert_commute)
  ultimately show ?thesis
    using Heap_drain_sorted [OF demo_reachable demo_order] demo_reachable demo_order by auto
qed

text \<open>C18 (refinement). On the abstract map from keys to objects, \<open>Add\<close> is map update,
  \<open>AddIfNotPresent\<close> keeps a present object, \<open>Delete\<close> removes the key or reports that the
  object is absent, \<open>Get\<close> is lookup, and a key function error is returned with the heap
  unchanged.\<close>

theorem Heap_refines_map:
  assumes "heap_reachable keyFn lessFn h" "strict_weak_order lessFn"
  shows "case keyFn x of
      Inr k \<Rightarrow>
        (\<exists>h'. Heap_Add h x = Some (h', None) \<and> heap_map h' = (heap_map h)(k \<mapsto> x)) \<and>
        (\<exists>h'. Heap_AddIfNotPresent h x = Some (h', None) \<and>
           heap_map h' = (if heap_map h k = None then (heap_map h)(k \<mapsto> x) else heap_map h)) \<and>
        (\<exists>h'. Heap_Delete h x =
             Some (h', if heap_map h k = None then Some (Errorf ''object not found'') else None) \<and>
           heap_map h' = (heap_map h)(k := None)) \<and>
        Heap_Get h x = Inr (heap_map h k)
    | Inl e \<Rightarrow>
        Heap_Add h x = Some (h, Some (KeyError e)) \<and>
        Heap_AddIfNotPresent h x = Some (h, Some (KeyError e)) \<and>
        Heap_Delete h x = Some (h, Some (KeyError e)) \<and> Heap_Get h x = Inl (KeyError e)"
proof -
  have "heap_ok keyFn lessFn h" using assms by (rule heap_reachable_ok)
  then have inv: "heap_inv h" and key: "heap_key h = keyFn" by (auto simp: heap_ok_def)
  show ?thesis
  proof (cases "keyFn x")
    case (Inl e)
    with Heap_key_errors [of h x e] key show ?thesis by simp
  next
    case (Inr k)
    then have k: "heap_key h x = Inr k" using key by simp
    have "\<exists>h'. Heap_Delete h x =
        Some (h', if heap_map h k = None then Some (Errorf ''object not found'') else None) \<and>
        heap_map h' = (heap_map h)(k := None)"
      using Heap_Delete_ok [OF inv k] Heap_Delete_absent [OF k]
      by (cases "heap_map h k") (auto simp: heap_step_def fun_upd_idem)
    then show ?thesis
      using Inr Heap_Add_ok [OF inv k] Heap_AddIfNotPresent_ok [OF inv k] Heap_Get_map [OF k]
      by (auto simp: heap_step_def)
  qed
qed

theorem Heap_refines_map_witness:
  "heap_reachable demo_key (<) demo_heap \<and> strict_weak_order ((<) :: nat \<Rightarrow> nat \<Rightarrow> bool) \<and>
   Heap_Get demo_heap 2 = Inr (Some 2) \<and>
   (\<exists>h'. Heap_Delete demo_heap 2 = Some (h', None) \<and> heap_map h' = (heap_map demo_heap)(''two'' := None))"
  using Heap_refines_map [OF demo_reachable demo_order, of 2] demo_reachable demo_order
  by (simp add: demo_key_def heap_map_def data_map_def demo_heap_def)

end
