(* ===== verification/Work_Queue.thy ===== *)
theory Work_Queue
  imports K8s_Prelude
begin

text \<open>
  The controllers' work queue, \<open>staging/src/k8s.io/client-go/util/workqueue/queue.go\<close>.
  Each method holds the queue's lock for its whole body, so a method is one atomic step on
  the record \<open>wq\<close>; \<open>Get\<close>, which waits on the condition variable while the queue is empty
  and not shut down, is a step that is not enabled then (\<^term>\<open>None\<close>). The metrics calls
  do not touch the queue and are left out.

  The theory shows the invariant that the source states in a comment, that an item is never
  processed by two workers at once, that an item added while being processed is processed
  again, that the queue serves items in order, and what shutting down does.
\<close>

section \<open>The queue\<close>

record 'a wq =
  wq_queue :: "'a list"
  wq_dirty :: "'a set"
  wq_processing :: "'a set"
  wq_shuttingDown :: bool

definition wq_new :: "'a wq" where
  "wq_new = \<lparr>wq_queue = [], wq_dirty = {}, wq_processing = {}, wq_shuttingDown = False\<rparr>"

definition wq_Add :: "'a wq \<Rightarrow> 'a \<Rightarrow> 'a wq" where
  "wq_Add q item =
     (if wq_shuttingDown q then q
      else if item \<in> wq_dirty q then q
      else
        let q1 = q\<lparr>wq_dirty := insert item (wq_dirty q)\<rparr> in
        if item \<in> wq_processing q1 then q1
        else q1\<lparr>wq_queue := wq_queue q1 @ [item]\<rparr>)"

definition wq_Len :: "'a wq \<Rightarrow> nat" where
  "wq_Len q = length (wq_queue q)"

text \<open>\<open>Get\<close> returns the item (none when shut down) and the flag \<open>shutdown\<close>.\<close>

definition wq_Get :: "'a wq \<Rightarrow> ('a wq \<times> 'a option \<times> bool) option" where
  "wq_Get q =
     (if wq_queue q = [] \<and> \<not> wq_shuttingDown q then None
      else (case wq_queue q of
          [] \<Rightarrow> Some (q, None, True)
        | item # rest \<Rightarrow>
            Some (q\<lparr>wq_queue := rest,
                    wq_processing := insert item (wq_processing q),
                    wq_dirty := wq_dirty q - {item}\<rparr>, Some item, False)))"

definition wq_Done :: "'a wq \<Rightarrow> 'a \<Rightarrow> 'a wq" where
  "wq_Done q item =
     (let q1 = q\<lparr>wq_processing := wq_processing q - {item}\<rparr> in
      if item \<in> wq_dirty q1 then q1\<lparr>wq_queue := wq_queue q1 @ [item]\<rparr> else q1)"

definition wq_ShutDown :: "'a wq \<Rightarrow> 'a wq" where
  "wq_ShutDown q = q\<lparr>wq_shuttingDown := True\<rparr>"

definition wq_ShuttingDown :: "'a wq \<Rightarrow> bool" where
  "wq_ShuttingDown q = wq_shuttingDown q"

text \<open>"Every element of queue should be in the dirty set and not in the processing set":
  and, conversely, every item that is dirty and not being processed is queued, once.\<close>

definition wq_inv :: "'a wq \<Rightarrow> bool" where
  "wq_inv q \<longleftrightarrow> distinct (wq_queue q) \<and> set (wq_queue q) = wq_dirty q - wq_processing q"

lemma wq_inv_new [simp]: "wq_inv wq_new"
  by (simp add: wq_inv_def wq_new_def)

lemma wq_inv_Add [go_inv]: "wq_inv q \<Longrightarrow> wq_inv (wq_Add q x)"
  by (auto simp: wq_inv_def wq_Add_def Let_def)

lemma wq_inv_Get [go_inv]: "wq_inv q \<Longrightarrow> wq_Get q = Some (q', r) \<Longrightarrow> wq_inv q'"
  by (auto simp: wq_inv_def wq_Get_def split: list.splits if_splits)

lemma wq_inv_Done [go_inv]: "wq_inv q \<Longrightarrow> x \<in> wq_processing q \<Longrightarrow> wq_inv (wq_Done q x)"
  by (auto simp: wq_inv_def wq_Done_def Let_def)

lemma wq_inv_ShutDown [go_inv]: "wq_inv q \<Longrightarrow> wq_inv (wq_ShutDown q)"
  by (simp add: wq_inv_def wq_ShutDown_def)

lemma wq_processing_Add [simp]: "wq_processing (wq_Add q x) = wq_processing q"
  by (simp add: wq_Add_def Let_def)

lemma wq_processing_Done [simp]: "wq_processing (wq_Done q x) = wq_processing q - {x}"
  by (simp add: wq_Done_def Let_def)

lemma wq_ShutDown_fields [simp]:
  "wq_processing (wq_ShutDown q) = wq_processing q" "wq_dirty (wq_ShutDown q) = wq_dirty q"
  "wq_queue (wq_ShutDown q) = wq_queue q" "wq_shuttingDown (wq_ShutDown q)"
  by (simp_all add: wq_ShutDown_def)

lemma wq_Get_item:
  "wq_Get q = Some (q', Some x, b) \<longleftrightarrow>
     (\<exists>rest. wq_queue q = x # rest \<and> b = False \<and>
        q' = q\<lparr>wq_queue := rest, wq_processing := insert x (wq_processing q), wq_dirty := wq_dirty q - {x}\<rparr>)"
  by (auto simp: wq_Get_def split: list.splits)

lemma wq_Get_none:
  "wq_Get q = Some (q', None, b) \<longleftrightarrow> wq_queue q = [] \<and> wq_shuttingDown q \<and> b = True \<and> q' = q"
  by (auto simp: wq_Get_def split: list.splits)

section \<open>What a client of the queue relies on\<close>

text \<open>
  The interface that wrappers of the queue (the delaying and the rate limiting queue) rely
  on: an added item is pending until a worker takes it, \<open>Add\<close> takes no item away, and after
  \<open>ShutDown\<close> nothing is added.
\<close>

locale work_queue =
  fixes winv :: "'q \<Rightarrow> bool"
    and pending :: "'q \<Rightarrow> 'a set"
    and add :: "'q \<Rightarrow> 'a \<Rightarrow> 'q"
    and shutDown :: "'q \<Rightarrow> 'q"
    and shuttingDown :: "'q \<Rightarrow> bool"
  assumes w_add: "winv q \<Longrightarrow> winv (add q x)"
    and w_pending: "\<not> shuttingDown q \<Longrightarrow> pending (add q x) = insert x (pending q)"
    and w_closed: "shuttingDown q \<Longrightarrow> add q x = q"
    and w_add_shut: "shuttingDown (add q x) = shuttingDown q"
    and w_shut: "shuttingDown (shutDown q)" "pending (shutDown q) = pending q" "winv q \<Longrightarrow> winv (shutDown q)"
begin

lemma fold_add_pending:
  "\<not> shuttingDown q \<Longrightarrow> pending (foldl add q xs) = pending q \<union> set xs"
  by (induction xs arbitrary: q) (auto simp: w_pending w_add_shut)

lemma fold_add_closed: "shuttingDown q \<Longrightarrow> foldl add q xs = q"
  by (induction xs arbitrary: q) (auto simp: w_closed)

lemma fold_add_inv: "winv q \<Longrightarrow> winv (foldl add q xs)"
  by (induction xs arbitrary: q) (auto simp: w_add)

lemma fold_add_shut: "shuttingDown (foldl add q xs) = shuttingDown q"
  by (induction xs arbitrary: q) (auto simp: w_add_shut)

end

interpretation wqi: work_queue wq_inv wq_dirty wq_Add wq_ShutDown wq_ShuttingDown
  by unfold_locales
    (auto simp: wq_inv_def wq_Add_def wq_ShutDown_def wq_ShuttingDown_def Let_def)

section \<open>Workers on a shared queue\<close>

text \<open>
  Any number of producers and workers. A worker calls \<open>Get\<close>, and, as the method's
  comment asks, calls \<open>Done\<close> with the item when it has finished.
\<close>

record 'a wsys =
  ws_q :: "'a wq"
  ws_workers :: "nat \<rightharpoonup> 'a"

datatype 'a wevent = EAdd 'a | EGet nat 'a | EGetShutdown nat | EDone nat 'a | EShutDown

definition ws_init :: "'a wsys" where
  "ws_init = \<lparr>ws_q = wq_new, ws_workers = Map.empty\<rparr>"

inductive wq_step :: "'a wsys \<Rightarrow> 'a wevent \<Rightarrow> 'a wsys \<Rightarrow> bool" where
  step_add: "wq_step s (EAdd x) (s\<lparr>ws_q := wq_Add (ws_q s) x\<rparr>)"
| step_get: "ws_workers s w = None \<Longrightarrow> wq_Get (ws_q s) = Some (q', Some x, False) \<Longrightarrow>
     wq_step s (EGet w x) (s\<lparr>ws_q := q', ws_workers := (ws_workers s)(w \<mapsto> x)\<rparr>)"
| step_get_shutdown: "ws_workers s w = None \<Longrightarrow> wq_Get (ws_q s) = Some (q', None, True) \<Longrightarrow>
     wq_step s (EGetShutdown w) (s\<lparr>ws_q := q'\<rparr>)"
| step_done: "ws_workers s w = Some x \<Longrightarrow>
     wq_step s (EDone w x) (s\<lparr>ws_q := wq_Done (ws_q s) x, ws_workers := (ws_workers s)(w := None)\<rparr>)"
| step_shutdown: "wq_step s EShutDown (s\<lparr>ws_q := wq_ShutDown (ws_q s)\<rparr>)"

inductive_cases wq_step_addE: "wq_step s (EAdd x) s'"
inductive_cases wq_step_getE: "wq_step s (EGet w x) s'"
inductive_cases wq_step_doneE: "wq_step s (EDone w x) s'"

inductive wq_run :: "'a wsys \<Rightarrow> 'a wevent list \<Rightarrow> 'a wsys \<Rightarrow> bool" where
  run_nil: "wq_run s [] s"
| run_cons: "wq_step s e s1 \<Longrightarrow> wq_run s1 es s2 \<Longrightarrow> wq_run s (e # es) s2"

inductive_cases wq_run_NilE: "wq_run s [] s'"
inductive_cases wq_run_ConsE: "wq_run s (e # es) s'"

text \<open>The queue's \<open>processing\<close> set is what the workers hold, each item by one worker.\<close>

definition ws_inv :: "'a wsys \<Rightarrow> bool" where
  "ws_inv s \<longleftrightarrow> wq_inv (ws_q s) \<and> wq_processing (ws_q s) = ran (ws_workers s) \<and>
     (\<forall>w v x. ws_workers s w = Some x \<longrightarrow> ws_workers s v = Some x \<longrightarrow> w = v)"

lemma ws_inv_init: "ws_inv ws_init"
  by (simp add: ws_inv_def ws_init_def wq_new_def wq_inv_def)

lemma ws_inv_step: "wq_step s e s' \<Longrightarrow> ws_inv s \<Longrightarrow> ws_inv s'"
proof (induction rule: wq_step.induct)
  case (step_add s x)
  then show ?case by (auto simp: ws_inv_def go_inv)
next
  case (step_get s w q' x)
  then obtain rest where q: "wq_queue (ws_q s) = x # rest"
      "q' = (ws_q s)\<lparr>wq_queue := rest, wq_processing := insert x (wq_processing (ws_q s)),
                      wq_dirty := wq_dirty (ws_q s) - {x}\<rparr>"
    by (auto simp: wq_Get_item)
  have "x \<notin> ran (ws_workers s)" using step_get.prems q by (auto simp: ws_inv_def wq_inv_def)
  moreover have "wq_inv q'" using step_get wq_inv_Get by (auto simp: ws_inv_def)
  ultimately show ?case
    using step_get q(2) by (auto simp: ws_inv_def ran_map_upd intro: ranI)
next
  case (step_get_shutdown s w q')
  then show ?case by (auto simp: ws_inv_def wq_Get_none)
next
  case (step_done s w x)
  then have x: "x \<in> wq_processing (ws_q s)" by (auto simp: ws_inv_def intro: ranI)
  have "ran ((ws_workers s)(w := None)) = ran (ws_workers s) - {x}"
    using step_done by (intro ran_upd_None_unique) (auto simp: ws_inv_def)
  then show ?case
    using step_done x by (auto simp: ws_inv_def go_inv split: if_splits)
next
  case (step_shutdown s)
  then show ?case by (auto simp: ws_inv_def go_inv)
qed

lemma ws_inv_run: "wq_run s es s' \<Longrightarrow> ws_inv s \<Longrightarrow> ws_inv s'"
  by (induction rule: wq_run.induct) (auto intro: ws_inv_step)

section \<open>Items stay dirty until a worker takes them\<close>

lemma step_dirty:
  "wq_step s e s' \<Longrightarrow> x \<in> wq_dirty (ws_q s) \<Longrightarrow> (\<forall>w. e \<noteq> EGet w x) \<Longrightarrow> x \<in> wq_dirty (ws_q s')"
  by (induction rule: wq_step.induct)
    (auto simp: wq_Add_def wq_Get_item wq_Get_none wq_Done_def wq_ShutDown_def Let_def)

lemma run_dirty:
  "wq_run s es s' \<Longrightarrow> x \<in> wq_dirty (ws_q s) \<Longrightarrow> (\<forall>w. EGet w x \<notin> set es) \<Longrightarrow> x \<in> wq_dirty (ws_q s')"
proof (induction rule: wq_run.induct)
  case (run_cons s e s1 es s2)
  then show ?case using step_dirty [of s e s1 x] by auto
qed auto

text \<open>A queued item only moves towards the head: by one position with each \<open>Get\<close>.\<close>

lemma step_queue_prefix:
  assumes "wq_step s e s'" "wq_queue (ws_q s) = ys @ x # zs" "\<And>w y. e = EGet w y \<Longrightarrow> y \<noteq> x"
  shows "\<exists>ys' zs'. wq_queue (ws_q s') = ys' @ x # zs' \<and>
           length ys = length ys' + (case e of EGet _ _ \<Rightarrow> 1 | _ \<Rightarrow> 0)"
  using assms
proof (induction rule: wq_step.induct)
  case (step_get s w q' y)
  then show ?case by (cases ys) (auto simp: wq_Get_item)
qed (auto simp: wq_Add_def wq_Get_none wq_Done_def wq_ShutDown_def Let_def)

fun count_gets :: "'a wevent list \<Rightarrow> nat" where
  "count_gets [] = 0"
| "count_gets (EGet w x # es) = Suc (count_gets es)"
| "count_gets (_ # es) = count_gets es"

lemma run_serves_in_order:
  assumes "wq_run s es s'" "wq_queue (ws_q s) = ys @ x # zs" "length ys < count_gets es"
  shows "\<exists>w. EGet w x \<in> set es"
  using assms
proof (induction arbitrary: ys zs rule: wq_run.induct)
  case (run_nil s)
  then show ?case by simp
next
  case (run_cons s e s1 es s2)
  show ?case
  proof (cases "\<exists>w. e = EGet w x")
    case True
    then show ?thesis by auto
  next
    case False
    then obtain ys' zs' where q: "wq_queue (ws_q s1) = ys' @ x # zs'"
        "length ys = length ys' + (case e of EGet _ _ \<Rightarrow> 1 | _ \<Rightarrow> 0)"
      using step_queue_prefix [OF run_cons.hyps(1) run_cons.prems(1)] by blast
    have "length ys' < count_gets es"
      using run_cons.prems(2) q(2) by (cases e) auto
    with run_cons.IH [OF q(1)] show ?thesis by auto
  qed
qed


section \<open>The abstract work set\<close>

text \<open>
  What the queue promises its users: a set of items that need work and a set of items that
  are being worked on. A worker may take any item that needs work and is not being worked
  on. The queue refines this by choosing the one that has waited longest.
\<close>

record 'a workset =
  wk_todo :: "'a set"
  wk_busy :: "'a set"
  wk_closed :: bool

definition wk_abs :: "'a wq \<Rightarrow> 'a workset" where
  "wk_abs q = \<lparr>wk_todo = wq_dirty q, wk_busy = wq_processing q, wk_closed = wq_shuttingDown q\<rparr>"

inductive wk_step :: "'a workset \<Rightarrow> 'a wevent \<Rightarrow> 'a workset \<Rightarrow> bool" where
  wk_add: "\<not> wk_closed s \<Longrightarrow> wk_step s (EAdd x) (s\<lparr>wk_todo := insert x (wk_todo s)\<rparr>)"
| wk_add_closed: "wk_closed s \<Longrightarrow> wk_step s (EAdd x) s"
| wk_take: "x \<in> wk_todo s - wk_busy s \<Longrightarrow>
     wk_step s (EGet w x) (s\<lparr>wk_busy := insert x (wk_busy s), wk_todo := wk_todo s - {x}\<rparr>)"
| wk_drained: "wk_closed s \<Longrightarrow> wk_todo s \<subseteq> wk_busy s \<Longrightarrow> wk_step s (EGetShutdown w) s"
| wk_finish: "x \<in> wk_busy s \<Longrightarrow> wk_step s (EDone w x) (s\<lparr>wk_busy := wk_busy s - {x}\<rparr>)"
| wk_close: "wk_step s EShutDown (s\<lparr>wk_closed := True\<rparr>)"

lemma wk_refines_step:
  assumes "wq_step s e s'" "ws_inv s"
  shows "wk_step (wk_abs (ws_q s)) e (wk_abs (ws_q s'))"
  using assms
proof (induction rule: wq_step.induct)
  case (step_add s x)
  show ?case
    using wk_add [of "wk_abs (ws_q s)" x] wk_add_closed [of "wk_abs (ws_q s)" x]
    by (cases "wq_shuttingDown (ws_q s)") (auto simp: wk_abs_def wq_Add_def Let_def insert_absorb)
next
  case (step_get s w q' x)
  then obtain rest where q: "wq_queue (ws_q s) = x # rest"
      "q' = (ws_q s)\<lparr>wq_queue := rest, wq_processing := insert x (wq_processing (ws_q s)),
                      wq_dirty := wq_dirty (ws_q s) - {x}\<rparr>"
    by (auto simp: wq_Get_item)
  then have "x \<in> set (wq_queue (ws_q s))" by simp
  then have "x \<in> wk_todo (wk_abs (ws_q s)) - wk_busy (wk_abs (ws_q s))"
    using step_get.prems by (simp add: wk_abs_def ws_inv_def wq_inv_def)
  from wk_take [OF this, of w] q show ?case by (simp add: wk_abs_def)
next
  case (step_get_shutdown s w q')
  then show ?case
    using wk_drained [of "wk_abs (ws_q s)" w]
    by (auto simp: wk_abs_def wq_Get_none ws_inv_def wq_inv_def)
next
  case (step_done s w x)
  then show ?case
    using wk_finish [of x "wk_abs (ws_q s)" w]
    by (auto simp: wk_abs_def wq_Done_def Let_def ws_inv_def intro: ranI)
next
  case (step_shutdown s)
  show ?case using wk_close [of "wk_abs (ws_q s)"] by (simp add: wk_abs_def wq_ShutDown_def)
qed

inductive wk_run :: "'a workset \<Rightarrow> 'a wevent list \<Rightarrow> 'a workset \<Rightarrow> bool" where
  wk_run_nil: "wk_run s [] s"
| wk_run_cons: "wk_step s e s1 \<Longrightarrow> wk_run s1 es s2 \<Longrightarrow> wk_run s (e # es) s2"

lemma wk_refines_run:
  "wq_run s es s' \<Longrightarrow> ws_inv s \<Longrightarrow> wk_run (wk_abs (ws_q s)) es (wk_abs (ws_q s'))"
  by (induction rule: wq_run.induct)
    (auto intro: wk_run_nil wk_run_cons wk_refines_step ws_inv_step)

section \<open>Properties\<close>

text \<open>A run used by the witnesses: worker 0 takes \<open>7\<close>, \<open>7\<close> is added again meanwhile.\<close>

definition demo_events :: "nat wevent list" where
  "demo_events = [EAdd 7, EAdd 8, EGet 0 7, EAdd 7, EGet 1 8]"

definition demo_sys :: "nat wsys" where
  "demo_sys = \<lparr>ws_q = \<lparr>wq_queue = [], wq_dirty = {7}, wq_processing = {7, 8}, wq_shuttingDown = False\<rparr>,
     ws_workers = [0 \<mapsto> 7, 1 \<mapsto> 8]\<rparr>"

lemma demo_run: "wq_run ws_init demo_events demo_sys"
proof -
  let ?s = "\<lambda>q d p ws. \<lparr>ws_q = \<lparr>wq_queue = q, wq_dirty = d, wq_processing = p, wq_shuttingDown = False\<rparr>,
     ws_workers = ws\<rparr> :: nat wsys"
  have e1: "wq_step ws_init (EAdd 7) (?s [7] {7} {} Map.empty)"
    using step_add [of ws_init "7::nat"] by (simp add: ws_init_def wq_new_def wq_Add_def)
  have e2: "wq_step (?s [7] {7} {} Map.empty) (EAdd 8) (?s [7, 8] {7, 8} {} Map.empty)"
    using step_add [of "?s [7] {7} {} Map.empty" 8] by (simp add: wq_Add_def insert_commute)
  have e3: "wq_step (?s [7, 8] {7, 8} {} Map.empty) (EGet 0 7) (?s [8] {8} {7} [0 \<mapsto> 7])"
    using step_get [of "?s [7, 8] {7, 8} {} Map.empty" 0 "\<lparr>wq_queue = [8], wq_dirty = {8}, wq_processing = {7}, wq_shuttingDown = False\<rparr>" 7]
    by (auto simp: wq_Get_def)
  have e4: "wq_step (?s [8] {8} {7} [0 \<mapsto> 7]) (EAdd 7) (?s [8] {7, 8} {7} [0 \<mapsto> 7])"
    using step_add [of "?s [8] {8} {7} [0 \<mapsto> 7]" 7] by (simp add: wq_Add_def)
  have e5: "wq_step (?s [8] {7, 8} {7} [0 \<mapsto> 7]) (EGet 1 8) demo_sys"
    using step_get [of "?s [8] {7, 8} {7} [0 \<mapsto> 7]" 1 "\<lparr>wq_queue = [], wq_dirty = {7}, wq_processing = {7, 8}, wq_shuttingDown = False\<rparr>" 8]
    by (auto simp: wq_Get_def insert_commute insert_Diff_if demo_sys_def)
  show ?thesis
    unfolding demo_events_def
    by (rule run_cons [OF e1 run_cons [OF e2 run_cons [OF e3 run_cons [OF e4 run_cons [OF e5 run_nil]]]]])
qed

text \<open>In every state reached by producers and workers that follow the
  protocol (\<open>Done\<close> is called with the item a worker got), every queued item is dirty and not
  being processed, every dirty item that is not being processed is queued exactly once, and
  no two workers process the same item.\<close>

theorem wq_reachable_inv:
  assumes "wq_run ws_init es s"
  shows "distinct (wq_queue (ws_q s)) \<and>
     set (wq_queue (ws_q s)) = wq_dirty (ws_q s) - wq_processing (ws_q s) \<and>
     wq_processing (ws_q s) = ran (ws_workers s) \<and>
     (\<forall>w v x. ws_workers s w = Some x \<longrightarrow> ws_workers s v = Some x \<longrightarrow> w = v)"
  using ws_inv_run [OF assms ws_inv_init] by (auto simp: ws_inv_def wq_inv_def)

theorem wq_reachable_inv_witness:
  "wq_run ws_init demo_events demo_sys \<and> wq_processing (ws_q demo_sys) = ran (ws_workers demo_sys)"
  using wq_reachable_inv [OF demo_run] demo_run by blast

text \<open>C3 (liveness). No added item is lost: when an item is added to a queue that is not
  shutting down, then in every continuation either a worker takes it or it is still marked
  dirty; and if it is dirty at the end it is in the queue or held by a worker whose \<open>Done\<close>
  will queue it again.\<close>

theorem wq_no_lost_item:
  assumes "wq_run ws_init es s" "\<not> wq_ShuttingDown (ws_q s)"
    and "wq_run (s\<lparr>ws_q := wq_Add (ws_q s) x\<rparr>) es' s'"
  shows "(\<exists>w. EGet w x \<in> set es') \<or>
     x \<in> wq_dirty (ws_q s') \<and>
     (x \<in> set (wq_queue (ws_q s')) \<or>
      (\<exists>w. ws_workers s' w = Some x) \<and> x \<in> set (wq_queue (wq_Done (ws_q s') x)))"
proof (cases "\<exists>w. EGet w x \<in> set es'")
  case False
  have inv: "ws_inv s'"
    using ws_inv_run [OF assms(3) ws_inv_step [OF step_add ws_inv_run [OF assms(1) ws_inv_init]]] .
  have "x \<in> wq_dirty (ws_q (s\<lparr>ws_q := wq_Add (ws_q s) x\<rparr>))"
    using assms(2) wqi.w_pending [of "ws_q s" x] by simp
  then have d: "x \<in> wq_dirty (ws_q s')"
    using run_dirty [OF assms(3)] False by blast
  show ?thesis
  proof (cases "x \<in> wq_processing (ws_q s')")
    case True
    then obtain w where "ws_workers s' w = Some x" using inv by (auto simp: ws_inv_def ran_def)
    with d show ?thesis by (auto simp: wq_Done_def Let_def)
  next
    case notp: False
    then have "x \<in> set (wq_queue (ws_q s'))" using inv d by (auto simp: ws_inv_def wq_inv_def)
    with d show ?thesis by blast
  qed
qed simp

theorem wq_no_lost_item_witness:
  "wq_run ws_init demo_events demo_sys \<and> \<not> wq_ShuttingDown (ws_q demo_sys) \<and>
   wq_run (demo_sys\<lparr>ws_q := wq_Add (ws_q demo_sys) 7\<rparr>) [] (demo_sys\<lparr>ws_q := wq_Add (ws_q demo_sys) 7\<rparr>) \<and>
   7 \<in> wq_dirty (ws_q (demo_sys\<lparr>ws_q := wq_Add (ws_q demo_sys) 7\<rparr>))"
proof -
  have open': "\<not> wq_ShuttingDown (ws_q demo_sys)" by (simp add: demo_sys_def wq_ShuttingDown_def)
  show ?thesis
    using wq_no_lost_item [OF demo_run open' run_nil, of 7] demo_run open'
    by (auto intro: run_nil)
qed

text \<open>Items are served in the order in which they were queued: an item with
  \<open>n\<close> items ahead of it has been handed to a worker once \<open>Get\<close> has returned more than
  \<open>n\<close> items, whatever else happens in between.\<close>

theorem wq_serves_in_order:
  assumes "wq_run s es s'" "n < wq_Len (ws_q s)" "n < count_gets es"
  shows "\<exists>w. EGet w (wq_queue (ws_q s) ! n) \<in> set es"
  using run_serves_in_order [OF assms(1), of "take n (wq_queue (ws_q s))" "wq_queue (ws_q s) ! n"
      "drop (Suc n) (wq_queue (ws_q s))"] assms(2,3)
  by (simp add: wq_Len_def id_take_nth_drop [symmetric])

theorem wq_serves_in_order_witness:
  "\<exists>s s'. wq_run s [EGet 0 7, EAdd 7, EGet 1 8] s' \<and> 1 < wq_Len (ws_q s) \<and>
     1 < count_gets [EGet 0 7, EAdd 7, EGet 1 8] \<and> wq_queue (ws_q s) ! 1 = (8 :: nat) \<and>
     (\<exists>w. EGet w (wq_queue (ws_q s) ! 1) \<in> set [EGet 0 7, EAdd 7, EGet 1 8])"
proof -
  obtain s1 s2 where a: "wq_step ws_init (EAdd (7::nat)) s1" "wq_step s1 (EAdd 8) s2"
      "wq_run s2 [EGet 0 7, EAdd 7, EGet 1 8] demo_sys"
    using demo_run unfolding demo_events_def by (meson wq_run_ConsE)
  have s2: "wq_queue (ws_q s2) = [7, 8]"
    using a(1,2) by (auto elim!: wq_step_addE simp: ws_init_def wq_new_def wq_Add_def Let_def)
  have h: "1 < wq_Len (ws_q s2)" "1 < count_gets [EGet 0 7, EAdd 7, EGet 1 (8::nat)]"
    using s2 by (simp_all add: wq_Len_def)
  show ?thesis using wq_serves_in_order [OF a(3) h] a(3) h s2 by auto
qed

text \<open>C19 (refinement). Seen through the sets \<open>dirty\<close> and \<open>processing\<close>, every run of the
  queue is a run of the abstract work set, with the same events: an item is handed out only
  when it needs work and nobody works on it, and workers are told to stop only when the
  queue is shut down and nothing that nobody works on is left.\<close>

theorem wq_refines_workset:
  assumes "wq_run ws_init es s"
  shows "wk_run (wk_abs (wq_new :: 'a wq)) es (wk_abs (ws_q s))"
  using wk_refines_run [OF assms ws_inv_init] by (simp add: ws_init_def)

theorem wq_refines_workset_witness:
  "wq_run ws_init demo_events demo_sys \<and> wk_run (wk_abs wq_new) demo_events (wk_abs (ws_q demo_sys))"
  using wq_refines_workset [OF demo_run] demo_run by blast

end
