(* ===== verification/Delaying_Queue.thy ===== *)
theory Delaying_Queue
  imports Container_Heap Work_Queue
begin

text \<open>
  The delaying work queue, \<open>staging/src/k8s.io/client-go/util/workqueue/delaying_queue.go\<close>.
  An entry \<open>waitFor\<close> is shared by pointer between the channel, the priority queue and the
  map of known entries, and \<open>insert\<close> changes an entry's time through the map while it sits
  in the priority queue; entries therefore live in a store indexed by address, and the
  channel, the slice and the map hold addresses.

  \<open>waitingLoop\<close> is a state machine: \<open>dl_pc\<close> is where its goroutine stands. Each of its
  transitions makes at most one call on the shared work queue or the channel, so every
  interleaving with the other methods is an interleaving of these steps. The clock reading
  of a step is its argument; the heartbeat ticker and the timer only decide when the loop
  wakes up, and the model lets the heartbeat fire at any time.
\<close>

section \<open>The priority queue of waiting entries\<close>

record 'a waitFor =
  wf_data :: 'a
  wf_readyAt :: int
  wf_index :: int

record 'a wpq =
  wp_store :: "nat \<rightharpoonup> 'a waitFor"
  wp_slice :: "nat list"

definition wp_Len :: "'a wpq \<Rightarrow> nat" where
  "wp_Len pq = length (wp_slice pq)"

definition wp_Less :: "'a wpq \<Rightarrow> nat \<Rightarrow> nat \<Rightarrow> bool go" where
  "wp_Less pq i j =
     (if i \<ge> length (wp_slice pq) \<or> j \<ge> length (wp_slice pq) then None
      else do {
        ei \<leftarrow> wp_store pq (wp_slice pq ! i);
        ej \<leftarrow> wp_store pq (wp_slice pq ! j);
        Some (wf_readyAt ei < wf_readyAt ej)
      })"

text \<open>\<open>pq[i].index = v\<close> through the pointer.\<close>

definition wp_set_index :: "'a wpq \<Rightarrow> nat \<Rightarrow> int \<Rightarrow> 'a wpq go" where
  "wp_set_index pq a v =
     (case wp_store pq a of
        None \<Rightarrow> None
      | Some e \<Rightarrow> Some (pq\<lparr>wp_store := (wp_store pq)(a \<mapsto> e\<lparr>wf_index := v\<rparr>)\<rparr>))"

definition wp_Swap :: "'a wpq \<Rightarrow> nat \<Rightarrow> nat \<Rightarrow> 'a wpq go" where
  "wp_Swap pq i j =
     (if i \<ge> length (wp_slice pq) \<or> j \<ge> length (wp_slice pq) then None
      else
        let s = list_swap (wp_slice pq) i j in
        do {
          pq1 \<leftarrow> wp_set_index (pq\<lparr>wp_slice := s\<rparr>) (s ! i) (int i);
          wp_set_index pq1 (s ! j) (int j)
        })"

text \<open>\<open>Push\<close> and \<open>Pop\<close> take and return the entry's address.\<close>

definition wp_Push :: "'a wpq \<Rightarrow> nat \<Rightarrow> 'a wpq go" where
  "wp_Push pq a =
     (let n = length (wp_slice pq) in
      do {
        pq1 \<leftarrow> wp_set_index pq a (int n);
        Some (pq1\<lparr>wp_slice := wp_slice pq1 @ [a]\<rparr>)
      })"

definition wp_Pop :: "'a wpq \<Rightarrow> (nat \<times> 'a wpq) go" where
  "wp_Pop pq =
     (if wp_slice pq = [] then None
      else
        let a = last (wp_slice pq) in
        do {
          pq1 \<leftarrow> wp_set_index pq a (- 1);
          Some (a, pq1\<lparr>wp_slice := butlast (wp_slice pq1)\<rparr>)
        })"

definition wp_Peek :: "'a wpq \<Rightarrow> nat go" where
  "wp_Peek pq = (case wp_slice pq of [] \<Rightarrow> None | a # _ \<Rightarrow> Some a)"

text \<open>\<open>heap.Push(q, entry)\<close>: its call of \<open>Push\<close> writes through the entry's pointer.\<close>

definition wp_heap_Push :: "'a wpq \<Rightarrow> nat \<Rightarrow> 'a wpq go" where
  "wp_heap_Push pq a = do { pq1 \<leftarrow> wp_Push pq a; heap_up wp_Less wp_Swap pq1 (wp_Len pq1 - 1) }"

text \<open>\<open>heap.Fix(q, i)\<close>; for a negative index both loops of the package end at once.\<close>

definition wp_heap_Fix :: "'a wpq \<Rightarrow> int \<Rightarrow> 'a wpq go" where
  "wp_heap_Fix pq i = (if i < 0 then Some pq else heap_Fix wp_Len wp_Less wp_Swap pq (nat i))"

definition wait_insert :: "'a wpq \<Rightarrow> ('a \<rightharpoonup> nat) \<Rightarrow> nat \<Rightarrow> ('a wpq \<times> ('a \<rightharpoonup> nat)) go" where
  "wait_insert q knownEntries a =
     do {
       entry \<leftarrow> wp_store q a;
       (case knownEntries (wf_data entry) of
          Some b \<Rightarrow>
            do {
              existing \<leftarrow> wp_store q b;
              if wf_readyAt existing > wf_readyAt entry then
                do {
                  q1 \<leftarrow> wp_heap_Fix
                    (q\<lparr>wp_store := (wp_store q)(b \<mapsto> existing\<lparr>wf_readyAt := wf_readyAt entry\<rparr>)\<rparr>)
                    (wf_index existing);
                  Some (q1, knownEntries)
                }
              else Some (q, knownEntries)
            }
        | None \<Rightarrow>
            do {
              q1 \<leftarrow> wp_heap_Push q a;
              Some (q1, knownEntries(wf_data entry \<mapsto> a))
            })
     }"

section \<open>The queue and its waiting loop\<close>

datatype dl_pc = LTop | LReady int | LSelect | LDrain | LExit

record 'a dq =
  dq_Interface :: "'a wq"
  dq_stopCh :: bool
  dq_waitingForAddCh :: "nat list"
  dq_waitingForQueue :: "'a wpq"
  dq_waitingEntryByData :: "'a \<rightharpoonup> nat"
  dq_nextReadyAt :: "int option"
  dq_loop :: dl_pc
  dq_alloc :: nat

definition newDelayingQueue :: "'a wq \<Rightarrow> 'a dq" where
  "newDelayingQueue q =
     \<lparr>dq_Interface = q, dq_stopCh = False, dq_waitingForAddCh = [],
      dq_waitingForQueue = \<lparr>wp_store = Map.empty, wp_slice = []\<rparr>,
      dq_waitingEntryByData = Map.empty, dq_nextReadyAt = None, dq_loop = LTop, dq_alloc = 0\<rparr>"

definition dq_ShutDown :: "'a dq \<Rightarrow> 'a dq" where
  "dq_ShutDown q =
     (if dq_stopCh q then q
      else q\<lparr>dq_Interface := wq_ShutDown (dq_Interface q), dq_stopCh := True\<rparr>)"

definition dq_Add :: "'a dq \<Rightarrow> 'a \<Rightarrow> 'a dq" where
  "dq_Add q item = q\<lparr>dq_Interface := wq_Add (dq_Interface q) item\<rparr>"

text \<open>\<open>AddAfter\<close> up to its \<open>select\<close> (None: it returned), and the \<open>select\<close> itself, which
  either sees the closed \<open>stopCh\<close> or sends on the channel of 1000 places. A call may be
  overtaken by other steps between the two.\<close>

definition AddAfter_enter :: "'a dq \<Rightarrow> 'a \<Rightarrow> int \<Rightarrow> 'a dq \<times> ('a \<times> int) option" where
  "AddAfter_enter q item duration =
     (if wq_ShuttingDown (dq_Interface q) then (q, None)
      else if duration \<le> 0 then (dq_Add q item, None)
      else (q, Some (item, duration)))"

definition AddAfter_stop :: "'a dq \<Rightarrow> 'a dq option" where
  "AddAfter_stop q = (if dq_stopCh q then Some q else None)"

definition AddAfter_send :: "'a dq \<Rightarrow> int \<Rightarrow> 'a \<times> int \<Rightarrow> 'a dq option" where
  "AddAfter_send q now p =
     (if length (dq_waitingForAddCh q) < 1000
      then Some (q\<lparr>dq_waitingForAddCh := dq_waitingForAddCh q @ [dq_alloc q],
                  dq_waitingForQueue := (dq_waitingForQueue q)\<lparr>wp_store :=
                    (wp_store (dq_waitingForQueue q))(dq_alloc q \<mapsto>
                      \<lparr>wf_data = fst p, wf_readyAt = now + snd p, wf_index = 0\<rparr>)\<rparr>,
                  dq_alloc := Suc (dq_alloc q)\<rparr>)
      else None)"

text \<open>The head of the loop.\<close>

definition loop_top :: "'a dq \<Rightarrow> int \<Rightarrow> 'a dq" where
  "loop_top q now =
     (if wq_ShuttingDown (dq_Interface q) then q\<lparr>dq_loop := LExit\<rparr> else q\<lparr>dq_loop := LReady now\<rparr>)"

text \<open>One round of the inner loop that adds the ready entries; when it ends the timer is set
  for the first waiting entry.\<close>

definition loop_ready :: "'a dq \<Rightarrow> int \<Rightarrow> 'a dq go" where
  "loop_ready q now =
     (let pq = dq_waitingForQueue q in
      if wp_Len pq = 0 then Some (q\<lparr>dq_nextReadyAt := None, dq_loop := LSelect\<rparr>)
      else do {
        a \<leftarrow> wp_Peek pq;
        entry \<leftarrow> wp_store pq a;
        if wf_readyAt entry > now
        then Some (q\<lparr>dq_nextReadyAt := Some (wf_readyAt entry), dq_loop := LSelect\<rparr>)
        else do {
          (b, pq1) \<leftarrow> heap_Pop wp_Len wp_Less wp_Swap wp_Pop pq;
          e \<leftarrow> wp_store pq1 b;
          Some (dq_Add (q\<lparr>dq_waitingForQueue := pq1,
                 dq_waitingEntryByData := (dq_waitingEntryByData q)(wf_data e := None)\<rparr>) (wf_data e))
        }
      })"

definition loop_stop :: "'a dq \<Rightarrow> 'a dq option" where
  "loop_stop q = (if dq_stopCh q then Some (q\<lparr>dq_loop := LExit\<rparr>) else None)"

definition loop_wake :: "'a dq \<Rightarrow> 'a dq" where
  "loop_wake q = q\<lparr>dq_loop := LTop\<rparr>"

text \<open>Receiving an entry from the channel: both receives of the loop treat it alike.\<close>

definition loop_entry :: "'a dq \<Rightarrow> int \<Rightarrow> nat \<Rightarrow> 'a dq go" where
  "loop_entry q now a =
     do {
       waitEntry \<leftarrow> wp_store (dq_waitingForQueue q) a;
       if wf_readyAt waitEntry > now
       then do {
         (pq, known) \<leftarrow> wait_insert (dq_waitingForQueue q) (dq_waitingEntryByData q) a;
         Some (q\<lparr>dq_waitingForQueue := pq, dq_waitingEntryByData := known\<rparr>)
       }
       else Some (dq_Add q (wf_data waitEntry))
     }"

definition loop_receive :: "'a dq \<Rightarrow> int \<Rightarrow> 'a dq go option" where
  "loop_receive q now =
     (case dq_waitingForAddCh q of
        [] \<Rightarrow> None
      | a # rest \<Rightarrow>
          Some (loop_entry (q\<lparr>dq_waitingForAddCh := rest, dq_loop := LDrain\<rparr>) now a))"

text \<open>The draining loop receives until the channel is empty.\<close>

definition loop_drain :: "'a dq \<Rightarrow> int \<Rightarrow> 'a dq go" where
  "loop_drain q now =
     (case loop_receive q now of None \<Rightarrow> Some (loop_wake q) | Some r \<Rightarrow> r)"

section \<open>The heap contract\<close>

definition wp_frame :: "'a wpq \<Rightarrow> nat \<Rightarrow> ('a \<times> int) option" where
  "wp_frame pq a = map_option (\<lambda>e. (wf_data e, wf_readyAt e)) (wp_store pq a)"

definition frame_ready :: "(nat \<Rightarrow> ('a \<times> int) option) \<Rightarrow> nat \<Rightarrow> int" where
  "frame_ready f a = (case f a of None \<Rightarrow> 0 | Some e \<Rightarrow> snd e)"

definition wp_lt :: "(nat \<Rightarrow> ('a \<times> int) option) \<Rightarrow> nat \<Rightarrow> nat \<Rightarrow> bool" where
  "wp_lt f a b \<longleftrightarrow> frame_ready f a < frame_ready f b"

definition wp_inv :: "'a wpq \<Rightarrow> bool" where
  "wp_inv pq \<longleftrightarrow> distinct (wp_slice pq) \<and>
     (\<forall>i < length (wp_slice pq). \<exists>e. wp_store pq (wp_slice pq ! i) = Some e \<and> wf_index e = int i)"

lemma swo_wp_lt: "strict_weak_order (wp_lt f)"
  unfolding wp_lt_def by (rule swo_key)

lemma wp_inv_nth:
  assumes "wp_inv pq" "i < length (wp_slice pq)"
  shows "\<exists>e. wp_store pq (wp_slice pq ! i) = Some e \<and> wf_index e = int i \<and>
    wp_frame pq (wp_slice pq ! i) = Some (wf_data e, wf_readyAt e)"
  using assms by (fastforce simp: wp_inv_def wp_frame_def)

lemma wp_Less_ok:
  assumes "wp_inv pq" "i < length (wp_slice pq)" "j < length (wp_slice pq)"
  shows "wp_Less pq i j = Some (wp_lt (wp_frame pq) (wp_slice pq ! i) (wp_slice pq ! j))"
proof -
  obtain ei where "wp_store pq (wp_slice pq ! i) = Some ei" using wp_inv_nth [OF assms(1,2)] by blast
  moreover obtain ej where "wp_store pq (wp_slice pq ! j) = Some ej"
    using wp_inv_nth [OF assms(1,3)] by blast
  ultimately show ?thesis
    using assms(2,3) by (simp add: wp_Less_def wp_lt_def frame_ready_def wp_frame_def)
qed

lemma wp_Swap_ok:
  assumes inv: "wp_inv pq" and i: "i < length (wp_slice pq)" and j: "j < length (wp_slice pq)"
  shows "\<exists>pq'. wp_Swap pq i j = Some pq' \<and> wp_inv pq' \<and> wp_frame pq' = wp_frame pq \<and>
           wp_slice pq' = list_swap (wp_slice pq) i j"
proof -
  let ?s = "wp_slice pq" and ?s' = "list_swap (wp_slice pq) i j"
  obtain ei where ei: "wp_store pq (?s ! i) = Some ei" "wf_index ei = int i" using wp_inv_nth [OF inv i] by blast
  obtain ej where ej: "wp_store pq (?s ! j) = Some ej" "wf_index ej = int j" using wp_inv_nth [OF inv j] by blast
  let ?m = "(wp_store pq)(?s ! j \<mapsto> ej\<lparr>wf_index := int i\<rparr>, ?s ! i \<mapsto> ei\<lparr>wf_index := int j\<rparr>)"
  let ?pq = "pq\<lparr>wp_store := ?m, wp_slice := ?s'\<rparr>"
  have dist: "distinct ?s" using inv by (simp add: wp_inv_def)
  have s': "?s' ! i = ?s ! j" "?s' ! j = ?s ! i" using i j by (simp_all add: nth_list_swap)
  have "wp_Swap pq i j = Some ?pq"
  proof (cases "i = j")
    case True
    with i ei ej show ?thesis by (simp add: wp_Swap_def wp_set_index_def nth_list_swap Let_def)
  next
    case False
    with dist i j have "?s ! i \<noteq> ?s ! j" by (simp add: nth_eq_iff_index_eq)
    with i j ei ej show ?thesis by (simp add: wp_Swap_def wp_set_index_def s' Let_def)
  qed
  moreover have "\<exists>e. ?m (?s' ! k) = Some e \<and> wf_index e = int k" if "k < length ?s'" for k
  proof -
    have "k < length ?s" using that by simp
    then obtain e where "wp_store pq (?s ! k) = Some e" "wf_index e = int k"
      using wp_inv_nth [OF inv] by blast
    with that i j dist show ?thesis by (auto simp: nth_list_swap nth_eq_iff_index_eq)
  qed
  then have "wp_inv ?pq" using dist i j by (simp add: wp_inv_def)
  moreover have "wp_frame ?pq = wp_frame pq" using ei ej by (auto simp: wp_frame_def)
  ultimately show ?thesis by auto
qed

interpretation wait_heap: heap_interface wp_inv wp_slice wp_frame wp_lt wp_Less wp_Swap
  by unfold_locales (auto simp: swo_wp_lt wp_Less_ok dest: wp_Swap_ok)

section \<open>The waiting entries as a map of deadlines\<close>

text \<open>
  \<open>wait_inv\<close> relates the priority queue and the map of known entries: the map finds exactly
  the entries of the queue, one per item. The specification of the two is the map
  \<open>deadlines\<close> from items to the time at which they are due.
\<close>

definition wait_inv :: "'a wpq \<Rightarrow> ('a \<rightharpoonup> nat) \<Rightarrow> bool" where
  "wait_inv pq known \<longleftrightarrow> wp_inv pq \<and>
     heap_ordered (wp_lt (wp_frame pq)) (wp_slice pq) (length (wp_slice pq)) \<and>
     (\<forall>d a. known d = Some a \<longleftrightarrow> a \<in> set (wp_slice pq) \<and> (\<exists>t. wp_frame pq a = Some (d, t)))"

definition deadlines :: "'a wpq \<Rightarrow> ('a \<rightharpoonup> nat) \<Rightarrow> 'a \<rightharpoonup> int" where
  "deadlines pq known d =
     (case known d of None \<Rightarrow> None | Some a \<Rightarrow> map_option snd (wp_frame pq a))"

lemma wait_inv_known:
  assumes "wait_inv pq known" "known d = Some a"
  obtains t i e where "wp_frame pq a = Some (d, t)" "deadlines pq known d = Some t"
    "i < length (wp_slice pq)" "wp_slice pq ! i = a" "wp_store pq a = Some e"
    "wf_data e = d" "wf_readyAt e = t" "wf_index e = int i"
proof -
  have a: "a \<in> set (wp_slice pq)" "\<exists>t. wp_frame pq a = Some (d, t)"
    using assms by (auto simp: wait_inv_def)
  then obtain i where i: "i < length (wp_slice pq)" "wp_slice pq ! i = a"
    by (auto simp: in_set_conv_nth)
  obtain t where t: "wp_frame pq a = Some (d, t)" using a(2) by blast
  obtain e where e: "wp_store pq a = Some e" "wf_index e = int i"
    using assms(1) wp_inv_nth [of pq i] i by (auto simp: wait_inv_def)
  show ?thesis
    using that [of t i e] t i e assms(2) by (simp add: deadlines_def wp_frame_def)
qed

lemma wait_inv_slice:
  assumes "wait_inv pq known" "a \<in> set (wp_slice pq)"
  obtains d t where "wp_frame pq a = Some (d, t)" "known d = Some a" "deadlines pq known d = Some t"
proof -
  from assms obtain i where i: "i < length (wp_slice pq)" "wp_slice pq ! i = a"
    by (auto simp: in_set_conv_nth)
  from assms(1) have inv: "wp_inv pq" by (simp add: wait_inv_def)
  obtain d t where e: "wp_frame pq a = Some (d, t)"
    using wp_inv_nth [OF inv i(1)] i(2) by blast
  then have "known d = Some a" using assms by (auto simp: wait_inv_def)
  with e show ?thesis using that by (simp add: deadlines_def)
qed

text \<open>Rearranging the heap changes neither the map nor the deadlines.\<close>

lemma wait_keeps:
  assumes "wait_heap.keeps n pq pq'" "heap_ordered (wp_lt (wp_frame pq)) (wp_slice pq') (length (wp_slice pq))"
    and "\<And>d a. known d = Some a \<longleftrightarrow> a \<in> set (wp_slice pq) \<and> (\<exists>t. wp_frame pq a = Some (d, t))"
  shows "wait_inv pq' known" "wp_frame pq' = wp_frame pq" "set (wp_slice pq') = set (wp_slice pq)"
    "deadlines pq' known = deadlines pq known"
proof -
  show fr: "wp_frame pq' = wp_frame pq" and st: "set (wp_slice pq') = set (wp_slice pq)"
    using assms(1) mset_eq_setD by (auto simp: wait_heap.keeps_def)
  have "wp_inv pq'" "length (wp_slice pq') = length (wp_slice pq)"
    using assms(1) mset_eq_length by (auto simp: wait_heap.keeps_def)
  with assms(2,3) fr st show "wait_inv pq' known" by (simp add: wait_inv_def)
  show "deadlines pq' known = deadlines pq known" by (rule ext) (simp add: deadlines_def fr split: option.split)
qed

lemma wp_heap_Push_ok:
  assumes inv: "wait_inv pq known" and a: "wp_frame pq a = Some (d, t)" "a \<notin> set (wp_slice pq)"
    and new: "known d = None"
  shows "\<exists>pq'. wp_heap_Push pq a = Some pq' \<and> wait_inv pq' (known(d \<mapsto> a)) \<and>
     wp_frame pq' = wp_frame pq \<and> set (wp_slice pq') = insert a (set (wp_slice pq)) \<and>
     deadlines pq' (known(d \<mapsto> a)) = (deadlines pq known)(d \<mapsto> t)"
proof -
  let ?n = "length (wp_slice pq)"
  obtain e where e: "wp_store pq a = Some e" using a(1) by (auto simp: wp_frame_def)
  let ?p = "pq\<lparr>wp_store := (wp_store pq)(a \<mapsto> e\<lparr>wf_index := int ?n\<rparr>), wp_slice := wp_slice pq @ [a]\<rparr>"
  have push: "wp_Push pq a = Some ?p" using e by (simp add: wp_Push_def wp_set_index_def Let_def)
  have fr: "wp_frame ?p = wp_frame pq" using e by (auto simp: wp_frame_def)
  have "\<exists>e'. wp_store ?p ((wp_slice pq @ [a]) ! i) = Some e' \<and> wf_index e' = int i" if "i < Suc ?n" for i
  proof (cases "i < ?n")
    case True
    then have "wp_slice pq ! i \<noteq> a" using a(2) nth_mem by metis
    with True inv show ?thesis by (simp add: wait_inv_def wp_inv_def nth_append)
  next
    case False
    with that show ?thesis by (simp add: nth_append)
  qed
  then have pinv: "wp_inv ?p" using inv a(2) by (simp add: wait_inv_def wp_inv_def)
  have ord: "heap_ordered (wp_lt (wp_frame pq)) (wp_slice pq) ?n" using inv by (simp add: wait_inv_def)
  obtain pq' where r: "heap_up wp_Less wp_Swap ?p ?n = Some pq'"
      "wait_heap.keeps (length (wp_slice ?p)) ?p pq'"
      "heap_ordered (wp_lt (wp_frame pq)) (wp_slice pq') (length (wp_slice ?p))"
    using wait_heap.push_up_ok [OF pinv _ fr ord, of a] by auto
  have iff: "known x = Some b \<longleftrightarrow> b \<in> set (wp_slice pq) \<and> (\<exists>t. wp_frame pq b = Some (x, t))" for x b
    using inv by (simp add: wait_inv_def)
  have known: "(known(d \<mapsto> a)) x = Some b \<longleftrightarrow> b \<in> set (wp_slice ?p) \<and> (\<exists>t. wp_frame ?p b = Some (x, t))" for x b
    using iff [of x b] new a by (cases "x = d") (auto simp: fr)
  have ord': "heap_ordered (wp_lt (wp_frame ?p)) (wp_slice pq') (length (wp_slice ?p))"
    using r(3) by (simp add: fr)
  note k = wait_keeps [where known = "known(d \<mapsto> a)", OF r(2) ord' known]
  have "wp_heap_Push pq a = Some pq'" using push r(1) by (simp add: wp_heap_Push_def wp_Len_def)
  moreover have "deadlines ?p (known(d \<mapsto> a)) = (deadlines pq known)(d \<mapsto> t)"
    using a(1) by (intro ext) (simp add: deadlines_def fr split: option.split)
  ultimately show ?thesis using k fr by simp
qed

text \<open>Moving the deadline of a waiting entry and repairing the heap.\<close>

lemma wp_heap_Fix_ok:
  assumes inv: "wait_inv pq known" and b: "known d = Some b" "wp_store pq b = Some e"
    and pq1: "pq1 = pq\<lparr>wp_store := (wp_store pq)(b \<mapsto> e\<lparr>wf_readyAt := t\<rparr>)\<rparr>"
  shows "\<exists>pq'. wp_heap_Fix pq1 (wf_index e) = Some pq' \<and> wait_inv pq' known \<and>
     wp_frame pq' = (wp_frame pq)(b \<mapsto> (d, t)) \<and> set (wp_slice pq') = set (wp_slice pq) \<and>
     deadlines pq' known = (deadlines pq known)(d \<mapsto> t)"
proof -
  obtain t0 i where e: "wp_frame pq b = Some (d, t0)" "i < length (wp_slice pq)" "wp_slice pq ! i = b"
      "wf_data e = d" "wf_index e = int i"
    using wait_inv_known [OF inv b(1)] b(2) by (metis option.inject)
  have fr: "wp_frame pq1 = (wp_frame pq)(b \<mapsto> (d, t))" using e(4) by (auto simp: wp_frame_def pq1)
  have sl: "wp_slice pq1 = wp_slice pq" by (simp add: pq1)
  have "\<exists>e'. wp_store pq1 (wp_slice pq ! j) = Some e' \<and> wf_index e' = int j" if "j < length (wp_slice pq)" for j
  proof -
    have "\<exists>e'. wp_store pq (wp_slice pq ! j) = Some e' \<and> wf_index e' = int j"
      using inv that by (simp add: wait_inv_def wp_inv_def)
    then show ?thesis using b(2) by (auto simp: pq1)
  qed
  then have pinv: "wp_inv pq1" using inv sl by (simp add: wait_inv_def wp_inv_def)
  have "heap_hole (wp_lt (wp_frame pq1)) (wp_slice pq) (length (wp_slice pq)) i"
  proof (rule heap_hole_reorder [OF swo_wp_lt [of "wp_frame pq"]])
    show "heap_ordered (wp_lt (wp_frame pq)) (wp_slice pq) (length (wp_slice pq))" "distinct (wp_slice pq)"
      using inv by (simp_all add: wait_inv_def wp_inv_def)
  qed (use e(2,3) in \<open>simp_all add: fr wp_lt_def frame_ready_def\<close>)
  then obtain pq' where r: "heap_Fix wp_Len wp_Less wp_Swap pq1 i = Some pq'"
      "wait_heap.keeps (wp_Len pq1) pq1 pq'"
      "heap_ordered (wp_lt (wp_frame pq1)) (wp_slice pq') (wp_Len pq1)"
    using wait_heap.fix_ok [OF pinv, of wp_Len i] e(2) by (auto simp: wp_Len_def sl)
  have iff: "known x = Some a \<longleftrightarrow> a \<in> set (wp_slice pq) \<and> (\<exists>t. wp_frame pq a = Some (x, t))" for x a
    using inv by (simp add: wait_inv_def)
  have known: "known x = Some a \<longleftrightarrow> a \<in> set (wp_slice pq1) \<and> (\<exists>t. wp_frame pq1 a = Some (x, t))" for x a
    using iff [of x a] iff [of d b] b(1) e(1) by (auto simp: fr sl)
  have ord: "heap_ordered (wp_lt (wp_frame pq1)) (wp_slice pq') (length (wp_slice pq1))"
    using r(3) by (simp add: wp_Len_def)
  note k = wait_keeps [OF r(2) ord known]
  have "a = b" if "known x = Some a" "a = b \<or> x = d" for x a using that iff [of x a] b(1) e(1) by auto
  then have "deadlines pq1 known x = ((deadlines pq known)(d \<mapsto> t)) x" for x
    using iff [of x b] e(1) b(1) by (cases "known x") (auto simp: deadlines_def fr)
  then have "deadlines pq1 known = (deadlines pq known)(d \<mapsto> t)" by blast
  then show ?thesis using r(1) k fr sl e(5) by (simp add: wp_heap_Fix_def)
qed

lemma wait_insert_ok:
  assumes inv: "wait_inv pq known" and a: "wp_frame pq a = Some (d, t)" "a \<notin> set (wp_slice pq)"
  shows "\<exists>pq' known'. wait_insert pq known a = Some (pq', known') \<and> wait_inv pq' known' \<and>
     (\<forall>b. b \<notin> set (wp_slice pq) \<longrightarrow> wp_frame pq' b = wp_frame pq b) \<and>
     dom (wp_frame pq') = dom (wp_frame pq) \<and>
     set (wp_slice pq') \<subseteq> insert a (set (wp_slice pq)) \<and>
     deadlines pq' known' = (deadlines pq known)
       (d \<mapsto> (case deadlines pq known d of None \<Rightarrow> t | Some t0 \<Rightarrow> min t0 t))"
proof -
  obtain e where e: "wp_store pq a = Some e" "wf_data e = d" "wf_readyAt e = t"
    using a(1) by (auto simp: wp_frame_def)
  show ?thesis
  proof (cases "known d")
    case None
    then have "deadlines pq known d = None" by (simp add: deadlines_def)
    with wp_heap_Push_ok [OF inv a None] e None show ?thesis
      by (auto simp: wait_insert_def)
  next
    case (Some b)
    then obtain t0 x where b: "wp_frame pq b = Some (d, t0)" "deadlines pq known d = Some t0"
        "b \<in> set (wp_slice pq)" "wp_store pq b = Some x" "wf_readyAt x = t0"
      using wait_inv_known [OF inv Some] by (metis nth_mem)
    show ?thesis
    proof (cases "t0 > t")
      case True
      from wp_heap_Fix_ok [OF inv Some b(4) refl, of t] True b e Some show ?thesis
        by (auto simp: wait_insert_def min_def)
    next
      case False
      then have "(deadlines pq known)(d \<mapsto> min t0 t) = deadlines pq known"
        using b(2) by (auto simp: min_def)
      with False b e Some inv show ?thesis by (auto simp: wait_insert_def)
    qed
  qed
qed

text \<open>Taking the first waiting entry.\<close>

lemma wp_Pop_ok:
  assumes inv: "wp_inv pq" and len: "length (wp_slice pq) = Suc n"
  shows "\<exists>pq'. wp_Pop pq = Some (wp_slice pq ! n, pq') \<and> wp_inv pq' \<and> wp_frame pq' = wp_frame pq \<and>
           wp_slice pq' = take n (wp_slice pq)"
proof -
  let ?a = "wp_slice pq ! n"
  obtain e where e: "wp_store pq ?a = Some e" using wp_inv_nth [OF inv, of n] len by auto
  let ?p = "pq\<lparr>wp_store := (wp_store pq)(?a \<mapsto> e\<lparr>wf_index := - 1\<rparr>), wp_slice := take n (wp_slice pq)\<rparr>"
  have dist: "distinct (wp_slice pq)" using inv by (simp add: wp_inv_def)
  have ne: "wp_slice pq \<noteq> []" using len by auto
  then have q: "last (wp_slice pq) = ?a" "butlast (wp_slice pq) = take n (wp_slice pq)"
    using len by (simp_all add: last_conv_nth butlast_conv_take)
  have "wp_Pop pq = Some (?a, ?p)" using ne e q by (simp add: wp_Pop_def wp_set_index_def Let_def)
  moreover have "wp_slice pq ! i \<noteq> ?a" if "i < n" for i
    using that dist len by (simp add: nth_eq_iff_index_eq)
  then have "wp_inv ?p" using inv len by (simp add: wp_inv_def)
  moreover have "wp_frame ?p = wp_frame pq" using e by (auto simp: wp_frame_def)
  ultimately show ?thesis by simp
qed

lemma wait_pop_ok:
  assumes inv: "wait_inv pq known" and ne: "wp_slice pq \<noteq> []"
  shows "\<exists>a d t pq'. wp_Peek pq = Some a \<and> wp_frame pq a = Some (d, t) \<and>
     heap_Pop wp_Len wp_Less wp_Swap wp_Pop pq = Some (a, pq') \<and> wp_frame pq' = wp_frame pq \<and>
     wait_inv pq' (known(d := None)) \<and> deadlines pq known d = Some t \<and>
     deadlines pq' (known(d := None)) = (deadlines pq known)(d := None) \<and>
     (\<forall>x t'. deadlines pq known x = Some t' \<longrightarrow> t \<le> t') \<and>
     set (wp_slice pq') \<subseteq> set (wp_slice pq) \<and> length (wp_slice pq) = Suc (length (wp_slice pq'))"
proof -
  obtain n where len: "length (wp_slice pq) = Suc n" using ne by (cases "wp_slice pq") auto
  let ?a = "wp_slice pq ! 0"
  have pinv: "wp_inv pq" and ord: "heap_ordered (wp_lt (wp_frame pq)) (wp_slice pq) (Suc n)"
    using inv len by (auto simp: wait_inv_def)
  have "?a \<in> set (wp_slice pq)" using ne by simp
  then obtain d t where a: "wp_frame pq ?a = Some (d, t)" "known d = Some ?a" "deadlines pq known d = Some t"
    using wait_inv_slice [OF inv] by blast
  obtain h1 h2 i' where r: "wp_Swap pq 0 n = Some h1" "heap_down wp_Less wp_Swap h1 0 n = Some (h2, i')"
      "wait_heap.keeps (Suc n) pq h2" "wp_slice h2 ! n = ?a"
      "heap_ordered (wp_lt (wp_frame pq)) (wp_slice h2) n"
    using wait_heap.pop_prefix_ok [OF pinv len ord] by blast
  have ms: "mset (wp_slice h2) = mset (wp_slice pq)" using r(3) by (simp add: wait_heap.keeps_def)
  have h2: "wp_inv h2" "wp_frame h2 = wp_frame pq" "length (wp_slice h2) = Suc n"
      "set (wp_slice h2) = set (wp_slice pq)" "distinct (wp_slice h2)"
    using r(3) len mset_eq_length [OF ms] mset_eq_setD [OF ms]
    by (simp_all add: wait_heap.keeps_def wp_inv_def)
  obtain pq' where p: "wp_Pop h2 = Some (?a, pq')" "wp_inv pq'" "wp_frame pq' = wp_frame pq"
      "wp_slice pq' = take n (wp_slice h2)"
    using wp_Pop_ok [OF h2(1,3)] h2(2) r(4) by auto
  have st: "set (wp_slice pq') = set (wp_slice pq) - {?a}"
    using set_take_distinct [OF h2(5,3)] p(4) h2(4) r(4) by simp
  have iff: "known x = Some b \<longleftrightarrow> b \<in> set (wp_slice pq) \<and> (\<exists>t. wp_frame pq b = Some (x, t))" for x b
    using inv by (simp add: wait_inv_def)
  have known: "(known(d := None)) x = Some b \<longleftrightarrow> b \<in> set (wp_slice pq') \<and> (\<exists>t. wp_frame pq' b = Some (x, t))" for x b
    using iff [of x b] a(1,2) by (cases "x = d") (auto simp: st p(3))
  have "heap_ordered (wp_lt (wp_frame pq')) (wp_slice pq') (length (wp_slice pq'))"
    using r(5) p(3,4) h2(3) by (simp add: heap_ordered_take)
  with p(2) known have "wait_inv pq' (known(d := None))" by (simp add: wait_inv_def)
  moreover have "deadlines pq' (known(d := None)) = (deadlines pq known)(d := None)"
    by (rule ext) (simp add: deadlines_def p(3) split: option.split)
  moreover have "t \<le> t'" if x: "deadlines pq known x = Some t'" for x t'
  proof -
    obtain b where "known x = Some b" using x by (auto simp: deadlines_def split: option.splits)
    then obtain k where k: "k < Suc n" "wp_frame pq (wp_slice pq ! k) = Some (x, t')"
      using wait_inv_known [OF inv, of x b] x len by (metis option.inject)
    have "\<not> wp_lt (wp_frame pq) (wp_slice pq ! k) ?a"
      using heap_root_least [OF swo_wp_lt ord k(1)] .
    with k(2) a(1) show ?thesis by (simp add: wp_lt_def frame_ready_def)
  qed
  moreover have "heap_Pop wp_Len wp_Less wp_Swap wp_Pop pq = Some (?a, pq')"
    using len r(1,2) p(1) by (simp add: heap_Pop_def wp_Len_def)
  moreover have "wp_Peek pq = Some ?a" using ne by (cases "wp_slice pq") (simp_all add: wp_Peek_def)
  ultimately show ?thesis using a p(3,4) st h2(3) len by auto
qed

section \<open>The running queue\<close>

abbreviation dq_frame :: "'a dq \<Rightarrow> nat \<Rightarrow> ('a \<times> int) option" where
  "dq_frame q \<equiv> wp_frame (dq_waitingForQueue q)"

definition deadline :: "'a dq \<Rightarrow> 'a \<rightharpoonup> int" where
  "deadline q = deadlines (dq_waitingForQueue q) (dq_waitingEntryByData q)"

text \<open>The timer that the loop waits on shows the least deadline.\<close>

definition timer_ok :: "'a dq \<Rightarrow> bool" where
  "timer_ok q \<longleftrightarrow>
     (case dq_nextReadyAt q of
        None \<Rightarrow> deadline q = Map.empty
      | Some t \<Rightarrow> t \<in> ran (deadline q) \<and> (\<forall>t' \<in> ran (deadline q). t \<le> t'))"

definition dq_inv :: "'a dq \<Rightarrow> bool" where
  "dq_inv q \<longleftrightarrow> wq_inv (dq_Interface q) \<and>
     wait_inv (dq_waitingForQueue q) (dq_waitingEntryByData q) \<and>
     distinct (dq_waitingForAddCh q) \<and>
     set (dq_waitingForAddCh q) \<inter> set (wp_slice (dq_waitingForQueue q)) = {} \<and>
     set (dq_waitingForAddCh q) \<subseteq> dom (dq_frame q) \<and>
     dom (dq_frame q) \<subseteq> {..< dq_alloc q} \<and> length (dq_waitingForAddCh q) \<le> 1000 \<and>
     (dq_stopCh q \<longrightarrow> wq_ShuttingDown (dq_Interface q)) \<and>
     (dq_loop q = LSelect \<longrightarrow> timer_ok q)"

datatype 'a dq_event =
    Enter 'a int | Send int 'a int | Stopped
  | CallAdd 'a | CallGet "'a option" | CallDone 'a | CallShutDown
  | Top int | Ready | SelectStop | Heartbeat | Timer int | Receive int | Drain int

inductive dq_step :: "'a dq \<Rightarrow> 'a dq_event \<Rightarrow> 'a dq \<Rightarrow> bool" where
  enter: "AddAfter_enter q x d = (q', p) \<Longrightarrow> dq_step q (Enter x d) q'"
| send: "0 < d \<Longrightarrow> AddAfter_send q now (x, d) = Some q' \<Longrightarrow> dq_step q (Send now x d) q'"
| stopped: "AddAfter_stop q = Some q' \<Longrightarrow> dq_step q Stopped q'"
| add: "dq_step q (CallAdd x) (dq_Add q x)"
| get: "wq_Get (dq_Interface q) = Some (w, x, b) \<Longrightarrow>
     dq_step q (CallGet x) (q\<lparr>dq_Interface := w\<rparr>)"
| dnd: "x \<in> wq_processing (dq_Interface q) \<Longrightarrow>
     dq_step q (CallDone x) (q\<lparr>dq_Interface := wq_Done (dq_Interface q) x\<rparr>)"
| shut: "dq_step q CallShutDown (dq_ShutDown q)"
| top: "dq_loop q = LTop \<Longrightarrow> dq_step q (Top now) (loop_top q now)"
| ready: "dq_loop q = LReady now \<Longrightarrow> loop_ready q now = Some q' \<Longrightarrow> dq_step q Ready q'"
| sel_stop: "dq_loop q = LSelect \<Longrightarrow> loop_stop q = Some q' \<Longrightarrow> dq_step q SelectStop q'"
| heartbeat: "dq_loop q = LSelect \<Longrightarrow> dq_step q Heartbeat (loop_wake q)"
| timer: "dq_loop q = LSelect \<Longrightarrow> dq_nextReadyAt q = Some t \<Longrightarrow> t \<le> now \<Longrightarrow>
     dq_step q (Timer now) (loop_wake q)"
| receive: "dq_loop q = LSelect \<Longrightarrow> loop_receive q now = Some (Some q') \<Longrightarrow> dq_step q (Receive now) q'"
| drain: "dq_loop q = LDrain \<Longrightarrow> loop_drain q now = Some q' \<Longrightarrow> dq_step q (Drain now) q'"

inductive_cases dq_step_ReadyE: "dq_step q Ready q'"

inductive dq_run :: "'a dq \<Rightarrow> 'a dq_event list \<Rightarrow> 'a dq \<Rightarrow> bool" where
  dq_nil: "dq_run q [] q"
| dq_cons: "dq_step q e q1 \<Longrightarrow> dq_run q1 es q2 \<Longrightarrow> dq_run q (e # es) q2"

inductive_simps dq_run_Nil: "dq_run q [] q'"
inductive_cases dq_run_ConsE: "dq_run q (e # es) q'"

lemma deadline_empty: "wait_inv pq known \<Longrightarrow> wp_slice pq = [] \<Longrightarrow> deadlines pq known = Map.empty"
  by (rule ext) (auto simp: wait_inv_def deadlines_def split: option.split)

lemma loop_ready_ok:
  assumes inv: "dq_inv q" and pc: "dq_loop q = LReady now"
  shows "\<exists>q'. loop_ready q now = Some q' \<and> dq_inv q' \<and>
     dq_waitingForAddCh q' = dq_waitingForAddCh q \<and> dq_frame q' = dq_frame q \<and>
     (dq_loop q' = LSelect \<and> deadline q' = deadline q \<and> dq_Interface q' = dq_Interface q \<and>
        (\<forall>x t. deadline q x = Some t \<longrightarrow> now < t) \<or>
      (\<exists>d t. dq_loop q' = LReady now \<and> deadline q d = Some t \<and> t \<le> now \<and>
        (\<forall>x t'. deadline q x = Some t' \<longrightarrow> t \<le> t') \<and>
        dq_Interface q' = wq_Add (dq_Interface q) d \<and> deadline q' = (deadline q)(d := None)))"
proof -
  let ?pq = "dq_waitingForQueue q" and ?kn = "dq_waitingEntryByData q"
  have wi: "wait_inv ?pq ?kn" using inv by (simp add: dq_inv_def)
  show ?thesis
  proof (cases "wp_slice ?pq = []")
    case True
    then have "loop_ready q now = Some (q\<lparr>dq_nextReadyAt := None, dq_loop := LSelect\<rparr>)"
      by (simp add: loop_ready_def wp_Len_def)
    moreover have "deadline q = Map.empty" using deadline_empty [OF wi True] by (simp add: deadline_def)
    ultimately show ?thesis using inv by (simp add: dq_inv_def timer_ok_def deadline_def)
  next
    case False
    obtain a d t pq' where p: "wp_Peek ?pq = Some a" "wp_frame ?pq a = Some (d, t)"
        "heap_Pop wp_Len wp_Less wp_Swap wp_Pop ?pq = Some (a, pq')" "wp_frame pq' = wp_frame ?pq"
        "wait_inv pq' (?kn(d := None))" "deadlines ?pq ?kn d = Some t"
        "deadlines pq' (?kn(d := None)) = (deadlines ?pq ?kn)(d := None)"
        "\<forall>x t'. deadlines ?pq ?kn x = Some t' \<longrightarrow> t \<le> t'" "set (wp_slice pq') \<subseteq> set (wp_slice ?pq)"
      using wait_pop_ok [OF wi False] by blast
    obtain e where e: "wp_store ?pq a = Some e" "wf_readyAt e = t" using p(2) by (auto simp: wp_frame_def)
    have "wp_frame pq' a = Some (d, t)" using p(2,4) by simp
    then obtain e' where e': "wp_store pq' a = Some e'" "wf_data e' = d" by (auto simp: wp_frame_def)
    show ?thesis
    proof (cases "t > now")
      case True
      have "loop_ready q now = Some (q\<lparr>dq_nextReadyAt := Some t, dq_loop := LSelect\<rparr>)"
        using False p(1) e True by (simp add: loop_ready_def wp_Len_def)
      moreover have "now < t'" if "deadline q x = Some t'" for x t'
        using p(8) True that by (fastforce simp: deadline_def)
      moreover have "t \<in> ran (deadline q)" "\<forall>t' \<in> ran (deadline q). t \<le> t'"
        using p(6,8) by (auto simp: deadline_def ran_def)
      ultimately show ?thesis using inv by (simp add: dq_inv_def timer_ok_def deadline_def)
    next
      case False
      let ?q' = "dq_Add (q\<lparr>dq_waitingForQueue := pq', dq_waitingEntryByData := ?kn(d := None)\<rparr>) d"
      have "loop_ready q now = Some ?q'"
        using \<open>wp_slice ?pq \<noteq> []\<close> p(1,3) e e' False by (simp add: loop_ready_def wp_Len_def)
      moreover have "dq_inv ?q'"
        using inv p(4,5,9) pc by (auto simp: dq_inv_def dq_Add_def go_inv wqi.w_add_shut)
      moreover have "deadline ?q' = (deadline q)(d := None)" using p(7) by (simp add: deadline_def dq_Add_def)
      moreover have "dq_loop ?q' = LReady now" "dq_Interface ?q' = wq_Add (dq_Interface q) d"
          "dq_frame ?q' = dq_frame q" "dq_waitingForAddCh ?q' = dq_waitingForAddCh q"
        using p(4) pc by (simp_all add: dq_Add_def)
      moreover have "deadline q d = Some t" "\<forall>x t'. deadline q x = Some t' \<longrightarrow> t \<le> t'" "t \<le> now"
        using p(6,8) False by (simp_all add: deadline_def)
      ultimately show ?thesis by blast
    qed
  qed
qed

lemma loop_entry_ok:
  assumes inv: "dq_inv q0" and ch: "dq_waitingForAddCh q0 = a # rest" and a: "dq_frame q0 a = Some (d, t)"
    and q: "q = q0\<lparr>dq_waitingForAddCh := rest, dq_loop := LDrain\<rparr>"
  shows "\<exists>q'. loop_entry q now a = Some q' \<and> dq_inv q' \<and> dq_waitingForAddCh q' = rest \<and>
     dq_loop q' = LDrain \<and> (\<forall>b \<in> set rest. dq_frame q' b = dq_frame q0 b) \<and>
     (if t > now
      then dq_Interface q' = dq_Interface q0 \<and>
           deadline q' = (deadline q0)(d \<mapsto> (case deadline q0 d of None \<Rightarrow> t | Some t0 \<Rightarrow> min t0 t))
      else dq_Interface q' = wq_Add (dq_Interface q0) d \<and> deadline q' = deadline q0)"
proof -
  let ?pq = "dq_waitingForQueue q0" and ?kn = "dq_waitingEntryByData q0"
  have wi: "wait_inv ?pq ?kn" and out: "a \<notin> set (wp_slice ?pq)" "a \<notin> set rest"
      "set rest \<inter> set (wp_slice ?pq) = {}"
    using inv ch by (auto simp: dq_inv_def)
  obtain e where e: "wp_store ?pq a = Some e" "wf_readyAt e = t" "wf_data e = d"
    using a by (auto simp: wp_frame_def)
  show ?thesis
  proof (cases "t > now")
    case True
    obtain pq' kn' where r: "wait_insert ?pq ?kn a = Some (pq', kn')" "wait_inv pq' kn'"
        "\<forall>b. b \<notin> set (wp_slice ?pq) \<longrightarrow> wp_frame pq' b = wp_frame ?pq b"
        "dom (wp_frame pq') = dom (wp_frame ?pq)" "set (wp_slice pq') \<subseteq> insert a (set (wp_slice ?pq))"
        "deadlines pq' kn' = (deadlines ?pq ?kn)
           (d \<mapsto> (case deadlines ?pq ?kn d of None \<Rightarrow> t | Some t0 \<Rightarrow> min t0 t))"
      using wait_insert_ok [OF wi a out(1)] by blast
    let ?q' = "q\<lparr>dq_waitingForQueue := pq', dq_waitingEntryByData := kn'\<rparr>"
    have "loop_entry q now a = Some ?q'" using e True r(1) by (simp add: loop_entry_def q)
    moreover have "dq_inv ?q'"
      using inv ch r(2,4,5) out by (auto simp: dq_inv_def q)
    moreover have "\<forall>b \<in> set rest. wp_frame pq' b = wp_frame ?pq b" using r(3) out(3) by blast
    ultimately show ?thesis using True r(6) by (auto simp: q deadline_def)
  next
    case False
    have "loop_entry q now a = Some (dq_Add q d)" using e False by (simp add: loop_entry_def q)
    moreover have "dq_inv (dq_Add q d)"
      using inv ch by (auto simp: dq_inv_def dq_Add_def q go_inv wqi.w_add_shut)
    ultimately show ?thesis using False by (simp add: q dq_Add_def deadline_def)
  qed
qed

text \<open>A new entry that only the channel holds does not disturb the waiting ones.\<close>

lemma wait_inv_alloc:
  assumes inv: "wait_inv pq known" and a: "wp_store pq a = None"
    and pq': "pq' = pq\<lparr>wp_store := (wp_store pq)(a \<mapsto> e)\<rparr>"
  shows "wait_inv pq' known" "deadlines pq' known = deadlines pq known"
proof -
  have ne: "b \<noteq> a" if "b \<in> set (wp_slice pq)" for b
    using inv a that by (auto simp: wait_inv_def wp_inv_def in_set_conv_nth)
  have fr: "wp_frame pq' b = wp_frame pq b" if "b \<noteq> a" for b using that by (simp add: pq' wp_frame_def)
  have sl: "wp_slice pq' = wp_slice pq" by (simp add: pq')
  have "wp_inv pq'" using inv ne by (auto simp: wait_inv_def wp_inv_def pq')
  moreover have "wp_lt (wp_frame pq') b c = wp_lt (wp_frame pq) b c"
    if "b \<in> set (wp_slice pq)" "c \<in> set (wp_slice pq)" for b c
    using fr [OF ne [OF that(1)]] fr [OF ne [OF that(2)]] by (simp add: wp_lt_def frame_ready_def)
  then have "heap_ordered (wp_lt (wp_frame pq')) (wp_slice pq) (length (wp_slice pq))"
    using inv by (auto simp: wait_inv_def heap_ordered_def heap_parent_bound)
  moreover have "known d = Some b \<longleftrightarrow> b \<in> set (wp_slice pq) \<and> (\<exists>t. wp_frame pq' b = Some (d, t))" for d b
  proof -
    have "known d = Some b \<longleftrightarrow> b \<in> set (wp_slice pq) \<and> (\<exists>t. wp_frame pq b = Some (d, t))"
      using inv by (simp add: wait_inv_def)
    then show ?thesis using fr [OF ne [of b]] by metis
  qed
  ultimately show "wait_inv pq' known" by (simp add: wait_inv_def sl)
  show "deadlines pq' known = deadlines pq known"
  proof (rule ext)
    fix d
    show "deadlines pq' known d = deadlines pq known d"
    proof (cases "known d")
      case (Some b)
      then have "b \<in> set (wp_slice pq)" using inv by (simp add: wait_inv_def)
      with Some fr [OF ne] show ?thesis by (simp add: deadlines_def)
    qed (simp add: deadlines_def)
  qed
qed

lemma deadline_upd [simp]:
  "deadline (q\<lparr>dq_Interface := w\<rparr>) = deadline q" "deadline (q\<lparr>dq_stopCh := b\<rparr>) = deadline q"
  by (simp_all add: deadline_def)

lemma timer_ok_cong:
  "deadline q' = deadline q \<Longrightarrow> dq_nextReadyAt q' = dq_nextReadyAt q \<Longrightarrow> timer_ok q' = timer_ok q"
  by (simp add: timer_ok_def split: option.split)

lemma timer_ok_upd [simp]:
  "timer_ok (q\<lparr>dq_Interface := w\<rparr>) = timer_ok q" "timer_ok (q\<lparr>dq_stopCh := b\<rparr>) = timer_ok q"
  by (rule timer_ok_cong; simp)+

lemma dq_inv_Interface:
  "dq_inv q \<Longrightarrow> wq_inv w \<Longrightarrow> wq_ShuttingDown w = wq_ShuttingDown (dq_Interface q) \<Longrightarrow>
   dq_inv (q\<lparr>dq_Interface := w\<rparr>)"
  by (simp add: dq_inv_def)

lemma dq_inv_loop: "dq_inv q \<Longrightarrow> pc \<noteq> LSelect \<Longrightarrow> dq_inv (q\<lparr>dq_loop := pc\<rparr>)"
  by (simp add: dq_inv_def)

lemma wq_Get_shut: "wq_Get q = Some (w, r) \<Longrightarrow> wq_ShuttingDown w = wq_ShuttingDown q"
  by (auto simp: wq_Get_def wq_ShuttingDown_def split: if_splits list.splits)

lemma wq_Done_shut: "wq_ShuttingDown (wq_Done q x) = wq_ShuttingDown q"
  by (simp add: wq_Done_def wq_ShuttingDown_def Let_def)

lemma dq_inv_Add: "dq_inv q \<Longrightarrow> dq_inv (dq_Add q x)"
  unfolding dq_Add_def
  by (rule dq_inv_Interface) (simp_all add: dq_inv_def wq_inv_Add wqi.w_add_shut)

lemma AddAfter_send_ok:
  assumes inv: "dq_inv q" and "AddAfter_send q now (x, d) = Some q'"
  shows "dq_inv q'" "deadline q' = deadline q" "dq_Interface q' = dq_Interface q"
    "dq_waitingForAddCh q' = dq_waitingForAddCh q @ [dq_alloc q]"
    "dq_frame q' = (dq_frame q)(dq_alloc q \<mapsto> (x, now + d))"
proof -
  have q': "q' = q\<lparr>dq_waitingForAddCh := dq_waitingForAddCh q @ [dq_alloc q],
      dq_waitingForQueue := (dq_waitingForQueue q)\<lparr>wp_store :=
        (wp_store (dq_waitingForQueue q))(dq_alloc q \<mapsto>
           \<lparr>wf_data = x, wf_readyAt = now + d, wf_index = 0\<rparr>)\<rparr>,
      dq_alloc := Suc (dq_alloc q)\<rparr>" and len: "length (dq_waitingForAddCh q) < 1000"
    using assms(2) by (auto simp: AddAfter_send_def split: if_splits)
  have new: "dq_alloc q \<notin> dom (dq_frame q)" using inv by (auto simp: dq_inv_def)
  then have none: "wp_store (dq_waitingForQueue q) (dq_alloc q) = None" by (auto simp: wp_frame_def)
  have wi: "wait_inv (dq_waitingForQueue q) (dq_waitingEntryByData q)" using inv by (simp add: dq_inv_def)
  note al = wait_inv_alloc [OF wi none refl]
  show dl: "deadline q' = deadline q" using al(2) by (simp add: deadline_def q')
  show fr: "dq_frame q' = (dq_frame q)(dq_alloc q \<mapsto> (x, now + d))" by (auto simp: q' wp_frame_def)
  show "dq_Interface q' = dq_Interface q" "dq_waitingForAddCh q' = dq_waitingForAddCh q @ [dq_alloc q]"
    by (simp_all add: q')
  have sl: "dq_alloc q \<notin> set (wp_slice (dq_waitingForQueue q))"
    using wi none by (auto simp: wait_inv_def wp_inv_def in_set_conv_nth)
  have al': "dq_alloc q' = Suc (dq_alloc q)" by (simp add: q')
  have old: "dom (dq_frame q) \<subseteq> {..< dq_alloc q}" "set (dq_waitingForAddCh q) \<subseteq> dom (dq_frame q)"
    using inv by (simp_all add: dq_inv_def)
  have dom: "dom (dq_frame q') \<subseteq> {..< dq_alloc q'}" "dq_alloc q \<notin> set (dq_waitingForAddCh q)"
    using old new by (auto simp: fr al' less_Suc_eq)
  have "dq_loop q' = dq_loop q" "dq_nextReadyAt q' = dq_nextReadyAt q" by (simp_all add: q')
  then have timer: "dq_loop q' = LSelect \<longrightarrow> timer_ok q'"
    using inv timer_ok_cong [OF dl] by (simp add: dq_inv_def)
  show "dq_inv q'"
    unfolding dq_inv_def
  proof (intro conjI)
    show "wait_inv (dq_waitingForQueue q') (dq_waitingEntryByData q')" using al(1) by (simp add: q')
    show "set (dq_waitingForAddCh q') \<subseteq> dom (dq_frame q')" using old(2) by (auto simp: fr) (auto simp: q')
    show "dom (dq_frame q') \<subseteq> {..< dq_alloc q'}" by (rule dom(1))
  qed (use inv sl dom(2) timer len in \<open>auto simp: dq_inv_def q'\<close>)
qed

lemma loop_receive_ok:
  assumes inv: "dq_inv q" and r: "loop_receive q now = Some r"
  shows "\<exists>a rest d t q'. dq_waitingForAddCh q = a # rest \<and> dq_frame q a = Some (d, t) \<and> r = Some q' \<and>
     dq_inv q' \<and> dq_waitingForAddCh q' = rest \<and> dq_loop q' = LDrain \<and>
     (\<forall>b \<in> set rest. dq_frame q' b = dq_frame q b) \<and>
     (if t > now
      then dq_Interface q' = dq_Interface q \<and>
           deadline q' = (deadline q)(d \<mapsto> (case deadline q d of None \<Rightarrow> t | Some t0 \<Rightarrow> min t0 t))
      else dq_Interface q' = wq_Add (dq_Interface q) d \<and> deadline q' = deadline q)"
proof -
  obtain a rest where ch: "dq_waitingForAddCh q = a # rest"
      "r = loop_entry (q\<lparr>dq_waitingForAddCh := rest, dq_loop := LDrain\<rparr>) now a"
    using r by (auto simp: loop_receive_def split: list.splits)
  obtain d t where "dq_frame q a = Some (d, t)" using inv ch(1) by (fastforce simp: dq_inv_def)
  with loop_entry_ok [OF inv ch(1) this refl, of now] ch show ?thesis by blast
qed

lemma dq_inv_step: "dq_step q e q' \<Longrightarrow> dq_inv q \<Longrightarrow> dq_inv q'"
proof (induction rule: dq_step.induct)
  case (enter q x d q' p)
  then show ?case by (auto simp: AddAfter_enter_def dq_inv_Add split: if_splits)
next
  case (send d q now x q')
  show ?case by (rule AddAfter_send_ok(1) [OF send.prems send.hyps(2)])
next
  case (stopped q q')
  then show ?case by (simp add: AddAfter_stop_def split: if_splits)
next
  case (add q x)
  then show ?case by (rule dq_inv_Add)
next
  case (get q w x b)
  have "wq_inv (dq_Interface q)" using get.prems by (simp add: dq_inv_def)
  show ?case
    by (rule dq_inv_Interface [OF get.prems wq_inv_Get [OF \<open>wq_inv _\<close> get.hyps] wq_Get_shut [OF get.hyps]])
next
  case (dnd x q)
  have "wq_inv (dq_Interface q)" using dnd.prems by (simp add: dq_inv_def)
  show ?case
    by (rule dq_inv_Interface [OF dnd.prems wq_inv_Done [OF \<open>wq_inv _\<close> dnd.hyps] wq_Done_shut])
next
  case (shut q)
  then show ?case
    by (simp add: dq_ShutDown_def dq_inv_def wq_inv_ShutDown wqi.w_shut)
next
  case (ready q now q')
  then show ?case using loop_ready_ok [OF ready.prems ready.hyps(1)] by auto
next
  case (receive q now q')
  then show ?case using loop_receive_ok [OF receive.prems receive.hyps(2)] by blast
next
  case (drain q now q')
  show ?case
  proof (cases "loop_receive q now")
    case None
    then show ?thesis using drain by (auto simp: loop_drain_def loop_wake_def dq_inv_loop)
  next
    case (Some r)
    then show ?thesis
      using drain.hyps(2) loop_receive_ok [OF drain.prems Some] by (auto simp: loop_drain_def)
  qed
qed (auto simp: loop_top_def loop_stop_def loop_wake_def dq_inv_loop split: if_splits)

lemma dq_inv_run: "dq_run q es q' \<Longrightarrow> dq_inv q \<Longrightarrow> dq_inv q'"
  by (induction rule: dq_run.induct) (auto intro: dq_inv_step)

lemma dq_inv_new: "dq_inv (newDelayingQueue wq_new)"
  by (auto simp: dq_inv_def newDelayingQueue_def wait_inv_def wp_inv_def heap_ordered_def wp_frame_def
      wq_inv_def wq_new_def)

section \<open>Properties of the running queue\<close>

lemma finite_deadline:
  assumes "dq_inv q"
  shows "finite (dom (deadline q))"
proof -
  let ?pq = "dq_waitingForQueue q" and ?kn = "dq_waitingEntryByData q"
  have "dom (deadline q) \<subseteq> (\<lambda>a. fst (the (wp_frame ?pq a))) ` set (wp_slice ?pq)"
  proof
    fix d assume "d \<in> dom (deadline q)"
    then obtain a where "?kn d = Some a" by (auto simp: deadline_def deadlines_def split: option.splits)
    then have "a \<in> set (wp_slice ?pq)" "\<exists>t. wp_frame ?pq a = Some (d, t)"
      using assms by (auto simp: dq_inv_def wait_inv_def)
    then show "d \<in> (\<lambda>a. fst (the (wp_frame ?pq a))) ` set (wp_slice ?pq)" by force
  qed
  then show ?thesis by (rule finite_subset) simp
qed

lemma ready_batch:
  assumes "dq_inv q" "dq_loop q = LReady now"
  shows "\<exists>xs q'. dq_run q (replicate (Suc (length xs)) Ready) q' \<and> dq_loop q' = LSelect \<and>
     dq_Interface q' = foldl wq_Add (dq_Interface q) xs \<and>
     distinct xs \<and> set xs = {d. \<exists>t. deadline q d = Some t \<and> t \<le> now} \<and>
     sorted (map (\<lambda>d. the (deadline q d)) xs) \<and>
     deadline q' = deadline q |` {d. \<forall>t. deadline q d = Some t \<longrightarrow> now < t}"
  using assms
proof (induction "card (dom (deadline q))" arbitrary: q rule: less_induct)
  case less
  obtain q1 where q1: "loop_ready q now = Some q1" "dq_inv q1"
    and cs: "dq_loop q1 = LSelect \<and> deadline q1 = deadline q \<and> dq_Interface q1 = dq_Interface q \<and>
        (\<forall>x t. deadline q x = Some t \<longrightarrow> now < t) \<or>
      (\<exists>d t. dq_loop q1 = LReady now \<and> deadline q d = Some t \<and> t \<le> now \<and>
        (\<forall>x t'. deadline q x = Some t' \<longrightarrow> t \<le> t') \<and>
        dq_Interface q1 = wq_Add (dq_Interface q) d \<and> deadline q1 = (deadline q)(d := None))"
    using loop_ready_ok [OF less.prems] by blast
  have step: "dq_step q Ready q1" using less.prems(2) q1(1) by (rule dq_step.ready)
  from cs show ?case
  proof (elim disjE exE conjE)
    assume c: "dq_loop q1 = LSelect" "deadline q1 = deadline q" "dq_Interface q1 = dq_Interface q"
      "\<forall>x t. deadline q x = Some t \<longrightarrow> now < t"
    have "dq_run q (replicate (Suc (length [])) Ready) q1"
      using dq_cons [OF step dq_nil] by simp
    moreover have "set [] = {d. \<exists>t. deadline q d = Some t \<and> t \<le> now}" using c(4) by force
    moreover have "deadline q1 = deadline q |` {d. \<forall>t. deadline q d = Some t \<longrightarrow> now < t}"
      using c(2,4) by (auto simp: restrict_map_def fun_eq_iff)
    ultimately show ?thesis using c(1,3) by (intro exI [of _ "[]"] exI [of _ q1]) simp
  next
    fix d t
    assume c: "dq_loop q1 = LReady now" "deadline q d = Some t" "t \<le> now"
      "\<forall>x t'. deadline q x = Some t' \<longrightarrow> t \<le> t'" "dq_Interface q1 = wq_Add (dq_Interface q) d"
      "deadline q1 = (deadline q)(d := None)"
    have "card (dom (deadline q1)) < card (dom (deadline q))"
      using finite_deadline [OF less.prems(1)] c(2,6) by (intro psubset_card_mono) auto
    from less.hyps [OF this q1(2) c(1)] obtain xs q' where
      r: "dq_run q1 (replicate (Suc (length xs)) Ready) q'" "dq_loop q' = LSelect"
        "dq_Interface q' = foldl wq_Add (dq_Interface q1) xs" "distinct xs"
        "set xs = {d. \<exists>t. deadline q1 d = Some t \<and> t \<le> now}"
        "sorted (map (\<lambda>d. the (deadline q1 d)) xs)"
        "deadline q' = deadline q1 |` {d. \<forall>t. deadline q1 d = Some t \<longrightarrow> now < t}" by blast
    have run: "dq_run q (replicate (Suc (length (d # xs))) Ready) q'"
      using dq_cons [OF step r(1)] by simp
    have st: "set (d # xs) = {d. \<exists>t. deadline q d = Some t \<and> t \<le> now}" "d \<notin> set xs"
      using r(5) c(2,3,6) by auto
    have "map (\<lambda>d. the (deadline q1 d)) xs = map (\<lambda>d. the (deadline q d)) xs"
      using st(2) c(6) by auto
    then have "sorted (map (\<lambda>d. the (deadline q d)) xs)" using r(6) by metis
    moreover have "t \<le> the (deadline q x)" if "x \<in> set xs" for x
      using that r(5) c(4,6) by (auto split: if_splits)
    ultimately have "sorted (map (\<lambda>d. the (deadline q d)) (d # xs))" using c(2) by simp
    moreover have "deadline q' = deadline q |` {d. \<forall>t. deadline q d = Some t \<longrightarrow> now < t}"
      using r(7) c(2,3,6) by (auto simp: restrict_map_def fun_eq_iff)
    ultimately show ?thesis
      using run st r(2-4) c(5) by (intro exI [of _ "d # xs"] exI [of _ q']) simp
  qed
qed

text \<open>An accepted request is in the channel or among the waiting entries.\<close>

definition requested :: "'a dq \<Rightarrow> 'a \<Rightarrow> int \<Rightarrow> bool" where
  "requested q x t \<longleftrightarrow> (\<exists>a \<in> set (dq_waitingForAddCh q). dq_frame q a = Some (x, t)) \<or> deadline q x = Some t"

definition owed :: "'a dq \<Rightarrow> 'a \<Rightarrow> int \<Rightarrow> bool" where
  "owed q x t \<longleftrightarrow> (\<exists>t' \<le> t. requested q x t')"

text \<open>The transitions of the waiting loop, with the clock reading they act on.\<close>

fun loop_clock :: "'a dq \<Rightarrow> 'a dq_event \<Rightarrow> int option" where
  "loop_clock q Ready = (case dq_loop q of LReady now \<Rightarrow> Some now | _ \<Rightarrow> None)"
| "loop_clock q (Receive now) = Some now"
| "loop_clock q (Drain now) = Some now"
| "loop_clock q _ = None"

text \<open>What one step does to the requests and to the work queue.\<close>

definition hands_over :: "'a dq \<Rightarrow> 'a dq_event \<Rightarrow> 'a dq \<Rightarrow> 'a \<Rightarrow> bool" where
  "hands_over q e q' x \<longleftrightarrow>
     (\<exists>now t. loop_clock q e = Some now \<and> t \<le> now \<and> requested q x t \<and>
        dq_Interface q' = wq_Add (dq_Interface q) x)"

lemma owed_mono:
  assumes "owed q x t" "\<And>u. requested q x u \<Longrightarrow> \<exists>v \<le> u. requested q' x v"
  shows "owed q' x t"
  using assms unfolding owed_def by (meson order_trans)

lemma receive_effect:
  assumes inv: "dq_inv q" and r: "loop_receive q now = Some (Some q')" and e: "loop_clock q e = Some now"
  shows "(owed q x t \<longrightarrow> owed q' x t \<or> hands_over q e q' x) \<and>
    (dq_Interface q' = dq_Interface q \<or> (\<exists>y. hands_over q e q' y))"
proof -
  obtain a rest d u where c: "dq_waitingForAddCh q = a # rest" "dq_frame q a = Some (d, u)"
     "dq_waitingForAddCh q' = rest" "\<forall>b \<in> set rest. dq_frame q' b = dq_frame q b"
     "if u > now
      then dq_Interface q' = dq_Interface q \<and>
           deadline q' = (deadline q)(d \<mapsto> (case deadline q d of None \<Rightarrow> u | Some t0 \<Rightarrow> min t0 u))
      else dq_Interface q' = wq_Add (dq_Interface q) d \<and> deadline q' = deadline q"
    using loop_receive_ok [OF inv r] by blast
  have req: "requested q d u" using c(1,2) by (auto simp: requested_def)
  show ?thesis
  proof (cases "u > now")
    case True
    then have dl: "deadline q' = (deadline q)(d \<mapsto> (case deadline q d of None \<Rightarrow> u | Some t0 \<Rightarrow> min t0 u))"
      and "dq_Interface q' = dq_Interface q" using c(5) by auto
    moreover have "\<exists>v \<le> w. requested q' x v" if "requested q x w" for w
    proof (cases "x = d")
      case True
      have "w = u \<or> (\<exists>b \<in> set rest. dq_frame q' b = Some (d, w)) \<or> deadline q d = Some w"
        using that True c(1,2,4) by (auto simp: requested_def)
      moreover have "\<exists>v. deadline q' d = Some v \<and> v \<le> u \<and> (\<forall>z. deadline q d = Some z \<longrightarrow> v \<le> z)"
        using dl by (cases "deadline q d") auto
      ultimately show ?thesis using True c(3) by (fastforce simp: requested_def)
    next
      case False
      then have "requested q' x w" using that c dl by (auto simp: requested_def)
      then show ?thesis by blast
    qed
    then have "owed q x t \<longrightarrow> owed q' x t" using owed_mono by metis
    ultimately show ?thesis by blast
  next
    case False
    then have h: "hands_over q e q' d" using c(5) e req by (auto simp: hands_over_def not_less intro: exI [of _ u])
    have "owed q' x t" if "x \<noteq> d" "owed q x t"
    proof (rule owed_mono [OF that(2)])
      fix w assume "requested q x w"
      then have "requested q' x w" using that(1) c False by (auto simp: requested_def)
      then show "\<exists>v \<le> w. requested q' x v" by blast
    qed
    with h show ?thesis by blast
  qed
qed

lemma ready_effect:
  assumes inv: "dq_inv q" and pc: "dq_loop q = LReady now" and r: "loop_ready q now = Some q'"
  shows "(owed q x t \<longrightarrow> owed q' x t \<or> hands_over q Ready q' x) \<and>
    (dq_Interface q' = dq_Interface q \<or> (\<exists>y. hands_over q Ready q' y))"
proof -
  have same: "dq_waitingForAddCh q' = dq_waitingForAddCh q" "dq_frame q' = dq_frame q"
    and cs: "deadline q' = deadline q \<and> dq_Interface q' = dq_Interface q \<or>
      (\<exists>d t. deadline q d = Some t \<and> t \<le> now \<and> dq_Interface q' = wq_Add (dq_Interface q) d \<and>
         deadline q' = (deadline q)(d := None))"
    using loop_ready_ok [OF inv pc] r by auto
  from cs show ?thesis
  proof (elim disjE exE conjE)
    assume "deadline q' = deadline q" "dq_Interface q' = dq_Interface q"
    then show ?thesis using same by (simp add: owed_def requested_def)
  next
    fix d u assume c: "deadline q d = Some u" "u \<le> now" "dq_Interface q' = wq_Add (dq_Interface q) d"
      "deadline q' = (deadline q)(d := None)"
    have "hands_over q Ready q' d" using c(1-3) pc by (auto simp: hands_over_def requested_def)
    moreover have "owed q' x t" if "x \<noteq> d" "owed q x t"
      using that c(4) same by (auto simp: owed_def requested_def)
    ultimately show ?thesis by blast
  qed
qed

definition client_event :: "'a dq_event \<Rightarrow> bool" where
  "client_event e \<longleftrightarrow> (case e of Enter _ _ \<Rightarrow> True | CallAdd _ \<Rightarrow> True | CallGet _ \<Rightarrow> True
     | CallDone _ \<Rightarrow> True | CallShutDown \<Rightarrow> True | _ \<Rightarrow> False)"

lemma owed_same:
  "dq_waitingForAddCh q' = dq_waitingForAddCh q \<Longrightarrow> dq_frame q' = dq_frame q \<Longrightarrow>
   deadline q' = deadline q \<Longrightarrow> owed q' = owed q"
  by (simp add: fun_eq_iff owed_def requested_def)

lemma step_effect:
  "dq_step q e q' \<Longrightarrow> dq_inv q \<Longrightarrow>
   (owed q x t \<longrightarrow> owed q' x t \<or> hands_over q e q' x) \<and>
   (dq_Interface q' = dq_Interface q \<or> client_event e \<or> (\<exists>y. hands_over q e q' y))"
proof (induction rule: dq_step.induct)
  case (enter q y d q' p)
  then have "q' = q \<or> q' = dq_Add q y" by (auto simp: AddAfter_enter_def split: if_splits)
  then have "owed q' = owed q" by (auto simp: dq_Add_def intro!: owed_same)
  then show ?case by (simp add: client_event_def)
next
  case (send d q now y q')
  note s = AddAfter_send_ok [OF send.prems send.hyps(2)]
  have "requested q' x u" if u: "requested q x u" for u
  proof -
    have "b \<noteq> dq_alloc q" if "b \<in> set (dq_waitingForAddCh q)" for b
      using send.prems that by (auto simp: dq_inv_def)
    then show ?thesis using u s(2,4,5) by (auto simp: requested_def)
  qed
  then have "owed q x t \<longrightarrow> owed q' x t" by (auto simp: owed_def)
  then show ?case using s(3) by simp
next
  case (ready q now q')
  then show ?case using ready_effect [OF ready.prems ready.hyps, of x t] by blast
next
  case (receive q now q')
  then show ?case using receive_effect [OF receive.prems receive.hyps(2), of "Receive now" x t] by auto
next
  case (drain q now q')
  show ?case
  proof (cases "loop_receive q now")
    case None
    then have "q' = loop_wake q" using drain.hyps(2) by (simp add: loop_drain_def)
    then have "owed q' = owed q" by (auto simp: loop_wake_def deadline_def intro!: owed_same)
    then show ?thesis using \<open>q' = loop_wake q\<close> by (simp add: loop_wake_def)
  next
    case (Some r)
    with drain.hyps(2) have "loop_receive q now = Some (Some q')" by (simp add: loop_drain_def)
    then show ?thesis using receive_effect [OF drain.prems, of now q' "Drain now" x t] by auto
  qed
next
  case (stopped q q')
  then show ?case by (simp add: AddAfter_stop_def split: if_splits)
next
  case (top q now)
  have "owed (loop_top q now) = owed q" by (auto simp: loop_top_def deadline_def intro!: owed_same)
  then show ?case by (simp add: loop_top_def)
next
  case (sel_stop q q')
  then have "q' = q\<lparr>dq_loop := LExit\<rparr>" by (simp add: loop_stop_def split: if_splits)
  moreover have "owed (q\<lparr>dq_loop := LExit\<rparr>) = owed q" by (auto simp: deadline_def intro!: owed_same)
  ultimately show ?case by simp
next
  case (shut q)
  have "owed (dq_ShutDown q) = owed q" by (auto simp: dq_ShutDown_def intro!: owed_same)
  then show ?case by (simp add: client_event_def)
next
  case (add q y)
  have "owed (dq_Add q y) = owed q" by (auto simp: dq_Add_def intro!: owed_same)
  then show ?case by (simp add: client_event_def)
next
  case (get q w y b)
  have "owed (q\<lparr>dq_Interface := w\<rparr>) = owed q" by (auto intro!: owed_same)
  then show ?case by (simp add: client_event_def)
next
  case (dnd y q)
  have "owed (q\<lparr>dq_Interface := wq_Done (dq_Interface q) y\<rparr>) = owed q" by (auto intro!: owed_same)
  then show ?case by (simp add: client_event_def)
next
  case (heartbeat q)
  have "owed (loop_wake q) = owed q" by (auto simp: loop_wake_def deadline_def intro!: owed_same)
  then show ?case by (simp add: loop_wake_def)
next
  case (timer q u now)
  have "owed (loop_wake q) = owed q" by (auto simp: loop_wake_def deadline_def intro!: owed_same)
  then show ?case by (simp add: loop_wake_def)
qed

lemma owed_run:
  "dq_run q es q' \<Longrightarrow> dq_inv q \<Longrightarrow> owed q x t \<Longrightarrow>
   owed q' x t \<or> (\<exists>es1 e es2 p p'. es = es1 @ e # es2 \<and> dq_run q es1 p \<and> dq_step p e p' \<and>
     dq_run p' es2 q' \<and> hands_over p e p' x)"
proof (induction rule: dq_run.induct)
  case (dq_cons q e q1 es q2)
  consider "owed q1 x t" | "hands_over q e q1 x"
    using step_effect [OF dq_cons.hyps(1) dq_cons.prems(1), of x t] dq_cons.prems(2) by blast
  then show ?case
  proof cases
    case 1
    from dq_cons.IH [OF dq_inv_step [OF dq_cons.hyps(1) dq_cons.prems(1)] 1] show ?thesis
    proof (elim disjE exE conjE)
      fix es1 f es2 p p'
      assume "es = es1 @ f # es2" "dq_run q1 es1 p" "dq_step p f p'" "dq_run p' es2 q2" "hands_over p f p' x"
      then show ?thesis using dq_run.dq_cons [OF dq_cons.hyps(1), of es1 p] append_Cons by metis
    qed blast
  next
    case 2
    then show ?thesis using dq_cons.hyps dq_run.dq_nil append_Nil by metis
  qed
qed simp

section \<open>A concrete run\<close>

definition demo_dq :: "string dq" where
  "demo_dq = \<lparr>dq_Interface = wq_new, dq_stopCh = False, dq_waitingForAddCh = [],
     dq_waitingForQueue =
       \<lparr>wp_store = [0 \<mapsto> \<lparr>wf_data = ''pod'', wf_readyAt = 5, wf_index = 0\<rparr>], wp_slice = [0]\<rparr>,
     dq_waitingEntryByData = [''pod'' \<mapsto> 0], dq_nextReadyAt = None, dq_loop = LReady 7, dq_alloc = 1\<rparr>"

definition demo_dq_events :: "string dq_event list" where
  "demo_dq_events = [Send 0 ''pod'' 5, Top 0, Ready, Receive 0, Drain 0, Top 7]"

lemma demo_dq_run: "dq_run (newDelayingQueue wq_new) demo_dq_events demo_dq"
  unfolding demo_dq_events_def
  apply (intro dq_run.intros)
  apply (rule dq_step.intros;
     simp add: AddAfter_send_def newDelayingQueue_def loop_top_def wq_new_def wq_ShuttingDown_def
       loop_ready_def wp_Len_def loop_receive_def loop_entry_def wait_insert_def wp_heap_Push_def
       wp_Push_def wp_set_index_def heap_up.simps loop_drain_def loop_wake_def demo_dq_def)+
  apply (simp add: dq_run_Nil loop_top_def wq_ShuttingDown_def demo_dq_def wq_new_def)
  done

lemma demo_deadline: "deadline demo_dq = [''pod'' \<mapsto> 5]"
  by (rule ext) (simp add: deadline_def deadlines_def demo_dq_def wp_frame_def)

text \<open>C20: however calls of the methods interleave with the waiting loop, the map of known entries
  finds exactly the entries of the priority queue, one per item; while the loop waits, its timer
  is set to the least deadline (and to none when nothing waits); and no step of the loop panics.\<close>

theorem dq_reachable_safe:
  assumes "dq_run (newDelayingQueue wq_new) es q"
  shows "distinct (wp_slice (dq_waitingForQueue q)) \<and>
    (\<forall>d a. dq_waitingEntryByData q d = Some a \<longleftrightarrow>
       a \<in> set (wp_slice (dq_waitingForQueue q)) \<and> (\<exists>t. dq_frame q a = Some (d, t))) \<and>
    (dq_loop q = LSelect \<longrightarrow>
      (case dq_nextReadyAt q of
         None \<Rightarrow> deadline q = Map.empty
       | Some t \<Rightarrow> t \<in> ran (deadline q) \<and> (\<forall>t' \<in> ran (deadline q). t \<le> t'))) \<and>
    (\<forall>now. (dq_loop q = LReady now \<longrightarrow> loop_ready q now \<noteq> None) \<and>
       loop_receive q now \<noteq> Some None \<and> loop_drain q now \<noteq> None)"
proof -
  have inv: "dq_inv q" using dq_inv_run [OF assms dq_inv_new] .
  have rc: "loop_receive q now \<noteq> Some None" for now using loop_receive_ok [OF inv, of now None] by blast
  moreover have "loop_drain q now \<noteq> None" for now
    using rc [of now] by (auto simp: loop_drain_def split: option.split)
  moreover have "loop_ready q now \<noteq> None" if "dq_loop q = LReady now" for now
    using loop_ready_ok [OF inv that] by auto
  moreover have "distinct (wp_slice (dq_waitingForQueue q))"
    using inv by (simp add: dq_inv_def wait_inv_def wp_inv_def)
  moreover have "\<forall>d a. dq_waitingEntryByData q d = Some a \<longleftrightarrow>
       a \<in> set (wp_slice (dq_waitingForQueue q)) \<and> (\<exists>t. dq_frame q a = Some (d, t))"
    using inv by (simp add: dq_inv_def wait_inv_def)
  moreover have "dq_loop q = LSelect \<longrightarrow> timer_ok q" using inv by (simp add: dq_inv_def)
  ultimately show ?thesis unfolding timer_ok_def by blast
qed

theorem dq_reachable_safe_witness:
  "dq_run (newDelayingQueue wq_new) demo_dq_events demo_dq \<and> loop_ready demo_dq 7 \<noteq> None"
  using dq_reachable_safe [OF demo_dq_run] demo_dq_run by (simp add: demo_dq_def)

text \<open>from the top of an iteration the loop hands over the waiting items whose time has come,
  exactly those, each once and in the order of their deadlines, and then waits; the other
  deadlines stay as they are.\<close>

theorem dq_ready_batch:
  assumes "dq_run (newDelayingQueue wq_new) es q" "dq_loop q = LReady now"
  shows "\<exists>xs q'. dq_run q (replicate (Suc (length xs)) Ready) q' \<and> dq_loop q' = LSelect \<and>
     dq_Interface q' = foldl wq_Add (dq_Interface q) xs \<and>
     distinct xs \<and> set xs = {d. \<exists>t. deadline q d = Some t \<and> t \<le> now} \<and>
     sorted (map (\<lambda>d. the (deadline q d)) xs) \<and>
     deadline q' = deadline q |` {d. \<forall>t. deadline q d = Some t \<longrightarrow> now < t}"
  using ready_batch [OF dq_inv_run [OF assms(1) dq_inv_new] assms(2)] .

theorem dq_ready_batch_witness:
  "\<exists>xs q'. dq_run demo_dq (replicate (Suc (length xs)) Ready) q' \<and> dq_loop q' = LSelect \<and>
     dq_Interface q' = foldl wq_Add wq_new xs \<and> distinct xs \<and> set xs = {''pod''} \<and> deadline q' = Map.empty"
proof -
  have pc: "dq_loop demo_dq = LReady 7" and w: "dq_Interface demo_dq = wq_new" by (simp_all add: demo_dq_def)
  have "{d. \<exists>t. deadline demo_dq d = Some t \<and> t \<le> 7} = {''pod''}"
    "deadline demo_dq |` {d. \<forall>t. deadline demo_dq d = Some t \<longrightarrow> 7 < t} = Map.empty"
    by (auto simp: demo_deadline restrict_map_def fun_eq_iff)
  then show ?thesis using dq_ready_batch [OF demo_dq_run pc] w by auto
qed



text \<open>the waiting loop never hands an item over early: whenever one of its steps changes the
  work queue, it adds one item whose requested time is not after the clock reading of that
  step.\<close>

theorem dq_never_early:
  assumes "dq_run (newDelayingQueue wq_new) es q" "dq_step q e q'" "\<not> client_event e"
    and "dq_Interface q' \<noteq> dq_Interface q"
  shows "\<exists>x now t. loop_clock q e = Some now \<and> t \<le> now \<and> requested q x t \<and>
    dq_Interface q' = wq_Add (dq_Interface q) x"
  using step_effect [OF assms(2) dq_inv_run [OF assms(1) dq_inv_new]] assms(3,4)
  unfolding hands_over_def by blast

theorem dq_never_early_witness:
  "\<exists>q'. dq_step demo_dq Ready q' \<and> (\<exists>x now t. loop_clock demo_dq Ready = Some now \<and> t \<le> now \<and>
     requested demo_dq x t \<and> dq_Interface q' = wq_Add (dq_Interface demo_dq) x)"
proof -
  have pc: "dq_loop demo_dq = LReady 7" by (simp add: demo_dq_def)
  have inv: "dq_inv demo_dq" using dq_inv_run [OF demo_dq_run dq_inv_new] .
  obtain q' where r: "loop_ready demo_dq 7 = Some q'"
    "(\<forall>x t. deadline demo_dq x = Some t \<longrightarrow> 7 < t) \<or> (\<exists>d. dq_Interface q' = wq_Add wq_new d)"
    using loop_ready_ok [OF inv pc] by (auto simp: demo_dq_def)
  have "\<not> (\<forall>x t. deadline demo_dq x = Some t \<longrightarrow> 7 < t)" by (auto simp: demo_deadline)
  with r(2) obtain d where "dq_Interface q' = wq_Add wq_new d" by blast
  then have "dq_Interface q' \<noteq> dq_Interface demo_dq"
    by (simp add: demo_dq_def wq_Add_def wq_new_def Let_def)
  moreover have s: "dq_step demo_dq Ready q'" using pc r(1) by (rule dq_step.ready)
  ultimately show ?thesis using dq_never_early [OF demo_dq_run s] s by (auto simp: client_event_def)
qed

end
