(* ===== verification/Rate_Limiter.thy ===== *)
theory Rate_Limiter
  imports K8s_Prelude
begin

text \<open>
  The rate limiters of the work queue,
  \<open>staging/src/k8s.io/client-go/util/workqueue/default_rate_limiters.go\<close>.

  \<open>ItemExponentialFailureRateLimiter\<close> computes its delay in \<open>float64\<close>. The values that
  occur are integers, so an IEEE double is either an integer rounded to 53 significant bits,
  an infinity or not-a-number. Converting a float that is out of range of \<open>int64\<close> gives,
  in Go, an implementation-dependent value; it is the argument \<open>conv\<close> of the model. The
  token bucket of \<open>golang.org/x/time/rate\<close> is the argument \<open>reserve\<close>, its state \<open>'b\<close>.
\<close>

section \<open>Integer-valued float64 arithmetic\<close>

fun bit_len :: "nat \<Rightarrow> nat" where
  "bit_len n = (if n = 0 then 0 else Suc (bit_len (n div 2)))"

declare bit_len.simps [simp del]

lemma bit_len_le_iff: "bit_len n \<le> m \<longleftrightarrow> n < 2 ^ m"
proof (induction m arbitrary: n)
  case 0
  then show ?case by (subst bit_len.simps) auto
next
  case (Suc m)
  have "bit_len n \<le> Suc m \<longleftrightarrow> n = 0 \<or> bit_len (n div 2) \<le> m"
    by (subst bit_len.simps) auto
  also have "\<dots> \<longleftrightarrow> n = 0 \<or> n div 2 < 2 ^ m" by (simp add: Suc.IH)
  also have "\<dots> \<longleftrightarrow> n < 2 ^ Suc m" by (auto simp: less_mult_imp_div_less mult.commute)
  finally show ?case .
qed

text \<open>Round to nearest, ties to even, at 53 significant bits.\<close>

definition f64_of_nat :: "nat \<Rightarrow> nat" where
  "f64_of_nat n =
     (let b = bit_len n in
      if b \<le> 53 then n
      else let s = b - 53; q = n div 2 ^ s; r = n mod 2 ^ s; h = 2 ^ (s - 1) in
        (if r < h \<or> (r = h \<and> even q) then q else q + 1) * 2 ^ s)"

datatype f64 = FInt int | FPosInf | FNegInf | FNaN

definition f64_of_int :: "int \<Rightarrow> f64" where
  "f64_of_int z =
     (let a = f64_of_nat (nat \<bar>z\<bar>) in
      if a < 2 ^ 1024 then FInt (sgn z * int a) else if 0 < z then FPosInf else FNegInf)"

fun f64_mult :: "f64 \<Rightarrow> f64 \<Rightarrow> f64" where
  "f64_mult (FInt a) (FInt b) = f64_of_int (a * b)"
| "f64_mult (FInt a) FPosInf = (if 0 < a then FPosInf else if a < 0 then FNegInf else FNaN)"
| "f64_mult (FInt a) FNegInf = (if 0 < a then FNegInf else if a < 0 then FPosInf else FNaN)"
| "f64_mult FPosInf (FInt b) = (if 0 < b then FPosInf else if b < 0 then FNegInf else FNaN)"
| "f64_mult FNegInf (FInt b) = (if 0 < b then FNegInf else if b < 0 then FPosInf else FNaN)"
| "f64_mult FPosInf FPosInf = FPosInf"
| "f64_mult FPosInf FNegInf = FNegInf"
| "f64_mult FNegInf FPosInf = FNegInf"
| "f64_mult FNegInf FNegInf = FPosInf"
| "f64_mult FNaN _ = FNaN"
| "f64_mult _ FNaN = FNaN"

definition f64_pow2 :: "nat \<Rightarrow> f64" where
  "f64_pow2 e = (if e < 1024 then FInt (2 ^ e) else FPosInf)"

fun f64_gt_int :: "f64 \<Rightarrow> int \<Rightarrow> bool" where
  "f64_gt_int (FInt a) b = (a > b)"
| "f64_gt_int FPosInf b = True"
| "f64_gt_int FNegInf b = False"
| "f64_gt_int FNaN b = False"

text \<open>\<open>time.Duration(f)\<close>: exact in range, implementation-dependent outside.\<close>

fun duration_of_f64 :: "(f64 \<Rightarrow> int) \<Rightarrow> f64 \<Rightarrow> int" where
  "duration_of_f64 conv (FInt a) = (if in_int64 a then a else conv (FInt a))"
| "duration_of_f64 conv f = conv f"

lemma f64_of_nat_scaled:
  assumes "n < 2 ^ 53"
  shows "f64_of_nat (n * 2 ^ k) = n * 2 ^ k"
proof (cases "bit_len (n * 2 ^ k) \<le> 53")
  case True
  then show ?thesis by (simp add: f64_of_nat_def)
next
  case False
  let ?s = "bit_len (n * 2 ^ k) - 53"
  have "n * 2 ^ k < 2 ^ (53 + k)" using assms by (simp add: power_add)
  then have "bit_len (n * 2 ^ k) \<le> 53 + k" by (simp add: bit_len_le_iff)
  then have "?s \<le> k" by simp
  then have dvd: "2 ^ ?s dvd n * 2 ^ k" by (simp add: le_imp_power_dvd)
  then have "n * 2 ^ k mod 2 ^ ?s = 0" by simp
  moreover have "(0::nat) < 2 ^ (?s - 1)" by simp
  ultimately show ?thesis using False dvd by (simp add: f64_of_nat_def Let_def)
qed

lemma f64_of_int_scaled:
  assumes "0 < b" "b < 2 ^ 53"
  shows "f64_of_int (b * 2 ^ k) = (if b * 2 ^ k < 2 ^ 1024 then FInt (b * 2 ^ k) else FPosInf)"
proof -
  have "nat \<bar>b * 2 ^ k\<bar> = nat b * 2 ^ k" using assms by (simp add: nat_mult_distrib nat_power_eq)
  moreover have "nat b < 2 ^ 53" using assms by (simp add: nat_less_iff)
  ultimately have "f64_of_nat (nat \<bar>b * 2 ^ k\<bar>) = nat b * 2 ^ k" using f64_of_nat_scaled by simp
  moreover have "int (nat b * 2 ^ k) = b * 2 ^ k" using assms by simp
  moreover have "nat b * 2 ^ k < 2 ^ 1024 \<longleftrightarrow> b * 2 ^ k < 2 ^ 1024"
    using \<open>int (nat b * 2 ^ k) = b * 2 ^ k\<close>
    by (metis of_nat_less_iff of_nat_numeral of_nat_power)
  ultimately show ?thesis using assms by (simp add: f64_of_int_def Let_def)
qed

section \<open>The limiters\<close>

record 'a exp_limiter =
  el_failures :: "'a \<rightharpoonup> nat"
  el_baseDelay :: int
  el_maxDelay :: int

definition NewItemExponentialFailureRateLimiter :: "int \<Rightarrow> int \<Rightarrow> 'a exp_limiter" where
  "NewItemExponentialFailureRateLimiter baseDelay maxDelay =
     \<lparr>el_failures = Map.empty, el_baseDelay = baseDelay, el_maxDelay = maxDelay\<rparr>"

text \<open>A missing key of a Go map of \<open>int\<close> reads as 0.\<close>

definition failures_of :: "('a \<rightharpoonup> nat) \<Rightarrow> 'a \<Rightarrow> nat" where
  "failures_of m x = (case m x of None \<Rightarrow> 0 | Some n \<Rightarrow> n)"

definition exp_When :: "(f64 \<Rightarrow> int) \<Rightarrow> 'a exp_limiter \<Rightarrow> 'a \<Rightarrow> 'a exp_limiter \<times> int" where
  "exp_When conv r item =
     (let e = failures_of (el_failures r) item;
          r1 = r\<lparr>el_failures := (el_failures r)(item \<mapsto> failures_of (el_failures r) item + 1)\<rparr>;
          backoff = f64_mult (f64_of_int (el_baseDelay r)) (f64_pow2 e) in
      if f64_gt_int backoff (2 ^ 63) then (r1, el_maxDelay r)
      else
        let calculated = duration_of_f64 conv backoff in
        if calculated > el_maxDelay r then (r1, el_maxDelay r) else (r1, calculated))"

definition exp_NumRequeues :: "'a exp_limiter \<Rightarrow> 'a \<Rightarrow> nat" where
  "exp_NumRequeues r item = failures_of (el_failures r) item"

definition exp_Forget :: "'a exp_limiter \<Rightarrow> 'a \<Rightarrow> 'a exp_limiter" where
  "exp_Forget r item = r\<lparr>el_failures := (el_failures r)(item := None)\<rparr>"

record 'a fast_slow_limiter =
  fs_failures :: "'a \<rightharpoonup> nat"
  fs_maxFastAttempts :: int
  fs_fastDelay :: int
  fs_slowDelay :: int

definition NewItemFastSlowRateLimiter :: "int \<Rightarrow> int \<Rightarrow> int \<Rightarrow> 'a fast_slow_limiter" where
  "NewItemFastSlowRateLimiter fastDelay slowDelay maxFastAttempts =
     \<lparr>fs_failures = Map.empty, fs_maxFastAttempts = maxFastAttempts, fs_fastDelay = fastDelay,
      fs_slowDelay = slowDelay\<rparr>"

definition fast_slow_When :: "'a fast_slow_limiter \<Rightarrow> 'a \<Rightarrow> 'a fast_slow_limiter \<times> int" where
  "fast_slow_When r item =
     (let r1 = r\<lparr>fs_failures := (fs_failures r)(item \<mapsto> failures_of (fs_failures r) item + 1)\<rparr> in
      if int (failures_of (fs_failures r1) item) \<le> fs_maxFastAttempts r1 then (r1, fs_fastDelay r1)
      else (r1, fs_slowDelay r1))"

definition fast_slow_NumRequeues :: "'a fast_slow_limiter \<Rightarrow> 'a \<Rightarrow> nat" where
  "fast_slow_NumRequeues r item = failures_of (fs_failures r) item"

definition fast_slow_Forget :: "'a fast_slow_limiter \<Rightarrow> 'a \<Rightarrow> 'a fast_slow_limiter" where
  "fast_slow_Forget r item = r\<lparr>fs_failures := (fs_failures r)(item := None)\<rparr>"

text \<open>The implementations of the interface \<open>RateLimiter\<close>; \<open>MaxOf\<close> holds a list of them.\<close>

datatype ('a, 'b) limiter =
    Exponential "'a exp_limiter"
  | FastSlow "'a fast_slow_limiter"
  | Bucket 'b
  | MaxOf "('a, 'b) limiter list"

text \<open>The loop of \<open>MaxOfRateLimiter.When\<close> is \<open>max_When\<close>, with its variable \<open>ret\<close>.\<close>

fun limiter_When ::
  "(f64 \<Rightarrow> int) \<Rightarrow> ('b \<Rightarrow> 'b \<times> int) \<Rightarrow> ('a, 'b) limiter \<Rightarrow> 'a \<Rightarrow> ('a, 'b) limiter \<times> int"
and max_When ::
  "(f64 \<Rightarrow> int) \<Rightarrow> ('b \<Rightarrow> 'b \<times> int) \<Rightarrow> int \<Rightarrow> ('a, 'b) limiter list \<Rightarrow> 'a \<Rightarrow> ('a, 'b) limiter list \<times> int" where
  "limiter_When conv reserve (Exponential r) item =
     (case exp_When conv r item of (r', d) \<Rightarrow> (Exponential r', d))"
| "limiter_When conv reserve (FastSlow r) item =
     (case fast_slow_When r item of (r', d) \<Rightarrow> (FastSlow r', d))"
| "limiter_When conv reserve (Bucket b) item = (case reserve b of (b', d) \<Rightarrow> (Bucket b', d))"
| "limiter_When conv reserve (MaxOf ls) item =
     (case max_When conv reserve 0 ls item of (ls', d) \<Rightarrow> (MaxOf ls', d))"
| "max_When conv reserve ret [] item = ([], ret)"
| "max_When conv reserve ret (l # ls) item =
     (case limiter_When conv reserve l item of
        (l', cur) \<Rightarrow>
          (case max_When conv reserve (if cur > ret then cur else ret) ls item of
             (ls', d) \<Rightarrow> (l' # ls', d)))"

fun limiter_NumRequeues :: "('a, 'b) limiter \<Rightarrow> 'a \<Rightarrow> nat"
and max_NumRequeues :: "nat \<Rightarrow> ('a, 'b) limiter list \<Rightarrow> 'a \<Rightarrow> nat" where
  "limiter_NumRequeues (Exponential r) item = exp_NumRequeues r item"
| "limiter_NumRequeues (FastSlow r) item = fast_slow_NumRequeues r item"
| "limiter_NumRequeues (Bucket b) item = 0"
| "limiter_NumRequeues (MaxOf ls) item = max_NumRequeues 0 ls item"
| "max_NumRequeues ret [] item = ret"
| "max_NumRequeues ret (l # ls) item =
     (let cur = limiter_NumRequeues l item in
      max_NumRequeues (if cur > ret then cur else ret) ls item)"

fun limiter_Forget :: "('a, 'b) limiter \<Rightarrow> 'a \<Rightarrow> ('a, 'b) limiter" where
  "limiter_Forget (Exponential r) item = Exponential (exp_Forget r item)"
| "limiter_Forget (FastSlow r) item = FastSlow (fast_slow_Forget r item)"
| "limiter_Forget (Bucket b) item = Bucket b"
| "limiter_Forget (MaxOf ls) item = MaxOf (map (\<lambda>l. limiter_Forget l item) ls)"

definition DefaultControllerRateLimiter :: "'b \<Rightarrow> ('a, 'b) limiter" where
  "DefaultControllerRateLimiter bucket =
     MaxOf [Exponential (NewItemExponentialFailureRateLimiter (5 * 1000000) (1000 * 1000000000)),
            Bucket bucket]"

definition DefaultItemBasedRateLimiter :: "('a, 'b) limiter" where
  "DefaultItemBasedRateLimiter =
     Exponential (NewItemExponentialFailureRateLimiter 1000000 (1000 * 1000000000))"

section \<open>Delays and failure counts\<close>

lemma f64_mult_pow2:
  assumes "0 < b" "b < 2 ^ 53"
  shows "f64_mult (f64_of_int b) (f64_pow2 e) =
    (if e < 1024 \<and> b * 2 ^ e < 2 ^ 1024 then FInt (b * 2 ^ e) else FPosInf)"
proof -
  have "b < 2 ^ 1024" using assms(2) by (rule order.strict_trans) simp
  then have "f64_of_int b = FInt b" using f64_of_int_scaled [OF assms, of 0] by simp
  then show ?thesis using assms by (simp add: f64_pow2_def f64_of_int_scaled)
qed

lemma mult_pow2_large:
  assumes "0 < (b::int)" "1024 \<le> e"
  shows "2 ^ 63 < b * 2 ^ e"
proof -
  have "(2::int) ^ 63 < 2 ^ 1024" by simp
  also have "\<dots> \<le> 2 ^ e" using assms(2) by (rule power_increasing) simp
  also have "\<dots> \<le> b * 2 ^ e" using assms(1) by (simp add: int_one_le_iff_zero_less)
  finally show ?thesis .
qed

text \<open>The delay of one call, in terms of the failures counted so far.\<close>

lemma exp_When_value:
  assumes "0 < el_baseDelay r" "el_baseDelay r < 2 ^ 53" "in_int64 (el_maxDelay r)"
    and w_def: "w = el_baseDelay r * 2 ^ exp_NumRequeues r item"
  shows "snd (exp_When conv r item) =
    min (if w = 2 ^ 63 then conv (FInt (2 ^ 63)) else w) (el_maxDelay r)"
proof -
  let ?e = "failures_of (el_failures r) item"
  let ?f = "f64_mult (f64_of_int (el_baseDelay r)) (f64_pow2 ?e)"
  have w: "w = el_baseDelay r * 2 ^ ?e" by (simp add: w_def exp_NumRequeues_def)
  have pos: "0 < w" using assms(1) by (simp add: w)
  have max63: "el_maxDelay r < 2 ^ 63" using assms(3) by (simp add: in_int64_def max_int64_def)
  have f: "?f = (if ?e < 1024 \<and> w < 2 ^ 1024 then FInt w else FPosInf)"
    using f64_mult_pow2 [OF assms(1,2)] w by simp
  consider "w < 2 ^ 63" | "w = 2 ^ 63" | "2 ^ 63 < w" by linarith
  then show ?thesis
  proof cases
    case 1
    then have "?e < 1024" using mult_pow2_large [OF assms(1), of ?e] w by linarith
    moreover have "w < 2 ^ 1024" using 1 by (rule order.strict_trans) simp
    ultimately have "?f = FInt w" using f by simp
    moreover have "in_int64 w" using 1 pos by (simp add: in_int64_def max_int64_def)
    ultimately show ?thesis using 1 by (simp add: exp_When_def Let_def)
  next
    case 2
    then have "?e < 1024" using mult_pow2_large [OF assms(1), of ?e] w by linarith
    then have "?f = FInt (2 ^ 63)" using f 2 by simp
    moreover have "\<not> in_int64 (2 ^ 63)" by (simp add: in_int64_def max_int64_def)
    ultimately show ?thesis using 2 by (simp add: exp_When_def Let_def)
  next
    case 3
    then have "f64_gt_int ?f (2 ^ 63)" using f by simp
    then show ?thesis using 3 max63 by (simp add: exp_When_def Let_def)
  qed
qed

lemma fst_exp_When:
  "fst (exp_When conv r item) =
    r\<lparr>el_failures := (el_failures r)(item \<mapsto> failures_of (el_failures r) item + 1)\<rparr>"
  by (simp add: exp_When_def Let_def)

lemma fst_fast_slow_When:
  "fst (fast_slow_When r item) =
    r\<lparr>fs_failures := (fs_failures r)(item \<mapsto> failures_of (fs_failures r) item + 1)\<rparr>"
  by (simp add: fast_slow_When_def Let_def)

text \<open>Every per-item counter of the limiter stands at \<open>n\<close> for the item \<open>x\<close>.\<close>

fun tracks :: "('a, 'b) limiter \<Rightarrow> 'a \<Rightarrow> nat \<Rightarrow> bool" where
  "tracks (Exponential r) x n = (exp_NumRequeues r x = n)"
| "tracks (FastSlow r) x n = (fast_slow_NumRequeues r x = n)"
| "tracks (Bucket b) x n = True"
| "tracks (MaxOf ls) x n = (\<forall>l \<in> set ls. tracks l x n)"

fun counts_items :: "('a, 'b) limiter \<Rightarrow> bool" where
  "counts_items (Exponential r) = True"
| "counts_items (FastSlow r) = True"
| "counts_items (Bucket b) = False"
| "counts_items (MaxOf ls) = (\<exists>l \<in> set ls. counts_items l)"

lemma fst_max_When:
  "fst (max_When conv reserve ret ls y) = map (\<lambda>l. fst (limiter_When conv reserve l y)) ls"
  by (induction ls arbitrary: ret) (simp_all add: case_prod_beta)

lemma tracks_When:
  "tracks l x n \<Longrightarrow> tracks (fst (limiter_When conv reserve l y)) x (if y = x then Suc n else n)"
  by (induction l)
    (auto simp: exp_NumRequeues_def fast_slow_NumRequeues_def failures_of_def fst_max_When
      fst_exp_When fst_fast_slow_When case_prod_beta)

lemma counts_When: "counts_items (fst (limiter_When conv reserve l y)) = counts_items l"
  by (induction l) (auto simp: case_prod_beta fst_max_When)

lemma tracks_Forget: "tracks l x n \<Longrightarrow> tracks (limiter_Forget l y) x (if y = x then 0 else n)"
  by (induction l y rule: limiter_Forget.induct)
    (auto simp: exp_NumRequeues_def exp_Forget_def fast_slow_NumRequeues_def
      fast_slow_Forget_def failures_of_def)

lemma counts_Forget: "counts_items (limiter_Forget l y) = counts_items l"
  by (induction l y rule: limiter_Forget.induct) auto

lemma max_NumRequeues_fold:
  "max_NumRequeues ret ls x = foldr max (map (\<lambda>l. limiter_NumRequeues l x) ls) ret"
proof (induction ls arbitrary: ret)
  case (Cons l ls)
  have pull: "foldr max ds (max c ret) = max c (foldr max ds ret)" for c :: nat and ds
    by (induction ds) auto
  have c: "(if c > ret then c else ret) = max c ret" for c by auto
  show ?case by (simp add: Cons.IH c pull Let_def)
qed simp

lemma foldr_max_uniform:
  "(\<And>l. l \<in> set ls \<Longrightarrow> f l = (if P l then n else (0::nat))) \<Longrightarrow>
   foldr max (map f ls) 0 = (if \<exists>l \<in> set ls. P l then n else 0)"
  by (induction ls) auto

lemma tracks_NumRequeues:
  "tracks l x n \<Longrightarrow> limiter_NumRequeues l x = (if counts_items l then n else 0)"
proof (induction l)
  case (MaxOf ls)
  then show ?case
    by (simp add: max_NumRequeues_fold foldr_max_uniform [where P = counts_items and n = n])
qed simp_all

text \<open>\<open>MaxOf\<close> returns the largest delay of its members, and none below 0.\<close>

lemma max_When_fold:
  "snd (max_When conv reserve ret ls x) =
    foldr max (map (\<lambda>l. snd (limiter_When conv reserve l x)) ls) ret"
proof (induction ls arbitrary: ret)
  case (Cons l ls)
  have pull: "foldr max ds (max c ret) = max c (foldr max ds ret)" for c :: int and ds
    by (induction ds) auto
  have c: "(if c > ret then c else ret) = max c ret" for c by auto
  show ?case by (simp add: Cons.IH c pull case_prod_beta)
qed simp

section \<open>Traces of a limiter\<close>

datatype 'a limiter_op = OpWhen 'a | OpForget 'a

fun limiter_apply ::
  "(f64 \<Rightarrow> int) \<Rightarrow> ('b \<Rightarrow> 'b \<times> int) \<Rightarrow> ('a, 'b) limiter \<Rightarrow> 'a limiter_op \<Rightarrow> ('a, 'b) limiter" where
  "limiter_apply conv reserve l (OpWhen x) = fst (limiter_When conv reserve l x)"
| "limiter_apply conv reserve l (OpForget x) = limiter_Forget l x"

definition limiter_run ::
  "(f64 \<Rightarrow> int) \<Rightarrow> ('b \<Rightarrow> 'b \<times> int) \<Rightarrow> ('a, 'b) limiter \<Rightarrow> 'a limiter_op list \<Rightarrow> ('a, 'b) limiter" where
  "limiter_run conv reserve = foldl (limiter_apply conv reserve)"

text \<open>The calls of \<open>When\<close> for \<open>x\<close> since the last \<open>Forget\<close> of it.\<close>

fun retries_step :: "'a \<Rightarrow> nat \<Rightarrow> 'a limiter_op \<Rightarrow> nat" where
  "retries_step x n (OpWhen y) = (if y = x then Suc n else n)"
| "retries_step x n (OpForget y) = (if y = x then 0 else n)"

definition retries :: "'a \<Rightarrow> 'a limiter_op list \<Rightarrow> nat" where
  "retries x = foldl (retries_step x) 0"

lemma tracks_run:
  "tracks l x n \<Longrightarrow> tracks (limiter_run conv reserve l ops) x (foldl (retries_step x) n ops)"
proof (induction ops arbitrary: l n)
  case (Cons op ops)
  have "tracks (limiter_apply conv reserve l op) x (retries_step x n op)"
    using Cons.prems tracks_When [of l x n conv reserve] tracks_Forget [of l x n]
    by (cases op) auto
  from Cons.IH [OF this] show ?case by (simp add: limiter_run_def)
qed (simp add: limiter_run_def)

lemma counts_run: "counts_items (limiter_run conv reserve l ops) = counts_items l"
proof (induction ops arbitrary: l)
  case (Cons op ops)
  have "counts_items (limiter_apply conv reserve l op) = counts_items l"
    by (cases op) (simp_all add: counts_When counts_Forget)
  with Cons.IH show ?case by (simp add: limiter_run_def)
qed (simp add: limiter_run_def)

lemma run_Exponential:
  "\<exists>r. limiter_run conv reserve (Exponential r0) ops = Exponential r \<and>
     el_baseDelay r = el_baseDelay r0 \<and> el_maxDelay r = el_maxDelay r0"
proof (induction ops arbitrary: r0)
  case (Cons op ops)
  show ?case
  proof (cases op)
    case (OpWhen x)
    then show ?thesis using Cons.IH [of "fst (exp_When conv r0 x)"]
      by (auto simp: limiter_run_def case_prod_beta fst_exp_When)
  next
    case (OpForget x)
    then show ?thesis using Cons.IH [of "exp_Forget r0 x"]
      by (auto simp: limiter_run_def exp_Forget_def)
  qed
qed (simp add: limiter_run_def)

fun count_whens :: "'a limiter_op list \<Rightarrow> nat" where
  "count_whens [] = 0"
| "count_whens (OpWhen x # ops) = Suc (count_whens ops)"
| "count_whens (OpForget x # ops) = count_whens ops"

lemma run_Bucket:
  "limiter_run conv reserve (Bucket b) ops = Bucket (((fst \<circ> reserve) ^^ count_whens ops) b)"
proof (induction ops arbitrary: b rule: count_whens.induct)
  case (2 x ops)
  then show ?case using funpow_swap1 [of "fst \<circ> reserve" "count_whens ops" b]
    by (simp add: limiter_run_def case_prod_beta comp_def)
qed (simp_all add: limiter_run_def)

lemma run_MaxOf_pair:
  "limiter_run conv reserve (MaxOf [l1, l2]) ops =
     MaxOf [limiter_run conv reserve l1 ops, limiter_run conv reserve l2 ops]"
proof (induction ops arbitrary: l1 l2)
  case (Cons op ops)
  show ?case
    by (cases op) (use Cons.IH in \<open>simp_all add: limiter_run_def case_prod_beta\<close>)
qed (simp add: limiter_run_def)

lemma exp_run_delay:
  assumes "0 < baseDelay" "baseDelay < 2 ^ 53" "in_int64 maxDelay"
    and "w = baseDelay * 2 ^ retries x ops"
  shows "snd (limiter_When conv reserve
      (limiter_run conv reserve
        (Exponential (NewItemExponentialFailureRateLimiter baseDelay maxDelay)) ops) x) =
    min (if w = 2 ^ 63 then conv (FInt (2 ^ 63)) else w) maxDelay"
proof -
  let ?l = "Exponential (NewItemExponentialFailureRateLimiter baseDelay maxDelay)"
  obtain r where r: "limiter_run conv reserve ?l ops = Exponential r"
    "el_baseDelay r = baseDelay" "el_maxDelay r = maxDelay"
    using run_Exponential by (metis NewItemExponentialFailureRateLimiter_def exp_limiter.select_convs(2,3))
  have "tracks ?l x 0"
    by (simp add: exp_NumRequeues_def NewItemExponentialFailureRateLimiter_def failures_of_def)
  from tracks_run [OF this, of conv reserve ops] have "exp_NumRequeues r x = retries x ops"
    by (simp add: r(1) retries_def)
  then show ?thesis using exp_When_value [of r w x conv] assms r by (simp add: case_prod_beta)
qed

text \<open>C9: after any sequence of calls of When and Forget, an exponential limiter answers the next
  When with the base delay doubled once for each When since the last Forget of the item, capped
  at the maximal delay, whatever the intermediate product; only a product of exactly 2^63
  nanoseconds passes the overflow test and leaves the answer to the float conversion.\<close>

theorem exp_limiter_delay:
  assumes "0 < baseDelay" "baseDelay < 2 ^ 53" "in_int64 maxDelay"
  shows "snd (limiter_When conv reserve
      (limiter_run conv reserve
        (Exponential (NewItemExponentialFailureRateLimiter baseDelay maxDelay)) ops) x) =
    min (if baseDelay * 2 ^ retries x ops = 2 ^ 63 then conv (FInt (2 ^ 63))
         else baseDelay * 2 ^ retries x ops) maxDelay"
  using exp_run_delay [OF assms refl] .

theorem exp_limiter_delay_witness:
  "snd (limiter_When (\<lambda>_. - (2 ^ 63)) (\<lambda>b::nat. (b, 0))
      (limiter_run (\<lambda>_. - (2 ^ 63)) (\<lambda>b. (b, 0))
        (Exponential (NewItemExponentialFailureRateLimiter (2 ^ 52) (1000 * 1000000000)))
        (replicate 11 (OpWhen True))) True) = - (2 ^ 63) \<and>
   snd (limiter_When (\<lambda>_. - (2 ^ 63)) (\<lambda>b::nat. (b, 0))
      (limiter_run (\<lambda>_. - (2 ^ 63)) (\<lambda>b. (b, 0))
        (Exponential (NewItemExponentialFailureRateLimiter 1000000 (1000 * 1000000000)))
        [OpWhen True, OpForget True, OpWhen True, OpWhen False, OpWhen True]) True) = 4000000"
proof (rule conjI)
  have r: "retries True (replicate 11 (OpWhen True)) = 11"
    by (simp add: retries_def eval_nat_numeral)
  show "snd (limiter_When (\<lambda>_. - (2 ^ 63)) (\<lambda>b::nat. (b, 0))
      (limiter_run (\<lambda>_. - (2 ^ 63)) (\<lambda>b. (b, 0))
        (Exponential (NewItemExponentialFailureRateLimiter (2 ^ 52) (1000 * 1000000000)))
        (replicate 11 (OpWhen True))) True) = - (2 ^ 63)"
    by (subst exp_limiter_delay) (simp_all add: r in_int64_def max_int64_def)
  show "snd (limiter_When (\<lambda>_. - (2 ^ 63)) (\<lambda>b::nat. (b, 0))
      (limiter_run (\<lambda>_. - (2 ^ 63)) (\<lambda>b. (b, 0))
        (Exponential (NewItemExponentialFailureRateLimiter 1000000 (1000 * 1000000000)))
        [OpWhen True, OpForget True, OpWhen True, OpWhen False, OpWhen True]) True) = 4000000"
    by (subst exp_limiter_delay) (simp_all add: retries_def in_int64_def max_int64_def)
qed

lemma DefaultControllerRateLimiter_run:
  "snd (limiter_When conv reserve
      (limiter_run conv reserve (DefaultControllerRateLimiter b) ops) x) =
    max (min (5000000 * 2 ^ retries x ops) 1000000000000)
      (max 0 (snd (reserve (((fst \<circ> reserve) ^^ count_whens ops) b))))"
proof -
  let ?w = "(5000000::int) * 2 ^ retries x ops"
  have "(5::int) dvd ?w" by (simp add: dvd_mult2)
  moreover have "\<not> (5::int) dvd 2 ^ 63" by simp
  ultimately have "?w \<noteq> 2 ^ 63" by metis
  then have "snd (limiter_When conv reserve (limiter_run conv reserve
      (Exponential (NewItemExponentialFailureRateLimiter (5 * 1000000) (1000 * 1000000000))) ops) x) =
      min ?w 1000000000000"
    using exp_run_delay [of "5 * 1000000" "1000 * 1000000000" ?w x ops conv reserve]
    by (simp add: in_int64_def max_int64_def)
  moreover have "\<not> min ?w 1000000000000 \<le> 0" by (simp add: not_le)
  ultimately show ?thesis
    by (simp add: DefaultControllerRateLimiter_def run_MaxOf_pair max_When_fold run_Bucket
        case_prod_beta) (simp add: max_def)
qed

text \<open>after any sequence of calls, the default controller limiter answers with the larger of
  the token bucket's delay at that number of reservations and five milliseconds doubled once per
  retry of the item and capped at a thousand seconds; the answer is never negative.\<close>

theorem DefaultControllerRateLimiter_delay:
  "snd (limiter_When conv reserve
      (limiter_run conv reserve (DefaultControllerRateLimiter b) ops) x) =
    max (min (5000000 * 2 ^ retries x ops) 1000000000000)
      (max 0 (snd (reserve (((fst \<circ> reserve) ^^ count_whens ops) b))))"
  by (rule DefaultControllerRateLimiter_run)

text \<open>Any combination of limiters that starts with no failures reports, after any sequence of
  calls, the number of Whens since the item's last Forget; a combination of token buckets alone
  reports none.\<close>

theorem limiter_NumRequeues_trace:
  assumes "tracks l x 0"
  shows "limiter_NumRequeues (limiter_run conv reserve l ops) x =
    (if counts_items l then retries x ops else 0)"
  using tracks_NumRequeues [OF tracks_run [OF assms]] by (simp add: retries_def counts_run)

theorem limiter_NumRequeues_trace_witness:
  "limiter_NumRequeues (limiter_run (\<lambda>_. 0) (\<lambda>b. (b, 0))
      (MaxOf [FastSlow (NewItemFastSlowRateLimiter 5 10 3), Bucket (0::nat)]) [OpWhen True, OpWhen True]) True = 2"
  using limiter_NumRequeues_trace [of "MaxOf [FastSlow (NewItemFastSlowRateLimiter 5 10 3), Bucket (0::nat)]"
      True "\<lambda>_. 0" "\<lambda>b. (b, 0)" "[OpWhen True, OpWhen True]"]
  by (simp add: fast_slow_NumRequeues_def NewItemFastSlowRateLimiter_def failures_of_def retries_def)

end
