(* ===== verification/Rate_Limiting_Queue.thy ===== *)
theory Rate_Limiting_Queue
  imports Delaying_Queue Rate_Limiter
begin

text \<open>
  The rate limiting work queue,
  \<open>staging/src/k8s.io/client-go/util/workqueue/rate_limiting_queue.go\<close>: a delaying queue and a
  limiter that says how long an item is delayed. The locale \<open>rate_limiter\<close> is the part of the
  interface \<open>RateLimiter\<close> that the queue relies on; every combination of the limiters of
  \<open>default_rate_limiters.go\<close> provides it.
\<close>

record ('a, 'l) rateLimitingType =
  rl_queue :: "'a dq"
  rl_limiter :: 'l

definition NewRateLimitingQueue :: "'l \<Rightarrow> ('a, 'l) rateLimitingType" where
  "NewRateLimitingQueue rateLimiter =
     \<lparr>rl_queue = newDelayingQueue wq_new, rl_limiter = rateLimiter\<rparr>"

text \<open>\<open>When\<close> is evaluated before \<open>AddAfter\<close> is called; like \<open>AddAfter\<close> the method then has
  either returned or waits to send the item and its delay.\<close>

definition AddRateLimited ::
  "('l \<Rightarrow> 'a \<Rightarrow> 'l \<times> int) \<Rightarrow> ('a, 'l) rateLimitingType \<Rightarrow> 'a
   \<Rightarrow> ('a, 'l) rateLimitingType \<times> ('a \<times> int) option" where
  "AddRateLimited when_of q item =
     (case when_of (rl_limiter q) item of
        (l, d) \<Rightarrow>
          (case AddAfter_enter (rl_queue q) item d of
             (dq, p) \<Rightarrow> (q\<lparr>rl_queue := dq, rl_limiter := l\<rparr>, p)))"

definition rl_NumRequeues :: "('l \<Rightarrow> 'a \<Rightarrow> nat) \<Rightarrow> ('a, 'l) rateLimitingType \<Rightarrow> 'a \<Rightarrow> nat" where
  "rl_NumRequeues num q item = num (rl_limiter q) item"

definition rl_Forget ::
  "('l \<Rightarrow> 'a \<Rightarrow> 'l) \<Rightarrow> ('a, 'l) rateLimitingType \<Rightarrow> 'a \<Rightarrow> ('a, 'l) rateLimitingType" where
  "rl_Forget forget q item = q\<lparr>rl_limiter := forget (rl_limiter q) item\<rparr>"

section \<open>What the queue relies on\<close>

locale rate_limiter =
  fixes when_of :: "'l \<Rightarrow> 'a \<Rightarrow> 'l \<times> int"
    and forget :: "'l \<Rightarrow> 'a \<Rightarrow> 'l"
    and num :: "'l \<Rightarrow> 'a \<Rightarrow> nat"
  assumes when_other: "y \<noteq> x \<Longrightarrow> num (fst (when_of l x)) y = num l y"
    and when_same: "num l x \<le> num (fst (when_of l x)) x" "num (fst (when_of l x)) x \<le> Suc (num l x)"
    and forget_same: "num (forget l x) x = 0"
    and forget_other: "y \<noteq> x \<Longrightarrow> num (forget l x) y = num l y"
begin

lemma retry_discipline:
  "rl_NumRequeues num (fst (AddRateLimited when_of q x)) x \<le> Suc (rl_NumRequeues num q x) \<and>
   rl_NumRequeues num q x \<le> rl_NumRequeues num (fst (AddRateLimited when_of q x)) x \<and>
   rl_NumRequeues num (rl_Forget forget q x) x = 0 \<and> rl_queue (rl_Forget forget q x) = rl_queue q \<and>
   (\<forall>y. y = x \<or> rl_NumRequeues num (fst (AddRateLimited when_of q x)) y = rl_NumRequeues num q y \<and>
      rl_NumRequeues num (rl_Forget forget q x) y = rl_NumRequeues num q y)"
  using when_same [of "rl_limiter q" x]
  by (auto simp: rl_NumRequeues_def AddRateLimited_def rl_Forget_def case_prod_beta when_other
      forget_same forget_other)

end

lemma foldr_max_mono:
  "(\<And>l. l \<in> set ls \<Longrightarrow> f l \<le> g l) \<Longrightarrow> foldr max (map f ls) a \<le> foldr max (map g ls) (a :: nat)"
proof (induction ls)
  case (Cons l ls)
  then show ?case using max.mono [of "f l" "g l"] by simp
qed simp

lemma foldr_max_Suc:
  "(\<And>l. l \<in> set ls \<Longrightarrow> f l \<le> Suc (g l)) \<Longrightarrow> foldr max (map f ls) 0 \<le> Suc (foldr max (map g ls) 0)"
proof (induction ls)
  case (Cons l ls)
  then have "f l \<le> Suc (g l)" "foldr max (map f ls) 0 \<le> Suc (foldr max (map g ls) 0)" by simp_all
  then show ?case by simp linarith
qed simp

lemma limiter_When_num:
  "(y \<noteq> x \<longrightarrow> limiter_NumRequeues (fst (limiter_When conv reserve l x)) y = limiter_NumRequeues l y) \<and>
   limiter_NumRequeues l x \<le> limiter_NumRequeues (fst (limiter_When conv reserve l x)) x \<and>
   limiter_NumRequeues (fst (limiter_When conv reserve l x)) x \<le> Suc (limiter_NumRequeues l x)"
proof (induction l)
  case (MaxOf ls)
  let ?w = "\<lambda>l. fst (limiter_When conv reserve l x)"
  have other: "foldr max (map (\<lambda>l. limiter_NumRequeues (?w l) y) ls) 0 =
      foldr max (map (\<lambda>l. limiter_NumRequeues l y) ls) 0" if "y \<noteq> x"
    using MaxOf that by (intro arg_cong [of _ _ "\<lambda>xs. foldr max xs 0"]) simp
  have "foldr max (map (\<lambda>l. limiter_NumRequeues l x) ls) 0 \<le>
      foldr max (map (\<lambda>l. limiter_NumRequeues (?w l) x) ls) 0"
    using MaxOf by (intro foldr_max_mono) blast
  moreover have "foldr max (map (\<lambda>l. limiter_NumRequeues (?w l) x) ls) 0 \<le>
      Suc (foldr max (map (\<lambda>l. limiter_NumRequeues l x) ls) 0)"
    using MaxOf by (intro foldr_max_Suc) blast
  ultimately show ?case
    using other by (simp add: max_NumRequeues_fold fst_max_When case_prod_beta comp_def)
qed (auto simp: exp_NumRequeues_def fast_slow_NumRequeues_def failures_of_def fst_exp_When
    fst_fast_slow_When case_prod_beta)

lemma limiter_Forget_num:
  "limiter_NumRequeues (limiter_Forget l x) y = (if y = x then 0 else limiter_NumRequeues l y)"
proof (induction l)
  case (MaxOf ls)
  have "foldr max (map (\<lambda>l. limiter_NumRequeues (limiter_Forget l x) y) ls) 0 =
      foldr max (map (\<lambda>l. if y = x then 0 else limiter_NumRequeues l y) ls) 0"
    using MaxOf by (intro arg_cong [of _ _ "\<lambda>xs. foldr max xs 0"]) simp
  moreover have "foldr max (map (\<lambda>l. 0) ls) 0 = (0::nat)" by (induction ls) auto
  ultimately show ?case by (simp add: max_NumRequeues_fold comp_def)
qed (auto simp: exp_NumRequeues_def fast_slow_NumRequeues_def failures_of_def exp_Forget_def
    fast_slow_Forget_def)

interpretation default_limiters:
  rate_limiter "limiter_When conv reserve" limiter_Forget limiter_NumRequeues for conv reserve
  by unfold_locales (simp_all add: limiter_When_num limiter_Forget_num)

text \<open>With any combination of the provided limiters, AddRateLimited of an item raises its
  retry count by at most one and leaves the other counts alone; Forget resets the item's count,
  and only it, without touching the queue.\<close>

theorem rlq_retry_discipline:
  "rl_NumRequeues limiter_NumRequeues (fst (AddRateLimited (limiter_When conv reserve) q x)) x
     \<le> Suc (rl_NumRequeues limiter_NumRequeues q x) \<and>
   rl_NumRequeues limiter_NumRequeues q x
     \<le> rl_NumRequeues limiter_NumRequeues (fst (AddRateLimited (limiter_When conv reserve) q x)) x \<and>
   rl_NumRequeues limiter_NumRequeues (rl_Forget limiter_Forget q x) x = 0 \<and>
   rl_queue (rl_Forget limiter_Forget q x) = rl_queue q \<and>
   (\<forall>y. y = x \<or>
      rl_NumRequeues limiter_NumRequeues (fst (AddRateLimited (limiter_When conv reserve) q x)) y =
        rl_NumRequeues limiter_NumRequeues q y \<and>
      rl_NumRequeues limiter_NumRequeues (rl_Forget limiter_Forget q x) y =
        rl_NumRequeues limiter_NumRequeues q y)"
  by (rule default_limiters.retry_discipline)

text \<open>The delay of the default limiter after a history of calls.\<close>

definition default_backoff :: "('b \<Rightarrow> 'b \<times> int) \<Rightarrow> 'b \<Rightarrow> 'a limiter_op list \<Rightarrow> 'a \<Rightarrow> int" where
  "default_backoff reserve b ops x =
     max (min (5000000 * 2 ^ retries x ops) 1000000000000)
       (max 0 (snd (reserve (((fst \<circ> reserve) ^^ count_whens ops) b))))"

text \<open>with the default controller limiter, an item added rate limited to an open queue is
  accepted with the delay of its retry history, which is positive, so the item is never added at
  once; when the accepted request has been sent at clock reading now, it is due at now plus that
  delay.\<close>

theorem rlq_default_backoff:
  assumes "dq_run (newDelayingQueue wq_new) es (rl_queue q)"
    and "rl_limiter q = limiter_run conv reserve (DefaultControllerRateLimiter b) ops"
    and "\<not> wq_ShuttingDown (dq_Interface (rl_queue q))"
    and "AddRateLimited (limiter_When conv reserve) q x = (q1, p)"
  shows "0 < default_backoff reserve b ops x \<and> p = Some (x, default_backoff reserve b ops x) \<and>
    rl_queue q1 = rl_queue q \<and>
    rl_limiter q1 = limiter_run conv reserve (DefaultControllerRateLimiter b) (ops @ [OpWhen x]) \<and>
    (\<forall>now dq. AddAfter_send (rl_queue q1) now (x, default_backoff reserve b ops x) = Some dq \<longrightarrow>
       requested dq x (now + default_backoff reserve b ops x))"
proof -
  have d: "snd (limiter_When conv reserve (rl_limiter q) x) = default_backoff reserve b ops x"
    unfolding assms(2) default_backoff_def by (rule DefaultControllerRateLimiter_run)
  have pos: "0 < default_backoff reserve b ops x" by (simp add: default_backoff_def less_max_iff_disj)
  have r: "p = Some (x, default_backoff reserve b ops x)" "rl_queue q1 = rl_queue q"
      "rl_limiter q1 = fst (limiter_When conv reserve (rl_limiter q) x)"
    using assms(3,4) d pos by (auto simp: AddRateLimited_def AddAfter_enter_def case_prod_beta)
  have "rl_limiter q1 = limiter_run conv reserve (DefaultControllerRateLimiter b) (ops @ [OpWhen x])"
    using r(3) by (simp add: assms(2) limiter_run_def)
  moreover have "requested dq x (now + default_backoff reserve b ops x)"
    if "AddAfter_send (rl_queue q1) now (x, default_backoff reserve b ops x) = Some dq" for now dq
  proof -
    have "dq_inv (rl_queue q1)" using dq_inv_run [OF assms(1) dq_inv_new] r(2) by simp
    from AddAfter_send_ok [OF this that] show ?thesis by (auto simp: requested_def)
  qed
  ultimately show ?thesis using pos r(1,2) by blast
qed

theorem rlq_default_backoff_witness:
  "snd (AddRateLimited (limiter_When (\<lambda>_. 0) (\<lambda>b. (b + 1, 7)))
      (NewRateLimitingQueue (DefaultControllerRateLimiter (0::nat))) True) = Some (True, 5000000)"
proof -
  let ?q = "NewRateLimitingQueue (DefaultControllerRateLimiter (0::nat)) :: (bool, (bool, nat) limiter) rateLimitingType"
  let ?w = "limiter_When (\<lambda>_. 0) (\<lambda>b. (b + 1, 7))"
  have 1: "dq_run (newDelayingQueue wq_new) [] (rl_queue ?q)"
    by (simp add: NewRateLimitingQueue_def dq_run_Nil)
  have 2: "rl_limiter ?q = limiter_run (\<lambda>_. 0) (\<lambda>b. (b + 1, 7)) (DefaultControllerRateLimiter 0) []"
    by (simp add: NewRateLimitingQueue_def limiter_run_def)
  have 3: "\<not> wq_ShuttingDown (dq_Interface (rl_queue ?q))"
    by (simp add: NewRateLimitingQueue_def newDelayingQueue_def wq_new_def wq_ShuttingDown_def)
  have 4: "AddRateLimited ?w ?q True = (fst (AddRateLimited ?w ?q True), snd (AddRateLimited ?w ?q True))"
    by simp
  have "snd (AddRateLimited ?w ?q True) = Some (True, default_backoff (\<lambda>b. (b + 1, 7)) (0::nat) [] True)"
    by (rule rlq_default_backoff [OF 1 2 3 4, THEN conjunct2, THEN conjunct1])
  then show ?thesis by (simp add: default_backoff_def retries_def)
qed

end
