(* ===== verification/Thread_Safe_Store.thy ===== *)
theory Thread_Safe_Store
  imports K8s_Prelude "HOL-Library.List_Lexorder" "HOL-Library.Char_ord"
begin

text \<open>
  The indexed object store behind every informer:
  \<open>staging/src/k8s.io/client-go/tools/cache/thread_safe_store.go\<close> (the store and its indices) and
  \<open>store.go\<close> (the same store addressed by objects through a key function).

  Each method holds the store's lock, so it is one step on the record \<open>threadSafeMap\<close>. An
  index function that fails makes the store panic (\<^term>\<open>None\<close>). The loops over the
  indexers, over the items and over key sets take the iteration order as an argument. Stored
  objects are not nil.

  The theory shows that the incrementally maintained indices always answer what a search
  through the stored objects would answer.
\<close>

section \<open>The store\<close>

type_synonym 'o IndexFunc = "'o \<Rightarrow> go_error + string list"
type_synonym Index = "string \<rightharpoonup> string set"

record 'o threadSafeMap =
  ts_items :: "string \<rightharpoonup> 'o"
  ts_indexers :: "string \<rightharpoonup> 'o IndexFunc"
  ts_indices :: "string \<rightharpoonup> Index"

definition NewThreadSafeStore :: "(string \<rightharpoonup> 'o IndexFunc) \<Rightarrow> (string \<rightharpoonup> Index) \<Rightarrow> 'o threadSafeMap" where
  "NewThreadSafeStore indexers indices =
     \<lparr>ts_items = Map.empty, ts_indexers = indexers, ts_indices = indices\<rparr>"

text \<open>The inner loops of \<open>updateIndices\<close> and \<open>deleteFromIndices\<close> over the indexed values.\<close>

fun index_insert :: "string \<Rightarrow> string list \<Rightarrow> Index \<Rightarrow> Index" where
  "index_insert key [] idx = idx"
| "index_insert key (v # vs) idx =
     index_insert key vs (case idx v of
         None \<Rightarrow> idx(v \<mapsto> {key})
       | Some s \<Rightarrow> idx(v \<mapsto> insert key s))"

fun index_delete :: "string \<Rightarrow> string list \<Rightarrow> Index \<Rightarrow> Index" where
  "index_delete key [] idx = idx"
| "index_delete key (v # vs) idx =
     index_delete key vs (case idx v of
         None \<Rightarrow> idx
       | Some s \<Rightarrow> (if s - {key} = {} then idx(v := None) else idx(v \<mapsto> s - {key})))"

fun deleteFromIndices :: "string list \<Rightarrow> 'o threadSafeMap \<Rightarrow> 'o \<Rightarrow> string \<Rightarrow> 'o threadSafeMap go" where
  "deleteFromIndices [] c obj key = Some c"
| "deleteFromIndices (name # ns) c obj key =
     (case ts_indexers c name of
        None \<Rightarrow> deleteFromIndices ns c obj key
      | Some indexFunc \<Rightarrow>
          (case indexFunc obj of
             Inl err \<Rightarrow> None
           | Inr indexValues \<Rightarrow>
               (case ts_indices c name of
                  None \<Rightarrow> deleteFromIndices ns c obj key
                | Some index \<Rightarrow>
                    deleteFromIndices ns
                      (c\<lparr>ts_indices := (ts_indices c)(name \<mapsto> index_delete key indexValues index)\<rparr>) obj key)))"

fun insertIntoIndices :: "string list \<Rightarrow> 'o threadSafeMap \<Rightarrow> 'o \<Rightarrow> string \<Rightarrow> 'o threadSafeMap go" where
  "insertIntoIndices [] c obj key = Some c"
| "insertIntoIndices (name # ns) c obj key =
     (case ts_indexers c name of
        None \<Rightarrow> insertIntoIndices ns c obj key
      | Some indexFunc \<Rightarrow>
          (case indexFunc obj of
             Inl err \<Rightarrow> None
           | Inr indexValues \<Rightarrow>
               (let index = (case ts_indices c name of None \<Rightarrow> Map.empty | Some i \<Rightarrow> i) in
                insertIntoIndices ns
                  (c\<lparr>ts_indices := (ts_indices c)(name \<mapsto> index_insert key indexValues index)\<rparr>) obj key)))"

text \<open>\<open>ns\<close> and \<open>ns'\<close> are the orders in which the two loops visit the indexers.\<close>

definition updateIndices ::
  "string list \<Rightarrow> string list \<Rightarrow> 'o threadSafeMap \<Rightarrow> 'o option \<Rightarrow> 'o \<Rightarrow> string \<Rightarrow> 'o threadSafeMap go" where
  "updateIndices ns ns' c oldObj newObj key =
     do {
       c1 \<leftarrow> (case oldObj of None \<Rightarrow> Some c | Some old \<Rightarrow> deleteFromIndices ns c old key);
       insertIntoIndices ns' c1 newObj key
     }"

definition ts_Add ::
  "string list \<Rightarrow> string list \<Rightarrow> 'o threadSafeMap \<Rightarrow> string \<Rightarrow> 'o \<Rightarrow> 'o threadSafeMap go" where
  "ts_Add ns ns' c key obj =
     (let oldObject = ts_items c key in
      updateIndices ns ns' (c\<lparr>ts_items := (ts_items c)(key \<mapsto> obj)\<rparr>) oldObject obj key)"

definition ts_Update ::
  "string list \<Rightarrow> string list \<Rightarrow> 'o threadSafeMap \<Rightarrow> string \<Rightarrow> 'o \<Rightarrow> 'o threadSafeMap go" where
  "ts_Update ns ns' c key obj =
     (let oldObject = ts_items c key in
      updateIndices ns ns' (c\<lparr>ts_items := (ts_items c)(key \<mapsto> obj)\<rparr>) oldObject obj key)"

definition ts_Delete :: "string list \<Rightarrow> 'o threadSafeMap \<Rightarrow> string \<Rightarrow> 'o threadSafeMap go" where
  "ts_Delete ns c key =
     (case ts_items c key of
        None \<Rightarrow> Some c
      | Some obj \<Rightarrow>
          do {
            c1 \<leftarrow> deleteFromIndices ns c obj key;
            Some (c1\<lparr>ts_items := (ts_items c1)(key := None)\<rparr>)
          })"

definition ts_Get :: "'o threadSafeMap \<Rightarrow> string \<Rightarrow> 'o option" where
  "ts_Get c key = ts_items c key"

definition ts_List :: "string list \<Rightarrow> 'o threadSafeMap \<Rightarrow> 'o list" where
  "ts_List ks c = List.map_filter (ts_items c) ks"

definition ts_ListKeys :: "string list \<Rightarrow> 'o threadSafeMap \<Rightarrow> string list" where
  "ts_ListKeys ks c = ks"

text \<open>\<open>Replace\<close>: \<open>ks\<close> orders the items, \<open>ord\<close> gives the indexer order for each of them.\<close>

fun rebuild :: "(string \<Rightarrow> string list) \<Rightarrow> string list \<Rightarrow> 'o threadSafeMap \<Rightarrow> 'o threadSafeMap go" where
  "rebuild ord [] c = Some c"
| "rebuild ord (key # ks) c =
     (case ts_items c key of
        None \<Rightarrow> rebuild ord ks c
      | Some item \<Rightarrow>
          do {
            c1 \<leftarrow> updateIndices [] (ord key) c None item key;
            rebuild ord ks c1
          })"

definition ts_Replace ::
  "(string \<Rightarrow> string list) \<Rightarrow> string list \<Rightarrow> 'o threadSafeMap \<Rightarrow> (string \<rightharpoonup> 'o) \<Rightarrow> 'o threadSafeMap go" where
  "ts_Replace ord ks c items = rebuild ord ks (c\<lparr>ts_items := items, ts_indices := Map.empty\<rparr>)"

text \<open>Reading a nil map or a nil set gives nothing.\<close>

definition index_set :: "'o threadSafeMap \<Rightarrow> string \<Rightarrow> string \<Rightarrow> string set" where
  "index_set c name v =
     (case ts_indices c name of
        None \<Rightarrow> {}
      | Some index \<Rightarrow> (case index v of None \<Rightarrow> {} | Some s \<Rightarrow> s))"

definition no_such_index :: "string \<Rightarrow> go_error" where
  "no_such_index name = Errorf (''Index with name '' @ name @ '' does not exist'')"

text \<open>The set of keys that \<open>Index\<close> collects; the case of one value needs no union.\<close>

definition index_key_set :: "'o threadSafeMap \<Rightarrow> string \<Rightarrow> string list \<Rightarrow> string set" where
  "index_key_set c name vs =
     (if length vs = 1 then index_set c name (hd vs)
      else fold (\<lambda>v acc. acc \<union> index_set c name v) vs {})"

text \<open>\<open>ord\<close> is the order in which the key set is listed.\<close>

definition ts_Index ::
  "(string set \<Rightarrow> string list) \<Rightarrow> 'o threadSafeMap \<Rightarrow> string \<Rightarrow> 'o \<Rightarrow> go_error + 'o option list" where
  "ts_Index ord c indexName obj =
     (case ts_indexers c indexName of
        None \<Rightarrow> Inl (no_such_index indexName)
      | Some indexFunc \<Rightarrow>
          (case indexFunc obj of
             Inl err \<Rightarrow> Inl err
           | Inr indexedValues \<Rightarrow>
               Inr (map (ts_items c) (ord (index_key_set c indexName indexedValues)))))"

definition ts_ByIndex ::
  "(string set \<Rightarrow> string list) \<Rightarrow> 'o threadSafeMap \<Rightarrow> string \<Rightarrow> string \<Rightarrow> go_error + 'o option list" where
  "ts_ByIndex ord c indexName indexedValue =
     (case ts_indexers c indexName of
        None \<Rightarrow> Inl (no_such_index indexName)
      | Some indexFunc \<Rightarrow> Inr (map (ts_items c) (ord (index_set c indexName indexedValue))))"

definition ts_IndexKeys :: "'o threadSafeMap \<Rightarrow> string \<Rightarrow> string \<Rightarrow> go_error + string list" where
  "ts_IndexKeys c indexName indexedValue =
     (case ts_indexers c indexName of
        None \<Rightarrow> Inl (no_such_index indexName)
      | Some indexFunc \<Rightarrow> Inr (sorted_list_of_set (index_set c indexName indexedValue)))"

definition ts_ListIndexFuncValues :: "(string set \<Rightarrow> string list) \<Rightarrow> 'o threadSafeMap \<Rightarrow> string \<Rightarrow> string list" where
  "ts_ListIndexFuncValues ord c indexName =
     (case ts_indices c indexName of None \<Rightarrow> [] | Some index \<Rightarrow> ord (dom index))"

definition ts_AddIndexers ::
  "'o threadSafeMap \<Rightarrow> (string \<rightharpoonup> 'o IndexFunc) \<Rightarrow> 'o threadSafeMap \<times> go_error option" where
  "ts_AddIndexers c newIndexers =
     (if ts_items c \<noteq> Map.empty then (c, Some (Errorf ''cannot add indexers to running index''))
      else if dom (ts_indexers c) \<inter> dom newIndexers \<noteq> {} then (c, Some (Errorf ''indexer conflict''))
      else (c\<lparr>ts_indexers := ts_indexers c ++ newIndexers\<rparr>, None))"

section \<open>The indices agree with the items\<close>

definition idx_at :: "Index \<Rightarrow> string \<Rightarrow> string set" where
  "idx_at idx v = (case idx v of None \<Rightarrow> {} | Some s \<Rightarrow> s)"

lemma index_set_alt:
  "index_set c name v = (case ts_indices c name of None \<Rightarrow> {} | Some idx \<Rightarrow> idx_at idx v)"
  by (simp add: index_set_def idx_at_def split: option.split)

lemma idx_at_insert:
  "idx_at (index_insert key vs idx) v = (if v \<in> set vs then insert key (idx_at idx v) else idx_at idx v)"
proof (induction vs arbitrary: idx)
  case (Cons w vs)
  have step: "idx_at (case idx w of None \<Rightarrow> idx(w \<mapsto> {key}) | Some s \<Rightarrow> idx(w \<mapsto> insert key s)) u =
      (if u = w then insert key (idx_at idx u) else idx_at idx u)" for u
    by (simp add: idx_at_def split: option.split)
  show ?case by (simp add: Cons.IH step)
qed simp

lemma idx_at_delete:
  "idx_at (index_delete key vs idx) v = (if v \<in> set vs then idx_at idx v - {key} else idx_at idx v)"
proof (induction vs arbitrary: idx)
  case (Cons w vs)
  have step: "idx_at (case idx w of None \<Rightarrow> idx
        | Some s \<Rightarrow> if s - {key} = {} then idx(w := None) else idx(w \<mapsto> s - {key})) u =
      (if u = w then idx_at idx u - {key} else idx_at idx u)" for u
    by (auto simp: idx_at_def split: option.split)
  show ?case by (simp add: Cons.IH step)
qed simp

definition no_empty :: "Index \<Rightarrow> bool" where
  "no_empty idx \<longleftrightarrow> (\<forall>v. idx v \<noteq> Some {})"

lemma no_empty_insert: "no_empty idx \<Longrightarrow> no_empty (index_insert key vs idx)"
  by (induction vs arbitrary: idx) (auto simp: no_empty_def split: option.split)

lemma no_empty_delete: "no_empty idx \<Longrightarrow> no_empty (index_delete key vs idx)"
  by (induction vs arbitrary: idx) (auto simp: no_empty_def split: option.split)

definition indexed :: "'o threadSafeMap \<Rightarrow> string \<Rightarrow> 'o \<Rightarrow> string \<Rightarrow> bool" where
  "indexed c name obj v \<longleftrightarrow> (\<exists>f vs. ts_indexers c name = Some f \<and> f obj = Inr vs \<and> v \<in> set vs)"

definition indexable :: "'o threadSafeMap \<Rightarrow> 'o \<Rightarrow> bool" where
  "indexable c obj \<longleftrightarrow> (\<forall>name f. ts_indexers c name = Some f \<longrightarrow> (\<exists>vs. f obj = Inr vs))"

definition clean :: "'o threadSafeMap \<Rightarrow> bool" where
  "clean c \<longleftrightarrow> (\<forall>name idx. ts_indices c name = Some idx \<longrightarrow> no_empty idx)"

definition ts_inv :: "'o threadSafeMap \<Rightarrow> bool" where
  "ts_inv c \<longleftrightarrow> finite (dom (ts_items c)) \<and> clean c \<and> (\<forall>key obj. ts_items c key = Some obj \<longrightarrow> indexable c obj) \<and>
     (\<forall>name v key. key \<in> index_set c name v \<longleftrightarrow> (\<exists>obj. ts_items c key = Some obj \<and> indexed c name obj v))"

text \<open>The effect of the two loops over the indexers.\<close>

lemma indexed_cong: "ts_indexers c' = ts_indexers c \<Longrightarrow> indexed c' = indexed c"
  by (simp add: indexed_def fun_eq_iff)

lemma indexable_cong: "ts_indexers c' = ts_indexers c \<Longrightarrow> indexable c' = indexable c"
  by (simp add: indexable_def fun_eq_iff)

lemma deleteFromIndices_ok:
  assumes "indexable c obj" "distinct ns" "clean c"
  shows "\<exists>c'. deleteFromIndices ns c obj key = Some c' \<and> ts_items c' = ts_items c \<and>
    ts_indexers c' = ts_indexers c \<and> clean c' \<and>
    (\<forall>name v. index_set c' name v =
       (if name \<in> set ns \<and> indexed c name obj v then index_set c name v - {key} else index_set c name v))"
  using assms
proof (induction ns arbitrary: c)
  case (Cons name ns)
  show ?case
  proof (cases "ts_indexers c name")
    case None
    moreover have "\<not> indexed c name obj v" for v using None by (simp add: indexed_def)
    ultimately show ?thesis using Cons.IH [of c] Cons.prems by fastforce
  next
    case (Some f)
    then obtain vs where vs: "f obj = Inr vs" using Cons.prems(1) by (auto simp: indexable_def)
    have ix: "indexed c name obj v \<longleftrightarrow> v \<in> set vs" for v using Some vs by (simp add: indexed_def)
    show ?thesis
    proof (cases "ts_indices c name")
      case None
      then have "index_set c name v = {}" for v by (simp add: index_set_def)
      moreover have "deleteFromIndices (name # ns) c obj key = deleteFromIndices ns c obj key"
        using Some vs None by simp
      ultimately show ?thesis using Cons.IH [of c] Cons.prems by fastforce
    next
      case (Some idx)
      let ?c = "c\<lparr>ts_indices := (ts_indices c)(name \<mapsto> index_delete key vs idx)\<rparr>"
      have at: "index_set ?c n v = (if n = name \<and> v \<in> set vs then index_set c n v - {key} else index_set c n v)" for n v
        using Some by (simp add: index_set_alt idx_at_delete)
      have "clean ?c" using Cons.prems(3) Some by (auto simp: clean_def intro: no_empty_delete)
      moreover have "indexable ?c obj" using Cons.prems(1) by (simp add: indexable_def)
      ultimately obtain c' where c': "deleteFromIndices ns ?c obj key = Some c'" "ts_items c' = ts_items c"
          "ts_indexers c' = ts_indexers c" "clean c'"
          "\<And>n v. index_set c' n v = (if n \<in> set ns \<and> indexed ?c n obj v then index_set ?c n v - {key} else index_set ?c n v)"
        using Cons.IH [of ?c] Cons.prems(2) by auto
      have "index_set c' n v = (if n \<in> set (name # ns) \<and> indexed c n obj v then index_set c n v - {key} else index_set c n v)" for n v
        using c'(5) [of n v] at [of n v] ix [of v] Cons.prems(2) indexed_cong [of ?c c] by auto
      moreover have "deleteFromIndices (name # ns) c obj key = Some c'"
        using \<open>ts_indexers c name = Some f\<close> vs Some c'(1) by simp
      ultimately show ?thesis using c'(2-4) by blast
    qed
  qed
qed simp

lemma insertIntoIndices_ok:
  assumes "indexable c obj" "distinct ns" "clean c"
  shows "\<exists>c'. insertIntoIndices ns c obj key = Some c' \<and> ts_items c' = ts_items c \<and>
    ts_indexers c' = ts_indexers c \<and> clean c' \<and>
    (\<forall>name v. index_set c' name v =
       (if name \<in> set ns \<and> indexed c name obj v then insert key (index_set c name v) else index_set c name v))"
  using assms
proof (induction ns arbitrary: c)
  case (Cons name ns)
  show ?case
  proof (cases "ts_indexers c name")
    case None
    moreover have "\<not> indexed c name obj v" for v using None by (simp add: indexed_def)
    ultimately show ?thesis using Cons.IH [of c] Cons.prems by fastforce
  next
    case (Some f)
    then obtain vs where vs: "f obj = Inr vs" using Cons.prems(1) by (auto simp: indexable_def)
    have ix: "indexed c name obj v \<longleftrightarrow> v \<in> set vs" for v using Some vs by (simp add: indexed_def)
    define idx where "idx = (case ts_indices c name of None \<Rightarrow> Map.empty | Some i \<Rightarrow> i)"
    let ?c = "c\<lparr>ts_indices := (ts_indices c)(name \<mapsto> index_insert key vs idx)\<rparr>"
    have "idx_at idx v = index_set c name v" for v
      by (simp add: idx_def index_set_alt idx_at_def split: option.split)
    then have at: "index_set ?c n v = (if n = name \<and> v \<in> set vs then insert key (index_set c n v) else index_set c n v)" for n v
      by (simp add: index_set_alt idx_at_insert)
    have "no_empty idx" using Cons.prems(3) by (auto simp: idx_def clean_def no_empty_def split: option.split)
    then have "clean ?c" using Cons.prems(3) by (auto simp: clean_def intro: no_empty_insert)
    moreover have "indexable ?c obj" using Cons.prems(1) by (simp add: indexable_def)
    ultimately obtain c' where c': "insertIntoIndices ns ?c obj key = Some c'" "ts_items c' = ts_items c"
        "ts_indexers c' = ts_indexers c" "clean c'"
        "\<And>n v. index_set c' n v = (if n \<in> set ns \<and> indexed ?c n obj v then insert key (index_set ?c n v) else index_set ?c n v)"
      using Cons.IH [of ?c] Cons.prems(2) by auto
    have "index_set c' n v = (if n \<in> set (name # ns) \<and> indexed c n obj v then insert key (index_set c n v) else index_set c n v)" for n v
      using c'(5) [of n v] at [of n v] ix [of v] Cons.prems(2) indexed_cong [of ?c c] by auto
    moreover have "insertIntoIndices (name # ns) c obj key = Some c'"
      using Some vs c'(1) by (simp add: idx_def)
    ultimately show ?thesis using c'(2-4) by blast
  qed
qed simp

text \<open>An index function that fails on the object stops the loop.\<close>

lemma insertIntoIndices_panic:
  assumes "name \<in> set ns" "ts_indexers c name = Some f" "f obj = Inl err"
  shows "insertIntoIndices ns c obj key = None"
  using assms
proof (induction ns arbitrary: c)
  case (Cons n ns)
  then show ?case by (auto simp: Let_def split: option.split sum.split)
qed simp

lemma insertIntoIndices_frame:
  "insertIntoIndices ns c obj key = Some c' \<Longrightarrow> ts_items c' = ts_items c \<and> ts_indexers c' = ts_indexers c"
proof (induction ns arbitrary: c)
  case (Cons name ns)
  show ?case
    using Cons.prems by (auto simp: Let_def dest!: Cons.IH split: option.splits sum.splits)
qed simp

lemma ts_invD:
  "ts_inv c \<Longrightarrow> key \<in> index_set c name v \<longleftrightarrow> (\<exists>obj. ts_items c key = Some obj \<and> indexed c name obj v)"
  by (simp add: ts_inv_def)

lemma indexed_indexers: "indexed c name obj v \<Longrightarrow> name \<in> dom (ts_indexers c)"
  by (auto simp: indexed_def)

lemma ts_Add_ok:
  assumes inv: "ts_inv c" and ok: "indexable c obj"
    and ns: "range_order ns (ts_indexers c)" "range_order ns' (ts_indexers c)"
  shows "\<exists>c'. ts_Add ns ns' c key obj = Some c' \<and> ts_inv c' \<and>
    ts_items c' = (ts_items c)(key \<mapsto> obj) \<and> ts_indexers c' = ts_indexers c"
proof -
  let ?c0 = "c\<lparr>ts_items := (ts_items c)(key \<mapsto> obj)\<rparr>"
  have ix0: "indexed ?c0 = indexed c" "indexable ?c0 = indexable c"
    by (rule indexed_cong, simp) (rule indexable_cong, simp)
  have set0: "index_set ?c0 = index_set c" by (simp add: index_set_def fun_eq_iff)
  have clean0: "clean ?c0" using inv by (simp add: ts_inv_def clean_def)
  have dist: "distinct ns" "distinct ns'" "set ns = dom (ts_indexers c)" "set ns' = dom (ts_indexers c)"
    using ns by (auto simp: range_order_def)
  have "\<exists>c1. (case ts_items c key of None \<Rightarrow> Some ?c0 | Some old \<Rightarrow> deleteFromIndices ns ?c0 old key) = Some c1 \<and>
      ts_items c1 = ts_items ?c0 \<and> ts_indexers c1 = ts_indexers c \<and> clean c1 \<and>
      (\<forall>name v. index_set c1 name v = index_set c name v - {key})"
  proof (cases "ts_items c key")
    case None
    then have "key \<notin> index_set c name v" for name v using ts_invD [OF inv] by simp
    then show ?thesis using None clean0 set0 by simp
  next
    case (Some old)
    have ok: "indexable ?c0 old" using inv Some by (auto simp: ts_inv_def ix0(2))
    have only: "key \<in> index_set c name v \<longleftrightarrow> indexed c name old v" for name v
      using ts_invD [OF inv] Some by simp
    obtain c1 where c1: "deleteFromIndices ns ?c0 old key = Some c1" "ts_items c1 = ts_items ?c0"
        "ts_indexers c1 = ts_indexers c" "clean c1"
        "\<And>name v. index_set c1 name v =
          (if name \<in> set ns \<and> indexed c name old v then index_set c name v - {key} else index_set c name v)"
      using deleteFromIndices_ok [OF ok dist(1) clean0, of key] ix0(1) set0 by auto
    have "index_set c1 name v = index_set c name v - {key}" for name v
      using c1(5) [of name v] only [of name v] dist(3) indexed_indexers [of c name old v] by auto
    then show ?thesis using Some c1(1-4) by simp
  qed
  then obtain c1 where c1: "(case ts_items c key of None \<Rightarrow> Some ?c0 | Some old \<Rightarrow> deleteFromIndices ns ?c0 old key) = Some c1"
      "ts_items c1 = (ts_items c)(key \<mapsto> obj)" "ts_indexers c1 = ts_indexers c" "clean c1"
      "\<And>name v. index_set c1 name v = index_set c name v - {key}" by auto
  have ok1: "indexable c1 obj" using ok indexable_cong [OF c1(3)] by simp
  obtain c' where c': "insertIntoIndices ns' c1 obj key = Some c'" "ts_items c' = ts_items c1"
      "ts_indexers c' = ts_indexers c" "clean c'"
      "\<And>name v. index_set c' name v =
        (if name \<in> set ns' \<and> indexed c name obj v then insert key (index_set c1 name v) else index_set c1 name v)"
    using insertIntoIndices_ok [OF ok1 dist(2) c1(4), of key] c1(3) indexed_cong [OF c1(3)] by auto
  have at: "index_set c' name v = (index_set c name v - {key}) \<union> (if indexed c name obj v then {key} else {})" for name v
    using c'(5) [of name v] c1(5) [of name v] dist(4) indexed_indexers [of c name obj v] by auto
  have "k \<in> index_set c' name v \<longleftrightarrow> (\<exists>x. ts_items c' k = Some x \<and> indexed c' name x v)" for k name v
    using ts_invD [OF inv, of k name v] by (cases "k = key") (auto simp: at c'(2) c1(2) indexed_cong [OF c'(3)])
  moreover have "\<forall>k x. ts_items c' k = Some x \<longrightarrow> indexable c' x"
    using inv ok c'(2) c1(2) indexable_cong [OF c'(3)] by (auto simp: ts_inv_def)
  moreover have "finite (dom (ts_items c'))" using inv c'(2) c1(2) by (simp add: ts_inv_def)
  ultimately have "ts_inv c'" using c'(4) by (simp add: ts_inv_def)
  moreover have "ts_Add ns ns' c key obj = Some c'"
    using c1(1) c'(1) by (simp add: ts_Add_def updateIndices_def)
  ultimately show ?thesis using c'(2,3) c1(2) by simp
qed

lemma ts_Add_panic:
  assumes inv: "ts_inv c" and bad: "ts_indexers c name = Some f" "f obj = Inl err"
    and ns: "range_order ns (ts_indexers c)" "range_order ns' (ts_indexers c)"
  shows "ts_Add ns ns' c key obj = None"
proof -
  let ?c0 = "c\<lparr>ts_items := (ts_items c)(key \<mapsto> obj)\<rparr>"
  have name: "name \<in> set ns'" using ns(2) bad(1) by (auto simp: range_order_def)
  show ?thesis
  proof (cases "ts_items c key")
    case None
    then show ?thesis
      using insertIntoIndices_panic [OF name, of ?c0 f obj err key] bad
      by (simp add: ts_Add_def updateIndices_def)
  next
    case (Some old)
    have "indexable ?c0 old" using inv Some by (auto simp: ts_inv_def indexable_def)
    moreover have "distinct ns" "clean ?c0" using ns inv by (auto simp: range_order_def ts_inv_def clean_def)
    ultimately obtain c1 where "deleteFromIndices ns ?c0 old key = Some c1" "ts_indexers c1 = ts_indexers c"
      using deleteFromIndices_ok [of ?c0 old ns key] by auto
    then show ?thesis
      using insertIntoIndices_panic [OF name, of c1 f obj err key] bad Some
      by (simp add: ts_Add_def updateIndices_def)
  qed
qed

lemma ts_Delete_ok:
  assumes inv: "ts_inv c" and ns: "range_order ns (ts_indexers c)"
  shows "\<exists>c'. ts_Delete ns c key = Some c' \<and> ts_inv c' \<and>
    ts_items c' = (ts_items c)(key := None) \<and> ts_indexers c' = ts_indexers c"
proof (cases "ts_items c key")
  case None
  then have "(ts_items c)(key := None) = ts_items c" by auto
  with None inv show ?thesis by (simp add: ts_Delete_def)
next
  case (Some old)
  have ok: "indexable c old" "clean c" using inv Some by (auto simp: ts_inv_def)
  have dist: "distinct ns" "set ns = dom (ts_indexers c)" using ns by (auto simp: range_order_def)
  obtain c1 where c1: "deleteFromIndices ns c old key = Some c1" "ts_items c1 = ts_items c"
      "ts_indexers c1 = ts_indexers c" "clean c1"
      "\<And>name v. index_set c1 name v =
        (if name \<in> set ns \<and> indexed c name old v then index_set c name v - {key} else index_set c name v)"
    using deleteFromIndices_ok [OF ok(1) dist(1) ok(2), of key] by auto
  let ?c' = "c1\<lparr>ts_items := (ts_items c1)(key := None)\<rparr>"
  have "index_set ?c' name v = index_set c1 name v" for name v by (simp add: index_set_def)
  then have at: "index_set ?c' name v = index_set c name v - {key}" for name v
    using c1(5) [of name v] ts_invD [OF inv, of key name v] Some dist(2) indexed_indexers [of c name old v]
    by auto
  have "k \<in> index_set ?c' name v \<longleftrightarrow> (\<exists>x. ts_items ?c' k = Some x \<and> indexed ?c' name x v)" for k name v
    using ts_invD [OF inv, of k name v] c1(2) indexed_cong [of ?c' c] c1(3) at [of name v]
    by (cases "k = key") auto
  moreover have "\<forall>k x. ts_items ?c' k = Some x \<longrightarrow> indexable ?c' x"
    using inv c1(2,3) indexable_cong [of ?c' c] by (auto simp: ts_inv_def)
  moreover have "finite (dom (ts_items ?c'))" "clean ?c'"
    using inv c1(2,4) by (auto simp: ts_inv_def clean_def)
  ultimately have "ts_inv ?c'" by (simp add: ts_inv_def)
  then show ?thesis using Some c1(1-3) by (simp add: ts_Delete_def)
qed

lemma rebuild_ok:
  assumes "\<forall>obj \<in> ran (ts_items c). indexable c obj" "\<forall>k. range_order (ord k) (ts_indexers c)" "clean c"
  shows "\<exists>c'. rebuild ord ks c = Some c' \<and> ts_items c' = ts_items c \<and> ts_indexers c' = ts_indexers c \<and>
    clean c' \<and> (\<forall>name v. index_set c' name v =
      index_set c name v \<union> {k \<in> set ks. \<exists>obj. ts_items c k = Some obj \<and> indexed c name obj v})"
  using assms
proof (induction ks arbitrary: c)
  case (Cons key ks)
  show ?case
  proof (cases "ts_items c key")
    case None
    then show ?thesis using Cons.IH [OF Cons.prems] by fastforce
  next
    case (Some item)
    have ord: "distinct (ord key)" "set (ord key) = dom (ts_indexers c)"
      using Cons.prems(2) by (simp_all add: range_order_def)
    have ok: "indexable c item" using Cons.prems(1) Some by (auto simp: ran_def)
    obtain c1 where c1: "insertIntoIndices (ord key) c item key = Some c1" "ts_items c1 = ts_items c"
        "ts_indexers c1 = ts_indexers c" "clean c1"
        "\<And>name v. index_set c1 name v =
          (if name \<in> set (ord key) \<and> indexed c name item v then insert key (index_set c name v) else index_set c name v)"
      using insertIntoIndices_ok [OF ok ord(1) Cons.prems(3), of key] by auto
    have ix: "indexed c1 = indexed c" "indexable c1 = indexable c"
      using indexed_cong [OF c1(3)] indexable_cong [OF c1(3)] .
    have pre: "\<forall>obj \<in> ran (ts_items c1). indexable c1 obj" "\<forall>k. range_order (ord k) (ts_indexers c1)"
      using Cons.prems(1,2) c1(2,3) ix(2) by simp_all
    obtain c' where c': "rebuild ord ks c1 = Some c'" "ts_items c' = ts_items c" "ts_indexers c' = ts_indexers c"
        "clean c'" "\<And>name v. index_set c' name v =
          index_set c1 name v \<union> {k \<in> set ks. \<exists>obj. ts_items c k = Some obj \<and> indexed c name obj v}"
      using Cons.IH [OF pre c1(4)] c1(2,3) ix(1) by auto
    have "index_set c' name v =
        index_set c name v \<union> {k \<in> set (key # ks). \<exists>obj. ts_items c k = Some obj \<and> indexed c name obj v}" for name v
      using c'(5) [of name v] c1(5) [of name v] Some ord(2) indexed_indexers [of c name item v] by auto
    then show ?thesis using Some c1(1) c'(1-4) by (simp add: updateIndices_def)
  qed
qed simp

lemma ts_Replace_ok:
  assumes "ts_inv c" "range_order ks items" "\<forall>k. range_order (ord k) (ts_indexers c)"
    and ok: "\<forall>obj \<in> ran items. indexable c obj"
  shows "\<exists>c'. ts_Replace ord ks c items = Some c' \<and> ts_inv c' \<and> ts_items c' = items \<and>
    ts_indexers c' = ts_indexers c"
proof -
  let ?c = "c\<lparr>ts_items := items, ts_indices := Map.empty\<rparr>"
  have ix: "indexable ?c = indexable c" by (rule indexable_cong) simp
  have pre: "\<forall>obj \<in> ran (ts_items ?c). indexable ?c obj" "\<forall>k. range_order (ord k) (ts_indexers ?c)" "clean ?c"
    using ok assms(3) by (simp_all add: ix clean_def)
  obtain c' where c': "rebuild ord ks ?c = Some c'" "ts_items c' = items" "ts_indexers c' = ts_indexers c"
      "clean c'" "\<And>name v. index_set c' name v =
        index_set ?c name v \<union> {k \<in> set ks. \<exists>obj. items k = Some obj \<and> indexed ?c name obj v}"
    using rebuild_ok [OF pre, of ks] by auto
  have "index_set ?c name v = {}" for name v by (simp add: index_set_def)
  moreover have "indexed c' = indexed ?c" "indexable c' = indexable c"
    by (rule indexed_cong, simp add: c'(3)) (rule indexable_cong, simp add: c'(3))
  moreover have ks: "set ks = dom items" "finite (dom items)"
    using assms(2) by (auto simp: range_order_def intro: range_order_finite)
  ultimately have "ts_inv c'"
    using c'(2,4,5) ok by (auto simp: ts_inv_def ran_def)
  then show ?thesis using c'(1-3) by (simp add: ts_Replace_def)
qed

lemma rebuild_panic:
  assumes "\<forall>k. range_order (ord k) (ts_indexers c)" "k \<in> set ks" "ts_items c k = Some obj"
    and "ts_indexers c name = Some f" "f obj = Inl err"
  shows "rebuild ord ks c = None"
  using assms
proof (induction ks arbitrary: c)
  case (Cons key ks)
  show ?case
  proof (cases "ts_items c key")
    case None
    then show ?thesis using Cons by auto
  next
    case (Some item)
    show ?thesis
    proof (cases "insertIntoIndices (ord key) c item key")
      case None
      then show ?thesis using Some by (simp add: updateIndices_def)
    next
      case (Some c1)
      have "name \<in> set (ord key)" using Cons.prems(1,4) by (auto simp: range_order_def)
      then have "key \<noteq> k"
        using insertIntoIndices_panic [of name "ord key" c f obj err key] Cons.prems Some \<open>ts_items c key = _\<close> by auto
      moreover have "ts_items c1 = ts_items c \<and> ts_indexers c1 = ts_indexers c"
        using Some by (rule insertIntoIndices_frame)
      ultimately show ?thesis
        using Cons.IH [of c1] Cons.prems Some \<open>ts_items c key = _\<close> by (simp add: updateIndices_def)
    qed
  qed
qed simp

section \<open>Reachable stores\<close>

inductive ts_reach :: "'o threadSafeMap \<Rightarrow> bool" where
  reach_new: "ts_reach (NewThreadSafeStore indexers Map.empty)"
| reach_add: "ts_reach c \<Longrightarrow> range_order ns (ts_indexers c) \<Longrightarrow> range_order ns' (ts_indexers c) \<Longrightarrow>
     ts_Add ns ns' c key obj = Some c' \<Longrightarrow> ts_reach c'"
| reach_update: "ts_reach c \<Longrightarrow> range_order ns (ts_indexers c) \<Longrightarrow> range_order ns' (ts_indexers c) \<Longrightarrow>
     ts_Update ns ns' c key obj = Some c' \<Longrightarrow> ts_reach c'"
| reach_delete: "ts_reach c \<Longrightarrow> range_order ns (ts_indexers c) \<Longrightarrow> ts_Delete ns c key = Some c' \<Longrightarrow> ts_reach c'"
| reach_replace: "ts_reach c \<Longrightarrow> range_order ks items \<Longrightarrow> (\<And>k. range_order (ord k) (ts_indexers c)) \<Longrightarrow>
     ts_Replace ord ks c items = Some c' \<Longrightarrow> ts_reach c'"
| reach_indexers: "ts_reach c \<Longrightarrow> ts_AddIndexers c newIndexers = (c', err) \<Longrightarrow> ts_reach c'"

lemma not_indexable: "\<not> indexable c obj \<Longrightarrow> \<exists>name f err. ts_indexers c name = Some f \<and> f obj = Inl err"
  unfolding indexable_def by (metis sum.exhaust)

lemma ts_Update_eq: "ts_Update = ts_Add"
  by (intro ext) (simp add: ts_Update_def ts_Add_def)

lemma ts_reach_inv: "ts_reach c \<Longrightarrow> ts_inv c"
proof (induction rule: ts_reach.induct)
  case (reach_new indexers)
  then show ?case by (simp add: ts_inv_def NewThreadSafeStore_def clean_def index_set_def)
next
  case (reach_add c ns ns' key obj c')
  have "indexable c obj"
    using not_indexable ts_Add_panic [OF reach_add.IH _ _ reach_add.hyps(2,3)] reach_add.hyps(4)
    by (metis option.distinct(1))
  then show ?case
    using ts_Add_ok [OF reach_add.IH _ reach_add.hyps(2,3), of obj key] reach_add.hyps(4) by auto
next
  case (reach_update c ns ns' key obj c')
  have "indexable c obj"
    using not_indexable ts_Add_panic [OF reach_update.IH _ _ reach_update.hyps(2,3)] reach_update.hyps(4)
    by (metis option.distinct(1) ts_Update_eq)
  then show ?case
    using ts_Add_ok [OF reach_update.IH _ reach_update.hyps(2,3), of obj key] reach_update.hyps(4)
    by (auto simp: ts_Update_eq)
next
  case (reach_delete c ns key c')
  then show ?case using ts_Delete_ok [OF reach_delete.IH reach_delete.hyps(2), of key] by auto
next
  case (reach_replace c ks items ord c')
  have ord: "\<forall>k. range_order (ord k) (ts_indexers c)"
  proof
    fix k show "range_order (ord k) (ts_indexers c)" by (rule reach_replace.hyps(3))
  qed
  have "indexable c obj" if "items k = Some obj" for k obj
  proof (rule ccontr)
    assume "\<not> indexable c obj"
    from not_indexable [OF this] obtain name f err
      where bad: "ts_indexers c name = Some f" "f obj = Inl err" by (elim exE conjE)
    let ?c = "c\<lparr>ts_items := items, ts_indices := Map.empty\<rparr>"
    have "k \<in> set ks" using reach_replace.hyps(2) that by (auto simp: range_order_def)
    then show False
      using rebuild_panic [of ord ?c k ks obj name f err] ord that bad reach_replace.hyps(4)
      by (simp add: ts_Replace_def)
  qed
  then have "\<forall>obj \<in> ran items. indexable c obj" by (auto simp: ran_def)
  then show ?case
    using ts_Replace_ok [OF reach_replace.IH reach_replace.hyps(2) ord] reach_replace.hyps(4) by auto
next
  case (reach_indexers c newIndexers c' err)
  show ?case
  proof (cases "c' = c")
    case False
    then have c': "ts_items c = Map.empty" "c' = c\<lparr>ts_indexers := ts_indexers c ++ newIndexers\<rparr>"
      using reach_indexers.hyps(2) by (auto simp: ts_AddIndexers_def split: if_splits)
    moreover have "index_set c' name v = index_set c name v" for name v by (simp add: c'(2) index_set_def)
    ultimately show ?thesis using reach_indexers.IH by (auto simp: ts_inv_def clean_def)
  qed (use reach_indexers.IH in simp)
qed

lemma index_set_reach:
  assumes "ts_reach c" "ts_indexers c name = Some f"
  shows "index_set c name v = {k. \<exists>obj vs. ts_items c k = Some obj \<and> f obj = Inr vs \<and> v \<in> set vs}"
    "finite (index_set c name v)"
proof -
  note inv = ts_reach_inv [OF assms(1)]
  show eq: "index_set c name v = {k. \<exists>obj vs. ts_items c k = Some obj \<and> f obj = Inr vs \<and> v \<in> set vs}"
    using ts_invD [OF inv, of _ name v] assms(2) by (auto simp: indexed_def)
  have "index_set c name v \<subseteq> dom (ts_items c)" using eq by auto
  then show "finite (index_set c name v)" using inv by (auto simp: ts_inv_def intro: finite_subset)
qed

lemma index_key_set_union: "index_key_set c name vs = (\<Union>v \<in> set vs. index_set c name v)"
proof -
  have "fold (\<lambda>v acc. acc \<union> index_set c name v) vs acc = acc \<union> (\<Union>v \<in> set vs. index_set c name v)" for acc
    by (induction vs arbitrary: acc) auto
  moreover have "index_set c name (hd vs) = (\<Union>v \<in> set vs. index_set c name v)" if "length vs = 1"
    using that by (cases vs) auto
  ultimately show ?thesis by (simp add: index_key_set_def)
qed

section \<open>The store addressed by objects\<close>

record 'o cache =
  c_cacheStorage :: "'o threadSafeMap"
  c_keyFunc :: "'o \<Rightarrow> go_error + string"

definition NewIndexer :: "('o \<Rightarrow> go_error + string) \<Rightarrow> (string \<rightharpoonup> 'o IndexFunc) \<Rightarrow> 'o cache" where
  "NewIndexer keyFunc indexers =
     \<lparr>c_cacheStorage = NewThreadSafeStore indexers Map.empty, c_keyFunc = keyFunc\<rparr>"

definition NewStore :: "('o \<Rightarrow> go_error + string) \<Rightarrow> 'o cache" where
  "NewStore keyFunc =
     \<lparr>c_cacheStorage = NewThreadSafeStore Map.empty Map.empty, c_keyFunc = keyFunc\<rparr>"

definition cache_Add ::
  "string list \<Rightarrow> string list \<Rightarrow> 'o cache \<Rightarrow> 'o \<Rightarrow> ('o cache \<times> go_error option) go" where
  "cache_Add ns ns' c obj =
     (case c_keyFunc c obj of
        Inl err \<Rightarrow> Some (c, Some (KeyError err))
      | Inr key \<Rightarrow> do { t \<leftarrow> ts_Add ns ns' (c_cacheStorage c) key obj; Some (c\<lparr>c_cacheStorage := t\<rparr>, None) })"

definition cache_Update ::
  "string list \<Rightarrow> string list \<Rightarrow> 'o cache \<Rightarrow> 'o \<Rightarrow> ('o cache \<times> go_error option) go" where
  "cache_Update ns ns' c obj =
     (case c_keyFunc c obj of
        Inl err \<Rightarrow> Some (c, Some (KeyError err))
      | Inr key \<Rightarrow> do { t \<leftarrow> ts_Update ns ns' (c_cacheStorage c) key obj; Some (c\<lparr>c_cacheStorage := t\<rparr>, None) })"

definition cache_Delete :: "string list \<Rightarrow> 'o cache \<Rightarrow> 'o \<Rightarrow> ('o cache \<times> go_error option) go" where
  "cache_Delete ns c obj =
     (case c_keyFunc c obj of
        Inl err \<Rightarrow> Some (c, Some (KeyError err))
      | Inr key \<Rightarrow> do { t \<leftarrow> ts_Delete ns (c_cacheStorage c) key; Some (c\<lparr>c_cacheStorage := t\<rparr>, None) })"

definition cache_GetByKey :: "'o cache \<Rightarrow> string \<Rightarrow> go_error + 'o option" where
  "cache_GetByKey c key = Inr (ts_Get (c_cacheStorage c) key)"

definition cache_Get :: "'o cache \<Rightarrow> 'o \<Rightarrow> go_error + 'o option" where
  "cache_Get c obj =
     (case c_keyFunc c obj of Inl err \<Rightarrow> Inl (KeyError err) | Inr key \<Rightarrow> cache_GetByKey c key)"

text \<open>The loop of \<open>Replace\<close> that builds the new item map.\<close>

fun replace_items :: "('o \<Rightarrow> go_error + string) \<Rightarrow> 'o list \<Rightarrow> (string \<rightharpoonup> 'o) \<Rightarrow> go_error + (string \<rightharpoonup> 'o)" where
  "replace_items keyFunc [] items = Inr items"
| "replace_items keyFunc (item # list) items =
     (case keyFunc item of
        Inl err \<Rightarrow> Inl (KeyError err)
      | Inr key \<Rightarrow> replace_items keyFunc list (items(key \<mapsto> item)))"

text \<open>\<open>kord\<close> orders the keys of the new item map.\<close>

definition cache_Replace ::
  "(string \<Rightarrow> string list) \<Rightarrow> (string set \<Rightarrow> string list) \<Rightarrow> 'o cache \<Rightarrow> 'o list
   \<Rightarrow> ('o cache \<times> go_error option) go" where
  "cache_Replace ord kord c list =
     (case replace_items (c_keyFunc c) list Map.empty of
        Inl err \<Rightarrow> Some (c, Some err)
      | Inr items \<Rightarrow>
          do {
            t \<leftarrow> ts_Replace ord (kord (dom items)) (c_cacheStorage c) items;
            Some (c\<lparr>c_cacheStorage := t\<rparr>, None)
          })"

text \<open>Keys of API objects. \<open>accessor\<close> is \<open>meta.Accessor\<close> followed by \<open>GetNamespace\<close> and
  \<open>GetName\<close>.\<close>

datatype 'o key_object = ExplicitKey string | ApiObject 'o

definition MetaNamespaceKeyFunc ::
  "('o \<Rightarrow> go_error + string \<times> string) \<Rightarrow> 'o key_object \<Rightarrow> go_error + string" where
  "MetaNamespaceKeyFunc accessor obj =
     (case obj of
        ExplicitKey key \<Rightarrow> Inr key
      | ApiObject x \<Rightarrow>
          (case accessor x of
             Inl err \<Rightarrow> Inl (Errorf ''object has no meta'')
           | Inr (namespace, name) \<Rightarrow>
               Inr (if length namespace > 0 then namespace @ ''/'' @ name else name)))"

definition SplitMetaNamespaceKey :: "string \<Rightarrow> go_error + string \<times> string" where
  "SplitMetaNamespaceKey key =
     (case split_on CHR ''/'' key of
        [name] \<Rightarrow> Inr ([], name)
      | [namespace, name] \<Rightarrow> Inr (namespace, name)
      | _ \<Rightarrow> Inl (Errorf ''unexpected key format''))"

section \<open>Properties\<close>

definition demo_indexers :: "string \<rightharpoonup> string IndexFunc" where
  "demo_indexers = [''first'' \<mapsto> (\<lambda>obj. Inr [take 1 obj])]"

definition demo_store :: "string threadSafeMap" where
  "demo_store =
     \<lparr>ts_items = [''k'' \<mapsto> ''apple''], ts_indexers = demo_indexers,
      ts_indices = [''first'' \<mapsto> [''a'' \<mapsto> {''k''}]]\<rparr>"

lemma demo_store_order: "range_order [''first''] demo_indexers"
  by (simp add: range_order_def demo_indexers_def)

lemma demo_store_add:
  "ts_Add [''first''] [''first''] (NewThreadSafeStore demo_indexers Map.empty) ''k'' ''apple'' = Some demo_store"
  by (simp add: ts_Add_def updateIndices_def NewThreadSafeStore_def demo_store_def demo_indexers_def)

lemma demo_store_reach: "ts_reach demo_store"
proof -
  have "ts_indexers (NewThreadSafeStore demo_indexers Map.empty) = demo_indexers"
    by (simp add: NewThreadSafeStore_def)
  then show ?thesis
    using ts_reach.reach_add [OF ts_reach.reach_new _ _ demo_store_add] demo_store_order by simp
qed

lemma demo_list_set: "finite S \<Longrightarrow> distinct (sorted_list_of_set S) \<and> set (sorted_list_of_set S) = (S :: string set)"
  by simp

text \<open>C7: in every reachable store, looking up an indexed value answers exactly what a search
  through the stored objects would: IndexKeys returns the sorted keys of the objects whose
  indexed values include the value, and ByIndex returns those objects, each once.\<close>

theorem ts_by_index_sound:
  assumes "ts_reach c" "ts_indexers c name = Some f"
    and "\<And>S. finite S \<Longrightarrow> distinct (ord S) \<and> set (ord S) = S"
  shows "ts_IndexKeys c name v =
      Inr (sorted_list_of_set {k. \<exists>obj vs. ts_items c k = Some obj \<and> f obj = Inr vs \<and> v \<in> set vs}) \<and>
    (\<exists>ks. distinct ks \<and> set ks = {k. \<exists>obj vs. ts_items c k = Some obj \<and> f obj = Inr vs \<and> v \<in> set vs} \<and>
       ts_ByIndex ord c name v = Inr (map (ts_items c) ks))"
  using index_set_reach [OF assms(1,2), of v] assms(2) assms(3) [of "index_set c name v"]
  by (auto simp: ts_IndexKeys_def ts_ByIndex_def)

theorem ts_by_index_sound_witness:
  "ts_reach demo_store \<and> ts_IndexKeys demo_store ''first'' ''a'' =
     Inr (sorted_list_of_set {k. \<exists>obj vs. ts_items demo_store k = Some obj \<and>
        Inr [take 1 obj] = (Inr vs :: go_error + string list) \<and> ''a'' \<in> set vs})"
proof -
  have f: "ts_indexers demo_store ''first'' = Some (\<lambda>obj. Inr [take 1 obj])"
    by (simp add: demo_store_def demo_indexers_def)
  from ts_by_index_sound [OF demo_store_reach f, of sorted_list_of_set "''a''"] demo_list_set demo_store_reach
  show ?thesis by blast
qed

text \<open>Index, with its shortcut for a single indexed value, returns exactly the stored objects
  that share an indexed value with the given object, each once, and reports an unknown index or
  a failing index function as an error.\<close>

theorem ts_index_intersects:
  assumes "ts_reach c" "\<And>S. finite S \<Longrightarrow> distinct (ord S) \<and> set (ord S) = S"
  shows "case ts_indexers c name of
      None \<Rightarrow> ts_Index ord c name obj = Inl (no_such_index name)
    | Some f \<Rightarrow>
        (case f obj of
           Inl err \<Rightarrow> ts_Index ord c name obj = Inl err
         | Inr vs \<Rightarrow>
             (\<exists>ks. distinct ks \<and>
                set ks = {k. \<exists>x ws. ts_items c k = Some x \<and> f x = Inr ws \<and> set ws \<inter> set vs \<noteq> {}} \<and>
                ts_Index ord c name obj = Inr (map (ts_items c) ks)))"
proof (cases "ts_indexers c name")
  case (Some f)
  show ?thesis
  proof (cases "f obj")
    case (Inr vs)
    let ?K = "index_key_set c name vs"
    have "finite ?K" using index_set_reach(2) [OF assms(1) Some] by (simp add: index_key_set_union)
    moreover have "?K = {k. \<exists>x ws. ts_items c k = Some x \<and> f x = Inr ws \<and> set ws \<inter> set vs \<noteq> {}}"
      using index_set_reach(1) [OF assms(1) Some] by (auto simp: index_key_set_union)
    ultimately show ?thesis using assms(2) [of ?K] Some Inr by (auto simp: ts_Index_def)
  qed (simp add: Some ts_Index_def)
qed (simp add: ts_Index_def)

theorem ts_index_intersects_witness:
  "\<exists>ks. distinct ks \<and>
     set ks = {k. \<exists>x ws. ts_items demo_store k = Some x \<and>
        Inr [take 1 x] = (Inr ws :: go_error + string list) \<and> set ws \<inter> set [''a''] \<noteq> {}} \<and>
     ts_Index sorted_list_of_set demo_store ''first'' ''avocado'' = Inr (map (ts_items demo_store) ks)"
  using ts_index_intersects [OF demo_store_reach, of sorted_list_of_set "''first''" "''avocado''"] demo_list_set
  by (simp add: demo_store_def demo_indexers_def)

text \<open>C21: the store implements a map from keys to objects: Add and Update store the object and
  panic exactly when one of the index functions fails on it; Delete removes the key and never
  panics. The order in which the indexers are visited does not matter.\<close>

theorem ts_store_refines_map:
  assumes "ts_reach c" "range_order ns (ts_indexers c)" "range_order ns' (ts_indexers c)"
  shows "(if \<exists>name f err. ts_indexers c name = Some f \<and> f obj = Inl err
      then ts_Add ns ns' c key obj = None \<and> ts_Update ns ns' c key obj = None
      else \<exists>c'. ts_Add ns ns' c key obj = Some c' \<and> ts_Update ns ns' c key obj = Some c' \<and>
             ts_items c' = (ts_items c)(key \<mapsto> obj) \<and> ts_indexers c' = ts_indexers c) \<and>
    (\<exists>c'. ts_Delete ns c key = Some c' \<and> ts_items c' = (ts_items c)(key := None) \<and>
       ts_indexers c' = ts_indexers c)"
proof -
  note inv = ts_reach_inv [OF assms(1)]
  have del: "\<exists>c'. ts_Delete ns c key = Some c' \<and> ts_items c' = (ts_items c)(key := None) \<and>
      ts_indexers c' = ts_indexers c"
    using ts_Delete_ok [OF inv assms(2), of key] by blast
  show ?thesis
  proof (cases "indexable c obj")
    case True
    then have "\<not> (\<exists>name f err. ts_indexers c name = Some f \<and> f obj = Inl err)"
      by (force simp: indexable_def)
    with ts_Add_ok [OF inv True assms(2,3), of key] del show ?thesis by (auto simp: ts_Update_eq)
  next
    case False
    from not_indexable [OF this] obtain name f err where "ts_indexers c name = Some f" "f obj = Inl err"
      by (elim exE conjE)
    with ts_Add_panic [OF inv this assms(2,3), of key] del show ?thesis by (auto simp: ts_Update_eq)
  qed
qed

theorem ts_store_refines_map_witness:
  "range_order [''first''] (ts_indexers demo_store) \<and>
   (\<exists>c'. ts_Delete [''first''] demo_store ''k'' = Some c' \<and>
      ts_items c' = (ts_items demo_store)(''k'' := None) \<and> ts_indexers c' = ts_indexers demo_store)"
proof -
  have "range_order [''first''] (ts_indexers demo_store)" using demo_store_order by (simp add: demo_store_def)
  with ts_store_refines_map [OF demo_store_reach this this] show ?thesis by blast
qed

text \<open>an index holds no empty sets: the values it lists are exactly those that some stored
  object has, so removing objects removes their values.\<close>

theorem ts_index_values_exact:
  assumes "ts_reach c" "ts_indexers c name = Some f" "ts_indices c name = Some index"
  shows "dom index = {v. \<exists>k obj vs. ts_items c k = Some obj \<and> f obj = Inr vs \<and> v \<in> set vs}"
proof -
  note inv = ts_reach_inv [OF assms(1)]
  have "v \<in> dom index \<longleftrightarrow> index_set c name v \<noteq> {}" for v
    using inv assms(3) by (auto simp: ts_inv_def clean_def no_empty_def index_set_def split: option.split)
  then show ?thesis using index_set_reach(1) [OF assms(1,2)] by (intro set_eqI) simp
qed

theorem ts_index_values_exact_witness:
  "dom [''a'' \<mapsto> {''k'' :: string}] =
     {v. \<exists>k obj vs. ts_items demo_store k = Some obj \<and> Inr [take 1 obj] = (Inr vs :: go_error + string list) \<and> v \<in> set vs}"
  using ts_index_values_exact [OF demo_store_reach, of "''first''" "\<lambda>obj. Inr [take 1 obj]" "[''a'' \<mapsto> {''k''}]"]
  by (simp add: demo_store_def demo_indexers_def)

text \<open>Splitting the key of an API object gives back its namespace and name, provided neither
  contains a slash; a key with two slashes is rejected.\<close>

theorem key_round_trip:
  assumes "accessor x = Inr (namespace, name)" "CHR ''/'' \<notin> set namespace" "CHR ''/'' \<notin> set name"
  shows "\<exists>key. MetaNamespaceKeyFunc accessor (ApiObject x) = Inr key \<and>
      SplitMetaNamespaceKey key = Inr (namespace, name) \<and>
      SplitMetaNamespaceKey (namespace @ ''/'' @ name @ ''/'' @ rest) = Inl (Errorf ''unexpected key format'')"
proof -
  have "SplitMetaNamespaceKey (namespace @ ''/'' @ name @ ''/'' @ rest) = Inl (Errorf ''unexpected key format'')"
    using assms(2,3) by (cases "split_on CHR ''/'' rest") (simp_all add: SplitMetaNamespaceKey_def split_on_cons)
  then show ?thesis
    using assms by (auto simp: MetaNamespaceKeyFunc_def SplitMetaNamespaceKey_def split_on_plain split_on_cons)
qed

theorem key_round_trip_witness:
  "\<exists>key. MetaNamespaceKeyFunc (\<lambda>x::unit. Inr (''kube-system'', ''dns'')) (ApiObject ()) = Inr key \<and>
     SplitMetaNamespaceKey key = Inr (''kube-system'', ''dns'')"
  using key_round_trip [of "\<lambda>x::unit. Inr (''kube-system'', ''dns'')" "()" "''kube-system''" "''dns''"] by auto

end
