(* ===== verification/Delta_FIFO.thy ===== *)
theory Delta_FIFO
  imports Thread_Safe_Store
begin

text \<open>
  The informers' queue of changes,
  \<open>staging/src/k8s.io/client-go/tools/cache/delta_fifo.go\<close>: a FIFO of keys, each with the list
  of changes of its object that have not been consumed yet.

  Every method runs under the queue's lock and is one step on the record \<open>DeltaFIFO\<close>;
  \<open>Pop\<close>, which waits while the queue is empty and open, is a step that is not enabled then.
  The store \<open>knownObjects\<close> is changed by the consumer between the calls; a method that reads
  it takes its present contents as an argument (\<^term>\<open>None\<close> when the field is nil).
\<close>

section \<open>Deltas\<close>

datatype DeltaType = Added | Updated | Deleted | Replaced | Sync

text \<open>What the queue may be given as an object: an object, the marker
  \<open>DeletedFinalStateUnknown\<close> with its key and, if known, the last object, or a list of deltas.\<close>

datatype 'o obj =
    Plain 'o
  | DeletedFinalStateUnknown string "'o obj option"
  | DeltasObj "(DeltaType \<times> 'o obj) list"

type_synonym 'o Delta = "DeltaType \<times> 'o obj"
type_synonym 'o Deltas = "'o Delta list"

definition Newest :: "'o Deltas \<Rightarrow> 'o Delta option" where
  "Newest d = (if length d > 0 then Some (d ! (length d - 1)) else None)"

fun is_unknown :: "'o obj \<Rightarrow> bool" where
  "is_unknown (DeletedFinalStateUnknown k x) = True"
| "is_unknown _ = False"

definition isDeletionDup :: "'o Delta \<Rightarrow> 'o Delta \<Rightarrow> 'o Delta option" where
  "isDeletionDup a b =
     (if fst b \<noteq> Deleted \<or> fst a \<noteq> Deleted then None
      else if is_unknown (snd b) then Some a
      else Some b)"

definition isDup :: "'o Delta \<Rightarrow> 'o Delta \<Rightarrow> 'o Delta option" where
  "isDup a b = (case isDeletionDup a b of Some out \<Rightarrow> Some out | None \<Rightarrow> None)"

definition dedupDeltas :: "'o Deltas \<Rightarrow> 'o Deltas" where
  "dedupDeltas deltas =
     (let n = length deltas in
      if n < 2 then deltas
      else
        let a = deltas ! (n - 1); b = deltas ! (n - 2) in
        (case isDup a b of
           Some out \<Rightarrow> take (n - 2) deltas @ [out]
         | None \<Rightarrow> deltas))"

section \<open>The queue\<close>

record 'o DeltaFIFO =
  df_items :: "string \<rightharpoonup> 'o Deltas"
  df_queue :: "string list"
  df_populated :: bool
  df_initialPopulationCount :: nat
  df_keyFunc :: "'o obj \<Rightarrow> go_error + string"
  df_closed :: bool
  df_emitDeltaTypeReplaced :: bool

text \<open>\<open>knownObjects\<close>: what \<open>ListKeys\<close> lists and \<open>GetByKey\<close> finds.\<close>

record 'o known =
  kn_ListKeys :: "string list"
  kn_GetByKey :: "string \<Rightarrow> go_error + 'o obj option"

definition NewDeltaFIFOWithOptions :: "('o obj \<Rightarrow> go_error + string) \<Rightarrow> bool \<Rightarrow> 'o DeltaFIFO" where
  "NewDeltaFIFOWithOptions keyFunc emit =
     \<lparr>df_items = Map.empty, df_queue = [], df_populated = False, df_initialPopulationCount = 0,
      df_keyFunc = keyFunc, df_closed = False, df_emitDeltaTypeReplaced = emit\<rparr>"

definition df_Close :: "'o DeltaFIFO \<Rightarrow> 'o DeltaFIFO" where
  "df_Close f = f\<lparr>df_closed := True\<rparr>"

definition KeyOf :: "'o DeltaFIFO \<Rightarrow> 'o obj \<Rightarrow> go_error + string" where
  "KeyOf f obj =
     (let inner = (case obj of
                     DeltasObj d \<Rightarrow>
                       (case Newest d of
                          None \<Rightarrow> Inl (KeyError ErrZeroLengthDeltasObject)
                        | Some x \<Rightarrow> Inr (snd x))
                   | _ \<Rightarrow> Inr obj) in
      case inner of
        Inl err \<Rightarrow> Inl err
      | Inr x \<Rightarrow>
          (case x of
             DeletedFinalStateUnknown k _ \<Rightarrow> Inr k
           | _ \<Rightarrow> df_keyFunc f x))"

definition df_HasSynced :: "'o DeltaFIFO \<Rightarrow> bool" where
  "df_HasSynced f \<longleftrightarrow> df_populated f \<and> df_initialPopulationCount f = 0"

definition queueActionLocked ::
  "'o DeltaFIFO \<Rightarrow> DeltaType \<Rightarrow> 'o obj \<Rightarrow> 'o DeltaFIFO \<times> go_error option" where
  "queueActionLocked f actionType obj =
     (case KeyOf f obj of
        Inl err \<Rightarrow> (f, Some (KeyError err))
      | Inr key \<Rightarrow>
          (let oldDeltas = (case df_items f key of None \<Rightarrow> [] | Some d \<Rightarrow> d);
               newDeltas = dedupDeltas (oldDeltas @ [(actionType, obj)]) in
           if length newDeltas > 0 then
             (f\<lparr>df_queue := (if df_items f key = None then df_queue f @ [key] else df_queue f),
                df_items := (df_items f)(key \<mapsto> newDeltas)\<rparr>, None)
           else if df_items f key = None then (f, None)
           else (f\<lparr>df_items := (df_items f)(key \<mapsto> newDeltas)\<rparr>, Some (Errorf ''Impossible dedupDeltas''))))"

definition df_Add :: "'o DeltaFIFO \<Rightarrow> 'o obj \<Rightarrow> 'o DeltaFIFO \<times> go_error option" where
  "df_Add f obj = queueActionLocked (f\<lparr>df_populated := True\<rparr>) Added obj"

definition df_Update :: "'o DeltaFIFO \<Rightarrow> 'o obj \<Rightarrow> 'o DeltaFIFO \<times> go_error option" where
  "df_Update f obj = queueActionLocked (f\<lparr>df_populated := True\<rparr>) Updated obj"

definition df_Delete :: "'o known option \<Rightarrow> 'o DeltaFIFO \<Rightarrow> 'o obj \<Rightarrow> 'o DeltaFIFO \<times> go_error option" where
  "df_Delete knownObjects f obj =
     (case KeyOf f obj of
        Inl err \<Rightarrow> (f, Some (KeyError err))
      | Inr key \<Rightarrow>
          (let f1 = f\<lparr>df_populated := True\<rparr> in
           case knownObjects of
             None \<Rightarrow> (if df_items f1 key = None then (f1, None) else queueActionLocked f1 Deleted obj)
           | Some kn \<Rightarrow>
               (if kn_GetByKey kn key = Inr None \<and> df_items f1 key = None then (f1, None)
                else queueActionLocked f1 Deleted obj)))"

definition df_addIfNotPresent :: "'o DeltaFIFO \<Rightarrow> string \<Rightarrow> 'o Deltas \<Rightarrow> 'o DeltaFIFO" where
  "df_addIfNotPresent f key deltas =
     (let f1 = f\<lparr>df_populated := True\<rparr> in
      if df_items f1 key \<noteq> None then f1
      else f1\<lparr>df_queue := df_queue f1 @ [key], df_items := (df_items f1)(key \<mapsto> deltas)\<rparr>)"

text \<open>\<open>deltas.Newest().Object\<close> dereferences nil when there are no deltas.\<close>

definition df_AddIfNotPresent :: "'o DeltaFIFO \<Rightarrow> 'o obj \<Rightarrow> ('o DeltaFIFO \<times> go_error option) go" where
  "df_AddIfNotPresent f obj =
     (case obj of
        DeltasObj deltas \<Rightarrow>
          (case Newest deltas of
             None \<Rightarrow> None
           | Some d \<Rightarrow>
               Some (case KeyOf f (snd d) of
                  Inl err \<Rightarrow> (f, Some (KeyError err))
                | Inr key \<Rightarrow> (df_addIfNotPresent f key deltas, None)))
      | _ \<Rightarrow> Some (f, Some (Errorf ''object must be of type deltas'')))"

text \<open>\<open>List\<close> visits the items in the order \<open>ks\<close>.\<close>

fun df_listLocked :: "string list \<Rightarrow> 'o DeltaFIFO \<Rightarrow> 'o obj list go" where
  "df_listLocked [] f = Some []"
| "df_listLocked (k # ks) f =
     (case df_items f k of
        None \<Rightarrow> df_listLocked ks f
      | Some item \<Rightarrow>
          (case Newest item of
             None \<Rightarrow> None
           | Some d \<Rightarrow> do { rest \<leftarrow> df_listLocked ks f; Some (snd d # rest) }))"

definition df_GetByKey :: "'o DeltaFIFO \<Rightarrow> string \<Rightarrow> 'o Deltas option" where
  "df_GetByKey f key = df_items f key"

definition df_Get :: "'o DeltaFIFO \<Rightarrow> 'o obj \<Rightarrow> go_error + 'o Deltas option" where
  "df_Get f obj = (case KeyOf f obj of Inl err \<Rightarrow> Inl (KeyError err) | Inr key \<Rightarrow> Inr (df_GetByKey f key))"

definition df_IsClosed :: "'o DeltaFIFO \<Rightarrow> bool" where
  "df_IsClosed f = df_closed f"

text \<open>
  \<open>Pop\<close>: the outer loop skips keys without items; it is a recursion on the queue.
  \<^term>\<open>None\<close> is waiting. The result is the popped deltas with the error of the callback,
  whose request to requeue (\<open>ErrRequeue\<close>) is honoured.
\<close>

fun pop_from ::
  "string list \<Rightarrow> ('o Deltas \<Rightarrow> go_error option) \<Rightarrow> 'o DeltaFIFO
   \<Rightarrow> ('o DeltaFIFO \<times> (go_error + 'o Deltas \<times> go_error option)) option" where
  "pop_from [] process f =
     (if df_closed f then Some (f\<lparr>df_queue := []\<rparr>, Inl ErrFIFOClosed) else None)"
| "pop_from (key # rest) process f =
     (let f1 = f\<lparr>df_queue := rest,
                 df_initialPopulationCount :=
                   (if df_initialPopulationCount f > 0 then df_initialPopulationCount f - 1
                    else df_initialPopulationCount f)\<rparr> in
      case df_items f1 key of
        None \<Rightarrow> pop_from rest process f1
      | Some item \<Rightarrow>
          (let f2 = f1\<lparr>df_items := (df_items f1)(key := None)\<rparr> in
           case process item of
             Some (ErrRequeue e) \<Rightarrow> Some (df_addIfNotPresent f2 key item, Inr (item, e))
           | err \<Rightarrow> Some (f2, Inr (item, err))))"

definition df_Pop ::
  "('o Deltas \<Rightarrow> go_error option) \<Rightarrow> 'o DeltaFIFO
   \<Rightarrow> ('o DeltaFIFO \<times> (go_error + 'o Deltas \<times> go_error option)) option" where
  "df_Pop process f = pop_from (df_queue f) process f"

text \<open>The first loop of \<open>Replace\<close>, with the set \<open>keys\<close> collected so far.\<close>

fun replace_add ::
  "DeltaType \<Rightarrow> 'o obj list \<Rightarrow> 'o DeltaFIFO \<Rightarrow> string set \<Rightarrow> 'o DeltaFIFO \<times> string set \<times> go_error option" where
  "replace_add action [] f keys = (f, keys, None)"
| "replace_add action (item # list) f keys =
     (case KeyOf f item of
        Inl err \<Rightarrow> (f, keys, Some (KeyError err))
      | Inr key \<Rightarrow>
          (case queueActionLocked f action item of
             (f1, Some err) \<Rightarrow> (f1, insert key keys, Some (Errorf ''could not enqueue object''))
           | (f1, None) \<Rightarrow> replace_add action list f1 (insert key keys)))"

text \<open>The deletion loops: over the queue's own items in the order \<open>ks\<close>, or over the known
  keys; \<open>n\<close> is \<open>queuedDeletions\<close>.\<close>

fun delete_own ::
  "string list \<Rightarrow> string set \<Rightarrow> 'o DeltaFIFO \<Rightarrow> nat \<Rightarrow> 'o DeltaFIFO \<times> nat \<times> go_error option" where
  "delete_own [] keys f n = (f, n, None)"
| "delete_own (k # ks) keys f n =
     (case df_items f k of
        None \<Rightarrow> delete_own ks keys f n
      | Some oldItem \<Rightarrow>
          (if k \<in> keys then delete_own ks keys f n
           else
             (case queueActionLocked f Deleted (DeletedFinalStateUnknown k (map_option snd (Newest oldItem))) of
                (f1, Some err) \<Rightarrow> (f1, Suc n, Some err)
              | (f1, None) \<Rightarrow> delete_own ks keys f1 (Suc n))))"

fun delete_known ::
  "'o known \<Rightarrow> string list \<Rightarrow> string set \<Rightarrow> 'o DeltaFIFO \<Rightarrow> nat \<Rightarrow> 'o DeltaFIFO \<times> nat \<times> go_error option" where
  "delete_known kn [] keys f n = (f, n, None)"
| "delete_known kn (k # ks) keys f n =
     (if k \<in> keys then delete_known kn ks keys f n
      else
        let deletedObj = (case kn_GetByKey kn k of Inl err \<Rightarrow> None | Inr x \<Rightarrow> x) in
        (case queueActionLocked f Deleted (DeletedFinalStateUnknown k deletedObj) of
           (f1, Some err) \<Rightarrow> (f1, Suc n, Some err)
         | (f1, None) \<Rightarrow> delete_known kn ks keys f1 (Suc n)))"

definition df_Replace ::
  "string list \<Rightarrow> 'o known option \<Rightarrow> 'o DeltaFIFO \<Rightarrow> 'o obj list \<Rightarrow> 'o DeltaFIFO \<times> go_error option" where
  "df_Replace ks knownObjects f list =
     (let action = (if df_emitDeltaTypeReplaced f then Replaced else Sync) in
      case replace_add action list f {} of
        (f1, keys, Some err) \<Rightarrow> (f1, Some err)
      | (f1, keys, None) \<Rightarrow>
          (case (case knownObjects of
                   None \<Rightarrow> delete_own ks keys f1 0
                 | Some kn \<Rightarrow> delete_known kn (kn_ListKeys kn) keys f1 0) of
             (f2, queuedDeletions, Some err) \<Rightarrow> (f2, Some err)
           | (f2, queuedDeletions, None) \<Rightarrow>
               (if \<not> df_populated f2
                then (f2\<lparr>df_populated := True, df_initialPopulationCount := card keys + queuedDeletions\<rparr>, None)
                else (f2, None))))"

definition syncKeyLocked :: "'o known \<Rightarrow> 'o DeltaFIFO \<Rightarrow> string \<Rightarrow> 'o DeltaFIFO \<times> go_error option" where
  "syncKeyLocked kn f key =
     (case kn_GetByKey kn key of
        Inl err \<Rightarrow> (f, None)
      | Inr None \<Rightarrow> (f, None)
      | Inr (Some obj) \<Rightarrow>
          (case KeyOf f obj of
             Inl err \<Rightarrow> (f, Some (KeyError err))
           | Inr key \<Rightarrow>
               (if length (case df_items f key of None \<Rightarrow> [] | Some d \<Rightarrow> d) > 0 then (f, None)
                else
                  (case queueActionLocked f Sync obj of
                     (f1, Some err) \<Rightarrow> (f1, Some (Errorf ''could not queue object''))
                   | (f1, None) \<Rightarrow> (f1, None)))))"

fun resync_keys :: "'o known \<Rightarrow> string list \<Rightarrow> 'o DeltaFIFO \<Rightarrow> 'o DeltaFIFO \<times> go_error option" where
  "resync_keys kn [] f = (f, None)"
| "resync_keys kn (k # ks) f =
     (case syncKeyLocked kn f k of
        (f1, Some err) \<Rightarrow> (f1, Some err)
      | (f1, None) \<Rightarrow> resync_keys kn ks f1)"

definition df_Resync :: "'o known option \<Rightarrow> 'o DeltaFIFO \<Rightarrow> 'o DeltaFIFO \<times> go_error option" where
  "df_Resync knownObjects f =
     (case knownObjects of None \<Rightarrow> (f, None) | Some kn \<Rightarrow> resync_keys kn (kn_ListKeys kn) f)"

section \<open>Appending a delta\<close>

text \<open>What \<open>dedupDeltas\<close> does to a list that has just been appended to: two deletions in a row
  become one, the one that knows the final state.\<close>

definition add_delta :: "'o Deltas \<Rightarrow> 'o Delta \<Rightarrow> 'o Deltas" where
  "add_delta ds e =
     (if ds \<noteq> [] \<and> fst (last ds) = Deleted \<and> fst e = Deleted
      then butlast ds @ [if is_unknown (snd (last ds)) then e else last ds]
      else ds @ [e])"

lemma dedupDeltas_snoc: "dedupDeltas (ds @ [e]) = add_delta ds e"
proof (cases ds rule: rev_cases)
  case (snoc ds' b)
  then show ?thesis
    by (simp add: dedupDeltas_def add_delta_def isDup_def isDeletionDup_def Let_def nth_append
        split: option.split)
qed (simp add: dedupDeltas_def add_delta_def)

lemma add_delta_nonempty [simp]: "add_delta ds e \<noteq> []"
  by (simp add: add_delta_def)

definition deltas_of :: "'o DeltaFIFO \<Rightarrow> string \<Rightarrow> 'o Deltas" where
  "deltas_of f k = (case df_items f k of None \<Rightarrow> [] | Some d \<Rightarrow> d)"

definition df_inv :: "'o DeltaFIFO \<Rightarrow> bool" where
  "df_inv f \<longleftrightarrow> distinct (df_queue f) \<and> set (df_queue f) = dom (df_items f) \<and>
     (\<forall>k d. df_items f k = Some d \<longrightarrow> d \<noteq> [])"

text \<open>The operations other than \<open>Pop\<close> only append to the queue; \<open>grows\<close> collects what they
  keep.\<close>

definition grows :: "'o DeltaFIFO \<Rightarrow> 'o DeltaFIFO \<Rightarrow> bool" where
  "grows f f' \<longleftrightarrow> df_inv f' \<and> (\<exists>ys. df_queue f' = df_queue f @ ys) \<and> df_keyFunc f' = df_keyFunc f \<and>
     df_emitDeltaTypeReplaced f' = df_emitDeltaTypeReplaced f \<and>
     (df_populated f \<longrightarrow> df_populated f' \<and> df_initialPopulationCount f' = df_initialPopulationCount f)"

lemma grows_refl: "df_inv f \<Longrightarrow> grows f f"
  by (simp add: grows_def)

lemma grows_trans: "grows f g \<Longrightarrow> grows g h \<Longrightarrow> grows f h"
  by (auto simp: grows_def)

lemma grows_inv: "grows f f' \<Longrightarrow> df_inv f'"
  by (simp add: grows_def)

lemma grows_populated: "df_inv f \<Longrightarrow> grows f (f\<lparr>df_populated := True\<rparr>)"
  by (simp add: grows_def df_inv_def)

lemma KeyOf_cong: "df_keyFunc f' = df_keyFunc f \<Longrightarrow> KeyOf f' = KeyOf f"
  by (rule ext) (simp add: KeyOf_def split: sum.split obj.split)

lemma KeyOf_unknown [simp]: "KeyOf f (DeletedFinalStateUnknown k x) = Inr k"
  by (simp add: KeyOf_def)

lemma queueAction_eq:
  assumes "KeyOf f obj = Inr key"
  shows "queueActionLocked f a obj =
    (f\<lparr>df_queue := (if df_items f key = None then df_queue f @ [key] else df_queue f),
       df_items := (df_items f)(key \<mapsto> add_delta (deltas_of f key) (a, obj))\<rparr>, None)"
proof -
  have "dedupDeltas ((case df_items f key of None \<Rightarrow> [] | Some d \<Rightarrow> d) @ [(a, obj)]) =
      add_delta (deltas_of f key) (a, obj)"
    by (simp add: dedupDeltas_snoc deltas_of_def)
  then show ?thesis using assms by (simp add: queueActionLocked_def Let_def)
qed

lemma queueAction_grows:
  assumes inv: "df_inv f" and q: "queueActionLocked f a obj = (f', err)"
  shows "grows f f'"
proof (cases "KeyOf f obj")
  case (Inl e)
  then show ?thesis using q inv by (simp add: queueActionLocked_def grows_refl)
next
  case (Inr key)
  then have f': "f' = f\<lparr>df_queue := (if df_items f key = None then df_queue f @ [key] else df_queue f),
       df_items := (df_items f)(key \<mapsto> add_delta (deltas_of f key) (a, obj))\<rparr>"
    using q queueAction_eq [OF Inr, of a] by simp
  have "df_inv f'" using inv by (auto simp: f' df_inv_def)
  then show ?thesis by (simp add: grows_def f')
qed

lemma queueAction_deltas:
  assumes "KeyOf f obj = Inr key" "queueActionLocked f a obj = (f', err)"
  shows "err = None" "deltas_of f' k = (if k = key then add_delta (deltas_of f key) (a, obj) else deltas_of f k)"
  using assms(2) by (auto simp: queueAction_eq [OF assms(1)] deltas_of_def)

lemma deltas_of_dom: "df_inv f \<Longrightarrow> k \<in> dom (df_items f) \<longleftrightarrow> deltas_of f k \<noteq> []"
  by (auto simp: df_inv_def deltas_of_def split: option.split)

section \<open>The operations\<close>

lemma df_Add_grows: "df_inv f \<Longrightarrow> df_Add f obj = (f', err) \<Longrightarrow> grows f f'"
  unfolding df_Add_def
  by (rule grows_trans [OF grows_populated queueAction_grows]) (auto simp: df_inv_def)

lemma df_Update_grows: "df_inv f \<Longrightarrow> df_Update f obj = (f', err) \<Longrightarrow> grows f f'"
  unfolding df_Update_def
  by (rule grows_trans [OF grows_populated queueAction_grows]) (auto simp: df_inv_def)

lemma df_Delete_grows:
  assumes inv: "df_inv f" and d: "df_Delete kn f obj = (f', err)"
  shows "grows f f'"
proof -
  let ?f = "f\<lparr>df_populated := True\<rparr>"
  have "f' = f \<or> f' = ?f \<or> queueActionLocked ?f Deleted obj = (f', err)"
    using d by (auto simp: df_Delete_def Let_def split: sum.splits option.splits if_splits)
  moreover have "grows f ?f" using inv by (rule grows_populated)
  ultimately show ?thesis
    using grows_refl [OF inv] grows_trans queueAction_grows [OF grows_inv] by metis
qed

lemma df_addIfNotPresent_grows:
  "df_inv f \<Longrightarrow> deltas \<noteq> [] \<Longrightarrow> grows f (df_addIfNotPresent f key deltas)"
  by (auto simp: df_addIfNotPresent_def grows_def df_inv_def Let_def)

lemma df_AddIfNotPresent_grows:
  assumes "df_inv f" "df_AddIfNotPresent f obj = Some (f', err)"
  shows "grows f f'"
proof -
  have "f' = f \<or> (\<exists>key deltas. deltas \<noteq> [] \<and> f' = df_addIfNotPresent f key deltas)"
    using assms(2) by (auto simp: df_AddIfNotPresent_def Newest_def split: obj.splits if_splits sum.splits)
  then show ?thesis using assms(1) grows_refl df_addIfNotPresent_grows by metis
qed

lemma replace_add_grows:
  "df_inv f \<Longrightarrow> replace_add action list f keys = (f', keys', err) \<Longrightarrow> grows f f'"
proof (induction list arbitrary: f keys)
  case (Cons item list)
  show ?case
  proof (cases "KeyOf f item")
    case (Inl e)
    then show ?thesis using Cons.prems by (simp add: grows_refl)
  next
    case (Inr key)
    obtain f1 where f1: "queueActionLocked f action item = (f1, None)" using queueAction_eq [OF Inr] by blast
    have g: "grows f f1" by (rule queueAction_grows [OF Cons.prems(1) f1])
    have "replace_add action list f1 (insert key keys) = (f', keys', err)" using Cons.prems(2) Inr f1 by simp
    from grows_trans [OF g Cons.IH [OF grows_inv [OF g] this]] show ?thesis .
  qed
qed (simp add: grows_refl)

lemma delete_own_grows:
  "df_inv f \<Longrightarrow> delete_own ks keys f n = (f', n', err) \<Longrightarrow> grows f f' \<and> err = None"
proof (induction ks arbitrary: f n)
  case (Cons k ks)
  show ?case
  proof (cases "df_items f k = None \<or> k \<in> keys")
    case True
    then show ?thesis using Cons.prems Cons.IH [OF Cons.prems(1)] by (auto split: option.splits)
  next
    case False
    then obtain old where old: "df_items f k = Some old" by auto
    let ?o = "DeletedFinalStateUnknown k (map_option snd (Newest old))"
    obtain f1 where f1: "queueActionLocked f Deleted ?o = (f1, None)" using queueAction_eq [of f ?o k] by auto
    have g: "grows f f1" by (rule queueAction_grows [OF Cons.prems(1) f1])
    have "delete_own ks keys f1 (Suc n) = (f', n', err)" using Cons.prems(2) False old f1 by simp
    from Cons.IH [OF grows_inv [OF g] this] grows_trans [OF g] show ?thesis by blast
  qed
qed (simp add: grows_refl)

lemma delete_known_grows:
  "df_inv f \<Longrightarrow> delete_known kn ks keys f n = (f', n', err) \<Longrightarrow> grows f f' \<and> err = None"
proof (induction ks arbitrary: f n)
  case (Cons k ks)
  show ?case
  proof (cases "k \<in> keys")
    case True
    then show ?thesis using Cons.prems Cons.IH [OF Cons.prems(1)] by simp
  next
    case False
    let ?o = "DeletedFinalStateUnknown k (case kn_GetByKey kn k of Inl err \<Rightarrow> None | Inr x \<Rightarrow> x)"
    obtain f1 where f1: "queueActionLocked f Deleted ?o = (f1, None)" using queueAction_eq [of f ?o k] by auto
    have g: "grows f f1" by (rule queueAction_grows [OF Cons.prems(1) f1])
    have "delete_known kn ks keys f1 (Suc n) = (f', n', err)" using Cons.prems(2) False f1 by (simp add: Let_def)
    from Cons.IH [OF grows_inv [OF g] this] grows_trans [OF g] show ?thesis by blast
  qed
qed (simp add: grows_refl)

lemma df_Replace_grows:
  assumes inv: "df_inv f" and r: "df_Replace ks kn f list = (f', err)"
  shows "grows f f'"
proof -
  define action where "action = (if df_emitDeltaTypeReplaced f then Replaced else Sync)"
  obtain f1 keys e1 where ra: "replace_add action list f {} = (f1, keys, e1)" by (metis prod_cases3)
  have g1: "grows f f1" by (rule replace_add_grows [OF inv ra])
  show ?thesis
  proof (cases e1)
    case (Some e)
    then show ?thesis using r ra g1 by (simp add: df_Replace_def Let_def action_def)
  next
    case None
    obtain f2 n e2 where d: "(case kn of None \<Rightarrow> delete_own ks keys f1 0
        | Some kn \<Rightarrow> delete_known kn (kn_ListKeys kn) keys f1 0) = (f2, n, e2)" by (metis prod_cases3)
    have g2: "grows f1 f2" and "e2 = None"
      using d delete_own_grows [OF grows_inv [OF g1], of ks keys 0 f2 n e2]
        delete_known_grows [OF grows_inv [OF g1], of _ _ keys 0 f2 n e2] by (auto split: option.splits)
    have f': "f' = (if \<not> df_populated f2
        then f2\<lparr>df_populated := True, df_initialPopulationCount := card keys + n\<rparr> else f2)"
      using r ra None d \<open>e2 = None\<close> by (auto simp: df_Replace_def Let_def action_def split: if_splits)
    have g: "grows f f2" by (rule grows_trans [OF g1 g2])
    moreover have "df_populated f2" if "df_populated f" using g that by (simp add: grows_def)
    ultimately show ?thesis by (auto simp: f' grows_def df_inv_def)
  qed
qed

lemma syncKeyLocked_grows:
  assumes inv: "df_inv f" and s: "syncKeyLocked kn f key = (f', err)"
  shows "grows f f'"
proof -
  have "f' = f \<or> (\<exists>obj e. queueActionLocked f Sync obj = (f', e))"
    using s by (auto simp: syncKeyLocked_def split: sum.splits option.splits if_splits prod.splits)
  then show ?thesis using grows_refl [OF inv] queueAction_grows [OF inv] by blast
qed

lemma resync_keys_grows: "df_inv f \<Longrightarrow> resync_keys kn ks f = (f', err) \<Longrightarrow> grows f f'"
proof (induction ks arbitrary: f)
  case (Cons k ks)
  obtain f1 e where s: "syncKeyLocked kn f k = (f1, e)" by fastforce
  have g: "grows f f1" by (rule syncKeyLocked_grows [OF Cons.prems(1) s])
  show ?case
  proof (cases e)
    case None
    then have "resync_keys kn ks f1 = (f', err)" using Cons.prems(2) s by simp
    from grows_trans [OF g Cons.IH [OF grows_inv [OF g] this]] show ?thesis .
  next
    case (Some x)
    then show ?thesis using Cons.prems(2) s g by simp
  qed
qed (simp add: grows_refl)

lemma df_Resync_grows: "df_inv f \<Longrightarrow> df_Resync kn f = (f', err) \<Longrightarrow> grows f f'"
  by (cases kn) (auto simp: df_Resync_def grows_refl resync_keys_grows)

text \<open>\<open>Pop\<close> takes the first key with its deltas; it never finds a key without deltas.\<close>

lemma df_Pop_ok:
  assumes inv: "df_inv f" and q: "df_queue f = key # rest"
  shows "\<exists>f' item err. df_Pop process f = Some (f', Inr (item, err)) \<and> df_items f key = Some item \<and>
     df_inv f' \<and> (\<exists>ys. df_queue f' = rest @ ys \<and> set ys \<subseteq> {key}) \<and>
     df_keyFunc f' = df_keyFunc f \<and> df_emitDeltaTypeReplaced f' = df_emitDeltaTypeReplaced f \<and>
     (df_populated f \<longrightarrow> df_populated f') \<and>
     df_initialPopulationCount f' = df_initialPopulationCount f - 1 \<and>
     (if \<exists>e. process item = Some (ErrRequeue e) then df_items f' = df_items f
      else df_items f' = (df_items f)(key := None) \<and> df_queue f' = rest)"
proof -
  have parts: "distinct (key # rest)" "dom (df_items f) = insert key (set rest)"
      "\<And>k d. df_items f k = Some d \<Longrightarrow> d \<noteq> []"
    using inv q by (simp_all add: df_inv_def)
  then obtain item where item: "df_items f key = Some item" by blast
  define f2 where "f2 = f\<lparr>df_queue := rest,
     df_initialPopulationCount := df_initialPopulationCount f - 1, df_items := (df_items f)(key := None)\<rparr>"
  have count: "(if df_initialPopulationCount f > 0 then df_initialPopulationCount f - 1
      else df_initialPopulationCount f) = df_initialPopulationCount f - 1" by simp
  have "dom ((df_items f)(key := None)) = set rest" using parts(1,2) by auto
  then have inv2: "df_inv f2" using parts(1,3) by (auto simp: f2_def df_inv_def)
  have ne: "item \<noteq> []" using parts(3) [OF item] .
  show ?thesis
  proof (cases "\<exists>e. process item = Some (ErrRequeue e)")
    case True
    then obtain e where e: "process item = Some (ErrRequeue e)" by blast
    have "df_Pop process f = Some (df_addIfNotPresent f2 key item, Inr (item, e))"
      unfolding df_Pop_def q using item e by (simp add: Let_def count f2_def)
    moreover have "df_inv (df_addIfNotPresent f2 key item)"
      using df_addIfNotPresent_grows [OF inv2 ne] by (rule grows_inv)
    ultimately show ?thesis
      using item e by (auto simp: df_addIfNotPresent_def f2_def Let_def)
  next
    case False
    have "df_Pop process f = Some (f2, Inr (item, process item))"
      unfolding df_Pop_def q using item False
      by (auto simp: Let_def count f2_def split: option.split go_error.split)
    then show ?thesis using item inv2 False by (auto simp: f2_def)
  qed
qed

lemma df_Pop_empty:
  "df_queue f = [] \<Longrightarrow> df_Pop process f = (if df_closed f then Some (f, Inl ErrFIFOClosed) else None)"
  by (simp add: df_Pop_def)

section \<open>Runs\<close>

text \<open>A run is labelled with the keys it pops; \<^term>\<open>None\<close> marks every other call.\<close>

inductive df_step :: "'o DeltaFIFO \<Rightarrow> string option \<Rightarrow> 'o DeltaFIFO \<Rightarrow> bool" where
  s_add: "df_Add f obj = (f', err) \<Longrightarrow> df_step f None f'"
| s_update: "df_Update f obj = (f', err) \<Longrightarrow> df_step f None f'"
| s_delete: "df_Delete kn f obj = (f', err) \<Longrightarrow> df_step f None f'"
| s_addIfNotPresent: "df_AddIfNotPresent f obj = Some (f', err) \<Longrightarrow> df_step f None f'"
| s_replace: "df_Replace ks kn f list = (f', err) \<Longrightarrow> df_step f None f'"
| s_resync: "df_Resync kn f = (f', err) \<Longrightarrow> df_step f None f'"
| s_close: "df_step f None (df_Close f)"
| s_pop: "df_queue f = key # rest \<Longrightarrow> df_Pop process f = Some (f', Inr r) \<Longrightarrow> df_step f (Some key) f'"
| s_pop_closed: "df_Pop process f = Some (f', Inl err) \<Longrightarrow> df_step f None f'"

inductive df_run :: "'o DeltaFIFO \<Rightarrow> string list \<Rightarrow> 'o DeltaFIFO \<Rightarrow> bool" where
  df_run_nil: "df_run f [] f"
| df_run_quiet: "df_step f None f1 \<Longrightarrow> df_run f1 ks f2 \<Longrightarrow> df_run f ks f2"
| df_run_pop: "df_step f (Some k) f1 \<Longrightarrow> df_run f1 ks f2 \<Longrightarrow> df_run f (k # ks) f2"

lemma df_step_quiet: "df_step f l f' \<Longrightarrow> l = None \<Longrightarrow> df_inv f \<Longrightarrow> grows f f'"
proof (induction rule: df_step.induct)
  case (s_pop_closed process f f' err)
  then have "df_queue f = []"
    using df_Pop_ok [of f _ _ process] by (cases "df_queue f") fastforce+
  then have "f' = f" using s_pop_closed.hyps by (simp add: df_Pop_empty split: if_splits)
  then show ?case using s_pop_closed.prems by (simp add: grows_refl)
next
  case (s_close f)
  then show ?case by (simp add: df_Close_def grows_def df_inv_def)
qed (auto intro: df_Add_grows df_Update_grows df_Delete_grows df_AddIfNotPresent_grows df_Replace_grows
    df_Resync_grows)

lemma df_step_pop:
  "df_step f l f' \<Longrightarrow> l = Some k \<Longrightarrow> df_inv f \<Longrightarrow>
   df_inv f' \<and> (\<exists>rest ys. df_queue f = k # rest \<and> df_queue f' = rest @ ys) \<and>
   (df_populated f \<longrightarrow> df_populated f') \<and>
   df_initialPopulationCount f' = df_initialPopulationCount f - 1"
proof (induction rule: df_step.induct)
  case (s_pop f key rest process f' r)
  then show ?case using df_Pop_ok [OF s_pop.prems(2) s_pop.hyps(1), of process] by auto
qed simp_all

lemma df_run_fifo:
  "df_run f ks f' \<Longrightarrow> df_inv f \<Longrightarrow>
   df_inv f' \<and> (\<exists>ys. df_queue f @ ys = ks @ df_queue f') \<and>
   (df_populated f \<longrightarrow> df_populated f' \<and>
      df_initialPopulationCount f' = df_initialPopulationCount f - length ks)"
proof (induction rule: df_run.induct)
  case (df_run_quiet f f1 ks f2)
  have g: "grows f f1" using df_step_quiet [OF df_run_quiet.hyps(1) refl df_run_quiet.prems] .
  from df_run_quiet.IH [OF grows_inv [OF g]] g show ?case by (fastforce simp: grows_def)
next
  case (df_run_pop f k f1 ks f2)
  note s = df_step_pop [OF df_run_pop.hyps(1) refl df_run_pop.prems]
  from df_run_pop.IH s show ?case by fastforce
qed auto

lemma df_inv_new: "df_inv (NewDeltaFIFOWithOptions keyFunc emit)"
  by (simp add: df_inv_def NewDeltaFIFOWithOptions_def)

end
