(* ===== verification/Delta_FIFO_Correct.thy ===== *)
theory Delta_FIFO_Correct
  imports Delta_FIFO
begin

text \<open>
  What the queue of changes promises its consumer: the documented invariant, FIFO order, when
  \<open>HasSynced\<close> becomes true, what a run of changes is compressed to, and what \<open>Replace\<close>
  queues for every key. The locale \<open>key_lister_getter\<close> is the contract of the interface
  \<open>KeyListerGetter\<close> through which \<open>Replace\<close> and \<open>Resync\<close> see the consumer's store; the
  object store of \<open>Thread_Safe_Store\<close> provides it.
\<close>

section \<open>Compression of deltas\<close>

definition compress :: "'o Delta list \<Rightarrow> 'o Deltas" where
  "compress evs = foldl add_delta [] evs"

text \<open>The types of the deltas with every run of deletions shortened to one.\<close>

fun merge_deleted :: "DeltaType list \<Rightarrow> DeltaType list" where
  "merge_deleted [] = []"
| "merge_deleted [t] = [t]"
| "merge_deleted (t # u # ts) =
     (if t = Deleted \<and> u = Deleted then merge_deleted (u # ts) else t # merge_deleted (u # ts))"

lemma compress_snoc: "compress (evs @ [e]) = add_delta (compress evs) e"
  by (simp add: compress_def)

lemma compress_nonempty: "evs \<noteq> [] \<Longrightarrow> compress evs \<noteq> []"
  by (cases evs rule: rev_cases) (simp_all add: compress_snoc)

lemma merge_deleted_snoc:
  "merge_deleted (ts @ [t]) =
     (if ts \<noteq> [] \<and> last ts = Deleted \<and> t = Deleted then merge_deleted ts else merge_deleted ts @ [t])"
  by (induction ts rule: merge_deleted.induct) auto

lemma compress_last: "evs \<noteq> [] \<Longrightarrow> fst (last (compress evs)) = fst (last evs)"
proof (induction evs rule: rev_induct)
  case (snoc e evs)
  show ?case
  proof (cases "evs = []")
    case False
    with snoc.IH compress_nonempty [OF False] show ?thesis by (auto simp: compress_snoc add_delta_def)
  qed (simp add: compress_def add_delta_def)
qed simp

lemma compress_types: "map fst (compress evs) = merge_deleted (map fst evs)"
proof (induction evs rule: rev_induct)
  case (snoc e evs)
  show ?case
  proof (cases "evs = []")
    case False
    have ne: "compress evs \<noteq> []" using compress_nonempty [OF False] .
    show ?thesis
    proof (cases "fst (last evs) = Deleted \<and> fst e = Deleted")
      case True
      have l: "fst (last (compress evs)) = Deleted" using True compress_last [OF False] by simp
      have "map fst (compress (evs @ [e])) = map fst (butlast (compress evs)) @ [Deleted]"
        using True ne l by (simp add: compress_snoc add_delta_def)
      also have "\<dots> = map fst (butlast (compress evs) @ [last (compress evs)])" using l by simp
      also have "\<dots> = map fst (compress evs)" by (simp only: append_butlast_last_id [OF ne])
      also have "\<dots> = merge_deleted (map fst evs)" using snoc.IH by simp
      finally show ?thesis using True False by (simp add: merge_deleted_snoc last_map)
    next
      case False
      then show ?thesis
        using compress_last [OF \<open>evs \<noteq> []\<close>] snoc.IH \<open>evs \<noteq> []\<close>
        by (auto simp: compress_snoc add_delta_def merge_deleted_snoc last_map)
    qed
  qed (simp add: compress_def add_delta_def)
qed (simp add: compress_def)

lemma filter_butlast_last:
  "ds \<noteq> [] \<Longrightarrow> \<not> P (last ds) \<Longrightarrow> filter P (butlast ds) = filter P ds"
  by (cases ds rule: rev_cases) auto

lemma compress_keeps_others:
  "filter (\<lambda>d. fst d \<noteq> Deleted) (compress evs) = filter (\<lambda>d. fst d \<noteq> Deleted) evs"
proof (induction evs rule: rev_induct)
  case (snoc e evs)
  let ?P = "\<lambda>d. fst d \<noteq> Deleted" and ?c = "compress evs"
  show ?case
  proof (cases "?c \<noteq> [] \<and> fst (last ?c) = Deleted \<and> fst e = Deleted")
    case True
    have "filter ?P (add_delta ?c e) = filter ?P (butlast ?c)" using True by (simp add: add_delta_def)
    also have "\<dots> = filter ?P ?c" using True by (intro filter_butlast_last) auto
    finally show ?thesis using snoc.IH True by (simp add: compress_snoc)
  qed (use snoc.IH in \<open>auto simp: compress_snoc add_delta_def\<close>)
qed (simp add: compress_def)

lemma compress_subset: "set (compress evs) \<subseteq> set evs"
proof (induction evs rule: rev_induct)
  case (snoc e evs)
  have "set (add_delta (compress evs) e) \<subseteq> insert e (set (compress evs))"
    by (auto simp: add_delta_def dest: in_set_butlastD)
  with snoc.IH show ?case by (auto simp: compress_snoc)
qed (simp add: compress_def)

text \<open>A deletion whose final state is unknown is kept only if no deletion of its run knows it.\<close>

lemma compress_known:
  "evs \<noteq> [] \<Longrightarrow> is_unknown (snd (last (compress evs))) \<Longrightarrow> fst (last evs) = Deleted \<Longrightarrow>
   \<forall>d \<in> set (takeWhile (\<lambda>d. fst d = Deleted) (rev evs)). is_unknown (snd d)"
proof (induction evs rule: rev_induct)
  case (snoc e evs)
  show ?case
  proof (cases "evs = [] \<or> fst (last evs) \<noteq> Deleted")
    case True
    have "last (compress (evs @ [e])) = e"
    proof (cases "evs = []")
      case False
      with True compress_last [OF False] show ?thesis by (simp add: compress_snoc add_delta_def)
    qed (simp add: compress_def add_delta_def)
    moreover have "takeWhile (\<lambda>d. fst d = Deleted) (rev evs) = []"
      using True by (cases evs rule: rev_cases) auto
    ultimately show ?thesis using snoc.prems by auto
  next
    case False
    have "compress evs \<noteq> []" "fst (last (compress evs)) = Deleted"
      using False compress_nonempty compress_last [of evs] by auto
    then have "last (compress (evs @ [e])) =
        (if is_unknown (snd (last (compress evs))) then e else last (compress evs))"
      using snoc.prems by (simp add: compress_snoc add_delta_def)
    then have "is_unknown (snd (last (compress evs)))" "is_unknown (snd e)"
      using snoc.prems(2) by (auto split: if_splits)
    then show ?thesis using snoc.IH snoc.prems False by auto
  qed
qed simp

section \<open>Replace\<close>

definition keys_ok :: "'o DeltaFIFO \<Rightarrow> 'o obj list \<Rightarrow> bool" where
  "keys_ok f list \<longleftrightarrow> (\<forall>item \<in> set list. \<exists>k. KeyOf f item = Inr k)"

definition items_with :: "'o DeltaFIFO \<Rightarrow> 'o obj list \<Rightarrow> string \<Rightarrow> 'o obj list" where
  "items_with f list k = filter (\<lambda>item. KeyOf f item = Inr k) list"

lemma replace_add_deltas:
  "df_inv f \<Longrightarrow> keys_ok f list \<Longrightarrow>
   \<exists>f'. replace_add action list f keys = (f', keys \<union> {k. items_with f list k \<noteq> []}, None) \<and>
     grows f f' \<and> df_populated f' = df_populated f \<and>
     (\<forall>k. deltas_of f' k = foldl add_delta (deltas_of f k) (map (Pair action) (items_with f list k)))"
proof (induction list arbitrary: f keys)
  case (Cons item list)
  then obtain key where key: "KeyOf f item = Inr key" by (auto simp: keys_ok_def)
  obtain f1 where f1: "queueActionLocked f action item = (f1, None)" using queueAction_eq [OF key] by blast
  have g: "grows f f1" by (rule queueAction_grows [OF Cons.prems(1) f1])
  have k1: "KeyOf f1 = KeyOf f" using g by (intro KeyOf_cong) (simp add: grows_def)
  have ok: "keys_ok f1 list" using Cons.prems(2) by (simp add: keys_ok_def k1)
  have iw: "items_with f1 list k = items_with f list k" for k by (simp add: items_with_def k1)
  have pop: "df_populated f1 = df_populated f"
    using f1 by (auto simp: queueAction_eq [OF key])
  obtain f' where f': "replace_add action list f1 (insert key keys) =
        (f', insert key keys \<union> {k. items_with f list k \<noteq> []}, None)" "grows f1 f'"
      "df_populated f' = df_populated f1"
      "\<And>k. deltas_of f' k = foldl add_delta (deltas_of f1 k) (map (Pair action) (items_with f list k))"
    using Cons.IH [OF grows_inv [OF g] ok, of "insert key keys"] by (auto simp: iw)
  have "replace_add action (item # list) f keys =
      (f', keys \<union> {k. items_with f (item # list) k \<noteq> []}, None)"
    using key f1 f'(1) by (auto simp: items_with_def)
  moreover have "deltas_of f' k = foldl add_delta (deltas_of f k) (map (Pair action) (items_with f (item # list) k))" for k
    using f'(4) [of k] queueAction_deltas(2) [OF key f1, of k] key by (auto simp: items_with_def)
  ultimately show ?case using grows_trans [OF g f'(2)] f'(3) pop by blast
qed (simp add: items_with_def grows_refl)

definition unknown_delta :: "string \<Rightarrow> 'o obj option \<Rightarrow> 'o Delta" where
  "unknown_delta k x = (Deleted, DeletedFinalStateUnknown k x)"

lemma queue_unknown:
  assumes "df_inv f"
  shows "\<exists>f1. queueActionLocked f Deleted (DeletedFinalStateUnknown k x) = (f1, None) \<and> grows f f1 \<and>
    df_populated f1 = df_populated f \<and> dom (df_items f1) = insert k (dom (df_items f)) \<and>
    (\<forall>j. deltas_of f1 j = (if j = k then add_delta (deltas_of f k) (unknown_delta k x) else deltas_of f j))"
proof -
  let ?o = "DeletedFinalStateUnknown k x"
  obtain f1 where f1: "queueActionLocked f Deleted ?o = (f1, None)" using queueAction_eq [of f ?o k] by auto
  then show ?thesis
    using queueAction_grows [OF assms f1] queueAction_deltas(2) [of f ?o k Deleted f1 None]
    by (auto simp: unknown_delta_def queueAction_eq [of f ?o k])
qed

lemma delete_own_deltas:
  "df_inv f \<Longrightarrow> distinct ks \<Longrightarrow>
   \<exists>f' n'. delete_own ks keys f n = (f', n', None) \<and> grows f f' \<and> df_populated f' = df_populated f \<and>
     n' = n + length (filter (\<lambda>k. k \<notin> keys \<and> deltas_of f k \<noteq> []) ks) \<and>
     (\<forall>k. deltas_of f' k =
       (if k \<in> set ks \<and> k \<notin> keys \<and> deltas_of f k \<noteq> []
        then add_delta (deltas_of f k) (unknown_delta k (Some (snd (last (deltas_of f k)))))
        else deltas_of f k))"
proof (induction ks arbitrary: f n)
  case (Cons k ks)
  show ?case
  proof (cases "df_items f k = None \<or> k \<in> keys")
    case True
    then have skip: "delete_own (k # ks) keys f n = delete_own ks keys f n" by (auto split: option.split)
    have "k \<in> keys \<or> deltas_of f k = []" using True by (auto simp: deltas_of_def)
    then show ?thesis
      unfolding skip using Cons.IH [OF Cons.prems(1), of n] Cons.prems(2) by auto
  next
    case False
    then obtain old where old: "df_items f k = Some old" by auto
    have ne: "old \<noteq> []" using Cons.prems(1) old by (auto simp: df_inv_def)
    then have nw: "map_option snd (Newest old) = Some (snd (last old))"
      by (simp add: Newest_def last_conv_nth)
    have d: "deltas_of f k = old" using old by (simp add: deltas_of_def)
    obtain f1 where f1: "queueActionLocked f Deleted (DeletedFinalStateUnknown k (Some (snd (last old)))) = (f1, None)"
        "grows f f1" "df_populated f1 = df_populated f"
        "\<And>j. deltas_of f1 j = (if j = k then add_delta old (unknown_delta k (Some (snd (last old)))) else deltas_of f j)"
      using queue_unknown [OF Cons.prems(1), of k "Some (snd (last old))"] d by auto
    have ks: "k \<notin> set ks" "distinct ks" using Cons.prems(2) by simp_all
    have same: "deltas_of f1 j = deltas_of f j" if "j \<in> set ks" for j using that ks(1) f1(4) [of j] by auto
    then have "filter (\<lambda>k. k \<notin> keys \<and> deltas_of f1 k \<noteq> []) ks = filter (\<lambda>k. k \<notin> keys \<and> deltas_of f k \<noteq> []) ks"
      by (intro filter_cong) auto
    with Cons.IH [OF grows_inv [OF f1(2)] ks(2), of "Suc n"] obtain f' n' where
      f': "delete_own ks keys f1 (Suc n) = (f', n', None)" "grows f1 f'" "df_populated f' = df_populated f1"
        "n' = Suc n + length (filter (\<lambda>k. k \<notin> keys \<and> deltas_of f k \<noteq> []) ks)"
        "\<And>j. deltas_of f' j =
          (if j \<in> set ks \<and> j \<notin> keys \<and> deltas_of f1 j \<noteq> []
           then add_delta (deltas_of f1 j) (unknown_delta j (Some (snd (last (deltas_of f1 j)))))
           else deltas_of f1 j)" by auto
    have run: "delete_own (k # ks) keys f n = (f', n', None)" using False old f1(1) f'(1) by (simp add: nw)
    have "deltas_of f' j = (if j \<in> set (k # ks) \<and> j \<notin> keys \<and> deltas_of f j \<noteq> []
        then add_delta (deltas_of f j) (unknown_delta j (Some (snd (last (deltas_of f j))))) else deltas_of f j)" for j
      using f'(5) [of j] f1(4) [of j] same [of j] ks(1) False d ne by auto
    moreover have "n' = n + length (filter (\<lambda>k. k \<notin> keys \<and> deltas_of f k \<noteq> []) (k # ks))"
      using f'(4) False d ne by simp
    ultimately show ?thesis using run grows_trans [OF f1(2) f'(2)] f'(3) f1(3) by auto
  qed
qed (simp add: grows_refl)

definition known_object :: "'o known \<Rightarrow> string \<Rightarrow> 'o obj option" where
  "known_object kn k = (case kn_GetByKey kn k of Inl err \<Rightarrow> None | Inr x \<Rightarrow> x)"

lemma delete_known_deltas:
  "df_inv f \<Longrightarrow> distinct ks \<Longrightarrow>
   \<exists>f' n'. delete_known kn ks keys f n = (f', n', None) \<and> grows f f' \<and> df_populated f' = df_populated f \<and>
     n' = n + length (filter (\<lambda>k. k \<notin> keys) ks) \<and>
     (\<forall>k. deltas_of f' k =
       (if k \<in> set ks \<and> k \<notin> keys then add_delta (deltas_of f k) (unknown_delta k (known_object kn k))
        else deltas_of f k))"
proof (induction ks arbitrary: f n)
  case (Cons k ks)
  show ?case
  proof (cases "k \<in> keys")
    case True
    then have skip: "delete_known kn (k # ks) keys f n = delete_known kn ks keys f n" by simp
    show ?thesis unfolding skip using Cons.IH [OF Cons.prems(1), of n] Cons.prems(2) True by auto
  next
    case False
    obtain f1 where f1: "queueActionLocked f Deleted (DeletedFinalStateUnknown k (known_object kn k)) = (f1, None)"
        "grows f f1" "df_populated f1 = df_populated f"
        "\<And>j. deltas_of f1 j = (if j = k then add_delta (deltas_of f k) (unknown_delta k (known_object kn k)) else deltas_of f j)"
      using queue_unknown [OF Cons.prems(1), of k "known_object kn k"] by auto
    have ks: "k \<notin> set ks" "distinct ks" using Cons.prems(2) by simp_all
    obtain f' n' where f': "delete_known kn ks keys f1 (Suc n) = (f', n', None)" "grows f1 f'"
        "df_populated f' = df_populated f1" "n' = Suc n + length (filter (\<lambda>k. k \<notin> keys) ks)"
        "\<And>j. deltas_of f' j = (if j \<in> set ks \<and> j \<notin> keys
           then add_delta (deltas_of f1 j) (unknown_delta j (known_object kn j)) else deltas_of f1 j)"
      using Cons.IH [OF grows_inv [OF f1(2)] ks(2), of "Suc n"] by auto
    have run: "delete_known kn (k # ks) keys f n = (f', n', None)"
      using False f1(1) f'(1) by (simp add: Let_def known_object_def)
    have "deltas_of f' j = (if j \<in> set (k # ks) \<and> j \<notin> keys
        then add_delta (deltas_of f j) (unknown_delta j (known_object kn j)) else deltas_of f j)" for j
      using f'(5) [of j] f1(4) [of j] ks(1) False by auto
    then show ?thesis using run grows_trans [OF f1(2) f'(2)] f'(3,4) f1(3) False by auto
  qed
qed (simp add: grows_refl)

definition replace_action :: "'o DeltaFIFO \<Rightarrow> DeltaType" where
  "replace_action f = (if df_emitDeltaTypeReplaced f then Replaced else Sync)"

text \<open>What \<open>Replace\<close> leaves queued for a key, given the object \<open>gone k\<close> to report as deleted.\<close>

definition replaced_deltas ::
  "'o DeltaFIFO \<Rightarrow> 'o obj list \<Rightarrow> (string \<Rightarrow> 'o obj option option) \<Rightarrow> string \<Rightarrow> 'o Deltas" where
  "replaced_deltas f list gone k =
     (if items_with f list k \<noteq> []
      then foldl add_delta (deltas_of f k) (map (Pair (replace_action f)) (items_with f list k))
      else (case gone k of
              None \<Rightarrow> deltas_of f k
            | Some x \<Rightarrow> add_delta (deltas_of f k) (unknown_delta k x)))"

lemma finite_keys: "finite {k. items_with f list k \<noteq> []}"
proof -
  have "{k. items_with f list k \<noteq> []} \<subseteq> (\<lambda>item. projr (KeyOf f item)) ` set list"
  proof
    fix k assume "k \<in> {k. items_with f list k \<noteq> []}"
    then obtain item where "item \<in> set list" "KeyOf f item = Inr k"
      by (auto simp: items_with_def filter_empty_conv)
    then show "k \<in> (\<lambda>item. projr (KeyOf f item)) ` set list" by force
  qed
  then show ?thesis by (rule finite_subset) simp
qed

text \<open>A fresh queue counts what its first \<open>Replace\<close> puts into it.\<close>

definition fresh :: "'o DeltaFIFO \<Rightarrow> bool" where
  "fresh f \<longleftrightarrow> df_queue f = [] \<and> \<not> df_populated f"

lemma queue_length:
  assumes "df_inv f'" "\<And>k. deltas_of f' k \<noteq> [] \<longleftrightarrow> k \<in> K"
  shows "length (df_queue f') = card K"
proof -
  have "set (df_queue f') = K" using deltas_of_dom [OF assms(1)] assms by (auto simp: df_inv_def)
  then show ?thesis using assms(1) by (metis df_inv_def distinct_card)
qed

lemma foldl_add_delta_nonempty: "es \<noteq> [] \<Longrightarrow> foldl add_delta ds es \<noteq> []"
  by (cases es rule: rev_cases) auto

lemma replaced_deltas_fresh:
  "deltas_of f k = [] \<Longrightarrow> replaced_deltas f list gone k \<noteq> [] \<longleftrightarrow> items_with f list k \<noteq> [] \<or> gone k \<noteq> None"
  by (auto simp: replaced_deltas_def foldl_add_delta_nonempty split: option.split)

lemma fresh_deltas: "df_inv f \<Longrightarrow> fresh f \<Longrightarrow> deltas_of f k = []"
  using deltas_of_dom [of f k] by (auto simp: fresh_def df_inv_def)

lemma df_Replace_known:
  assumes inv: "df_inv f" and ok: "keys_ok f list" and dist: "distinct (kn_ListKeys kn)"
    and gone: "\<And>k. gone k = (if k \<in> set (kn_ListKeys kn) then Some (known_object kn k) else None)"
  shows "\<exists>f'. df_Replace ks (Some kn) f list = (f', None) \<and> grows f f' \<and> df_populated f' \<and>
    (\<forall>k. deltas_of f' k = replaced_deltas f list gone k) \<and>
    (fresh f \<longrightarrow> df_initialPopulationCount f' = length (df_queue f'))"
proof -
  define K where "K = {k. items_with f list k \<noteq> []}"
  obtain f1 where f1: "replace_add (replace_action f) list f {} = (f1, K, None)" "grows f f1"
      "df_populated f1 = df_populated f"
      "\<And>k. deltas_of f1 k = foldl add_delta (deltas_of f k) (map (Pair (replace_action f)) (items_with f list k))"
    using replace_add_deltas [OF inv ok, of "replace_action f" "{}"] by (auto simp: K_def)
  obtain f2 n where f2: "delete_known kn (kn_ListKeys kn) K f1 0 = (f2, n, None)" "grows f1 f2"
      "df_populated f2 = df_populated f1" "n = length (filter (\<lambda>k. k \<notin> K) (kn_ListKeys kn))"
      "\<And>k. deltas_of f2 k = (if k \<in> set (kn_ListKeys kn) \<and> k \<notin> K
         then add_delta (deltas_of f1 k) (unknown_delta k (known_object kn k)) else deltas_of f1 k)"
    using delete_known_deltas [OF grows_inv [OF f1(2)] dist, of kn K 0] by auto
  define f' where "f' = (if \<not> df_populated f2
      then f2\<lparr>df_populated := True, df_initialPopulationCount := card K + n\<rparr> else f2)"
  have run: "df_Replace ks (Some kn) f list = (f', None)"
    using f1(1) f2(1) by (auto simp: df_Replace_def Let_def replace_action_def f'_def)
  have g: "grows f f'" by (rule df_Replace_grows [OF inv run])
  have "deltas_of f' k = deltas_of f2 k" for k by (simp add: f'_def deltas_of_def)
  then have d: "deltas_of f' k = replaced_deltas f list gone k" for k
    using f2(5) [of k] f1(4) [of k] gone [of k] by (auto simp: replaced_deltas_def K_def)
  have "df_initialPopulationCount f' = length (df_queue f')" if fr: "fresh f"
  proof -
    have "deltas_of f' k \<noteq> [] \<longleftrightarrow> k \<in> K \<union> set (kn_ListKeys kn)" for k
      using replaced_deltas_fresh [OF fresh_deltas [OF inv fr]] gone by (auto simp: d K_def)
    then have "length (df_queue f') = card (K \<union> set (kn_ListKeys kn))"
      using queue_length [OF grows_inv [OF g]] by blast
    also have "K \<union> set (kn_ListKeys kn) = K \<union> set (filter (\<lambda>k. k \<notin> K) (kn_ListKeys kn))" by auto
    also have "card \<dots> = card K + card (set (filter (\<lambda>k. k \<notin> K) (kn_ListKeys kn)))"
      by (rule card_Un_disjoint) (use finite_keys [of f list] in \<open>auto simp: K_def\<close>)
    also have "\<dots> = card K + n" using f2(4) dist by (simp only: distinct_card distinct_filter)
    finally show ?thesis using fr f1(3) f2(3) by (simp add: f'_def fresh_def)
  qed
  moreover have "df_populated f'" by (simp add: f'_def)
  ultimately show ?thesis using run g d by blast
qed

lemma df_Replace_own:
  assumes inv: "df_inv f" and ok: "keys_ok f list"
    and ks: "\<And>f1 keys. replace_add (replace_action f) list f {} = (f1, keys, None) \<Longrightarrow> range_order ks (df_items f1)"
    and gone: "\<And>k. gone k = (if deltas_of f k \<noteq> [] then Some (Some (snd (last (deltas_of f k)))) else None)"
  shows "\<exists>f'. df_Replace ks None f list = (f', None) \<and> grows f f' \<and> df_populated f' \<and>
    (\<forall>k. deltas_of f' k = replaced_deltas f list gone k) \<and>
    (fresh f \<longrightarrow> df_initialPopulationCount f' = length (df_queue f'))"
proof -
  define K where "K = {k. items_with f list k \<noteq> []}"
  obtain f1 where f1: "replace_add (replace_action f) list f {} = (f1, K, None)" "grows f f1"
      "df_populated f1 = df_populated f"
      "\<And>k. deltas_of f1 k = foldl add_delta (deltas_of f k) (map (Pair (replace_action f)) (items_with f list k))"
    using replace_add_deltas [OF inv ok, of "replace_action f" "{}"] by (auto simp: K_def)
  have ks1: "distinct ks" "set ks = dom (df_items f1)" using ks [OF f1(1)] by (auto simp: range_order_def)
  obtain f2 n where f2: "delete_own ks K f1 0 = (f2, n, None)" "grows f1 f2"
      "df_populated f2 = df_populated f1" "n = length (filter (\<lambda>k. k \<notin> K \<and> deltas_of f1 k \<noteq> []) ks)"
      "\<And>k. deltas_of f2 k = (if k \<in> set ks \<and> k \<notin> K \<and> deltas_of f1 k \<noteq> []
         then add_delta (deltas_of f1 k) (unknown_delta k (Some (snd (last (deltas_of f1 k))))) else deltas_of f1 k)"
    using delete_own_deltas [OF grows_inv [OF f1(2)] ks1(1), of K 0] by auto
  define f' where "f' = (if \<not> df_populated f2
      then f2\<lparr>df_populated := True, df_initialPopulationCount := card K + n\<rparr> else f2)"
  have run: "df_Replace ks None f list = (f', None)"
    using f1(1) f2(1) by (auto simp: df_Replace_def Let_def replace_action_def f'_def)
  have g: "grows f f'" by (rule df_Replace_grows [OF inv run])
  have out: "deltas_of f1 k = deltas_of f k" if "k \<notin> K" for k using f1(4) [of k] that by (simp add: K_def)
  have ks2: "k \<in> set ks \<longleftrightarrow> deltas_of f1 k \<noteq> []" for k
    using ks1(2) deltas_of_dom [OF grows_inv [OF f1(2)]] by simp
  have "deltas_of f' k = deltas_of f2 k" for k by (simp add: f'_def deltas_of_def)
  then have d: "deltas_of f' k = replaced_deltas f list gone k" for k
    using f2(5) [of k] f1(4) [of k] gone [of k] out [of k] ks2 [of k] by (auto simp: replaced_deltas_def K_def)
  have "df_initialPopulationCount f' = length (df_queue f')" if fr: "fresh f"
  proof -
    have e: "deltas_of f k = []" for k using fresh_deltas [OF inv fr] .
    have "deltas_of f' k \<noteq> [] \<longleftrightarrow> k \<in> K" for k
      using replaced_deltas_fresh [OF e] gone e by (auto simp: d K_def)
    then have "length (df_queue f') = card K" using queue_length [OF grows_inv [OF g]] by blast
    moreover have "n = 0" using f2(4) out e by (auto simp: filter_empty_conv)
    ultimately show ?thesis using fr f1(3) f2(3) by (simp add: f'_def fresh_def)
  qed
  moreover have "df_populated f'" by (simp add: f'_def)
  ultimately show ?thesis using run g d by blast
qed

section \<open>The store behind the queue\<close>

text \<open>\<open>KeyListerGetter\<close>: the listed keys are distinct and are exactly those under which an
  object is found.\<close>

definition known_of ::
  "('s \<Rightarrow> string list) \<Rightarrow> ('s \<Rightarrow> string \<Rightarrow> go_error + 'o obj option) \<Rightarrow> 's \<Rightarrow> 'o known" where
  "known_of lister getter s = \<lparr>kn_ListKeys = lister s, kn_GetByKey = getter s\<rparr>"

locale key_lister_getter =
  fixes kinv :: "'s \<Rightarrow> bool"
    and lister :: "'s \<Rightarrow> string list"
    and getter :: "'s \<Rightarrow> string \<Rightarrow> go_error + 'o obj option"
  assumes lister_distinct: "kinv s \<Longrightarrow> distinct (lister s)"
    and lister_getter: "kinv s \<Longrightarrow> k \<in> set (lister s) \<longleftrightarrow> (\<exists>x. getter s k = Inr (Some x))"
begin

definition gone_of :: "'s \<Rightarrow> string \<Rightarrow> 'o obj option option" where
  "gone_of s k = (case getter s k of Inr (Some x) \<Rightarrow> Some (Some x) | _ \<Rightarrow> None)"

lemma gone_of_known:
  assumes "kinv s"
  shows "gone_of s k = (if k \<in> set (kn_ListKeys (known_of lister getter s))
     then Some (known_object (known_of lister getter s) k) else None)"
  using lister_getter [OF assms, of k]
  by (auto simp: gone_of_def known_of_def known_object_def split: sum.splits option.splits)

lemma replace_effect:
  assumes "kinv s" "df_inv f" "keys_ok f list"
  shows "\<exists>f'. df_Replace ks (Some (known_of lister getter s)) f list = (f', None) \<and> grows f f' \<and>
    df_populated f' \<and> (\<forall>k. deltas_of f' k = replaced_deltas f list (gone_of s) k) \<and>
    (fresh f \<longrightarrow> df_initialPopulationCount f' = length (df_queue f'))"
  using df_Replace_known [OF assms(2,3), of "known_of lister getter s" "gone_of s" ks]
    lister_distinct [OF assms(1)] gone_of_known [OF assms(1)]
  by (simp add: known_of_def)

text \<open>After the first \<open>Replace\<close>, the queue is synced when and only when everything that call
  queued has been popped.\<close>

lemma synced_when_popped:
  assumes "kinv s" "df_inv f0" "fresh f0" "keys_ok f0 list"
    and "df_Replace ks (Some (known_of lister getter s)) f0 list = (f1, None)" "df_run f1 ps f"
  shows "(\<exists>ys. df_queue f1 @ ys = ps @ df_queue f) \<and> (df_HasSynced f \<longleftrightarrow> set (df_queue f1) \<subseteq> set ps)"
proof -
  have f1: "grows f0 f1" "df_populated f1" "df_initialPopulationCount f1 = length (df_queue f1)"
    using replace_effect [OF assms(1,2,4), of ks] assms(3,5) by auto
  have inv1: "df_inv f1" by (rule grows_inv [OF f1(1)])
  obtain ys where ys: "df_queue f1 @ ys = ps @ df_queue f" "df_populated f"
      "df_initialPopulationCount f = length (df_queue f1) - length ps"
    using df_run_fifo [OF assms(6) inv1] f1(2,3) by auto
  have "df_HasSynced f \<longleftrightarrow> length (df_queue f1) \<le> length ps" using ys(2,3) by (simp add: df_HasSynced_def)
  also have "\<dots> \<longleftrightarrow> set (df_queue f1) \<subseteq> set ps"
  proof
    assume "length (df_queue f1) \<le> length ps"
    then have "take (length (df_queue f1)) ps = df_queue f1"
      using arg_cong [OF ys(1), of "take (length (df_queue f1))"] by simp
    then show "set (df_queue f1) \<subseteq> set ps" by (metis set_take_subset)
  next
    assume "set (df_queue f1) \<subseteq> set ps"
    then have "card (set (df_queue f1)) \<le> card (set ps)" by (intro card_mono) simp_all
    moreover have "card (set (df_queue f1)) = length (df_queue f1)"
      using inv1 by (intro distinct_card) (simp add: df_inv_def)
    ultimately show "length (df_queue f1) \<le> length ps" using card_length [of ps] by linarith
  qed
  finally show ?thesis using ys(1) by blast
qed

end

text \<open>The object store as the consumer's store; the first component is the order in which its
  keys are listed.\<close>

definition store_inv :: "string list \<times> 'o obj cache \<Rightarrow> bool" where
  "store_inv s \<longleftrightarrow> range_order (fst s) (ts_items (c_cacheStorage (snd s)))"

definition store_keys :: "string list \<times> 'o obj cache \<Rightarrow> string list" where
  "store_keys s = ts_ListKeys (fst s) (c_cacheStorage (snd s))"

definition store_get :: "string list \<times> 'o obj cache \<Rightarrow> string \<Rightarrow> go_error + 'o obj option" where
  "store_get s = cache_GetByKey (snd s)"

interpretation object_store: key_lister_getter store_inv store_keys store_get
  by unfold_locales
    (auto simp: store_inv_def store_keys_def store_get_def ts_ListKeys_def cache_GetByKey_def ts_Get_def
      range_order_def)

abbreviation store_known :: "string list \<times> 'o obj cache \<Rightarrow> 'o known" where
  "store_known s \<equiv> known_of store_keys store_get s"

lemma store_gone: "object_store.gone_of s k = map_option Some (ts_items (c_cacheStorage (snd s)) k)"
  by (simp add: object_store.gone_of_def store_get_def cache_GetByKey_def ts_Get_def split: option.split)

section \<open>Properties\<close>

definition run_actions :: "'o DeltaFIFO \<Rightarrow> 'o Delta list \<Rightarrow> 'o DeltaFIFO" where
  "run_actions f evs = foldl (\<lambda>f e. fst (queueActionLocked f (fst e) (snd e))) f evs"

lemma run_actions_deltas:
  assumes "df_inv f" "\<forall>e \<in> set evs. KeyOf f (snd e) = Inr k"
  shows "df_inv (run_actions f evs) \<and> KeyOf (run_actions f evs) = KeyOf f \<and>
    deltas_of (run_actions f evs) k = foldl add_delta (deltas_of f k) evs"
  using assms(2)
proof (induction evs rule: rev_induct)
  case (snoc e evs)
  let ?g = "run_actions f evs"
  have IH: "df_inv ?g" "KeyOf ?g = KeyOf f" "deltas_of ?g k = foldl add_delta (deltas_of f k) evs"
    using snoc by simp_all
  have key: "KeyOf ?g (snd e) = Inr k" using snoc.prems IH(2) by simp
  obtain h where h: "queueActionLocked ?g (fst e) (snd e) = (h, None)" using queueAction_eq [OF key] by blast
  have eq: "run_actions f (evs @ [e]) = h" using h by (simp add: run_actions_def)
  have "grows ?g h" by (rule queueAction_grows [OF IH(1) h])
  then have "df_inv h" "KeyOf h = KeyOf f" using IH(2) KeyOf_cong [of h ?g] by (simp_all add: grows_def)
  moreover have "deltas_of h k = add_delta (deltas_of ?g k) e" using queueAction_deltas(2) [OF key h, of k] by simp
  ultimately show ?case using eq IH(3) by simp
qed (simp add: run_actions_def assms(1))

definition demo_key_of :: "string obj \<Rightarrow> go_error + string" where
  "demo_key_of obj = (case obj of Plain s \<Rightarrow> Inr s | _ \<Rightarrow> Inl (Errorf ''no key''))"

definition demo_fifo :: "string DeltaFIFO" where
  "demo_fifo = NewDeltaFIFOWithOptions demo_key_of True"

definition demo_known :: "string list \<times> string obj cache" where
  "demo_known = ([''b''],
     \<lparr>c_cacheStorage = \<lparr>ts_items = [''b'' \<mapsto> Plain ''b''], ts_indexers = Map.empty, ts_indices = Map.empty\<rparr>,
      c_keyFunc = demo_key_of\<rparr>)"

lemma demo_fifo_facts:
  "df_inv demo_fifo" "fresh demo_fifo" "keys_ok demo_fifo [Plain ''a'']" "store_inv demo_known"
  by (simp_all add: demo_fifo_def df_inv_new)
    (simp_all add: fresh_def NewDeltaFIFOWithOptions_def keys_ok_def KeyOf_def demo_key_of_def
      store_inv_def demo_known_def range_order_def)

text \<open>C22: in every state that the queue can reach, no key is queued twice, a key is queued exactly
  when it has pending deltas, and the deltas of a key are never empty; List does not panic, and
  Pop on a non-empty queue returns the deltas of the first key.\<close>

theorem df_reachable_inv:
  assumes "df_run (NewDeltaFIFOWithOptions keyFunc emit) ps f"
  shows "distinct (df_queue f) \<and> set (df_queue f) = dom (df_items f) \<and>
    (\<forall>k d. df_items f k \<noteq> Some []) \<and> (\<forall>ks. df_listLocked ks f \<noteq> None) \<and>
    (\<forall>process. case df_queue f of
        [] \<Rightarrow> df_Pop process f = (if df_closed f then Some (f, Inl ErrFIFOClosed) else None)
      | key # rest \<Rightarrow> \<exists>f' item err. df_Pop process f = Some (f', Inr (item, err)) \<and> df_items f key = Some item)"
proof -
  have inv: "df_inv f" using df_run_fifo [OF assms df_inv_new] by blast
  have "df_listLocked ks f \<noteq> None" for ks
  proof (induction ks)
    case (Cons k ks)
    have "df_items f k \<noteq> Some []" using inv by (auto simp: df_inv_def)
    then show ?case using Cons by (auto simp: Newest_def split: option.split)
  qed simp
  moreover have "case df_queue f of
        [] \<Rightarrow> df_Pop process f = (if df_closed f then Some (f, Inl ErrFIFOClosed) else None)
      | key # rest \<Rightarrow> \<exists>f' item err. df_Pop process f = Some (f', Inr (item, err)) \<and> df_items f key = Some item"
    for process
  proof (cases "df_queue f")
    case (Cons key rest)
    then show ?thesis using df_Pop_ok [OF inv Cons, of process] by auto
  qed (simp add: df_Pop_empty)
  ultimately show ?thesis using inv by (auto simp: df_inv_def)
qed

theorem df_reachable_inv_witness:
  "set (df_queue (fst (df_Add demo_fifo (Plain ''a'')))) = dom (df_items (fst (df_Add demo_fifo (Plain ''a''))))"
proof -
  have "df_step demo_fifo None (fst (df_Add demo_fifo (Plain ''a'')))"
    by (rule df_step.s_add [of _ _ _ "snd (df_Add demo_fifo (Plain ''a''))"]) simp
  then have "df_run demo_fifo [] (fst (df_Add demo_fifo (Plain ''a'')))"
    by (rule df_run.df_run_quiet) (rule df_run.df_run_nil)
  from df_reachable_inv [OF this [unfolded demo_fifo_def]] show ?thesis unfolding demo_fifo_def by blast
qed

text \<open>keys are popped in the order in which they were queued, and after the first Replace of a
  new queue HasSynced answers true exactly when every object that this call queued (the listed
  ones and the deletions it detected in the store) has been popped, whatever else happens in
  between.\<close>

theorem df_synced_when_popped:
  assumes "store_inv s" "keys_ok (NewDeltaFIFOWithOptions keyFunc emit) list"
    and "df_Replace ks (Some (store_known s)) (NewDeltaFIFOWithOptions keyFunc emit) list = (f1, None)"
    and "df_run f1 ps f"
  shows "(\<exists>ys. df_queue f1 @ ys = ps @ df_queue f) \<and> (df_HasSynced f \<longleftrightarrow> set (df_queue f1) \<subseteq> set ps)"
proof -
  have "fresh (NewDeltaFIFOWithOptions keyFunc emit)" by (simp add: fresh_def NewDeltaFIFOWithOptions_def)
  from object_store.synced_when_popped [OF assms(1) df_inv_new this assms(2-4)] show ?thesis .
qed

theorem df_synced_when_popped_witness:
  "\<exists>f1. df_Replace [] (Some (store_known demo_known)) demo_fifo [Plain ''a''] = (f1, None) \<and>
     (df_HasSynced f1 \<longleftrightarrow> set (df_queue f1) \<subseteq> set [])"
proof -
  obtain f1 where f1: "df_Replace [] (Some (store_known demo_known)) demo_fifo [Plain ''a''] = (f1, None)"
    using object_store.replace_effect [OF demo_fifo_facts(4,1,3), of "[]"] by blast
  from df_synced_when_popped [OF demo_fifo_facts(4) demo_fifo_facts(3) [unfolded demo_fifo_def]
      f1 [unfolded demo_fifo_def] df_run.df_run_nil]
  show ?thesis using f1 by blast
qed

text \<open>C23: the changes of an object queued since it was last consumed are delivered in order and
  without loss, except that a run of deletions is delivered as one, the last state being unknown
  only if no deletion of the run knew it.\<close>

theorem df_compresses_deletions:
  assumes "df_inv f" "df_items f k = None" "\<forall>e \<in> set evs. KeyOf f (snd e) = Inr k"
  shows "map fst (deltas_of (run_actions f evs) k) = merge_deleted (map fst evs) \<and>
    filter (\<lambda>d. fst d \<noteq> Deleted) (deltas_of (run_actions f evs) k) = filter (\<lambda>d. fst d \<noteq> Deleted) evs \<and>
    set (deltas_of (run_actions f evs) k) \<subseteq> set evs \<and>
    (evs \<noteq> [] \<and> fst (last evs) = Deleted \<and> is_unknown (snd (last (deltas_of (run_actions f evs) k))) \<longrightarrow>
      (\<forall>d \<in> set (takeWhile (\<lambda>d. fst d = Deleted) (rev evs)). is_unknown (snd d)))"
proof -
  have "deltas_of f k = []" using assms(2) by (simp add: deltas_of_def)
  then have "deltas_of (run_actions f evs) k = compress evs"
    using run_actions_deltas [OF assms(1,3)] by (simp add: compress_def)
  then show ?thesis
    using compress_types [of evs] compress_keeps_others [of evs] compress_subset [of evs] compress_known [of evs]
    by simp
qed

theorem df_compresses_deletions_witness:
  "map fst (deltas_of (run_actions demo_fifo
     [(Added, Plain ''a''), (Deleted, DeletedFinalStateUnknown ''a'' None), (Deleted, Plain ''a'')]) ''a'') =
   [Added, Deleted]"
  using df_compresses_deletions [OF demo_fifo_facts(1), of "''a''"
      "[(Added, Plain ''a''), (Deleted, DeletedFinalStateUnknown ''a'' None), (Deleted, Plain ''a'')]"]
  by (simp add: demo_fifo_def NewDeltaFIFOWithOptions_def KeyOf_def demo_key_of_def)

text \<open>C4: Replace queues, for every listed object, one Replaced or Sync delta in list order; for
  every stored object that is not listed, a deletion carrying the stored object as last known
  state; and it changes nothing else.\<close>

theorem df_replace_effect:
  assumes "store_inv s" "df_inv f" "keys_ok f list"
  shows "\<exists>f'. df_Replace ks (Some (store_known s)) f list = (f', None) \<and> df_inv f' \<and>
    (\<forall>k. deltas_of f' k =
      (if items_with f list k \<noteq> []
       then foldl add_delta (deltas_of f k)
              (map (Pair (if df_emitDeltaTypeReplaced f then Replaced else Sync)) (items_with f list k))
       else (case ts_items (c_cacheStorage (snd s)) k of
               None \<Rightarrow> deltas_of f k
             | Some x \<Rightarrow> add_delta (deltas_of f k) (Deleted, DeletedFinalStateUnknown k (Some x)))))"
  using object_store.replace_effect [OF assms, of ks]
  by (auto simp: replaced_deltas_def store_gone replace_action_def unknown_delta_def
      split: option.split dest: grows_inv)

theorem df_replace_effect_witness:
  "\<exists>f'. df_Replace [] (Some (store_known demo_known)) demo_fifo [Plain ''a''] = (f', None) \<and>
     deltas_of f' ''a'' = [(Replaced, Plain ''a'')] \<and>
     deltas_of f' ''b'' = [(Deleted, DeletedFinalStateUnknown ''b'' (Some (Plain ''b'')))]"
proof -
  obtain f' where f': "df_Replace [] (Some (store_known demo_known)) demo_fifo [Plain ''a''] = (f', None)"
    "\<And>k. deltas_of f' k =
      (if items_with demo_fifo [Plain ''a''] k \<noteq> []
       then foldl add_delta (deltas_of demo_fifo k)
              (map (Pair (if df_emitDeltaTypeReplaced demo_fifo then Replaced else Sync))
                (items_with demo_fifo [Plain ''a''] k))
       else (case ts_items (c_cacheStorage (snd demo_known)) k of
               None \<Rightarrow> deltas_of demo_fifo k
             | Some x \<Rightarrow> add_delta (deltas_of demo_fifo k) (Deleted, DeletedFinalStateUnknown k (Some x))))"
    using df_replace_effect [OF demo_fifo_facts(4,1,3), of "[]"] by blast
  moreover have e: "deltas_of demo_fifo k = []" for k
    by (simp add: deltas_of_def demo_fifo_def NewDeltaFIFOWithOptions_def)
  have d: "items_with demo_fifo [Plain ''a''] ''a'' = [Plain ''a'']" "items_with demo_fifo [Plain ''a''] ''b'' = []"
      "df_emitDeltaTypeReplaced demo_fifo" "ts_items (c_cacheStorage (snd demo_known)) ''b'' = Some (Plain ''b'')"
    by (simp_all add: items_with_def demo_fifo_def NewDeltaFIFOWithOptions_def KeyOf_def demo_key_of_def
        demo_known_def)
  have "deltas_of f' ''a'' = [(Replaced, Plain ''a'')]"
    "deltas_of f' ''b'' = [(Deleted, DeletedFinalStateUnknown ''b'' (Some (Plain ''b'')))]"
    by (simp_all add: f'(2) d e add_delta_def)
  ultimately show ?thesis by blast
qed

end
