(* ===== verification/Node_List.thy ===== *)
theory Node_List
  imports K8s_Prelude
begin

text \<open>
  The doubly linked list of \<open>pkg/scheduler/internal/cache/cache.go\<close> that keeps the cached nodes
  in the order of their last change. An item is created when its name enters the map \<open>nodes\<close>
  and unlinked when its name leaves it, so an item is addressed by its name; a write through a
  pointer whose item is no longer in the map has no effect on the map.

  The theory shows what moving an item to the head and unlinking it do to the list that the
  pointers spell out.
\<close>

record 'i nodeInfoListItem =
  li_info :: 'i
  li_next :: "string option"
  li_prev :: "string option"

definition newNodeInfoListItem :: "'i \<Rightarrow> 'i nodeInfoListItem" where
  "newNodeInfoListItem ni = \<lparr>li_info = ni, li_next = None, li_prev = None\<rparr>"

type_synonym 'i node_map = "string \<rightharpoonup> 'i nodeInfoListItem"

section \<open>Writing through pointers\<close>

definition set_next :: "'i node_map \<Rightarrow> string option \<Rightarrow> string option \<Rightarrow> 'i node_map" where
  "set_next m p v =
     (case p of
        None \<Rightarrow> m
      | Some a \<Rightarrow> (case m a of None \<Rightarrow> m | Some it \<Rightarrow> m(a \<mapsto> it\<lparr>li_next := v\<rparr>)))"

definition set_prev :: "'i node_map \<Rightarrow> string option \<Rightarrow> string option \<Rightarrow> 'i node_map" where
  "set_prev m p v =
     (case p of
        None \<Rightarrow> m
      | Some a \<Rightarrow> (case m a of None \<Rightarrow> m | Some it \<Rightarrow> m(a \<mapsto> it\<lparr>li_prev := v\<rparr>)))"

definition next_of :: "'i node_map \<Rightarrow> string \<Rightarrow> string option" where
  "next_of m a = (case m a of None \<Rightarrow> None | Some it \<Rightarrow> li_next it)"

definition prev_of :: "'i node_map \<Rightarrow> string \<Rightarrow> string option" where
  "prev_of m a = (case m a of None \<Rightarrow> None | Some it \<Rightarrow> li_prev it)"

text \<open>The two operations on the map and the head pointer. Each pointer is read when the code
  reads it; the conditionals on nil are those of \<^const>\<open>set_next\<close> and \<^const>\<open>set_prev\<close>.\<close>

definition list_move_to_head :: "'i node_map \<Rightarrow> string option \<Rightarrow> string \<Rightarrow> 'i node_map \<times> string option" where
  "list_move_to_head m head name =
     (if m name = None then (m, head)
      else if head = Some name then (m, head)
      else
        let m1 = set_next m (prev_of m name) (next_of m name);
            m2 = set_prev m1 (next_of m1 name) (prev_of m1 name);
            m3 = set_prev m2 head (Some name);
            m4 = set_next m3 (Some name) head;
            m5 = set_prev m4 (Some name) None in
        (m5, Some name))"

definition list_remove :: "'i node_map \<Rightarrow> string option \<Rightarrow> string \<Rightarrow> 'i node_map \<times> string option" where
  "list_remove m head name =
     (if m name = None then (m, head)
      else
        let m1 = set_next m (prev_of m name) (next_of m name);
            m2 = set_prev m1 (next_of m1 name) (prev_of m1 name);
            head' = (if head = Some name then next_of m2 name else head) in
        (m2(name := None), head'))"

section \<open>The list behind the pointers\<close>

text \<open>A segment from \<open>h\<close> to \<open>e\<close> whose first item points back to \<open>p\<close>.\<close>

fun seg :: "'i node_map \<Rightarrow> string option \<Rightarrow> string option \<Rightarrow> string list \<Rightarrow> string option \<Rightarrow> bool" where
  "seg m p h [] e \<longleftrightarrow> h = e"
| "seg m p h (x # xs) e \<longleftrightarrow>
     h = Some x \<and> (\<exists>it. m x = Some it \<and> li_prev it = p \<and> seg m (Some x) (li_next it) xs e)"

definition last_or :: "string option \<Rightarrow> string list \<Rightarrow> string option" where
  "last_or p xs = (if xs = [] then p else Some (last xs))"

definition head_or :: "string option \<Rightarrow> string list \<Rightarrow> string option" where
  "head_or e xs = (case xs of [] \<Rightarrow> e | x # _ \<Rightarrow> Some x)"

definition dll :: "'i node_map \<Rightarrow> string option \<Rightarrow> string list \<Rightarrow> bool" where
  "dll m h xs \<longleftrightarrow> seg m None h xs None \<and> distinct xs"

lemma last_or_simps [simp]: "last_or p [] = p" "last_or p (xs @ [x]) = Some x" "last_or (Some y) (x # xs) = last_or (Some x) xs"
  "last_or None (x # xs) = last_or (Some x) xs"
  by (simp_all add: last_or_def)

lemma seg_append: "seg m p h (xs @ ys) e \<longleftrightarrow> (\<exists>k. seg m p h xs k \<and> seg m (last_or p xs) k ys e)"
proof (induction xs arbitrary: p h)
  case (Cons x xs)
  have "last_or (Some x) xs = last_or p (x # xs)" by (cases p) simp_all
  then show ?case using Cons by auto
qed simp

lemma seg_head: "seg m p h xs e \<Longrightarrow> h = head_or e xs"
  by (cases xs) (simp_all add: head_or_def)

lemma seg_dom: "seg m p h xs e \<Longrightarrow> set xs \<subseteq> dom m"
  by (induction xs arbitrary: p h) auto

text \<open>Two maps that agree on the pointers of a segment agree on the segment.\<close>

lemma seg_cong:
  assumes "\<And>x. x \<in> set xs \<Longrightarrow> next_of m' x = next_of m x \<and> prev_of m' x = prev_of m x \<and> (m' x = None \<longleftrightarrow> m x = None)"
  shows "seg m' p h xs e \<longleftrightarrow> seg m p h xs e"
  using assms
proof (induction xs arbitrary: p h)
  case (Cons x xs)
  have "next_of m' x = next_of m x" "prev_of m' x = prev_of m x" "m' x = None \<longleftrightarrow> m x = None"
    using Cons.prems by auto
  then have "(\<exists>it. m' x = Some it \<and> li_prev it = p \<and> seg m (Some x) (li_next it) xs e) \<longleftrightarrow>
      (\<exists>it. m x = Some it \<and> li_prev it = p \<and> seg m (Some x) (li_next it) xs e)"
    by (auto simp: next_of_def prev_of_def split: option.splits)
  then show ?case using Cons by simp
qed simp

lemma ptr_upd:
  "m a \<noteq> None \<Longrightarrow> next_of (set_next m (Some a) v) x = (if x = a then v else next_of m x)"
  "prev_of (set_next m p v) x = prev_of m x"
  "next_of (set_prev m p v) x = next_of m x"
  "m a \<noteq> None \<Longrightarrow> prev_of (set_prev m (Some a) v) x = (if x = a then v else prev_of m x)"
  "set_next m None v = m" "set_prev m None v = m"
  "set_next m p v x = None \<longleftrightarrow> m x = None"
  "set_prev m p v x = None \<longleftrightarrow> m x = None"
  by (auto simp: next_of_def prev_of_def set_next_def set_prev_def split: option.splits)

lemma info_upd [simp]:
  "map_option li_info (set_next m p v x) = map_option li_info (m x)"
  "map_option li_info (set_prev m p v x) = map_option li_info (m x)"
  by (auto simp: set_next_def set_prev_def split: option.splits)

lemma seg_iff:
  "seg m p h xs e \<longleftrightarrow> h = head_or e xs \<and> set xs \<subseteq> dom m \<and>
     (\<forall>ys x zs. xs = ys @ x # zs \<longrightarrow> next_of m x = head_or e zs \<and> prev_of m x = last_or p ys)"
proof (induction xs arbitrary: p h)
  case (Cons a xs)
  have split: "(\<forall>ys x zs. a # xs = ys @ x # zs \<longrightarrow> Q ys x zs) \<longleftrightarrow>
      Q [] a xs \<and> (\<forall>ys x zs. xs = ys @ x # zs \<longrightarrow> Q (a # ys) x zs)" for Q
    by (auto simp: Cons_eq_append_conv)
  have lo: "last_or p (a # ys) = last_or (Some a) ys" for ys by (cases p) simp_all
  show ?case
    unfolding split lo
    by (auto simp: Cons.IH next_of_def prev_of_def head_or_def domIff)
qed (simp add: head_or_def)

lemma head_or_simps [simp]: "head_or e [] = e" "head_or e (x # xs) = Some x"
  by (simp_all add: head_or_def)

lemma last_or_nonempty: "xs \<noteq> [] \<Longrightarrow> last_or p xs = Some (last xs)"
  by (simp add: last_or_def)

lemma head_or_nonempty: "xs \<noteq> [] \<Longrightarrow> head_or e xs = Some (hd xs)"
  by (cases xs) simp_all

lemma set_prev_head:
  "set zs \<subseteq> dom m \<Longrightarrow> prev_of (set_prev m (head_or None zs) v) x = (if zs \<noteq> [] \<and> x = hd zs then v else prev_of m x)"
  by (cases zs) (auto simp: ptr_upd domIff)

lemma set_next_last:
  "set ys \<subseteq> dom m \<Longrightarrow> next_of (set_next m (last_or None ys) v) x = (if ys \<noteq> [] \<and> x = last ys then v else next_of m x)"
proof (cases "ys = []")
  case False
  moreover assume "set ys \<subseteq> dom m"
  ultimately have "m (last ys) \<noteq> None" using last_in_set by blast
  then show ?thesis using False by (simp add: last_or_def ptr_upd)
qed (simp add: ptr_upd)

lemma dom_ptr_upd [simp]: "dom (set_next m p v) = dom m" "dom (set_prev m p v) = dom m"
  by (simp_all add: dom_def ptr_upd(7,8))

lemma dll_parts:
  assumes "dll m h (ys @ x # zs)"
  shows "prev_of m x = last_or None ys" "next_of m x = head_or None zs" "h = head_or (Some x) ys"
    "set ys \<subseteq> dom m" "set zs \<subseteq> dom m" "m x \<noteq> None" "x \<notin> set ys" "x \<notin> set zs" "set ys \<inter> set zs = {}"
    "distinct ys" "distinct zs"
    "seg m None h ys (Some x)" "seg m (Some x) (head_or None zs) zs None"
proof -
  have s: "seg m None h (ys @ x # zs) None" and d: "distinct (ys @ x # zs)" using assms by (simp_all add: dll_def)
  obtain k where k: "seg m None h ys k" "seg m (last_or None ys) k (x # zs) None" using s seg_append by blast
  then show "prev_of m x = last_or None ys" "next_of m x = head_or None zs" "m x \<noteq> None"
    using seg_head by (fastforce simp: prev_of_def next_of_def)+
  have kx: "k = Some x" using k(2) by simp
  show "seg m None h ys (Some x)" using k kx by simp
  show "h = head_or (Some x) ys" using seg_head [OF k(1)] kx by simp
  show "set ys \<subseteq> dom m" using seg_dom [OF k(1)] .
  show "seg m (Some x) (head_or None zs) zs None" using k(2) seg_head by fastforce
  then show "set zs \<subseteq> dom m" by (rule seg_dom)
  show "x \<notin> set ys" "x \<notin> set zs" "set ys \<inter> set zs = {}" "distinct ys" "distinct zs" using d by auto
qed

lemma seg_ends: "seg m p h xs e \<Longrightarrow> xs \<noteq> [] \<Longrightarrow> prev_of m (hd xs) = p \<and> next_of m (last xs) = e"
  unfolding seg_iff by (metis append_Nil append_butlast_last_id head_or_simps(1) last_or_simps(1) list.collapse)

text \<open>A segment survives a change of the pointers at its two ends.\<close>

lemma seg_change_ends:
  assumes s: "seg m p h ys e" and d: "distinct ys" and dom: "set ys \<subseteq> dom m'"
    and n: "\<And>y. y \<in> set ys \<Longrightarrow> y \<noteq> last ys \<Longrightarrow> next_of m' y = next_of m y"
    and p: "\<And>y. y \<in> set ys \<Longrightarrow> y \<noteq> hd ys \<Longrightarrow> prev_of m' y = prev_of m y"
    and ln: "ys \<noteq> [] \<Longrightarrow> next_of m' (last ys) = e'" and fp: "ys \<noteq> [] \<Longrightarrow> prev_of m' (hd ys) = p'"
  shows "seg m' p' (head_or e' ys) ys e'"
  unfolding seg_iff
proof (intro conjI allI impI)
  fix us y vs assume ys: "ys = us @ y # vs"
  have o: "next_of m y = head_or e vs" "prev_of m y = last_or p us" using s ys unfolding seg_iff by blast+
  show "next_of m' y = head_or e' vs"
  proof (cases "vs = []")
    case True
    then show ?thesis using ln ys by simp
  next
    case False
    then have "y \<noteq> last ys" using ys d by auto
    then show ?thesis using n [of y] ys o(1) False by (simp add: head_or_nonempty)
  qed
  show "prev_of m' y = last_or p' us"
  proof (cases "us = []")
    case True
    then show ?thesis using fp ys by simp
  next
    case False
    then have "y \<noteq> hd ys" using ys d by (cases us) auto
    then show ?thesis using p [of y] ys o(2) False by (simp add: last_or_nonempty)
  qed
qed (simp_all add: dom)

lemma dll_join:
  assumes "seg m None h ys (head_or None zs)" "seg m (last_or None ys) (head_or None zs) zs None" "distinct (ys @ zs)"
  shows "dll m h (ys @ zs)"
  using assms unfolding dll_def seg_append by blast

lemma list_remove_dll:
  assumes "dll m h (ys @ x # zs)"
  shows "\<exists>m' h'. list_remove m h x = (m', h') \<and> dll m' h' (ys @ zs) \<and> dom m' = dom m - {x} \<and>
    (\<forall>y. y \<noteq> x \<longrightarrow> map_option li_info (m' y) = map_option li_info (m y))"
proof -
  note d = dll_parts [OF assms]
  define m1 where "m1 = set_next m (last_or None ys) (head_or None zs)"
  define m2 where "m2 = set_prev m1 (head_or None zs) (last_or None ys)"
  define m' where "m' = m2(x := None)"
  have nx1: "next_of m1 x = head_or None zs" "prev_of m1 x = last_or None ys"
    using d by (auto simp: m1_def set_next_last ptr_upd)
  have nx2: "next_of m2 x = head_or None zs" using nx1 by (simp add: m2_def ptr_upd)
  define h' where "h' = head_or (head_or None zs) ys"
  have hx: "(if h = Some x then head_or None zs else h) = h'"
    using d(3,7) unfolding h'_def by (cases ys) auto
  have run: "list_remove m h x = (m', h')"
    using d(6) hx
    by (auto simp: list_remove_def Let_def d(1,2) m1_def [symmetric] nx1 m2_def [symmetric] nx2 m'_def split: if_splits)
  have dm: "dom m' = dom m - {x}" by (auto simp: m'_def m2_def m1_def)
  have dz: "set zs \<subseteq> dom m1" using d(5) by (simp add: m1_def)
  have nm: "next_of m' y = (if ys \<noteq> [] \<and> y = last ys then head_or None zs else next_of m y)"
    "prev_of m' y = (if zs \<noteq> [] \<and> y = hd zs then last_or None ys else prev_of m y)" if "y \<noteq> x" for y
    using that d(4) set_next_last [OF d(4)] set_prev_head [OF dz]
    by (simp_all add: m'_def next_of_def prev_of_def fun_upd_def) 
      (simp_all add: m2_def m1_def ptr_upd next_of_def [symmetric] prev_of_def [symmetric])
  have ny: "y \<noteq> x \<and> \<not> (zs \<noteq> [] \<and> y = hd zs)" if "y \<in> set ys" for y
    using that d(7,9) by (metis disjoint_iff list.set_sel(1))
  have nz: "y \<noteq> x \<and> \<not> (ys \<noteq> [] \<and> y = last ys)" if "y \<in> set zs" for y
    using that d(8,9) by (metis disjoint_iff last_in_set)
  have s1: "seg m' None h' ys (head_or None zs)"
    unfolding h'_def
  proof (rule seg_change_ends [OF d(12,10)])
    show "set ys \<subseteq> dom m'" using d(4,7) dm by auto
    show "prev_of m' (hd ys) = None" if "ys \<noteq> []"
      using that nm(2) ny [of "hd ys"] seg_ends [OF d(12) that] by auto
  qed (use nm ny in auto)
  have s2: "seg m' (last_or None ys) (head_or None zs) zs None"
  proof (rule seg_change_ends [OF d(13,11)])
    show "set zs \<subseteq> dom m'" using d(5,8) dm by auto
    show "next_of m' (last zs) = None" if "zs \<noteq> []"
      using that nm(1) nz [of "last zs"] seg_ends [OF d(13) that] by auto
    show "prev_of m' (hd zs) = last_or None ys" if "zs \<noteq> []"
      using that nm(2) nz [of "hd zs"] by auto
  qed (use nm nz in auto)
  have "dll m' h' (ys @ zs)" using s1 s2 d(9,10,11) by (intro dll_join) auto
  moreover have "map_option li_info (m' y) = map_option li_info (m y)" if "y \<noteq> x" for y
    using that by (simp add: m'_def m2_def m1_def)
  ultimately show ?thesis using run dm by blast
qed


text \<open>Linking an unlinked item in front.\<close>

lemma dll_push:
  assumes d: "dll m h xs" and x: "x \<notin> set xs" "m x \<noteq> None"
  shows "dll (set_prev (set_next (set_prev m h (Some x)) (Some x) h) (Some x) None) (Some x) (x # xs)"
proof -
  let ?m = "set_prev (set_next (set_prev m h (Some x)) (Some x) h) (Some x) None"
  have s: "seg m None h xs None" and dis: "distinct xs" using d by (simp_all add: dll_def)
  have h: "h = head_or None xs" using seg_head [OF s] .
  have dm: "set xs \<subseteq> dom m" using seg_dom [OF s] .
  have mx: "set_prev m h (Some x) x \<noteq> None" "set_next (set_prev m h (Some x)) (Some x) h x \<noteq> None"
    using x(2) by (simp_all add: ptr_upd)
  have nm: "next_of ?m y = (if y = x then h else next_of m y)"
    "prev_of ?m y = (if y = x then None else if xs \<noteq> [] \<and> y = hd xs then Some x else prev_of m y)" for y
    using mx set_prev_head [OF dm, of "Some x" y] unfolding h by (simp_all add: ptr_upd)
  have "seg ?m (Some x) (head_or None xs) xs None"
  proof (rule seg_change_ends [OF s dis])
    show "set xs \<subseteq> dom ?m" using dm by simp
    show "next_of ?m (last xs) = None" if "xs \<noteq> []"
      using nm(1) [of "last xs"] seg_ends [OF s that] x(1) that last_in_set by metis
    show "prev_of ?m (hd xs) = Some x" if "xs \<noteq> []"
      using nm(2) [of "hd xs"] x(1) that by (metis list.set_sel(1))
    show "next_of ?m y = next_of m y" if "y \<in> set xs" for y using nm(1) [of y] that x(1) by metis
    show "prev_of ?m y = prev_of m y" if "y \<in> set xs" "y \<noteq> hd xs" for y using nm(2) [of y] that x(1) by metis
  qed
  moreover have "?m x \<noteq> None" using x(2) by (simp add: ptr_upd)
  ultimately have "seg ?m None (Some x) (x # xs) None"
    using nm(1) [of x] nm(2) [of x] h by (auto simp: next_of_def prev_of_def split: option.splits)
  then show ?thesis using dis x(1) by (simp add: dll_def)
qed

lemma dll_upd_other:
  assumes "x \<notin> set xs"
  shows "dll (m(x := v)) h xs \<longleftrightarrow> dll m h xs"
proof -
  have "seg (m(x := v)) None h xs None \<longleftrightarrow> seg m None h xs None"
    by (rule seg_cong) (use assms in \<open>auto simp: next_of_def prev_of_def\<close>)
  then show ?thesis by (simp add: dll_def)
qed

text \<open>Moving to the head: a linked item changes its place, a new one is linked in front.\<close>

lemma list_move_to_head_dll:
  assumes x: "m x \<noteq> None" and cases: "dll m h xs \<and> x \<in> set xs \<or> dll m h xs \<and> x \<notin> set xs \<and> next_of m x = None \<and> prev_of m x = None"
  shows "\<exists>m'. list_move_to_head m h x = (m', Some x) \<and> dll m' (Some x) (x # remove1 x xs) \<and> dom m' = dom m \<and>
    (\<forall>y. map_option li_info (m' y) = map_option li_info (m y))"
proof (cases "h = Some x")
  case True
  have "dll m h xs" using cases by blast
  then have "xs \<noteq> []" "hd xs = x" using True seg_head [of m None h xs None]
    by (cases xs; simp add: dll_def)+
  then have "xs = x # remove1 x xs" by (cases xs) auto
  then show ?thesis using x True \<open>dll m h xs\<close> by (auto simp: list_move_to_head_def)
next
  case ne: False
  define m1 where "m1 = set_next m (prev_of m x) (next_of m x)"
  define m2 where "m2 = set_prev m1 (next_of m1 x) (prev_of m1 x)"
  define m5 where "m5 = set_prev (set_next (set_prev m2 h (Some x)) (Some x) h) (Some x) None"
  have run: "list_move_to_head m h x = (m5, Some x)"
    using x ne by (simp add: list_move_to_head_def Let_def m1_def m2_def m5_def)
  have x2: "m2 x \<noteq> None" using x by (simp add: m2_def m1_def ptr_upd)
  have d2: "dll m2 h (remove1 x xs)" and x_notin: "x \<notin> set (remove1 x xs)"
  proof -
    show "x \<notin> set (remove1 x xs)" using cases by (auto simp: dll_def)
    show "dll m2 h (remove1 x xs)"
    proof (cases "x \<in> set xs")
      case False
      then have "m2 = m" using cases by (simp add: m1_def m2_def ptr_upd)
      then show ?thesis using False cases by (simp add: remove1_idem)
    next
      case True
      then obtain ys zs where xs: "xs = ys @ x # zs" "x \<notin> set ys" by (meson split_list_first)
      have dl: "dll m h (ys @ x # zs)" using cases True xs by blast
      obtain m' h' where r: "list_remove m h x = (m', h')" "dll m' h' (ys @ zs)" using list_remove_dll [OF dl] by blast
      have "m' = m2(x := None)" "h' = h" using r(1) x ne by (auto simp: list_remove_def Let_def m1_def m2_def split: if_splits)
      then have "dll (m2(x := None)) h (ys @ zs)" using r(2) by simp
      moreover have "x \<notin> set (ys @ zs)" using dl by (auto simp: dll_def)
      ultimately have "dll m2 h (ys @ zs)" using dll_upd_other by blast
      then show ?thesis using xs by (simp add: remove1_append)
    qed
  qed
  have "dll m5 (Some x) (x # remove1 x xs)" unfolding m5_def using d2 x_notin x2 by (rule dll_push)
  moreover have "dom m5 = dom m" by (simp add: m5_def m2_def m1_def)
  moreover have "map_option li_info (m5 y) = map_option li_info (m y)" for y by (simp add: m5_def m2_def m1_def)
  ultimately show ?thesis using run by blast
qed

end
