(* ===== verification/Api_Types.thy ===== *)
theory Api_Types
  imports K8s_Prelude
begin

text \<open>
  The parts of the API objects that the modelled components read
  (\<open>staging/src/k8s.io/api/core/v1/types.go\<close>, and the label selectors of
  \<open>staging/src/k8s.io/apimachinery/pkg/apis/meta/v1/types.go\<close>). A pointer to a struct is an
  \<open>option\<close>, a slice a list. A quantity is what the two accessors that the scheduler uses return,
  \<open>Value()\<close> and \<open>MilliValue()\<close>, as 64-bit words. Taint effects and toleration operators are the
  strings of the API; the operators of selectors are datatypes with a constructor for unknown ones.
\<close>

section \<open>Label selectors\<close>

datatype LabelSelectorOperator = LabelSelectorOpIn | LabelSelectorOpNotIn | LabelSelectorOpExists | LabelSelectorOpDoesNotExist
  | OtherLabelSelectorOp string

record LabelSelectorRequirement =
  lr_Key :: string
  lr_Operator :: LabelSelectorOperator
  lr_Values :: "string list"

record LabelSelector =
  sl_MatchLabels :: "string \<rightharpoonup> string"
  sl_MatchExpressions :: "LabelSelectorRequirement list"

section \<open>Affinity, taints and tolerations\<close>

record PodAffinityTerm =
  pt_LabelSelector :: "LabelSelector option"
  pt_Namespaces :: "string list"
  pt_TopologyKey :: string
  pt_NamespaceSelector :: "LabelSelector option"

record WeightedPodAffinityTerm =
  wp_Weight :: int
  wp_PodAffinityTerm :: PodAffinityTerm

record podAffinity =
  pa_Required :: "PodAffinityTerm list"
  pa_Preferred :: "WeightedPodAffinityTerm list"

datatype NodeSelectorOperator = NodeSelectorOpIn | NodeSelectorOpNotIn | NodeSelectorOpExists | NodeSelectorOpDoesNotExist
  | NodeSelectorOpGt | NodeSelectorOpLt | OtherNodeSelectorOp string

record NodeSelectorRequirement =
  nr_Key :: string
  nr_Operator :: NodeSelectorOperator
  nr_Values :: "string list"

record NodeSelectorTerm =
  nt_MatchExpressions :: "NodeSelectorRequirement list"
  nt_MatchFields :: "NodeSelectorRequirement list"

record PreferredSchedulingTerm =
  ps_Weight :: int
  ps_Preference :: NodeSelectorTerm

record nodeAffinity =
  na_Required :: "NodeSelectorTerm list option"
  na_Preferred :: "PreferredSchedulingTerm list"

record affinity =
  af_NodeAffinity :: "nodeAffinity option"
  af_PodAffinity :: "podAffinity option"
  af_PodAntiAffinity :: "podAffinity option"

record Taint =
  ta_Key :: string
  ta_Value :: string
  ta_Effect :: string

record Toleration =
  to_Key :: string
  to_Operator :: string
  to_Value :: string
  to_Effect :: string
  to_TolerationSeconds :: "int option"

section \<open>Pods\<close>

record quantity =
  q_Value :: "64 word"
  q_MilliValue :: "64 word"

text \<open>A resource list is the list of its entries in the order a loop visits them.\<close>

type_synonym ResourceList = "(string \<times> quantity) list"

record containerPort =
  cp_HostIP :: string
  cp_Protocol :: string
  cp_HostPort :: int

record container =
  co_Requests :: ResourceList
  co_Ports :: "containerPort list"

record PodCondition =
  pc_Type :: string
  pc_Status :: string
  pc_LastProbeTime :: int
  pc_LastTransitionTime :: int
  pc_Reason :: string
  pc_Message :: string

text \<open>\<open>p_Annotations\<close> stands for annotations, managed fields and finalizers, \<open>p_Rest\<close> for the other fields of metadata and specification and \<open>p_Status\<close> for the
  other fields of the status; the models only compare them.\<close>

record pod =
  p_UID :: string
  p_Name :: string
  p_Namespace :: string
  p_Labels :: "string \<rightharpoonup> string"
  p_NodeName :: string
  p_NodeSelector :: "string \<rightharpoonup> string"
  p_Tolerations :: "Toleration list"
  p_NominatedNodeName :: string
  p_Priority :: "int option"
  p_Containers :: "container list"
  p_InitContainers :: "container list"
  p_Overhead :: "ResourceList option"
  p_Affinity :: "affinity option"
  p_ResourceVersion :: string
  p_Generation :: int
  p_SchedulerName :: string
  p_DeletionTimestamp :: "int option"
  p_Annotations :: string
  p_Rest :: string
  p_Conditions :: "PodCondition list"
  p_Status :: string

section \<open>Nodes\<close>

record containerImage =
  ci_Names :: "string list"
  ci_SizeBytes :: int

record node =
  n_Name :: string
  n_Labels :: "string \<rightharpoonup> string"
  n_Unschedulable :: bool
  n_Taints :: "Taint list"
  n_Allocatable :: ResourceList
  n_Images :: "containerImage list"
  n_Conditions :: "(string \<times> string) list"

end
