(* ===== verification/Regexp.thy ===== *)
theory Regexp
  imports K8s_Prelude "HOL-Library.Char_ord"
begin

text \<open>
  The part of Go's \<open>regexp\<close> package that the name validation uses: compiling an expression
  made of literal characters, escapes, character classes, groups and the postfix operators
  \<open>*\<close>, \<open>+\<close> and \<open>?\<close>, and \<open>MatchString\<close> on it. The matcher takes derivatives; it is shown to
  decide membership in the language of the expression. Strings are byte strings; every class
  in use holds ASCII characters only, so bytes and runes agree on what matches.
\<close>

section \<open>Expressions and their languages\<close>

datatype rexp =
    Zero
  | Eps
  | Cls "(char \<times> char) list"
  | Seq rexp rexp
  | Alt rexp rexp
  | Star rexp

definition in_class :: "(char \<times> char) list \<Rightarrow> char \<Rightarrow> bool" where
  "in_class rs c \<longleftrightarrow> (\<exists>r\<in>set rs. fst r \<le> c \<and> c \<le> snd r)"

inductive_set star_lang :: "string set \<Rightarrow> string set" for L where
  star_Nil: "[] \<in> star_lang L"
| star_step: "u \<in> L \<Longrightarrow> v \<in> star_lang L \<Longrightarrow> u @ v \<in> star_lang L"

fun lang :: "rexp \<Rightarrow> string set" where
  "lang Zero = {}"
| "lang Eps = {[]}"
| "lang (Cls rs) = {[c] |c. in_class rs c}"
| "lang (Seq r s) = {u @ v |u v. u \<in> lang r \<and> v \<in> lang s}"
| "lang (Alt r s) = lang r \<union> lang s"
| "lang (Star r) = star_lang (lang r)"

fun nullable :: "rexp \<Rightarrow> bool" where
  "nullable Zero \<longleftrightarrow> False"
| "nullable Eps \<longleftrightarrow> True"
| "nullable (Cls rs) \<longleftrightarrow> False"
| "nullable (Seq r s) \<longleftrightarrow> nullable r \<and> nullable s"
| "nullable (Alt r s) \<longleftrightarrow> nullable r \<or> nullable s"
| "nullable (Star r) \<longleftrightarrow> True"

fun deriv :: "char \<Rightarrow> rexp \<Rightarrow> rexp" where
  "deriv c Zero = Zero"
| "deriv c Eps = Zero"
| "deriv c (Cls rs) = (if in_class rs c then Eps else Zero)"
| "deriv c (Seq r s) = (if nullable r then Alt (Seq (deriv c r) s) (deriv c s) else Seq (deriv c r) s)"
| "deriv c (Alt r s) = Alt (deriv c r) (deriv c s)"
| "deriv c (Star r) = Seq (deriv c r) (Star r)"

definition matches :: "rexp \<Rightarrow> string \<Rightarrow> bool" where
  "matches r s = nullable (foldl (\<lambda>q c. deriv c q) r s)"

lemma nullable_lang: "nullable r \<longleftrightarrow> [] \<in> lang r"
  by (induction r) (auto intro: star_Nil)

lemma star_lang_Cons: "c # s \<in> star_lang L \<longleftrightarrow> (\<exists>u v. s = u @ v \<and> c # u \<in> L \<and> v \<in> star_lang L)"
proof
  have "\<exists>u v. s = u @ v \<and> c # u \<in> L \<and> v \<in> star_lang L" if "w \<in> star_lang L" "w = c # s" for w
    using that
  proof (induction w arbitrary: s rule: star_lang.induct)
    case (star_step u v)
    then show ?case by (cases u) auto
  qed simp
  then show "c # s \<in> star_lang L \<Longrightarrow> \<exists>u v. s = u @ v \<and> c # u \<in> L \<and> v \<in> star_lang L" by blast
next
  assume "\<exists>u v. s = u @ v \<and> c # u \<in> L \<and> v \<in> star_lang L"
  then obtain u v where "s = u @ v" "c # u \<in> L" "v \<in> star_lang L" by blast
  then show "c # s \<in> star_lang L" using star_step [of "c # u" L v] by simp
qed

lemma deriv_lang: "s \<in> lang (deriv c r) \<longleftrightarrow> c # s \<in> lang r"
proof (induction r arbitrary: s)
  case (Seq r1 r2)
  have "c # s \<in> lang (Seq r1 r2) \<longleftrightarrow>
      (\<exists>u v. s = u @ v \<and> c # u \<in> lang r1 \<and> v \<in> lang r2) \<or> ([] \<in> lang r1 \<and> c # s \<in> lang r2)"
    by (auto simp: Cons_eq_append_conv)
  then show ?case using Seq by (auto simp: nullable_lang)
next
  case (Star r)
  then show ?case by (auto simp: star_lang_Cons)
qed auto

theorem matches_lang: "matches r s \<longleftrightarrow> s \<in> lang r"
  unfolding matches_def by (induction s arbitrary: r) (simp_all add: nullable_lang deriv_lang)

section \<open>Compiling the textual form\<close>

text \<open>The inside of a bracket expression, after the opening bracket.\<close>

fun parse_class :: "string \<Rightarrow> ((char \<times> char) list \<times> string) option" where
  "parse_class [] = None"
| "parse_class (c # s) =
     (if c = CHR '']'' then Some ([], s)
      else if c = CHR 0x5C then
        (case s of [] \<Rightarrow> None | d # s' \<Rightarrow> map_option (apfst (Cons (d, d))) (parse_class s'))
      else
        (case s of
           m # d # s' \<Rightarrow>
             (if m = CHR ''-'' \<and> d \<noteq> CHR '']'' then map_option (apfst (Cons (c, d))) (parse_class s')
              else map_option (apfst (Cons (c, c))) (parse_class s))
         | _ \<Rightarrow> map_option (apfst (Cons (c, c))) (parse_class s)))"

definition parse_postfix :: "rexp \<Rightarrow> string \<Rightarrow> rexp \<times> string" where
  "parse_postfix r s =
     (case s of
        [] \<Rightarrow> (r, s)
      | c # s' \<Rightarrow>
          (if c = CHR ''*'' then (Star r, s')
           else if c = CHR ''+'' then (Seq r (Star r), s')
           else if c = CHR ''?'' then (Alt r Eps, s')
           else (r, s)))"

text \<open>A sequence of items up to the end or to a closing parenthesis; the first argument bounds
  the recursion and the length of the text is always enough. Operators outside the fragment
  give \<^term>\<open>None\<close>.\<close>

fun parse_seq :: "nat \<Rightarrow> string \<Rightarrow> (rexp \<times> string) option" where
  "parse_seq 0 s = None"
| "parse_seq (Suc n) [] = Some (Eps, [])"
| "parse_seq (Suc n) (c # s) =
     (if c = CHR '')'' then Some (Eps, c # s)
      else
        do {
          (atom, s1) \<leftarrow>
            (if c = CHR ''('' then
               do {
                 (r, s') \<leftarrow> parse_seq n s;
                 (case s' of [] \<Rightarrow> None | _ # s'' \<Rightarrow> Some (r, s''))
               }
             else if c = CHR ''['' then map_option (apfst Cls) (parse_class s)
             else if c = CHR 0x5C then (case s of [] \<Rightarrow> None | d # s' \<Rightarrow> Some (Cls [(d, d)], s'))
             else if c \<in> set ''|.{}^$*+?'' then None
             else Some (Cls [(c, c)], s));
          let (item, s2) = parse_postfix atom s1;
          (rest, s3) \<leftarrow> parse_seq n s2;
          Some (if rest = Eps then item else Seq item rest, s3)
        })"

definition regexp_compile :: "string \<Rightarrow> rexp option" where
  "regexp_compile fmt =
     (case parse_seq (Suc (length fmt)) fmt of Some (r, []) \<Rightarrow> Some r | _ \<Rightarrow> None)"

text \<open>\<open>regexp.MustCompile("^" + fmt + "$").MatchString(s)\<close>, and the unanchored form. That the
  expressions in use compile is part of the facts below each of them.\<close>

definition match_full :: "string \<Rightarrow> string \<Rightarrow> bool" where
  "match_full fmt s = matches (the (regexp_compile fmt)) s"

definition match_part :: "string \<Rightarrow> string \<Rightarrow> bool" where
  "match_part fmt s =
     matches (Seq (Star (Cls [(CHR 0x00, CHR 0xFF)])) (Seq (the (regexp_compile fmt)) (Star (Cls [(CHR 0x00, CHR 0xFF)])))) s"

section \<open>Languages of the usual shapes\<close>

lemma star_Cls: "s \<in> lang (Star (Cls B)) \<longleftrightarrow> (\<forall>c\<in>set s. in_class B c)"
  by (induction s) (auto simp: star_Nil star_lang_Cons)

lemma lang_Seq: "s \<in> lang (Seq p q) \<longleftrightarrow> (\<exists>u v. s = u @ v \<and> u \<in> lang p \<and> v \<in> lang q)"
  by simp

lemma lang_Seq_assoc: "lang (Seq p (Seq q r)) = lang (Seq (Seq p q) r)"
  by auto (metis append.assoc)+

lemma lang_Star_Cons: "c # s \<in> lang (Star r) \<longleftrightarrow> (\<exists>u v. s = u @ v \<and> c # u \<in> lang r \<and> v \<in> lang (Star r))"
  by (simp add: star_lang_Cons)

lemma Cls_Seq: "s \<in> lang (Seq (Cls A) r) \<longleftrightarrow> (\<exists>c t. s = c # t \<and> in_class A c \<and> t \<in> lang r)"
proof
  assume "\<exists>c t. s = c # t \<and> in_class A c \<and> t \<in> lang r"
  then obtain c t where "s = [c] @ t" "[c] \<in> lang (Cls A)" "t \<in> lang r" by auto
  then show "s \<in> lang (Seq (Cls A) r)" unfolding lang_Seq by blast
qed auto

lemma Seq_Cls: "s \<in> lang (Seq r (Cls A)) \<longleftrightarrow> (\<exists>c t. s = t @ [c] \<and> t \<in> lang r \<and> in_class A c)"
proof
  assume "\<exists>c t. s = t @ [c] \<and> t \<in> lang r \<and> in_class A c"
  then obtain c t where "s = t @ [c]" "[c] \<in> lang (Cls A)" "t \<in> lang r" by auto
  then show "s \<in> lang (Seq r (Cls A))" unfolding lang_Seq by blast
qed auto

lemma lang_Alt_Eps: "s \<in> lang (Alt r Eps) \<longleftrightarrow> s = [] \<or> s \<in> lang r"
  by auto

text \<open>\<open>A(B*C)?\<close> and \<open>(AB*)?A\<close>: the first and the last character are restricted.\<close>

lemma label_lang:
  assumes AB: "\<And>c. in_class C c \<Longrightarrow> in_class B c" and AC: "\<And>c. in_class A c \<Longrightarrow> in_class C c"
  shows "s \<in> lang (Seq (Cls A) (Alt (Seq (Star (Cls B)) (Cls C)) Eps)) \<longleftrightarrow>
    s \<noteq> [] \<and> in_class A (hd s) \<and> in_class C (last s) \<and> (\<forall>c\<in>set s. in_class B c)"
proof (cases s)
  case (Cons a t)
  show ?thesis
  proof (cases t rule: rev_cases)
    case Nil
    with Cons AB AC show ?thesis by (auto simp: Cls_Seq lang_Alt_Eps Seq_Cls simp del: lang.simps)
  next
    case (snoc t' b)
    with Cons AB AC show ?thesis
      by (auto simp: Cls_Seq lang_Alt_Eps Seq_Cls star_Cls simp del: lang.simps)
  qed
qed (simp add: Cls_Seq)

lemma qname_lang:
  assumes AB: "\<And>c. in_class A c \<Longrightarrow> in_class B c"
  shows "s \<in> lang (Seq (Alt (Seq (Cls A) (Star (Cls B))) Eps) (Cls A)) \<longleftrightarrow>
    s \<noteq> [] \<and> in_class A (hd s) \<and> in_class A (last s) \<and> (\<forall>c\<in>set s. in_class B c)"
proof (cases s rule: rev_cases)
  case (snoc t b)
  show ?thesis
  proof (cases t)
    case Nil
    with snoc AB show ?thesis by (auto simp: Cls_Seq lang_Alt_Eps Seq_Cls simp del: lang.simps)
  next
    case (Cons a t')
    with snoc AB show ?thesis
      by (auto simp: Cls_Seq lang_Alt_Eps Seq_Cls star_Cls simp del: lang.simps)
  qed
qed (simp add: Seq_Cls)

lemma plus_lang: "s \<in> lang (Seq (Cls A) (Star (Cls A))) \<longleftrightarrow> s \<noteq> [] \<and> (\<forall>c\<in>set s. in_class A c)"
  by (cases s) (auto simp: Cls_Seq star_Cls simp del: lang.simps)

lemma head_tail_lang: "s \<in> lang (Seq (Cls A) (Star (Cls B))) \<longleftrightarrow>
    s \<noteq> [] \<and> in_class A (hd s) \<and> (\<forall>c\<in>set (tl s). in_class B c)"
  by (cases s) (auto simp: Cls_Seq star_Cls simp del: lang.simps)

text \<open>\<open>L(\.L)*\<close>: the parts between the separators are in \<open>L\<close>.\<close>

lemma sep_star_lang:
  assumes L: "\<And>u. u \<in> lang r \<Longrightarrow> sep \<notin> set u"
  shows "t \<in> lang (Star (Seq (Cls [(sep, sep)]) r)) \<longleftrightarrow>
    t = [] \<or> (\<exists>s. t = sep # s \<and> (\<forall>p\<in>set (split_on sep s). p \<in> lang r))"
proof (induction t rule: length_induct)
  case (1 t)
  have cls: "in_class [(sep, sep)] c \<longleftrightarrow> c = sep" for c by (auto simp: in_class_def)
  show ?case
  proof (cases t)
    case Nil
    then show ?thesis by (simp add: star_Nil)
  next
    case (Cons a s)
    have "t \<in> lang (Star (Seq (Cls [(sep, sep)]) r)) \<longleftrightarrow>
        (\<exists>u v. s = u @ v \<and> a = sep \<and> u \<in> lang r \<and> v \<in> lang (Star (Seq (Cls [(sep, sep)]) r)))"
      by (auto simp: Cons star_lang_Cons cls)
    also have "\<dots> \<longleftrightarrow> (\<exists>u v. s = u @ v \<and> a = sep \<and> u \<in> lang r \<and>
        (v = [] \<or> (\<exists>w. v = sep # w \<and> (\<forall>p\<in>set (split_on sep w). p \<in> lang r))))"
      using 1 Cons by (intro ex_cong1 conj_cong refl) auto
    also have "\<dots> \<longleftrightarrow> a = sep \<and> (\<forall>p\<in>set (split_on sep s). p \<in> lang r)"
    proof (cases "sep \<in> set s")
      case True
      then obtain u w where s: "s = u @ sep # w" "sep \<notin> set u" by (meson split_list_first)
      have "u' = u \<and> w' = w" if "s = u' @ sep # w'" "sep \<notin> set u'" for u' w'
        using that s split_on_cons [of sep u w] split_on_cons [of sep u' w'] by (metis list.inject same_append_eq)
      moreover have "s \<notin> lang r" using L [of s] True by blast
      ultimately show ?thesis using s L by (auto simp: split_on_cons)
    next
      case False
      then show ?thesis by (auto simp: split_on_plain)
    qed
    finally show ?thesis using Cons by auto
  qed
qed

lemma sep_lang:
  assumes L: "\<And>u. u \<in> lang r \<Longrightarrow> sep \<notin> set u"
  shows "s \<in> lang (Seq r (Star (Seq (Cls [(sep, sep)]) r))) \<longleftrightarrow> (\<forall>p\<in>set (split_on sep s). p \<in> lang r)"
proof -
  have "s \<in> lang (Seq r (Star (Seq (Cls [(sep, sep)]) r))) \<longleftrightarrow>
      (\<exists>u v. s = u @ v \<and> u \<in> lang r \<and> v \<in> lang (Star (Seq (Cls [(sep, sep)]) r)))" by auto
  also have "\<dots> \<longleftrightarrow> sep # s \<in> lang (Star (Seq (Cls [(sep, sep)]) r))"
    by (simp add: lang_Star_Cons Cls_Seq in_class_def order.eq_iff [symmetric] del: lang.simps)
  finally show ?thesis using sep_star_lang [of r sep "sep # s"] L by (simp del: lang.simps)
qed

lemma match_part_Cls:
  assumes "regexp_compile fmt = Some (Cls A)"
  shows "match_part fmt s \<longleftrightarrow> (\<exists>c\<in>set s. in_class A c)"
proof -
  have all: "in_class [(CHR 0x00, CHR 0xFF)] c" for c
    by (simp add: in_class_def less_eq_char_def) (use nat_of_char_less_256 [of c] in linarith)
  have "match_part fmt s \<longleftrightarrow> (\<exists>u v. s = u @ v \<and> u \<in> lang (Star (Cls [(CHR 0x00, CHR 0xFF)])) \<and>
      v \<in> lang (Seq (Cls A) (Star (Cls [(CHR 0x00, CHR 0xFF)]))))"
    by (auto simp: match_part_def assms matches_lang)
  also have "\<dots> \<longleftrightarrow> (\<exists>u c v. s = u @ c # v \<and> in_class A c)"
    by (auto simp: star_Cls Cls_Seq all simp del: lang.simps)
  also have "\<dots> \<longleftrightarrow> (\<exists>c\<in>set s. in_class A c)" by (metis in_set_conv_decomp)
  finally show ?thesis .
qed

end
