(* ===== verification/Name_Validation.thy ===== *)
theory Name_Validation
  imports Regexp
begin

text \<open>
  The validation of names, \<open>staging/src/k8s.io/apimachinery/pkg/util/validation/validation.go\<close>:
  labels, subdomains, qualified names, port names, identifiers, environment variables and
  configuration keys. The format strings are those of the source; a validator returns the list
  of its error messages, empty when the value is valid. \<open>net.ParseIP\<close> is not modelled, so the
  checks of IP and socket addresses are left out, and the checks that build a
  \<open>field.ErrorList\<close> too.
\<close>

section \<open>Messages\<close>

abbreviation apos :: string where
  "apos \<equiv> [CHR 0x27]"

definition MaxLenError :: "int \<Rightarrow> string" where
  "MaxLenError n = ''must be no more than '' @ dec_int n @ '' characters''"

fun regex_examples :: "bool \<Rightarrow> string list \<Rightarrow> string" where
  "regex_examples fst_ex [] = []"
| "regex_examples fst_ex (x # xs) =
     (if fst_ex then [] else '' or '') @ apos @ x @ apos @ '', '' @ regex_examples False xs"

definition RegexError :: "string \<Rightarrow> string \<Rightarrow> string list \<Rightarrow> string" where
  "RegexError msg fmt examples =
     (if length examples = 0
      then msg @ '' (regex used for validation is '' @ apos @ fmt @ apos @ '')''
      else msg @ '' (e.g. '' @ regex_examples True examples @ ''regex used for validation is '' @ apos @ fmt @ apos @ '')'')"

definition EmptyError :: string where
  "EmptyError = ''must be non-empty''"

definition prefixEach :: "string list \<Rightarrow> string \<Rightarrow> string list" where
  "prefixEach msgs prefix = map (\<lambda>m. prefix @ m) msgs"

definition InclusiveRangeError :: "int \<Rightarrow> int \<Rightarrow> string" where
  "InclusiveRangeError lo hi = ''must be between '' @ dec_int lo @ '' and '' @ dec_int hi @ '', inclusive''"

section \<open>Formats\<close>

definition qnameCharFmt :: string where
  "qnameCharFmt = ''[A-Za-z0-9]''"

definition qnameExtCharFmt :: string where
  "qnameExtCharFmt = ''[-A-Za-z0-9_.]''"

definition qualifiedNameFmt :: string where
  "qualifiedNameFmt = ''('' @ qnameCharFmt @ qnameExtCharFmt @ ''*)?'' @ qnameCharFmt"

definition qualifiedNameErrMsg :: string where
  "qualifiedNameErrMsg = ''must consist of alphanumeric characters, '' @ apos @ ''-'' @ apos @ '', '' @ apos @ ''_'' @ apos @
     '' or '' @ apos @ ''.'' @ apos @ '', and must start and end with an alphanumeric character''"

definition labelValueFmt :: string where
  "labelValueFmt = ''('' @ qualifiedNameFmt @ '')?''"

definition labelValueErrMsg :: string where
  "labelValueErrMsg = ''a valid label must be an empty string or consist of alphanumeric characters, '' @ apos @ ''-'' @ apos @
     '', '' @ apos @ ''_'' @ apos @ '' or '' @ apos @ ''.'' @ apos @ '', and must start and end with an alphanumeric character''"

definition dns1123LabelFmt :: string where
  "dns1123LabelFmt = ''[a-z0-9]([-a-z0-9]*[a-z0-9])?''"

definition dns1123LabelErrMsg :: string where
  "dns1123LabelErrMsg = ''a lowercase RFC 1123 label must consist of lower case alphanumeric characters or '' @ apos @ ''-'' @ apos @
     '', and must start and end with an alphanumeric character''"

definition dns1123SubdomainFmt :: string where
  "dns1123SubdomainFmt = dns1123LabelFmt @ ''('' @ [CHR 0x5C] @ ''.'' @ dns1123LabelFmt @ '')*''"

definition dns1123SubdomainErrorMsg :: string where
  "dns1123SubdomainErrorMsg = ''a lowercase RFC 1123 subdomain must consist of lower case alphanumeric characters, '' @ apos @ ''-'' @ apos @
     '' or '' @ apos @ ''.'' @ apos @ '', and must start and end with an alphanumeric character''"

definition dns1035LabelFmt :: string where
  "dns1035LabelFmt = ''[a-z]([-a-z0-9]*[a-z0-9])?''"

definition dns1035LabelErrMsg :: string where
  "dns1035LabelErrMsg = ''a DNS-1035 label must consist of lower case alphanumeric characters or '' @ apos @ ''-'' @ apos @
     '', start with an alphabetic character, and end with an alphanumeric character''"

definition wildcardDNS1123SubdomainFmt :: string where
  "wildcardDNS1123SubdomainFmt = [CHR 0x5C] @ ''*'' @ [CHR 0x5C] @ ''.'' @ dns1123SubdomainFmt"

definition wildcardDNS1123SubdomainErrMsg :: string where
  "wildcardDNS1123SubdomainErrMsg = ''a wildcard DNS-1123 subdomain must start with '' @ apos @ ''*.'' @ apos @
     '', followed by a valid DNS subdomain, which must consist of lower case alphanumeric characters, '' @ apos @ ''-'' @ apos @
     '' or '' @ apos @ ''.'' @ apos @ '' and end with an alphanumeric character''"

definition cIdentifierFmt :: string where
  "cIdentifierFmt = ''[A-Za-z_][A-Za-z0-9_]*''"

definition identifierErrMsg :: string where
  "identifierErrMsg = ''a valid C identifier must start with alphabetic character or '' @ apos @ ''_'' @ apos @
     '', followed by a string of alphanumeric characters or '' @ apos @ ''_'' @ apos"

definition percentFmt :: string where
  "percentFmt = ''[0-9]+%''"

definition percentErrMsg :: string where
  "percentErrMsg = ''a valid percent string must be a numeric string followed by an ending '' @ apos @ ''%'' @ apos"

definition httpHeaderNameFmt :: string where
  "httpHeaderNameFmt = ''[-A-Za-z0-9]+''"

definition httpHeaderNameErrMsg :: string where
  "httpHeaderNameErrMsg = ''a valid HTTP header must consist of alphanumeric characters or '' @ apos @ ''-'' @ apos"

definition envVarNameFmt :: string where
  "envVarNameFmt = ''[-._a-zA-Z][-._a-zA-Z0-9]*''"

definition envVarNameFmtErrMsg :: string where
  "envVarNameFmtErrMsg = ''a valid environment variable name must consist of alphabetic characters, digits, '' @ apos @ ''_'' @ apos @
     '', '' @ apos @ ''-'' @ apos @ '', or '' @ apos @ ''.'' @ apos @ '', and must not start with a digit''"

definition configMapKeyFmt :: string where
  "configMapKeyFmt = ''[-._a-zA-Z0-9]+''"

definition configMapKeyErrMsg :: string where
  "configMapKeyErrMsg = ''a valid config key must consist of alphanumeric characters, '' @ apos @ ''-'' @ apos @ '', '' @ apos @
     ''_'' @ apos @ '' or '' @ apos @ ''.'' @ apos"

section \<open>Validators\<close>

definition IsValidLabelValue :: "string \<Rightarrow> string list" where
  "IsValidLabelValue v =
     (if length v > 63 then [MaxLenError 63] else []) @
     (if \<not> match_full labelValueFmt v
      then [RegexError labelValueErrMsg labelValueFmt [''MyValue'', ''my_value'', ''12345'']] else [])"

definition IsDNS1123Label :: "string \<Rightarrow> string list" where
  "IsDNS1123Label v =
     (if length v > 63 then [MaxLenError 63] else []) @
     (if \<not> match_full dns1123LabelFmt v
      then [RegexError dns1123LabelErrMsg dns1123LabelFmt [''my-name'', ''123-abc'']] else [])"

definition IsDNS1123Subdomain :: "string \<Rightarrow> string list" where
  "IsDNS1123Subdomain v =
     (if length v > 253 then [MaxLenError 253] else []) @
     (if \<not> match_full dns1123SubdomainFmt v
      then [RegexError dns1123SubdomainErrorMsg dns1123SubdomainFmt [''example.com'']] else [])"

definition IsDNS1035Label :: "string \<Rightarrow> string list" where
  "IsDNS1035Label v =
     (if length v > 63 then [MaxLenError 63] else []) @
     (if \<not> match_full dns1035LabelFmt v
      then [RegexError dns1035LabelErrMsg dns1035LabelFmt [''my-name'', ''abc-123'']] else [])"

definition IsWildcardDNS1123Subdomain :: "string \<Rightarrow> string list" where
  "IsWildcardDNS1123Subdomain v =
     (if length v > 253 then [MaxLenError 253] else []) @
     (if \<not> match_full wildcardDNS1123SubdomainFmt v
      then [RegexError wildcardDNS1123SubdomainErrMsg wildcardDNS1123SubdomainFmt [''*.example.com'']] else [])"

definition IsQualifiedName :: "string \<Rightarrow> string list" where
  "IsQualifiedName v =
     (let name_errs = (\<lambda>name.
            (if length name = 0 then [''name part '' @ EmptyError]
             else if length name > 63 then [''name part '' @ MaxLenError 63] else []) @
            (if \<not> match_full qualifiedNameFmt name
             then [''name part '' @ RegexError qualifiedNameErrMsg qualifiedNameFmt [''MyName'', ''my.name'', ''123-abc'']]
             else [])) in
      case split_on CHR ''/'' v of
        [name] \<Rightarrow> name_errs name
      | [prefix, name] \<Rightarrow>
          (if length prefix = 0 then [''prefix part '' @ EmptyError]
           else if length (IsDNS1123Subdomain prefix) \<noteq> 0 then prefixEach (IsDNS1123Subdomain prefix) ''prefix part ''
           else []) @ name_errs name
      | _ \<Rightarrow> [''a qualified name '' @ RegexError qualifiedNameErrMsg qualifiedNameFmt [''MyName'', ''my.name'', ''123-abc''] @
               '' with an optional DNS subdomain prefix and '' @ apos @ ''/'' @ apos @ '' (e.g. '' @ apos @ ''example.com/MyName'' @ apos @ '')''])"

definition IsCIdentifier :: "string \<Rightarrow> string list" where
  "IsCIdentifier v =
     (if \<not> match_full cIdentifierFmt v
      then [RegexError identifierErrMsg cIdentifierFmt [''my_name'', ''MY_NAME'', ''MyName'']] else [])"

definition IsValidPortNum :: "int \<Rightarrow> string list" where
  "IsValidPortNum port = (if 1 \<le> port \<and> port \<le> 65535 then [] else [InclusiveRangeError 1 65535])"

definition IsInRange :: "int \<Rightarrow> int \<Rightarrow> int \<Rightarrow> string list" where
  "IsInRange v lo hi = (if v \<ge> lo \<and> v \<le> hi then [] else [InclusiveRangeError lo hi])"

definition IsValidGroupID :: "int \<Rightarrow> string list" where
  "IsValidGroupID gid = (if 0 \<le> gid \<and> gid \<le> 2147483647 then [] else [InclusiveRangeError 0 2147483647])"

definition IsValidUserID :: "int \<Rightarrow> string list" where
  "IsValidUserID uid = (if 0 \<le> uid \<and> uid \<le> 2147483647 then [] else [InclusiveRangeError 0 2147483647])"

definition IsValidPortName :: "string \<Rightarrow> string list" where
  "IsValidPortName port =
     (if length port > 15 then [MaxLenError 15] else []) @
     (if \<not> match_full ''[-a-z0-9]+'' port
      then [''must contain only alpha-numeric characters (a-z, 0-9), and hyphens (-)''] else []) @
     (if \<not> match_part ''[a-z]'' port
      then [''must contain at least one letter or number (a-z, 0-9)''] else []) @
     (if Contains port ''--'' then [''must not contain consecutive hyphens''] else []) @
     (if length port > 0 \<and> (port ! 0 = CHR ''-'' \<or> port ! (length port - 1) = CHR ''-'')
      then [''must not begin or end with a hyphen''] else [])"

definition IsValidPercent :: "string \<Rightarrow> string list" where
  "IsValidPercent percent =
     (if \<not> match_full percentFmt percent then [RegexError percentErrMsg percentFmt [''1%'', ''93%'']] else [])"

definition IsHTTPHeaderName :: "string \<Rightarrow> string list" where
  "IsHTTPHeaderName v =
     (if \<not> match_full httpHeaderNameFmt v
      then [RegexError httpHeaderNameErrMsg httpHeaderNameFmt [''X-Header-Name'']] else [])"

definition hasChDirPrefix :: "string \<Rightarrow> string list" where
  "hasChDirPrefix v =
     (if v = ''.'' then [''must not be '' @ apos @ ''.'' @ apos]
      else if v = ''..'' then [''must not be '' @ apos @ ''..'' @ apos]
      else if HasPrefix v ''..'' then [''must not start with '' @ apos @ ''..'' @ apos]
      else [])"

definition IsEnvVarName :: "string \<Rightarrow> string list" where
  "IsEnvVarName v =
     (if \<not> match_full envVarNameFmt v
      then [RegexError envVarNameFmtErrMsg envVarNameFmt [''my.env-name'', ''MY_ENV.NAME'', ''MyEnvName1'']] else []) @
     hasChDirPrefix v"

definition IsConfigMapKey :: "string \<Rightarrow> string list" where
  "IsConfigMapKey v =
     (if length v > 253 then [MaxLenError 253] else []) @
     (if \<not> match_full configMapKeyFmt v
      then [RegexError configMapKeyErrMsg configMapKeyFmt [''key.name'', ''KEY_NAME'', ''key-name'']] else []) @
     hasChDirPrefix v"

section \<open>What the formats accept\<close>

definition lower_alnum :: "char \<Rightarrow> bool" where
  "lower_alnum c \<longleftrightarrow> CHR ''a'' \<le> c \<and> c \<le> CHR ''z'' \<or> CHR ''0'' \<le> c \<and> c \<le> CHR ''9''"

definition alnum :: "char \<Rightarrow> bool" where
  "alnum c \<longleftrightarrow> lower_alnum c \<or> CHR ''A'' \<le> c \<and> c \<le> CHR ''Z''"

text \<open>The shape of a DNS label without its length bound, and of the name part of a qualified
  name without its own.\<close>

definition dns_label :: "string \<Rightarrow> bool" where
  "dns_label v \<longleftrightarrow> v \<noteq> [] \<and> lower_alnum (hd v) \<and> lower_alnum (last v) \<and> set v \<subseteq> {c. lower_alnum c \<or> c = CHR ''-''}"

definition name_part :: "string \<Rightarrow> bool" where
  "name_part v \<longleftrightarrow> v \<noteq> [] \<and> alnum (hd v) \<and> alnum (last v) \<and> set v \<subseteq> {c. alnum c \<or> c \<in> set ''-_.''}"

abbreviation lower_alnum_class :: "(char \<times> char) list" where
  "lower_alnum_class \<equiv> [(CHR ''a'', CHR ''z''), (CHR ''0'', CHR ''9'')]"

abbreviation alnum_class :: "(char \<times> char) list" where
  "alnum_class \<equiv> [(CHR ''A'', CHR ''Z''), (CHR ''a'', CHR ''z''), (CHR ''0'', CHR ''9'')]"

lemma class_Nil: "in_class [] c \<longleftrightarrow> False"
  by (simp add: in_class_def)

lemma class_one: "in_class ((x, x) # rs) c \<longleftrightarrow> c = x \<or> in_class rs c"
  by (auto simp: in_class_def)

lemma class_lower: "in_class lower_alnum_class c \<longleftrightarrow> lower_alnum c"
  by (auto simp: in_class_def lower_alnum_def)

lemma class_alnum: "in_class alnum_class c \<longleftrightarrow> alnum c"
  by (auto simp: in_class_def lower_alnum_def alnum_def)

lemma class_name:
  "in_class [(CHR ''-'', CHR ''-''), (CHR ''A'', CHR ''Z''), (CHR ''a'', CHR ''z''), (CHR ''0'', CHR ''9''),
     (CHR ''_'', CHR ''_''), (CHR ''.'', CHR ''.'')] c \<longleftrightarrow> alnum c \<or> c \<in> set ''-_.''"
  by (auto simp: in_class_def lower_alnum_def alnum_def)

lemma compile_dns1123Label:
  "regexp_compile dns1123LabelFmt =
     Some (Seq (Cls lower_alnum_class)
       (Alt (Seq (Star (Cls ((CHR ''-'', CHR ''-'') # lower_alnum_class))) (Cls lower_alnum_class)) Eps))"
  by code_simp

lemma compile_dns1123Subdomain:
  "regexp_compile dns1123SubdomainFmt =
     Some (Seq (Cls lower_alnum_class)
       (Seq (Alt (Seq (Star (Cls ((CHR ''-'', CHR ''-'') # lower_alnum_class))) (Cls lower_alnum_class)) Eps)
         (Star (Seq (Cls [(CHR ''.'', CHR ''.'')]) (the (regexp_compile dns1123LabelFmt))))))"
  by code_simp

lemma compile_wildcardDNS1123Subdomain:
  "regexp_compile wildcardDNS1123SubdomainFmt =
     map_option (\<lambda>r. Seq (Cls [(CHR ''*'', CHR ''*'')]) (Seq (Cls [(CHR ''.'', CHR ''.'')]) r)) (regexp_compile dns1123SubdomainFmt)"
  by code_simp

lemma compile_dns1035Label:
  "regexp_compile dns1035LabelFmt =
     Some (Seq (Cls [(CHR ''a'', CHR ''z'')])
       (Alt (Seq (Star (Cls ((CHR ''-'', CHR ''-'') # lower_alnum_class))) (Cls lower_alnum_class)) Eps))"
  by code_simp

lemma compile_qualifiedName:
  "regexp_compile qualifiedNameFmt =
     Some (Seq (Alt (Seq (Cls alnum_class) (Star (Cls ((CHR ''-'', CHR ''-'') # alnum_class @ [(CHR ''_'', CHR ''_''), (CHR ''.'', CHR ''.'')])))) Eps)
       (Cls alnum_class))"
  by code_simp

lemma compile_labelValue:
  "regexp_compile labelValueFmt = map_option (\<lambda>r. Alt r Eps) (regexp_compile qualifiedNameFmt)"
  by code_simp

lemma dns_label_match: "match_full dns1123LabelFmt v \<longleftrightarrow> dns_label v"
proof -
  have "match_full dns1123LabelFmt v \<longleftrightarrow> v \<in> lang (the (regexp_compile dns1123LabelFmt))"
    by (simp only: match_full_def matches_lang)
  also have "\<dots> \<longleftrightarrow> dns_label v"
    unfolding compile_dns1123Label option.sel
    by (subst label_lang) (auto simp: class_one class_lower dns_label_def simp del: lang.simps)
  finally show ?thesis .
qed

lemma subdomain_match: "match_full dns1123SubdomainFmt v \<longleftrightarrow> set (split_on CHR ''.'' v) \<subseteq> Collect dns_label"
proof -
  have lab: "u \<in> lang (the (regexp_compile dns1123LabelFmt)) \<longleftrightarrow> dns_label u" for u
    using dns_label_match [of u] by (simp add: match_full_def matches_lang)
  have dot: "CHR ''.'' \<notin> set u" if "dns_label u" for u
    using that by (auto simp: dns_label_def lower_alnum_def less_eq_char_def)
  let ?r = "the (regexp_compile dns1123LabelFmt)"
  have "match_full dns1123SubdomainFmt v \<longleftrightarrow> v \<in> lang (Seq ?r (Star (Seq (Cls [(CHR ''.'', CHR ''.'')]) ?r)))"
    unfolding match_full_def matches_lang compile_dns1123Subdomain option.sel lang_Seq_assoc
    by (simp only: compile_dns1123Label option.sel)
  also have "\<dots> \<longleftrightarrow> set (split_on CHR ''.'' v) \<subseteq> Collect dns_label"
    using lab dot by (subst sep_lang) auto
  finally show ?thesis .
qed

lemma wildcard_match:
  "match_full wildcardDNS1123SubdomainFmt v \<longleftrightarrow> (\<exists>w. v = ''*.'' @ w \<and> set (split_on CHR ''.'' w) \<subseteq> Collect dns_label)"
proof -
  obtain r where r: "regexp_compile dns1123SubdomainFmt = Some r"
    using compile_dns1123Subdomain by blast
  have "match_full wildcardDNS1123SubdomainFmt v \<longleftrightarrow> (\<exists>w. v = ''*.'' @ w \<and> w \<in> lang r)"
    by (simp only: match_full_def matches_lang compile_wildcardDNS1123Subdomain r option.map option.sel)
      (auto simp: Cls_Seq class_one class_Nil simp del: lang.simps)
  then show ?thesis using subdomain_match r by (simp add: match_full_def matches_lang)
qed

lemma dns1035_match: "match_full dns1035LabelFmt v \<longleftrightarrow> dns_label v \<and> CHR ''a'' \<le> hd v \<and> hd v \<le> CHR ''z''"
proof -
  have "match_full dns1035LabelFmt v \<longleftrightarrow> v \<in> lang (the (regexp_compile dns1035LabelFmt))"
    by (simp only: match_full_def matches_lang)
  also have "\<dots> \<longleftrightarrow> dns_label v \<and> CHR ''a'' \<le> hd v \<and> hd v \<le> CHR ''z''"
    unfolding compile_dns1035Label option.sel
    by (subst label_lang) (auto simp: class_one class_lower dns_label_def lower_alnum_def in_class_def simp del: lang.simps)
  finally show ?thesis .
qed

lemma name_match: "match_full qualifiedNameFmt v \<longleftrightarrow> name_part v"
proof -
  have "match_full qualifiedNameFmt v \<longleftrightarrow> v \<in> lang (the (regexp_compile qualifiedNameFmt))"
    by (simp only: match_full_def matches_lang)
  also have "\<dots> \<longleftrightarrow> name_part v"
    unfolding compile_qualifiedName option.sel append.simps
    by (subst qname_lang) (auto simp: class_alnum class_name name_part_def simp del: lang.simps)
  finally show ?thesis .
qed

lemma label_value_match: "match_full labelValueFmt v \<longleftrightarrow> v = [] \<or> name_part v"
proof -
  obtain r where r: "regexp_compile qualifiedNameFmt = Some r" using compile_qualifiedName by blast
  have "match_full labelValueFmt v \<longleftrightarrow> v = [] \<or> v \<in> lang r"
    by (simp only: match_full_def matches_lang compile_labelValue r option.map option.sel lang_Alt_Eps)
  then show ?thesis using name_match r by (simp add: match_full_def matches_lang)
qed

lemma port_name_match:
  "match_full ''[-a-z0-9]+'' v \<longleftrightarrow> v \<noteq> [] \<and> set v \<subseteq> {c. lower_alnum c \<or> c = CHR ''-''}"
  "match_part ''[a-z]'' v \<longleftrightarrow> (\<exists>c\<in>set v. CHR ''a'' \<le> c \<and> c \<le> CHR ''z'')"
proof -
  have c1: "regexp_compile ''[-a-z0-9]+'' =
      Some (Seq (Cls ((CHR ''-'', CHR ''-'') # lower_alnum_class)) (Star (Cls ((CHR ''-'', CHR ''-'') # lower_alnum_class))))"
    by code_simp
  show "match_full ''[-a-z0-9]+'' v \<longleftrightarrow> v \<noteq> [] \<and> set v \<subseteq> {c. lower_alnum c \<or> c = CHR ''-''}"
    unfolding match_full_def matches_lang c1 option.sel plus_lang by (auto simp: class_one class_lower)
  have c2: "regexp_compile ''[a-z]'' = Some (Cls [(CHR ''a'', CHR ''z'')])" by code_simp
  show "match_part ''[a-z]'' v \<longleftrightarrow> (\<exists>c\<in>set v. CHR ''a'' \<le> c \<and> c \<le> CHR ''z'')"
    by (simp add: match_part_Cls [OF c2] in_class_def)
qed

lemma key_name_match:
  "match_full configMapKeyFmt v \<longleftrightarrow> v \<noteq> [] \<and> set v \<subseteq> {c. alnum c \<or> c \<in> set ''-_.''}"
  "match_full envVarNameFmt v \<longleftrightarrow> v \<noteq> [] \<and> \<not> (CHR ''0'' \<le> hd v \<and> hd v \<le> CHR ''9'') \<and> set v \<subseteq> {c. alnum c \<or> c \<in> set ''-_.''}"
proof -
  let ?A = "[(CHR ''-'', CHR ''-''), (CHR ''.'', CHR ''.''), (CHR ''_'', CHR ''_''), (CHR ''a'', CHR ''z''), (CHR ''A'', CHR ''Z'')]"
  let ?B = "?A @ [(CHR ''0'', CHR ''9'')]"
  have A: "in_class ?A c \<longleftrightarrow> (alnum c \<or> c \<in> set ''-_.'') \<and> \<not> (CHR ''0'' \<le> c \<and> c \<le> CHR ''9'')" for c
    unfolding class_one by (auto simp: in_class_def alnum_def lower_alnum_def less_eq_char_def)
  have B: "in_class ?B c \<longleftrightarrow> alnum c \<or> c \<in> set ''-_.''" for c
    by (auto simp: in_class_def alnum_def lower_alnum_def)
  have c1: "regexp_compile configMapKeyFmt = Some (Seq (Cls ?B) (Star (Cls ?B)))" by code_simp
  show "match_full configMapKeyFmt v \<longleftrightarrow> v \<noteq> [] \<and> set v \<subseteq> {c. alnum c \<or> c \<in> set ''-_.''}"
    unfolding match_full_def matches_lang c1 option.sel plus_lang B by auto
  have c2: "regexp_compile envVarNameFmt = Some (Seq (Cls ?A) (Star (Cls ?B)))" by code_simp
  show "match_full envVarNameFmt v \<longleftrightarrow> v \<noteq> [] \<and> \<not> (CHR ''0'' \<le> hd v \<and> hd v \<le> CHR ''9'') \<and> set v \<subseteq> {c. alnum c \<or> c \<in> set ''-_.''}"
    unfolding match_full_def matches_lang c2 option.sel head_tail_lang A B
    by (cases v) auto
qed

lemma hasChDirPrefix_iff: "hasChDirPrefix v = [] \<longleftrightarrow> v \<noteq> ''.'' \<and> \<not> HasPrefix v ''..''"
  by (auto simp: hasChDirPrefix_def HasPrefix_iff)

lemma length_or_match_Nil: "(if P then [x] else []) @ (if \<not> Q then [y] else []) = [] \<longleftrightarrow> \<not> P \<and> Q"
  by simp

section \<open>Properties\<close>

text \<open>C25: The validators of DNS names accept exactly: labels of one to 63 lower case
  alphanumeric characters or hyphens that begin and end alphanumerically; subdomains of up to
  253 characters whose dot-separated parts all have the shape of a label (the parts are not
  bounded by 63); \<open>*.\<close> followed by a subdomain for wildcards; and labels that begin with
  a letter for DNS-1035.\<close>

theorem dns_names_exact:
  "(IsDNS1123Label v = [] \<longleftrightarrow> length v \<le> 63 \<and> dns_label v) \<and>
   (IsDNS1123Subdomain v = [] \<longleftrightarrow> length v \<le> 253 \<and> set (split_on CHR ''.'' v) \<subseteq> Collect dns_label) \<and>
   (IsWildcardDNS1123Subdomain v = [] \<longleftrightarrow>
      length v \<le> 253 \<and> (\<exists>w. v = ''*.'' @ w \<and> set (split_on CHR ''.'' w) \<subseteq> Collect dns_label)) \<and>
   (IsDNS1035Label v = [] \<longleftrightarrow> length v \<le> 63 \<and> dns_label v \<and> CHR ''a'' \<le> hd v \<and> hd v \<le> CHR ''z'')"
  unfolding IsDNS1123Label_def IsDNS1123Subdomain_def IsWildcardDNS1123Subdomain_def IsDNS1035Label_def length_or_match_Nil
  by (simp only: dns_label_match subdomain_match wildcard_match dns1035_match not_less simp_thms)

lemma IsDNS1123Subdomain_Nil:
  "IsDNS1123Subdomain v = [] \<longleftrightarrow> length v \<le> 253 \<and> set (split_on CHR ''.'' v) \<subseteq> Collect dns_label"
  unfolding IsDNS1123Subdomain_def length_or_match_Nil by (simp only: subdomain_match not_less)

lemma slash_not_alnum: "\<not> alnum CHR ''/''"
  by (simp add: alnum_def lower_alnum_def less_eq_char_def)

lemma name_part_no_slash: "name_part v \<Longrightarrow> CHR ''/'' \<notin> set v"
  using slash_not_alnum by (auto simp: name_part_def)

lemma split_on_join: "c \<in> set v \<Longrightarrow> c = sep \<or> (\<exists>p\<in>set (split_on sep v). c \<in> set p)"
proof (induction v)
  case (Cons a v)
  then show ?case by (cases "split_on sep v") (auto split: if_splits)
qed simp

lemma subdomain_no_slash: "IsDNS1123Subdomain v = [] \<Longrightarrow> CHR ''/'' \<notin> set v"
proof
  assume "IsDNS1123Subdomain v = []" "CHR ''/'' \<in> set v"
  then obtain p where "dns_label p" "CHR ''/'' \<in> set p"
    using split_on_join [of "CHR ''/''" v "CHR ''.''"] by (auto simp: IsDNS1123Subdomain_Nil)
  then show False using slash_not_alnum by (auto simp: dns_label_def alnum_def)
qed

lemma subdomain_not_empty: "IsDNS1123Subdomain [] \<noteq> []"
  by (simp add: IsDNS1123Subdomain_Nil dns_label_def)

lemma IsQualifiedName_Nil:
  "IsQualifiedName v = [] \<longleftrightarrow>
      (\<exists>name. name_part name \<and> length name \<le> 63 \<and>
        (v = name \<or> (\<exists>prefix. v = prefix @ ''/'' @ name \<and> IsDNS1123Subdomain prefix = [])))"
proof -
  let ?ne = "\<lambda>name. (if length name = 0 then [''name part '' @ EmptyError]
             else if length name > 63 then [''name part '' @ MaxLenError 63] else []) @
            (if \<not> match_full qualifiedNameFmt name
             then [''name part '' @ RegexError qualifiedNameErrMsg qualifiedNameFmt [''MyName'', ''my.name'', ''123-abc'']]
             else [])"
  have ne: "?ne name = [] \<longleftrightarrow> name_part name \<and> length name \<le> 63" for name
    by (auto simp: name_match name_part_def)
  have one: "IsQualifiedName name = [] \<longleftrightarrow> name_part name \<and> length name \<le> 63" if "CHR ''/'' \<notin> set name" for name
    using ne [of name] by (simp only: IsQualifiedName_def Let_def split_on_plain [OF that] list.case)
  have two: "IsQualifiedName (prefix @ CHR ''/'' # name) = [] \<longleftrightarrow>
      IsDNS1123Subdomain prefix = [] \<and> name_part name \<and> length name \<le> 63"
    if "CHR ''/'' \<notin> set prefix" "CHR ''/'' \<notin> set name" for prefix name
    using ne [of name] subdomain_not_empty that
    by (auto simp: IsQualifiedName_def Let_def split_on_cons split_on_plain prefixEach_def)
  show ?thesis
  proof
    assume v: "IsQualifiedName v = []"
    then consider name where "split_on CHR ''/'' v = [name]" | prefix name where "split_on CHR ''/'' v = [prefix, name]"
      by (auto simp: IsQualifiedName_def Let_def split: list.splits)
    then show "\<exists>name. name_part name \<and> length name \<le> 63 \<and>
        (v = name \<or> (\<exists>prefix. v = prefix @ ''/'' @ name \<and> IsDNS1123Subdomain prefix = []))"
    proof cases
      case 1
      then show ?thesis using v one by (auto simp: split_on_eq_single)
    next
      case (2 prefix name)
      then show ?thesis using v two by (auto simp: split_on_eq_pair)
    qed
  next
    assume "\<exists>name. name_part name \<and> length name \<le> 63 \<and>
        (v = name \<or> (\<exists>prefix. v = prefix @ ''/'' @ name \<and> IsDNS1123Subdomain prefix = []))"
    then show "IsQualifiedName v = []"
      using one two name_part_no_slash subdomain_no_slash by auto
  qed
qed

lemma IsValidLabelValue_Nil: "IsValidLabelValue v = [] \<longleftrightarrow> v = [] \<or> length v \<le> 63 \<and> name_part v"
  unfolding IsValidLabelValue_def length_or_match_Nil by (auto simp: label_value_match)

text \<open>C26: A string passes \<open>IsQualifiedName\<close> exactly when it is a name of one to 63
  alphanumeric, hyphen, underscore and dot characters that begins and ends alphanumerically,
  either alone or after a valid DNS subdomain and one slash; label values are such names
  without the subdomain, or empty.\<close>

theorem qualified_name_exact:
  "(IsQualifiedName v = [] \<longleftrightarrow>
      (\<exists>name. name_part name \<and> length name \<le> 63 \<and>
        (v = name \<or> (\<exists>prefix. v = prefix @ ''/'' @ name \<and> IsDNS1123Subdomain prefix = [])))) \<and>
   (IsValidLabelValue v = [] \<longleftrightarrow> v = [] \<or> IsQualifiedName v = [] \<and> CHR ''/'' \<notin> set v)"
  using IsQualifiedName_Nil [of v] IsValidLabelValue_Nil [of v] name_part_no_slash [of v] by (simp del: append.simps) force

theorem key_names_exact:
  "(IsConfigMapKey v = [] \<longleftrightarrow> length v \<le> 253 \<and> v \<noteq> [] \<and> set v \<subseteq> {c. alnum c \<or> c \<in> set ''-_.''} \<and>
      v \<noteq> ''.'' \<and> \<not> HasPrefix v ''..'') \<and>
   (IsEnvVarName v = [] \<longleftrightarrow> v \<noteq> [] \<and> \<not> (CHR ''0'' \<le> hd v \<and> hd v \<le> CHR ''9'') \<and>
      set v \<subseteq> {c. alnum c \<or> c \<in> set ''-_.''} \<and> v \<noteq> ''.'' \<and> \<not> HasPrefix v ''..'')"
  by (auto simp: IsConfigMapKey_def IsEnvVarName_def key_name_match hasChDirPrefix_iff)

theorem port_name_exact:
  "IsValidPortName v = [] \<longleftrightarrow>
     length v \<le> 15 \<and> dns_label v \<and> \<not> Contains v ''--'' \<and> (\<exists>c\<in>set v. CHR ''a'' \<le> c \<and> c \<le> CHR ''z'')"
proof -
  have "\<not> (length v > 0 \<and> (v ! 0 = CHR ''-'' \<or> v ! (length v - 1) = CHR ''-'')) \<longleftrightarrow> lower_alnum (hd v) \<and> lower_alnum (last v)"
    if "v \<noteq> []" "set v \<subseteq> {c. lower_alnum c \<or> c = CHR ''-''}"
  proof -
    have "v ! 0 \<in> set v" "v ! (length v - 1) \<in> set v" using that(1) by simp_all
    then have "lower_alnum (v ! 0) \<or> v ! 0 = CHR ''-''" "lower_alnum (v ! (length v - 1)) \<or> v ! (length v - 1) = CHR ''-''"
      using that(2) by blast+
    moreover have "\<not> lower_alnum CHR ''-''" by (auto simp: lower_alnum_def less_eq_char_def)
    ultimately show ?thesis using that(1) by (auto simp: hd_conv_nth last_conv_nth)
  qed
  then show ?thesis unfolding IsValidPortName_def by (auto simp: port_name_match dns_label_def)
qed

end
