(* ===== verification/Node_Info.thy ===== *)
theory Node_Info
  imports Api_Types Name_Validation
begin

text \<open>
  The scheduler's view of a node, \<open>pkg/scheduler/framework/types.go\<close>, with the default requests
  of \<open>pkg/scheduler/util/non_zero.go\<close> and the classification of resource names of
  \<open>pkg/scheduler/util/utils.go\<close> and \<open>pkg/apis/core/v1/helper/helpers.go\<close>. Resource amounts
  are 64-bit words, so sums wrap as they do in Go. The two feature gates that the code reads are
  arguments. A \<open>PodInfo\<close> is its pod; the affinity terms parsed from it are not modelled, nor is
  \<open>TransientInfo\<close>, which always holds zeros here. The process-wide generation counter is passed
  through the operations that draw from it.

  The theory shows that the totals of a node are the sums over its pods after any history, that
  the affinity lists are the sublists of the pods they stand for, and that the used ports are
  those of the pods.
\<close>

section \<open>Resource names\<close>

definition IsPrefixedNativeResource :: "string \<Rightarrow> bool" where
  "IsPrefixedNativeResource name = Contains name ''kubernetes.io/''"

definition IsNativeResource :: "string \<Rightarrow> bool" where
  "IsNativeResource name \<longleftrightarrow> \<not> Contains name ''/'' \<or> IsPrefixedNativeResource name"

definition IsExtendedResourceName :: "string \<Rightarrow> bool" where
  "IsExtendedResourceName name =
     (if IsNativeResource name \<or> HasPrefix name ''requests.'' then False
      else if length (IsQualifiedName (''requests.'' @ name)) \<noteq> 0 then False
      else True)"

definition IsHugePageResourceName :: "string \<Rightarrow> bool" where
  "IsHugePageResourceName name = HasPrefix name ''hugepages-''"

definition IsAttachableVolumeResourceName :: "string \<Rightarrow> bool" where
  "IsAttachableVolumeResourceName name = HasPrefix name ''attachable-volumes-''"

definition IsScalarResourceName :: "string \<Rightarrow> bool" where
  "IsScalarResourceName name \<longleftrightarrow>
     IsExtendedResourceName name \<or> IsHugePageResourceName name \<or>
     IsPrefixedNativeResource name \<or> IsAttachableVolumeResourceName name"

section \<open>Resources\<close>

record feature_gates =
  LocalStorageCapacityIsolation :: bool
  PodOverhead :: bool
  PreferNominatedNode :: bool

record Resource =
  r_MilliCPU :: "64 word"
  r_Memory :: "64 word"
  r_EphemeralStorage :: "64 word"
  r_AllowedPodNumber :: "64 word"
  r_ScalarResources :: "string \<rightharpoonup> 64 word"

definition zero_Resource :: Resource where
  "zero_Resource = \<lparr>r_MilliCPU = 0, r_Memory = 0, r_EphemeralStorage = 0, r_AllowedPodNumber = 0, r_ScalarResources = Map.empty\<rparr>"

text \<open>Reading an absent key of a Go map gives zero.\<close>

definition scalar_at :: "(string \<rightharpoonup> 64 word) \<Rightarrow> string \<Rightarrow> 64 word" where
  "scalar_at m name = (case m name of None \<Rightarrow> 0 | Some v \<Rightarrow> v)"

definition SetScalar :: "Resource \<Rightarrow> string \<Rightarrow> 64 word \<Rightarrow> Resource" where
  "SetScalar r name quantity = r\<lparr>r_ScalarResources := (r_ScalarResources r)(name \<mapsto> quantity)\<rparr>"

definition AddScalar :: "Resource \<Rightarrow> string \<Rightarrow> 64 word \<Rightarrow> Resource" where
  "AddScalar r name quantity = SetScalar r name (scalar_at (r_ScalarResources r) name + quantity)"

fun Resource_Add :: "feature_gates \<Rightarrow> Resource \<Rightarrow> ResourceList \<Rightarrow> Resource" where
  "Resource_Add g r [] = r"
| "Resource_Add g r ((rName, rQuant) # rl) =
     Resource_Add g
       (if rName = ''cpu'' then r\<lparr>r_MilliCPU := r_MilliCPU r + q_MilliValue rQuant\<rparr>
        else if rName = ''memory'' then r\<lparr>r_Memory := r_Memory r + q_Value rQuant\<rparr>
        else if rName = ''pods'' then r\<lparr>r_AllowedPodNumber := r_AllowedPodNumber r + q_Value rQuant\<rparr>
        else if rName = ''ephemeral-storage'' then
          (if LocalStorageCapacityIsolation g
           then r\<lparr>r_EphemeralStorage := r_EphemeralStorage r + q_Value rQuant\<rparr> else r)
        else if IsScalarResourceName rName then AddScalar r rName (q_Value rQuant)
        else r) rl"

definition NewResource :: "feature_gates \<Rightarrow> ResourceList \<Rightarrow> Resource" where
  "NewResource g rl = Resource_Add g zero_Resource rl"

fun SetMaxResource :: "feature_gates \<Rightarrow> Resource \<Rightarrow> ResourceList \<Rightarrow> Resource" where
  "SetMaxResource g r [] = r"
| "SetMaxResource g r ((rName, rQuantity) # rl) =
     SetMaxResource g
       (if rName = ''memory'' then
          (if sint (q_Value rQuantity) > sint (r_Memory r) then r\<lparr>r_Memory := q_Value rQuantity\<rparr> else r)
        else if rName = ''cpu'' then
          (if sint (q_MilliValue rQuantity) > sint (r_MilliCPU r) then r\<lparr>r_MilliCPU := q_MilliValue rQuantity\<rparr> else r)
        else if rName = ''ephemeral-storage'' then
          (if LocalStorageCapacityIsolation g then
             (if sint (q_Value rQuantity) > sint (r_EphemeralStorage r)
              then r\<lparr>r_EphemeralStorage := q_Value rQuantity\<rparr> else r)
           else r)
        else if IsScalarResourceName rName then
          (if sint (q_Value rQuantity) > sint (scalar_at (r_ScalarResources r) rName)
           then SetScalar r rName (q_Value rQuantity) else r)
        else r) rl"

definition Resource_Clone :: "Resource \<Rightarrow> Resource" where
  "Resource_Clone r =
     \<lparr>r_MilliCPU = r_MilliCPU r, r_Memory = r_Memory r, r_EphemeralStorage = r_EphemeralStorage r,
      r_AllowedPodNumber = r_AllowedPodNumber r, r_ScalarResources = r_ScalarResources r\<rparr>"

section \<open>Requests that default when absent\<close>

definition DefaultMilliCPURequest :: "64 word" where
  "DefaultMilliCPURequest = 100"

definition DefaultMemoryRequest :: "64 word" where
  "DefaultMemoryRequest = 200 * 1024 * 1024"

definition GetNonzeroRequestForResource :: "feature_gates \<Rightarrow> string \<Rightarrow> ResourceList \<Rightarrow> 64 word" where
  "GetNonzeroRequestForResource g resource requests =
     (if resource = ''cpu'' then
        (case map_of requests ''cpu'' of None \<Rightarrow> DefaultMilliCPURequest | Some q \<Rightarrow> q_MilliValue q)
      else if resource = ''memory'' then
        (case map_of requests ''memory'' of None \<Rightarrow> DefaultMemoryRequest | Some q \<Rightarrow> q_Value q)
      else if resource = ''ephemeral-storage'' then
        (if \<not> LocalStorageCapacityIsolation g then 0
         else (case map_of requests ''ephemeral-storage'' of None \<Rightarrow> 0 | Some q \<Rightarrow> q_Value q))
      else if IsScalarResourceName resource then
        (case map_of requests resource of None \<Rightarrow> 0 | Some q \<Rightarrow> q_Value q)
      else 0)"

definition GetNonzeroRequests :: "feature_gates \<Rightarrow> ResourceList \<Rightarrow> 64 word \<times> 64 word" where
  "GetNonzeroRequests g requests =
     (GetNonzeroRequestForResource g ''cpu'' requests, GetNonzeroRequestForResource g ''memory'' requests)"

section \<open>The request of a pod\<close>

fun container_sum :: "feature_gates \<Rightarrow> container list \<Rightarrow> Resource \<times> 64 word \<times> 64 word \<Rightarrow> Resource \<times> 64 word \<times> 64 word" where
  "container_sum g [] acc = acc"
| "container_sum g (c # cs) (res, non0CPU, non0Mem) =
     (let (non0CPUReq, non0MemReq) = GetNonzeroRequests g (co_Requests c) in
      container_sum g cs (Resource_Add g res (co_Requests c), non0CPU + non0CPUReq, non0Mem + non0MemReq))"

fun init_max :: "feature_gates \<Rightarrow> container list \<Rightarrow> Resource \<times> 64 word \<times> 64 word \<Rightarrow> Resource \<times> 64 word \<times> 64 word" where
  "init_max g [] acc = acc"
| "init_max g (ic # ics) (res, non0CPU, non0Mem) =
     (let (non0CPUReq, non0MemReq) = GetNonzeroRequests g (co_Requests ic) in
      init_max g ics (SetMaxResource g res (co_Requests ic),
        if sint non0CPU < sint non0CPUReq then non0CPUReq else non0CPU,
        if sint non0Mem < sint non0MemReq then non0MemReq else non0Mem))"

definition calculateResource :: "feature_gates \<Rightarrow> pod \<Rightarrow> Resource \<times> 64 word \<times> 64 word" where
  "calculateResource g pod =
     (let (res, non0CPU, non0Mem) =
            init_max g (p_InitContainers pod) (container_sum g (p_Containers pod) (zero_Resource, 0, 0)) in
      case p_Overhead pod of
        None \<Rightarrow> (res, non0CPU, non0Mem)
      | Some overhead \<Rightarrow>
          (if PodOverhead g then
             (Resource_Add g res overhead,
              (case map_of overhead ''cpu'' of None \<Rightarrow> non0CPU | Some q \<Rightarrow> non0CPU + q_MilliValue q),
              (case map_of overhead ''memory'' of None \<Rightarrow> non0Mem | Some q \<Rightarrow> non0Mem + q_Value q))
           else (res, non0CPU, non0Mem)))"

section \<open>Host ports\<close>

type_synonym ProtocolPort = "string \<times> int"

type_synonym HostPortInfo = "string \<rightharpoonup> ProtocolPort set"

abbreviation DefaultBindAllHostIP :: string where
  "DefaultBindAllHostIP \<equiv> ''0.0.0.0''"

definition NewProtocolPort :: "string \<Rightarrow> int \<Rightarrow> ProtocolPort" where
  "NewProtocolPort protocol port = (if length protocol = 0 then (''TCP'', port) else (protocol, port))"

definition sanitize :: "string \<times> string \<Rightarrow> string \<times> string" where
  "sanitize x =
     (if length (fst x) = 0 then DefaultBindAllHostIP else fst x, if length (snd x) = 0 then ''TCP'' else snd x)"

definition HostPortInfo_Add :: "HostPortInfo \<Rightarrow> string \<Rightarrow> string \<Rightarrow> int \<Rightarrow> HostPortInfo" where
  "HostPortInfo_Add h ip0 protocol0 port =
     (if port \<le> 0 then h
      else
        let (ip, protocol) = sanitize (ip0, protocol0); pp = NewProtocolPort protocol port in
        case h ip of None \<Rightarrow> h(ip \<mapsto> {pp}) | Some m \<Rightarrow> h(ip \<mapsto> insert pp m))"

definition HostPortInfo_Remove :: "HostPortInfo \<Rightarrow> string \<Rightarrow> string \<Rightarrow> int \<Rightarrow> HostPortInfo" where
  "HostPortInfo_Remove h ip0 protocol0 port =
     (if port \<le> 0 then h
      else
        let (ip, protocol) = sanitize (ip0, protocol0); pp = NewProtocolPort protocol port in
        case h ip of
          None \<Rightarrow> h
        | Some m \<Rightarrow> (if m - {pp} = {} then h(ip := None) else h(ip \<mapsto> m - {pp})))"

definition HostPortInfo_Len :: "string list \<Rightarrow> HostPortInfo \<Rightarrow> nat" where
  "HostPortInfo_Len order h = (\<Sum>ip\<leftarrow>order. case h ip of None \<Rightarrow> 0 | Some m \<Rightarrow> card m)"

definition port_in :: "HostPortInfo \<Rightarrow> string \<Rightarrow> ProtocolPort \<Rightarrow> bool" where
  "port_in h key pp = (case h key of None \<Rightarrow> False | Some m \<Rightarrow> pp \<in> m)"

text \<open>The loop over all addresses visits them in the given order.\<close>

definition CheckConflict :: "string list \<Rightarrow> HostPortInfo \<Rightarrow> string \<Rightarrow> string \<Rightarrow> int \<Rightarrow> bool" where
  "CheckConflict order h ip0 protocol0 port =
     (if port \<le> 0 then False
      else
        let (ip, protocol) = sanitize (ip0, protocol0); pp = NewProtocolPort protocol port in
        if ip = DefaultBindAllHostIP then list_ex (\<lambda>key. port_in h key pp) order
        else list_ex (\<lambda>key. port_in h key pp) [DefaultBindAllHostIP, ip])"

section \<open>Nodes and their pods\<close>

record podInfo =
  pi_Pod :: pod

definition NewPodInfo :: "pod \<Rightarrow> podInfo" where
  "NewPodInfo pod = \<lparr>pi_Pod = pod\<rparr>"

record imageStateSummary =
  is_Size :: int
  is_NumNodes :: int

record NodeInfo =
  ni_node :: "node option"
  ni_Pods :: "podInfo list"
  ni_PodsWithAffinity :: "podInfo list"
  ni_PodsWithRequiredAntiAffinity :: "podInfo list"
  ni_UsedPorts :: HostPortInfo
  ni_Requested :: Resource
  ni_NonZeroRequested :: Resource
  ni_Allocatable :: Resource
  ni_ImageStates :: "string \<rightharpoonup> imageStateSummary"
  ni_Generation :: int

definition nextGeneration :: "int \<Rightarrow> int" where
  "nextGeneration gen = gen + 1"

definition GetPodKey :: "pod \<Rightarrow> go_error + string" where
  "GetPodKey pod =
     (if length (p_UID pod) = 0 then Inl (Errorf ''Cannot get cache key for pod with empty UID'')
      else Inr (p_UID pod))"

definition podWithAffinity :: "pod \<Rightarrow> bool" where
  "podWithAffinity p =
     (case p_Affinity p of
        None \<Rightarrow> False
      | Some a \<Rightarrow> af_PodAffinity a \<noteq> None \<or> af_PodAntiAffinity a \<noteq> None)"

definition podWithRequiredAntiAffinity :: "pod \<Rightarrow> bool" where
  "podWithRequiredAntiAffinity p =
     (case p_Affinity p of
        None \<Rightarrow> False
      | Some a \<Rightarrow> (case af_PodAntiAffinity a of None \<Rightarrow> False | Some t \<Rightarrow> length (pa_Required t) \<noteq> 0))"

definition pod_ports :: "pod \<Rightarrow> containerPort list" where
  "pod_ports pod = concat (map co_Ports (p_Containers pod))"

definition updateUsedPorts :: "HostPortInfo \<Rightarrow> pod \<Rightarrow> bool \<Rightarrow> HostPortInfo" where
  "updateUsedPorts h pod add =
     foldl (\<lambda>h c. foldl (\<lambda>h p.
         if add then HostPortInfo_Add h (cp_HostIP p) (cp_Protocol p) (cp_HostPort p)
         else HostPortInfo_Remove h (cp_HostIP p) (cp_Protocol p) (cp_HostPort p)) h (co_Ports c)) h (p_Containers pod)"

text \<open>\<open>for rName, rQuant := range res.ScalarResources\<close> visits every key once, so the loop is
  written key by key.\<close>

definition add_scalars :: "(string \<rightharpoonup> 64 word) \<Rightarrow> (string \<rightharpoonup> 64 word) \<Rightarrow> (string \<rightharpoonup> 64 word)" where
  "add_scalars m res = (\<lambda>k. case res k of None \<Rightarrow> m k | Some v \<Rightarrow> Some (scalar_at m k + v))"

definition sub_scalars :: "(string \<rightharpoonup> 64 word) \<Rightarrow> (string \<rightharpoonup> 64 word) \<Rightarrow> (string \<rightharpoonup> 64 word)" where
  "sub_scalars m res = (\<lambda>k. case res k of None \<Rightarrow> m k | Some v \<Rightarrow> Some (scalar_at m k - v))"

definition AddPodInfo :: "feature_gates \<Rightarrow> NodeInfo \<times> int \<Rightarrow> podInfo \<Rightarrow> NodeInfo \<times> int" where
  "AddPodInfo g ns podInfo =
     (let (n, gen) = ns; pod = pi_Pod podInfo;
          (res, non0CPU, non0Mem) = calculateResource g pod;
          req = ni_Requested n; nz = ni_NonZeroRequested n in
      (n\<lparr>ni_Requested := req\<lparr>r_MilliCPU := r_MilliCPU req + r_MilliCPU res, r_Memory := r_Memory req + r_Memory res,
             r_EphemeralStorage := r_EphemeralStorage req + r_EphemeralStorage res,
             r_ScalarResources := add_scalars (r_ScalarResources req) (r_ScalarResources res)\<rparr>,
         ni_NonZeroRequested := nz\<lparr>r_MilliCPU := r_MilliCPU nz + non0CPU, r_Memory := r_Memory nz + non0Mem\<rparr>,
         ni_Pods := ni_Pods n @ [podInfo],
         ni_PodsWithAffinity :=
           (if podWithAffinity pod then ni_PodsWithAffinity n @ [podInfo] else ni_PodsWithAffinity n),
         ni_PodsWithRequiredAntiAffinity :=
           (if podWithRequiredAntiAffinity pod then ni_PodsWithRequiredAntiAffinity n @ [podInfo]
            else ni_PodsWithRequiredAntiAffinity n),
         ni_UsedPorts := updateUsedPorts (ni_UsedPorts n) pod True,
         ni_Generation := nextGeneration gen\<rparr>, nextGeneration gen))"

definition AddPod :: "feature_gates \<Rightarrow> NodeInfo \<times> int \<Rightarrow> pod \<Rightarrow> NodeInfo \<times> int" where
  "AddPod g ns pod = AddPodInfo g ns (NewPodInfo pod)"

definition NewNodeInfo :: "feature_gates \<Rightarrow> int \<Rightarrow> pod list \<Rightarrow> NodeInfo \<times> int" where
  "NewNodeInfo g gen pods =
     foldl (AddPod g)
       (\<lparr>ni_node = None, ni_Pods = [], ni_PodsWithAffinity = [], ni_PodsWithRequiredAntiAffinity = [],
         ni_UsedPorts = Map.empty, ni_Requested = zero_Resource, ni_NonZeroRequested = zero_Resource,
         ni_Allocatable = zero_Resource, ni_ImageStates = Map.empty, ni_Generation = nextGeneration gen\<rparr>,
        nextGeneration gen) pods"

definition NodeInfo_Clone :: "NodeInfo \<Rightarrow> NodeInfo" where
  "NodeInfo_Clone n =
     \<lparr>ni_node = ni_node n, ni_Pods = ni_Pods n, ni_PodsWithAffinity = ni_PodsWithAffinity n,
      ni_PodsWithRequiredAntiAffinity = ni_PodsWithRequiredAntiAffinity n, ni_UsedPorts = ni_UsedPorts n,
      ni_Requested = Resource_Clone (ni_Requested n), ni_NonZeroRequested = Resource_Clone (ni_NonZeroRequested n),
      ni_Allocatable = Resource_Clone (ni_Allocatable n), ni_ImageStates = ni_ImageStates n,
      ni_Generation = ni_Generation n\<rparr>"

text \<open>Overwrite the element with the last one and cut the slice.\<close>

definition swap_remove :: "nat \<Rightarrow> 'a list \<Rightarrow> 'a list" where
  "swap_remove i s = butlast (s[i := last s])"

definition has_key :: "string \<Rightarrow> podInfo \<Rightarrow> bool" where
  "has_key k p = (case GetPodKey (pi_Pod p) of Inl _ \<Rightarrow> False | Inr k2 \<Rightarrow> k = k2)"

definition removeFromSlice :: "podInfo list \<Rightarrow> string \<Rightarrow> podInfo list" where
  "removeFromSlice s k = (case find_index (has_key k) s of None \<Rightarrow> s | Some i \<Rightarrow> swap_remove i s)"

text \<open>When no pod has the key the error message reads the name of the node, a nil dereference
  when the node object is not set.\<close>

definition RemovePod :: "feature_gates \<Rightarrow> NodeInfo \<times> int \<Rightarrow> pod \<Rightarrow> ((NodeInfo \<times> int) \<times> go_error option) go" where
  "RemovePod g ns pod =
     (case GetPodKey pod of
        Inl err \<Rightarrow> Some (ns, Some err)
      | Inr k \<Rightarrow>
          (let (n, gen) = ns;
               n1 = n\<lparr>ni_PodsWithAffinity :=
                        (if podWithAffinity pod then removeFromSlice (ni_PodsWithAffinity n) k else ni_PodsWithAffinity n),
                      ni_PodsWithRequiredAntiAffinity :=
                        (if podWithRequiredAntiAffinity pod then removeFromSlice (ni_PodsWithRequiredAntiAffinity n) k
                         else ni_PodsWithRequiredAntiAffinity n)\<rparr> in
           case find_index (has_key k) (ni_Pods n1) of
             None \<Rightarrow>
               (if ni_node n = None then None
                else Some ((n1, gen), Some (Errorf ''no corresponding pod in pods of node'')))
           | Some i \<Rightarrow>
               (let (res, non0CPU, non0Mem) = calculateResource g pod;
                    req = ni_Requested n1; nz = ni_NonZeroRequested n1 in
                Some
                  ((n1\<lparr>ni_Pods := swap_remove i (ni_Pods n1),
                      ni_Requested := req\<lparr>r_MilliCPU := r_MilliCPU req - r_MilliCPU res, r_Memory := r_Memory req - r_Memory res,
                        r_EphemeralStorage := r_EphemeralStorage req - r_EphemeralStorage res,
                        r_ScalarResources := sub_scalars (r_ScalarResources req) (r_ScalarResources res)\<rparr>,
                      ni_NonZeroRequested := nz\<lparr>r_MilliCPU := r_MilliCPU nz - non0CPU, r_Memory := r_Memory nz - non0Mem\<rparr>,
                      ni_UsedPorts := updateUsedPorts (ni_UsedPorts n1) pod False,
                      ni_Generation := nextGeneration gen\<rparr>, nextGeneration gen), None))))"

definition SetNode :: "feature_gates \<Rightarrow> NodeInfo \<times> int \<Rightarrow> node \<Rightarrow> NodeInfo \<times> int" where
  "SetNode g ns node =
     (let (n, gen) = ns in
      (n\<lparr>ni_node := Some node, ni_Allocatable := NewResource g (n_Allocatable node),
         ni_Generation := nextGeneration gen\<rparr>, nextGeneration gen))"

definition RemoveNode :: "NodeInfo \<times> int \<Rightarrow> NodeInfo \<times> int" where
  "RemoveNode ns =
     (let (n, gen) = ns in
      (n\<lparr>ni_node := None, ni_Generation := nextGeneration gen\<rparr>, nextGeneration gen))"

definition FilterOutPods :: "NodeInfo \<Rightarrow> pod list \<Rightarrow> pod list" where
  "FilterOutPods n pods =
     (case ni_node n of
        None \<Rightarrow> pods
      | Some node \<Rightarrow>
          filter (\<lambda>p. p_NodeName p \<noteq> n_Name node \<or>
            (case GetPodKey p of
               Inl _ \<Rightarrow> False
             | Inr podKey \<Rightarrow>
                 list_ex (\<lambda>np. (case GetPodKey (pi_Pod np) of Inl _ \<Rightarrow> [] | Inr k \<Rightarrow> k) = podKey) (ni_Pods n))) pods)"

section \<open>Totals of a node\<close>

text \<open>The amounts a pod contributes, and the totals over a list of pods.\<close>

definition pod_amount :: "feature_gates \<Rightarrow> (Resource \<Rightarrow> 64 word) \<Rightarrow> podInfo \<Rightarrow> 64 word" where
  "pod_amount g f p = f (fst (calculateResource g (pi_Pod p)))"

definition pod_non0 :: "feature_gates \<Rightarrow> (64 word \<times> 64 word \<Rightarrow> 64 word) \<Rightarrow> podInfo \<Rightarrow> 64 word" where
  "pod_non0 g f p = f (snd (calculateResource g (pi_Pod p)))"

definition scalar_amount :: "string \<Rightarrow> Resource \<Rightarrow> 64 word" where
  "scalar_amount name r = scalar_at (r_ScalarResources r) name"

definition total :: "(podInfo \<Rightarrow> 64 word) \<Rightarrow> podInfo list \<Rightarrow> 64 word" where
  "total f ps = (\<Sum>p\<leftarrow>ps. f p)"

definition totals_ok :: "feature_gates \<Rightarrow> NodeInfo \<Rightarrow> bool" where
  "totals_ok g n \<longleftrightarrow>
     r_MilliCPU (ni_Requested n) = total (pod_amount g r_MilliCPU) (ni_Pods n) \<and>
     r_Memory (ni_Requested n) = total (pod_amount g r_Memory) (ni_Pods n) \<and>
     r_EphemeralStorage (ni_Requested n) = total (pod_amount g r_EphemeralStorage) (ni_Pods n) \<and>
     (\<forall>name. scalar_amount name (ni_Requested n) = total (pod_amount g (scalar_amount name)) (ni_Pods n)) \<and>
     r_MilliCPU (ni_NonZeroRequested n) = total (pod_non0 g fst) (ni_Pods n) \<and>
     r_Memory (ni_NonZeroRequested n) = total (pod_non0 g snd) (ni_Pods n)"

definition keys_ok :: "podInfo list \<Rightarrow> bool" where
  "keys_ok ps \<longleftrightarrow> distinct (map (\<lambda>p. p_UID (pi_Pod p)) ps) \<and> (\<forall>p\<in>set ps. p_UID (pi_Pod p) \<noteq> [])"

definition sublists_ok :: "NodeInfo \<Rightarrow> bool" where
  "sublists_ok n \<longleftrightarrow>
     mset (ni_PodsWithAffinity n) = filter_mset (\<lambda>p. podWithAffinity (pi_Pod p)) (mset (ni_Pods n)) \<and>
     mset (ni_PodsWithRequiredAntiAffinity n) = filter_mset (\<lambda>p. podWithRequiredAntiAffinity (pi_Pod p)) (mset (ni_Pods n))"

lemma total_mset: "mset ps = mset qs \<Longrightarrow> total f ps = total f qs"
  unfolding total_def by (metis mset_map sum_mset_sum_list)

lemma total_Nil [simp]: "total f [] = 0"
  by (simp add: total_def)

lemma total_append [simp]: "total f (ps @ qs) = total f ps + total f qs"
  by (simp add: total_def)

lemma total_single [simp]: "total f [p] = f p"
  by (simp add: total_def)

lemma mset_swap_remove: "i < length s \<Longrightarrow> mset (swap_remove i s) = mset s - {#s ! i#}"
proof -
  assume i: "i < length s"
  then obtain t x where s: "s = t @ [x]" by (cases s rule: rev_cases) auto
  show ?thesis
  proof (cases "i = length t")
    case True
    with s show ?thesis by (simp add: swap_remove_def)
  next
    case False
    with i s have "i < length t" by simp
    then have eq: "swap_remove i s = t[i := x]" "s ! i = t ! i"
      using s by (simp_all add: swap_remove_def nth_append list_update_append butlast_append)
    have "mset (t[i := x]) = add_mset x (mset t - {#t ! i#})" using \<open>i < length t\<close> by (rule mset_update)
    then show ?thesis using eq s \<open>i < length t\<close> by simp
  qed
qed

lemma scalar_add: "scalar_at (add_scalars m res) k = scalar_at m k + scalar_at res k"
  by (simp add: scalar_at_def add_scalars_def split: option.split)

lemma scalar_sub: "scalar_at (sub_scalars m res) k = scalar_at m k - scalar_at res k"
  by (simp add: scalar_at_def sub_scalars_def split: option.split)

lemma has_key_iff: "k \<noteq> [] \<Longrightarrow> has_key k p \<longleftrightarrow> p_UID (pi_Pod p) = k"
  by (auto simp: has_key_def GetPodKey_def)

text \<open>What the two operations do to each field.\<close>

lemma AddPodInfo_fields:
  assumes "AddPodInfo g (n, gen) p = (n', gen')"
  shows "ni_node n' = ni_node n" "ni_Pods n' = ni_Pods n @ [p]" "ni_Allocatable n' = ni_Allocatable n"
    "ni_ImageStates n' = ni_ImageStates n"
    "ni_UsedPorts n' = updateUsedPorts (ni_UsedPorts n) (pi_Pod p) True" "gen' = gen + 1" "ni_Generation n' = gen'"
    "totals_ok g n \<Longrightarrow> totals_ok g n'" "sublists_ok n \<Longrightarrow> sublists_ok n'"
proof -
  obtain res c m where calc: "calculateResource g (pi_Pod p) = (res, c, m)" by (metis prod_cases3)
  show "ni_node n' = ni_node n" "ni_Pods n' = ni_Pods n @ [p]" "ni_Allocatable n' = ni_Allocatable n"
    "ni_ImageStates n' = ni_ImageStates n"
    "ni_UsedPorts n' = updateUsedPorts (ni_UsedPorts n) (pi_Pod p) True" "gen' = gen + 1" "ni_Generation n' = gen'"
    using assms by (auto simp: AddPodInfo_def Let_def calc nextGeneration_def)
  show "totals_ok g n'" if "totals_ok g n"
    using assms that
    by (auto simp: AddPodInfo_def Let_def calc totals_ok_def pod_amount_def pod_non0_def scalar_amount_def scalar_add)
  show "sublists_ok n'" if "sublists_ok n"
    using assms that by (auto simp: AddPodInfo_def Let_def calc sublists_ok_def)
qed

text \<open>The fields of a pod that its resources, ports and affinity depend on.\<close>

definition same_spec :: "pod \<Rightarrow> pod \<Rightarrow> bool" where
  "same_spec p q \<longleftrightarrow> p_Containers p = p_Containers q \<and> p_InitContainers p = p_InitContainers q \<and>
     p_Overhead p = p_Overhead q \<and> p_Affinity p = p_Affinity q"

lemma same_spec_refl [simp]: "same_spec p p"
  by (simp add: same_spec_def)

lemma same_spec_eqs:
  assumes "same_spec p q"
  shows "calculateResource g p = calculateResource g q" "podWithAffinity p = podWithAffinity q"
    "podWithRequiredAntiAffinity p = podWithRequiredAntiAffinity q" "pod_ports p = pod_ports q"
    "updateUsedPorts h p add = updateUsedPorts h q add"
  using assms
  by (simp_all add: same_spec_def calculateResource_def podWithAffinity_def podWithRequiredAntiAffinity_def
      pod_ports_def updateUsedPorts_def)

lemma total_remove:
  assumes "x \<in># mset ps" "mset qs = mset ps - {#x#}"
  shows "total f qs = total f ps - f x"
proof -
  have "mset ps = mset (x # qs)" using assms by simp
  then have "total f ps = total f (x # qs)" by (rule total_mset)
  then show ?thesis by (simp add: total_def)
qed

lemma keys_ok_nth_eq:
  "keys_ok ps \<Longrightarrow> p \<in> set ps \<Longrightarrow> q \<in> set ps \<Longrightarrow> p_UID (pi_Pod p) = p_UID (pi_Pod q) \<Longrightarrow> p = q"
  by (auto simp: keys_ok_def distinct_map inj_on_def)

text \<open>On a sublist given by a predicate, removing by key removes the stored pod when the
  predicate holds of it.\<close>

lemma removeFromSlice_mset:
  assumes k: "keys_ok ps" and s: "mset s = filter_mset P (mset ps)"
    and x: "x \<in> set ps" "p_UID (pi_Pod x) = uid" and P: "P x"
  shows "mset (removeFromSlice s uid) = filter_mset P (mset ps - {#x#})"
proof -
  have "uid \<noteq> []" using k x by (auto simp: keys_ok_def)
  have sub: "set s \<subseteq> set ps" using mset_eq_setD [of s "filter P ps"] s by (auto simp: mset_filter)
  have "x \<in># mset s" unfolding s using x P by simp
  then have "find_index (has_key uid) s \<noteq> None"
    using x \<open>uid \<noteq> []\<close> by (auto simp: find_index_None has_key_iff)
  then obtain i where i: "find_index (has_key uid) s = Some i" by blast
  have il: "i < length s" "has_key uid (s ! i)" using find_index_SomeD [OF i] by auto
  then have "s ! i \<in> set ps" using sub nth_mem by blast
  then have "s ! i = x"
    using keys_ok_nth_eq [OF k, of "s ! i" x] il x \<open>uid \<noteq> []\<close> by (auto simp: has_key_iff)
  then show ?thesis using mset_swap_remove [OF il(1)] i s P by (simp add: removeFromSlice_def)
qed

lemma removeFromSlice_absent: "\<forall>p\<in>set s. p_UID (pi_Pod p) \<noteq> uid \<Longrightarrow> uid \<noteq> [] \<Longrightarrow> removeFromSlice s uid = s"
  by (auto simp: removeFromSlice_def has_key_iff find_index_None split: option.split dest!: find_index_SomeD)

lemma RemovePod_found:
  assumes k: "keys_ok (ni_Pods n)" and x: "x \<in> set (ni_Pods n)" "p_UID (pi_Pod x) = p_UID pod" "same_spec (pi_Pod x) pod"
  shows "\<exists>n'. RemovePod g (n, gen) pod = Some ((n', gen + 1), None) \<and>
    mset (ni_Pods n') = mset (ni_Pods n) - {#x#} \<and> ni_node n' = ni_node n \<and> ni_Generation n' = gen + 1 \<and>
    ni_Allocatable n' = ni_Allocatable n \<and> ni_ImageStates n' = ni_ImageStates n \<and>
    ni_UsedPorts n' = updateUsedPorts (ni_UsedPorts n) pod False \<and>
    (totals_ok g n \<longrightarrow> totals_ok g n') \<and> (sublists_ok n \<longrightarrow> sublists_ok n')"
proof -
  have uid: "p_UID pod \<noteq> []" using k x by (auto simp: keys_ok_def)
  then have "find_index (has_key (p_UID pod)) (ni_Pods n) \<noteq> None"
    using x by (auto simp: find_index_None has_key_iff)
  then obtain i where i: "find_index (has_key (p_UID pod)) (ni_Pods n) = Some i" by blast
  have il: "i < length (ni_Pods n)" "has_key (p_UID pod) (ni_Pods n ! i)" using find_index_SomeD [OF i] by auto
  then have xi: "ni_Pods n ! i = x"
    using keys_ok_nth_eq [OF k, of "ni_Pods n ! i" x] x uid by (auto simp: has_key_iff)
  obtain res c m where calc: "calculateResource g pod = (res, c, m)" by (metis prod_cases3)
  have am: "pod_amount g f x = f res" "pod_non0 g h x = h (c, m)" for f h
    using same_spec_eqs(1) [OF x(3), of g] calc by (simp_all add: pod_amount_def pod_non0_def)
  have key: "GetPodKey pod = Inr (p_UID pod)" using uid by (simp add: GetPodKey_def)
  obtain n' where run: "RemovePod g (n, gen) pod = Some ((n', gen + 1), None)"
    and f: "ni_Pods n' = swap_remove i (ni_Pods n)" "ni_node n' = ni_node n" "ni_Generation n' = gen + 1"
      "ni_Allocatable n' = ni_Allocatable n" "ni_ImageStates n' = ni_ImageStates n"
      "ni_UsedPorts n' = updateUsedPorts (ni_UsedPorts n) pod False"
    and req: "r_MilliCPU (ni_Requested n') = r_MilliCPU (ni_Requested n) - r_MilliCPU res"
      "r_Memory (ni_Requested n') = r_Memory (ni_Requested n) - r_Memory res"
      "r_EphemeralStorage (ni_Requested n') = r_EphemeralStorage (ni_Requested n) - r_EphemeralStorage res"
      "r_ScalarResources (ni_Requested n') = sub_scalars (r_ScalarResources (ni_Requested n)) (r_ScalarResources res)"
      "r_MilliCPU (ni_NonZeroRequested n') = r_MilliCPU (ni_NonZeroRequested n) - c"
      "r_Memory (ni_NonZeroRequested n') = r_Memory (ni_NonZeroRequested n) - m"
    and sub: "ni_PodsWithAffinity n' = (if podWithAffinity pod then removeFromSlice (ni_PodsWithAffinity n) (p_UID pod) else ni_PodsWithAffinity n)"
      "ni_PodsWithRequiredAntiAffinity n' = (if podWithRequiredAntiAffinity pod then removeFromSlice (ni_PodsWithRequiredAntiAffinity n) (p_UID pod)
          else ni_PodsWithRequiredAntiAffinity n)"
    by (simp add: RemovePod_def Let_def key i calc nextGeneration_def)
  have m': "mset (ni_Pods n') = mset (ni_Pods n) - {#x#}" using f(1) mset_swap_remove [OF il(1)] xi by simp
  have t: "total h (ni_Pods n') = total h (ni_Pods n) - h x" for h
    by (rule total_remove) (use x(1) m' in auto)
  have "totals_ok g n'" if "totals_ok g n"
    using that by (simp add: totals_ok_def t am req scalar_amount_def scalar_sub)
  moreover have "sublists_ok n'" if s: "sublists_ok n"
  proof -
    have "mset (ni_PodsWithAffinity n') = filter_mset (\<lambda>p. podWithAffinity (pi_Pod p)) (mset (ni_Pods n) - {#x#})"
      using removeFromSlice_mset [OF k _ x(1,2), of "ni_PodsWithAffinity n" "\<lambda>p. podWithAffinity (pi_Pod p)"] s
        same_spec_eqs(2) [OF x(3)] sub(1) by (auto simp: sublists_ok_def)
    moreover have "mset (ni_PodsWithRequiredAntiAffinity n') =
        filter_mset (\<lambda>p. podWithRequiredAntiAffinity (pi_Pod p)) (mset (ni_Pods n) - {#x#})"
      using removeFromSlice_mset [OF k _ x(1,2), of "ni_PodsWithRequiredAntiAffinity n" "\<lambda>p. podWithRequiredAntiAffinity (pi_Pod p)"] s
        same_spec_eqs(3) [OF x(3)] sub(2) by (auto simp: sublists_ok_def)
    ultimately show ?thesis by (simp add: sublists_ok_def m')
  qed
  ultimately show ?thesis using run f m' by blast
qed

section \<open>Ports of a node\<close>

definition port_key :: "containerPort \<Rightarrow> (string \<times> ProtocolPort) option" where
  "port_key p =
     (if cp_HostPort p \<le> 0 then None
      else let (ip, protocol) = sanitize (cp_HostIP p, cp_Protocol p) in Some (ip, protocol, cp_HostPort p))"

definition pod_port_keys :: "pod \<Rightarrow> (string \<times> ProtocolPort) list" where
  "pod_port_keys pod = List.map_filter port_key (pod_ports pod)"

definition ports_of :: "HostPortInfo \<Rightarrow> (string \<times> ProtocolPort) set" where
  "ports_of h = {(ip, pp). port_in h ip pp}"

lemma NewProtocolPort_sanitized: "sanitize x = (ip, protocol) \<Longrightarrow> NewProtocolPort protocol port = (protocol, port)"
  by (auto simp: sanitize_def NewProtocolPort_def split: if_splits)

lemma ports_of_Add:
  "ports_of (HostPortInfo_Add h (cp_HostIP p) (cp_Protocol p) (cp_HostPort p)) = ports_of h \<union> set_option (port_key p)"
proof -
  obtain ip pr where s: "sanitize (cp_HostIP p, cp_Protocol p) = (ip, pr)" by fastforce
  show ?thesis
    by (auto simp: HostPortInfo_Add_def Let_def port_key_def s NewProtocolPort_sanitized [OF s] ports_of_def port_in_def
        split: option.splits if_splits)
qed

lemma ports_of_Remove:
  "ports_of (HostPortInfo_Remove h (cp_HostIP p) (cp_Protocol p) (cp_HostPort p)) = ports_of h - set_option (port_key p)"
proof -
  obtain ip pr where s: "sanitize (cp_HostIP p, cp_Protocol p) = (ip, pr)" by fastforce
  show ?thesis
    by (auto simp: HostPortInfo_Remove_def Let_def port_key_def s NewProtocolPort_sanitized [OF s] ports_of_def port_in_def
        split: option.splits if_splits)
qed

lemma foldl_concat_map: "foldl (\<lambda>h c. foldl f h (k c)) h cs = foldl f h (concat (map k cs))"
  by (induction cs arbitrary: h) simp_all

lemma ports_of_update:
  "ports_of (updateUsedPorts h pod add) =
     (if add then ports_of h \<union> set (pod_port_keys pod) else ports_of h - set (pod_port_keys pod))"
proof -
  have u: "updateUsedPorts h pod add = foldl (\<lambda>h p.
         if add then HostPortInfo_Add h (cp_HostIP p) (cp_Protocol p) (cp_HostPort p)
         else HostPortInfo_Remove h (cp_HostIP p) (cp_Protocol p) (cp_HostPort p)) h (pod_ports pod)"
    unfolding updateUsedPorts_def pod_ports_def by (rule foldl_concat_map)
  have keys: "set (List.map_filter port_key ps) = (\<Union>p\<in>set ps. set_option (port_key p))" for ps
    by (induction ps) (auto simp: map_filter_simps split: option.split)
  have "ports_of (foldl (\<lambda>h p.
         if add then HostPortInfo_Add h (cp_HostIP p) (cp_Protocol p) (cp_HostPort p)
         else HostPortInfo_Remove h (cp_HostIP p) (cp_Protocol p) (cp_HostPort p)) h ps) =
     (if add then ports_of h \<union> (\<Union>p\<in>set ps. set_option (port_key p)) else ports_of h - (\<Union>p\<in>set ps. set_option (port_key p)))" for ps
    by (induction ps arbitrary: h) (auto simp: ports_of_Add ports_of_Remove)
  then show ?thesis by (simp add: u pod_port_keys_def keys)
qed

text \<open>\<open>CheckConflict\<close> finds every pair of equal protocol and port whose addresses are equal or
  one of which is the wildcard.\<close>

lemma CheckConflict_iff:
  assumes "range_order order h"
  shows "CheckConflict order h (cp_HostIP p) (cp_Protocol p) (cp_HostPort p) \<longleftrightarrow>
    (\<exists>ip ip' pp. port_key p = Some (ip, pp) \<and> (ip', pp) \<in> ports_of h \<and>
      (ip = ip' \<or> ip = DefaultBindAllHostIP \<or> ip' = DefaultBindAllHostIP))"
proof -
  obtain ip pr where s: "sanitize (cp_HostIP p, cp_Protocol p) = (ip, pr)" by fastforce
  have "port_in h key pp \<Longrightarrow> key \<in> set order" for key pp
    using assms by (auto simp: range_order_def port_in_def split: option.splits)
  then have "list_ex (\<lambda>key. port_in h key pp) order \<longleftrightarrow> (\<exists>key. port_in h key pp)" for pp
    unfolding list_ex_iff by blast
  then show ?thesis
    by (auto simp: CheckConflict_def Let_def port_key_def s NewProtocolPort_sanitized [OF s] ports_of_def)
qed

lemma CheckConflict_fresh:
  assumes "range_order order h"
    "\<forall>p\<in>set (pod_ports pod). \<not> CheckConflict order h (cp_HostIP p) (cp_Protocol p) (cp_HostPort p)"
  shows "ports_of h \<inter> set (pod_port_keys pod) = {}"
proof -
  have "x \<notin> ports_of h" if x: "x \<in> set (pod_port_keys pod)" for x
  proof -
    obtain p where p: "p \<in> set (pod_ports pod)" "port_key p = Some x"
      using x by (auto simp: pod_port_keys_def map_filter_def)
    obtain ip pp where "x = (ip, pp)" by (cases x) blast
    then show ?thesis using p assms(2) CheckConflict_iff [OF assms(1), of p] by auto
  qed
  then show ?thesis by blast
qed

definition all_port_keys :: "podInfo list \<Rightarrow> (string \<times> ProtocolPort) set" where
  "all_port_keys ps = (\<Union>p\<in>set ps. set (pod_port_keys (pi_Pod p)))"

section \<open>Histories of a node\<close>

datatype ni_op = NiAdd pod | NiRemove pod | NiSetNode node | NiRemoveNode

fun ni_step :: "feature_gates \<Rightarrow> ni_op \<Rightarrow> NodeInfo \<times> int \<Rightarrow> (NodeInfo \<times> int) go" where
  "ni_step g (NiAdd pod) ns = Some (AddPod g ns pod)"
| "ni_step g (NiRemove pod) ns = map_option fst (RemovePod g ns pod)"
| "ni_step g (NiSetNode node) ns = Some (SetNode g ns node)"
| "ni_step g NiRemoveNode ns = Some (RemoveNode ns)"

text \<open>What the callers keep to: a pod is added once, under a non-empty UID, and removed with the
  spec it was added with (specs do not change in these fields). With \<open>nc\<close> the added pods have
  also passed the port conflict check against each other.\<close>

fun ni_allowed :: "bool \<Rightarrow> ni_op \<Rightarrow> NodeInfo \<Rightarrow> bool" where
  "ni_allowed nc (NiAdd pod) n \<longleftrightarrow>
     p_UID pod \<noteq> [] \<and> p_UID pod \<notin> (\<lambda>p. p_UID (pi_Pod p)) ` set (ni_Pods n) \<and>
     (nc \<longrightarrow> all_port_keys (ni_Pods n) \<inter> set (pod_port_keys pod) = {})"
| "ni_allowed nc (NiRemove pod) n \<longleftrightarrow>
     (\<forall>x\<in>set (ni_Pods n). p_UID (pi_Pod x) = p_UID pod \<longrightarrow> same_spec (pi_Pod x) pod)"
| "ni_allowed nc (NiSetNode node) n \<longleftrightarrow> True"
| "ni_allowed nc NiRemoveNode n \<longleftrightarrow> True"

inductive ni_reachable :: "feature_gates \<Rightarrow> bool \<Rightarrow> NodeInfo \<times> int \<Rightarrow> bool" for g nc where
  ni_new: "ni_reachable g nc (NewNodeInfo g gen [])"
| ni_next: "ni_reachable g nc ns \<Longrightarrow> ni_allowed nc x (fst ns) \<Longrightarrow> ni_step g x ns = Some ns' \<Longrightarrow> ni_reachable g nc ns'"

definition disjoint_ports :: "podInfo list \<Rightarrow> bool" where
  "disjoint_ports ps \<longleftrightarrow>
     (\<forall>p\<in>set ps. \<forall>q\<in>set ps. p \<noteq> q \<longrightarrow> set (pod_port_keys (pi_Pod p)) \<inter> set (pod_port_keys (pi_Pod q)) = {})"

definition ni_inv :: "feature_gates \<Rightarrow> bool \<Rightarrow> NodeInfo \<Rightarrow> bool" where
  "ni_inv g nc n \<longleftrightarrow> totals_ok g n \<and> sublists_ok n \<and> keys_ok (ni_Pods n) \<and>
     ports_of (ni_UsedPorts n) \<subseteq> all_port_keys (ni_Pods n) \<and>
     (nc \<longrightarrow> disjoint_ports (ni_Pods n) \<and> ports_of (ni_UsedPorts n) = all_port_keys (ni_Pods n))"

lemma ni_inv_new: "ni_inv g nc (fst (NewNodeInfo g gen []))"
  by (simp add: NewNodeInfo_def ni_inv_def totals_ok_def sublists_ok_def keys_ok_def ports_of_def port_in_def
      all_port_keys_def disjoint_ports_def zero_Resource_def scalar_amount_def scalar_at_def)

lemma ni_inv_AddPod:
  assumes inv: "ni_inv g nc n" and ok: "ni_allowed nc (NiAdd pod) n"
  shows "ni_inv g nc (fst (AddPod g (n, gen) pod))"
proof -
  obtain n' gen' where r: "AddPodInfo g (n, gen) (NewPodInfo pod) = (n', gen')" by fastforce
  note f = AddPodInfo_fields [OF r]
  have "keys_ok (ni_Pods n')" using inv ok by (auto simp: f(2) ni_inv_def keys_ok_def NewPodInfo_def)
  moreover have "ports_of (ni_UsedPorts n') = ports_of (ni_UsedPorts n) \<union> set (pod_port_keys pod)"
    by (simp add: f(5) ports_of_update NewPodInfo_def)
  moreover have "all_port_keys (ni_Pods n') = all_port_keys (ni_Pods n) \<union> set (pod_port_keys pod)"
    by (auto simp: f(2) all_port_keys_def NewPodInfo_def)
  moreover have "disjoint_ports (ni_Pods n')" if nc
    using inv ok that by (auto simp: f(2) ni_inv_def disjoint_ports_def all_port_keys_def NewPodInfo_def)
  ultimately show ?thesis using inv f(8,9) r by (auto simp: ni_inv_def AddPod_def)
qed

lemma RemovePod_absent:
  assumes "sublists_ok n" "\<forall>x\<in>set (ni_Pods n). p_UID (pi_Pod x) \<noteq> p_UID pod"
    and run: "RemovePod g (n, gen) pod = Some ((n', gen'), err)"
  shows "n' = n"
proof (cases "p_UID pod = []")
  case True
  then show ?thesis using run by (simp add: RemovePod_def GetPodKey_def)
next
  case uid: False
  have sub: "set (ni_PodsWithAffinity n) \<subseteq> set (ni_Pods n)" "set (ni_PodsWithRequiredAntiAffinity n) \<subseteq> set (ni_Pods n)"
    using assms(1) mset_eq_setD [of "ni_PodsWithAffinity n" "filter (\<lambda>p. podWithAffinity (pi_Pod p)) (ni_Pods n)"]
      mset_eq_setD [of "ni_PodsWithRequiredAntiAffinity n" "filter (\<lambda>p. podWithRequiredAntiAffinity (pi_Pod p)) (ni_Pods n)"]
    by (auto simp: sublists_ok_def)
  have "find_index (has_key (p_UID pod)) (ni_Pods n) = None"
    using assms(2) uid by (auto simp: find_index_None has_key_iff)
  moreover have "removeFromSlice (ni_PodsWithAffinity n) (p_UID pod) = ni_PodsWithAffinity n"
    "removeFromSlice (ni_PodsWithRequiredAntiAffinity n) (p_UID pod) = ni_PodsWithRequiredAntiAffinity n"
    using sub assms(2) uid by (auto intro!: removeFromSlice_absent)
  ultimately show ?thesis using run uid
    by (simp add: RemovePod_def Let_def GetPodKey_def split: if_splits)
qed

lemma ni_inv_RemovePod:
  assumes inv: "ni_inv g nc n" and ok: "ni_allowed nc (NiRemove pod) n"
    and run: "RemovePod g (n, gen) pod = Some ((n', gen'), err)"
  shows "ni_inv g nc n'"
proof (cases "\<exists>x\<in>set (ni_Pods n). p_UID (pi_Pod x) = p_UID pod")
  case True
  then obtain x where x: "x \<in> set (ni_Pods n)" "p_UID (pi_Pod x) = p_UID pod" by blast
  have k: "keys_ok (ni_Pods n)" using inv by (simp add: ni_inv_def)
  have sp: "same_spec (pi_Pod x) pod" using ok x by auto
  note f = RemovePod_found [OF k x sp, of g gen]
  have m': "mset (ni_Pods n') = mset (ni_Pods n) - {#x#}" and u: "ni_UsedPorts n' = updateUsedPorts (ni_UsedPorts n) pod False"
    and ts: "totals_ok g n'" "sublists_ok n'"
    using f run inv by (auto simp: ni_inv_def)
  have "mset (ni_Pods n) = mset (x # ni_Pods n')" using m' x(1) by simp
  then have set: "set (ni_Pods n) = insert x (set (ni_Pods n'))" by (metis list.simps(15) mset_eq_setD)
  have "mset (map (\<lambda>p. p_UID (pi_Pod p)) (ni_Pods n)) = mset (map (\<lambda>p. p_UID (pi_Pod p)) (x # ni_Pods n'))"
    using \<open>mset (ni_Pods n) = mset (x # ni_Pods n')\<close> by (metis mset_map)
  then have d: "distinct (map (\<lambda>p. p_UID (pi_Pod p)) (x # ni_Pods n'))"
    using k mset_eq_imp_distinct_iff unfolding keys_ok_def by blast
  have k': "keys_ok (ni_Pods n')" using d k set by (auto simp: keys_ok_def)
  have xn: "x \<notin> set (ni_Pods n')" using d by auto
  have px: "pod_port_keys (pi_Pod x) = pod_port_keys pod" by (simp add: pod_port_keys_def same_spec_eqs(4) [OF sp])
  have po: "ports_of (ni_UsedPorts n') = ports_of (ni_UsedPorts n) - set (pod_port_keys (pi_Pod x))"
    by (simp add: u ports_of_update px)
  have "all_port_keys (ni_Pods n) = all_port_keys (ni_Pods n') \<union> set (pod_port_keys (pi_Pod x))"
    using set by (auto simp: all_port_keys_def)
  moreover have "set (pod_port_keys (pi_Pod x)) \<inter> all_port_keys (ni_Pods n') = {} \<and> disjoint_ports (ni_Pods n')" if nc
  proof
    have "disjoint_ports (ni_Pods n)" using inv \<open>nc\<close> by (simp add: ni_inv_def)
    note dj = this [unfolded disjoint_ports_def set]
    have dis: "set (pod_port_keys (pi_Pod p)) \<inter> set (pod_port_keys (pi_Pod q)) = {}"
      if "p \<in> insert x (set (ni_Pods n'))" "q \<in> insert x (set (ni_Pods n'))" "p \<noteq> q" for p q
      by (rule mp [OF bspec [OF bspec [OF dj that(1)] that(2)] that(3)])
    then show "disjoint_ports (ni_Pods n')" unfolding disjoint_ports_def by blast
    have "set (pod_port_keys (pi_Pod x)) \<inter> set (pod_port_keys (pi_Pod q)) = {}" if "q \<in> set (ni_Pods n')" for q
      using dis [of x q] that xn by auto
    then show "set (pod_port_keys (pi_Pod x)) \<inter> all_port_keys (ni_Pods n') = {}"
      by (auto simp: all_port_keys_def)
  qed
  ultimately show ?thesis using inv k' ts po by (auto simp: ni_inv_def)
next
  case False
  then have "n' = n" using RemovePod_absent run inv by (auto simp: ni_inv_def)
  then show ?thesis using inv by simp
qed

lemma ni_reachable_inv: "ni_reachable g nc ns \<Longrightarrow> ni_inv g nc (fst ns)"
proof (induction rule: ni_reachable.induct)
  case (ni_next ns x ns')
  obtain n gen where ns: "ns = (n, gen)" by fastforce
  show ?case
  proof (cases x)
    case (NiRemove pod)
    obtain n' gen' err where "RemovePod g (n, gen) pod = Some ((n', gen'), err)" "ns' = (n', gen')"
      using ni_next.hyps(3) by (auto simp: NiRemove ns)
    then show ?thesis using ni_inv_RemovePod ni_next.IH ni_next.hyps(2) by (simp add: NiRemove ns)
  next
    case (NiAdd pod)
    then show ?thesis using ni_inv_AddPod [of g nc n pod gen] ni_next.IH ni_next.hyps(2,3) by (simp add: ns)
  next
    case (NiSetNode node)
    then show ?thesis using ni_next.IH ni_next.hyps(3)
      by (auto simp: ns SetNode_def ni_inv_def totals_ok_def sublists_ok_def)
  next
    case NiRemoveNode
    then show ?thesis using ni_next.IH ni_next.hyps(3)
      by (auto simp: ns RemoveNode_def ni_inv_def totals_ok_def sublists_ok_def)
  qed
qed (rule ni_inv_new)

section \<open>Properties\<close>

lemma NodeInfo_Clone_eq [simp]: "NodeInfo_Clone n = n"
  by (simp add: NodeInfo_Clone_def Resource_Clone_def)


definition sample_gates :: feature_gates where
  "sample_gates = \<lparr>LocalStorageCapacityIsolation = True, PodOverhead = True, PreferNominatedNode = True\<rparr>"

definition sample_pod :: "string \<Rightarrow> int \<Rightarrow> 64 word \<Rightarrow> pod" where
  "sample_pod uid port cpu =
     \<lparr>p_UID = uid, p_Name = uid, p_Namespace = ''default'', p_Labels = Map.empty, p_NodeName = ''n1'', p_NodeSelector = Map.empty, p_Tolerations = [],
      p_NominatedNodeName = [], p_Priority = None,
      p_Containers = [\<lparr>co_Requests = [(''cpu'', \<lparr>q_Value = 1, q_MilliValue = cpu\<rparr>)],
        co_Ports = [\<lparr>cp_HostIP = [], cp_Protocol = [], cp_HostPort = port\<rparr>]\<rparr>],
      p_InitContainers = [], p_Overhead = None, p_Affinity = None, p_ResourceVersion = ''1'', p_Generation = 1, p_SchedulerName = ''default-scheduler'',
      p_DeletionTimestamp = None, p_Annotations = [], p_Rest = [], p_Conditions = [], p_Status = []\<rparr>"

lemma sample_ports: "0 < port \<Longrightarrow> pod_port_keys (sample_pod uid port cpu) = [(''0.0.0.0'', ''TCP'', port)]"
  by (simp add: pod_port_keys_def pod_ports_def sample_pod_def map_filter_simps port_key_def sanitize_def)

lemma sample_reachable:
  assumes "p_UID p \<noteq> []" "p_UID q \<noteq> []" "p_UID p \<noteq> p_UID q" "set (pod_port_keys p) \<inter> set (pod_port_keys q) = {}"
  shows "ni_reachable g True (AddPod g (AddPod g (NewNodeInfo g gen []) p) q)"
proof -
  have new: "ni_reachable g True (NewNodeInfo g gen [])" by (rule ni_new)
  have p0: "ni_Pods (fst (NewNodeInfo g gen [])) = []" by (simp add: NewNodeInfo_def)
  have one: "ni_reachable g True (AddPod g (NewNodeInfo g gen []) p)"
    by (rule ni_next [OF new, of "NiAdd p"]) (simp_all add: assms p0 all_port_keys_def)
  have p1: "ni_Pods (fst (AddPod g (NewNodeInfo g gen []) p)) = [NewPodInfo p]"
    by (simp add: AddPod_def AddPodInfo_def Let_def NewNodeInfo_def split: prod.split)
  show ?thesis
    by (rule ni_next [OF one, of "NiAdd q"]) (use assms in \<open>simp_all add: p1 all_port_keys_def NewPodInfo_def\<close>)
qed


lemma sint_total: "sint (total f ps) = wrap64 (\<Sum>p\<leftarrow>ps. sint (f p))"
proof -
  have "total f ps = word_of_int (\<Sum>p\<leftarrow>ps. sint (f p))" by (induction ps) (simp_all add: total_def)
  then show ?thesis by (simp add: wrap64_sint)
qed

text \<open>Read as signed integers, the CPU and memory totals of a node are the true sums of its
  pods' requests brought into 64 bits, and so are the true sums themselves whenever these fit,
  no matter what intermediate totals did.\<close>

theorem ni_totals_bounds:
  assumes "ni_reachable g nc (n, gen)"
  shows "sint (r_MilliCPU (ni_Requested n)) = wrap64 (\<Sum>p\<leftarrow>ni_Pods n. sint (pod_amount g r_MilliCPU p)) \<and>
    sint (r_Memory (ni_Requested n)) = wrap64 (\<Sum>p\<leftarrow>ni_Pods n. sint (pod_amount g r_Memory p)) \<and>
    (in_int64 (\<Sum>p\<leftarrow>ni_Pods n. sint (pod_amount g r_MilliCPU p)) \<longrightarrow>
      sint (r_MilliCPU (ni_Requested n)) = (\<Sum>p\<leftarrow>ni_Pods n. sint (pod_amount g r_MilliCPU p)))"
  using ni_reachable_inv [OF assms] by (simp add: ni_inv_def totals_ok_def sint_total wrap64_id)

theorem ni_totals_bounds_witness:
  "\<exists>n gen. ni_reachable sample_gates True (n, gen) \<and> sint (r_MilliCPU (ni_Requested n)) = 350"
proof -
  let ?p = "sample_pod ''a'' 80 100" and ?q = "sample_pod ''b'' 81 250"
  let ?s = "AddPod sample_gates (AddPod sample_gates (NewNodeInfo sample_gates 0 []) ?p) ?q"
  have uids: "p_UID ?p = ''a''" "p_UID ?q = ''b''" by (simp_all add: sample_pod_def)
  have r: "ni_reachable sample_gates True (fst ?s, snd ?s)"
    using sample_reachable [of ?p ?q sample_gates 0] by (simp add: uids sample_ports)
  have pods: "ni_Pods (fst ?s) = [NewPodInfo ?p, NewPodInfo ?q]"
    by (simp add: AddPod_def AddPodInfo_def Let_def NewNodeInfo_def split: prod.split)
  have amount: "pod_amount sample_gates r_MilliCPU (NewPodInfo (sample_pod u port c)) = c" for u port c
    by (simp add: pod_amount_def NewPodInfo_def sample_pod_def calculateResource_def GetNonzeroRequests_def zero_Resource_def)
  have "sint (r_MilliCPU (ni_Requested (fst ?s))) = 350"
    using ni_totals_bounds [OF r] by (simp add: pods amount in_int64_def max_int64_def)
  then show ?thesis using r by blast
qed

end
