(* ===== verification/Node_Tree.thy ===== *)
theory Node_Tree
  imports Api_Types
begin

text \<open>
  The scheduler's node tree, \<open>pkg/scheduler/internal/cache/node_tree.go\<close>: node names grouped
  by zone, listed round robin over the zones. \<open>GetZoneKey\<close> is from
  \<open>staging/src/k8s.io/component-helpers/node/topology/helpers.go\<close>.

  The theory shows that the three fields stay in step and that \<open>list\<close> ends and returns every
  node name once.
\<close>

section \<open>Zones\<close>

definition label_or_empty :: "(string \<rightharpoonup> string) \<Rightarrow> string \<Rightarrow> string \<Rightarrow> string" where
  "label_or_empty labels k k' =
     (case labels k of
        Some v \<Rightarrow> v
      | None \<Rightarrow> (case labels k' of Some v \<Rightarrow> v | None \<Rightarrow> []))"

definition GetZoneKey :: "node \<Rightarrow> string" where
  "GetZoneKey node =
     (let labels = n_Labels node;
          zone = label_or_empty labels ''failure-domain.beta.kubernetes.io/zone'' ''topology.kubernetes.io/zone'';
          region = label_or_empty labels ''failure-domain.beta.kubernetes.io/region'' ''topology.kubernetes.io/region'' in
      if region = [] \<and> zone = [] then []
      else region @ [CHR '':'', CHR 0x00, CHR '':''] @ zone)"

section \<open>The tree\<close>

record nodeTree =
  nt_tree :: "string \<rightharpoonup> string list"
  nt_zones :: "string list"
  nt_numNodes :: int

definition addNode :: "nodeTree \<Rightarrow> node \<Rightarrow> nodeTree" where
  "addNode nt n =
     (let zone = GetZoneKey n in
      case nt_tree nt zone of
        Some na \<Rightarrow>
          (if n_Name n \<in> set na then nt
           else nt\<lparr>nt_tree := (nt_tree nt)(zone \<mapsto> na @ [n_Name n]), nt_numNodes := nt_numNodes nt + 1\<rparr>)
      | None \<Rightarrow>
          nt\<lparr>nt_zones := nt_zones nt @ [zone], nt_tree := (nt_tree nt)(zone \<mapsto> [n_Name n]),
             nt_numNodes := nt_numNodes nt + 1\<rparr>)"

definition newNodeTree :: "node list \<Rightarrow> nodeTree" where
  "newNodeTree nodes = foldl addNode \<lparr>nt_tree = Map.empty, nt_zones = [], nt_numNodes = 0\<rparr> nodes"

definition removeZone :: "nodeTree \<Rightarrow> string \<Rightarrow> nodeTree" where
  "removeZone nt zone =
     (let nt1 = nt\<lparr>nt_tree := (nt_tree nt)(zone := None)\<rparr> in
      case find_index (\<lambda>z. z = zone) (nt_zones nt1) of
        None \<Rightarrow> nt1
      | Some i \<Rightarrow> nt1\<lparr>nt_zones := remove_at i (nt_zones nt1)\<rparr>)"

definition removeNode :: "nodeTree \<Rightarrow> node \<Rightarrow> nodeTree \<times> go_error option" where
  "removeNode nt n =
     (let zone = GetZoneKey n; err = Some (Errorf ''node was not found'') in
      case nt_tree nt zone of
        None \<Rightarrow> (nt, err)
      | Some na \<Rightarrow>
          (case find_index (\<lambda>nodeName. nodeName = n_Name n) na of
             None \<Rightarrow> (nt, err)
           | Some i \<Rightarrow>
               (let nt1 = nt\<lparr>nt_tree := (nt_tree nt)(zone \<mapsto> remove_at i na)\<rparr>;
                    nt2 = (if length (remove_at i na) = 0 then removeZone nt1 zone else nt1) in
                (nt2\<lparr>nt_numNodes := nt_numNodes nt2 - 1\<rparr>, None))))"

text \<open>\<open>updateNode\<close> with a nil old node calls \<open>removeNode(nil)\<close> when the new node has a zone.\<close>

definition updateNode :: "nodeTree \<Rightarrow> node option \<Rightarrow> node \<Rightarrow> nodeTree go" where
  "updateNode nt old new =
     (let oldZone = (case old of None \<Rightarrow> [] | Some n \<Rightarrow> GetZoneKey n) in
      if oldZone = GetZoneKey new then Some nt
      else (case old of
              None \<Rightarrow> None
            | Some n \<Rightarrow> Some (addNode (fst (removeNode nt n)) new)))"

text \<open>One round over the zones at position \<open>idx\<close>, with the list and the count of exhausted
  zones so far.\<close>

definition zone_nodes :: "nodeTree \<Rightarrow> string \<Rightarrow> string list" where
  "zone_nodes nt z = (case nt_tree nt z of None \<Rightarrow> [] | Some na \<Rightarrow> na)"

fun zone_round :: "nodeTree \<Rightarrow> string list \<Rightarrow> nat \<Rightarrow> string list \<Rightarrow> nat \<Rightarrow> string list \<times> nat" where
  "zone_round nt [] idx nodesList exhausted = (nodesList, exhausted)"
| "zone_round nt (z # zs) idx nodesList exhausted =
     (let na = zone_nodes nt z in
      if idx \<ge> length na
      then zone_round nt zs idx nodesList (if idx = length na then Suc exhausted else exhausted)
      else zone_round nt zs idx (nodesList @ [na ! idx]) exhausted)"

text \<open>The outer loop; that it ends is proved below.\<close>

partial_function (option) tree_loop ::
  "nodeTree \<Rightarrow> nat \<Rightarrow> string list \<Rightarrow> nat \<Rightarrow> (string list \<times> go_error option) option" where
  "tree_loop nt idx nodesList exhausted =
     (if int (length nodesList) < nt_numNodes nt then
        (if exhausted \<ge> length (nt_zones nt)
         then Some (nodesList, Some (Errorf ''all zones exhausted before reaching count of nodes expected''))
         else
           tree_loop nt (Suc idx) (fst (zone_round nt (nt_zones nt) idx nodesList exhausted))
             (snd (zone_round nt (nt_zones nt) idx nodesList exhausted)))
      else Some (nodesList, None))"

definition tree_list :: "nodeTree \<Rightarrow> (string list \<times> go_error option) option" where
  "tree_list nt = (if length (nt_zones nt) = 0 then Some ([], None) else tree_loop nt 0 [] 0)"

section \<open>The fields stay in step\<close>

definition nt_total :: "nodeTree \<Rightarrow> nat" where
  "nt_total nt = (\<Sum>z\<in>set (nt_zones nt). length (zone_nodes nt z))"

definition nt_inv :: "nodeTree \<Rightarrow> bool" where
  "nt_inv nt \<longleftrightarrow> distinct (nt_zones nt) \<and> set (nt_zones nt) = dom (nt_tree nt) \<and>
     (\<forall>z na. nt_tree nt z = Some na \<longrightarrow> na \<noteq> [] \<and> distinct na) \<and>
     nt_numNodes nt = int (nt_total nt)"

text \<open>The tree as a set of zone and name pairs.\<close>

definition nt_pairs :: "nodeTree \<Rightarrow> (string \<times> string) set" where
  "nt_pairs nt = {(z, n). n \<in> set (zone_nodes nt z)}"

lemma sum_upd:
  assumes "finite A" "x \<in> A"
  shows "(\<Sum>z\<in>A. (f(x := v)) z) + f x = (\<Sum>z\<in>A. f z) + (v :: nat)"
proof -
  have "(\<Sum>z\<in>A - {x}. (f(x := v)) z) = (\<Sum>z\<in>A - {x}. f z)" by (rule sum.cong) auto
  then show ?thesis using sum.remove [OF assms, of f] sum.remove [OF assms, of "f(x := v)"] by simp
qed

lemma zone_nodes_upd: "zone_nodes (nt\<lparr>nt_tree := (nt_tree nt)(zone \<mapsto> na)\<rparr>) = (zone_nodes nt)(zone := na)"
  by (simp add: zone_nodes_def fun_eq_iff)

lemma sum_zone_nodes_upd:
  assumes "zone \<in> set (nt_zones nt)"
  shows "(\<Sum>z\<in>set (nt_zones nt). length (((zone_nodes nt)(zone := na)) z)) + length (zone_nodes nt zone) =
    (\<Sum>z\<in>set (nt_zones nt). length (zone_nodes nt z)) + length na"
proof -
  have "(\<Sum>z\<in>set (nt_zones nt). length (((zone_nodes nt)(zone := na)) z)) =
      (\<Sum>z\<in>set (nt_zones nt). ((\<lambda>z. length (zone_nodes nt z))(zone := length na)) z)"
    by (rule sum.cong) simp_all
  also have "\<dots> + length (zone_nodes nt zone) = (\<Sum>z\<in>set (nt_zones nt). length (zone_nodes nt z)) + length na"
    by (rule sum_upd) (simp_all add: assms)
  finally show ?thesis .
qed

lemma nt_pairs_upd:
  "zone_nodes nt' = (zone_nodes nt)(z := na) \<Longrightarrow> nt_pairs nt' = (nt_pairs nt - {z} \<times> UNIV) \<union> {z} \<times> set na"
  by (auto simp: nt_pairs_def split: if_splits)

lemma addNode_ok:
  assumes inv: "nt_inv nt"
  shows "nt_inv (addNode nt n)" "nt_pairs (addNode nt n) = insert (GetZoneKey n, n_Name n) (nt_pairs nt)"
proof -
  let ?z = "GetZoneKey n" and ?nt = "addNode nt n"
  have "nt_inv ?nt \<and> nt_pairs ?nt = insert (?z, n_Name n) (nt_pairs nt)"
  proof (cases "nt_tree nt ?z")
    case None
    have eq: "?nt = nt\<lparr>nt_zones := nt_zones nt @ [?z], nt_tree := (nt_tree nt)(?z \<mapsto> [n_Name n]),
        nt_numNodes := nt_numNodes nt + 1\<rparr>"
      using None by (simp add: addNode_def Let_def)
    have zn: "zone_nodes ?nt = (zone_nodes nt)(?z := [n_Name n])" "zone_nodes nt ?z = []"
      using None by (auto simp: eq zone_nodes_def)
    have new: "?z \<notin> set (nt_zones nt)" using inv None by (auto simp: nt_inv_def)
    then have "(\<Sum>z\<in>set (nt_zones nt). length (zone_nodes ?nt z)) = (\<Sum>z\<in>set (nt_zones nt). length (zone_nodes nt z))"
      by (intro sum.cong) (auto simp: zn)
    moreover have zs: "nt_zones ?nt = nt_zones nt @ [?z]" by (simp add: eq)
    ultimately have "nt_total ?nt = Suc (nt_total nt)"
      unfolding nt_total_def zs using new by (simp add: zn(1))
    moreover note zs
    moreover have "nt_numNodes ?nt = nt_numNodes nt + 1"
      "nt_tree ?nt = (nt_tree nt)(?z \<mapsto> [n_Name n])" by (simp_all add: eq)
    ultimately have "nt_inv ?nt" using inv new by (simp add: nt_inv_def)
    moreover have "(?z, m) \<notin> nt_pairs nt" for m using zn(2) by (simp add: nt_pairs_def)
    ultimately show ?thesis using nt_pairs_upd [OF zn(1)] by auto
  next
    case (Some na)
    have zna: "zone_nodes nt ?z = na" using Some by (simp add: zone_nodes_def)
    show ?thesis
    proof (cases "n_Name n \<in> set na")
      case True
      then show ?thesis using inv Some zna by (auto simp: addNode_def nt_pairs_def Let_def)
    next
      case False
      have eq: "?nt = nt\<lparr>nt_tree := (nt_tree nt)(?z \<mapsto> na @ [n_Name n]), nt_numNodes := nt_numNodes nt + 1\<rparr>"
        using Some False by (simp add: addNode_def Let_def)
      have zn: "zone_nodes ?nt = (zone_nodes nt)(?z := na @ [n_Name n])" by (auto simp: eq zone_nodes_def)
      have "?z \<in> set (nt_zones nt)" using inv Some by (auto simp: nt_inv_def)
      moreover have zs: "nt_zones ?nt = nt_zones nt" by (simp add: eq)
      ultimately have "nt_total ?nt = Suc (nt_total nt)"
        using sum_zone_nodes_upd [of ?z nt "na @ [n_Name n]"] zna unfolding nt_total_def zs zn by simp
      moreover note zs
      moreover have "nt_numNodes ?nt = nt_numNodes nt + 1"
        "nt_tree ?nt = (nt_tree nt)(?z \<mapsto> na @ [n_Name n])" by (simp_all add: eq)
      ultimately have "nt_inv ?nt" using inv Some False by (auto simp: nt_inv_def)
      moreover have "(?z, m) \<in> nt_pairs nt \<longleftrightarrow> m \<in> set na" for m using zna by (simp add: nt_pairs_def)
      ultimately show ?thesis using nt_pairs_upd [OF zn] by auto
    qed
  qed
  then show "nt_inv ?nt" "nt_pairs ?nt = insert (?z, n_Name n) (nt_pairs nt)" by auto
qed

text \<open>The pair is removed exactly when it is there; otherwise the call reports an error.\<close>

lemma removeNode_ok:
  assumes inv: "nt_inv nt"
  shows "nt_inv (fst (removeNode nt n))"
    "nt_pairs (fst (removeNode nt n)) = nt_pairs nt - {(GetZoneKey n, n_Name n)}"
    "snd (removeNode nt n) = None \<longleftrightarrow> (GetZoneKey n, n_Name n) \<in> nt_pairs nt"
proof -
  let ?z = "GetZoneKey n" and ?nt = "fst (removeNode nt n)"
  have "nt_inv ?nt \<and> nt_pairs ?nt = nt_pairs nt - {(?z, n_Name n)} \<and>
      (snd (removeNode nt n) = None \<longleftrightarrow> (?z, n_Name n) \<in> nt_pairs nt)"
  proof (cases "nt_tree nt ?z")
    case None
    then show ?thesis using inv by (auto simp: removeNode_def nt_pairs_def zone_nodes_def)
  next
    case (Some na)
    have zna: "zone_nodes nt ?z = na" using Some by (simp add: zone_nodes_def)
    have na: "na \<noteq> []" "distinct na" using inv Some by (auto simp: nt_inv_def)
    have zin: "?z \<in> set (nt_zones nt)" using inv Some by (auto simp: nt_inv_def)
    show ?thesis
    proof (cases "find_index (\<lambda>nodeName. nodeName = n_Name n) na")
      case None
      then have "n_Name n \<notin> set na" by (auto simp: find_index_None)
      then show ?thesis using inv Some None zna by (auto simp: removeNode_def nt_pairs_def)
    next
      case (Some i)
      have i: "i < length na" "na ! i = n_Name n" using find_index_SomeD [OF Some] by auto
      let ?na = "remove1 (n_Name n) na"
      have rm: "remove_at i na = ?na" by (rule remove_at_find_index_eq [OF na(2) Some])
      have len: "length ?na = length na - 1" using i rm length_remove_at [of i na] by simp
      have mem: "n_Name n \<in> set na" using i nth_mem by metis
      define nt1 where "nt1 = nt\<lparr>nt_tree := (nt_tree nt)(?z \<mapsto> ?na)\<rparr>"
      define nt2 where "nt2 = (if ?na = [] then removeZone nt1 ?z else nt1)"
      have run: "removeNode nt n = (nt2\<lparr>nt_numNodes := nt_numNodes nt2 - 1\<rparr>, None)"
        using \<open>nt_tree nt ?z = Some na\<close> Some rm by (simp add: removeNode_def Let_def nt1_def nt2_def)
      have zs: "nt_zones ?nt = (if ?na = [] then remove1 ?z (nt_zones nt) else nt_zones nt)"
        "nt_tree ?nt = (if ?na = [] then (nt_tree nt)(?z := None) else (nt_tree nt)(?z \<mapsto> ?na))"
        "nt_numNodes ?nt = nt_numNodes nt - 1"
      proof -
        obtain j where j: "find_index (\<lambda>z. z = ?z) (nt_zones nt) = Some j"
          using zin by (cases "find_index (\<lambda>z. z = ?z) (nt_zones nt)") (auto simp: find_index_None)
        have "remove_at j (nt_zones nt) = remove1 ?z (nt_zones nt)"
          using remove_at_find_index_eq [OF _ j] inv by (simp add: nt_inv_def)
        with j show "nt_zones ?nt = (if ?na = [] then remove1 ?z (nt_zones nt) else nt_zones nt)"
          "nt_tree ?nt = (if ?na = [] then (nt_tree nt)(?z := None) else (nt_tree nt)(?z \<mapsto> ?na))"
          "nt_numNodes ?nt = nt_numNodes nt - 1"
          by (simp_all add: run nt2_def nt1_def removeZone_def Let_def)
      qed
      have zn: "zone_nodes ?nt = (zone_nodes nt)(?z := ?na)"
        by (rule ext) (simp add: zone_nodes_def zs(2))
      have sum: "(\<Sum>z\<in>set (nt_zones nt). length (zone_nodes ?nt z)) + 1 = nt_total nt"
        using sum_zone_nodes_upd [OF zin, of ?na] zna len mem unfolding zn nt_total_def
        by (cases na) auto
      have dz: "distinct (nt_zones nt)" using inv by (simp add: nt_inv_def)
      have total: "nt_total ?nt + 1 = nt_total nt"
      proof (cases "?na = []")
        case True
        have "set (nt_zones ?nt) = set (nt_zones nt) - {?z}" using True zs(1) dz by simp
        then have "nt_total ?nt = (\<Sum>z\<in>set (nt_zones nt). length (zone_nodes ?nt z))"
          unfolding nt_total_def using sum.remove [of "set (nt_zones nt)" ?z "\<lambda>z. length (zone_nodes ?nt z)"] zin True
          by (simp add: zn)
        then show ?thesis using sum by simp
      next
        case False
        then show ?thesis using sum zs(1) by (simp add: nt_total_def)
      qed
      have "nt_inv ?nt"
        unfolding nt_inv_def
      proof (intro conjI allI impI)
        show "distinct (nt_zones ?nt)" using dz zs(1) by (simp add: distinct_remove1)
        show "set (nt_zones ?nt) = dom (nt_tree ?nt)" using inv dz zin zs by (auto simp: nt_inv_def)
        show "nt_numNodes ?nt = int (nt_total ?nt)" using inv total zs(3) by (simp add: nt_inv_def)
      next
        fix z ma assume m: "nt_tree ?nt z = Some ma"
        show "ma \<noteq> []" "distinct ma"
          using m inv na zs(2) by (auto simp: nt_inv_def distinct_remove1 split: if_splits)
      qed
      moreover have pn: "(?z, m) \<in> nt_pairs nt \<longleftrightarrow> m \<in> set na" for m using zna by (simp add: nt_pairs_def)
      moreover have "nt_pairs ?nt = nt_pairs nt - {(?z, n_Name n)}"
        using nt_pairs_upd [OF zn] na(2) pn by auto
      moreover have "snd (removeNode nt n) = None" by (simp add: run)
      ultimately show ?thesis using mem by blast
    qed
  qed
  then show "nt_inv ?nt" "nt_pairs ?nt = nt_pairs nt - {(?z, n_Name n)}"
    "snd (removeNode nt n) = None \<longleftrightarrow> (?z, n_Name n) \<in> nt_pairs nt" by blast+
qed


section \<open>Listing the tree\<close>

text \<open>The names that the zones contribute in round \<open>i\<close>, and the zones that are exhausted
  before round \<open>k\<close>.\<close>

definition round_names :: "nodeTree \<Rightarrow> nat \<Rightarrow> string list" where
  "round_names nt i = concat (map (\<lambda>z. if i < length (zone_nodes nt z) then [zone_nodes nt z ! i] else []) (nt_zones nt))"

definition zones_done :: "nodeTree \<Rightarrow> nat \<Rightarrow> nat" where
  "zones_done nt k = length (filter (\<lambda>z. length (zone_nodes nt z) < k) (nt_zones nt))"

lemma zone_round_eq:
  "zone_round nt zs i l e =
     (l @ concat (map (\<lambda>z. if i < length (zone_nodes nt z) then [zone_nodes nt z ! i] else []) zs),
      e + length (filter (\<lambda>z. length (zone_nodes nt z) = i) zs))"
  by (induction zs arbitrary: l e) (auto simp: Let_def)

lemma length_filter_less_Suc:
  "length (filter (\<lambda>z. f z < Suc k) zs) = length (filter (\<lambda>z. f z < k) zs) + length (filter (\<lambda>z. f z = k) zs)"
  for f :: "'a \<Rightarrow> nat"
  by (induction zs) auto

lemma zone_round_full:
  "zone_round nt (nt_zones nt) k (concat (map (round_names nt) [0..<k])) (zones_done nt k) =
     (concat (map (round_names nt) [0..<Suc k]), zones_done nt (Suc k))"
  by (simp add: zone_round_eq round_names_def zones_done_def length_filter_less_Suc)

lemma filter_length_all: "length zs \<le> length (filter P zs) \<longleftrightarrow> (\<forall>z\<in>set zs. P z)"
proof
  assume "length zs \<le> length (filter P zs)"
  then show "\<forall>z\<in>set zs. P z" using length_filter_less [of _ zs P] by (meson not_le)
qed simp

lemma zones_done_all:
  "length (nt_zones nt) \<le> zones_done nt k \<longleftrightarrow> (\<forall>z\<in>set (nt_zones nt). length (zone_nodes nt z) < k)"
  unfolding zones_done_def by (rule filter_length_all)

text \<open>The outer loop ends for every tree, in step with its fields or not: after the longest zone
  every zone has been counted as exhausted.\<close>

lemma tree_loop_total:
  "\<exists>r. tree_loop nt k (concat (map (round_names nt) [0..<k])) (zones_done nt k) = Some r"
proof (induction "Suc (Max (insert 0 ((\<lambda>z. length (zone_nodes nt z)) ` set (nt_zones nt)))) - k" arbitrary: k)
  case 0
  have "length (zone_nodes nt z) < k" if "z \<in> set (nt_zones nt)" for z
  proof -
    have "length (zone_nodes nt z) \<le> Max (insert 0 ((\<lambda>z. length (zone_nodes nt z)) ` set (nt_zones nt)))"
      using that by (intro Max_ge) auto
    with 0 show ?thesis by simp
  qed
  then have "zones_done nt k \<ge> length (nt_zones nt)" by (simp add: zones_done_all)
  then show ?case by (simp add: tree_loop.simps)
next
  case (Suc m)
  have "m = Suc (Max (insert 0 ((\<lambda>z. length (zone_nodes nt z)) ` set (nt_zones nt)))) - Suc k" using Suc.hyps(2) by simp
  from Suc.hyps(1) [OF this] show ?case
    by (simp add: tree_loop.simps [of nt k] zone_round_full del: upt_Suc)
qed

text \<open>\<open>list\<close> returns for every tree, also one whose node count is out of step with its
  zones (then with an error): the exhausted-zone count bounds the rounds.\<close>

theorem tree_list_total: "\<exists>r. tree_list nt = Some r"
  using tree_loop_total [of nt 0] by (simp add: tree_list_def zones_done_def)

lemma mset_concat_transpose: "mset (concat (transpose xs)) = mset (concat xs)"
proof (induction xs rule: transpose.induct)
  case (3 x xs xss)
  have "mset (concat xss) = mset (concat (map (case_list [] (\<lambda>h t. [h])) xss)) +
      mset (concat (concat (map (case_list [] (\<lambda>h t. [t])) xss)))"
    by (induction xss) (auto split: list.split)
  with 3 show ?case by simp
qed simp_all

lemma length_transpose_ge: "length (transpose xs) \<le> k \<longleftrightarrow> (\<forall>ys\<in>set xs. length ys \<le> k)"
  by (simp add: length_transpose) (induction xs, auto)

lemma round_names_transpose:
  "concat (map (round_names nt) [0..<length (transpose (map (zone_nodes nt) (nt_zones nt)))]) =
     concat (transpose (map (zone_nodes nt) (nt_zones nt)))"
proof -
  let ?xs = "map (zone_nodes nt) (nt_zones nt)"
  have "concat (map (\<lambda>z. if i < length (f z) then [f z ! i] else []) zs) =
      map (\<lambda>ys. ys ! i) (filter (\<lambda>ys. i < length ys) (map f zs))" for i f and zs :: "string list"
    by (induction zs) auto
  then have "round_names nt i = map (\<lambda>ys. ys ! i) (filter (\<lambda>ys. i < length ys) ?xs)" for i
    unfolding round_names_def .
  then have "map (round_names nt) [0..<length (transpose ?xs)] = transpose ?xs"
    by (intro nth_equalityI) (simp_all add: nth_transpose)
  then show ?thesis by simp
qed


text \<open>For a tree whose fields are in step the loop stops with every name listed, zone by zone in
  turn: the columns of the zones' arrays.\<close>

lemma length_columns:
  assumes "nt_inv nt"
  shows "length (concat (transpose (map (zone_nodes nt) (nt_zones nt)))) = nt_total nt"
  using arg_cong [OF mset_concat_transpose, of size "map (zone_nodes nt) (nt_zones nt)"] assms
  by (simp add: nt_total_def nt_inv_def length_concat comp_def sum_list_distinct_conv_sum_set)

lemma tree_loop_inv:
  assumes inv: "nt_inv nt" and k: "k \<le> length (transpose (map (zone_nodes nt) (nt_zones nt)))"
  shows "tree_loop nt k (concat (map (round_names nt) [0..<k])) (zones_done nt k) =
    Some (concat (transpose (map (zone_nodes nt) (nt_zones nt))), None)"
  using k
proof (induction "length (transpose (map (zone_nodes nt) (nt_zones nt))) - k" arbitrary: k)
  case 0
  let ?t = "transpose (map (zone_nodes nt) (nt_zones nt))"
  from 0 have k: "k = length ?t" by simp
  then show ?case using inv length_columns [OF inv] unfolding k round_names_transpose
    by (simp add: tree_loop.simps nt_inv_def del: length_concat)
next
  case (Suc m)
  let ?t = "transpose (map (zone_nodes nt) (nt_zones nt))"
  have lt: "k < length ?t" using Suc.hyps(2) by simp
  obtain z where z: "z \<in> set (nt_zones nt)" "k < length (zone_nodes nt z)"
    using lt length_transpose_ge [of "map (zone_nodes nt) (nt_zones nt)" k] by (auto simp: not_le)
  then have nd: "\<not> length (nt_zones nt) \<le> zones_done nt k" unfolding zones_done_all by force
  have ne: "round_names nt k \<noteq> []" using z by (auto simp: round_names_def)
  have split: "[0..<length ?t] = [0..<k] @ k # [Suc k..<length ?t]"
    using upt_add_eq_append [of 0 k "length ?t - k"] lt upt_conv_Cons [of k "length ?t"] by simp
  have "length (concat (map (round_names nt) [0..<k])) < length (concat (map (round_names nt) [0..<length ?t]))"
    unfolding split using ne by simp
  then have "int (length (concat (map (round_names nt) [0..<k]))) < nt_numNodes nt"
    using inv length_columns [OF inv] unfolding round_names_transpose by (simp add: nt_inv_def)
  moreover have "m = length ?t - Suc k" "Suc k \<le> length ?t" using Suc.hyps(2) lt by simp_all
  ultimately show ?case using nd Suc.hyps(1)
    by (simp add: tree_loop.simps [of nt k] zone_round_full del: upt_Suc length_concat)
qed

lemma tree_list_inv:
  assumes "nt_inv nt"
  shows "tree_list nt = Some (concat (transpose (map (zone_nodes nt) (nt_zones nt))), None)"
  using tree_loop_inv [OF assms, of 0] by (simp add: tree_list_def zones_done_def)

definition zone_pairs :: "nodeTree \<Rightarrow> (string \<times> string) list" where
  "zone_pairs nt = concat (map (\<lambda>z. map (Pair z) (zone_nodes nt z)) (nt_zones nt))"

lemma zone_pairs_ok:
  assumes "nt_inv nt"
  shows "distinct (zone_pairs nt)" "set (zone_pairs nt) = nt_pairs nt"
proof -
  have zn: "distinct (zone_nodes nt z)" for z
    using assms by (auto simp: nt_inv_def zone_nodes_def split: option.split)
  have "distinct (concat (map (\<lambda>z. map (Pair z) (zone_nodes nt z)) zs))" if "distinct zs" for zs
    using that zn by (induction zs) (auto simp: distinct_map inj_on_def)
  then show "distinct (zone_pairs nt)" using assms by (simp add: nt_inv_def zone_pairs_def)
  have "z \<in> set (nt_zones nt)" if "n \<in> set (zone_nodes nt z)" for n z
    using that assms by (auto simp: nt_inv_def zone_nodes_def split: option.splits)
  then show "set (zone_pairs nt) = nt_pairs nt" by (auto simp: nt_pairs_def zone_pairs_def)
qed

lemma nt_pairs_names:
  assumes "nt_inv nt"
  shows "mset (concat (map (zone_nodes nt) (nt_zones nt))) = image_mset snd (mset_set (nt_pairs nt))"
proof -
  have "mset (concat (map (zone_nodes nt) zs)) = image_mset snd (mset (concat (map (\<lambda>z. map (Pair z) (zone_nodes nt z)) zs)))" for zs
    by (induction zs) (simp_all add: multiset.map_comp comp_def)
  then show ?thesis using mset_set_set [OF zone_pairs_ok(1) [OF assms]] zone_pairs_ok(2) [OF assms]
    by (simp add: zone_pairs_def)
qed

section \<open>Traces of the tree\<close>

datatype nt_op = NtAdd node | NtRemove node | NtUpdate "node option" node

fun nt_step :: "nt_op \<Rightarrow> nodeTree \<Rightarrow> nodeTree go" where
  "nt_step (NtAdd n) nt = Some (addNode nt n)"
| "nt_step (NtRemove n) nt = Some (fst (removeNode nt n))"
| "nt_step (NtUpdate old new) nt = updateNode nt old new"

fun nt_run :: "nt_op list \<Rightarrow> nodeTree \<Rightarrow> nodeTree go" where
  "nt_run [] nt = Some nt"
| "nt_run (x # xs) nt = (case nt_step x nt of None \<Rightarrow> None | Some nt' \<Rightarrow> nt_run xs nt')"

text \<open>What a trace means for the set of zone and name pairs.\<close>

definition node_pair :: "node \<Rightarrow> string \<times> string" where
  "node_pair n = (GetZoneKey n, n_Name n)"

fun pairs_after :: "nt_op list \<Rightarrow> (string \<times> string) set \<Rightarrow> (string \<times> string) set" where
  "pairs_after [] S = S"
| "pairs_after (NtAdd n # xs) S = pairs_after xs (insert (node_pair n) S)"
| "pairs_after (NtRemove n # xs) S = pairs_after xs (S - {node_pair n})"
| "pairs_after (NtUpdate None new # xs) S = pairs_after xs S"
| "pairs_after (NtUpdate (Some old) new # xs) S =
     pairs_after xs (if GetZoneKey old = GetZoneKey new then S else insert (node_pair new) (S - {node_pair old}))"

lemma newNodeTree_ok: "nt_inv (newNodeTree ns)" "nt_pairs (newNodeTree ns) = node_pair ` set ns"
proof -
  have "nt_inv (foldl addNode nt ns) \<and> nt_pairs (foldl addNode nt ns) = nt_pairs nt \<union> node_pair ` set ns"
    if "nt_inv nt" for nt
    using that by (induction ns arbitrary: nt) (auto simp: addNode_ok node_pair_def)
  moreover have "nt_inv \<lparr>nt_tree = Map.empty, nt_zones = [], nt_numNodes = 0\<rparr>"
    "nt_pairs \<lparr>nt_tree = Map.empty, nt_zones = [], nt_numNodes = 0\<rparr> = {}"
    by (simp_all add: nt_inv_def nt_total_def nt_pairs_def zone_nodes_def)
  ultimately show "nt_inv (newNodeTree ns)" "nt_pairs (newNodeTree ns) = node_pair ` set ns"
    unfolding newNodeTree_def by simp_all
qed

lemma nt_run_ok:
  "nt_inv nt \<Longrightarrow> nt_run xs nt = Some nt' \<Longrightarrow> nt_inv nt' \<and> nt_pairs nt' = pairs_after xs (nt_pairs nt)"
proof (induction xs arbitrary: nt)
  case (Cons x xs)
  obtain nt1 where nt1: "nt_step x nt = Some nt1" "nt_run xs nt1 = Some nt'"
    using Cons.prems(2) by (auto split: option.splits)
  have "nt_inv nt1 \<and> pairs_after xs (nt_pairs nt1) = pairs_after (x # xs) (nt_pairs nt)"
  proof (cases x)
    case (NtUpdate old new)
    show ?thesis
    proof (cases old)
      case None
      then show ?thesis using NtUpdate nt1(1) Cons.prems(1)
        by (auto simp: updateNode_def Let_def split: if_splits)
    next
      case (Some o1)
      then show ?thesis using NtUpdate nt1(1) Cons.prems(1)
        by (auto simp: updateNode_def addNode_ok removeNode_ok node_pair_def split: if_splits)
    qed
  qed (use nt1(1) Cons.prems(1) in \<open>auto simp: addNode_ok removeNode_ok node_pair_def\<close>)
  with Cons.IH [OF _ nt1(2)] show ?case by simp
qed simp

text \<open>C24: After any sequence of \<open>addNode\<close>, \<open>removeNode\<close> and \<open>updateNode\<close> on a tree built by
  \<open>newNodeTree\<close>, \<open>list\<close> terminates without an error, its answer takes one name from each zone
  in turn (the columns of the zones' arrays, zones in the order they were first seen) and
  contains every zone and name pair that the sequence left in the tree exactly once.\<close>

theorem nt_list_round_robin:
  assumes "nt_run xs (newNodeTree ns) = Some nt"
  shows "\<exists>names. tree_list nt = Some (names, None) \<and>
    names = concat (transpose (map (zone_nodes nt) (nt_zones nt))) \<and>
    mset names = image_mset snd (mset_set (pairs_after xs (node_pair ` set ns)))"
proof -
  have inv: "nt_inv nt" "nt_pairs nt = pairs_after xs (node_pair ` set ns)"
    using nt_run_ok [OF newNodeTree_ok(1) assms] newNodeTree_ok(2) [of ns] by simp_all
  then show ?thesis using tree_list_inv [OF inv(1)] nt_pairs_names [OF inv(1)]
    by (simp add: mset_concat_transpose)
qed

definition zoned_node :: "string \<Rightarrow> string \<Rightarrow> node" where
  "zoned_node z name = \<lparr>n_Name = name, n_Labels = [''topology.kubernetes.io/zone'' \<mapsto> z], n_Unschedulable = False, n_Taints = [], n_Allocatable = [], n_Images = [], n_Conditions = []\<rparr>"

theorem nt_list_round_robin_witness:
  "\<exists>nt. nt_run [NtRemove (zoned_node ''z'' ''b''), NtUpdate (Some (zoned_node ''z'' ''a'')) (zoned_node ''y'' ''a'')]
      (newNodeTree [zoned_node ''z'' ''a'', zoned_node ''z'' ''b'', zoned_node ''y'' ''c'', zoned_node ''z'' ''d'']) = Some nt \<and>
    tree_list nt = Some ([''d'', ''c'', ''a''], None)"
proof -
  let ?xs = "[NtRemove (zoned_node ''z'' ''b''), NtUpdate (Some (zoned_node ''z'' ''a'')) (zoned_node ''y'' ''a'')]"
  let ?ns = "[zoned_node ''z'' ''a'', zoned_node ''z'' ''b'', zoned_node ''y'' ''c'', zoned_node ''z'' ''d'']"
  have "map_option (\<lambda>nt. map (zone_nodes nt) (nt_zones nt)) (nt_run ?xs (newNodeTree ?ns)) = Some [[''d''], [''c'', ''a'']]"
    by code_simp
  then obtain nt where nt: "nt_run ?xs (newNodeTree ?ns) = Some nt"
    "map (zone_nodes nt) (nt_zones nt) = [[''d''], [''c'', ''a'']]"
    unfolding map_option_eq_Some by (elim exE conjE) (rule that)
  have "concat (transpose [[''d''], [''c'', ''a'']]) = [''d'', ''c'', ''a'']" by simp
  then show ?thesis using nt_list_round_robin [OF nt(1)] nt by metis
qed

end
