(* ===== verification/Scheduler_Cache.thy ===== *)
theory Scheduler_Cache
  imports Node_List Node_Info Node_Tree
begin

text \<open>
  The scheduler cache, \<open>pkg/scheduler/internal/cache/cache.go\<close>: the pods that are assumed or
  bound, the nodes with their aggregated information in a list ordered by last change, the node
  tree and the images on the nodes. Every method takes the lock for its whole duration and is
  one function here. \<open>klog.Fatalf\<close> ends the process and is \<^term>\<open>None\<close>, like a panic. The
  package-level generation counter of the framework is the field \<open>sc_gen\<close>. Metrics are left out.
\<close>

section \<open>State\<close>

record podState =
  ps_pod :: pod
  ps_deadline :: "int option"
  ps_bindingFinished :: bool

record imageState =
  im_size :: int
  im_nodes :: "string set"

record schedulerCache =
  sc_ttl :: int
  sc_period :: int
  sc_assumedPods :: "string set"
  sc_podStates :: "string \<rightharpoonup> podState"
  sc_nodes :: "NodeInfo node_map"
  sc_headNode :: "string option"
  sc_nodeTree :: nodeTree
  sc_imageStates :: "string \<rightharpoonup> imageState"
  sc_gen :: int

definition newSchedulerCache :: "int \<Rightarrow> int \<Rightarrow> int \<Rightarrow> schedulerCache" where
  "newSchedulerCache gen ttl period =
     \<lparr>sc_ttl = ttl, sc_period = period, sc_assumedPods = {}, sc_podStates = Map.empty, sc_nodes = Map.empty,
      sc_headNode = None, sc_nodeTree = newNodeTree [], sc_imageStates = Map.empty, sc_gen = gen\<rparr>"

definition createImageStateSummary :: "imageState \<Rightarrow> imageStateSummary" where
  "createImageStateSummary state = \<lparr>is_Size = im_size state, is_NumNodes = int (card (im_nodes state))\<rparr>"

definition moveNodeInfoToHead :: "schedulerCache \<Rightarrow> string \<Rightarrow> schedulerCache" where
  "moveNodeInfoToHead c name =
     (let (m, h) = list_move_to_head (sc_nodes c) (sc_headNode c) name in c\<lparr>sc_nodes := m, sc_headNode := h\<rparr>)"

definition removeNodeInfoFromList :: "schedulerCache \<Rightarrow> string \<Rightarrow> schedulerCache" where
  "removeNodeInfoFromList c name =
     (let (m, h) = list_remove (sc_nodes c) (sc_headNode c) name in c\<lparr>sc_nodes := m, sc_headNode := h\<rparr>)"

text \<open>\<open>n, ok := cache.nodes[name]; if !ok { n = newNodeInfoListItem(framework.NewNodeInfo());
  cache.nodes[name] = n }\<close>\<close>

definition ensure_node :: "feature_gates \<Rightarrow> schedulerCache \<Rightarrow> string \<Rightarrow> NodeInfo \<times> schedulerCache" where
  "ensure_node g c name =
     (case sc_nodes c name of
        Some n \<Rightarrow> (li_info n, c)
      | None \<Rightarrow>
          (let (ni, gen) = NewNodeInfo g (sc_gen c) [] in
           (ni, c\<lparr>sc_nodes := (sc_nodes c)(name \<mapsto> newNodeInfoListItem ni), sc_gen := gen\<rparr>)))"

text \<open>A change of \<open>n.info\<close> in place.\<close>

definition put_info :: "schedulerCache \<Rightarrow> string \<Rightarrow> NodeInfo \<times> int \<Rightarrow> schedulerCache" where
  "put_info c name ns =
     (case sc_nodes c name of
        None \<Rightarrow> c\<lparr>sc_gen := snd ns\<rparr>
      | Some n \<Rightarrow> c\<lparr>sc_nodes := (sc_nodes c)(name \<mapsto> n\<lparr>li_info := fst ns\<rparr>), sc_gen := snd ns\<rparr>)"

section \<open>Pods\<close>

definition sc_addPod :: "feature_gates \<Rightarrow> schedulerCache \<Rightarrow> pod \<Rightarrow> schedulerCache" where
  "sc_addPod g c pod =
     (let name = p_NodeName pod; (info, c1) = ensure_node g c name in
      moveNodeInfoToHead (put_info c1 name (AddPod g (info, sc_gen c1) pod)) name)"

definition sc_removePod :: "feature_gates \<Rightarrow> schedulerCache \<Rightarrow> pod \<Rightarrow> (schedulerCache \<times> go_error option) go" where
  "sc_removePod g c pod =
     (let name = p_NodeName pod in
      case sc_nodes c name of
        None \<Rightarrow> Some (c, None)
      | Some n \<Rightarrow>
          (case RemovePod g (li_info n, sc_gen c) pod of
             None \<Rightarrow> None
           | Some (ns, Some err) \<Rightarrow> Some (put_info c name ns, Some err)
           | Some (ns, None) \<Rightarrow>
               (let c1 = put_info c name ns in
                if length (ni_Pods (fst ns)) = 0 \<and> ni_node (fst ns) = None
                then Some (removeNodeInfoFromList c1 name, None)
                else Some (moveNodeInfoToHead c1 name, None))))"

definition sc_updatePod :: "feature_gates \<Rightarrow> schedulerCache \<Rightarrow> pod \<Rightarrow> pod \<Rightarrow> (schedulerCache \<times> go_error option) go" where
  "sc_updatePod g c oldPod newPod =
     (case sc_removePod g c oldPod of
        None \<Rightarrow> None
      | Some (c1, Some err) \<Rightarrow> Some (c1, Some err)
      | Some (c1, None) \<Rightarrow> Some (sc_addPod g c1 newPod, None))"

definition sc_AssumePod :: "feature_gates \<Rightarrow> schedulerCache \<Rightarrow> pod \<Rightarrow> (schedulerCache \<times> go_error option) go" where
  "sc_AssumePod g c pod =
     (case GetPodKey pod of
        Inl err \<Rightarrow> Some (c, Some err)
      | Inr key \<Rightarrow>
          (if sc_podStates c key \<noteq> None
           then Some (c, Some (Errorf ''pod is in the cache, so cannot be assumed''))
           else
             let c1 = sc_addPod g c pod in
             Some (c1\<lparr>sc_podStates := (sc_podStates c1)(key \<mapsto> \<lparr>ps_pod = pod, ps_deadline = None, ps_bindingFinished = False\<rparr>),
                      sc_assumedPods := insert key (sc_assumedPods c1)\<rparr>, None)))"

definition sc_finishBinding :: "schedulerCache \<Rightarrow> pod \<Rightarrow> int \<Rightarrow> schedulerCache \<times> go_error option" where
  "sc_finishBinding c pod now =
     (case GetPodKey pod of
        Inl err \<Rightarrow> (c, Some err)
      | Inr key \<Rightarrow>
          (case sc_podStates c key of
             None \<Rightarrow> (c, None)
           | Some currState \<Rightarrow>
               (if key \<in> sc_assumedPods c
                then (c\<lparr>sc_podStates := (sc_podStates c)(key \<mapsto>
                        currState\<lparr>ps_bindingFinished := True, ps_deadline := Some (now + sc_ttl c)\<rparr>)\<rparr>, None)
                else (c, None))))"

definition sc_ForgetPod :: "feature_gates \<Rightarrow> schedulerCache \<Rightarrow> pod \<Rightarrow> (schedulerCache \<times> go_error option) go" where
  "sc_ForgetPod g c pod =
     (case GetPodKey pod of
        Inl err \<Rightarrow> Some (c, Some err)
      | Inr key \<Rightarrow>
          (case sc_podStates c key of
             None \<Rightarrow> Some (c, Some (Errorf ''pod was not assumed so cannot be forgotten''))
           | Some currState \<Rightarrow>
               (if p_NodeName (ps_pod currState) \<noteq> p_NodeName pod
                then Some (c, Some (Errorf ''pod was assumed on a node but assigned to another''))
                else if key \<in> sc_assumedPods c then
                  (case sc_removePod g c pod of
                     None \<Rightarrow> None
                   | Some (c1, Some err) \<Rightarrow> Some (c1, Some err)
                   | Some (c1, None) \<Rightarrow>
                       Some (c1\<lparr>sc_assumedPods := sc_assumedPods c1 - {key}, sc_podStates := (sc_podStates c1)(key := None)\<rparr>, None))
                else Some (c, Some (Errorf ''pod was not assumed so cannot be forgotten'')))))"

definition sc_AddPod :: "feature_gates \<Rightarrow> schedulerCache \<Rightarrow> pod \<Rightarrow> (schedulerCache \<times> go_error option) go" where
  "sc_AddPod g c pod =
     (case GetPodKey pod of
        Inl err \<Rightarrow> Some (c, Some err)
      | Inr key \<Rightarrow>
          (case sc_podStates c key of
             Some currState \<Rightarrow>
               (if key \<in> sc_assumedPods c then
                  do {
                    c2 \<leftarrow>
                      (if p_NodeName (ps_pod currState) \<noteq> p_NodeName pod then
                         do {
                           (c1, _) \<leftarrow> sc_removePod g c (ps_pod currState);
                           Some (sc_addPod g c1 pod)
                         }
                       else Some c);
                    Some (c2\<lparr>sc_assumedPods := sc_assumedPods c2 - {key},
                             sc_podStates := (sc_podStates c2)(key \<mapsto> currState\<lparr>ps_deadline := None, ps_pod := pod\<rparr>)\<rparr>, None)
                  }
                else Some (c, Some (Errorf ''pod was already in added state'')))
           | None \<Rightarrow>
               (let c1 = sc_addPod g c pod in
                Some (c1\<lparr>sc_podStates := (sc_podStates c1)(key \<mapsto> \<lparr>ps_pod = pod, ps_deadline = None, ps_bindingFinished = False\<rparr>)\<rparr>,
                  None))))"

definition sc_UpdatePod :: "feature_gates \<Rightarrow> schedulerCache \<Rightarrow> pod \<Rightarrow> pod \<Rightarrow> (schedulerCache \<times> go_error option) go" where
  "sc_UpdatePod g c oldPod newPod =
     (case GetPodKey oldPod of
        Inl err \<Rightarrow> Some (c, Some err)
      | Inr key \<Rightarrow>
          (case sc_podStates c key of
             None \<Rightarrow> Some (c, Some (Errorf ''pod is not added to scheduler cache, so cannot be updated''))
           | Some currState \<Rightarrow>
               (if key \<notin> sc_assumedPods c then
                  (if p_NodeName (ps_pod currState) \<noteq> p_NodeName newPod then None
                   else
                     (case sc_updatePod g c oldPod newPod of
                        None \<Rightarrow> None
                      | Some (c1, Some err) \<Rightarrow> Some (c1, Some err)
                      | Some (c1, None) \<Rightarrow>
                          Some (c1\<lparr>sc_podStates := (sc_podStates c1)(key \<mapsto> currState\<lparr>ps_pod := newPod\<rparr>)\<rparr>, None)))
                else Some (c, Some (Errorf ''pod is not added to scheduler cache, so cannot be updated'')))))"

definition sc_RemovePod :: "feature_gates \<Rightarrow> schedulerCache \<Rightarrow> pod \<Rightarrow> (schedulerCache \<times> go_error option) go" where
  "sc_RemovePod g c pod =
     (case GetPodKey pod of
        Inl err \<Rightarrow> Some (c, Some err)
      | Inr key \<Rightarrow>
          (case sc_podStates c key of
             None \<Rightarrow> Some (c, Some (Errorf ''pod is not found in scheduler cache, so cannot be removed from it''))
           | Some currState \<Rightarrow>
               (if key \<notin> sc_assumedPods c then
                  (if p_NodeName (ps_pod currState) \<noteq> p_NodeName pod then None
                   else
                     (case sc_removePod g c (ps_pod currState) of
                        None \<Rightarrow> None
                      | Some (c1, Some err) \<Rightarrow> Some (c1, Some err)
                      | Some (c1, None) \<Rightarrow> Some (c1\<lparr>sc_podStates := (sc_podStates c1)(key := None)\<rparr>, None)))
                else Some (c, Some (Errorf ''pod is not found in scheduler cache, so cannot be removed from it'')))))"

definition sc_IsAssumedPod :: "schedulerCache \<Rightarrow> pod \<Rightarrow> go_error + bool" where
  "sc_IsAssumedPod c pod = (case GetPodKey pod of Inl err \<Rightarrow> Inl err | Inr key \<Rightarrow> Inr (key \<in> sc_assumedPods c))"

definition sc_GetPod :: "schedulerCache \<Rightarrow> pod \<Rightarrow> go_error + pod" where
  "sc_GetPod c pod =
     (case GetPodKey pod of
        Inl err \<Rightarrow> Inl err
      | Inr key \<Rightarrow>
          (case sc_podStates c key of
             None \<Rightarrow> Inl (Errorf ''pod does not exist in scheduler cache'')
           | Some podState \<Rightarrow> Inr (ps_pod podState)))"

section \<open>Expiry of assumed pods\<close>

definition expirePod :: "feature_gates \<Rightarrow> schedulerCache \<Rightarrow> string \<Rightarrow> podState \<Rightarrow> (schedulerCache \<times> go_error option) go" where
  "expirePod g c key ps =
     (case sc_removePod g c (ps_pod ps) of
        None \<Rightarrow> None
      | Some (c1, Some err) \<Rightarrow> Some (c1, Some err)
      | Some (c1, None) \<Rightarrow>
          Some (c1\<lparr>sc_assumedPods := sc_assumedPods c1 - {key}, sc_podStates := (sc_podStates c1)(key := None)\<rparr>, None))"

text \<open>The loop over the assumed keys, in the given order; only the key at hand is deleted from
  the set while it runs.\<close>

fun cleanupAssumedPods :: "feature_gates \<Rightarrow> string list \<Rightarrow> int \<Rightarrow> schedulerCache \<Rightarrow> schedulerCache go" where
  "cleanupAssumedPods g [] now c = Some c"
| "cleanupAssumedPods g (key # keys) now c =
     (case sc_podStates c key of
        None \<Rightarrow> None
      | Some ps \<Rightarrow>
          (if \<not> ps_bindingFinished ps then cleanupAssumedPods g keys now c
           else
             (case ps_deadline ps of
                None \<Rightarrow> None
              | Some deadline \<Rightarrow>
                  (if now > deadline
                   then (case expirePod g c key ps of None \<Rightarrow> None | Some (c1, _) \<Rightarrow> cleanupAssumedPods g keys now c1)
                   else cleanupAssumedPods g keys now c))))"

section \<open>Images\<close>

definition add_image_name :: "node \<Rightarrow> int \<Rightarrow> (string \<rightharpoonup> imageState) \<times> (string \<rightharpoonup> imageStateSummary) \<Rightarrow> string \<Rightarrow>
    (string \<rightharpoonup> imageState) \<times> (string \<rightharpoonup> imageStateSummary)" where
  "add_image_name node sz st name =
     (let (states, newSum) = st;
          state = (case states name of
                     None \<Rightarrow> \<lparr>im_size = sz, im_nodes = {n_Name node}\<rparr>
                   | Some s \<Rightarrow> s\<lparr>im_nodes := insert (n_Name node) (im_nodes s)\<rparr>) in
      (states(name \<mapsto> state),
       if newSum name = None then newSum(name \<mapsto> createImageStateSummary state) else newSum))"

definition addNodeImageStates :: "(string \<rightharpoonup> imageState) \<Rightarrow> node \<Rightarrow> (string \<rightharpoonup> imageState) \<times> (string \<rightharpoonup> imageStateSummary)" where
  "addNodeImageStates states node =
     foldl (\<lambda>st image. foldl (add_image_name node (ci_SizeBytes image)) st (ci_Names image)) (states, Map.empty) (n_Images node)"

definition remove_image_name :: "node \<Rightarrow> (string \<rightharpoonup> imageState) \<Rightarrow> string \<Rightarrow> (string \<rightharpoonup> imageState)" where
  "remove_image_name node states name =
     (case states name of
        None \<Rightarrow> states
      | Some s \<Rightarrow>
          (if im_nodes s - {n_Name node} = {} then states(name := None)
           else states(name \<mapsto> s\<lparr>im_nodes := im_nodes s - {n_Name node}\<rparr>)))"

definition removeNodeImageStates :: "(string \<rightharpoonup> imageState) \<Rightarrow> node option \<Rightarrow> (string \<rightharpoonup> imageState)" where
  "removeNodeImageStates states node =
     (case node of
        None \<Rightarrow> states
      | Some nd \<Rightarrow> foldl (\<lambda>st image. foldl (remove_image_name nd) st (ci_Names image)) states (n_Images nd))"

section \<open>Nodes\<close>

text \<open>The common tail of \<open>AddNode\<close> and \<open>UpdateNode\<close>: the image states and \<open>SetNode\<close> on \<open>n.info\<close>.\<close>

definition set_node_info :: "feature_gates \<Rightarrow> schedulerCache \<Rightarrow> node \<Rightarrow> schedulerCache" where
  "set_node_info g c node =
     (let name = n_Name node; (states, newSum) = addNodeImageStates (sc_imageStates c) node; c1 = c\<lparr>sc_imageStates := states\<rparr> in
      case sc_nodes c1 name of
        None \<Rightarrow> c1
      | Some n \<Rightarrow> put_info c1 name (SetNode g ((li_info n)\<lparr>ni_ImageStates := newSum\<rparr>, sc_gen c1) node))"

definition sc_AddNode :: "feature_gates \<Rightarrow> schedulerCache \<Rightarrow> node \<Rightarrow> schedulerCache" where
  "sc_AddNode g c node =
     (let name = n_Name node;
          c1 = (case sc_nodes c name of
                  None \<Rightarrow> snd (ensure_node g c name)
                | Some n \<Rightarrow> c\<lparr>sc_imageStates := removeNodeImageStates (sc_imageStates c) (ni_node (li_info n))\<rparr>);
          c2 = moveNodeInfoToHead c1 name;
          c3 = c2\<lparr>sc_nodeTree := addNode (sc_nodeTree c2) node\<rparr> in
      set_node_info g c3 node)"

definition sc_UpdateNode :: "feature_gates \<Rightarrow> schedulerCache \<Rightarrow> node \<Rightarrow> node \<Rightarrow> schedulerCache go" where
  "sc_UpdateNode g c oldNode newNode =
     (let name = n_Name newNode;
          c1 = (case sc_nodes c name of
                  None \<Rightarrow> (let c' = snd (ensure_node g c name) in c'\<lparr>sc_nodeTree := addNode (sc_nodeTree c') newNode\<rparr>)
                | Some n \<Rightarrow> c\<lparr>sc_imageStates := removeNodeImageStates (sc_imageStates c) (ni_node (li_info n))\<rparr>);
          c2 = moveNodeInfoToHead c1 name in
      case updateNode (sc_nodeTree c2) (Some oldNode) newNode of
        None \<Rightarrow> None
      | Some nt \<Rightarrow> Some (set_node_info g (c2\<lparr>sc_nodeTree := nt\<rparr>) newNode))"

definition sc_RemoveNode :: "feature_gates \<Rightarrow> schedulerCache \<Rightarrow> node \<Rightarrow> schedulerCache \<times> go_error option" where
  "sc_RemoveNode g c node =
     (let name = n_Name node in
      case sc_nodes c name of
        None \<Rightarrow> (c, Some (Errorf ''node is not found''))
      | Some n \<Rightarrow>
          (let ns = RemoveNode (li_info n, sc_gen c);
               c1 = put_info c name ns;
               c2 = (if length (ni_Pods (fst ns)) = 0 then removeNodeInfoFromList c1 name else moveNodeInfoToHead c1 name);
               (nt, err) = removeNode (sc_nodeTree c2) node;
               c3 = c2\<lparr>sc_nodeTree := nt\<rparr> in
           case err of
             Some e \<Rightarrow> (c3, Some e)
           | None \<Rightarrow> (c3\<lparr>sc_imageStates := removeNodeImageStates (sc_imageStates c3) (Some node)\<rparr>, None)))"

section \<open>Counts\<close>

definition NodeCount :: "schedulerCache \<Rightarrow> nat" where
  "NodeCount c = card (dom (sc_nodes c))"

definition PodCount :: "string list \<Rightarrow> schedulerCache \<Rightarrow> nat" where
  "PodCount order c = (\<Sum>name\<leftarrow>order. case sc_nodes c name of None \<Rightarrow> 0 | Some n \<Rightarrow> length (ni_Pods (li_info n)))"

section \<open>Debugging\<close>

record Dump =
  du_AssumedPods :: "string set"
  du_Nodes :: "string \<rightharpoonup> NodeInfo"

definition sc_Dump :: "schedulerCache \<Rightarrow> Dump" where
  "sc_Dump c = \<lparr>du_AssumedPods = sc_assumedPods c, du_Nodes = (\<lambda>name. map_option (\<lambda>n. NodeInfo_Clone (li_info n)) (sc_nodes c name))\<rparr>"

end
