(* ===== verification/Cache_Snapshot.thy ===== *)
theory Cache_Snapshot
  imports Scheduler_Cache
begin

text \<open>
  Snapshots of the scheduler cache: \<open>pkg/scheduler/internal/cache/snapshot.go\<close> and
  \<open>UpdateSnapshot\<close> of \<open>cache.go\<close>. The lists of a snapshot hold the pointers that its map holds,
  and \<open>UpdateSnapshot\<close> overwrites the structs behind them; so a snapshot has a store, and its
  map and lists hold addresses. The generation counter passes through the constructors that
  draw from it.
\<close>

section \<open>Snapshots\<close>

record Snapshot =
  sn_store :: "nat \<rightharpoonup> NodeInfo"
  sn_fresh :: nat
  sn_nodeInfoMap :: "string \<rightharpoonup> nat"
  sn_nodeInfoList :: "nat list"
  sn_havePodsWithAffinityNodeInfoList :: "nat list"
  sn_havePodsWithRequiredAntiAffinityNodeInfoList :: "nat list"
  sn_generation :: int

definition NewEmptySnapshot :: Snapshot where
  "NewEmptySnapshot =
     \<lparr>sn_store = Map.empty, sn_fresh = 0, sn_nodeInfoMap = Map.empty, sn_nodeInfoList = [],
      sn_havePodsWithAffinityNodeInfoList = [], sn_havePodsWithRequiredAntiAffinityNodeInfoList = [], sn_generation = 0\<rparr>"

text \<open>Reading the struct behind a pointer; \<open>&NodeInfo{}\<close> is the struct of zero values.\<close>

definition empty_NodeInfo :: NodeInfo where
  "empty_NodeInfo =
     \<lparr>ni_node = None, ni_Pods = [], ni_PodsWithAffinity = [], ni_PodsWithRequiredAntiAffinity = [],
      ni_UsedPorts = Map.empty, ni_Requested = zero_Resource, ni_NonZeroRequested = zero_Resource,
      ni_Allocatable = zero_Resource, ni_ImageStates = Map.empty, ni_Generation = 0\<rparr>"

definition sn_info :: "Snapshot \<Rightarrow> nat \<Rightarrow> NodeInfo" where
  "sn_info s a = (case sn_store s a of None \<Rightarrow> empty_NodeInfo | Some ni \<Rightarrow> ni)"

definition sn_alloc :: "Snapshot \<Rightarrow> string \<Rightarrow> NodeInfo \<Rightarrow> Snapshot" where
  "sn_alloc s name ni =
     s\<lparr>sn_store := (sn_store s)(sn_fresh s \<mapsto> ni), sn_nodeInfoMap := (sn_nodeInfoMap s)(name \<mapsto> sn_fresh s),
       sn_fresh := Suc (sn_fresh s)\<rparr>"

section \<open>UpdateSnapshot\<close>

record snap_flags =
  updateAllLists :: bool
  updateNodesHavePodsWithAffinity :: bool
  updateNodesHavePodsWithRequiredAntiAffinity :: bool

text \<open>The body of the loop for a node that changed after the last snapshot.\<close>

definition snap_node :: "NodeInfo \<Rightarrow> Snapshot \<times> snap_flags \<Rightarrow> Snapshot \<times> snap_flags" where
  "snap_node info sf =
     (let (s, f) = sf in
      case ni_node info of
        None \<Rightarrow> (s, f)
      | Some np \<Rightarrow>
          (let (s1, f1) =
                 (case sn_nodeInfoMap s (n_Name np) of
                    None \<Rightarrow> (sn_alloc s (n_Name np) empty_NodeInfo, f\<lparr>updateAllLists := True\<rparr>)
                  | Some _ \<Rightarrow> (s, f));
               clone = NodeInfo_Clone info in
           case sn_nodeInfoMap s1 (n_Name np) of
             None \<Rightarrow> (s1, f1)
           | Some a \<Rightarrow>
               (let existing = sn_info s1 a;
                    f2 = (if (length (ni_PodsWithAffinity existing) > 0) \<noteq> (length (ni_PodsWithAffinity clone) > 0)
                          then f1\<lparr>updateNodesHavePodsWithAffinity := True\<rparr> else f1);
                    f3 = (if (length (ni_PodsWithRequiredAntiAffinity existing) > 0) \<noteq> (length (ni_PodsWithRequiredAntiAffinity clone) > 0)
                          then f2\<lparr>updateNodesHavePodsWithRequiredAntiAffinity := True\<rparr> else f2) in
                (s1\<lparr>sn_store := (sn_store s1)(a \<mapsto> clone)\<rparr>, f3))))"

text \<open>\<open>for node := cache.headNode; node != nil; node = node.next\<close>; that the walk ends is shown
  for the lists of reachable caches.\<close>

partial_function (option) snap_loop ::
  "NodeInfo node_map \<Rightarrow> int \<Rightarrow> string option \<Rightarrow> Snapshot \<times> snap_flags \<Rightarrow> (Snapshot \<times> snap_flags) option" where
  "snap_loop nodes gen p sf =
     (case p of
        None \<Rightarrow> Some sf
      | Some name \<Rightarrow>
          (case nodes name of
             None \<Rightarrow> None
           | Some node \<Rightarrow>
               (if ni_Generation (li_info node) \<le> gen then Some sf
                else snap_loop nodes gen (li_next node) (snap_node (li_info node) sf))))"

text \<open>The loop over the names of the snapshot, in the given order.\<close>

fun removeDeletedNodesFromSnapshot :: "NodeInfo node_map \<Rightarrow> string list \<Rightarrow> int \<Rightarrow> Snapshot \<Rightarrow> Snapshot" where
  "removeDeletedNodesFromSnapshot nodes [] toDelete s = s"
| "removeDeletedNodesFromSnapshot nodes (name # names) toDelete s =
     (if toDelete \<le> 0 then s
      else if (case nodes name of None \<Rightarrow> True | Some n \<Rightarrow> ni_node (li_info n) = None)
      then removeDeletedNodesFromSnapshot nodes names (toDelete - 1) (s\<lparr>sn_nodeInfoMap := (sn_nodeInfoMap s)(name := None)\<rparr>)
      else removeDeletedNodesFromSnapshot nodes names toDelete s)"

definition with_affinity :: "Snapshot \<Rightarrow> nat \<Rightarrow> bool" where
  "with_affinity s a \<longleftrightarrow> length (ni_PodsWithAffinity (sn_info s a)) > 0"

definition with_anti_affinity :: "Snapshot \<Rightarrow> nat \<Rightarrow> bool" where
  "with_anti_affinity s a \<longleftrightarrow> length (ni_PodsWithRequiredAntiAffinity (sn_info s a)) > 0"

text \<open>The lists are built in the order in which the loop appends to them.\<close>

definition updateNodeInfoSnapshotList :: "nodeTree \<Rightarrow> Snapshot \<Rightarrow> bool \<Rightarrow> Snapshot option" where
  "updateNodeInfoSnapshotList nt s updateAll =
     (if updateAll then
        (case tree_list nt of
           None \<Rightarrow> None
         | Some (nodesList, _) \<Rightarrow>
             (let infos = List.map_filter (sn_nodeInfoMap s) nodesList in
              Some (s\<lparr>sn_nodeInfoList := infos,
                      sn_havePodsWithAffinityNodeInfoList := filter (with_affinity s) infos,
                      sn_havePodsWithRequiredAntiAffinityNodeInfoList := filter (with_anti_affinity s) infos\<rparr>)))
      else
        Some (s\<lparr>sn_havePodsWithAffinityNodeInfoList := filter (with_affinity s) (sn_nodeInfoList s),
                sn_havePodsWithRequiredAntiAffinityNodeInfoList := filter (with_anti_affinity s) (sn_nodeInfoList s)\<rparr>))"

text \<open>The argument \<open>order\<close> gives the order in which the names of the snapshot's map are visited
  when deleted nodes are looked for; \<open>len(nodeSnapshot.nodeInfoMap)\<close> is its length.\<close>

definition UpdateSnapshot :: "(Snapshot \<Rightarrow> string list) \<Rightarrow> schedulerCache \<Rightarrow> Snapshot \<Rightarrow> (Snapshot \<times> go_error option) option" where
  "UpdateSnapshot order c s =
     do {
       (s1, f) \<leftarrow> snap_loop (sc_nodes c) (sn_generation s) (sc_headNode c)
         (s, \<lparr>updateAllLists = False, updateNodesHavePodsWithAffinity = False, updateNodesHavePodsWithRequiredAntiAffinity = False\<rparr>);
       let s2 = (case sc_headNode c of
                   None \<Rightarrow> s1
                 | Some h \<Rightarrow> (case sc_nodes c h of None \<Rightarrow> s1 | Some n \<Rightarrow> s1\<lparr>sn_generation := ni_Generation (li_info n)\<rparr>));
       let numNodes = nt_numNodes (sc_nodeTree c);
       let extra = int (length (order s2)) - numNodes;
       let s3 = (if extra > 0 then removeDeletedNodesFromSnapshot (sc_nodes c) (order s2) extra s2 else s2);
       let all = (extra > 0 \<or> updateAllLists f);
       s4 \<leftarrow>
         (if all \<or> updateNodesHavePodsWithAffinity f \<or> updateNodesHavePodsWithRequiredAntiAffinity f
          then updateNodeInfoSnapshotList (sc_nodeTree c) s3 all else Some s3);
       if int (length (sn_nodeInfoList s4)) \<noteq> numNodes
       then map_option (\<lambda>s5. (s5, Some (Errorf ''snapshot state is not consistent''))) (updateNodeInfoSnapshotList (sc_nodeTree c) s4 True)
       else Some (s4, None)
     }"

section \<open>Reading a snapshot\<close>

definition sn_NumNodes :: "Snapshot \<Rightarrow> nat" where
  "sn_NumNodes s = length (sn_nodeInfoList s)"

definition sn_List :: "Snapshot \<Rightarrow> NodeInfo list" where
  "sn_List s = map (sn_info s) (sn_nodeInfoList s)"

definition sn_HavePodsWithAffinityList :: "Snapshot \<Rightarrow> NodeInfo list" where
  "sn_HavePodsWithAffinityList s = map (sn_info s) (sn_havePodsWithAffinityNodeInfoList s)"

definition sn_HavePodsWithRequiredAntiAffinityList :: "Snapshot \<Rightarrow> NodeInfo list" where
  "sn_HavePodsWithRequiredAntiAffinityList s = map (sn_info s) (sn_havePodsWithRequiredAntiAffinityNodeInfoList s)"

definition sn_Get :: "Snapshot \<Rightarrow> string \<Rightarrow> go_error + NodeInfo" where
  "sn_Get s nodeName =
     (case sn_nodeInfoMap s nodeName of
        Some a \<Rightarrow>
          (if ni_node (sn_info s a) \<noteq> None then Inr (sn_info s a) else Inl (Errorf ''nodeinfo not found for node name''))
      | None \<Rightarrow> Inl (Errorf ''nodeinfo not found for node name''))"

section \<open>Snapshots built from lists\<close>

definition createImageExistenceMap :: "node list \<Rightarrow> (string \<rightharpoonup> string set)" where
  "createImageExistenceMap nodes =
     foldl (\<lambda>m node. foldl (\<lambda>m image. foldl (\<lambda>m name.
         case m name of None \<Rightarrow> m(name \<mapsto> {n_Name node}) | Some ns \<Rightarrow> m(name \<mapsto> insert (n_Name node) ns))
       m (ci_Names image)) m (n_Images node)) Map.empty nodes"

definition getNodeImageStates :: "node \<Rightarrow> (string \<rightharpoonup> string set) \<Rightarrow> (string \<rightharpoonup> imageStateSummary)" where
  "getNodeImageStates node existence =
     foldl (\<lambda>m image. foldl (\<lambda>m name.
         m(name \<mapsto> \<lparr>is_Size = ci_SizeBytes image,
            is_NumNodes = (case existence name of None \<Rightarrow> 0 | Some ns \<Rightarrow> int (card ns))\<rparr>)) m (ci_Names image))
       Map.empty (n_Images node)"

definition info_or_new :: "feature_gates \<Rightarrow> (string \<rightharpoonup> NodeInfo) \<times> int \<Rightarrow> string \<Rightarrow> NodeInfo \<times> int" where
  "info_or_new g mg name = (case fst mg name of Some ni \<Rightarrow> (ni, snd mg) | None \<Rightarrow> NewNodeInfo g (snd mg) [])"

definition createNodeInfoMap :: "feature_gates \<Rightarrow> int \<Rightarrow> pod list \<Rightarrow> node list \<Rightarrow> (string \<rightharpoonup> NodeInfo) \<times> int" where
  "createNodeInfoMap g gen pods nodes =
     (let mg = foldl (\<lambda>mg pod.
            let (ni, gen') = AddPod g (info_or_new g mg (p_NodeName pod)) pod in ((fst mg)(p_NodeName pod \<mapsto> ni), gen'))
            (Map.empty, gen) pods;
          existence = createImageExistenceMap nodes in
      foldl (\<lambda>mg node.
        let (ni, gen') = SetNode g (info_or_new g mg (n_Name node)) node in
        ((fst mg)(n_Name node \<mapsto> ni\<lparr>ni_ImageStates := getNodeImageStates node existence\<rparr>), gen')) mg nodes)"

definition NewSnapshot :: "feature_gates \<Rightarrow> int \<Rightarrow> string list \<Rightarrow> pod list \<Rightarrow> node list \<Rightarrow> Snapshot" where
  "NewSnapshot g gen order pods nodes =
     (let infos = fst (createNodeInfoMap g gen pods nodes);
          s = foldl (\<lambda>s name. case infos name of None \<Rightarrow> s | Some ni \<Rightarrow> sn_alloc s name ni) NewEmptySnapshot order;
          l = List.map_filter (sn_nodeInfoMap s) order in
      s\<lparr>sn_nodeInfoList := l, sn_havePodsWithAffinityNodeInfoList := filter (with_affinity s) l,
        sn_havePodsWithRequiredAntiAffinityNodeInfoList := filter (with_anti_affinity s) l\<rparr>)"

end
