(* ===== verification/Cache_Correct.thy ===== *)
theory Cache_Correct
  imports Cache_Snapshot
begin

text \<open>
  Correctness of the scheduler cache: the list of nodes is well linked and ordered by decreasing
  generation, the node tree holds the live nodes, the pods of the nodes are those of the pod
  states. The invariant is split into what concerns the list and what concerns the map from
  names to node information that the list carries.
\<close>

section \<open>The list of nodes\<close>

definition imap :: "schedulerCache \<Rightarrow> string \<rightharpoonup> NodeInfo" where
  "imap c name = map_option li_info (sc_nodes c name)"

definition gen_at :: "(string \<rightharpoonup> NodeInfo) \<Rightarrow> string \<Rightarrow> int" where
  "gen_at im name = (case im name of None \<Rightarrow> 0 | Some i \<Rightarrow> ni_Generation i)"

definition lst :: "schedulerCache \<Rightarrow> string list \<Rightarrow> bool" where
  "lst c xs \<longleftrightarrow> dll (sc_nodes c) (sc_headNode c) xs \<and> set xs = dom (sc_nodes c)"

definition newest_first :: "(string \<rightharpoonup> NodeInfo) \<Rightarrow> string list \<Rightarrow> bool" where
  "newest_first im xs \<longleftrightarrow> sorted_wrt (\<lambda>a b. gen_at im a > gen_at im b) xs"

definition gens_ok :: "(string \<rightharpoonup> NodeInfo) \<Rightarrow> int \<Rightarrow> bool" where
  "gens_ok im gen \<longleftrightarrow> 0 \<le> gen \<and> (\<forall>name i. im name = Some i \<longrightarrow> 0 < ni_Generation i \<and> ni_Generation i \<le> gen)"

definition list_inv :: "schedulerCache \<Rightarrow> bool" where
  "list_inv c \<longleftrightarrow> (\<exists>xs. lst c xs \<and> newest_first (imap c) xs) \<and> gens_ok (imap c) (sc_gen c)"

lemma dom_imap: "dom (imap c) = dom (sc_nodes c)"
  by (auto simp: imap_def)

text \<open>Linked or about to be linked.\<close>

definition pre_lst :: "schedulerCache \<Rightarrow> string \<Rightarrow> string list \<Rightarrow> bool" where
  "pre_lst c name xs \<longleftrightarrow> dll (sc_nodes c) (sc_headNode c) xs \<and> dom (sc_nodes c) = insert name (set xs) \<and>
     (name \<notin> set xs \<longrightarrow> next_of (sc_nodes c) name = None \<and> prev_of (sc_nodes c) name = None)"

lemma pre_lst_linked: "lst c xs \<Longrightarrow> sc_nodes c name \<noteq> None \<Longrightarrow> pre_lst c name xs"
  by (auto simp: lst_def pre_lst_def)

lemma ensure_node_some: "sc_nodes c name = Some n \<Longrightarrow> ensure_node g c name = (li_info n, c)"
  by (simp add: ensure_node_def)

lemma ensure_node_none:
  assumes "sc_nodes c name = None" "lst c xs" "ensure_node g c name = (info, c1)"
  shows "info = fst (NewNodeInfo g (sc_gen c) [])" "pre_lst c1 name xs" "imap c1 = (imap c)(name \<mapsto> info)"
    "sc_gen c1 = sc_gen c + 1" "sc_podStates c1 = sc_podStates c" "sc_assumedPods c1 = sc_assumedPods c"
    "sc_nodeTree c1 = sc_nodeTree c" "sc_imageStates c1 = sc_imageStates c" "sc_ttl c1 = sc_ttl c"
proof -
  have new: "NewNodeInfo g (sc_gen c) [] = (info, sc_gen c + 1)"
    and c1: "c1 = c\<lparr>sc_nodes := (sc_nodes c)(name \<mapsto> newNodeInfoListItem info), sc_gen := sc_gen c + 1\<rparr>"
    using assms(1,3) by (auto simp: ensure_node_def NewNodeInfo_def nextGeneration_def)
  show "info = fst (NewNodeInfo g (sc_gen c) [])" using new by simp
  have "name \<notin> set xs" using assms(1,2) by (auto simp: lst_def)
  then show "pre_lst c1 name xs"
    using assms(1,2) by (auto simp: c1 pre_lst_def lst_def dll_upd_other next_of_def prev_of_def newNodeInfoListItem_def)
  show "imap c1 = (imap c)(name \<mapsto> info)" by (auto simp: c1 imap_def newNodeInfoListItem_def fun_eq_iff)
qed (use assms(1,3) in \<open>auto simp: ensure_node_def NewNodeInfo_def nextGeneration_def\<close>)

lemma put_info_fields:
  assumes "sc_nodes c name \<noteq> None"
  shows "imap (put_info c name ns) = (imap c)(name \<mapsto> fst ns)" "sc_gen (put_info c name ns) = snd ns"
    "pre_lst (put_info c name ns) name' xs = pre_lst c name' xs" "lst (put_info c name ns) xs = lst c xs"
    "sc_podStates (put_info c name ns) = sc_podStates c" "sc_assumedPods (put_info c name ns) = sc_assumedPods c"
    "sc_nodeTree (put_info c name ns) = sc_nodeTree c" "sc_imageStates (put_info c name ns) = sc_imageStates c"
    "sc_ttl (put_info c name ns) = sc_ttl c" "sc_nodes (put_info c name ns) x \<noteq> None \<longleftrightarrow> sc_nodes c x \<noteq> None"
proof -
  obtain n where n: "sc_nodes c name = Some n" using assms by blast
  let ?m = "(sc_nodes c)(name \<mapsto> n\<lparr>li_info := fst ns\<rparr>)"
  have p: "put_info c name ns = c\<lparr>sc_nodes := ?m, sc_gen := snd ns\<rparr>" by (simp add: put_info_def n)
  have ptr: "next_of ?m x = next_of (sc_nodes c) x" "prev_of ?m x = prev_of (sc_nodes c) x" "?m x = None \<longleftrightarrow> sc_nodes c x = None" for x
    using n by (auto simp: next_of_def prev_of_def)
  have d: "dll ?m h xs \<longleftrightarrow> dll (sc_nodes c) h xs" for h xs
    unfolding dll_def by (subst seg_cong [of xs ?m "sc_nodes c"]) (use ptr in auto)
  have dm: "insert name (dom (sc_nodes c)) = dom (sc_nodes c)" using n by auto
  show "imap (put_info c name ns) = (imap c)(name \<mapsto> fst ns)" by (auto simp: p imap_def)
  show "pre_lst (put_info c name ns) name' xs = pre_lst c name' xs"
    using ptr by (simp add: p pre_lst_def d dm del: fun_upd_apply)
  show "lst (put_info c name ns) xs = lst c xs" by (simp add: p lst_def d dm del: fun_upd_apply)
  show "sc_nodes (put_info c name ns) x \<noteq> None \<longleftrightarrow> sc_nodes c x \<noteq> None" using n by (simp add: p)
qed (simp_all add: put_info_def split: option.split)

lemma move_fields:
  "sc_podStates (moveNodeInfoToHead c name) = sc_podStates c" "sc_assumedPods (moveNodeInfoToHead c name) = sc_assumedPods c"
  "sc_nodeTree (moveNodeInfoToHead c name) = sc_nodeTree c" "sc_imageStates (moveNodeInfoToHead c name) = sc_imageStates c"
  "sc_ttl (moveNodeInfoToHead c name) = sc_ttl c" "sc_gen (moveNodeInfoToHead c name) = sc_gen c"
  "sc_podStates (removeNodeInfoFromList c name) = sc_podStates c" "sc_assumedPods (removeNodeInfoFromList c name) = sc_assumedPods c"
  "sc_nodeTree (removeNodeInfoFromList c name) = sc_nodeTree c" "sc_imageStates (removeNodeInfoFromList c name) = sc_imageStates c"
  "sc_ttl (removeNodeInfoFromList c name) = sc_ttl c" "sc_gen (removeNodeInfoFromList c name) = sc_gen c"
  by (simp_all add: moveNodeInfoToHead_def removeNodeInfoFromList_def split: prod.split)

lemma move_lst:
  assumes "pre_lst c name xs"
  shows "lst (moveNodeInfoToHead c name) (name # remove1 name xs)" "imap (moveNodeInfoToHead c name) = imap c"
    "sc_nodes (moveNodeInfoToHead c name) name \<noteq> None"
proof -
  have m: "sc_nodes c name \<noteq> None" using assms by (auto simp: pre_lst_def)
  have "dll (sc_nodes c) (sc_headNode c) xs \<and> name \<in> set xs \<or>
      dll (sc_nodes c) (sc_headNode c) xs \<and> name \<notin> set xs \<and> next_of (sc_nodes c) name = None \<and> prev_of (sc_nodes c) name = None"
    using assms by (auto simp: pre_lst_def)
  from list_move_to_head_dll [of "sc_nodes c" name "sc_headNode c" xs, OF m this]
  obtain m' where r: "list_move_to_head (sc_nodes c) (sc_headNode c) name = (m', Some name)"
    and d: "dll m' (Some name) (name # remove1 name xs)" "dom m' = dom (sc_nodes c)"
    and i: "\<forall>y. map_option li_info (m' y) = map_option li_info (sc_nodes c y)" by blast
  have mv: "moveNodeInfoToHead c name = c\<lparr>sc_nodes := m', sc_headNode := Some name\<rparr>" by (simp add: moveNodeInfoToHead_def r)
  have "distinct xs" using assms by (simp add: pre_lst_def dll_def)
  then show "lst (moveNodeInfoToHead c name) (name # remove1 name xs)"
    using d assms by (auto simp: mv lst_def pre_lst_def)
  show "imap (moveNodeInfoToHead c name) = imap c" using i by (auto simp: mv imap_def)
  show "sc_nodes (moveNodeInfoToHead c name) name \<noteq> None" using d(2) m by (auto simp: mv)
qed

lemma remove_lst:
  assumes "lst c xs" "sc_nodes c name \<noteq> None"
  shows "lst (removeNodeInfoFromList c name) (remove1 name xs)" "imap (removeNodeInfoFromList c name) = (imap c)(name := None)"
proof -
  have "name \<in> set xs" using assms by (auto simp: lst_def)
  then obtain ys zs where xs: "xs = ys @ name # zs" "name \<notin> set ys" by (meson split_list_first)
  have dl: "dll (sc_nodes c) (sc_headNode c) (ys @ name # zs)" using assms xs by (simp add: lst_def)
  from list_remove_dll [OF dl] obtain m' h' where r: "list_remove (sc_nodes c) (sc_headNode c) name = (m', h')"
    and d: "dll m' h' (ys @ zs)" "dom m' = dom (sc_nodes c) - {name}"
    and i: "\<forall>y. y \<noteq> name \<longrightarrow> map_option li_info (m' y) = map_option li_info (sc_nodes c y)" by blast
  have rm: "removeNodeInfoFromList c name = c\<lparr>sc_nodes := m', sc_headNode := h'\<rparr>" by (simp add: removeNodeInfoFromList_def r)
  have "name \<notin> set zs" using dl by (auto simp: dll_def)
  then show "lst (removeNodeInfoFromList c name) (remove1 name xs)"
    using d assms xs by (auto simp: rm lst_def remove1_append)
  have "m' name = None" using d(2) by blast
  then show "imap (removeNodeInfoFromList c name) = (imap c)(name := None)"
    using i by (auto simp: rm imap_def fun_eq_iff)
qed

text \<open>A node that was changed and stands in front keeps the list ordered when it has drawn a new
  generation; so does taking a node out.\<close>

lemma newest_first_cons:
  assumes "newest_first im xs" "gens_ok im gen" "gen < ni_Generation i" "distinct xs"
  shows "newest_first (im(name \<mapsto> i)) (name # remove1 name xs)"
proof -
  have sub: "sorted_wrt (\<lambda>a b. gen_at im a > gen_at im b) (remove1 name xs)"
    using assms(1) unfolding newest_first_def by (induction xs) (auto dest: notin_set_remove1)
  have lt: "gen_at im a < ni_Generation i" for a
    using assms(2,3) by (auto simp: gen_at_def gens_ok_def split: option.splits intro: le_less_trans)
  have other: "gen_at (im(name \<mapsto> i)) a = gen_at im a" if "a \<noteq> name" for a using that by (simp add: gen_at_def)
  have notin: "name \<notin> set (remove1 name xs)" using assms(4) by simp
  have "sorted_wrt (\<lambda>a b. gen_at (im(name \<mapsto> i)) a > gen_at (im(name \<mapsto> i)) b) (remove1 name xs)"
    using sub by (rule sorted_wrt_mono_rel [rotated]) (use notin other in metis)
  moreover have "gen_at (im(name \<mapsto> i)) b < gen_at (im(name \<mapsto> i)) name" if "b \<in> set (remove1 name xs)" for b
    using other [of b] lt [of b] that notin by (auto simp: gen_at_def)
  ultimately show ?thesis by (simp add: newest_first_def)
qed

lemma newest_first_remove:
  assumes "newest_first im xs" "distinct xs"
  shows "newest_first (im(name := None)) (remove1 name xs)"
proof -
  have sub: "sorted_wrt (\<lambda>a b. gen_at im a > gen_at im b) (remove1 name xs)"
    using assms(1) unfolding newest_first_def by (induction xs) (auto dest: notin_set_remove1)
  have notin: "name \<notin> set (remove1 name xs)" using assms(2) by simp
  show ?thesis unfolding newest_first_def
    using sub by (rule sorted_wrt_mono_rel [rotated]) (use notin in \<open>auto simp: gen_at_def\<close>)
qed

lemma gens_ok_upd: "gens_ok im gen \<Longrightarrow> gen < ni_Generation i \<Longrightarrow> ni_Generation i \<le> gen' \<Longrightarrow> gens_ok (im(name \<mapsto> i)) gen'"
  by (force simp: gens_ok_def)

lemma gens_ok_remove: "gens_ok im gen \<Longrightarrow> gen \<le> gen' \<Longrightarrow> gens_ok (im(name := None)) gen'"
  by (force simp: gens_ok_def)

section \<open>The invariant\<close>

text \<open>A node without its object is kept only while it has pods.\<close>

definition info_ok :: "feature_gates \<Rightarrow> string \<Rightarrow> NodeInfo \<Rightarrow> bool" where
  "info_ok g name i \<longleftrightarrow> ni_inv g False i \<and> (case ni_node i of None \<Rightarrow> ni_Pods i \<noteq> [] | Some nd \<Rightarrow> n_Name nd = name)"

definition im_ok :: "feature_gates \<Rightarrow> (string \<rightharpoonup> NodeInfo) \<Rightarrow> bool" where
  "im_ok g im \<longleftrightarrow> (\<forall>name i. im name = Some i \<longrightarrow> info_ok g name i)"

definition node_at :: "(string \<rightharpoonup> NodeInfo) \<Rightarrow> string \<Rightarrow> node option" where
  "node_at im name = (case im name of None \<Rightarrow> None | Some i \<Rightarrow> ni_node i)"

definition live_pairs :: "(string \<rightharpoonup> NodeInfo) \<Rightarrow> (string \<times> string) set" where
  "live_pairs im = {(z, name). \<exists>nd. node_at im name = Some nd \<and> z = GetZoneKey nd}"

definition tree_ok :: "nodeTree \<Rightarrow> (string \<rightharpoonup> NodeInfo) \<Rightarrow> bool" where
  "tree_ok nt im \<longleftrightarrow> nt_inv nt \<and> nt_pairs nt = live_pairs im"

definition pods_at :: "(string \<rightharpoonup> NodeInfo) \<Rightarrow> string \<Rightarrow> podInfo list" where
  "pods_at im name = (case im name of None \<Rightarrow> [] | Some i \<Rightarrow> ni_Pods i)"

definition podset :: "(string \<rightharpoonup> NodeInfo) \<Rightarrow> (string \<times> podInfo) set" where
  "podset im = {(name, x). x \<in> set (pods_at im name)}"

text \<open>Every pod state has its pod on its node, with the same spec, and every pod on a node has
  its state; so a UID occurs on one node only.\<close>

definition pods_ok :: "(string \<times> podInfo) set \<Rightarrow> (string \<rightharpoonup> podState) \<Rightarrow> bool" where
  "pods_ok S ps \<longleftrightarrow>
     (\<forall>key st. ps key = Some st \<longrightarrow> key \<noteq> [] \<and> p_UID (ps_pod st) = key \<and>
        (\<exists>x. (p_NodeName (ps_pod st), x) \<in> S \<and> p_UID (pi_Pod x) = key \<and> same_spec (pi_Pod x) (ps_pod st))) \<and>
     (\<forall>name x. (name, x) \<in> S \<longrightarrow> (\<exists>st. ps (p_UID (pi_Pod x)) = Some st \<and> p_NodeName (ps_pod st) = name)) \<and>
     (\<forall>name x x'. (name, x) \<in> S \<longrightarrow> (name, x') \<in> S \<longrightarrow> p_UID (pi_Pod x) = p_UID (pi_Pod x') \<longrightarrow> x = x')"

definition assumed_ok :: "string set \<Rightarrow> (string \<rightharpoonup> podState) \<Rightarrow> bool" where
  "assumed_ok A ps \<longleftrightarrow> (\<forall>key\<in>A. \<exists>st. ps key = Some st \<and> (ps_bindingFinished st \<longrightarrow> ps_deadline st \<noteq> None))"

definition sc_inv :: "feature_gates \<Rightarrow> schedulerCache \<Rightarrow> bool" where
  "sc_inv g c \<longleftrightarrow> list_inv c \<and> im_ok g (imap c) \<and> tree_ok (sc_nodeTree c) (imap c) \<and>
     pods_ok (podset (imap c)) (sc_podStates c) \<and> assumed_ok (sc_assumedPods c) (sc_podStates c)"

text \<open>Every entry that an operation leaves changed has drawn a new generation.\<close>

definition evolves :: "schedulerCache \<Rightarrow> schedulerCache \<Rightarrow> bool" where
  "evolves c c' \<longleftrightarrow> sc_gen c \<le> sc_gen c' \<and>
     (\<forall>name i. imap c' name = Some i \<longrightarrow> imap c name = Some i \<or> sc_gen c < ni_Generation i)"

lemma evolves_refl: "imap c' = imap c \<Longrightarrow> sc_gen c' = sc_gen c \<Longrightarrow> evolves c c'"
  by (simp add: evolves_def)

lemma evolves_trans: "evolves a b \<Longrightarrow> evolves b c \<Longrightarrow> evolves a c"
  unfolding evolves_def by (metis le_less_trans order_trans)

lemma evolves_upd: "imap c' = (imap c)(name \<mapsto> i) \<Longrightarrow> sc_gen c < ni_Generation i \<Longrightarrow> sc_gen c \<le> sc_gen c' \<Longrightarrow> evolves c c'"
  by (auto simp: evolves_def split: if_splits)

lemma evolves_remove: "imap c' = (imap c)(name := None) \<Longrightarrow> sc_gen c \<le> sc_gen c' \<Longrightarrow> evolves c c'"
  by (auto simp: evolves_def split: if_splits)

text \<open>The fields that work on the nodes does not concern.\<close>

definition same_pods :: "schedulerCache \<Rightarrow> schedulerCache \<Rightarrow> bool" where
  "same_pods c c' \<longleftrightarrow> sc_podStates c' = sc_podStates c \<and> sc_assumedPods c' = sc_assumedPods c \<and> sc_ttl c' = sc_ttl c"

lemma list_inv_touch:
  assumes "lst c' (name # remove1 name xs)" "lst c xs \<or> dll (sc_nodes c) (sc_headNode c) xs" "imap c' = (imap c)(name \<mapsto> i)"
    "newest_first (imap c) xs" "gens_ok (imap c) (sc_gen c)" "sc_gen c < ni_Generation i" "ni_Generation i \<le> sc_gen c'"
  shows "list_inv c'"
proof -
  have "distinct xs" using assms(2) by (auto simp: lst_def dll_def)
  then show ?thesis
    unfolding list_inv_def assms(3) using assms newest_first_cons gens_ok_upd by blast
qed

lemma live_pairs_upd_same:
  assumes "ni_node i = node_at im name"
  shows "live_pairs (im(name \<mapsto> i)) = live_pairs im"
proof -
  have "node_at (im(name \<mapsto> i)) = node_at im" using assms by (auto simp: node_at_def fun_eq_iff)
  then show ?thesis by (simp add: live_pairs_def)
qed

lemma live_pairs_remove_ghost:
  assumes "node_at im name = None"
  shows "live_pairs (im(name := None)) = live_pairs im"
proof -
  have "node_at (im(name := None)) = node_at im" using assms by (auto simp: node_at_def fun_eq_iff)
  then show ?thesis by (simp add: live_pairs_def)
qed

lemma im_ok_upd: "im_ok g im \<Longrightarrow> info_ok g name i \<Longrightarrow> im_ok g (im(name \<mapsto> i))"
  by (simp add: im_ok_def)

lemma im_ok_remove: "im_ok g im \<Longrightarrow> im_ok g (im(name := None))"
  by (simp add: im_ok_def)

lemma podset_iff: "(name, x) \<in> podset im \<longleftrightarrow> x \<in> set (pods_at im name)"
  by (simp add: podset_def)

section \<open>Pods come and go\<close>

lemma ensured:
  assumes "list_inv c"
  shows "\<exists>xs info c1. ensure_node g c name = (info, c1) \<and> pre_lst c1 name xs \<and> lst c xs \<and> newest_first (imap c) xs \<and>
    imap c1 = (imap c)(name \<mapsto> info) \<and> sc_gen c \<le> sc_gen c1 \<and> same_pods c c1 \<and> sc_nodeTree c1 = sc_nodeTree c \<and>
    ni_Pods info = pods_at (imap c) name \<and> ni_node info = node_at (imap c) name \<and>
    (imap c name = Some info \<and> c1 = c \<or> imap c name = None \<and> info = fst (NewNodeInfo g (sc_gen c) []) \<and> sc_gen c < ni_Generation info \<and> ni_Generation info \<le> sc_gen c1)"
proof -
  obtain xs where xs: "lst c xs" "newest_first (imap c) xs" using assms by (auto simp: list_inv_def)
  obtain info c1 where e: "ensure_node g c name = (info, c1)" by fastforce
  show ?thesis
  proof (cases "sc_nodes c name")
    case None
    note f = ensure_node_none [OF None xs(1) e]
    have "imap c name = None" using None by (simp add: imap_def)
    moreover have "ni_Pods info = []" "ni_node info = None" "ni_Generation info = sc_gen c + 1"
      using f(1) by (simp_all add: NewNodeInfo_def nextGeneration_def)
    ultimately show ?thesis using e xs f by (auto simp: same_pods_def pods_at_def node_at_def)
  next
    case (Some n)
    then have "info = li_info n" "c1 = c" using e by (simp_all add: ensure_node_some)
    moreover have "imap c name = Some (li_info n)" using Some by (simp add: imap_def)
    ultimately show ?thesis using e xs pre_lst_linked [OF xs(1), of name] Some
      by (auto simp: same_pods_def pods_at_def node_at_def fun_upd_idem)
  qed
qed

lemma addPod_effect:
  assumes L: "list_inv c" and I: "im_ok g (imap c)" and uid: "p_UID pod \<noteq> []"
    "\<And>x. x \<in> set (pods_at (imap c) (p_NodeName pod)) \<Longrightarrow> p_UID (pi_Pod x) \<noteq> p_UID pod"
  shows "\<exists>i. imap (sc_addPod g c pod) = (imap c)(p_NodeName pod \<mapsto> i) \<and> list_inv (sc_addPod g c pod) \<and> info_ok g (p_NodeName pod) i \<and>
    ni_node i = node_at (imap c) (p_NodeName pod) \<and> ni_Pods i = pods_at (imap c) (p_NodeName pod) @ [NewPodInfo pod] \<and>
    sc_gen c < ni_Generation i \<and> ni_Generation i \<le> sc_gen (sc_addPod g c pod) \<and>
    same_pods c (sc_addPod g c pod) \<and> sc_nodeTree (sc_addPod g c pod) = sc_nodeTree c"
proof -
  let ?nm = "p_NodeName pod"
  obtain xs info c1 where e: "ensure_node g c ?nm = (info, c1)" "pre_lst c1 ?nm xs" "lst c xs" "newest_first (imap c) xs"
    "imap c1 = (imap c)(?nm \<mapsto> info)" "sc_gen c \<le> sc_gen c1" "same_pods c c1" "sc_nodeTree c1 = sc_nodeTree c"
    "ni_Pods info = pods_at (imap c) ?nm" "ni_node info = node_at (imap c) ?nm"
    and alt: "imap c ?nm = Some info \<and> c1 = c \<or> imap c ?nm = None \<and> info = fst (NewNodeInfo g (sc_gen c) []) \<and> sc_gen c < ni_Generation info \<and> ni_Generation info \<le> sc_gen c1"
    using ensured [OF L, of g ?nm] by blast
  obtain i gen' where a: "AddPod g (info, sc_gen c1) pod = (i, gen')" by fastforce
  note f = AddPodInfo_fields [OF a [unfolded AddPod_def]]
  have inv: "ni_inv g False info" using alt I ni_inv_new by (auto simp: im_ok_def info_ok_def)
  have "ni_allowed False (NiAdd pod) info" using uid e(9) by (fastforce simp: image_iff)
  then have inv': "ni_inv g False i" using ni_inv_AddPod [OF inv, of pod "sc_gen c1"] a by simp
  have n1: "sc_nodes c1 ?nm \<noteq> None" using e(2) by (auto simp: pre_lst_def)
  define c2 where "c2 = put_info c1 ?nm (i, gen')"
  have p2: "pre_lst c2 ?nm xs" unfolding c2_def using put_info_fields(3) [OF n1] e(2) by blast
  have res: "sc_addPod g c pod = moveNodeInfoToHead c2 ?nm" by (simp add: sc_addPod_def Let_def e(1) a c2_def)
  note mv = move_lst [OF p2]
  have im: "imap (sc_addPod g c pod) = (imap c)(?nm \<mapsto> i)"
    unfolding res mv(2) by (simp add: c2_def put_info_fields(1) [OF n1] e(5))
  have gen: "sc_gen (sc_addPod g c pod) = ni_Generation i" "sc_gen c < ni_Generation i"
    using f(6,7) e(6) by (simp_all add: res move_fields c2_def put_info_fields [OF n1])
  have "list_inv (sc_addPod g c pod)"
    by (rule list_inv_touch [of _ ?nm xs c i]) (use L im gen mv(1) e(3,4) in \<open>auto simp: res list_inv_def\<close>)
  moreover have "info_ok g ?nm i" using inv' I alt f(1,2) e(10)
    by (auto simp: info_ok_def im_ok_def node_at_def split: option.splits)
  moreover have "same_pods c (sc_addPod g c pod)" "sc_nodeTree (sc_addPod g c pod) = sc_nodeTree c"
    using e(7,8) by (simp_all add: same_pods_def res move_fields c2_def put_info_fields [OF n1])
  ultimately show ?thesis using im gen f(1,2) e(9,10) by (intro exI [of _ i]) auto
qed

definition work_inv :: "feature_gates \<Rightarrow> schedulerCache \<Rightarrow> bool" where
  "work_inv g c \<longleftrightarrow> list_inv c \<and> im_ok g (imap c) \<and> tree_ok (sc_nodeTree c) (imap c)"

lemma podset_upd: "podset (im(name \<mapsto> i)) = {p \<in> podset im. fst p \<noteq> name} \<union> Pair name ` set (ni_Pods i)"
  by (auto simp: podset_def pods_at_def split: if_splits)

lemma podset_remove: "podset (im(name := None)) = {p \<in> podset im. fst p \<noteq> name}"
  by (auto simp: podset_def pods_at_def split: if_splits)

lemma addPod_ok:
  assumes W: "work_inv g c" and uid: "p_UID pod \<noteq> []"
    "\<And>x. (p_NodeName pod, x) \<in> podset (imap c) \<Longrightarrow> p_UID (pi_Pod x) \<noteq> p_UID pod"
  shows "work_inv g (sc_addPod g c pod)"
    "podset (imap (sc_addPod g c pod)) = insert (p_NodeName pod, NewPodInfo pod) (podset (imap c))"
    "evolves c (sc_addPod g c pod)" "same_pods c (sc_addPod g c pod)" "node_at (imap (sc_addPod g c pod)) = node_at (imap c)"
proof -
  have L: "list_inv c" and I: "im_ok g (imap c)" and T: "tree_ok (sc_nodeTree c) (imap c)"
    using W by (simp_all add: work_inv_def)
  obtain i where i: "imap (sc_addPod g c pod) = (imap c)(p_NodeName pod \<mapsto> i)" "list_inv (sc_addPod g c pod)" "info_ok g (p_NodeName pod) i"
    "ni_node i = node_at (imap c) (p_NodeName pod)" "ni_Pods i = pods_at (imap c) (p_NodeName pod) @ [NewPodInfo pod]"
    "sc_gen c < ni_Generation i" "ni_Generation i \<le> sc_gen (sc_addPod g c pod)"
    "same_pods c (sc_addPod g c pod)" "sc_nodeTree (sc_addPod g c pod) = sc_nodeTree c"
    using addPod_effect [OF L I uid(1)] uid(2) by (auto simp: podset_iff)
  show "work_inv g (sc_addPod g c pod)"
    using i T im_ok_upd [OF I i(3)] live_pairs_upd_same [OF i(4)] by (simp add: work_inv_def tree_ok_def)
  show "podset (imap (sc_addPod g c pod)) = insert (p_NodeName pod, NewPodInfo pod) (podset (imap c))"
    unfolding i(1) podset_upd i(5) by (auto simp: podset_def)
  show "evolves c (sc_addPod g c pod)" using evolves_upd [OF i(1,6)] i(6,7) by simp
  show "node_at (imap (sc_addPod g c pod)) = node_at (imap c)" using i(4) by (auto simp: i(1) node_at_def fun_eq_iff)
qed (use addPod_effect [of c g pod] assms in \<open>auto simp: work_inv_def podset_iff\<close>)

lemma removePod_ok:
  assumes W: "work_inv g c" and x: "(p_NodeName pod, x) \<in> podset (imap c)" "p_UID (pi_Pod x) = p_UID pod" "same_spec (pi_Pod x) pod"
  shows "\<exists>c'. sc_removePod g c pod = Some (c', None) \<and> work_inv g c' \<and>
    podset (imap c') = podset (imap c) - {(p_NodeName pod, x)} \<and> evolves c c' \<and> same_pods c c' \<and> node_at (imap c') = node_at (imap c)"
proof -
  let ?nm = "p_NodeName pod"
  have L: "list_inv c" and I: "im_ok g (imap c)" and T: "tree_ok (sc_nodeTree c) (imap c)"
    using W by (simp_all add: work_inv_def)
  obtain n where n: "sc_nodes c ?nm = Some n" and xn: "x \<in> set (ni_Pods (li_info n))"
    using x(1) by (cases "sc_nodes c ?nm") (auto simp: podset_def pods_at_def imap_def)
  have imn: "imap c ?nm = Some (li_info n)" using n by (simp add: imap_def)
  have inv: "ni_inv g False (li_info n)" and ok: "info_ok g ?nm (li_info n)" using I imn by (auto simp: im_ok_def info_ok_def)
  have k: "keys_ok (ni_Pods (li_info n))" using inv by (simp add: ni_inv_def)
  obtain i where r: "RemovePod g (li_info n, sc_gen c) pod = Some ((i, sc_gen c + 1), None)"
    and ms: "mset (ni_Pods i) = mset (ni_Pods (li_info n)) - {#x#}" and nd: "ni_node i = ni_node (li_info n)"
    and gen: "ni_Generation i = sc_gen c + 1"
    using RemovePod_found [OF k xn x(2,3), of g "sc_gen c"] by blast
  have allowed: "ni_allowed False (NiRemove pod) (li_info n)"
    using keys_ok_nth_eq [OF k xn] x(2,3) by force
  have inv': "ni_inv g False i" using ni_inv_RemovePod [OF inv allowed r] .
  have dk: "distinct (ni_Pods (li_info n))" using k by (simp add: keys_ok_def distinct_map)
  have set: "set (ni_Pods i) = set (ni_Pods (li_info n)) - {x}"
  proof -
    have "mset (ni_Pods i) = mset (remove1 x (ni_Pods (li_info n)))" using ms by simp
    then have "set (ni_Pods i) = set (remove1 x (ni_Pods (li_info n)))" by (rule mset_eq_setD)
    then show ?thesis using dk by simp
  qed
  have ps: "podset (imap c) - {(?nm, x)} = {p \<in> podset (imap c). fst p \<noteq> ?nm} \<union> Pair ?nm ` set (ni_Pods i)"
    using imn by (auto simp: podset_def pods_at_def set)
  have nn: "sc_nodes c ?nm \<noteq> None" using n by simp
  define c1 where "c1 = put_info c ?nm (i, sc_gen c + 1)"
  note p1 = put_info_fields [OF nn, of "(i, sc_gen c + 1)", folded c1_def, simplified]
  obtain xs where xs: "lst c xs" "newest_first (imap c) xs" and G: "gens_ok (imap c) (sc_gen c)"
    using L by (auto simp: list_inv_def)
  have l1: "lst c1 xs" using p1(4) xs(1) by simp
  have n1: "sc_nodes c1 ?nm \<noteq> None" using p1(10) nn by blast
  show ?thesis
  proof (cases "ni_Pods i = [] \<and> ni_node i = None")
    case True
    let ?c = "removeNodeInfoFromList c1 ?nm"
    have run: "sc_removePod g c pod = Some (?c, None)" by (simp add: sc_removePod_def Let_def n r True c1_def)
    note rm = remove_lst [OF l1 n1]
    have im: "imap ?c = (imap c)(?nm := None)" using rm(2) p1(1) by simp
    have "newest_first (imap ?c) (remove1 ?nm xs)" unfolding im using xs by (intro newest_first_remove) (auto simp: lst_def dll_def)
    moreover have "gens_ok (imap ?c) (sc_gen ?c)" unfolding im using G by (rule gens_ok_remove) (simp add: move_fields p1)
    ultimately have "list_inv ?c" using rm(1) by (auto simp: list_inv_def)
    moreover have "live_pairs (imap ?c) = live_pairs (imap c)"
      unfolding im by (rule live_pairs_remove_ghost) (use True nd imn in \<open>simp add: node_at_def\<close>)
    ultimately have "work_inv g ?c" using T im_ok_remove [OF I] by (simp add: work_inv_def tree_ok_def im move_fields p1)
    moreover have "podset (imap ?c) = podset (imap c) - {(?nm, x)}" unfolding im podset_remove ps using True by simp
    moreover have "evolves c ?c" using im by (rule evolves_remove) (simp add: move_fields p1)
    moreover have "same_pods c ?c" by (simp add: same_pods_def move_fields p1)
    moreover have "node_at (imap ?c) = node_at (imap c)" using True nd imn by (auto simp: im node_at_def fun_eq_iff)
    ultimately show ?thesis using run by blast
  next
    case False
    let ?c = "moveNodeInfoToHead c1 ?nm"
    have run: "sc_removePod g c pod = Some (?c, None)" using False by (auto simp: sc_removePod_def Let_def n r c1_def)
    note mv = move_lst [OF pre_lst_linked [OF l1 n1]]
    have im: "imap ?c = (imap c)(?nm \<mapsto> i)" using mv(2) p1(1) by simp
    have "list_inv ?c"
      by (rule list_inv_touch [of _ ?nm xs c i]) (use im mv(1) xs G gen in \<open>auto simp: move_fields p1\<close>)
    moreover have "live_pairs (imap ?c) = live_pairs (imap c)"
      unfolding im by (rule live_pairs_upd_same) (use nd imn in \<open>simp add: node_at_def\<close>)
    moreover have "info_ok g ?nm i" using inv' ok nd False by (auto simp: info_ok_def split: option.splits)
    ultimately have "work_inv g ?c" using T im_ok_upd [OF I] by (simp add: work_inv_def tree_ok_def im move_fields p1)
    moreover have "podset (imap ?c) = podset (imap c) - {(?nm, x)}" unfolding im podset_upd ps ..
    moreover have "evolves c ?c" using im by (rule evolves_upd) (simp_all add: move_fields p1 gen)
    moreover have "same_pods c ?c" by (simp add: same_pods_def move_fields p1)
    moreover have "node_at (imap ?c) = node_at (imap c)" using nd imn by (auto simp: im node_at_def fun_eq_iff)
    ultimately show ?thesis using run by blast
  qed
qed

section \<open>Pod states and the pods on the nodes\<close>

lemma same_spec_sym: "same_spec p q \<Longrightarrow> same_spec q p"
  by (simp add: same_spec_def)

lemma same_spec_trans: "same_spec p q \<Longrightarrow> same_spec q r \<Longrightarrow> same_spec p r"
  by (simp add: same_spec_def)

lemma pods_ok_stateD:
  assumes "pods_ok S ps" "ps key = Some st"
  shows "key \<noteq> []" "p_UID (ps_pod st) = key"
    "\<exists>x. (p_NodeName (ps_pod st), x) \<in> S \<and> p_UID (pi_Pod x) = key \<and> same_spec (pi_Pod x) (ps_pod st)"
  using assms by (auto simp: pods_ok_def)

lemma pods_ok_podD: "pods_ok S ps \<Longrightarrow> (name, x) \<in> S \<Longrightarrow> \<exists>st. ps (p_UID (pi_Pod x)) = Some st \<and> p_NodeName (ps_pod st) = name"
  unfolding pods_ok_def by blast

lemma pods_ok_uniq:
  "pods_ok S ps \<Longrightarrow> (name, x) \<in> S \<Longrightarrow> (name, x') \<in> S \<Longrightarrow> p_UID (pi_Pod x) = p_UID (pi_Pod x') \<Longrightarrow> x = x'"
  unfolding pods_ok_def by blast

lemma pods_ok_fresh: "pods_ok S ps \<Longrightarrow> ps key = None \<Longrightarrow> (name, x) \<in> S \<Longrightarrow> p_UID (pi_Pod x) \<noteq> key"
  using pods_ok_podD by fastforce

lemma pods_ok_add:
  assumes ok: "pods_ok S ps" and key: "ps (p_UID pod) = None" "p_UID pod \<noteq> []" and st: "ps_pod st = pod"
  shows "pods_ok (insert (p_NodeName pod, NewPodInfo pod) S) (ps(p_UID pod \<mapsto> st))"
proof -
  have fresh: "p_UID (pi_Pod x) \<noteq> p_UID pod" if "(name, x) \<in> S" for name x using pods_ok_fresh [OF ok key(1) that] .
  have np: "pi_Pod (NewPodInfo pod) = pod" by (simp add: NewPodInfo_def)
  show ?thesis
    unfolding pods_ok_def
  proof (intro conjI allI impI)
    fix k s assume "(ps(p_UID pod \<mapsto> st)) k = Some s"
    then show "k \<noteq> []" "p_UID (ps_pod s) = k" 
      "\<exists>x. (p_NodeName (ps_pod s), x) \<in> insert (p_NodeName pod, NewPodInfo pod) S \<and> p_UID (pi_Pod x) = k \<and> same_spec (pi_Pod x) (ps_pod s)"
      using pods_ok_stateD [OF ok, of k s] key(2) st np by (auto split: if_splits)
  next
    fix name x assume "(name, x) \<in> insert (p_NodeName pod, NewPodInfo pod) S"
    then show "\<exists>s. (ps(p_UID pod \<mapsto> st)) (p_UID (pi_Pod x)) = Some s \<and> p_NodeName (ps_pod s) = name"
      using pods_ok_podD [OF ok, of name x] fresh [of name x] st np by (auto split: if_splits)
  next
    fix name x x' assume "(name, x) \<in> insert (p_NodeName pod, NewPodInfo pod) S" "(name, x') \<in> insert (p_NodeName pod, NewPodInfo pod) S"
      "p_UID (pi_Pod x) = p_UID (pi_Pod x')"
    then show "x = x'" using pods_ok_uniq [OF ok] fresh np by (metis insert_iff prod.inject)
  qed
qed

lemma pods_ok_remove:
  assumes ok: "pods_ok S ps" and st: "ps key = Some st" and x: "(p_NodeName (ps_pod st), x) \<in> S" "p_UID (pi_Pod x) = key"
  shows "pods_ok (S - {(p_NodeName (ps_pod st), x)}) (ps(key := None))"
proof -
  have uniq: "name = p_NodeName (ps_pod st) \<and> y = x" if "(name, y) \<in> S" "p_UID (pi_Pod y) = key" for name y
    using pods_ok_podD [OF ok that(1)] that st pods_ok_uniq [OF ok _ x(1), of y] x(2) by auto
  show ?thesis
    unfolding pods_ok_def
  proof (intro conjI allI impI)
    fix k s assume k: "(ps(key := None)) k = Some s"
    then have "k \<noteq> key" "ps k = Some s" by (auto split: if_splits)
    then show "k \<noteq> []" "p_UID (ps_pod s) = k"
      "\<exists>y. (p_NodeName (ps_pod s), y) \<in> S - {(p_NodeName (ps_pod st), x)} \<and> p_UID (pi_Pod y) = k \<and> same_spec (pi_Pod y) (ps_pod s)"
      using pods_ok_stateD [OF ok] x(2) by blast+
  next
    fix name y assume "(name, y) \<in> S - {(p_NodeName (ps_pod st), x)}"
    then show "\<exists>s. (ps(key := None)) (p_UID (pi_Pod y)) = Some s \<and> p_NodeName (ps_pod s) = name"
      using pods_ok_podD [OF ok, of name y] uniq [of name y] by auto
  next
    fix name y y' assume "(name, y) \<in> S - {(p_NodeName (ps_pod st), x)}" "(name, y') \<in> S - {(p_NodeName (ps_pod st), x)}"
      "p_UID (pi_Pod y) = p_UID (pi_Pod y')"
    then show "y = y'" using pods_ok_uniq [OF ok] by blast
  qed
qed

lemma pods_ok_replace:
  assumes ok: "pods_ok S ps" and st: "ps key = Some st" and s': "p_UID (ps_pod st') = key" "p_NodeName (ps_pod st') = p_NodeName (ps_pod st)"
    "same_spec (ps_pod st) (ps_pod st')"
  shows "pods_ok S (ps(key \<mapsto> st'))"
  unfolding pods_ok_def
proof (intro conjI allI impI)
  fix k s assume k: "(ps(key \<mapsto> st')) k = Some s"
  show "k \<noteq> []" "p_UID (ps_pod s) = k"
    using k pods_ok_stateD [OF ok] st s'(1) by (auto split: if_splits)
  show "\<exists>x. (p_NodeName (ps_pod s), x) \<in> S \<and> p_UID (pi_Pod x) = k \<and> same_spec (pi_Pod x) (ps_pod s)"
    using k pods_ok_stateD(3) [OF ok, of k] pods_ok_stateD(3) [OF ok st] s' same_spec_trans by (auto split: if_splits)
next
  fix name x assume "(name, x) \<in> S"
  then show "\<exists>s. (ps(key \<mapsto> st')) (p_UID (pi_Pod x)) = Some s \<and> p_NodeName (ps_pod s) = name"
    using pods_ok_podD [OF ok, of name x] st s'(2) by auto
next
  fix name x x' assume "(name, x) \<in> S" "(name, x') \<in> S" "p_UID (pi_Pod x) = p_UID (pi_Pod x')"
  then show "x = x'" using pods_ok_uniq [OF ok] by blast
qed

lemma assumed_ok_upd_other: "assumed_ok A ps \<Longrightarrow> key \<notin> A \<Longrightarrow> assumed_ok A (ps(key := v))"
  unfolding assumed_ok_def by (metis fun_upd_other)

lemma assumed_ok_remove: "assumed_ok A ps \<Longrightarrow> assumed_ok (A - {key}) (ps(key := v))"
  unfolding assumed_ok_def by auto

lemma sc_inv_iff:
  "sc_inv g c \<longleftrightarrow> work_inv g c \<and> pods_ok (podset (imap c)) (sc_podStates c) \<and> assumed_ok (sc_assumedPods c) (sc_podStates c)"
  by (auto simp: sc_inv_def work_inv_def)

lemma pod_fields_only:
  "imap (c\<lparr>sc_podStates := ps\<rparr>) = imap c" "imap (c\<lparr>sc_assumedPods := A\<rparr>) = imap c"
  "work_inv g (c\<lparr>sc_podStates := ps\<rparr>) = work_inv g c" "work_inv g (c\<lparr>sc_assumedPods := A\<rparr>) = work_inv g c"
  "evolves c' (c\<lparr>sc_podStates := ps\<rparr>) = evolves c' c" "evolves c' (c\<lparr>sc_assumedPods := A\<rparr>) = evolves c' c"
proof -
  show im: "imap (c\<lparr>sc_podStates := ps\<rparr>) = imap c" "imap (c\<lparr>sc_assumedPods := A\<rparr>) = imap c"
    by (simp_all add: imap_def fun_eq_iff)
  have l: "lst (c\<lparr>sc_podStates := ps\<rparr>) = lst c" "lst (c\<lparr>sc_assumedPods := A\<rparr>) = lst c"
    by (simp_all add: fun_eq_iff lst_def)
  show "work_inv g (c\<lparr>sc_podStates := ps\<rparr>) = work_inv g c" "work_inv g (c\<lparr>sc_assumedPods := A\<rparr>) = work_inv g c"
    by (simp_all add: work_inv_def list_inv_def im l)
  show "evolves c' (c\<lparr>sc_podStates := ps\<rparr>) = evolves c' c" "evolves c' (c\<lparr>sc_assumedPods := A\<rparr>) = evolves c' c"
    by (simp_all add: evolves_def im)
qed

section \<open>The handlers of pods\<close>

lemma GetPodKey_cases: "GetPodKey pod = Inl e \<Longrightarrow> p_UID pod = []" "GetPodKey pod = Inr k \<Longrightarrow> k = p_UID pod \<and> k \<noteq> []"
  by (auto simp: GetPodKey_def split: if_splits)

text \<open>Adding a pod that has no state yet, under a given new state.\<close>

lemma add_new_pod:
  assumes W: "work_inv g c" and P: "pods_ok (podset (imap c)) ps" and key: "ps (p_UID pod) = None" "p_UID pod \<noteq> []"
    and st: "ps_pod st = pod"
  shows "work_inv g (sc_addPod g c pod)" "evolves c (sc_addPod g c pod)"
    "pods_ok (podset (imap (sc_addPod g c pod))) (ps(p_UID pod \<mapsto> st))" "same_pods c (sc_addPod g c pod)"
    "node_at (imap (sc_addPod g c pod)) = node_at (imap c)"
proof -
  have fresh: "p_UID (pi_Pod x) \<noteq> p_UID pod" if "(p_NodeName pod, x) \<in> podset (imap c)" for x
    using pods_ok_fresh [OF P key(1) that] .
  note a = addPod_ok [OF W key(2) fresh]
  show "work_inv g (sc_addPod g c pod)" "evolves c (sc_addPod g c pod)" "same_pods c (sc_addPod g c pod)"
    "node_at (imap (sc_addPod g c pod)) = node_at (imap c)" using a by blast+
  show "pods_ok (podset (imap (sc_addPod g c pod))) (ps(p_UID pod \<mapsto> st))"
    using a(2) pods_ok_add [OF P key st] by simp
qed

text \<open>Removing the pod of a state, given with the state's spec and node, and the state with it.\<close>

lemma remove_state_pod:
  assumes inv: "sc_inv g c" and st: "sc_podStates c key = Some st"
    and pod: "p_UID pod = key" "p_NodeName pod = p_NodeName (ps_pod st)" "same_spec (ps_pod st) pod"
  shows "\<exists>c'. sc_removePod g c pod = Some (c', None) \<and> work_inv g c' \<and> evolves c c' \<and> same_pods c c' \<and>
    pods_ok (podset (imap c')) ((sc_podStates c)(key := None)) \<and> node_at (imap c') = node_at (imap c)"
proof -
  have W: "work_inv g c" and P: "pods_ok (podset (imap c)) (sc_podStates c)" using inv by (simp_all add: sc_inv_iff)
  obtain x where x: "(p_NodeName (ps_pod st), x) \<in> podset (imap c)" "p_UID (pi_Pod x) = key" "same_spec (pi_Pod x) (ps_pod st)"
    using pods_ok_stateD(3) [OF P st] by blast
  have "(p_NodeName pod, x) \<in> podset (imap c)" "p_UID (pi_Pod x) = p_UID pod" "same_spec (pi_Pod x) pod"
    using x pod same_spec_trans by auto
  from removePod_ok [OF W this] obtain c' where c': "sc_removePod g c pod = Some (c', None)" "work_inv g c'"
    "podset (imap c') = podset (imap c) - {(p_NodeName pod, x)}" "evolves c c'" "same_pods c c'" "node_at (imap c') = node_at (imap c)" by blast
  have "pods_ok (podset (imap c')) ((sc_podStates c)(key := None))"
    unfolding c'(3) pod(2) using P st x(1,2) by (rule pods_ok_remove)
  then show ?thesis using c' by blast
qed

lemma AssumePod_ok:
  assumes inv: "sc_inv g c"
  shows "\<exists>c' err. sc_AssumePod g c pod = Some (c', err) \<and> sc_inv g c' \<and> evolves c c'"
proof (cases "p_UID pod \<noteq> [] \<and> sc_podStates c (p_UID pod) = None")
  case True
  let ?st = "\<lparr>ps_pod = pod, ps_deadline = None, ps_bindingFinished = False\<rparr>"
  have "work_inv g c" "pods_ok (podset (imap c)) (sc_podStates c)" using inv by (simp_all add: sc_inv_iff)
  note a = add_new_pod [OF this, of pod ?st]
  have "assumed_ok (insert (p_UID pod) (sc_assumedPods c)) ((sc_podStates c)(p_UID pod \<mapsto> ?st))"
    using inv by (auto simp: sc_inv_def assumed_ok_def)
  then show ?thesis using True a
    by (simp add: sc_AssumePod_def GetPodKey_def Let_def sc_inv_iff pod_fields_only same_pods_def)
next
  case False
  then show ?thesis using inv evolves_refl by (auto simp: sc_AssumePod_def GetPodKey_def)
qed

lemma finishBinding_ok:
  assumes inv: "sc_inv g c"
  shows "sc_inv g (fst (sc_finishBinding c pod now)) \<and> evolves c (fst (sc_finishBinding c pod now))"
proof (cases "\<exists>st. p_UID pod \<noteq> [] \<and> sc_podStates c (p_UID pod) = Some st \<and> p_UID pod \<in> sc_assumedPods c")
  case True
  then obtain st where st: "p_UID pod \<noteq> []" "sc_podStates c (p_UID pod) = Some st" "p_UID pod \<in> sc_assumedPods c" by blast
  let ?st = "st\<lparr>ps_bindingFinished := True, ps_deadline := Some (now + sc_ttl c)\<rparr>"
  have "pods_ok (podset (imap c)) ((sc_podStates c)(p_UID pod \<mapsto> ?st))"
  proof -
    have P: "pods_ok (podset (imap c)) (sc_podStates c)" using inv by (simp add: sc_inv_def)
    show ?thesis by (rule pods_ok_replace [OF P st(2)]) (simp_all add: pods_ok_stateD(2) [OF P st(2)])
  qed
  moreover have "assumed_ok (sc_assumedPods c) ((sc_podStates c)(p_UID pod \<mapsto> ?st))"
    using inv by (auto simp: sc_inv_def assumed_ok_def)
  ultimately show ?thesis using inv st evolves_refl [of c c]
    by (simp add: sc_finishBinding_def GetPodKey_def sc_inv_iff pod_fields_only)
next
  case False
  then show ?thesis using inv evolves_refl [of c c]
    by (auto simp: sc_finishBinding_def GetPodKey_def split: option.split)
qed

lemma expirePod_ok:
  assumes inv: "sc_inv g c" and st: "sc_podStates c key = Some st"
  shows "\<exists>c'. expirePod g c key st = Some (c', None) \<and> sc_inv g c' \<and> evolves c c' \<and>
    sc_podStates c' = (sc_podStates c)(key := None) \<and> sc_assumedPods c' = sc_assumedPods c - {key}"
proof -
  have uid: "p_UID (ps_pod st) = key" using inv st pods_ok_stateD(2) by (auto simp: sc_inv_def)
  obtain c1 where c1: "sc_removePod g c (ps_pod st) = Some (c1, None)" "work_inv g c1" "evolves c c1" "same_pods c c1"
    "pods_ok (podset (imap c1)) ((sc_podStates c)(key := None))"
    using remove_state_pod [OF inv st uid] by auto
  have "assumed_ok (sc_assumedPods c - {key}) ((sc_podStates c)(key := None))"
    using inv by (simp add: sc_inv_def assumed_ok_remove)
  then show ?thesis using c1 by (simp add: expirePod_def sc_inv_iff pod_fields_only same_pods_def)
qed

text \<open>What a caller of the pod handlers keeps to: a pod object given for a known UID has the spec
  of the known pod, and events of a bound pod name its node.\<close>

definition known_spec :: "schedulerCache \<Rightarrow> pod \<Rightarrow> bool" where
  "known_spec c pod \<longleftrightarrow> (\<forall>st. sc_podStates c (p_UID pod) = Some st \<longrightarrow> same_spec (ps_pod st) pod)"

definition known_node :: "schedulerCache \<Rightarrow> pod \<Rightarrow> bool" where
  "known_node c pod \<longleftrightarrow>
     (\<forall>st. sc_podStates c (p_UID pod) = Some st \<longrightarrow> p_UID pod \<notin> sc_assumedPods c \<longrightarrow> p_NodeName (ps_pod st) = p_NodeName pod)"

lemma ForgetPod_ok:
  assumes inv: "sc_inv g c" and k: "known_spec c pod"
  shows "\<exists>c' err. sc_ForgetPod g c pod = Some (c', err) \<and> sc_inv g c' \<and> evolves c c'"
proof (cases "\<exists>st. p_UID pod \<noteq> [] \<and> sc_podStates c (p_UID pod) = Some st \<and> p_NodeName (ps_pod st) = p_NodeName pod \<and> p_UID pod \<in> sc_assumedPods c")
  case True
  then obtain st where st: "p_UID pod \<noteq> []" "sc_podStates c (p_UID pod) = Some st" "p_NodeName (ps_pod st) = p_NodeName pod"
    "p_UID pod \<in> sc_assumedPods c" by blast
  have "same_spec (ps_pod st) pod" using k st(2) by (simp add: known_spec_def)
  then obtain c1 where c1: "sc_removePod g c pod = Some (c1, None)" "work_inv g c1" "evolves c c1" "same_pods c c1"
    "pods_ok (podset (imap c1)) ((sc_podStates c)(p_UID pod := None))"
    using remove_state_pod [OF inv st(2) refl] st(3) by auto
  have "assumed_ok (sc_assumedPods c - {p_UID pod}) ((sc_podStates c)(p_UID pod := None))"
    using inv by (simp add: sc_inv_def assumed_ok_remove)
  then show ?thesis using c1 st by (simp add: sc_ForgetPod_def GetPodKey_def sc_inv_iff pod_fields_only same_pods_def)
next
  case False
  then show ?thesis using inv evolves_refl by (auto simp: sc_ForgetPod_def GetPodKey_def split: option.split)
qed

lemma RemovePod_handler_ok:
  assumes inv: "sc_inv g c" and k: "known_node c pod"
  shows "\<exists>c' err. sc_RemovePod g c pod = Some (c', err) \<and> sc_inv g c' \<and> evolves c c'"
proof (cases "\<exists>st. p_UID pod \<noteq> [] \<and> sc_podStates c (p_UID pod) = Some st \<and> p_UID pod \<notin> sc_assumedPods c")
  case True
  then obtain st where st: "p_UID pod \<noteq> []" "sc_podStates c (p_UID pod) = Some st" "p_UID pod \<notin> sc_assumedPods c" by blast
  have nm: "p_NodeName (ps_pod st) = p_NodeName pod" using k st by (simp add: known_node_def)
  have uid: "p_UID (ps_pod st) = p_UID pod" using inv st pods_ok_stateD(2) by (auto simp: sc_inv_def)
  obtain c1 where c1: "sc_removePod g c (ps_pod st) = Some (c1, None)" "work_inv g c1" "evolves c c1" "same_pods c c1"
    "pods_ok (podset (imap c1)) ((sc_podStates c)(p_UID pod := None))"
    using remove_state_pod [OF inv st(2) uid] by auto
  have "assumed_ok (sc_assumedPods c) ((sc_podStates c)(p_UID pod := None))"
    using inv st(3) by (simp add: sc_inv_def assumed_ok_upd_other)
  then show ?thesis using c1 st nm by (simp add: sc_RemovePod_def GetPodKey_def sc_inv_iff pod_fields_only same_pods_def)
next
  case False
  then show ?thesis using inv evolves_refl by (auto simp: sc_RemovePod_def GetPodKey_def split: option.split)
qed

lemma AddPod_handler_ok:
  assumes inv: "sc_inv g c" and k: "known_spec c pod"
  shows "\<exists>c' err. sc_AddPod g c pod = Some (c', err) \<and> sc_inv g c' \<and> evolves c c'"
proof (cases "p_UID pod = []")
  case True
  then show ?thesis using inv evolves_refl by (auto simp: sc_AddPod_def GetPodKey_def)
next
  case uid: False
  have W: "work_inv g c" and P: "pods_ok (podset (imap c)) (sc_podStates c)" and A: "assumed_ok (sc_assumedPods c) (sc_podStates c)"
    using inv by (simp_all add: sc_inv_iff)
  show ?thesis
  proof (cases "sc_podStates c (p_UID pod)")
    case None
    let ?st = "\<lparr>ps_pod = pod, ps_deadline = None, ps_bindingFinished = False\<rparr>"
    note a = add_new_pod [OF W P None uid, of ?st]
    have "p_UID pod \<notin> sc_assumedPods c" using A None by (auto simp: assumed_ok_def)
    then show ?thesis using uid None a assumed_ok_upd_other [OF A]
      by (simp add: sc_AddPod_def GetPodKey_def Let_def sc_inv_iff pod_fields_only same_pods_def)
  next
    case (Some st)
    show ?thesis
    proof (cases "p_UID pod \<in> sc_assumedPods c")
      case False
      then show ?thesis using inv evolves_refl uid Some by (simp add: sc_AddPod_def GetPodKey_def)
    next
      case ass: True
      let ?st = "st\<lparr>ps_deadline := None, ps_pod := pod\<rparr>"
      have A': "assumed_ok (sc_assumedPods c - {p_UID pod}) ((sc_podStates c)(p_UID pod \<mapsto> ?st))"
        using A by (rule assumed_ok_remove)
      show ?thesis
      proof (cases "p_NodeName (ps_pod st) = p_NodeName pod")
        case True
        have "pods_ok (podset (imap c)) ((sc_podStates c)(p_UID pod \<mapsto> ?st))"
          by (rule pods_ok_replace [OF P Some]) (use True k Some in \<open>auto simp: known_spec_def\<close>)
        then show ?thesis using True ass uid Some W A' evolves_refl [of c c]
          by (simp add: sc_AddPod_def GetPodKey_def sc_inv_iff pod_fields_only)
      next
        case False
        obtain c1 where c1: "sc_removePod g c (ps_pod st) = Some (c1, None)" "work_inv g c1" "evolves c c1" "same_pods c c1"
          "pods_ok (podset (imap c1)) ((sc_podStates c)(p_UID pod := None))"
          using remove_state_pod [OF inv Some pods_ok_stateD(2) [OF P Some]] by auto
        note a = add_new_pod [OF c1(2,5) _ uid, of ?st]
        have "pods_ok (podset (imap (sc_addPod g c1 pod))) ((sc_podStates c)(p_UID pod \<mapsto> ?st))" using a(3) by simp
        then show ?thesis using False ass uid Some c1 a(1,2,4) A' evolves_trans [OF c1(3)]
          by (simp add: sc_AddPod_def GetPodKey_def sc_inv_iff pod_fields_only same_pods_def)
      qed
    qed
  qed
qed

definition known_update :: "schedulerCache \<Rightarrow> pod \<Rightarrow> pod \<Rightarrow> bool" where
  "known_update c oldPod newPod \<longleftrightarrow> p_UID newPod = p_UID oldPod \<and> known_spec c oldPod \<and> known_node c oldPod \<and> known_node c newPod"

lemma UpdatePod_ok:
  assumes inv: "sc_inv g c" and k: "known_update c oldPod newPod"
  shows "\<exists>c' err. sc_UpdatePod g c oldPod newPod = Some (c', err) \<and> sc_inv g c' \<and> evolves c c'"
proof (cases "\<exists>st. p_UID oldPod \<noteq> [] \<and> sc_podStates c (p_UID oldPod) = Some st \<and> p_UID oldPod \<notin> sc_assumedPods c")
  case True
  then obtain st where st: "p_UID oldPod \<noteq> []" "sc_podStates c (p_UID oldPod) = Some st" "p_UID oldPod \<notin> sc_assumedPods c" by blast
  have kn: "p_UID newPod = p_UID oldPod" "same_spec (ps_pod st) oldPod" "p_NodeName (ps_pod st) = p_NodeName oldPod"
    "p_NodeName (ps_pod st) = p_NodeName newPod"
    using k st by (auto simp: known_update_def known_spec_def known_node_def)
  obtain c1 where c1: "sc_removePod g c oldPod = Some (c1, None)" "work_inv g c1" "evolves c c1" "same_pods c c1"
    "pods_ok (podset (imap c1)) ((sc_podStates c)(p_UID newPod := None))"
    using remove_state_pod [OF inv st(2) refl] kn by auto
  let ?st = "st\<lparr>ps_pod := newPod\<rparr>"
  note a = add_new_pod [OF c1(2,5), of newPod ?st]
  have "pods_ok (podset (imap (sc_addPod g c1 newPod))) ((sc_podStates c)(p_UID oldPod \<mapsto> ?st))"
    using a(3) st(1) kn(1) by simp
  moreover have "assumed_ok (sc_assumedPods c) ((sc_podStates c)(p_UID oldPod \<mapsto> ?st))"
    using inv st(3) by (simp add: sc_inv_def assumed_ok_upd_other)
  ultimately show ?thesis using st c1 kn a(1,2,4) evolves_trans [OF c1(3)]
    by (simp add: sc_UpdatePod_def sc_updatePod_def GetPodKey_def sc_inv_iff pod_fields_only same_pods_def)
next
  case False
  then show ?thesis using inv evolves_refl by (auto simp: sc_UpdatePod_def GetPodKey_def split: option.split)
qed

lemma cleanupAssumedPods_ok:
  "sc_inv g c \<Longrightarrow> distinct keys \<Longrightarrow> set keys \<subseteq> sc_assumedPods c \<Longrightarrow>
    \<exists>c'. cleanupAssumedPods g keys now c = Some c' \<and> sc_inv g c' \<and> evolves c c'"
proof (induction keys arbitrary: c)
  case Nil
  then show ?case using evolves_refl by simp
next
  case (Cons key keys)
  obtain st where st: "sc_podStates c key = Some st" "ps_bindingFinished st \<longrightarrow> ps_deadline st \<noteq> None"
    using Cons.prems by (auto simp: sc_inv_def assumed_ok_def)
  have skip: "\<exists>c'. cleanupAssumedPods g keys now c = Some c' \<and> sc_inv g c' \<and> evolves c c'"
    using Cons.IH [OF Cons.prems(1)] Cons.prems(2,3) by auto
  show ?case
  proof (cases "ps_bindingFinished st")
    case False
    then show ?thesis using skip st by simp
  next
    case True
    then obtain d where d: "ps_deadline st = Some d" using st(2) by blast
    show ?thesis
    proof (cases "d < now")
      case False
      then show ?thesis using skip st True d by simp
    next
      case late: True
      obtain c1 where c1: "expirePod g c key st = Some (c1, None)" "sc_inv g c1" "evolves c c1"
        "sc_assumedPods c1 = sc_assumedPods c - {key}"
        using expirePod_ok [OF Cons.prems(1) st(1)] by blast
      have "distinct keys" "set keys \<subseteq> sc_assumedPods c1" using Cons.prems(2,3) c1(4) by auto
      from Cons.IH [OF c1(2) this] evolves_trans [OF c1(3)] show ?thesis
        using st True d late c1(1) by auto
    qed
  qed
qed

section \<open>The handlers of nodes\<close>

lemma node_fields_only:
  "imap (c\<lparr>sc_nodeTree := nt\<rparr>) = imap c" "imap (c\<lparr>sc_imageStates := im\<rparr>) = imap c"
  "lst (c\<lparr>sc_nodeTree := nt\<rparr>) = lst c" "lst (c\<lparr>sc_imageStates := im\<rparr>) = lst c"
  "pre_lst (c\<lparr>sc_nodeTree := nt\<rparr>) = pre_lst c" "pre_lst (c\<lparr>sc_imageStates := im\<rparr>) = pre_lst c"
  by (simp_all add: imap_def lst_def pre_lst_def fun_eq_iff)

lemma ni_inv_cong:
  assumes "ni_Pods i' = ni_Pods i" "ni_PodsWithAffinity i' = ni_PodsWithAffinity i"
    "ni_PodsWithRequiredAntiAffinity i' = ni_PodsWithRequiredAntiAffinity i" "ni_UsedPorts i' = ni_UsedPorts i"
    "ni_Requested i' = ni_Requested i" "ni_NonZeroRequested i' = ni_NonZeroRequested i"
  shows "ni_inv g nc i' = ni_inv g nc i"
  using assms by (simp add: ni_inv_def totals_ok_def sublists_ok_def)

text \<open>The item of a node stands in front and gets its node object; the list is ordered again.\<close>

lemma node_touch:
  assumes L: "lst c xs" "newest_first (imap c) xs" "gens_ok (imap c) (sc_gen c)"
    and c1: "pre_lst c1 name xs" "imap c1 = (imap c)(name \<mapsto> info)" "sc_gen c \<le> sc_gen c1" "ni_inv g False info"
    and name: "n_Name node = name"
  shows "\<exists>i. imap (set_node_info g ((moveNodeInfoToHead c1 name)\<lparr>sc_nodeTree := nt\<rparr>) node) = (imap c)(name \<mapsto> i) \<and>
    list_inv (set_node_info g ((moveNodeInfoToHead c1 name)\<lparr>sc_nodeTree := nt\<rparr>) node) \<and> info_ok g name i \<and>
    ni_node i = Some node \<and> ni_Pods i = ni_Pods info \<and>
    evolves c (set_node_info g ((moveNodeInfoToHead c1 name)\<lparr>sc_nodeTree := nt\<rparr>) node) \<and>
    same_pods c1 (set_node_info g ((moveNodeInfoToHead c1 name)\<lparr>sc_nodeTree := nt\<rparr>) node) \<and>
    sc_nodeTree (set_node_info g ((moveNodeInfoToHead c1 name)\<lparr>sc_nodeTree := nt\<rparr>) node) = nt"
proof -
  note mv = move_lst [OF c1(1)]
  obtain st sm where img: "addNodeImageStates (sc_imageStates (moveNodeInfoToHead c1 name)) node = (st, sm)" by fastforce
  define c3 where "c3 = (moveNodeInfoToHead c1 name)\<lparr>sc_nodeTree := nt, sc_imageStates := st\<rparr>"
  have n3: "sc_nodes c3 name \<noteq> None" using mv(3) by (simp add: c3_def)
  have im3: "imap c3 = (imap c)(name \<mapsto> info)" by (simp add: c3_def node_fields_only mv(2) c1(2))
  obtain n where n: "sc_nodes c3 name = Some n" using n3 by blast
  have "imap c3 name = Some (li_info n)" using n by (simp add: imap_def)
  then have ln: "li_info n = info" using im3 by simp
  obtain i gen' where sn: "SetNode g (info\<lparr>ni_ImageStates := sm\<rparr>, sc_gen c3) node = (i, gen')" by fastforce
  have i: "ni_node i = Some node" "ni_Pods i = ni_Pods info" "ni_Generation i = sc_gen c1 + 1" "gen' = sc_gen c1 + 1"
    using sn by (auto simp: SetNode_def nextGeneration_def c3_def move_fields)
  have iinv: "ni_inv g False i = ni_inv g False info"
    by (rule ni_inv_cong) (use sn in \<open>auto simp: SetNode_def\<close>)
  have res: "set_node_info g ((moveNodeInfoToHead c1 name)\<lparr>sc_nodeTree := nt\<rparr>) node = put_info c3 name (i, gen')" (is "?c = _")
    using n sn ln by (simp add: set_node_info_def Let_def name img c3_def)
  note pf = put_info_fields [OF n3, of "(i, gen')", folded res, simplified]
  have im: "imap ?c = (imap c)(name \<mapsto> i)" using pf(1) im3 by simp
  have l: "lst ?c (name # remove1 name xs)" using pf(4) mv(1) by (simp add: c3_def node_fields_only)
  have gen: "sc_gen c < ni_Generation i" "ni_Generation i \<le> sc_gen ?c" using i c1(3) pf(2) by simp_all
  have "list_inv ?c" by (rule list_inv_touch [OF l _ im L(2,3) gen]) (simp add: L(1))
  moreover have "info_ok g name i" using i(1) iinv c1(4) name by (simp add: info_ok_def)
  moreover have "evolves c ?c" using im gen(1) by (rule evolves_upd) (use gen in simp)
  moreover have "same_pods c1 ?c" "sc_nodeTree ?c = nt" using pf by (simp_all add: same_pods_def c3_def move_fields)
  ultimately show ?thesis using im i by blast
qed

lemma pairs_of_zone: "(z, name) \<in> live_pairs im \<longleftrightarrow> (\<exists>nd. node_at im name = Some nd \<and> z = GetZoneKey nd)"
  by (simp add: live_pairs_def)

lemma live_pairs_set_node:
  "ni_node i = Some node \<Longrightarrow>
   live_pairs (im(name \<mapsto> i)) = insert (GetZoneKey node, name) {p \<in> live_pairs im. snd p \<noteq> name}"
  by (auto simp: live_pairs_def node_at_def split: if_splits)

lemma live_pairs_drop_node:
  "ni_node i = None \<Longrightarrow> live_pairs (im(name \<mapsto> i)) = {p \<in> live_pairs im. snd p \<noteq> name}"
  "live_pairs (im(name := None)) = {p \<in> live_pairs im. snd p \<noteq> name}"
  by (auto simp: live_pairs_def node_at_def split: if_splits)

lemma podset_same: "ni_Pods i = pods_at im name \<Longrightarrow> podset (im(name \<mapsto> i)) = podset im"
  by (auto simp: podset_def pods_at_def split: if_splits)

lemma AddNode_ok:
  assumes inv: "sc_inv g c" and dead: "node_at (imap c) (n_Name node) = None"
  shows "sc_inv g (sc_AddNode g c node) \<and> evolves c (sc_AddNode g c node) \<and> same_pods c (sc_AddNode g c node) \<and>
    node_at (imap (sc_AddNode g c node)) = (node_at (imap c))(n_Name node \<mapsto> node)"
proof -
  let ?nm = "n_Name node"
  have L: "list_inv c" and I: "im_ok g (imap c)" and T: "tree_ok (sc_nodeTree c) (imap c)" using inv by (simp_all add: sc_inv_def)
  have G: "gens_ok (imap c) (sc_gen c)" using L by (simp add: list_inv_def)
  obtain xs info c0 where e: "ensure_node g c ?nm = (info, c0)" "pre_lst c0 ?nm xs" "lst c xs" "newest_first (imap c) xs"
    "imap c0 = (imap c)(?nm \<mapsto> info)" "sc_gen c \<le> sc_gen c0" "same_pods c c0" "sc_nodeTree c0 = sc_nodeTree c"
    "ni_Pods info = pods_at (imap c) ?nm"
    and alt: "imap c ?nm = Some info \<and> c0 = c \<or> imap c ?nm = None \<and> info = fst (NewNodeInfo g (sc_gen c) []) \<and> sc_gen c < ni_Generation info \<and> ni_Generation info \<le> sc_gen c0"
    using ensured [OF L, of g ?nm] by blast
  define c1 where "c1 = (case sc_nodes c ?nm of None \<Rightarrow> c0 | Some n \<Rightarrow> c\<lparr>sc_imageStates := removeNodeImageStates (sc_imageStates c) (ni_node (li_info n))\<rparr>)"
  have c1: "pre_lst c1 ?nm xs" "imap c1 = (imap c)(?nm \<mapsto> info)" "sc_gen c \<le> sc_gen c1" "same_pods c c1" "sc_nodeTree c1 = sc_nodeTree c"
    using e alt by (auto simp: c1_def node_fields_only same_pods_def imap_def split: option.split)
  have inf: "ni_inv g False info" using alt I ni_inv_new by (auto simp: im_ok_def info_ok_def)
  let ?nt = "addNode (sc_nodeTree c) node"
  have run: "sc_AddNode g c node = set_node_info g ((moveNodeInfoToHead c1 ?nm)\<lparr>sc_nodeTree := ?nt\<rparr>) node" (is "_ = ?c")
    by (simp add: sc_AddNode_def Let_def c1_def e(1) move_fields e(8) split: option.split)
  obtain i where i: "imap ?c = (imap c)(?nm \<mapsto> i)" "list_inv ?c" "info_ok g ?nm i" "ni_node i = Some node" "ni_Pods i = ni_Pods info"
    "evolves c ?c" "same_pods c1 ?c" "sc_nodeTree ?c = ?nt"
    using node_touch [OF e(3,4) G c1(1,2,3) inf refl, of ?nt] by blast
  have "{p \<in> live_pairs (imap c). snd p \<noteq> ?nm} = live_pairs (imap c)" using dead by (auto simp: live_pairs_def)
  then have "tree_ok ?nt (imap ?c)"
    using T addNode_ok [of "sc_nodeTree c" node] unfolding tree_ok_def i(1) live_pairs_set_node [OF i(4)] by simp
  then have "work_inv g ?c" using i im_ok_upd [OF I i(3)] by (simp add: work_inv_def)
  moreover have "podset (imap ?c) = podset (imap c)" unfolding i(1) using i(5) e(9) by (intro podset_same) simp
  moreover have "node_at (imap ?c) = (node_at (imap c))(?nm \<mapsto> node)" using i(4) by (auto simp: i(1) node_at_def fun_eq_iff)
  ultimately show ?thesis using inv i(6,7) c1(4) unfolding run by (simp add: sc_inv_iff same_pods_def)
qed

lemma UpdateNode_ok:
  assumes inv: "sc_inv g c" and live: "node_at (imap c) (n_Name newNode) = Some nd"
    "GetZoneKey nd = GetZoneKey oldNode" "n_Name oldNode = n_Name newNode"
  shows "\<exists>c'. sc_UpdateNode g c oldNode newNode = Some c' \<and> sc_inv g c' \<and> evolves c c' \<and> same_pods c c' \<and>
    node_at (imap c') = (node_at (imap c))(n_Name newNode \<mapsto> newNode)"
proof -
  let ?nm = "n_Name newNode"
  have L: "list_inv c" and I: "im_ok g (imap c)" and T: "tree_ok (sc_nodeTree c) (imap c)" using inv by (simp_all add: sc_inv_def)
  obtain xs where xs: "lst c xs" "newest_first (imap c) xs" and G: "gens_ok (imap c) (sc_gen c)" using L by (auto simp: list_inv_def)
  obtain n where n: "sc_nodes c ?nm = Some n" "ni_node (li_info n) = Some nd"
    using live(1) by (cases "sc_nodes c ?nm") (auto simp: node_at_def imap_def)
  have imn: "imap c ?nm = Some (li_info n)" using n by (simp add: imap_def)
  define c1 where "c1 = c\<lparr>sc_imageStates := removeNodeImageStates (sc_imageStates c) (Some nd)\<rparr>"
  have c1: "pre_lst c1 ?nm xs" "imap c1 = (imap c)(?nm \<mapsto> li_info n)" "sc_gen c \<le> sc_gen c1" "same_pods c c1" "sc_nodeTree c1 = sc_nodeTree c"
    using pre_lst_linked [OF xs(1), of ?nm] n imn by (simp_all add: c1_def node_fields_only same_pods_def fun_upd_idem)
  have inf: "ni_inv g False (li_info n)" using I imn by (auto simp: im_ok_def info_ok_def)
  let ?nt = "if GetZoneKey oldNode = GetZoneKey newNode then sc_nodeTree c else addNode (fst (removeNode (sc_nodeTree c) oldNode)) newNode"
  have run: "sc_UpdateNode g c oldNode newNode = Some (set_node_info g ((moveNodeInfoToHead c1 ?nm)\<lparr>sc_nodeTree := ?nt\<rparr>) newNode)" (is "_ = Some ?c")
    by (simp add: sc_UpdateNode_def Let_def c1_def n updateNode_def move_fields)
  obtain i where i: "imap ?c = (imap c)(?nm \<mapsto> i)" "list_inv ?c" "info_ok g ?nm i" "ni_node i = Some newNode" "ni_Pods i = ni_Pods (li_info n)"
    "evolves c ?c" "same_pods c1 ?c" "sc_nodeTree ?c = ?nt"
    using node_touch [OF xs G c1(1,2,3) inf refl, of ?nt] by blast
  have lp: "live_pairs (imap c) = insert (GetZoneKey oldNode, ?nm) {p \<in> live_pairs (imap c). snd p \<noteq> ?nm}"
    using live by (auto simp: live_pairs_def)
  have NT: "nt_inv (sc_nodeTree c)" "nt_pairs (sc_nodeTree c) = live_pairs (imap c)" using T by (simp_all add: tree_ok_def)
  have "tree_ok ?nt (imap ?c)"
  proof (cases "GetZoneKey oldNode = GetZoneKey newNode")
    case True
    then show ?thesis using NT lp unfolding tree_ok_def i(1) live_pairs_set_node [OF i(4)] by simp
  next
    case False
    have "nt_pairs (sc_nodeTree c) - {(GetZoneKey oldNode, ?nm)} = {p \<in> live_pairs (imap c). snd p \<noteq> ?nm}"
      using NT(2) lp by auto
    then show ?thesis
      using False removeNode_ok [OF NT(1), of oldNode] addNode_ok [of "fst (removeNode (sc_nodeTree c) oldNode)" newNode] live(3)
      unfolding tree_ok_def i(1) live_pairs_set_node [OF i(4)] by simp
  qed
  then have "work_inv g ?c" using i im_ok_upd [OF I i(3)] by (simp add: work_inv_def)
  moreover have "podset (imap ?c) = podset (imap c)" unfolding i(1) using i(5) imn by (intro podset_same) (simp add: pods_at_def)
  moreover have "node_at (imap ?c) = (node_at (imap c))(?nm \<mapsto> newNode)" using i(4) by (auto simp: i(1) node_at_def fun_eq_iff)
  ultimately show ?thesis using inv i(6,7) c1(4) run by (simp add: sc_inv_iff same_pods_def)
qed

lemma RemoveNode_ok:
  assumes inv: "sc_inv g c" and zone: "\<And>nd. node_at (imap c) (n_Name node) = Some nd \<Longrightarrow> GetZoneKey nd = GetZoneKey node"
  shows "sc_inv g (fst (sc_RemoveNode g c node)) \<and> evolves c (fst (sc_RemoveNode g c node)) \<and> same_pods c (fst (sc_RemoveNode g c node)) \<and>
    node_at (imap (fst (sc_RemoveNode g c node))) = (node_at (imap c))(n_Name node := None)"
proof (cases "sc_nodes c (n_Name node)")
  case None
  then have "node_at (imap c) (n_Name node) = None" by (simp add: node_at_def imap_def)
  then show ?thesis using None inv evolves_refl by (simp add: sc_RemoveNode_def same_pods_def fun_upd_idem)
next
  case (Some n)
  let ?nm = "n_Name node"
  have L: "list_inv c" and I: "im_ok g (imap c)" and T: "tree_ok (sc_nodeTree c) (imap c)" using inv by (simp_all add: sc_inv_def)
  obtain xs where xs: "lst c xs" "newest_first (imap c) xs" and G: "gens_ok (imap c) (sc_gen c)" using L by (auto simp: list_inv_def)
  have imn: "imap c ?nm = Some (li_info n)" using Some by (simp add: imap_def)
  let ?i = "(li_info n)\<lparr>ni_node := None, ni_Generation := sc_gen c + 1\<rparr>"
  have rn: "RemoveNode (li_info n, sc_gen c) = (?i, sc_gen c + 1)" by (simp add: RemoveNode_def nextGeneration_def)
  have nn: "sc_nodes c ?nm \<noteq> None" using Some by simp
  define c1 where "c1 = put_info c ?nm (?i, sc_gen c + 1)"
  note p1 = put_info_fields [OF nn, of "(?i, sc_gen c + 1)", folded c1_def, simplified]
  have l1: "lst c1 xs" using p1(4) xs(1) by simp
  have n1: "sc_nodes c1 ?nm \<noteq> None" using p1(10) nn by blast
  define c2 where "c2 = (if ni_Pods (li_info n) = [] then removeNodeInfoFromList c1 ?nm else moveNodeInfoToHead c1 ?nm)"
  have fr: "same_pods c c2" "sc_nodeTree c2 = sc_nodeTree c" "sc_gen c2 = sc_gen c + 1"
    by (simp_all add: c2_def same_pods_def move_fields p1)
  have c2: "list_inv c2 \<and> im_ok g (imap c2) \<and> live_pairs (imap c2) = {p \<in> live_pairs (imap c). snd p \<noteq> ?nm} \<and>
      podset (imap c2) = podset (imap c) \<and> evolves c c2 \<and> node_at (imap c2) = (node_at (imap c))(?nm := None)"
  proof (cases "ni_Pods (li_info n) = []")
    case True
    then have c2: "c2 = removeNodeInfoFromList c1 ?nm" by (simp add: c2_def)
    note rm = remove_lst [OF l1 n1]
    have im: "imap c2 = (imap c)(?nm := None)" using rm(2) p1(1) c2 by simp
    have "newest_first (imap c2) (remove1 ?nm xs)" unfolding im using xs by (intro newest_first_remove) (auto simp: lst_def dll_def)
    moreover have "gens_ok (imap c2) (sc_gen c2)" unfolding im using G by (rule gens_ok_remove) (simp add: fr)
    ultimately have "list_inv c2" using rm(1) c2 by (auto simp: list_inv_def)
    moreover have "podset (imap c2) = podset (imap c)" unfolding im podset_remove using True imn by (auto simp: podset_def pods_at_def)
    moreover have "evolves c c2" using im by (rule evolves_remove) (simp add: fr)
    moreover have "node_at (imap c2) = (node_at (imap c))(?nm := None)" by (auto simp: im node_at_def fun_eq_iff)
    ultimately show ?thesis using im_ok_remove [OF I] live_pairs_drop_node(2) by (simp add: im)
  next
    case False
    then have c2: "c2 = moveNodeInfoToHead c1 ?nm" by (simp add: c2_def)
    note mv = move_lst [OF pre_lst_linked [OF l1 n1]]
    have im: "imap c2 = (imap c)(?nm \<mapsto> ?i)" using mv(2) p1(1) c2 by simp
    have "list_inv c2"
      by (rule list_inv_touch [of _ ?nm xs c ?i]) (use im mv(1) xs G c2 in \<open>auto simp: move_fields p1\<close>)
    moreover have "ni_inv g False ?i = ni_inv g False (li_info n)" by (rule ni_inv_cong) simp_all
    then have "info_ok g ?nm ?i" using I imn False by (auto simp: im_ok_def info_ok_def)
    then have "im_ok g (imap c2)" using im_ok_upd [OF I] by (simp add: im)
    moreover have "podset (imap c2) = podset (imap c)" unfolding im using imn by (intro podset_same) (simp add: pods_at_def)
    moreover have "evolves c c2" using im by (rule evolves_upd) (simp_all add: fr)
    moreover have "node_at (imap c2) = (node_at (imap c))(?nm := None)" by (auto simp: im node_at_def fun_eq_iff)
    moreover have "live_pairs (imap c2) = {p \<in> live_pairs (imap c). snd p \<noteq> ?nm}" unfolding im by (rule live_pairs_drop_node) simp
    ultimately show ?thesis by blast
  qed
  obtain nt err where nt: "removeNode (sc_nodeTree c) node = (nt, err)" by fastforce
  have "nt_pairs (sc_nodeTree c) - {(GetZoneKey node, ?nm)} = {p \<in> live_pairs (imap c). snd p \<noteq> ?nm}"
    using T zone by (auto simp: tree_ok_def live_pairs_def)
  then have "tree_ok nt (imap c2)"
    using T c2 removeNode_ok [of "sc_nodeTree c" node] nt by (simp add: tree_ok_def)
  moreover obtain st where run: "fst (sc_RemoveNode g c node) = c2\<lparr>sc_nodeTree := nt, sc_imageStates := st\<rparr>"
  proof -
    have "fst (sc_RemoveNode g c node) = (case err of Some e \<Rightarrow> c2\<lparr>sc_nodeTree := nt\<rparr> |
        None \<Rightarrow> c2\<lparr>sc_nodeTree := nt, sc_imageStates := removeNodeImageStates (sc_imageStates c2) (Some node)\<rparr>)"
      by (simp add: sc_RemoveNode_def Let_def Some rn c1_def [symmetric] c2_def move_fields p1 nt split: option.split)
    moreover have "c2\<lparr>sc_nodeTree := nt\<rparr> = c2\<lparr>sc_nodeTree := nt, sc_imageStates := sc_imageStates c2\<rparr>" by simp
    ultimately show ?thesis
      using that [of "sc_imageStates c2"] that [of "removeNodeImageStates (sc_imageStates c2) (Some node)"] by (cases err) simp_all
  qed
  moreover have "list_inv (c2\<lparr>sc_nodeTree := nt, sc_imageStates := st\<rparr>) = list_inv c2"
    by (simp add: list_inv_def node_fields_only)
  moreover have "evolves c (c2\<lparr>sc_nodeTree := nt, sc_imageStates := st\<rparr>) = evolves c c2"
    by (simp add: evolves_def node_fields_only)
  ultimately show ?thesis using inv c2 fr(1) by (simp add: sc_inv_def node_fields_only same_pods_def)
qed

section \<open>Histories of the cache\<close>

datatype sc_op =
    ScAssume pod
  | ScFinishBinding pod int
  | ScForget pod
  | ScAddPod pod
  | ScUpdatePod pod pod
  | ScRemovePod pod
  | ScCleanup "string list" int
  | ScAddNode node
  | ScUpdateNode node node
  | ScRemoveNode node
  | ScOtherGeneration

text \<open>The last one is another part of the scheduler drawing a generation.\<close>

fun sc_step :: "feature_gates \<Rightarrow> sc_op \<Rightarrow> schedulerCache \<Rightarrow> (schedulerCache \<times> go_error option) go" where
  "sc_step g (ScAssume pod) c = sc_AssumePod g c pod"
| "sc_step g (ScFinishBinding pod now) c = Some (sc_finishBinding c pod now)"
| "sc_step g (ScForget pod) c = sc_ForgetPod g c pod"
| "sc_step g (ScAddPod pod) c = sc_AddPod g c pod"
| "sc_step g (ScUpdatePod oldPod newPod) c = sc_UpdatePod g c oldPod newPod"
| "sc_step g (ScRemovePod pod) c = sc_RemovePod g c pod"
| "sc_step g (ScCleanup order now) c = map_option (\<lambda>c'. (c', None)) (cleanupAssumedPods g order now c)"
| "sc_step g (ScAddNode node) c = Some (sc_AddNode g c node, None)"
| "sc_step g (ScUpdateNode oldNode newNode) c = map_option (\<lambda>c'. (c', None)) (sc_UpdateNode g c oldNode newNode)"
| "sc_step g (ScRemoveNode node) c = Some (sc_RemoveNode g c node)"
| "sc_step g ScOtherGeneration c = Some (c\<lparr>sc_gen := nextGeneration (sc_gen c)\<rparr>, None)"

text \<open>What the event handlers keep to: pods as above; a node is added when it is not there, updated
  from the object that is there and removed with its zone.\<close>

fun sc_allowed :: "sc_op \<Rightarrow> schedulerCache \<Rightarrow> bool" where
  "sc_allowed (ScForget pod) c = known_spec c pod"
| "sc_allowed (ScAddPod pod) c = known_spec c pod"
| "sc_allowed (ScUpdatePod oldPod newPod) c = known_update c oldPod newPod"
| "sc_allowed (ScRemovePod pod) c = known_node c pod"
| "sc_allowed (ScCleanup order now) c \<longleftrightarrow> distinct order \<and> set order = sc_assumedPods c"
| "sc_allowed (ScAddNode node) c \<longleftrightarrow> node_at (imap c) (n_Name node) = None"
| "sc_allowed (ScUpdateNode oldNode newNode) c \<longleftrightarrow>
     n_Name oldNode = n_Name newNode \<and>
     (\<exists>nd. node_at (imap c) (n_Name newNode) = Some nd \<and> GetZoneKey nd = GetZoneKey oldNode)"
| "sc_allowed (ScRemoveNode node) c \<longleftrightarrow>
     (\<forall>nd. node_at (imap c) (n_Name node) = Some nd \<longrightarrow> GetZoneKey nd = GetZoneKey node)"
| "sc_allowed x c = True"

inductive sc_reachable :: "feature_gates \<Rightarrow> schedulerCache \<Rightarrow> bool" for g where
  sc_new: "0 \<le> gen \<Longrightarrow> sc_reachable g (newSchedulerCache gen ttl period)"
| sc_next: "sc_reachable g c \<Longrightarrow> sc_allowed x c \<Longrightarrow> sc_step g x c = Some (c', err) \<Longrightarrow> sc_reachable g c'"

lemma sc_inv_new: "0 \<le> gen \<Longrightarrow> sc_inv g (newSchedulerCache gen ttl period)"
  using newNodeTree_ok [of "[]"]
  by (auto simp: sc_inv_def newSchedulerCache_def list_inv_def lst_def dll_def newest_first_def gens_ok_def imap_def im_ok_def
      tree_ok_def live_pairs_def node_at_def pods_ok_def podset_def pods_at_def assumed_ok_def)

lemma other_generation_ok:
  assumes "sc_inv g c"
  shows "sc_inv g (c\<lparr>sc_gen := nextGeneration (sc_gen c)\<rparr>) \<and> evolves c (c\<lparr>sc_gen := nextGeneration (sc_gen c)\<rparr>)"
proof -
  have "imap (c\<lparr>sc_gen := n\<rparr>) = imap c" "lst (c\<lparr>sc_gen := n\<rparr>) = lst c" for n by (simp_all add: imap_def lst_def fun_eq_iff)
  moreover have "gens_ok im gen \<Longrightarrow> gens_ok im (gen + 1)" for im gen by (force simp: gens_ok_def)
  ultimately show ?thesis using assms by (simp add: sc_inv_def list_inv_def evolves_def nextGeneration_def)
qed

text \<open>Every allowed step runs to its end, keeps the invariant and gives what it changes a new
  generation.\<close>

lemma sc_step_ok:
  assumes inv: "sc_inv g c" and al: "sc_allowed x c"
  shows "\<exists>c' err. sc_step g x c = Some (c', err) \<and> sc_inv g c' \<and> evolves c c'"
proof (cases x)
  case (ScAssume pod)
  then show ?thesis using AssumePod_ok [OF inv] by simp
next
  case (ScFinishBinding pod now)
  then show ?thesis using finishBinding_ok [OF inv, of pod now] by (metis prod.collapse sc_step.simps(2))
next
  case (ScForget pod)
  then show ?thesis using ForgetPod_ok [OF inv] al by simp
next
  case (ScAddPod pod)
  then show ?thesis using AddPod_handler_ok [OF inv] al by simp
next
  case (ScUpdatePod oldPod newPod)
  then show ?thesis using UpdatePod_ok [OF inv] al by simp
next
  case (ScRemovePod pod)
  then show ?thesis using RemovePod_handler_ok [OF inv] al by simp
next
  case (ScCleanup order now)
  then show ?thesis using cleanupAssumedPods_ok [OF inv, of order now] al by auto
next
  case (ScAddNode node)
  then show ?thesis using AddNode_ok [OF inv] al by simp
next
  case (ScUpdateNode oldNode newNode)
  then show ?thesis using UpdateNode_ok [OF inv] al by fastforce
next
  case (ScRemoveNode node)
  then have "sc_inv g (fst (sc_RemoveNode g c node)) \<and> evolves c (fst (sc_RemoveNode g c node))"
    using RemoveNode_ok [OF inv] al by simp
  then show ?thesis using ScRemoveNode by (metis prod.collapse sc_step.simps(10))
next
  case ScOtherGeneration
  then show ?thesis using other_generation_ok [OF inv] by simp
qed

lemma sc_reachable_inv: "sc_reachable g c \<Longrightarrow> sc_inv g c"
proof (induction rule: sc_reachable.induct)
  case (sc_next c x c' err)
  then show ?case using sc_step_ok [OF sc_next.IH sc_next.hyps(2)] by auto
qed (rule sc_inv_new)

end
