(* ===== verification/Snapshot_Correct.thy ===== *)
theory Snapshot_Correct
  imports Cache_Correct "HOL-Library.List_Lexorder" "HOL-Library.Char_ord"
begin

text \<open>
  Correctness of \<open>UpdateSnapshot\<close>: brought up to date incrementally from the nodes that changed
  since the last snapshot, the snapshot holds exactly the information of the nodes that are
  live in the cache.
\<close>

section \<open>Well-formed snapshots\<close>

definition contents :: "Snapshot \<Rightarrow> string \<rightharpoonup> NodeInfo" where
  "contents s name = map_option (sn_info s) (sn_nodeInfoMap s name)"

definition sn_wf :: "Snapshot \<Rightarrow> bool" where
  "sn_wf s \<longleftrightarrow> finite (dom (sn_nodeInfoMap s)) \<and> inj_on (sn_nodeInfoMap s) (dom (sn_nodeInfoMap s)) \<and>
     (\<forall>name a. sn_nodeInfoMap s name = Some a \<longrightarrow> a < sn_fresh s)"

definition lists_ok :: "Snapshot \<Rightarrow> bool" where
  "lists_ok s \<longleftrightarrow> distinct (sn_nodeInfoList s) \<and> set (sn_nodeInfoList s) = ran (sn_nodeInfoMap s) \<and>
     sn_havePodsWithAffinityNodeInfoList s = filter (with_affinity s) (sn_nodeInfoList s) \<and>
     sn_havePodsWithRequiredAntiAffinityNodeInfoList s = filter (with_anti_affinity s) (sn_nodeInfoList s)"

text \<open>What has not changed since the snapshot is in it.\<close>

definition in_date :: "schedulerCache \<Rightarrow> Snapshot \<Rightarrow> bool" where
  "in_date c s \<longleftrightarrow> 0 \<le> sn_generation s \<and> sn_generation s \<le> sc_gen c \<and>
     (\<forall>name i. imap c name = Some i \<longrightarrow> ni_node i \<noteq> None \<longrightarrow> ni_Generation i \<le> sn_generation s \<longrightarrow> contents s name = Some i)"

lemma in_date_evolves: "in_date c s \<Longrightarrow> evolves c c' \<Longrightarrow> in_date c' s"
  unfolding in_date_def evolves_def by (metis le_less_trans not_le order_trans)

lemma dom_contents: "dom (contents s) = dom (sn_nodeInfoMap s)"
  by (auto simp: contents_def)

definition aff_status :: "NodeInfo option \<Rightarrow> bool \<times> bool" where
  "aff_status o_i = (case o_i of None \<Rightarrow> (False, False) | Some i \<Rightarrow> (ni_PodsWithAffinity i \<noteq> [], ni_PodsWithRequiredAntiAffinity i \<noteq> []))"

lemma inj_upd_fresh:
  assumes "sn_wf s" "sn_nodeInfoMap s name = None"
  shows "inj_on ((sn_nodeInfoMap s)(name \<mapsto> sn_fresh s)) (dom ((sn_nodeInfoMap s)(name \<mapsto> sn_fresh s)))"
proof (rule inj_onI)
  fix x y assume xy: "x \<in> dom ((sn_nodeInfoMap s)(name \<mapsto> sn_fresh s))" "y \<in> dom ((sn_nodeInfoMap s)(name \<mapsto> sn_fresh s))"
    "((sn_nodeInfoMap s)(name \<mapsto> sn_fresh s)) x = ((sn_nodeInfoMap s)(name \<mapsto> sn_fresh s)) y"
  have lt: "sn_nodeInfoMap s z \<noteq> Some (sn_fresh s)" for z using assms(1) unfolding sn_wf_def by (meson less_irrefl)
  show "x = y"
  proof (cases "x = name \<or> y = name")
    case True
    then show ?thesis using xy(3) lt by (metis fun_upd_apply)
  next
    case False
    then have "x \<in> dom (sn_nodeInfoMap s)" "y \<in> dom (sn_nodeInfoMap s)" "sn_nodeInfoMap s x = sn_nodeInfoMap s y" using xy by auto
    then show ?thesis using assms(1) unfolding sn_wf_def inj_on_def by blast
  qed
qed

section \<open>The loop over the changed nodes\<close>

lemma snap_node_dead: "ni_node i = None \<Longrightarrow> snap_node i sf = sf"
  by (cases sf) (simp add: snap_node_def)

lemma snap_node_live:
  assumes wf: "sn_wf s" and nd: "ni_node i = Some nd" "n_Name nd = name" and run: "snap_node i (s, f) = (s', f')"
  shows "sn_wf s'" "contents s' = (contents s)(name \<mapsto> i)"
    "sn_nodeInfoList s' = sn_nodeInfoList s" "sn_havePodsWithAffinityNodeInfoList s' = sn_havePodsWithAffinityNodeInfoList s"
    "sn_havePodsWithRequiredAntiAffinityNodeInfoList s' = sn_havePodsWithRequiredAntiAffinityNodeInfoList s"
    "sn_generation s' = sn_generation s"
    "\<not> updateAllLists f' \<Longrightarrow> \<not> updateAllLists f \<and> sn_nodeInfoMap s' = sn_nodeInfoMap s"
    "\<not> updateNodesHavePodsWithAffinity f' \<Longrightarrow> \<not> updateNodesHavePodsWithAffinity f \<and> fst (aff_status (contents s' name)) = fst (aff_status (contents s name))"
    "\<not> updateNodesHavePodsWithRequiredAntiAffinity f' \<Longrightarrow>
       \<not> updateNodesHavePodsWithRequiredAntiAffinity f \<and> snd (aff_status (contents s' name)) = snd (aff_status (contents s name))"
proof -
  have "sn_wf s' \<and> contents s' = (contents s)(name \<mapsto> i) \<and>
    sn_nodeInfoList s' = sn_nodeInfoList s \<and> sn_havePodsWithAffinityNodeInfoList s' = sn_havePodsWithAffinityNodeInfoList s \<and>
    sn_havePodsWithRequiredAntiAffinityNodeInfoList s' = sn_havePodsWithRequiredAntiAffinityNodeInfoList s \<and>
    sn_generation s' = sn_generation s \<and>
    (\<not> updateAllLists f' \<longrightarrow> \<not> updateAllLists f \<and> sn_nodeInfoMap s' = sn_nodeInfoMap s) \<and>
    (\<not> updateNodesHavePodsWithAffinity f' \<longrightarrow> \<not> updateNodesHavePodsWithAffinity f \<and> fst (aff_status (contents s' name)) = fst (aff_status (contents s name))) \<and>
    (\<not> updateNodesHavePodsWithRequiredAntiAffinity f' \<longrightarrow>
       \<not> updateNodesHavePodsWithRequiredAntiAffinity f \<and> snd (aff_status (contents s' name)) = snd (aff_status (contents s name)))"
  proof (cases "sn_nodeInfoMap s name")
    case (Some a)
    have s': "s' = s\<lparr>sn_store := (sn_store s)(a \<mapsto> i)\<rparr>"
      using run nd Some by (auto simp: snap_node_def Let_def split: if_splits)
    have other: "sn_nodeInfoMap s z \<noteq> Some a" if "z \<noteq> name" for z
      using wf Some that unfolding sn_wf_def inj_on_def by (metis domI)
    have c: "contents s' = (contents s)(name \<mapsto> i)"
    proof
      fix z
      show "contents s' z = ((contents s)(name \<mapsto> i)) z"
        using Some other [of z] by (cases "sn_nodeInfoMap s z") (auto simp: contents_def s' sn_info_def)
    qed
    have e: "contents s name = Some (sn_info s a)" using Some by (simp add: contents_def)
    show ?thesis using run nd Some wf unfolding c
      by (auto simp: snap_node_def Let_def s' sn_wf_def e aff_status_def split: if_splits)
  next
    case None
    have lt: "sn_nodeInfoMap s z \<noteq> Some (sn_fresh s)" for z using wf unfolding sn_wf_def by (meson less_irrefl)
    have s': "s' = s\<lparr>sn_store := (sn_store s)(sn_fresh s \<mapsto> i), sn_nodeInfoMap := (sn_nodeInfoMap s)(name \<mapsto> sn_fresh s), sn_fresh := Suc (sn_fresh s)\<rparr>"
      using run nd None by (auto simp: snap_node_def Let_def sn_alloc_def split: if_splits)
    have c: "contents s' = (contents s)(name \<mapsto> i)"
    proof
      fix z
      show "contents s' z = ((contents s)(name \<mapsto> i)) z"
        using lt [of z] by (cases "sn_nodeInfoMap s z") (auto simp: contents_def s' sn_info_def)
    qed
    have "sn_wf s'" using wf inj_upd_fresh [OF wf None] by (auto simp: sn_wf_def s' less_Suc_eq)
    moreover have e: "contents s name = None" using None by (simp add: contents_def)
    moreover have "sn_info (sn_alloc s name empty_NodeInfo) (sn_fresh s) = empty_NodeInfo" by (simp add: sn_info_def sn_alloc_def)
    ultimately show ?thesis using run nd None unfolding c
      by (auto simp: snap_node_def Let_def s' sn_alloc_def aff_status_def empty_NodeInfo_def split: if_splits)
  qed
  then show "sn_wf s'" "contents s' = (contents s)(name \<mapsto> i)"
    "sn_nodeInfoList s' = sn_nodeInfoList s" "sn_havePodsWithAffinityNodeInfoList s' = sn_havePodsWithAffinityNodeInfoList s"
    "sn_havePodsWithRequiredAntiAffinityNodeInfoList s' = sn_havePodsWithRequiredAntiAffinityNodeInfoList s"
    "sn_generation s' = sn_generation s"
    "\<not> updateAllLists f' \<Longrightarrow> \<not> updateAllLists f \<and> sn_nodeInfoMap s' = sn_nodeInfoMap s"
    "\<not> updateNodesHavePodsWithAffinity f' \<Longrightarrow> \<not> updateNodesHavePodsWithAffinity f \<and> fst (aff_status (contents s' name)) = fst (aff_status (contents s name))"
    "\<not> updateNodesHavePodsWithRequiredAntiAffinity f' \<Longrightarrow>
       \<not> updateNodesHavePodsWithRequiredAntiAffinity f \<and> snd (aff_status (contents s' name)) = snd (aff_status (contents s name))"
    by blast+
qed

definition snap_names :: "(string \<rightharpoonup> NodeInfo) \<Rightarrow> string list \<Rightarrow> Snapshot \<times> snap_flags \<Rightarrow> Snapshot \<times> snap_flags" where
  "snap_names im names sf = foldl (\<lambda>sf name. case im name of None \<Rightarrow> sf | Some i \<Rightarrow> snap_node i sf) sf names"

text \<open>The walk along the list stops at the first node that is not newer than the snapshot.\<close>

lemma snap_loop_eq:
  assumes "seg nodes p h xs None"
  shows "snap_loop nodes gen h sf =
    Some (snap_names (\<lambda>name. map_option li_info (nodes name)) (takeWhile (\<lambda>x. gen < gen_at (\<lambda>name. map_option li_info (nodes name)) x) xs) sf)"
  using assms
proof (induction xs arbitrary: p h sf)
  case Nil
  then show ?case by (simp add: snap_loop.simps snap_names_def)
next
  case (Cons x xs)
  then obtain it where it: "h = Some x" "nodes x = Some it" "seg nodes (Some x) (li_next it) xs None" by auto
  show ?case
    using Cons.IH [OF it(3)] it(1,2)
    by (subst snap_loop.simps) (simp add: snap_names_def gen_at_def)
qed

lemma snap_names_ok:
  assumes "sn_wf s" "\<forall>name i nd. im name = Some i \<longrightarrow> ni_node i = Some nd \<longrightarrow> n_Name nd = name"
    and "snap_names im names (s, f) = (s', f')"
  shows "sn_wf s' \<and> (\<forall>z. contents s' z = (if z \<in> set names \<and> node_at im z \<noteq> None then im z else contents s z)) \<and>
    sn_nodeInfoList s' = sn_nodeInfoList s \<and> sn_havePodsWithAffinityNodeInfoList s' = sn_havePodsWithAffinityNodeInfoList s \<and>
    sn_havePodsWithRequiredAntiAffinityNodeInfoList s' = sn_havePodsWithRequiredAntiAffinityNodeInfoList s \<and>
    sn_generation s' = sn_generation s \<and>
    (\<not> updateAllLists f' \<longrightarrow> \<not> updateAllLists f \<and> sn_nodeInfoMap s' = sn_nodeInfoMap s) \<and>
    (\<not> updateNodesHavePodsWithAffinity f' \<longrightarrow> \<not> updateNodesHavePodsWithAffinity f \<and> (\<forall>z. fst (aff_status (contents s' z)) = fst (aff_status (contents s z)))) \<and>
    (\<not> updateNodesHavePodsWithRequiredAntiAffinity f' \<longrightarrow>
       \<not> updateNodesHavePodsWithRequiredAntiAffinity f \<and> (\<forall>z. snd (aff_status (contents s' z)) = snd (aff_status (contents s z))))"
  using assms(1,3)
proof (induction names arbitrary: s f)
  case Nil
  then show ?case by (simp add: snap_names_def)
next
  case (Cons x names)
  show ?case
  proof (cases "node_at im x")
    case None
    have "snap_names im (x # names) (s, f) = snap_names im names (s, f)"
      using None by (auto simp: snap_names_def node_at_def snap_node_dead split: option.splits)
    then have eq: "snap_names im names (s, f) = (s', f')" using Cons.prems(2) by simp
    have mem: "(z \<in> set (x # names) \<and> node_at im z \<noteq> None) = (z \<in> set names \<and> node_at im z \<noteq> None)" for z using None by auto
    show ?thesis unfolding mem by (rule Cons.IH [OF Cons.prems(1) eq])
  next
    case (Some nd)
    then obtain i where i: "im x = Some i" "ni_node i = Some nd" by (auto simp: node_at_def split: option.splits)
    obtain s1 f1 where r: "snap_node i (s, f) = (s1, f1)" by fastforce
    note st = snap_node_live [OF Cons.prems(1) i(2) assms(2) [rule_format, OF i] r]
    have "snap_names im names (s1, f1) = (s', f')" using Cons.prems(2) i(1) r by (simp add: snap_names_def)
    note ih = Cons.IH [OF st(1) this]
    have cont: "contents s' z = (if z \<in> set (x # names) \<and> node_at im z \<noteq> None then im z else contents s z)" for z
      using ih st(2) i(1) Some by auto
    have a1: "fst (aff_status (contents s1 z)) = fst (aff_status (contents s z))" if "\<not> updateNodesHavePodsWithAffinity f1" for z
      using st(2) st(8) [OF that] by auto
    have a2: "snd (aff_status (contents s1 z)) = snd (aff_status (contents s z))" if "\<not> updateNodesHavePodsWithRequiredAntiAffinity f1" for z
      using st(2) st(9) [OF that] by auto
    have i1: "\<not> updateAllLists f \<and> sn_nodeInfoMap s' = sn_nodeInfoMap s" if "\<not> updateAllLists f'"
      using ih that st(7) by simp
    have i2: "\<not> updateNodesHavePodsWithAffinity f \<and> (\<forall>z. fst (aff_status (contents s' z)) = fst (aff_status (contents s z)))"
      if "\<not> updateNodesHavePodsWithAffinity f'"
    proof -
      have "\<not> updateNodesHavePodsWithAffinity f1" "\<forall>z. fst (aff_status (contents s' z)) = fst (aff_status (contents s1 z))"
        using ih that by blast+
      then show ?thesis using st(8) a1 by simp
    qed
    have i3: "\<not> updateNodesHavePodsWithRequiredAntiAffinity f \<and> (\<forall>z. snd (aff_status (contents s' z)) = snd (aff_status (contents s z)))"
      if "\<not> updateNodesHavePodsWithRequiredAntiAffinity f'"
    proof -
      have "\<not> updateNodesHavePodsWithRequiredAntiAffinity f1" "\<forall>z. snd (aff_status (contents s' z)) = snd (aff_status (contents s1 z))"
        using ih that by blast+
      then show ?thesis using st(9) a2 by simp
    qed
    have eqs: "sn_wf s'" "sn_nodeInfoList s' = sn_nodeInfoList s" "sn_havePodsWithAffinityNodeInfoList s' = sn_havePodsWithAffinityNodeInfoList s"
      "sn_havePodsWithRequiredAntiAffinityNodeInfoList s' = sn_havePodsWithRequiredAntiAffinityNodeInfoList s"
      "sn_generation s' = sn_generation s" using ih st(3,4,5,6) by simp_all
    show ?thesis by (intro conjI allI impI) (fact eqs cont i1 i2 i3 | use i1 i2 i3 in blast)+
  qed
qed

section \<open>Deleted nodes\<close>

definition dead :: "(string \<rightharpoonup> NodeInfo) \<Rightarrow> string \<Rightarrow> bool" where
  "dead im name \<longleftrightarrow> node_at im name = None"

lemma removeDeleted_ok:
  assumes "distinct names" "int (length (filter (dead (\<lambda>x. map_option li_info (nodes x))) names)) \<le> k"
  shows "removeDeletedNodesFromSnapshot nodes names k s =
    s\<lparr>sn_nodeInfoMap := (\<lambda>x. if x \<in> set names \<and> dead (\<lambda>x. map_option li_info (nodes x)) x then None else sn_nodeInfoMap s x)\<rparr>"
  using assms
proof (induction names arbitrary: k s)
  case (Cons x names)
  let ?d = "dead (\<lambda>x. map_option li_info (nodes x))"
  have dx: "(case nodes x of None \<Rightarrow> True | Some n \<Rightarrow> ni_node (li_info n) = None) \<longleftrightarrow> ?d x"
    by (simp add: dead_def node_at_def split: option.split)
  show ?case
  proof (cases "k \<le> 0")
    case True
    then have "int (length (filter ?d (x # names))) \<le> 0" using Cons.prems(2) by (rule order_trans [rotated])
    then have "filter ?d (x # names) = []" by (simp only: length_0_conv of_nat_le_0_iff)
    then have none: "(y \<in> set (x # names) \<and> ?d y) = False" for y unfolding filter_empty_conv by blast
    show ?thesis unfolding none using True by simp
  next
    case False
    show ?thesis
    proof (cases "?d x")
      case True
      have "int (length (filter ?d names)) \<le> k - 1" using Cons.prems(2) True by simp
      note ih = Cons.IH [OF _ this]
      show ?thesis using Cons.prems(1) False True
        by (simp add: dx ih) (auto simp: fun_eq_iff intro!: arg_cong [where f = "\<lambda>m. s\<lparr>sn_nodeInfoMap := m\<rparr>"])
    next
      case nd: False
      have "int (length (filter ?d names)) \<le> k" using Cons.prems(2) nd by simp
      note ih = Cons.IH [OF _ this]
      show ?thesis using Cons.prems(1) False nd
        by (simp add: dx ih) (auto simp: fun_eq_iff intro!: arg_cong [where f = "\<lambda>m. s\<lparr>sn_nodeInfoMap := m\<rparr>"])
    qed
  qed
qed simp

section \<open>The number of live nodes\<close>

lemma numNodes_live:
  assumes "tree_ok nt im"
  shows "nt_numNodes nt = int (card {name. node_at im name \<noteq> None})" "finite {name. node_at im name \<noteq> None}"
    "\<exists>names. tree_list nt = Some (names, None) \<and> distinct names \<and> set names = {name. node_at im name \<noteq> None}"
proof -
  have inv: "nt_inv nt" and pairs: "nt_pairs nt = live_pairs im" using assms by (simp_all add: tree_ok_def)
  have lv: "snd ` live_pairs im = {name. node_at im name \<noteq> None}" by (force simp: live_pairs_def)
  have inj: "inj_on snd (live_pairs im)" by (auto simp: inj_on_def live_pairs_def)
  have fin: "finite (live_pairs im)" using zone_pairs_ok(2) [OF inv] unfolding pairs by (metis List.finite_set)
  then show f: "finite {name. node_at im name \<noteq> None}" unfolding lv [symmetric] by simp
  obtain names where n: "tree_list nt = Some (names, None)" "names = concat (transpose (map (zone_nodes nt) (nt_zones nt)))"
    using tree_list_inv [OF inv] by blast
  have "mset names = image_mset snd (mset_set (live_pairs im))"
    using nt_pairs_names [OF inv] pairs n(2) by (simp add: mset_concat_transpose)
  also have "\<dots> = mset_set {name. node_at im name \<noteq> None}" using image_mset_mset_set [OF inj] lv by simp
  finally have m: "mset names = mset_set {name. node_at im name \<noteq> None}" .
  obtain ys where ys: "set ys = {name. node_at im name \<noteq> None}" "distinct ys" using finite_distinct_list [OF f] by metis
  have e: "mset names = mset ys" unfolding m ys(1) [symmetric] by (rule mset_set_set [OF ys(2)])
  have "distinct names" "set names = {name. node_at im name \<noteq> None}"
    using ys mset_eq_imp_distinct_iff [OF e] mset_eq_setD [OF e] by simp_all
  then show "\<exists>names. tree_list nt = Some (names, None) \<and> distinct names \<and> set names = {name. node_at im name \<noteq> None}" using n(1) by blast
  have "size (mset names) = card {name. node_at im name \<noteq> None}" unfolding m by simp
  moreover have "length names = nt_total nt" unfolding n(2) by (rule length_columns [OF inv])
  ultimately show "nt_numNodes nt = int (card {name. node_at im name \<noteq> None})" using inv by (simp add: nt_inv_def)
qed

section \<open>The lists\<close>

lemma status_of_address:
  assumes "sn_nodeInfoMap s name = Some a"
  shows "with_affinity s a = fst (aff_status (contents s name))" "with_anti_affinity s a = snd (aff_status (contents s name))"
  using assms by (simp_all add: with_affinity_def with_anti_affinity_def aff_status_def contents_def)

lemma card_ran_wf:
  assumes "sn_wf s"
  shows "card (ran (sn_nodeInfoMap s)) = card (dom (sn_nodeInfoMap s))"
proof -
  have "Some ` ran (sn_nodeInfoMap s) = sn_nodeInfoMap s ` dom (sn_nodeInfoMap s)" by (force simp: ran_def)
  then have "card (Some ` ran (sn_nodeInfoMap s)) = card (dom (sn_nodeInfoMap s))"
    using assms card_image [of "sn_nodeInfoMap s" "dom (sn_nodeInfoMap s)"] by (simp add: sn_wf_def)
  then show ?thesis by (simp add: card_image)
qed

lemma lists_length: "sn_wf s \<Longrightarrow> lists_ok s \<Longrightarrow> length (sn_nodeInfoList s) = card (dom (sn_nodeInfoMap s))"
  using card_ran_wf [of s] distinct_card [of "sn_nodeInfoList s"] by (simp add: lists_ok_def)

lemma same_store:
  assumes "sn_store s' = sn_store s" "sn_nodeInfoMap s' = sn_nodeInfoMap s"
  shows "with_affinity s' = with_affinity s" "with_anti_affinity s' = with_anti_affinity s" "contents s' = contents s"
proof -
  have "sn_info s' = sn_info s" by (rule ext) (simp add: sn_info_def assms(1))
  then show "with_affinity s' = with_affinity s" "with_anti_affinity s' = with_anti_affinity s" "contents s' = contents s"
    by (intro ext, simp add: with_affinity_def with_anti_affinity_def contents_def assms(2))+
qed

text \<open>Rebuilding all lists from the tree.\<close>

lemma rebuild_all:
  assumes wf: "sn_wf s" and T: "tree_ok nt im" and d: "dom (sn_nodeInfoMap s) = {name. node_at im name \<noteq> None}"
  shows "\<exists>s'. updateNodeInfoSnapshotList nt s True = Some s' \<and> lists_ok s' \<and> sn_wf s' \<and> contents s' = contents s \<and>
    sn_nodeInfoMap s' = sn_nodeInfoMap s \<and> sn_generation s' = sn_generation s"
proof -
  obtain names where n: "tree_list nt = Some (names, None)" "distinct names" "set names = {name. node_at im name \<noteq> None}"
    using numNodes_live(3) [OF T] by blast
  let ?l = "List.map_filter (sn_nodeInfoMap s) names"
  define s' where "s' = s\<lparr>sn_nodeInfoList := ?l, sn_havePodsWithAffinityNodeInfoList := filter (with_affinity s) ?l,
      sn_havePodsWithRequiredAntiAffinityNodeInfoList := filter (with_anti_affinity s) ?l\<rparr>"
  have run: "updateNodeInfoSnapshotList nt s True = Some s'" by (simp add: updateNodeInfoSnapshotList_def n(1) Let_def s'_def)
  have dn: "\<forall>x\<in>set names. sn_nodeInfoMap s x \<noteq> None" using n(3) d by blast
  then have l: "?l = map (\<lambda>x. the (sn_nodeInfoMap s x)) names"
    by (induction names) (auto simp: map_filter_simps)
  have "inj_on (\<lambda>x. the (sn_nodeInfoMap s x)) (set names)"
  proof (rule inj_onI)
    fix x y assume xy: "x \<in> set names" "y \<in> set names" "the (sn_nodeInfoMap s x) = the (sn_nodeInfoMap s y)"
    then have "sn_nodeInfoMap s x = sn_nodeInfoMap s y" using dn by (metis option.collapse)
    moreover have "x \<in> dom (sn_nodeInfoMap s)" "y \<in> dom (sn_nodeInfoMap s)" using xy dn by auto
    ultimately show "x = y" using wf unfolding sn_wf_def by (meson inj_onD)
  qed
  then have "distinct ?l" using n(2) by (simp add: l distinct_map)
  moreover have "set ?l = ran (sn_nodeInfoMap s)"
  proof -
    have "set names = dom (sn_nodeInfoMap s)" using n(3) d by simp
    then show ?thesis unfolding l set_map by (force simp: ran_def)
  qed
  moreover have "sn_store s' = sn_store s" "sn_nodeInfoMap s' = sn_nodeInfoMap s" by (simp_all add: s'_def)
  note same_store [OF this]
  ultimately have "lists_ok s'" "contents s' = contents s" by (simp_all add: lists_ok_def s'_def)
  moreover have "sn_wf s'" using wf by (simp add: sn_wf_def s'_def)
  ultimately show ?thesis using run by (auto simp: s'_def)
qed

text \<open>Rebuilding only the affinity lists.\<close>

lemma rebuild_affinity:
  assumes wf: "sn_wf s" and l: "distinct (sn_nodeInfoList s)" "set (sn_nodeInfoList s) = ran (sn_nodeInfoMap s)"
  shows "\<exists>s'. updateNodeInfoSnapshotList nt s False = Some s' \<and> lists_ok s' \<and> sn_wf s' \<and> contents s' = contents s \<and>
    sn_nodeInfoMap s' = sn_nodeInfoMap s \<and> sn_generation s' = sn_generation s"
proof -
  define s' where "s' = s\<lparr>sn_havePodsWithAffinityNodeInfoList := filter (with_affinity s) (sn_nodeInfoList s),
      sn_havePodsWithRequiredAntiAffinityNodeInfoList := filter (with_anti_affinity s) (sn_nodeInfoList s)\<rparr>"
  have run: "updateNodeInfoSnapshotList nt s False = Some s'" by (simp add: updateNodeInfoSnapshotList_def s'_def)
  have "sn_store s' = sn_store s" "sn_nodeInfoMap s' = sn_nodeInfoMap s" by (simp_all add: s'_def)
  note same_store [OF this]
  with run wf l show ?thesis by (intro exI [of _ s']) (simp add: lists_ok_def s'_def sn_wf_def)
qed

text \<open>The lists stay right when no pointer and no affinity status changed.\<close>

lemma lists_ok_unchanged:
  assumes ok: "lists_ok s" and m: "sn_nodeInfoMap s' = sn_nodeInfoMap s" "sn_nodeInfoList s' = sn_nodeInfoList s"
    "sn_havePodsWithAffinityNodeInfoList s' = sn_havePodsWithAffinityNodeInfoList s"
    "sn_havePodsWithRequiredAntiAffinityNodeInfoList s' = sn_havePodsWithRequiredAntiAffinityNodeInfoList s"
    and st: "\<forall>z. fst (aff_status (contents s' z)) = fst (aff_status (contents s z))" "\<forall>z. snd (aff_status (contents s' z)) = snd (aff_status (contents s z))"
  shows "lists_ok s'"
proof -
  have "with_affinity s' a = with_affinity s a \<and> with_anti_affinity s' a = with_anti_affinity s a" if "a \<in> set (sn_nodeInfoList s)" for a
  proof -
    have "a \<in> ran (sn_nodeInfoMap s)" using that ok by (simp add: lists_ok_def)
    then obtain name where "sn_nodeInfoMap s name = Some a" by (auto simp: ran_def)
    then show ?thesis using m(1) st status_of_address [of s name a] status_of_address [of s' name a] by simp
  qed
  then have "filter (with_affinity s') (sn_nodeInfoList s) = filter (with_affinity s) (sn_nodeInfoList s)"
    "filter (with_anti_affinity s') (sn_nodeInfoList s) = filter (with_anti_affinity s) (sn_nodeInfoList s)"
    by (auto intro: filter_cong)
  then show ?thesis using ok m by (simp add: lists_ok_def)
qed

section \<open>UpdateSnapshot\<close>

definition live_map :: "(string \<rightharpoonup> NodeInfo) \<Rightarrow> string \<rightharpoonup> NodeInfo" where
  "live_map im name = (if node_at im name \<noteq> None then im name else None)"

lemma dom_live_map: "dom (live_map im) = {name. node_at im name \<noteq> None}"
  by (auto simp: live_map_def node_at_def split: option.splits if_splits)

lemma takeWhile_newest:
  "sorted_wrt (\<lambda>a b. f b < f a) xs \<Longrightarrow> set (takeWhile (\<lambda>x. k < f x) xs) = {x \<in> set xs. k < f x}" for f :: "'a \<Rightarrow> int"
  by (induction xs) force+

lemma snap_loop_ok:
  assumes inv: "sc_inv g c"
  shows "\<exists>names s1 f1. snap_loop (sc_nodes c) k (sc_headNode c) sf = Some (s1, f1) \<and> snap_names (imap c) names sf = (s1, f1) \<and>
    set names = {x \<in> dom (imap c). k < gen_at (imap c) x}"
proof -
  obtain xs where xs: "lst c xs" "newest_first (imap c) xs" using inv by (auto simp: sc_inv_def list_inv_def)
  have im: "(\<lambda>name. map_option li_info (sc_nodes c name)) = imap c" by (simp add: imap_def fun_eq_iff)
  let ?names = "takeWhile (\<lambda>x. k < gen_at (imap c) x) xs"
  have "set ?names = {x \<in> dom (imap c). k < gen_at (imap c) x}"
    using takeWhile_newest [of "gen_at (imap c)" xs] xs by (simp add: newest_first_def lst_def dom_imap)
  moreover have "snap_loop (sc_nodes c) k (sc_headNode c) sf = Some (snap_names (imap c) ?names sf)"
    using snap_loop_eq [of "sc_nodes c" None "sc_headNode c" xs k sf] xs(1) im by (simp add: lst_def dll_def)
  ultimately show ?thesis by (metis prod.collapse)
qed

text \<open>After the loop every live node is in the snapshot as it is in the cache.\<close>

lemma after_loop:
  assumes inv: "sc_inv g c" and date: "in_date c s"
    and names: "set names = {x \<in> dom (imap c). sn_generation s < gen_at (imap c) x}"
    and cont: "\<forall>z. contents s1 z = (if z \<in> set names \<and> node_at (imap c) z \<noteq> None then imap c z else contents s z)"
  shows "node_at (imap c) z \<noteq> None \<Longrightarrow> contents s1 z = imap c z"
proof -
  assume live: "node_at (imap c) z \<noteq> None"
  then obtain i where i: "imap c z = Some i" "ni_node i \<noteq> None" by (auto simp: node_at_def split: option.splits)
  show ?thesis
  proof (cases "sn_generation s < ni_Generation i")
    case True
    then have "z \<in> set names" using i names by (auto simp: gen_at_def)
    then show ?thesis using cont live by simp
  next
    case False
    then have "z \<notin> set names" "contents s z = Some i" using i names date by (auto simp: gen_at_def in_date_def)
    then show ?thesis using cont i by simp
  qed
qed

lemma drop_dead:
  assumes inv: "sc_inv g c" and wf: "sn_wf s" and live: "\<And>z. node_at (imap c) z \<noteq> None \<Longrightarrow> contents s z = imap c z"
    and ord: "range_order names (sn_nodeInfoMap s)"
    and ex: "extra = int (length names) - nt_numNodes (sc_nodeTree c)"
    and s': "s' = (if extra > 0 then removeDeletedNodesFromSnapshot (sc_nodes c) names extra s else s)"
  shows "sn_wf s'" "contents s' = live_map (imap c)" "\<not> extra > 0 \<Longrightarrow> s' = s" "sn_generation s' = sn_generation s"
proof -
  let ?L = "{name. node_at (imap c) name \<noteq> None}"
  have im: "(\<lambda>name. map_option li_info (sc_nodes c name)) = imap c" by (simp add: imap_def fun_eq_iff)
  have T: "tree_ok (sc_nodeTree c) (imap c)" using inv by (simp add: sc_inv_def)
  have sub: "?L \<subseteq> set names"
  proof
    fix z assume "z \<in> ?L"
    then have "contents s z \<noteq> None" using live [of z] by (auto simp: node_at_def split: option.splits)
    then have "z \<in> dom (contents s)" by blast
    then show "z \<in> set names" using ord unfolding dom_contents by (simp add: range_order_def)
  qed
  have d: "distinct names" using ord by (simp add: range_order_def)
  have "length (filter (dead (imap c)) names) = card (set names - ?L)"
    using distinct_card [of "filter (dead (imap c)) names"] d by (simp add: dead_def set_diff_eq Collect_conj_eq)
  also have "\<dots> = length names - card ?L" using sub numNodes_live(2) [OF T] by (simp add: card_Diff_subset distinct_card [OF d])
  finally have "int (length (filter (dead (imap c)) names)) = extra"
    using ex numNodes_live(1) [OF T] card_mono [OF _ sub] by (simp add: distinct_card [OF d])
  then have rm: "removeDeletedNodesFromSnapshot (sc_nodes c) names extra s =
      s\<lparr>sn_nodeInfoMap := (\<lambda>x. if x \<in> set names \<and> dead (imap c) x then None else sn_nodeInfoMap s x)\<rparr>"
    using removeDeleted_ok [OF d, of "sc_nodes c" extra s] im by simp
  have "removeDeletedNodesFromSnapshot (sc_nodes c) names extra s = s" if "\<not> extra > 0" using that by (cases names) simp_all
  then have s2: "s' = s\<lparr>sn_nodeInfoMap := (\<lambda>x. if x \<in> set names \<and> dead (imap c) x then None else sn_nodeInfoMap s x)\<rparr>"
    using rm s' by (cases "extra > 0") simp_all
  have m: "sn_nodeInfoMap s' x = (if dead (imap c) x then None else sn_nodeInfoMap s x)" for x
    using ord by (auto simp: s2 range_order_def)
  show "sn_generation s' = sn_generation s" by (simp add: s2)
  show "s' = s" if "\<not> extra > 0" using that s' by simp
  have "sn_info s' = sn_info s" by (rule ext) (simp add: sn_info_def s2)
  then show "contents s' = live_map (imap c)"
    using live by (intro ext) (simp add: contents_def m live_map_def dead_def)
  have sub': "dom (sn_nodeInfoMap s') \<subseteq> dom (sn_nodeInfoMap s)" using m by (auto split: if_splits)
  moreover have "inj_on (sn_nodeInfoMap s') (dom (sn_nodeInfoMap s'))"
  proof (rule inj_onI)
    fix x y assume xy: "x \<in> dom (sn_nodeInfoMap s')" "y \<in> dom (sn_nodeInfoMap s')" "sn_nodeInfoMap s' x = sn_nodeInfoMap s' y"
    then have "sn_nodeInfoMap s x = sn_nodeInfoMap s y" using m by (auto split: if_splits)
    then show "x = y" using wf sub' xy unfolding sn_wf_def by (meson inj_onD subsetD)
  qed
  moreover have "sn_nodeInfoMap s' x = Some a \<Longrightarrow> a < sn_fresh s'" for x a using wf m [of x] by (auto simp: sn_wf_def s2 split: if_splits)
  ultimately show "sn_wf s'" using wf by (auto simp: sn_wf_def intro: finite_subset)
qed

text \<open>Whatever of the lists is rebuilt, they are right afterwards.\<close>

lemma update_lists:
  assumes inv: "sc_inv g c" and wf: "sn_wf s3" and c3: "contents s3 = live_map (imap c)"
    and same: "\<not> all \<Longrightarrow> distinct (sn_nodeInfoList s3) \<and> set (sn_nodeInfoList s3) = ran (sn_nodeInfoMap s3)"
    and ok: "\<not> (all \<or> b1 \<or> b2) \<Longrightarrow> lists_ok s3"
  shows "\<exists>s4. (if all \<or> b1 \<or> b2 then updateNodeInfoSnapshotList (sc_nodeTree c) s3 all else Some s3) = Some s4 \<and>
    lists_ok s4 \<and> sn_wf s4 \<and> contents s4 = live_map (imap c) \<and> sn_generation s4 = sn_generation s3"
proof (cases all)
  case True
  have T: "tree_ok (sc_nodeTree c) (imap c)" using inv by (simp add: sc_inv_def)
  have "dom (sn_nodeInfoMap s3) = {name. node_at (imap c) name \<noteq> None}"
    using dom_contents [of s3] unfolding c3 dom_live_map by simp
  from rebuild_all [OF wf T this] show ?thesis using True c3 by auto
next
  case False
  then show ?thesis
  proof (cases "b1 \<or> b2")
    case True
    then show ?thesis using rebuild_affinity [OF wf, of "sc_nodeTree c"] same False c3 by auto
  next
    case b: False
    then show ?thesis using ok wf c3 False by simp
  qed
qed

lemma live_map_length:
  assumes inv: "sc_inv g c" and "sn_wf s" "lists_ok s" "contents s = live_map (imap c)"
  shows "int (length (sn_nodeInfoList s)) = nt_numNodes (sc_nodeTree c)"
proof -
  have "dom (sn_nodeInfoMap s) = {name. node_at (imap c) name \<noteq> None}"
    using dom_contents [of s] unfolding assms(4) dom_live_map by simp
  moreover have "tree_ok (sc_nodeTree c) (imap c)" using inv by (simp add: sc_inv_def)
  ultimately show ?thesis using lists_length [OF assms(2,3)] numNodes_live(1) by simp
qed

lemma in_date_live_map:
  assumes inv: "sc_inv g c" and "contents s = live_map (imap c)" and "0 \<le> sn_generation s" "sn_generation s \<le> sc_gen c"
  shows "in_date c s"
  using assms by (simp add: in_date_def live_map_def node_at_def)

text \<open>The order in which Go ranges over the map of a snapshot.\<close>

definition map_orders :: "(Snapshot \<Rightarrow> string list) \<Rightarrow> bool" where
  "map_orders order \<longleftrightarrow> (\<forall>s. finite (dom (sn_nodeInfoMap s)) \<longrightarrow> range_order (order s) (sn_nodeInfoMap s))"

lemma UpdateSnapshot_ok:
  assumes inv: "sc_inv g c" and wf: "sn_wf s" and ok: "lists_ok s" and date: "in_date c s" and ord: "map_orders order"
  shows "\<exists>s'. UpdateSnapshot order c s = Some (s', None) \<and> sn_wf s' \<and> lists_ok s' \<and> in_date c s' \<and> contents s' = live_map (imap c)"
proof -
  let ?f = "\<lparr>updateAllLists = False, updateNodesHavePodsWithAffinity = False, updateNodesHavePodsWithRequiredAntiAffinity = False\<rparr>"
  obtain names s1 f1 where run: "snap_loop (sc_nodes c) (sn_generation s) (sc_headNode c) (s, ?f) = Some (s1, f1)"
    and nm: "snap_names (imap c) names (s, ?f) = (s1, f1)" and set: "set names = {x \<in> dom (imap c). sn_generation s < gen_at (imap c) x}"
    using snap_loop_ok [OF inv] by blast
  have im: "\<forall>name i nd. imap c name = Some i \<longrightarrow> ni_node i = Some nd \<longrightarrow> n_Name nd = name"
    using inv by (fastforce simp: sc_inv_def im_ok_def info_ok_def)
  note l1 = snap_names_ok [OF wf im nm]
  define s2 where "s2 = (case sc_headNode c of None \<Rightarrow> s1 | Some h \<Rightarrow> (case sc_nodes c h of None \<Rightarrow> s1 | Some n \<Rightarrow> s1\<lparr>sn_generation := ni_Generation (li_info n)\<rparr>))"
  have f2: "sn_store s2 = sn_store s1" "sn_nodeInfoMap s2 = sn_nodeInfoMap s1" "sn_fresh s2 = sn_fresh s1" "sn_nodeInfoList s2 = sn_nodeInfoList s1"
    "sn_havePodsWithAffinityNodeInfoList s2 = sn_havePodsWithAffinityNodeInfoList s1"
    "sn_havePodsWithRequiredAntiAffinityNodeInfoList s2 = sn_havePodsWithRequiredAntiAffinityNodeInfoList s1"
    by (simp_all add: s2_def split: option.split)
  have g2: "0 \<le> sn_generation s2 \<and> sn_generation s2 \<le> sc_gen c"
  proof -
    have "0 < ni_Generation (li_info n) \<and> ni_Generation (li_info n) \<le> sc_gen c" if "sc_nodes c h = Some n" for h n
      using inv that by (force simp: sc_inv_def list_inv_def gens_ok_def imap_def)
    moreover have "0 \<le> sn_generation s1 \<and> sn_generation s1 \<le> sc_gen c" using l1 date by (simp add: in_date_def)
    ultimately show ?thesis by (fastforce simp: s2_def split: option.split)
  qed
  have c2: "contents s2 = contents s1" using same_store(3) [OF f2(1,2)] .
  have w2: "sn_wf s2" using l1 f2 by (simp add: sn_wf_def)
  have live: "contents s2 z = imap c z" if "node_at (imap c) z \<noteq> None" for z
    using after_loop [OF inv date set, of s1 z] l1 that c2 by simp
  have ord2: "range_order (order s2) (sn_nodeInfoMap s2)" using ord w2 by (simp add: map_orders_def sn_wf_def)
  define extra where "extra = int (length (order s2)) - nt_numNodes (sc_nodeTree c)"
  define s3 where "s3 = (if extra > 0 then removeDeletedNodesFromSnapshot (sc_nodes c) (order s2) extra s2 else s2)"
  note d = drop_dead [OF inv w2 live ord2 extra_def s3_def]
  define all where "all \<longleftrightarrow> extra > 0 \<or> updateAllLists f1"
  have keep: "s3 = s2 \<and> sn_nodeInfoMap s2 = sn_nodeInfoMap s \<and> sn_nodeInfoList s2 = sn_nodeInfoList s" if "\<not> all"
    using that d(3) l1 f2 by (simp add: all_def)
  have lok: "lists_ok s3" if "\<not> (all \<or> updateNodesHavePodsWithAffinity f1 \<or> updateNodesHavePodsWithRequiredAntiAffinity f1)"
  proof -
    have "\<forall>z. fst (aff_status (contents s2 z)) = fst (aff_status (contents s z))" "\<forall>z. snd (aff_status (contents s2 z)) = snd (aff_status (contents s z))"
      unfolding c2 using l1 that by blast+
    from lists_ok_unchanged [OF ok _ _ _ _ this] show ?thesis using that keep l1 f2 by simp
  qed
  have same: "distinct (sn_nodeInfoList s3) \<and> set (sn_nodeInfoList s3) = ran (sn_nodeInfoMap s3)" if "\<not> all"
    using keep [OF that] ok by (simp add: lists_ok_def)
  obtain s4 where s4: "(if all \<or> updateNodesHavePodsWithAffinity f1 \<or> updateNodesHavePodsWithRequiredAntiAffinity f1
      then updateNodeInfoSnapshotList (sc_nodeTree c) s3 all else Some s3) = Some s4"
    and r: "lists_ok s4" "sn_wf s4" "contents s4 = live_map (imap c)" "sn_generation s4 = sn_generation s3"
    using update_lists [OF inv d(1,2) same lok] by blast
  have "UpdateSnapshot order c s = Some (s4, None)"
    unfolding UpdateSnapshot_def Let_def run Option.bind.bind_lunit prod.case s2_def [symmetric] extra_def [symmetric]
      s3_def [symmetric] all_def [symmetric] s4
    using live_map_length [OF inv r(2,1,3)] by simp
  then show ?thesis using r in_date_live_map [OF inv r(3)] g2 d(4) by simp
qed

section \<open>Histories with snapshots\<close>

text \<open>The scheduler takes its snapshots between the operations of the event handlers.\<close>

inductive snap_reachable :: "feature_gates \<Rightarrow> (Snapshot \<Rightarrow> string list) \<Rightarrow> schedulerCache \<Rightarrow> Snapshot \<Rightarrow> bool" for g order where
  snap_new: "0 \<le> gen \<Longrightarrow> snap_reachable g order (newSchedulerCache gen ttl period) NewEmptySnapshot"
| snap_cache: "snap_reachable g order c s \<Longrightarrow> sc_allowed x c \<Longrightarrow> sc_step g x c = Some (c', err) \<Longrightarrow> snap_reachable g order c' s"
| snap_take: "snap_reachable g order c s \<Longrightarrow> UpdateSnapshot order c s = Some (s', err) \<Longrightarrow> snap_reachable g order c s'"

lemma snap_reachable_inv:
  "snap_reachable g order c s \<Longrightarrow> map_orders order \<Longrightarrow> sc_inv g c \<and> sn_wf s \<and> lists_ok s \<and> in_date c s"
proof (induction rule: snap_reachable.induct)
  case (snap_new gen ttl period)
  then show ?case using sc_inv_new [of gen g ttl period]
    by (simp add: sn_wf_def lists_ok_def in_date_def NewEmptySnapshot_def newSchedulerCache_def imap_def)
next
  case (snap_cache c s x c' err)
  then show ?case using sc_step_ok [of g c x] in_date_evolves [of c s c'] by auto
next
  case (snap_take c s s' err)
  then show ?case using UpdateSnapshot_ok [of g c s order] by auto
qed

lemma list_contents:
  assumes "sn_wf s" "lists_ok s"
  shows "image_mset Some (mset (sn_List s)) = image_mset (contents s) (mset_set (dom (contents s)))"
proof -
  let ?m = "sn_nodeInfoMap s"
  have r: "Some ` ran ?m = ?m ` dom ?m" by (force simp: ran_def)
  have "image_mset Some (mset (sn_nodeInfoList s)) = image_mset Some (mset_set (ran ?m))"
    using assms(2) by (simp add: lists_ok_def mset_set_set [symmetric])
  also have "\<dots> = mset_set (Some ` ran ?m)" by (simp add: image_mset_mset_set)
  also have "\<dots> = image_mset ?m (mset_set (dom ?m))" unfolding r using assms(1) by (simp add: sn_wf_def image_mset_mset_set)
  finally have "image_mset (map_option (sn_info s)) (image_mset Some (mset (sn_nodeInfoList s))) =
      image_mset (map_option (sn_info s)) (image_mset ?m (mset_set (dom ?m)))" by simp
  then show ?thesis
    unfolding dom_contents by (simp add: sn_List_def contents_def [abs_def] image_mset.compositionality comp_def)
qed

lemma affinity_lists:
  assumes "lists_ok s"
  shows "sn_HavePodsWithAffinityList s = filter (\<lambda>i. ni_PodsWithAffinity i \<noteq> []) (sn_List s)"
    "sn_HavePodsWithRequiredAntiAffinityList s = filter (\<lambda>i. ni_PodsWithRequiredAntiAffinity i \<noteq> []) (sn_List s)"
  using assms by (simp_all add: sn_HavePodsWithAffinityList_def sn_HavePodsWithRequiredAntiAffinityList_def sn_List_def lists_ok_def
      filter_map comp_def with_affinity_def [abs_def] with_anti_affinity_def [abs_def])

lemma Get_contents: "sn_Get s name = (case contents s name of None \<Rightarrow> Inl (Errorf ''nodeinfo not found for node name'')
    | Some i \<Rightarrow> if ni_node i \<noteq> None then Inr i else Inl (Errorf ''nodeinfo not found for node name''))"
  by (simp add: sn_Get_def contents_def split: option.split)

text \<open>C1: After any history of cache operations and snapshots, \<open>UpdateSnapshot\<close> returns without an error, and
  the snapshot is exact although only what changed was copied: \<open>Get\<close> finds a node if and only if it
  is live in the cache, with the very information the cache has; \<open>List\<close> has each live node
  once; the two affinity lists are the nodes of \<open>List\<close> that have such pods.\<close>

theorem snapshot_exact:
  assumes "snap_reachable g order c s" "map_orders order"
  shows "\<exists>s'. UpdateSnapshot order c s = Some (s', None) \<and>
    (\<forall>name. sn_Get s' name =
       (case imap c name of
          None \<Rightarrow> Inl (Errorf ''nodeinfo not found for node name'')
        | Some i \<Rightarrow> if ni_node i \<noteq> None then Inr i else Inl (Errorf ''nodeinfo not found for node name''))) \<and>
    image_mset Some (mset (sn_List s')) = image_mset (imap c) (mset_set {name. node_at (imap c) name \<noteq> None}) \<and>
    sn_HavePodsWithAffinityList s' = filter (\<lambda>i. ni_PodsWithAffinity i \<noteq> []) (sn_List s') \<and>
    sn_HavePodsWithRequiredAntiAffinityList s' = filter (\<lambda>i. ni_PodsWithRequiredAntiAffinity i \<noteq> []) (sn_List s')"
proof -
  obtain s' where r: "UpdateSnapshot order c s = Some (s', None)" "sn_wf s'" "lists_ok s'" "contents s' = live_map (imap c)"
    using UpdateSnapshot_ok snap_reachable_inv [OF assms] assms(2) by blast
  have T: "tree_ok (sc_nodeTree c) (imap c)" using snap_reachable_inv [OF assms] by (simp add: sc_inv_def)
  have "sn_Get s' name = (case imap c name of None \<Rightarrow> Inl (Errorf ''nodeinfo not found for node name'')
      | Some i \<Rightarrow> if ni_node i \<noteq> None then Inr i else Inl (Errorf ''nodeinfo not found for node name''))" for name
    by (simp add: Get_contents r(4) live_map_def node_at_def split: option.split)
  moreover have "image_mset (live_map (imap c)) (mset_set {name. node_at (imap c) name \<noteq> None}) =
      image_mset (imap c) (mset_set {name. node_at (imap c) name \<noteq> None})"
    by (rule image_mset_cong) (use numNodes_live(2) T in \<open>simp add: live_map_def\<close>)
  then have "image_mset Some (mset (sn_List s')) = image_mset (imap c) (mset_set {name. node_at (imap c) name \<noteq> None})"
    using list_contents [OF r(2,3)] unfolding r(4) dom_live_map by simp
  ultimately show ?thesis using r(1) affinity_lists [OF r(3)] by blast
qed

definition sorted_order :: "Snapshot \<Rightarrow> string list" where
  "sorted_order s = sorted_list_of_set (dom (sn_nodeInfoMap s))"

lemma sorted_order_ok: "map_orders sorted_order"
  by (simp add: map_orders_def sorted_order_def range_order_def)

definition sample_node :: node where
  "sample_node = \<lparr>n_Name = ''n1'', n_Labels = Map.empty, n_Unschedulable = False, n_Taints = [], n_Allocatable = [], n_Images = [], n_Conditions = []\<rparr>"

lemma sample_history:
  "\<exists>c s. snap_reachable sample_gates sorted_order c s \<and> s \<noteq> NewEmptySnapshot \<and> (\<exists>i. imap c ''n1'' = Some i \<and> map_option n_Name (ni_node i) = Some ''n1'')"
proof -
  let ?empty = "newSchedulerCache 0 30 1"
  let ?c = "sc_AddNode sample_gates ?empty sample_node"
  have r0: "snap_reachable sample_gates sorted_order ?empty NewEmptySnapshot" by (rule snap_new) simp
  have al: "sc_allowed (ScAddNode sample_node) ?empty" by (simp add: newSchedulerCache_def imap_def node_at_def)
  have "sc_step sample_gates (ScAddNode sample_node) ?empty = Some (?c, None)" by simp
  note r1 = snap_cache [OF r0 al this]
  have live: "case imap ?c ''n1'' of None \<Rightarrow> False | Some i \<Rightarrow> (case ni_node i of None \<Rightarrow> False | Some nd \<Rightarrow> n_Name nd = ''n1'')"
    by code_simp
  have i: "\<exists>i. imap ?c ''n1'' = Some i \<and> map_option n_Name (ni_node i) = Some ''n1''"
    using live by (auto split: option.splits)
  obtain s where s: "UpdateSnapshot sorted_order ?c NewEmptySnapshot = Some (s, None)" "contents s = live_map (imap ?c)"
    using UpdateSnapshot_ok snap_reachable_inv [OF r1 sorted_order_ok] sorted_order_ok by blast
  have "contents s ''n1'' \<noteq> contents NewEmptySnapshot ''n1''"
    using i unfolding s(2) by (auto simp: live_map_def node_at_def contents_def NewEmptySnapshot_def)
  then have "s \<noteq> NewEmptySnapshot" by auto
  then show ?thesis using snap_take [OF r1 s(1)] i by blast
qed

theorem snapshot_exact_witness:
  "\<exists>c s s' i. snap_reachable sample_gates sorted_order c s \<and> s \<noteq> NewEmptySnapshot \<and>
     UpdateSnapshot sorted_order c s = Some (s', None) \<and> sn_Get s' ''n1'' = Inr i \<and> map_option n_Name (ni_node i) = Some ''n1''"
proof -
  obtain c s i where r: "snap_reachable sample_gates sorted_order c s" "s \<noteq> NewEmptySnapshot" "imap c ''n1'' = Some i" "map_option n_Name (ni_node i) = Some ''n1''"
    using sample_history by blast
  from snapshot_exact [OF r(1) sorted_order_ok] obtain s' where "UpdateSnapshot sorted_order c s = Some (s', None)"
    "sn_Get s' ''n1'' = (case imap c ''n1'' of None \<Rightarrow> Inl (Errorf ''nodeinfo not found for node name'')
        | Some i \<Rightarrow> if ni_node i \<noteq> None then Inr i else Inl (Errorf ''nodeinfo not found for node name''))" by blast
  moreover from this have "sn_Get s' ''n1'' = Inr i" using r(3,4) by auto
  ultimately show ?thesis using r by blast
qed

end
