(* ===== verification/Cache_Histories.thy ===== *)
theory Cache_Histories
  imports Snapshot_Correct
begin

text \<open>
  What the histories of the scheduler cache show: no operation panics or breaks the agreement of
  list, tree and pod states, the cleanup expires exactly the pods whose binding is finished and
  whose deadline has passed, and forgetting undoes assuming.
\<close>

section \<open>Consistency\<close>

text \<open>C2: After any history of the cache, each operation that keeps to the protocol of the event handlers
  returns (no panic, no call of \<open>klog.Fatalf\<close>), and afterwards: the items are linked into one list, most
  recently updated first; the node tree holds exactly the live nodes, by zone; a pod is on a node if and
  only if its state says so.\<close>

theorem cache_consistent:
  assumes "sc_reachable g c" "sc_allowed x c"
  shows "\<exists>c' err. sc_step g x c = Some (c', err) \<and>
    (\<exists>xs. dll (sc_nodes c') (sc_headNode c') xs \<and> set xs = dom (sc_nodes c') \<and>
       sorted_wrt (\<lambda>a b. gen_at (imap c') a > gen_at (imap c') b) xs) \<and>
    nt_pairs (sc_nodeTree c') = {(z, name). \<exists>nd. node_at (imap c') name = Some nd \<and> z = GetZoneKey nd} \<and>
    (\<forall>key name. (\<exists>p \<in> set (pods_at (imap c') name). p_UID (pi_Pod p) = key) \<longleftrightarrow>
       (\<exists>st. sc_podStates c' key = Some st \<and> p_NodeName (ps_pod st) = name))"
proof -
  obtain c' err where r: "sc_step g x c = Some (c', err)" "sc_inv g c'"
    using sc_step_ok [OF sc_reachable_inv] assms by blast
  have P: "pods_ok (podset (imap c')) (sc_podStates c')" using r(2) by (simp add: sc_inv_def)
  have "(\<exists>p \<in> set (pods_at (imap c') name). p_UID (pi_Pod p) = key) \<longleftrightarrow>
      (\<exists>st. sc_podStates c' key = Some st \<and> p_NodeName (ps_pod st) = name)" for key name
  proof
    assume "\<exists>p \<in> set (pods_at (imap c') name). p_UID (pi_Pod p) = key"
    then obtain p where "(name, p) \<in> podset (imap c')" "p_UID (pi_Pod p) = key" by (auto simp: podset_def)
    then show "\<exists>st. sc_podStates c' key = Some st \<and> p_NodeName (ps_pod st) = name" using P unfolding pods_ok_def by metis
  next
    assume "\<exists>st. sc_podStates c' key = Some st \<and> p_NodeName (ps_pod st) = name"
    then obtain p where "(name, p) \<in> podset (imap c')" "p_UID (pi_Pod p) = key" using P unfolding pods_ok_def by metis
    then show "\<exists>p \<in> set (pods_at (imap c') name). p_UID (pi_Pod p) = key" by (auto simp: podset_def)
  qed
  then show ?thesis using r by (auto simp: sc_inv_def list_inv_def lst_def newest_first_def tree_ok_def live_pairs_def)
qed

section \<open>Expiry\<close>

definition expired :: "int \<Rightarrow> podState option \<Rightarrow> bool" where
  "expired now o_st = (case o_st of None \<Rightarrow> False
     | Some st \<Rightarrow> ps_bindingFinished st \<and> (case ps_deadline st of None \<Rightarrow> False | Some d \<Rightarrow> d < now))"

lemma cleanup_effect:
  "sc_inv g c \<Longrightarrow> distinct keys \<Longrightarrow> set keys \<subseteq> sc_assumedPods c \<Longrightarrow>
    \<exists>c'. cleanupAssumedPods g keys now c = Some c' \<and>
      sc_podStates c' = (\<lambda>key. if key \<in> set keys \<and> expired now (sc_podStates c key) then None else sc_podStates c key) \<and>
      sc_assumedPods c' = {key \<in> sc_assumedPods c. \<not> (key \<in> set keys \<and> expired now (sc_podStates c key))}"
proof (induction keys arbitrary: c)
  case (Cons key keys)
  obtain st where st: "sc_podStates c key = Some st" "ps_bindingFinished st \<longrightarrow> ps_deadline st \<noteq> None"
    using Cons.prems by (auto simp: sc_inv_def assumed_ok_def)
  show ?case
  proof (cases "expired now (sc_podStates c key)")
    case False
    then have "cleanupAssumedPods g (key # keys) now c = cleanupAssumedPods g keys now c"
      using st by (auto simp: expired_def split: option.splits)
    moreover have "(k \<in> set (key # keys) \<and> expired now (sc_podStates c k)) = (k \<in> set keys \<and> expired now (sc_podStates c k))" for k
      using False by auto
    ultimately show ?thesis using Cons.IH [OF Cons.prems(1)] Cons.prems(2,3) by simp
  next
    case True
    then obtain d where d: "ps_bindingFinished st" "ps_deadline st = Some d" "d < now"
      using st by (auto simp: expired_def split: option.splits)
    obtain c1 where c1: "expirePod g c key st = Some (c1, None)" "sc_inv g c1"
      "sc_podStates c1 = (sc_podStates c)(key := None)" "sc_assumedPods c1 = sc_assumedPods c - {key}"
      using expirePod_ok [OF Cons.prems(1) st(1)] by blast
    have sub: "distinct keys" "set keys \<subseteq> sc_assumedPods c1" "key \<notin> set keys" using Cons.prems(2,3) c1(4) by auto
    obtain c' where c': "cleanupAssumedPods g keys now c1 = Some c'"
      "sc_podStates c' = (\<lambda>k. if k \<in> set keys \<and> expired now (sc_podStates c1 k) then None else sc_podStates c1 k)"
      "sc_assumedPods c' = {k \<in> sc_assumedPods c1. \<not> (k \<in> set keys \<and> expired now (sc_podStates c1 k))}"
      using Cons.IH [OF c1(2) sub(1,2)] by blast
    have "cleanupAssumedPods g (key # keys) now c = Some c'" using st d c1(1) c'(1) by simp
    moreover have "sc_podStates c' = (\<lambda>k. if k \<in> set (key # keys) \<and> expired now (sc_podStates c k) then None else sc_podStates c k)"
      unfolding c'(2) c1(3) using True sub(3) by auto
    moreover have "sc_assumedPods c' = {k \<in> sc_assumedPods c. \<not> (k \<in> set (key # keys) \<and> expired now (sc_podStates c k))}"
      unfolding c'(3) c1(3,4) using True sub(3) by auto
    ultimately show ?thesis by blast
  qed
qed simp

text \<open>C10: A run of the cleanup, in whatever order the assumed pods are visited, drops exactly the
  assumed pods whose binding is finished and whose deadline has passed; all other states are kept.\<close>

theorem cleanup_exact:
  assumes "sc_reachable g c" "distinct keys" "set keys = sc_assumedPods c"
  shows "\<exists>c'. cleanupAssumedPods g keys now c = Some c' \<and>
    (\<forall>key. sc_podStates c' key = (if key \<in> sc_assumedPods c \<and> expired now (sc_podStates c key) then None else sc_podStates c key)) \<and>
    sc_assumedPods c' = {key \<in> sc_assumedPods c. \<not> expired now (sc_podStates c key)}"
proof -
  obtain c' where "cleanupAssumedPods g keys now c = Some c'"
    "sc_podStates c' = (\<lambda>key. if key \<in> set keys \<and> expired now (sc_podStates c key) then None else sc_podStates c key)"
    "sc_assumedPods c' = {key \<in> sc_assumedPods c. \<not> (key \<in> set keys \<and> expired now (sc_podStates c key))}"
    using cleanup_effect [OF sc_reachable_inv [OF assms(1)] assms(2)] assms(3) by blast
  then show ?thesis unfolding assms(3) by auto
qed

section \<open>Assume and forget\<close>

text \<open>Forgetting undoes assuming: for a pod the cache does not know, \<open>AssumePod\<close> and then
  \<open>ForgetPod\<close> both succeed and leave the pod states, the assumed set and the pods of every node as they
  were.\<close>

theorem assume_forget:
  assumes "sc_reachable g c" "p_UID pod \<noteq> []" "sc_podStates c (p_UID pod) = None"
  shows "\<exists>c1 c2. sc_AssumePod g c pod = Some (c1, None) \<and> sc_IsAssumedPod c1 pod = Inr True \<and> sc_GetPod c1 pod = Inr pod \<and>
    sc_ForgetPod g c1 pod = Some (c2, None) \<and> sc_podStates c2 = sc_podStates c \<and> sc_assumedPods c2 = sc_assumedPods c \<and>
    (\<forall>name. set (pods_at (imap c2) name) = set (pods_at (imap c) name))"
proof -
  let ?u = "p_UID pod" and ?a = "sc_addPod g c pod" and ?st = "\<lparr>ps_pod = pod, ps_deadline = None, ps_bindingFinished = False\<rparr>"
  have inv: "sc_inv g c" using sc_reachable_inv [OF assms(1)] .
  then have W: "work_inv g c" and P: "pods_ok (podset (imap c)) (sc_podStates c)" by (simp_all add: sc_inv_iff)
  have fresh: "p_UID (pi_Pod x) \<noteq> ?u" if "(p_NodeName pod, x) \<in> podset (imap c)" for x
    using pods_ok_fresh [OF P assms(3) that] .
  note a = addPod_ok [OF W assms(2) fresh]
  have same: "sc_podStates ?a = sc_podStates c" "sc_assumedPods ?a = sc_assumedPods c" using a(4) by (simp_all add: same_pods_def)
  define c1 where "c1 = ?a\<lparr>sc_podStates := (sc_podStates ?a)(?u \<mapsto> ?st), sc_assumedPods := insert ?u (sc_assumedPods ?a)\<rparr>"
  have r1: "sc_AssumePod g c pod = Some (c1, None)" using assms(2,3) by (simp add: sc_AssumePod_def GetPodKey_def Let_def c1_def)
  have im: "imap c1 = imap ?a" "work_inv g c1" using a(1) by (simp_all add: c1_def pod_fields_only)
  have "(p_NodeName pod, NewPodInfo pod) \<in> podset (imap c1)" "p_UID (pi_Pod (NewPodInfo pod)) = ?u" "same_spec (pi_Pod (NewPodInfo pod)) pod"
    using a(2) im by (simp_all add: NewPodInfo_def same_spec_def)
  from removePod_ok [OF im(2) this] obtain c' where c': "sc_removePod g c1 pod = Some (c', None)"
    "podset (imap c') = podset (imap c1) - {(p_NodeName pod, NewPodInfo pod)}" "same_pods c1 c'" by blast
  define c2 where "c2 = c'\<lparr>sc_assumedPods := sc_assumedPods c' - {?u}, sc_podStates := (sc_podStates c')(?u := None)\<rparr>"
  have r2: "sc_ForgetPod g c1 pod = Some (c2, None)"
    using c'(1) assms(2) by (simp add: sc_ForgetPod_def GetPodKey_def c2_def) (simp add: c1_def)
  have "?u \<notin> sc_assumedPods c" using inv assms(3) by (auto simp: sc_inv_def assumed_ok_def)
  then have "sc_assumedPods c2 = sc_assumedPods c" using c'(3) by (simp add: c2_def same_pods_def c1_def same)
  moreover have "sc_podStates c2 = sc_podStates c" using c'(3) assms(3) by (auto simp: c2_def same_pods_def c1_def same)
  moreover have "(p_NodeName pod, NewPodInfo pod) \<notin> podset (imap c)" using fresh [of "NewPodInfo pod"] by (auto simp: NewPodInfo_def)
  then have "podset (imap c2) = podset (imap c)" unfolding c2_def by (simp add: pod_fields_only c'(2) im(1) a(2))
  then have "set (pods_at (imap c2) name) = set (pods_at (imap c) name)" for name by (auto simp: podset_def set_eq_iff)
  moreover have "sc_IsAssumedPod c1 pod = Inr True" "sc_GetPod c1 pod = Inr pod"
    using assms(2) by (simp_all add: sc_IsAssumedPod_def sc_GetPod_def GetPodKey_def c1_def)
  ultimately show ?thesis using r1 r2 by blast
qed

section \<open>A concrete history\<close>

definition assumed_cache :: schedulerCache where
  "assumed_cache = fst (the (sc_AssumePod sample_gates (newSchedulerCache 0 30 1) (sample_pod ''a'' 80 100)))"

definition bound_cache :: schedulerCache where
  "bound_cache = fst (sc_finishBinding assumed_cache (sample_pod ''a'' 80 100) 5)"

lemma empty_reachable: "sc_reachable sample_gates (newSchedulerCache 0 30 1)"
  by (rule sc_new) simp

lemma assumed_reachable: "sc_reachable sample_gates assumed_cache"
proof -
  have "sc_AssumePod sample_gates (newSchedulerCache 0 30 1) (sample_pod ''a'' 80 100) = Some (assumed_cache, None)"
    by (simp add: assumed_cache_def sc_AssumePod_def GetPodKey_def sample_pod_def newSchedulerCache_def Let_def)
  then have "sc_step sample_gates (ScAssume (sample_pod ''a'' 80 100)) (newSchedulerCache 0 30 1) = Some (assumed_cache, None)" by simp
  then show ?thesis by (rule sc_next [OF empty_reachable, rotated]) simp
qed

lemma bound_reachable: "sc_reachable sample_gates bound_cache"
proof -
  have "sc_step sample_gates (ScFinishBinding (sample_pod ''a'' 80 100) 5) assumed_cache =
      Some (bound_cache, snd (sc_finishBinding assumed_cache (sample_pod ''a'' 80 100) 5))" by (simp add: bound_cache_def)
  then show ?thesis by (rule sc_next [OF assumed_reachable, rotated]) simp
qed

lemma bound_state: "sc_assumedPods bound_cache = {''a''}" "map_option ps_deadline (sc_podStates bound_cache ''a'') = Some (Some 35)"
  "map_option ps_bindingFinished (sc_podStates bound_cache ''a'') = Some True"
  by code_simp+

theorem cache_consistent_witness:
  "\<exists>c' err. sc_step sample_gates (ScAddNode sample_node) bound_cache = Some (c', err) \<and>
     (\<exists>xs. dll (sc_nodes c') (sc_headNode c') xs \<and> set xs = dom (sc_nodes c'))"
proof -
  have none: "case node_at (imap bound_cache) (n_Name sample_node) of None \<Rightarrow> True | Some nd \<Rightarrow> False" by code_simp
  have "sc_allowed (ScAddNode sample_node) bound_cache" using none by (simp split: option.splits)
  then show ?thesis using cache_consistent [OF bound_reachable, of "ScAddNode sample_node"] by blast
qed

theorem cleanup_exact_witness:
  "\<exists>c'. cleanupAssumedPods sample_gates [''a''] 36 bound_cache = Some c' \<and> sc_podStates c' ''a'' = None \<and> sc_assumedPods c' = {}"
proof -
  have e: "expired 36 (sc_podStates bound_cache ''a'')" using bound_state(2,3) by (auto simp: expired_def)
  have "distinct [''a'']" "set [''a''] = sc_assumedPods bound_cache" by (simp_all add: bound_state(1))
  from cleanup_exact [OF bound_reachable this, of 36] obtain c' where
    c': "cleanupAssumedPods sample_gates [''a''] 36 bound_cache = Some c'"
    "\<forall>key. sc_podStates c' key = (if key \<in> sc_assumedPods bound_cache \<and> expired 36 (sc_podStates bound_cache key) then None else sc_podStates bound_cache key)"
    "sc_assumedPods c' = {key \<in> sc_assumedPods bound_cache. \<not> expired 36 (sc_podStates bound_cache key)}" by blast
  have "sc_podStates c' ''a'' = None" using c'(2) e bound_state(1) by simp
  moreover have "sc_assumedPods c' = {}" using e unfolding c'(3) bound_state(1) by simp
  ultimately show ?thesis using c'(1) by blast
qed

theorem assume_forget_witness:
  "\<exists>c1 c2. sc_AssumePod sample_gates bound_cache (sample_pod ''b'' 81 250) = Some (c1, None) \<and>
     sc_ForgetPod sample_gates c1 (sample_pod ''b'' 81 250) = Some (c2, None) \<and> sc_assumedPods c2 = {''a''}"
proof -
  have "case sc_podStates bound_cache ''b'' of None \<Rightarrow> True | Some st \<Rightarrow> False" by code_simp
  then have st: "sc_podStates bound_cache (p_UID (sample_pod ''b'' 81 250)) = None" by (simp add: sample_pod_def split: option.splits)
  have "p_UID (sample_pod ''b'' 81 250) \<noteq> []" by (simp add: sample_pod_def)
  from assume_forget [OF bound_reachable this st] show ?thesis
    unfolding bound_state(1) by (elim exE conjE) (intro exI conjI)
qed

end
