(* ===== verification/Label_Selectors.thy ===== *)
theory Label_Selectors
  imports Name_Validation "HOL-Library.List_Lexorder" "HOL-Library.Char_ord"
begin

text \<open>
  Label selectors (\<open>staging/src/k8s.io/apimachinery/pkg/labels/selector.go\<close>, \<open>labels.go\<close> and the
  conversions of \<open>pkg/apis/meta/v1/helpers.go\<close>): matching, printing, the lexer and the parser.

  Go strings are byte strings and compare bytewise, as lists of characters do here. The parser
  holds the scanned items from its position on; reading past the last one is the panic of an
  index out of range. \<open>sort.Sort\<close> is not stable, so sorting requirements by key is an argument
  \<open>srt\<close> of the operations that do it. Error messages leave out the values they quote.
\<close>

section \<open>Labels\<close>

type_synonym label_set = "string \<rightharpoonup> string"

definition Set_Has :: "label_set \<Rightarrow> string \<Rightarrow> bool" where
  "Set_Has ls label = (ls label \<noteq> None)"

definition Set_Get :: "label_set \<Rightarrow> string \<Rightarrow> string" where
  "Set_Get ls label = (case ls label of None \<Rightarrow> [] | Some v \<Rightarrow> v)"

fun Join :: "string list \<Rightarrow> string \<Rightarrow> string" where
  "Join [] sep = []"
| "Join [x] sep = x"
| "Join (x # y # xs) sep = x @ sep @ Join (y # xs) sep"

text \<open>The argument \<open>ks\<close> is the order in which the loop ranges over the map.\<close>

definition Set_String :: "string list \<Rightarrow> label_set \<Rightarrow> string" where
  "Set_String ks ls = Join (sort (map (\<lambda>k. k @ ''='' @ Set_Get ls k) ks)) '',''"

definition FormatLabels :: "string list \<Rightarrow> label_set \<Rightarrow> string" where
  "FormatLabels ks ls = (let l = Set_String ks ls in if l = [] then ''<none>'' else l)"

text \<open>\<open>ks1\<close> and \<open>ks2\<close> list the keys of the two maps; the loop runs over the smaller one.\<close>

definition Conflicts :: "string list \<Rightarrow> string list \<Rightarrow> label_set \<Rightarrow> label_set \<Rightarrow> bool" where
  "Conflicts ks1 ks2 labels1 labels2 =
     (let (ks, small, big) = (if length ks2 < length ks1 then (ks2, labels2, labels1) else (ks1, labels1, labels2)) in
      list_ex (\<lambda>k. case big k of None \<Rightarrow> False | Some val \<Rightarrow> val \<noteq> Set_Get small k) ks)"

definition Merge :: "string list \<Rightarrow> string list \<Rightarrow> label_set \<Rightarrow> label_set \<Rightarrow> label_set" where
  "Merge ks1 ks2 labels1 labels2 =
     foldl (\<lambda>m k. m(k \<mapsto> Set_Get labels2 k)) (foldl (\<lambda>m k. m(k \<mapsto> Set_Get labels1 k)) Map.empty ks1) ks2"

definition labels_Equals :: "string list \<Rightarrow> string list \<Rightarrow> label_set \<Rightarrow> label_set \<Rightarrow> bool" where
  "labels_Equals ks1 ks2 labels1 labels2 =
     (if length ks1 \<noteq> length ks2 then False
      else list_all (\<lambda>k. case labels2 k of None \<Rightarrow> False | Some v \<Rightarrow> v = Set_Get labels1 k) ks1)"

section \<open>Integers in strings\<close>

text \<open>\<open>strconv.ParseInt(s, 10, 64)\<close>: an optional sign, at least one digit, and a value in range.\<close>

definition is_digit :: "char \<Rightarrow> bool" where
  "is_digit ch \<longleftrightarrow> CHR ''0'' \<le> ch \<and> ch \<le> CHR ''9''"

fun digits_value :: "nat \<Rightarrow> string \<Rightarrow> nat option" where
  "digits_value acc [] = Some acc"
| "digits_value acc (ch # cs) = (if is_digit ch then digits_value (10 * acc + (of_char ch - 48)) cs else None)"

definition ParseInt :: "string \<Rightarrow> int option" where
  "ParseInt s =
     (let (neg, ds) = (case s of
            ch # cs \<Rightarrow> (if ch = CHR ''-'' then (True, cs) else if ch = CHR ''+'' then (False, cs) else (False, s))
          | [] \<Rightarrow> (False, s)) in
      if ds = [] then None
      else
        (case digits_value 0 ds of
           None \<Rightarrow> None
         | Some n \<Rightarrow> (let i = (if neg then - int n else int n) in if in_int64 i then Some i else None)))"

section \<open>Requirements\<close>

datatype Operator = DoesNotExist | Equals | DoubleEquals | In | NotEquals | NotIn | Exists | GreaterThan | LessThan
  | OtherOperator string

record Requirement =
  rq_key :: string
  rq_operator :: Operator
  rq_strValues :: "string list"

definition validateLabelKey :: "string \<Rightarrow> go_error option" where
  "validateLabelKey k = (let errs = IsQualifiedName k in if length errs \<noteq> 0 then Some (Errorf (Join errs ''; '')) else None)"

definition validateLabelValue :: "string \<Rightarrow> go_error option" where
  "validateLabelValue v = (let errs = IsValidLabelValue v in if length errs \<noteq> 0 then Some (Errorf (Join errs ''; '')) else None)"

text \<open>The errors of the values for an operator, by the cases of the switch.\<close>

definition operator_errors :: "Operator \<Rightarrow> string list \<Rightarrow> go_error list" where
  "operator_errors op vals =
     (case op of
        In \<Rightarrow> (if length vals = 0 then [Errorf ''for in, notin operators, values set can not be empty''] else [])
      | NotIn \<Rightarrow> (if length vals = 0 then [Errorf ''for in, notin operators, values set can not be empty''] else [])
      | Equals \<Rightarrow> (if length vals \<noteq> 1 then [Errorf ''exact-match compatibility requires one single value''] else [])
      | DoubleEquals \<Rightarrow> (if length vals \<noteq> 1 then [Errorf ''exact-match compatibility requires one single value''] else [])
      | NotEquals \<Rightarrow> (if length vals \<noteq> 1 then [Errorf ''exact-match compatibility requires one single value''] else [])
      | Exists \<Rightarrow> (if length vals \<noteq> 0 then [Errorf ''values set must be empty for exists and does not exist''] else [])
      | DoesNotExist \<Rightarrow> (if length vals \<noteq> 0 then [Errorf ''values set must be empty for exists and does not exist''] else [])
      | GreaterThan \<Rightarrow>
          (if length vals \<noteq> 1 then [Errorf ''for Gt, Lt operators, exactly one value is required''] else []) @
          concat (map (\<lambda>v. if ParseInt v = None then [Errorf ''for Gt, Lt operators, the value must be an integer''] else []) vals)
      | LessThan \<Rightarrow>
          (if length vals \<noteq> 1 then [Errorf ''for Gt, Lt operators, exactly one value is required''] else []) @
          concat (map (\<lambda>v. if ParseInt v = None then [Errorf ''for Gt, Lt operators, the value must be an integer''] else []) vals)
      | OtherOperator _ \<Rightarrow> [Errorf ''unsupported operator''])"

text \<open>The requirement is returned together with the aggregate of the errors.\<close>

definition NewRequirement :: "string \<Rightarrow> Operator \<Rightarrow> string list \<Rightarrow> Requirement \<times> go_error list" where
  "NewRequirement key op vals =
     (\<lparr>rq_key = key, rq_operator = op, rq_strValues = vals\<rparr>,
      (case validateLabelKey key of None \<Rightarrow> [] | Some err \<Rightarrow> [err]) @
      operator_errors op vals @
      concat (map (\<lambda>v. case validateLabelValue v of None \<Rightarrow> [] | Some err \<Rightarrow> [err]) vals))"

definition hasValue :: "Requirement \<Rightarrow> string \<Rightarrow> bool" where
  "hasValue r v = list_ex (\<lambda>x. x = v) (rq_strValues r)"

definition compare_ints :: "Requirement \<Rightarrow> label_set \<Rightarrow> bool" where
  "compare_ints r ls =
     (if \<not> Set_Has ls (rq_key r) then False
      else
        (case ParseInt (Set_Get ls (rq_key r)) of
           None \<Rightarrow> False
         | Some lsValue \<Rightarrow>
             (case rq_strValues r of
                [v] \<Rightarrow>
                  (case ParseInt v of
                     None \<Rightarrow> False
                   | Some rValue \<Rightarrow> rq_operator r = GreaterThan \<and> lsValue > rValue \<or> rq_operator r = LessThan \<and> lsValue < rValue)
              | _ \<Rightarrow> False)))"

definition Requirement_Matches :: "Requirement \<Rightarrow> label_set \<Rightarrow> bool" where
  "Requirement_Matches r ls =
     (case rq_operator r of
        In \<Rightarrow> (if \<not> Set_Has ls (rq_key r) then False else hasValue r (Set_Get ls (rq_key r)))
      | Equals \<Rightarrow> (if \<not> Set_Has ls (rq_key r) then False else hasValue r (Set_Get ls (rq_key r)))
      | DoubleEquals \<Rightarrow> (if \<not> Set_Has ls (rq_key r) then False else hasValue r (Set_Get ls (rq_key r)))
      | NotIn \<Rightarrow> (if \<not> Set_Has ls (rq_key r) then True else \<not> hasValue r (Set_Get ls (rq_key r)))
      | NotEquals \<Rightarrow> (if \<not> Set_Has ls (rq_key r) then True else \<not> hasValue r (Set_Get ls (rq_key r)))
      | Exists \<Rightarrow> Set_Has ls (rq_key r)
      | DoesNotExist \<Rightarrow> \<not> Set_Has ls (rq_key r)
      | GreaterThan \<Rightarrow> compare_ints r ls
      | LessThan \<Rightarrow> compare_ints r ls
      | OtherOperator _ \<Rightarrow> False)"

definition Requirement_Values :: "Requirement \<Rightarrow> string set" where
  "Requirement_Values r = set (rq_strValues r)"

text \<open>\<open>cmp_Equal\<close> stands for \<open>cmp.Equal\<close> of a package outside the repository.\<close>

definition Requirement_Equal :: "(string list \<Rightarrow> string list \<Rightarrow> bool) \<Rightarrow> Requirement \<Rightarrow> Requirement \<Rightarrow> bool" where
  "Requirement_Equal cmp_Equal r x =
     (if rq_key r \<noteq> rq_key x then False
      else if rq_operator r \<noteq> rq_operator x then False
      else cmp_Equal (rq_strValues r) (rq_strValues x))"

definition safeSort :: "string list \<Rightarrow> string list" where
  "safeSort xs = (if sorted xs then xs else sort xs)"

definition operator_text :: "Operator \<Rightarrow> string" where
  "operator_text op =
     (case op of
        Equals \<Rightarrow> ''='' | DoubleEquals \<Rightarrow> ''=='' | NotEquals \<Rightarrow> ''!='' | In \<Rightarrow> '' in '' | NotIn \<Rightarrow> '' notin ''
      | GreaterThan \<Rightarrow> ''>'' | LessThan \<Rightarrow> ''<'' | Exists \<Rightarrow> [] | DoesNotExist \<Rightarrow> [] | OtherOperator _ \<Rightarrow> [])"

definition Requirement_String :: "Requirement \<Rightarrow> string" where
  "Requirement_String r =
     (let op = rq_operator r; vals = rq_strValues r;
          start = (if op = DoesNotExist then ''!'' else []) @ rq_key r @ operator_text op in
      if op = Exists \<or> op = DoesNotExist then start
      else
        start @ (if op = In \<or> op = NotIn then ''('' else []) @
        (case vals of [v] \<Rightarrow> v | _ \<Rightarrow> Join (safeSort vals) '','') @
        (if op = In \<or> op = NotIn then '')'' else []))"

section \<open>Selectors\<close>

datatype Selector = internalSelector "Requirement list" | nothingSelector

definition Everything :: Selector where
  "Everything = internalSelector []"

definition Nothing :: Selector where
  "Nothing = nothingSelector"

definition NewSelector :: Selector where
  "NewSelector = internalSelector []"

fun internal_Matches :: "Requirement list \<Rightarrow> label_set \<Rightarrow> bool" where
  "internal_Matches [] l = True"
| "internal_Matches (r # rs) l = (if \<not> Requirement_Matches r l then False else internal_Matches rs l)"

fun Selector_Matches :: "Selector \<Rightarrow> label_set \<Rightarrow> bool" where
  "Selector_Matches (internalSelector s) l = internal_Matches s l"
| "Selector_Matches nothingSelector l = False"

fun Selector_Empty :: "Selector \<Rightarrow> bool" where
  "Selector_Empty (internalSelector s) = (length s = 0)"
| "Selector_Empty nothingSelector = False"

fun Selector_String :: "Selector \<Rightarrow> string" where
  "Selector_String (internalSelector s) = Join (map Requirement_String s) '',''"
| "Selector_String nothingSelector = []"

fun Selector_Add :: "(Requirement list \<Rightarrow> Requirement list) \<Rightarrow> Selector \<Rightarrow> Requirement list \<Rightarrow> Selector" where
  "Selector_Add srt (internalSelector s) reqs = internalSelector (srt (s @ reqs))"
| "Selector_Add srt nothingSelector reqs = nothingSelector"

fun Selector_Requirements :: "Selector \<Rightarrow> Requirement list \<times> bool" where
  "Selector_Requirements (internalSelector s) = (s, True)"
| "Selector_Requirements nothingSelector = ([], False)"

fun internal_RequiresExactMatch :: "Requirement list \<Rightarrow> string \<Rightarrow> string \<times> bool" where
  "internal_RequiresExactMatch [] label = ([], False)"
| "internal_RequiresExactMatch (r # rs) label =
     (if rq_key r = label then
        (if rq_operator r = Equals \<or> rq_operator r = DoubleEquals \<or> rq_operator r = In then
           (case rq_strValues r of [v] \<Rightarrow> (v, True) | _ \<Rightarrow> ([], False))
         else ([], False))
      else internal_RequiresExactMatch rs label)"

fun Selector_RequiresExactMatch :: "Selector \<Rightarrow> string \<Rightarrow> string \<times> bool" where
  "Selector_RequiresExactMatch (internalSelector s) label = internal_RequiresExactMatch s label"
| "Selector_RequiresExactMatch nothingSelector label = ([], False)"

definition SelectorFromValidatedSet :: "(Requirement list \<Rightarrow> Requirement list) \<Rightarrow> string list \<Rightarrow> label_set \<Rightarrow> Selector" where
  "SelectorFromValidatedSet srt ks ls =
     (if length ks = 0 then internalSelector []
      else internalSelector (srt (map (\<lambda>k. \<lparr>rq_key = k, rq_operator = Equals, rq_strValues = [Set_Get ls k]\<rparr>) ks)))"

definition SelectorFromSet :: "(Requirement list \<Rightarrow> Requirement list) \<Rightarrow> string list \<Rightarrow> label_set \<Rightarrow> Selector" where
  "SelectorFromSet srt ks ls = SelectorFromValidatedSet srt ks ls"

fun validated_requirements :: "string list \<Rightarrow> label_set \<Rightarrow> go_error + Requirement list" where
  "validated_requirements [] ls = Inr []"
| "validated_requirements (k # ks) ls =
     (case NewRequirement k Equals [Set_Get ls k] of
        (r, err # errs) \<Rightarrow> Inl err
      | (r, []) \<Rightarrow> (case validated_requirements ks ls of Inl err \<Rightarrow> Inl err | Inr rs \<Rightarrow> Inr (r # rs)))"

definition ValidatedSelectorFromSet ::
  "(Requirement list \<Rightarrow> Requirement list) \<Rightarrow> string list \<Rightarrow> label_set \<Rightarrow> go_error + Selector" where
  "ValidatedSelectorFromSet srt ks ls =
     (if length ks = 0 then Inr (internalSelector [])
      else (case validated_requirements ks ls of Inl err \<Rightarrow> Inl err | Inr rs \<Rightarrow> Inr (internalSelector (srt rs))))"

end
