(* ===== verification/Selector_Parser.thy ===== *)
theory Selector_Parser
  imports Label_Selectors Api_Types "HOL-Library.Monad_Syntax"
begin

text \<open>
  The lexer and the parser of label selectors (\<open>labels/selector.go\<close>), and the conversions between
  selectors and the API type \<open>LabelSelector\<close> (\<open>meta/v1/helpers.go\<close>).

  The lexer's state is the rest of the string: \<open>read\<close> at the end of the string returns a zero byte
  and does not move, and \<open>unread\<close> leaves the character in the rest.
\<close>

section \<open>The lexer\<close>

datatype Token = ErrorToken | EndOfStringToken | ClosedParToken | CommaToken | DoesNotExistToken | DoubleEqualsToken
  | EqualsToken | GreaterThanToken | IdentifierToken | InToken | LessThanToken | NotEqualsToken | NotInToken | OpenParToken

definition string2token :: "string \<Rightarrow> Token option" where
  "string2token =
     map_of [('')'', ClosedParToken), ('','', CommaToken), (''!'', DoesNotExistToken), (''=='', DoubleEqualsToken), (''='', EqualsToken),
       (''>'', GreaterThanToken), (''in'', InToken), (''<'', LessThanToken), (''!='', NotEqualsToken), (''notin'', NotInToken),
       (''('', OpenParToken)]"

record ScannedItem =
  si_tok :: Token
  si_literal :: string

definition isWhitespace :: "char \<Rightarrow> bool" where
  "isWhitespace ch \<longleftrightarrow> ch = CHR '' '' \<or> ch = CHR 0x09 \<or> ch = CHR 0x0D \<or> ch = CHR 0x0A"

definition isSpecialSymbol :: "char \<Rightarrow> bool" where
  "isSpecialSymbol ch \<longleftrightarrow> ch \<in> {CHR ''='', CHR ''!'', CHR ''('', CHR '')'', CHR '','', CHR ''>'', CHR ''<''}"

definition NUL :: char where
  "NUL = CHR 0x00"

text \<open>The loop of \<open>scanIDOrKeyword\<close>: a zero byte ends it and is not put back.\<close>

fun scan_id :: "string \<Rightarrow> string \<Rightarrow> string \<times> string" where
  "scan_id buffer [] = (buffer, [])"
| "scan_id buffer (ch # cs) =
     (if ch = NUL then (buffer, cs)
      else if isSpecialSymbol ch \<or> isWhitespace ch then (buffer, ch # cs)
      else scan_id (buffer @ [ch]) cs)"

definition scanIDOrKeyword :: "string \<Rightarrow> ScannedItem \<times> string" where
  "scanIDOrKeyword l =
     (let (s, l') = scan_id [] l in
      ((case string2token s of Some val \<Rightarrow> \<lparr>si_tok = val, si_literal = s\<rparr> | None \<Rightarrow> \<lparr>si_tok = IdentifierToken, si_literal = s\<rparr>), l'))"

text \<open>The loop of \<open>scanSpecialSymbol\<close> with the last token found; \<open>ErrorToken\<close> is the zero value.\<close>

fun scan_special :: "string \<Rightarrow> ScannedItem \<Rightarrow> string \<Rightarrow> ScannedItem \<times> string" where
  "scan_special buffer lastScannedItem [] = (lastScannedItem, [])"
| "scan_special buffer lastScannedItem (ch # cs) =
     (if ch = NUL then (lastScannedItem, cs)
      else if isSpecialSymbol ch then
        (case string2token (buffer @ [ch]) of
           Some token \<Rightarrow> scan_special (buffer @ [ch]) \<lparr>si_tok = token, si_literal = buffer @ [ch]\<rparr> cs
         | None \<Rightarrow>
             (if si_tok lastScannedItem \<noteq> ErrorToken then (lastScannedItem, ch # cs)
              else scan_special (buffer @ [ch]) lastScannedItem cs))
      else (lastScannedItem, ch # cs))"

definition scanSpecialSymbol :: "string \<Rightarrow> ScannedItem \<times> string" where
  "scanSpecialSymbol l =
     (let (it, l') = scan_special [] \<lparr>si_tok = ErrorToken, si_literal = []\<rparr> l in
      (if si_tok it = ErrorToken then \<lparr>si_tok = ErrorToken, si_literal = ''error expected: keyword''\<rparr> else it, l'))"

fun skipWhiteSpaces :: "string \<Rightarrow> string" where
  "skipWhiteSpaces [] = []"
| "skipWhiteSpaces (ch # cs) = (if isWhitespace ch then skipWhiteSpaces cs else ch # cs)"

definition Lex :: "string \<Rightarrow> ScannedItem \<times> string" where
  "Lex l =
     (case skipWhiteSpaces l of
        [] \<Rightarrow> (\<lparr>si_tok = EndOfStringToken, si_literal = []\<rparr>, [])
      | ch # cs \<Rightarrow>
          (if ch = NUL then (\<lparr>si_tok = EndOfStringToken, si_literal = []\<rparr>, cs)
           else if isSpecialSymbol ch then scanSpecialSymbol (ch # cs)
           else scanIDOrKeyword (ch # cs)))"

lemma skip_length: "length (skipWhiteSpaces l) \<le> length l"
  by (induction l) auto

lemma scan_id_length: "length (snd (scan_id b l)) \<le> length l"
  by (induction b l rule: scan_id.induct) auto

lemma scan_special_length: "length (snd (scan_special b it l)) \<le> length l"
  by (induction b it l rule: scan_special.induct) (auto split: option.split)

lemma special_single: "isSpecialSymbol ch \<Longrightarrow> \<exists>tok. string2token [ch] = Some tok \<and> tok \<noteq> ErrorToken \<and> tok \<noteq> EndOfStringToken"
  by (auto simp: isSpecialSymbol_def string2token_def)

lemma token_not_end: "string2token s \<noteq> Some EndOfStringToken"
  by (auto simp: string2token_def split: if_splits)

text \<open>Every token but the last takes something from the string.\<close>

lemma Lex_shorter:
  assumes "si_tok (fst (Lex l)) \<noteq> EndOfStringToken"
  shows "length (snd (Lex l)) < length l"
proof (cases "skipWhiteSpaces l")
  case Nil
  then show ?thesis using assms by (simp add: Lex_def)
next
  case (Cons ch cs)
  have nul: "ch \<noteq> NUL" using assms Cons by (auto simp: Lex_def)
  have "Suc (length cs) \<le> length l" using skip_length [of l] Cons by simp
  moreover have "length (snd (Lex l)) \<le> length cs"
  proof (cases "isSpecialSymbol ch")
    case True
    then obtain tok where "string2token [ch] = Some tok" using special_single by blast
    then show ?thesis using Cons nul True scan_special_length [of "[ch]" "\<lparr>si_tok = tok, si_literal = [ch]\<rparr>" cs]
      by (auto simp: Lex_def scanSpecialSymbol_def split: prod.split)
  next
    case False
    have ws: "\<not> isWhitespace ch" using Cons by (induction l) (auto split: if_splits)
    show ?thesis using Cons nul False ws scan_id_length [of "[ch]" cs]
      by (auto simp: Lex_def scanIDOrKeyword_def split: prod.split)
  qed
  ultimately show ?thesis by linarith
qed

lemma Lex_shorter_pair: "(it, l') = Lex l \<Longrightarrow> si_tok it \<noteq> EndOfStringToken \<Longrightarrow> length l' < length l"
  using Lex_shorter [of l] by (metis fst_conv snd_conv)

function scan :: "string \<Rightarrow> ScannedItem list" where
  "scan l =
     (let (it, l') = Lex l in
      if si_tok it = EndOfStringToken then [it] else it # scan l')"
  by pat_completeness auto
termination
  by (relation "measure length") (auto dest: Lex_shorter_pair)

declare scan.simps [simp del]

section \<open>The parser\<close>

datatype ParserContext = KeyAndOperator | Values

definition in_context :: "ParserContext \<Rightarrow> ScannedItem \<Rightarrow> Token \<times> string" where
  "in_context context it =
     (if context = Values \<and> (si_tok it = InToken \<or> si_tok it = NotInToken) then (IdentifierToken, si_literal it)
      else (si_tok it, si_literal it))"

definition lookahead :: "ParserContext \<Rightarrow> ScannedItem list \<Rightarrow> (Token \<times> string) go" where
  "lookahead context p = (case p of [] \<Rightarrow> None | it # _ \<Rightarrow> Some (in_context context it))"

definition consume :: "ParserContext \<Rightarrow> ScannedItem list \<Rightarrow> ((Token \<times> string) \<times> ScannedItem list) go" where
  "consume context p = (case p of [] \<Rightarrow> None | it # rest \<Rightarrow> Some (in_context context it, rest))"

type_synonym 'a parsed = "(go_error + 'a \<times> ScannedItem list) go"

definition parseKeyAndInferOperator :: "ScannedItem list \<Rightarrow> (string \<times> Operator) parsed" where
  "parseKeyAndInferOperator p =
     do {
       ((tok0, lit0), p0) \<leftarrow> consume Values p;
       (operator, (tok, literal), p1) \<leftarrow>
         (if tok0 = DoesNotExistToken
          then do { (tl, p1) \<leftarrow> consume Values p0; Some (DoesNotExist, tl, p1) }
          else Some (OtherOperator [], (tok0, lit0), p0));
       if tok \<noteq> IdentifierToken then Some (Inl (Errorf ''expected: identifier''))
       else
         (case validateLabelKey literal of
            Some err \<Rightarrow> Some (Inl err)
          | None \<Rightarrow>
              do {
                (t, _) \<leftarrow> lookahead Values p1;
                let operator' = (if t = EndOfStringToken \<or> t = CommaToken then (if operator \<noteq> DoesNotExist then Exists else operator)
                                 else operator);
                Some (Inr ((literal, operator'), p1))
              })
     }"

definition parseOperator :: "ScannedItem list \<Rightarrow> Operator parsed" where
  "parseOperator p =
     do {
       ((tok, lit), p1) \<leftarrow> consume KeyAndOperator p;
       Some (case tok of
          InToken \<Rightarrow> Inr (In, p1)
        | EqualsToken \<Rightarrow> Inr (Equals, p1)
        | DoubleEqualsToken \<Rightarrow> Inr (DoubleEquals, p1)
        | GreaterThanToken \<Rightarrow> Inr (GreaterThan, p1)
        | LessThanToken \<Rightarrow> Inr (LessThan, p1)
        | NotInToken \<Rightarrow> Inr (NotIn, p1)
        | NotEqualsToken \<Rightarrow> Inr (NotEquals, p1)
        | _ \<Rightarrow> Inl (Errorf ''expected: =, !=, ==, in, notin''))
     }"

text \<open>The loop of \<open>parseIdentifiersList\<close> with the set read so far.\<close>

fun parseIdentifiersList :: "string set \<Rightarrow> ScannedItem list \<Rightarrow> string set parsed" where
  "parseIdentifiersList s [] = None"
| "parseIdentifiersList s (it # p) =
     (case in_context Values it of
        (IdentifierToken, lit) \<Rightarrow>
          (case lookahead Values p of
             None \<Rightarrow> None
           | Some (CommaToken, _) \<Rightarrow> parseIdentifiersList (insert lit s) p
           | Some (ClosedParToken, _) \<Rightarrow> Some (Inr (insert lit s, p))
           | Some _ \<Rightarrow> Some (Inl (Errorf ''expected: comma or closing parenthesis'')))
      | (CommaToken, lit) \<Rightarrow>
          (let s1 = (if s = {} then {[]} else s) in
           case p of
             [] \<Rightarrow> None
           | it2 # p2 \<Rightarrow>
               (case in_context Values it2 of
                  (ClosedParToken, _) \<Rightarrow> Some (Inr (insert [] s1, it2 # p2))
                | (CommaToken, _) \<Rightarrow> parseIdentifiersList (insert [] s1) p2
                | _ \<Rightarrow> parseIdentifiersList s1 (it2 # p2)))
      | _ \<Rightarrow> Some (Inl (Errorf ''expected: comma or identifier'')))"

definition parseValues :: "ScannedItem list \<Rightarrow> string set parsed" where
  "parseValues p =
     do {
       ((tok, lit), p1) \<leftarrow> consume Values p;
       if tok \<noteq> OpenParToken then Some (Inl (Errorf ''expected: opening parenthesis''))
       else
         do {
           (tok2, lit2) \<leftarrow> lookahead Values p1;
           if tok2 = IdentifierToken \<or> tok2 = CommaToken then
             do {
               r \<leftarrow> parseIdentifiersList {} p1;
               (case r of
                  Inl err \<Rightarrow> Some (Inl err)
                | Inr (s, p2) \<Rightarrow>
                    do {
                      ((tok3, _), p3) \<leftarrow> consume Values p2;
                      Some (if tok3 \<noteq> ClosedParToken then Inl (Errorf ''expected: closing parenthesis'') else Inr (s, p3))
                    })
             }
           else if tok2 = ClosedParToken then do { (_, p2) \<leftarrow> consume Values p1; Some (Inr ({[]}, p2)) }
           else Some (Inl (Errorf ''expected: comma, closing parenthesis or identifier''))
         }
     }"

definition parseExactValue :: "ScannedItem list \<Rightarrow> string set parsed" where
  "parseExactValue p =
     do {
       (tok, _) \<leftarrow> lookahead Values p;
       if tok = EndOfStringToken \<or> tok = CommaToken then Some (Inr ({[]}, p))
       else
         do {
           ((tok2, lit), p1) \<leftarrow> consume Values p;
           Some (if tok2 = IdentifierToken then Inr ({lit}, p1) else Inl (Errorf ''expected: identifier''))
         }
     }"

text \<open>The result of \<open>NewRequirement\<close> with its aggregated errors as one error.\<close>

definition checked_requirement :: "string \<Rightarrow> Operator \<Rightarrow> string list \<Rightarrow> ScannedItem list \<Rightarrow> Requirement parsed" where
  "checked_requirement key op vals p =
     Some (case NewRequirement key op vals of (r, []) \<Rightarrow> Inr (r, p) | (r, err # _) \<Rightarrow> Inl err)"

definition parseRequirement :: "ScannedItem list \<Rightarrow> Requirement parsed" where
  "parseRequirement p =
     do {
       r1 \<leftarrow> parseKeyAndInferOperator p;
       (case r1 of
          Inl err \<Rightarrow> Some (Inl err)
        | Inr ((key, operator), p1) \<Rightarrow>
            (if operator = Exists \<or> operator = DoesNotExist then checked_requirement key operator [] p1
             else
               do {
                 r2 \<leftarrow> parseOperator p1;
                 (case r2 of
                    Inl err \<Rightarrow> Some (Inl err)
                  | Inr (op, p2) \<Rightarrow>
                      do {
                        r3 \<leftarrow> (if op = In \<or> op = NotIn then parseValues p2 else parseExactValue p2);
                        (case r3 of
                           Inl err \<Rightarrow> Some (Inl err)
                         | Inr (vals, p3) \<Rightarrow> checked_requirement key op (sorted_list_of_set vals) p3)
                      })
               }))
     }"

partial_function (option) parse_loop :: "Requirement list \<Rightarrow> ScannedItem list \<Rightarrow> (go_error + Requirement list) go" where
  "parse_loop requirements p =
     do {
       (tok, lit) \<leftarrow> lookahead Values p;
       if tok = IdentifierToken \<or> tok = DoesNotExistToken then
         do {
           r1 \<leftarrow> parseRequirement p;
           (case r1 of
              Inl err \<Rightarrow> Some (Inl (Errorf ''unable to parse requirement''))
            | Inr (r, p1) \<Rightarrow>
                do {
                  ((t, l), p2) \<leftarrow> consume Values p1;
                  if t = EndOfStringToken then Some (Inr (requirements @ [r]))
                  else if t = CommaToken then
                    do {
                      (t2, l2) \<leftarrow> lookahead Values p2;
                      if t2 \<noteq> IdentifierToken \<and> t2 \<noteq> DoesNotExistToken then Some (Inl (Errorf ''expected: identifier after comma''))
                      else parse_loop (requirements @ [r]) p2
                    }
                  else Some (Inl (Errorf ''expected: comma or end of string''))
                })
         }
       else if tok = EndOfStringToken then Some (Inr requirements)
       else Some (Inl (Errorf ''expected: !, identifier, or end of string''))
     }"

definition parse :: "(Requirement list \<Rightarrow> Requirement list) \<Rightarrow> string \<Rightarrow> (go_error + Requirement list) go" where
  "parse srt selector =
     do {
       r \<leftarrow> parse_loop [] (scan selector);
       Some (case r of Inl err \<Rightarrow> Inl err | Inr items \<Rightarrow> Inr (srt items))
     }"

definition Parse :: "(Requirement list \<Rightarrow> Requirement list) \<Rightarrow> string \<Rightarrow> (go_error + Selector) go" where
  "Parse srt selector =
     do {
       r \<leftarrow> parse srt selector;
       Some (case r of Inl err \<Rightarrow> Inl err | Inr items \<Rightarrow> Inr (internalSelector items))
     }"

definition ParseToRequirements :: "(Requirement list \<Rightarrow> Requirement list) \<Rightarrow> string \<Rightarrow> (go_error + Requirement list) go" where
  "ParseToRequirements srt selector = parse srt selector"

section \<open>The API type\<close>

text \<open>The two loops of \<open>LabelSelectorAsSelector\<close>, the first in the order \<open>ks\<close>.\<close>

fun add_match_labels ::
  "(Requirement list \<Rightarrow> Requirement list) \<Rightarrow> label_set \<Rightarrow> string list \<Rightarrow> Selector \<Rightarrow> go_error + Selector" where
  "add_match_labels srt m [] selector = Inr selector"
| "add_match_labels srt m (k # ks) selector =
     (case NewRequirement k Equals [Set_Get m k] of
        (r, err # _) \<Rightarrow> Inl err
      | (r, []) \<Rightarrow> add_match_labels srt m ks (Selector_Add srt selector [r]))"

definition selection_operator :: "LabelSelectorOperator \<Rightarrow> Operator option" where
  "selection_operator op =
     (case op of
        LabelSelectorOpIn \<Rightarrow> Some In
      | LabelSelectorOpNotIn \<Rightarrow> Some NotIn
      | LabelSelectorOpExists \<Rightarrow> Some Exists
      | LabelSelectorOpDoesNotExist \<Rightarrow> Some DoesNotExist
      | OtherLabelSelectorOp _ \<Rightarrow> None)"

fun add_match_expressions ::
  "(Requirement list \<Rightarrow> Requirement list) \<Rightarrow> LabelSelectorRequirement list \<Rightarrow> Selector \<Rightarrow> go_error + Selector" where
  "add_match_expressions srt [] selector = Inr selector"
| "add_match_expressions srt (expr # exprs) selector =
     (case selection_operator (lr_Operator expr) of
        None \<Rightarrow> Inl (Errorf ''not a valid pod selector operator'')
      | Some op \<Rightarrow>
          (case NewRequirement (lr_Key expr) op (lr_Values expr) of
             (r, err # _) \<Rightarrow> Inl err
           | (r, []) \<Rightarrow> add_match_expressions srt exprs (Selector_Add srt selector [r])))"

definition LabelSelectorAsSelector ::
  "(Requirement list \<Rightarrow> Requirement list) \<Rightarrow> string list \<Rightarrow> LabelSelector option \<Rightarrow> go_error + Selector" where
  "LabelSelectorAsSelector srt ks o_ps =
     (case o_ps of
        None \<Rightarrow> Inr Nothing
      | Some ps \<Rightarrow>
          (if length ks + length (sl_MatchExpressions ps) = 0 then Inr Everything
           else
             (case add_match_labels srt (sl_MatchLabels ps) ks NewSelector of
                Inl err \<Rightarrow> Inl err
              | Inr selector \<Rightarrow> add_match_expressions srt (sl_MatchExpressions ps) selector)))"

fun map_expressions :: "LabelSelectorRequirement list \<Rightarrow> label_set \<Rightarrow> label_set \<times> go_error option" where
  "map_expressions [] selector = (selector, None)"
| "map_expressions (expr # exprs) selector =
     (case lr_Operator expr of
        LabelSelectorOpIn \<Rightarrow>
          (case lr_Values expr of
             [v] \<Rightarrow> map_expressions exprs (selector(lr_Key expr \<mapsto> v))
           | _ \<Rightarrow> (selector, Some (Errorf ''operator without a single value cannot be converted into the old label selector format'')))
      | OtherLabelSelectorOp _ \<Rightarrow> (selector, Some (Errorf ''not a valid selector operator''))
      | _ \<Rightarrow> (selector, Some (Errorf ''operator cannot be converted into the old label selector format'')))"

definition LabelSelectorAsMap :: "LabelSelector option \<Rightarrow> label_set option \<times> go_error option" where
  "LabelSelectorAsMap o_ps =
     (case o_ps of
        None \<Rightarrow> (None, None)
      | Some ps \<Rightarrow> (let (m, err) = map_expressions (sl_MatchExpressions ps) (sl_MatchLabels ps) in (Some m, err)))"

fun requirements_to_label_selector :: "Requirement list \<Rightarrow> LabelSelector \<Rightarrow> go_error + LabelSelector" where
  "requirements_to_label_selector [] sel = Inr sel"
| "requirements_to_label_selector (req # reqs) sel =
     (let vals = sorted_list_of_set (Requirement_Values req);
          expr = (\<lambda>op. requirements_to_label_selector reqs
            (sel\<lparr>sl_MatchExpressions := sl_MatchExpressions sel @ [\<lparr>lr_Key = rq_key req, lr_Operator = op, lr_Values = vals\<rparr>]\<rparr>));
          label = (case vals of
                     [v] \<Rightarrow> requirements_to_label_selector reqs (sel\<lparr>sl_MatchLabels := (sl_MatchLabels sel)(rq_key req \<mapsto> v)\<rparr>)
                   | _ \<Rightarrow> Inl (Errorf ''equals operator must have exactly one value'')) in
      case rq_operator req of
        Equals \<Rightarrow> label
      | DoubleEquals \<Rightarrow> label
      | In \<Rightarrow> expr LabelSelectorOpIn
      | NotIn \<Rightarrow> expr LabelSelectorOpNotIn
      | Exists \<Rightarrow> expr LabelSelectorOpExists
      | DoesNotExist \<Rightarrow> expr LabelSelectorOpDoesNotExist
      | GreaterThan \<Rightarrow> Inl (Errorf ''operator is not supported in label selectors'')
      | LessThan \<Rightarrow> Inl (Errorf ''operator is not supported in label selectors'')
      | _ \<Rightarrow> Inl (Errorf ''not a valid label selector operator''))"

definition ParseToLabelSelector :: "(Requirement list \<Rightarrow> Requirement list) \<Rightarrow> string \<Rightarrow> (go_error + LabelSelector) go" where
  "ParseToLabelSelector srt selector =
     do {
       r \<leftarrow> ParseToRequirements srt selector;
       Some (case r of
          Inl err \<Rightarrow> Inl (Errorf ''could not parse the selector string'')
        | Inr reqs \<Rightarrow> requirements_to_label_selector reqs \<lparr>sl_MatchLabels = Map.empty, sl_MatchExpressions = []\<rparr>)
     }"

definition SetAsLabelSelector :: "label_set option \<Rightarrow> LabelSelector option" where
  "SetAsLabelSelector o_ls = map_option (\<lambda>ls. \<lparr>sl_MatchLabels = ls, sl_MatchExpressions = []\<rparr>) o_ls"

definition FormatLabelSelector :: "(Requirement list \<Rightarrow> Requirement list) \<Rightarrow> string list \<Rightarrow> LabelSelector option \<Rightarrow> string" where
  "FormatLabelSelector srt ks o_ps =
     (case LabelSelectorAsSelector srt ks o_ps of
        Inl err \<Rightarrow> ''<error>''
      | Inr selector \<Rightarrow> (let l = Selector_String selector in if length l = 0 then ''<none>'' else l))"

end
