(* ===== verification/Selector_Correct.thy ===== *)
theory Selector_Correct
  imports Selector_Parser
begin

text \<open>
  Correctness of label selectors: the parser always returns, accepts only valid requirements and
  reads back what the printer writes; and a \<open>LabelSelector\<close> matches by the meaning of its parts.
\<close>

section \<open>Words\<close>

definition plain :: "char \<Rightarrow> bool" where
  "plain ch \<longleftrightarrow> ch \<noteq> NUL \<and> \<not> isSpecialSymbol ch \<and> \<not> isWhitespace ch"

definition word :: "string \<Rightarrow> bool" where
  "word w \<longleftrightarrow> (\<forall>ch\<in>set w. plain ch)"

lemma word_simps [simp]: "word []" "word (ch # w) \<longleftrightarrow> plain ch \<and> word w" "word (v @ w) \<longleftrightarrow> word v \<and> word w"
  by (auto simp: word_def)

lemma alnum_plain: "alnum ch \<Longrightarrow> plain ch"
  by (auto simp: alnum_def lower_alnum_def less_eq_char_def plain_def NUL_def isSpecialSymbol_def isWhitespace_def)

lemma name_part_word: "name_part v \<Longrightarrow> word v"
proof -
  have "plain ch" if "ch \<in> set ''-_.''" for ch using that by (auto simp: plain_def NUL_def isSpecialSymbol_def isWhitespace_def)
  then have "set v \<subseteq> {c. alnum c \<or> c \<in> set ''-_.''} \<Longrightarrow> word v" using alnum_plain unfolding word_def by blast
  then show "name_part v \<Longrightarrow> word v" unfolding name_part_def by blast
qed

lemma subdomain_word: assumes "IsDNS1123Subdomain v = []" shows "word v"
  unfolding word_def
proof
  fix ch assume "ch \<in> set v"
  then consider "ch = CHR ''.''" | p where "p \<in> set (split_on CHR ''.'' v)" "ch \<in> set p" using split_on_join by blast
  then show "plain ch"
  proof cases
    case 2
    then have "dns_label p" using assms by (auto simp: IsDNS1123Subdomain_Nil)
    then have "lower_alnum ch \<or> ch = CHR ''-''" using 2(2) unfolding dns_label_def by blast
    then show ?thesis
      by (auto simp: alnum_def intro: alnum_plain) (simp add: plain_def NUL_def isSpecialSymbol_def isWhitespace_def)
  qed (simp add: plain_def NUL_def isSpecialSymbol_def isWhitespace_def)
qed

definition valid_key :: "string \<Rightarrow> bool" where
  "valid_key k \<longleftrightarrow> validateLabelKey k = None"

definition valid_value :: "string \<Rightarrow> bool" where
  "valid_value v \<longleftrightarrow> validateLabelValue v = None"

lemma valid_key_word: "valid_key k \<Longrightarrow> k \<noteq> [] \<and> word k"
proof -
  assume "valid_key k"
  then have "IsQualifiedName k = []" by (simp add: valid_key_def validateLabelKey_def Let_def split: if_splits)
  then obtain name where n: "name_part name" "k = name \<or> (\<exists>prefix. k = prefix @ ''/'' @ name \<and> IsDNS1123Subdomain prefix = [])"
    unfolding IsQualifiedName_Nil by blast
  moreover have "plain CHR ''/''" by (simp add: plain_def NUL_def isSpecialSymbol_def isWhitespace_def)
  ultimately show ?thesis using name_part_word subdomain_word by (auto simp: name_part_def)
qed

lemma valid_value_word: "valid_value v \<Longrightarrow> word v"
  using name_part_word by (auto simp: valid_value_def validateLabelValue_def Let_def IsValidLabelValue_Nil split: if_splits)

section \<open>Lexing\<close>

definition boundary :: "string \<Rightarrow> bool" where
  "boundary rest \<longleftrightarrow> (case rest of [] \<Rightarrow> True | ch # _ \<Rightarrow> ch \<noteq> NUL \<and> (isSpecialSymbol ch \<or> isWhitespace ch))"

definition no_nul :: "string \<Rightarrow> bool" where
  "no_nul rest \<longleftrightarrow> (case rest of [] \<Rightarrow> True | ch # _ \<Rightarrow> ch \<noteq> NUL)"

lemma boundary_no_nul [simp]: "boundary rest \<Longrightarrow> no_nul rest"
  by (simp add: boundary_def no_nul_def split: list.splits)

definition word_item :: "string \<Rightarrow> ScannedItem" where
  "word_item w = (case string2token w of Some val \<Rightarrow> \<lparr>si_tok = val, si_literal = w\<rparr> | None \<Rightarrow> \<lparr>si_tok = IdentifierToken, si_literal = w\<rparr>)"

lemma scan_id_word: "word w \<Longrightarrow> boundary rest \<Longrightarrow> scan_id b (w @ rest) = (b @ w, rest)"
proof (induction w arbitrary: b)
  case Nil
  then show ?case by (cases rest) (auto simp: boundary_def)
qed (simp add: plain_def)

lemma token_of_word:
  assumes "word w" "w \<noteq> []"
  shows "string2token w = (if w = ''in'' then Some InToken else if w = ''notin'' then Some NotInToken else None)"
proof -
  have "w \<notin> {'')'', '','', ''!'', ''=='', ''='', ''>'', ''<'', ''!='', ''(''}"
  proof
    assume "w \<in> {'')'', '','', ''!'', ''=='', ''='', ''>'', ''<'', ''!='', ''(''}"
    then have "isSpecialSymbol (hd w)" unfolding isSpecialSymbol_def by (elim insertE emptyE) simp_all
    then show False using assms by (cases w) (simp_all add: plain_def)
  qed
  then show ?thesis unfolding string2token_def by simp
qed

lemma word_item_ident: "word w \<Longrightarrow> w \<noteq> [] \<Longrightarrow> in_context Values (word_item w) = (IdentifierToken, w)"
  by (auto simp: in_context_def word_item_def token_of_word)

lemma word_item_tok: "word w \<Longrightarrow> w \<noteq> [] \<Longrightarrow> si_tok (word_item w) \<noteq> EndOfStringToken"
  by (simp add: word_item_def token_of_word)

lemma scan_word:
  assumes "word w" "w \<noteq> []" "boundary rest"
  shows "scan (w @ rest) = word_item w # scan rest"
proof -
  obtain ch v where w: "w = ch # v" using assms(2) by (cases w) auto
  have "Lex (w @ rest) = (word_item w, rest)"
    using assms scan_id_word [OF assms(1,3), of "[]"] by (simp add: w Lex_def plain_def scanIDOrKeyword_def word_item_def)
  then show ?thesis by (subst scan.simps) (simp add: word_item_tok [OF assms(1,2)])
qed

lemma scan_space: "scan (CHR '' '' # rest) = scan rest"
  by (subst scan.simps, subst (2) scan.simps) (simp add: Lex_def isWhitespace_def)

lemma scan_nil: "scan [] = [\<lparr>si_tok = EndOfStringToken, si_literal = []\<rparr>]"
  by (subst scan.simps) (simp add: Lex_def)

text \<open>An operator of special symbols that no further symbol extends.\<close>

definition ends_symbol :: "string \<Rightarrow> string \<Rightarrow> bool" where
  "ends_symbol s rest \<longleftrightarrow> no_nul rest \<and> (case rest of [] \<Rightarrow> True | ch # _ \<Rightarrow> isSpecialSymbol ch \<longrightarrow> string2token (s @ [ch]) = None)"

lemma scan_special_stop:
  "ends_symbol s rest \<Longrightarrow> si_tok it \<noteq> ErrorToken \<Longrightarrow> scan_special s it rest = (it, rest)"
  by (cases rest) (auto simp: ends_symbol_def no_nul_def)

lemma scan_one:
  assumes "string2token [ch] = Some tok" "isSpecialSymbol ch" "ends_symbol [ch] rest"
  shows "scan (ch # rest) = \<lparr>si_tok = tok, si_literal = [ch]\<rparr> # scan rest"
proof -
  have t: "tok \<noteq> ErrorToken" "tok \<noteq> EndOfStringToken" using special_single [OF assms(2)] assms(1) by auto
  have "ch \<noteq> NUL" "\<not> isWhitespace ch" using assms(2) by (auto simp: isSpecialSymbol_def NUL_def isWhitespace_def)
  then have "Lex (ch # rest) = (\<lparr>si_tok = tok, si_literal = [ch]\<rparr>, rest)"
    using assms t scan_special_stop [OF assms(3), of "\<lparr>si_tok = tok, si_literal = [ch]\<rparr>"]
    by (simp add: Lex_def scanSpecialSymbol_def)
  then show ?thesis using t by (subst scan.simps) simp
qed

lemma scan_two:
  assumes "string2token [c, d] = Some tok" "isSpecialSymbol c" "isSpecialSymbol d" "tok \<noteq> ErrorToken" "tok \<noteq> EndOfStringToken" "ends_symbol [c, d] rest"
  shows "scan (c # d # rest) = \<lparr>si_tok = tok, si_literal = [c, d]\<rparr> # scan rest"
proof -
  obtain t1 where t1: "string2token [c] = Some t1" using special_single [OF assms(2)] by blast
  have "c \<noteq> NUL" "d \<noteq> NUL" "\<not> isWhitespace c" using assms(2,3) by (auto simp: isSpecialSymbol_def NUL_def isWhitespace_def)
  then have "Lex (c # d # rest) = (\<lparr>si_tok = tok, si_literal = [c, d]\<rparr>, rest)"
    using assms t1 scan_special_stop [OF assms(6), of "\<lparr>si_tok = tok, si_literal = [c, d]\<rparr>"]
    by (simp add: Lex_def scanSpecialSymbol_def)
  then show ?thesis using assms(4,5) by (subst scan.simps) simp
qed

section \<open>The items of a printed requirement\<close>

abbreviation item :: "Token \<Rightarrow> string \<Rightarrow> ScannedItem" where
  "item tok lit \<equiv> \<lparr>si_tok = tok, si_literal = lit\<rparr>"

definition word_items :: "string \<Rightarrow> ScannedItem list" where
  "word_items w = (if w = [] then [] else [word_item w])"

fun join_items :: "string list \<Rightarrow> ScannedItem list" where
  "join_items [] = []"
| "join_items [w] = word_items w"
| "join_items (w # v # ws) = word_items w @ item CommaToken '','' # join_items (v # ws)"

lemma token_pair: "ch \<in> set ''(),><'' \<Longrightarrow> string2token [ch, d] = None"
  by (auto simp: string2token_def)

lemma scan_single:
  assumes "ch \<in> set ''(),><''" "no_nul rest"
  shows "scan (ch # rest) = item (the (string2token [ch])) [ch] # scan rest"
proof -
  have s: "isSpecialSymbol ch" using assms(1) by (auto simp: isSpecialSymbol_def)
  then obtain tok where "string2token [ch] = Some tok" using special_single by blast
  moreover have "ends_symbol [ch] rest" using assms(2) token_pair [OF assms(1)] by (simp add: ends_symbol_def split: list.split)
  ultimately show ?thesis using scan_one s by simp
qed

lemma scan_comma: "no_nul rest \<Longrightarrow> scan (CHR '','' # rest) = item CommaToken '','' # scan rest"
  using scan_single [of "CHR '',''" rest] by (simp add: string2token_def)

lemma scan_words: "word w \<Longrightarrow> boundary rest \<Longrightarrow> scan (w @ rest) = word_items w @ scan rest"
  by (simp add: word_items_def scan_word)

lemma no_nul_word: "word w \<Longrightarrow> no_nul rest \<Longrightarrow> no_nul (w @ rest)"
  by (cases w) (auto simp: no_nul_def plain_def)

lemma no_nul_join: "\<forall>w\<in>set ws. word w \<Longrightarrow> no_nul rest \<Longrightarrow> no_nul (Join ws '','' @ rest)"
proof (induction ws rule: join_items.induct)
  case (3 w v ws)
  have "no_nul (CHR '','' # s)" for s by (simp add: no_nul_def NUL_def)
  then show ?case using 3 by (simp add: no_nul_word)
qed (simp_all add: no_nul_word)

lemma scan_join:
  assumes "\<forall>w\<in>set ws. word w" "boundary rest"
  shows "scan (Join ws '','' @ rest) = join_items ws @ scan rest"
  using assms(1)
proof (induction ws rule: join_items.induct)
  case (3 w v ws)
  have "boundary (CHR '','' # s)" for s by (simp add: boundary_def isSpecialSymbol_def NUL_def)
  moreover have "no_nul (Join (v # ws) '','' @ rest)" using 3 assms(2) by (intro no_nul_join) auto
  ultimately show ?case using 3 by (simp add: scan_words scan_comma)
qed (use assms(2) in \<open>simp_all add: scan_words\<close>)

definition valid_req :: "Requirement \<Rightarrow> bool" where
  "valid_req r \<longleftrightarrow> snd (NewRequirement (rq_key r) (rq_operator r) (rq_strValues r)) = []"

lemma valid_req_iff:
  "valid_req r \<longleftrightarrow> valid_key (rq_key r) \<and> operator_errors (rq_operator r) (rq_strValues r) = [] \<and> (\<forall>v\<in>set (rq_strValues r). valid_value v)"
proof -
  have "(case x of None \<Rightarrow> [] | Some err \<Rightarrow> [err]) = [] \<longleftrightarrow> x = None" for x :: "go_error option" by (cases x) auto
  then show ?thesis by (auto simp: valid_req_def NewRequirement_def valid_key_def valid_value_def)
qed

text \<open>The operators that take a list of values, one value, or none.\<close>

definition set_op :: "Operator \<Rightarrow> bool" where
  "set_op op \<longleftrightarrow> op = In \<or> op = NotIn"

definition exact_op :: "Operator \<Rightarrow> bool" where
  "exact_op op \<longleftrightarrow> op \<in> {Equals, DoubleEquals, NotEquals, GreaterThan, LessThan}"

lemma valid_req_cases:
  assumes "valid_req r"
  obtains (set) "set_op (rq_operator r)" "rq_strValues r \<noteq> []"
  | (exact) v where "exact_op (rq_operator r)" "rq_strValues r = [v]"
  | (none) "rq_operator r = Exists \<or> rq_operator r = DoesNotExist" "rq_strValues r = []"
proof -
  have e: "operator_errors (rq_operator r) (rq_strValues r) = []" using assms by (simp add: valid_req_iff)
  show ?thesis
  proof (cases "set_op (rq_operator r)")
    case True
    then show ?thesis using e set by (auto simp: operator_errors_def set_op_def split: if_splits)
  next
    case False
    show ?thesis
    proof (cases "exact_op (rq_operator r)")
      case True
      then have "length (rq_strValues r) = 1" using e by (auto simp: operator_errors_def exact_op_def split: if_splits)
      then show ?thesis using exact True by (auto simp: length_Suc_conv)
    next
      case f: False
      then have "rq_operator r = Exists \<or> rq_operator r = DoesNotExist" using False e
        by (cases "rq_operator r") (auto simp: operator_errors_def exact_op_def set_op_def)
      then show ?thesis using none e by (auto simp: operator_errors_def split: if_splits)
    qed
  qed
qed

definition exact_item :: "Operator \<Rightarrow> ScannedItem" where
  "exact_item op =
     (case op of DoubleEquals \<Rightarrow> item DoubleEqualsToken ''=='' | NotEquals \<Rightarrow> item NotEqualsToken ''!=''
      | GreaterThan \<Rightarrow> item GreaterThanToken ''>'' | LessThan \<Rightarrow> item LessThanToken ''<'' | _ \<Rightarrow> item EqualsToken ''='')"

definition req_items :: "Requirement \<Rightarrow> ScannedItem list" where
  "req_items r =
     (if set_op (rq_operator r) then
        [word_item (rq_key r), if rq_operator r = In then item InToken ''in'' else item NotInToken ''notin'', item OpenParToken ''('']
          @ join_items (sort (rq_strValues r)) @ [item ClosedParToken '')'']
      else if exact_op (rq_operator r) then [word_item (rq_key r), exact_item (rq_operator r)] @ word_items (hd (rq_strValues r))
      else if rq_operator r = DoesNotExist then [item DoesNotExistToken ''!'', word_item (rq_key r)]
      else [word_item (rq_key r)])"

definition sep :: "string \<Rightarrow> bool" where
  "sep rest \<longleftrightarrow> rest = [] \<or> hd rest = CHR '',''"

lemma sep_boundary: "sep rest \<Longrightarrow> boundary rest"
  by (cases rest) (auto simp: sep_def boundary_def isSpecialSymbol_def NUL_def)

lemma safeSort_sort: "safeSort xs = sort xs"
  by (simp add: safeSort_def sort_key_id_if_sorted)

lemma scan_exact_op:
  assumes "exact_op op" "word w" "sep rest"
  shows "scan (operator_text op @ w @ rest) = exact_item op # scan (w @ rest)"
proof -
  have n: "no_nul (w @ rest)" using assms sep_boundary by (intro no_nul_word) auto
  have first: "\<not> isSpecialSymbol (hd (w @ rest)) \<or> w @ rest = [] \<or> hd (w @ rest) = CHR '',''"
    using assms(2,3) by (cases w) (auto simp: plain_def sep_def)
  have one: "ends_symbol s (w @ rest)" if "string2token (s @ '','') = None" for s
    using n first that by (cases "w @ rest") (auto simp: ends_symbol_def)
  have sp: "isSpecialSymbol CHR ''=''" "isSpecialSymbol CHR ''!''" by (simp_all add: isSpecialSymbol_def)
  have e: "ends_symbol ''='' (w @ rest)" "ends_symbol ''=='' (w @ rest)" "ends_symbol ''!='' (w @ rest)"
    by (rule one, simp add: string2token_def)+
  consider "op = Equals" | "op = DoubleEquals" | "op = NotEquals" | "op = GreaterThan" | "op = LessThan" using assms(1) by (auto simp: exact_op_def)
  then show ?thesis
  proof cases
    case 1
    then show ?thesis using scan_one [OF _ sp(1) e(1)] by (simp add: operator_text_def exact_item_def string2token_def)
  next
    case 2
    then show ?thesis using scan_two [OF _ sp(1) sp(1) _ _ e(2)] by (simp add: operator_text_def exact_item_def string2token_def)
  next
    case 3
    then show ?thesis using scan_two [OF _ sp(2) sp(1) _ _ e(3)] by (simp add: operator_text_def exact_item_def string2token_def)
  next
    case 4
    then show ?thesis using scan_single [OF _ n, of "CHR ''>''"] by (simp add: operator_text_def exact_item_def string2token_def)
  next
    case 5
    then show ?thesis using scan_single [OF _ n, of "CHR ''<''"] by (simp add: operator_text_def exact_item_def string2token_def)
  qed
qed

lemma boundary_op: "exact_op op \<Longrightarrow> boundary (operator_text op @ s)"
  by (auto simp: exact_op_def operator_text_def boundary_def isSpecialSymbol_def NUL_def)

lemma scan_bang:
  assumes "k \<noteq> []" "word k"
  shows "scan (CHR ''!'' # k @ rest) = item DoesNotExistToken ''!'' # scan (k @ rest)"
proof (rule scan_one)
  show "ends_symbol ''!'' (k @ rest)" using assms by (cases k) (auto simp: ends_symbol_def no_nul_def plain_def)
qed (simp_all add: string2token_def isSpecialSymbol_def)

lemma scan_set_values:
  assumes "\<forall>v\<in>set vs. word v" "sep rest"
  shows "scan (CHR ''('' # Join vs '','' @ CHR '')'' # rest) = item OpenParToken ''('' # join_items vs @ item ClosedParToken '')'' # scan rest"
proof -
  have b: "boundary (CHR '')'' # rest)" by (simp add: boundary_def isSpecialSymbol_def NUL_def)
  have "no_nul (Join vs '','' @ CHR '')'' # rest)" using no_nul_join [OF assms(1)] b by simp
  then show ?thesis using scan_join [OF assms(1) b] scan_single [of "CHR ''(''"] scan_single [of "CHR '')''" rest] sep_boundary [OF assms(2)]
    by (simp add: string2token_def)
qed

lemma scan_req:
  assumes v: "valid_req r" and sep: "sep rest"
  shows "scan (Requirement_String r @ rest) = req_items r @ scan rest"
proof -
  have k: "rq_key r \<noteq> []" "word (rq_key r)" and vs: "\<forall>v\<in>set (rq_strValues r). word v"
    using v valid_key_word valid_value_word by (auto simp: valid_req_iff)
  show ?thesis
    using v
  proof (cases rule: valid_req_cases)
    case set
    have "(case rq_strValues r of [v] \<Rightarrow> v | _ \<Rightarrow> Join (safeSort (rq_strValues r)) '','') = Join (sort (rq_strValues r)) '',''"
      by (simp add: safeSort_sort split: list.split)
    then have s: "Requirement_String r = rq_key r @ CHR '' '' # (if rq_operator r = In then ''in'' else ''notin'') @ CHR '' '' #
        CHR ''('' # Join (sort (rq_strValues r)) '','' @ '')''"
      using set by (auto simp: Requirement_String_def Let_def set_op_def operator_text_def)
    have b: "boundary (CHR '' '' # x)" for x by (simp add: boundary_def isWhitespace_def NUL_def)
    have w: "word ''in''" "word ''notin''" by (simp_all add: plain_def NUL_def isSpecialSymbol_def isWhitespace_def)
    have "word_item ''in'' = item InToken ''in''" "word_item ''notin'' = item NotInToken ''notin''"
      by (simp_all add: word_item_def string2token_def)
    then show ?thesis
      using set vs k b w scan_word [OF w(1) _ b] scan_word [OF w(2) _ b] scan_set_values [of "sort (rq_strValues r)" rest] sep
      by (simp add: s scan_word scan_space req_items_def)
  next
    case (exact v)
    have "Requirement_String r = rq_key r @ operator_text (rq_operator r) @ v" "\<not> set_op (rq_operator r)"
      using exact by (auto simp: Requirement_String_def Let_def exact_op_def set_op_def)
    then show ?thesis
      using exact vs k sep boundary_op [OF exact(1)] scan_exact_op [OF exact(1) _ sep, of v] scan_words [of v rest] sep_boundary [OF sep]
      by (simp add: scan_word req_items_def)
  next
    case none
    then show ?thesis
      using k sep_boundary [OF sep] scan_bang [OF k]
      by (auto simp: Requirement_String_def Let_def operator_text_def req_items_def set_op_def exact_op_def scan_word)
  qed
qed

section \<open>Parsing the items\<close>

lemma in_context_item [simp]:
  "in_context Values (item tok lit) = (if tok = InToken \<or> tok = NotInToken then IdentifierToken else tok, lit)"
  "in_context KeyAndOperator it = (si_tok it, si_literal it)"
  by (simp_all add: in_context_def)

definition stops :: "ScannedItem list \<Rightarrow> bool" where
  "stops p \<longleftrightarrow> (case p of [] \<Rightarrow> False | it # _ \<Rightarrow> si_tok it = EndOfStringToken \<or> si_tok it = CommaToken)"

lemma stops_lookahead: "stops p \<Longrightarrow> \<exists>tok lit. lookahead Values p = Some (tok, lit) \<and> (tok = EndOfStringToken \<or> tok = CommaToken)"
  by (cases p) (auto simp: stops_def lookahead_def in_context_def)

lemma ident_list:
  assumes "\<forall>w\<in>set ws. word w \<and> w \<noteq> []" "ws \<noteq> []"
  shows "parseIdentifiersList s (join_items ws @ item ClosedParToken lit # p) = Some (Inr (s \<union> set ws, item ClosedParToken lit # p))"
  using assms
proof (induction ws arbitrary: s rule: join_items.induct)
  case (2 w)
  then show ?case by (auto simp: word_items_def word_item_ident lookahead_def)
next
  case (3 w v ws)
  obtain q where q: "join_items (v # ws) @ item ClosedParToken lit # p = word_item v # q"
    using 3 by (cases ws) (auto simp: word_items_def)
  have "parseIdentifiersList s (join_items (w # v # ws) @ item ClosedParToken lit # p) = parseIdentifiersList (insert w s) (word_item v # q)"
    using 3 q by (simp add: word_items_def word_item_ident lookahead_def)
  also have "\<dots> = Some (Inr (insert w s \<union> set (v # ws), item ClosedParToken lit # p))" using 3 q by simp
  finally show ?case by auto
qed simp

lemma parse_values_list:
  assumes "parseIdentifiersList {} (it # q) = Some (Inr (s, item ClosedParToken lit # p))"
    and "in_context Values it = (IdentifierToken, l) \<or> in_context Values it = (CommaToken, l)"
  shows "parseValues (item OpenParToken l' # it # q) = Some (Inr (s, p))"
  using assms by (auto simp: parseValues_def consume_def lookahead_def simp del: parseIdentifiersList.simps)

text \<open>The printed values of a set are in order, so the empty value comes first if at all.\<close>

lemma parse_values:
  assumes w: "\<forall>v\<in>set vs. word v" and ne: "vs \<noteq> []" and s: "sorted vs" "distinct vs"
  shows "parseValues (item OpenParToken ''('' # join_items vs @ item ClosedParToken '')'' # p) = Some (Inr (set vs, p))"
proof -
  obtain v ws where vs: "vs = v # ws" using ne by (cases vs) auto
  have nonempty: "\<forall>u\<in>set ws. u \<noteq> []"
  proof
    fix u assume u: "u \<in> set ws"
    then have "v \<le> u" "v \<noteq> u" using s by (auto simp: vs)
    then show "u \<noteq> []" by (cases v) (auto simp: Nil_le_Cons)
  qed
  show ?thesis
  proof (cases "v = []")
    case False
    obtain q where q: "join_items vs @ item ClosedParToken '')'' # p = word_item v # q"
      using False by (cases ws) (auto simp: vs word_items_def)
    have "parseIdentifiersList {} (word_item v # q) = Some (Inr (set vs, item ClosedParToken '')'' # p))"
      using ident_list [of vs "{}" "'')''" p] w nonempty False ne q by (auto simp: vs)
    then show ?thesis using parse_values_list [of "word_item v" q] w False unfolding q by (simp add: word_item_ident vs)
  next
    case True
    show ?thesis
    proof (cases ws)
      case Nil
      then show ?thesis using True by (simp add: vs parseValues_def consume_def lookahead_def word_items_def)
    next
      case (Cons u us)
      obtain q where q: "join_items ws @ item ClosedParToken '')'' # p = word_item u # q"
        using nonempty by (cases us) (auto simp: Cons word_items_def)
      have u: "in_context Values (word_item u) = (IdentifierToken, u)" using w nonempty by (simp add: word_item_ident vs Cons)
      have "parseIdentifiersList {} (item CommaToken '','' # word_item u # q) = parseIdentifiersList {[]} (word_item u # q)"
        using u by (simp add: Let_def)
      also have "\<dots> = Some (Inr (set vs, item ClosedParToken '')'' # p))"
        using ident_list [of ws "{[]}" "'')''" p] w nonempty q by (simp add: vs True Cons insert_commute del: parseIdentifiersList.simps)
      finally have "parseValues (item OpenParToken ''('' # item CommaToken '','' # word_item u # q) = Some (Inr (set vs, p))"
        by (rule parse_values_list) simp
      moreover have "join_items vs = item CommaToken '','' # join_items ws" by (simp add: vs True Cons word_items_def)
      ultimately show ?thesis using q by simp
    qed
  qed
qed

lemma parse_exact: "word v \<Longrightarrow> stops p \<Longrightarrow> parseExactValue (word_items v @ p) = Some (Inr ({v}, p))"
proof (cases "v = []")
  case True
  assume "stops p"
  then show ?thesis using stops_lookahead [of p] True by (auto simp: parseExactValue_def word_items_def)
next
  case False
  assume "word v"
  then show ?thesis using False
    by (simp add: parseExactValue_def word_items_def lookahead_def consume_def word_item_ident)
qed

definition canon :: "Requirement \<Rightarrow> Requirement" where
  "canon r = r\<lparr>rq_strValues := sort (rq_strValues r)\<rparr>"

lemma valid_canon: "valid_req r \<Longrightarrow> valid_req (canon r)"
proof -
  assume v: "valid_req r"
  then have "operator_errors (rq_operator r) (sort (rq_strValues r)) = []"
  proof (cases rule: valid_req_cases)
    case set
    then show ?thesis by (auto simp: set_op_def operator_errors_def)
  qed (use v in \<open>simp_all add: valid_req_iff\<close>)
  then show ?thesis using v by (simp add: valid_req_iff canon_def)
qed

lemma checked_valid:
  "valid_req \<lparr>rq_key = k, rq_operator = op, rq_strValues = vs\<rparr> \<Longrightarrow>
    checked_requirement k op vs p = Some (Inr (\<lparr>rq_key = k, rq_operator = op, rq_strValues = vs\<rparr>, p))"
proof -
  assume "valid_req \<lparr>rq_key = k, rq_operator = op, rq_strValues = vs\<rparr>"
  then have "NewRequirement k op vs = (\<lparr>rq_key = k, rq_operator = op, rq_strValues = vs\<rparr>, [])"
    by (intro prod_eqI) (simp_all add: valid_req_def, simp add: NewRequirement_def)
  then show ?thesis by (simp add: checked_requirement_def)
qed

lemma parse_key:
  assumes "valid_key k" "q = it # q'" "fst (in_context Values it) \<noteq> EndOfStringToken" "fst (in_context Values it) \<noteq> CommaToken"
  shows "parseKeyAndInferOperator (word_item k # q) = Some (Inr ((k, OtherOperator []), q))"
  using assms valid_key_word [OF assms(1)]
  by (auto simp: parseKeyAndInferOperator_def consume_def lookahead_def word_item_ident valid_key_def split: prod.split)

lemma parse_key_only:
  assumes "valid_key k" "stops q"
  shows "parseKeyAndInferOperator (word_item k # q) = Some (Inr ((k, Exists), q))"
    "parseKeyAndInferOperator (item DoesNotExistToken ''!'' # word_item k # q) = Some (Inr ((k, DoesNotExist), q))"
proof -
  obtain t lit where "lookahead Values q = Some (t, lit)" "t = EndOfStringToken \<or> t = CommaToken" using stops_lookahead assms(2) by blast
  then show "parseKeyAndInferOperator (word_item k # q) = Some (Inr ((k, Exists), q))"
    "parseKeyAndInferOperator (item DoesNotExistToken ''!'' # word_item k # q) = Some (Inr ((k, DoesNotExist), q))"
    using assms(1) valid_key_word [OF assms(1)]
   by (auto simp: parseKeyAndInferOperator_def consume_def word_item_ident valid_key_def)
qed

lemma parse_req:
  assumes v: "valid_req r" and d: "distinct (rq_strValues r)" and p: "stops p"
  shows "parseRequirement (req_items r @ p) = Some (Inr (canon r, p))"
proof -
  have k: "valid_key (rq_key r)" and vs: "\<forall>v\<in>set (rq_strValues r). word v"
    using v valid_value_word by (auto simp: valid_req_iff)
  have c: "checked_requirement (rq_key r) (rq_operator r) (sort (rq_strValues r)) q = Some (Inr (canon r, q))" for q
    using checked_valid [of "rq_key r" "rq_operator r" "sort (rq_strValues r)" q] valid_canon [OF v] by (cases r) (simp add: canon_def)
  show ?thesis
    using v
  proof (cases rule: valid_req_cases)
    case set
    define q where "q = item OpenParToken ''('' # join_items (sort (rq_strValues r)) @ item ClosedParToken '')'' # p"
    let ?op = "if rq_operator r = In then item InToken ''in'' else item NotInToken ''notin''"
    have "sort (rq_strValues r) \<noteq> []" using set(2) by (metis length_0_conv length_sort)
    then have "parseValues q = Some (Inr (set (rq_strValues r), p))"
      using parse_values [of "sort (rq_strValues r)" p] vs d by (simp add: q_def)
    moreover have "sorted_list_of_set (set (rq_strValues r)) = sort (rq_strValues r)"
      using d by (simp add: sorted_list_of_set_sort_remdups distinct_remdups_id)
    moreover have "parseKeyAndInferOperator (word_item (rq_key r) # ?op # q) = Some (Inr ((rq_key r, OtherOperator []), ?op # q))"
      by (rule parse_key [OF k refl]) auto
    ultimately have "parseRequirement (word_item (rq_key r) # ?op # q) = Some (Inr (canon r, p))"
      using c [of p] set(1) by (auto simp: parseRequirement_def parseOperator_def consume_def set_op_def)
    moreover have "req_items r @ p = word_item (rq_key r) # ?op # q" using set(1) by (simp add: req_items_def q_def)
    ultimately show ?thesis by simp
  next
    case (exact v)
    let ?q = "word_items v @ p"
    have op: "parseOperator (exact_item (rq_operator r) # ?q) = Some (Inr (rq_operator r, ?q))" "\<not> set_op (rq_operator r)"
      using exact(1) by (auto simp: exact_op_def exact_item_def parseOperator_def consume_def set_op_def)
    have "parseKeyAndInferOperator (word_item (rq_key r) # exact_item (rq_operator r) # ?q) =
        Some (Inr ((rq_key r, OtherOperator []), exact_item (rq_operator r) # ?q))"
      by (rule parse_key [OF k refl]) (use exact(1) in \<open>auto simp: exact_op_def exact_item_def\<close>)
    moreover have "parseExactValue ?q = Some (Inr ({v}, p))" using parse_exact [OF _ p] vs exact(2) by simp
    ultimately have "parseRequirement (word_item (rq_key r) # exact_item (rq_operator r) # ?q) = Some (Inr (canon r, p))"
      using c [of p] op exact by (auto simp: parseRequirement_def set_op_def)
    then show ?thesis using exact op(2) by (simp add: req_items_def)
  next
    case none
    then show ?thesis using parse_key_only [OF k p] c [of p]
      by (auto simp: parseRequirement_def req_items_def set_op_def exact_op_def)
  qed
qed

section \<open>Whole selectors\<close>

fun sel_items :: "Requirement list \<Rightarrow> ScannedItem list" where
  "sel_items [] = [item EndOfStringToken []]"
| "sel_items [r] = req_items r @ [item EndOfStringToken []]"
| "sel_items (r # r2 # rs) = req_items r @ item CommaToken '','' # sel_items (r2 # rs)"

lemma no_nul_req: "valid_req r \<Longrightarrow> no_nul (Requirement_String r @ rest)"
proof -
  assume "valid_req r"
  then obtain ch k where "rq_key r = ch # k" "plain ch" using valid_key_word [of "rq_key r"] by (cases "rq_key r") (auto simp: valid_req_iff)
  then show ?thesis by (auto simp: Requirement_String_def Let_def no_nul_def plain_def NUL_def)
qed

lemma scan_sel: "\<forall>r\<in>set rs. valid_req r \<Longrightarrow> scan (Join (map Requirement_String rs) '','') = sel_items rs"
proof (induction rs rule: sel_items.induct)
  case 1
  then show ?case by (simp add: scan_nil)
next
  case (2 r)
  then show ?case using scan_req [of r "[]"] by (simp add: sep_def scan_nil)
next
  case (3 r r2 rs)
  let ?s = "Join (map Requirement_String (r2 # rs)) '',''"
  have "\<exists>x. ?s = Requirement_String r2 @ x" by (cases rs) auto
  then have "no_nul ?s" using no_nul_req 3 by fastforce
  then show ?case using 3 scan_req [of r "CHR '','' # ?s"] scan_comma [of ?s] by (simp add: sep_def)
qed

lemma req_items_head:
  assumes "valid_req r"
  shows "\<exists>it q lit. req_items r @ p = it # q \<and> (in_context Values it = (IdentifierToken, lit) \<or> in_context Values it = (DoesNotExistToken, lit))"
proof -
  have k: "in_context Values (word_item (rq_key r)) = (IdentifierToken, rq_key r)"
    using assms valid_key_word by (simp add: valid_req_iff word_item_ident)
  show ?thesis
  proof (cases "rq_operator r = DoesNotExist")
    case True
    then show ?thesis by (simp add: req_items_def set_op_def exact_op_def)
  next
    case False
    then have "\<exists>q. req_items r @ p = word_item (rq_key r) # q" by (simp add: req_items_def)
    then show ?thesis using k by blast
  qed
qed

lemma head_lookahead:
  assumes "valid_req r"
  obtains tok lit where "lookahead Values (req_items r @ p) = Some (tok, lit)" "tok = IdentifierToken \<or> tok = DoesNotExistToken"
  using req_items_head [OF assms, of p] that by (auto simp: lookahead_def)

lemma sel_items_head: "\<exists>q. sel_items (r # rs) = req_items r @ q \<and> stops q"
  by (cases rs) (auto simp: stops_def)

lemma parse_loop_items:
  assumes "\<forall>r\<in>set rs. valid_req r \<and> distinct (rq_strValues r)"
  shows "parse_loop acc (sel_items rs) = Some (Inr (acc @ map canon rs))"
  using assms
proof (induction rs arbitrary: acc rule: sel_items.induct)
  case 1
  then show ?case by (subst parse_loop.simps) (simp add: lookahead_def)
next
  case (2 r)
  have h: "valid_req r" "distinct (rq_strValues r)" "stops [item EndOfStringToken []]" using 2 by (simp_all add: stops_def)
  obtain tok lit where "lookahead Values (sel_items [r]) = Some (tok, lit)" "tok = IdentifierToken \<or> tok = DoesNotExistToken"
    using head_lookahead [OF h(1)] by auto
  then show ?case using parse_req [OF h] by (subst parse_loop.simps) (auto simp: consume_def)
next
  case (3 r r2 rs)
  let ?p = "sel_items (r2 # rs)"
  have h: "valid_req r" "distinct (rq_strValues r)" "stops (item CommaToken '','' # ?p)" "valid_req r2" using 3 by (simp_all add: stops_def)
  obtain q where q: "?p = req_items r2 @ q" using sel_items_head by blast
  obtain tok lit where l: "lookahead Values (req_items r @ item CommaToken '','' # ?p) = Some (tok, lit)" "tok = IdentifierToken \<or> tok = DoesNotExistToken"
    using head_lookahead [OF h(1)] .
  obtain tok2 lit2 where l2: "lookahead Values ?p = Some (tok2, lit2)" "tok2 = IdentifierToken \<or> tok2 = DoesNotExistToken"
    unfolding q using head_lookahead [OF h(4)] .
  have "parse_loop acc (sel_items (r # r2 # rs)) = parse_loop (acc @ [canon r]) ?p"
    using parse_req [OF h(1-3)] l l2 by (subst parse_loop.simps) (auto simp: consume_def)
  then show ?case using 3 by simp
qed

section \<open>The parser always returns\<close>

text \<open>The scanned items end with the only end-of-string token, and no parsing function reads past it.\<close>

fun closed :: "ScannedItem list \<Rightarrow> bool" where
  "closed [] = False"
| "closed (it # p) = (if si_tok it = EndOfStringToken then p = [] else closed p)"

lemma scan_closed: "closed (scan l)"
proof (induction l rule: scan.induct)
  case (1 l)
  then show ?case by (subst scan.simps) (auto split: prod.split)
qed

definition gives :: "nat \<Rightarrow> ('a \<Rightarrow> bool) \<Rightarrow> 'a parsed \<Rightarrow> bool" where
  "gives n P r \<longleftrightarrow> (\<exists>x. r = Some x \<and> (\<forall>v p. x = Inr (v, p) \<longrightarrow> closed p \<and> length p < n \<and> P v))"

lemma gives_cases:
  assumes "gives n P r"
  obtains (err) e where "r = Some (Inl e)" | (ok) v p where "r = Some (Inr (v, p))" "closed p" "length p < n" "P v"
  using assms unfolding gives_def by (metis old.sum.exhaust surj_pair)

lemma gives_Inl [simp]: "gives n P (Some (Inl e))"
  by (simp add: gives_def)

lemma gives_Inr [simp]: "gives n P (Some (Inr (v, p))) \<longleftrightarrow> closed p \<and> length p < n \<and> P v"
  by (auto simp: gives_def)

lemma gives_mono: "gives n P r \<Longrightarrow> n \<le> m \<Longrightarrow> gives m P r"
  by (auto simp: gives_def)

lemma closed_consume:
  assumes "closed p"
  obtains it q where "p = it # q" "consume c p = Some (in_context c it, q)" "lookahead c p = Some (in_context c it)"
    "fst (in_context c it) \<noteq> EndOfStringToken \<Longrightarrow> closed q"
proof -
  obtain it q where p: "p = it # q" using assms by (cases p) auto
  have "fst (in_context c it) \<noteq> EndOfStringToken \<Longrightarrow> si_tok it \<noteq> EndOfStringToken" by (auto simp: in_context_def)
  then show ?thesis using that [of it q] assms p by (simp add: consume_def lookahead_def)
qed

lemma key_gives: "closed p \<Longrightarrow> gives (length p) (\<lambda>(k, op). valid_key k) (parseKeyAndInferOperator p)"
proof -
  assume "closed p"
  then obtain it q where p: "p = it # q" "consume Values p = Some (in_context Values it, q)"
    "fst (in_context Values it) \<noteq> EndOfStringToken \<Longrightarrow> closed q" using closed_consume by metis
  obtain tok lit where it: "in_context Values it = (tok, lit)" by fastforce
  have rest: "gives (length p) (\<lambda>(k, op). valid_key k)
      (if tok' \<noteq> IdentifierToken then Some (Inl (Errorf ''expected: identifier''))
       else case validateLabelKey literal of Some err \<Rightarrow> Some (Inl err)
         | None \<Rightarrow> lookahead Values p1 \<bind> (\<lambda>(t, _). let operator' = f t in Some (Inr ((literal, operator'), p1))))"
    if "tok' = IdentifierToken \<longrightarrow> closed p1 \<and> length p1 < length p" for tok' literal p1 f
  proof (cases "tok' = IdentifierToken")
    case True
    then have "closed p1" "length p1 < length p" using that by simp_all
    moreover obtain it1 where "lookahead Values p1 = Some (in_context Values it1)" using closed_consume [OF \<open>closed p1\<close>, of Values] by metis
    ultimately show ?thesis using True by (simp add: valid_key_def Let_def split: option.split prod.split)
  qed simp
  show ?thesis
  proof (cases "tok = DoesNotExistToken")
    case True
    then have "closed q" using p it by simp
    then obtain it2 q2 where q: "q = it2 # q2" "consume Values q = Some (in_context Values it2, q2)"
      "fst (in_context Values it2) \<noteq> EndOfStringToken \<Longrightarrow> closed q2" using closed_consume by metis
    obtain tok2 lit2 where it2: "in_context Values it2 = (tok2, lit2)" by fastforce
    have "tok2 = IdentifierToken \<longrightarrow> closed q2 \<and> length q2 < length p" using q it2 p by auto
    from rest [OF this, of "\<lambda>t. if t = EndOfStringToken \<or> t = CommaToken then DoesNotExist else DoesNotExist" lit2] show ?thesis
      by (simp add: parseKeyAndInferOperator_def p(2) it True q(2) it2 split: if_splits)
  next
    case False
    have "tok = IdentifierToken \<longrightarrow> closed q \<and> length q < length p" using p it by auto
    from rest [OF this, of "\<lambda>t. if t = EndOfStringToken \<or> t = CommaToken then Exists else OtherOperator []" lit] show ?thesis
      by (simp add: parseKeyAndInferOperator_def p(2) it False split: if_splits)
  qed
qed

lemma operator_gives: "closed p \<Longrightarrow> gives (length p) (\<lambda>op. set_op op \<or> exact_op op) (parseOperator p)"
proof -
  assume "closed p"
  then obtain it q where p: "p = it # q" "consume KeyAndOperator p = Some (in_context KeyAndOperator it, q)"
    "fst (in_context KeyAndOperator it) \<noteq> EndOfStringToken \<Longrightarrow> closed q" using closed_consume by metis
  obtain tok lit where "in_context KeyAndOperator it = (tok, lit)" by fastforce
  then show ?thesis using p by (cases tok) (auto simp: parseOperator_def set_op_def exact_op_def)
qed

declare parseIdentifiersList.simps(2) [simp del]

lemma ids_ident:
  assumes "in_context Values it = (IdentifierToken, lit)" "lookahead Values p = Some (t, l)"
  shows "parseIdentifiersList s (it # p) =
      (if t = CommaToken then parseIdentifiersList (insert lit s) p
       else if t = ClosedParToken then Some (Inr (insert lit s, p)) else Some (Inl (Errorf ''expected: comma or closing parenthesis'')))"
  by (subst parseIdentifiersList.simps(2)) (cases t; simp add: assms)

lemma ids_comma:
  assumes "in_context Values it = (CommaToken, lit)" "p = it2 # q" "in_context Values it2 = (t, l)" "s1 = (if s = {} then {[]} else s)"
  shows "parseIdentifiersList s (it # p) =
      (if t = ClosedParToken then Some (Inr (insert [] s1, p))
       else if t = CommaToken then parseIdentifiersList (insert [] s1) q else parseIdentifiersList s1 p)"
  unfolding assms(2) by (subst parseIdentifiersList.simps(2)) (cases t; simp add: assms(1,3,4) Let_def)

lemma ids_other:
  assumes "in_context Values it = (tok, lit)" "tok \<noteq> IdentifierToken" "tok \<noteq> CommaToken"
  shows "parseIdentifiersList s (it # p) = Some (Inl (Errorf ''expected: comma or identifier''))"
  using assms(2,3) by (subst parseIdentifiersList.simps(2)) (cases tok; simp add: assms(1))

lemma ids_gives: "closed p \<Longrightarrow> finite s \<Longrightarrow> gives (length p) finite (parseIdentifiersList s p)"
proof (induction p arbitrary: s rule: length_induct)
  case (1 p0)
  obtain it p where p0: "p0 = it # p" using 1(2) by (cases p0) auto
  obtain tok lit where it: "in_context Values it = (tok, lit)" by fastforce
  show ?case
  proof (cases "tok = IdentifierToken \<or> tok = CommaToken")
    case False
    then show ?thesis using ids_other [OF it] by (simp add: p0)
  next
    case True
    then have cl: "closed p" using 1(2) it by (auto simp: p0 in_context_def split: if_splits)
    then obtain it2 q where p: "p = it2 # q" "lookahead Values p = Some (in_context Values it2)"
      "fst (in_context Values it2) \<noteq> EndOfStringToken \<Longrightarrow> closed q" using closed_consume by metis
    obtain t l where it2: "in_context Values it2 = (t, l)" by fastforce
    have less: "gives (length p0) finite (parseIdentifiersList s' p')" if "finite s'" "closed p'" "length p' < length p0" for s' p'
    proof -
      have "gives (length p') finite (parseIdentifiersList s' p')" using 1(1) that by blast
      then show ?thesis using that(3) by (rule gives_mono [OF _ less_imp_le])
    qed
    have len: "length p < length p0" "length q < length p0" by (simp_all add: p0 p(1))
    have ih: "gives (length p0) finite (parseIdentifiersList s' p)" "closed q \<Longrightarrow> gives (length p0) finite (parseIdentifiersList s' q)"
      if "finite s'" for s'
      using less [OF that cl len(1)] less [OF that _ len(2)] by blast+
    show ?thesis
    proof (cases "tok = IdentifierToken")
      case True
      then show ?thesis using ids_ident [of it lit p t l s] it p(2) it2 ih(1) [of "insert lit s"] 1(3) cl by (simp add: p0)
    next
      case False
      then have c: "tok = CommaToken" using \<open>tok = IdentifierToken \<or> tok = CommaToken\<close> by simp
      define s1 where "s1 = (if s = {} then {[]} else s)"
      then have f: "finite s1" using 1(3) by simp
      show ?thesis using ids_comma [OF it [unfolded c] p(1) it2 s1_def] ih(1) [of s1] ih(2) [of "insert [] s1"] f cl p(3) it2
        by (simp add: p0)
    qed
  qed
qed

lemma values_gives: "closed p \<Longrightarrow> gives (length p) finite (parseValues p)"
proof -
  assume "closed p"
  then obtain it q where p: "p = it # q" "consume Values p = Some (in_context Values it, q)"
    "fst (in_context Values it) \<noteq> EndOfStringToken \<Longrightarrow> closed q" using closed_consume by metis
  obtain tok lit where it: "in_context Values it = (tok, lit)" by fastforce
  show ?thesis
  proof (cases "tok = OpenParToken")
    case True
    then have cl: "closed q" using p(3) it by simp
    then obtain it2 q2 where q: "q = it2 # q2" "consume Values q = Some (in_context Values it2, q2)"
      "lookahead Values q = Some (in_context Values it2)" "fst (in_context Values it2) \<noteq> EndOfStringToken \<Longrightarrow> closed q2"
      using closed_consume by metis
    obtain t l where it2: "in_context Values it2 = (t, l)" by fastforce
    have "gives (length q) finite (parseIdentifiersList {} q)" using ids_gives [OF cl] by simp
    then show ?thesis
    proof (cases rule: gives_cases)
      case (err e)
      then show ?thesis using p q it it2 True by (auto simp: parseValues_def)
    next
      case (ok s p2)
      then obtain it3 q3 where r: "p2 = it3 # q3" "consume Values p2 = Some (in_context Values it3, q3)"
        "fst (in_context Values it3) \<noteq> EndOfStringToken \<Longrightarrow> closed q3" using closed_consume by metis
      obtain t3 l3 where it3: "in_context Values it3 = (t3, l3)" by fastforce
      show ?thesis using p q it it2 True ok r it3 by (auto simp: parseValues_def)
    qed
  next
    case False
    then show ?thesis using p(2) it by (simp add: parseValues_def)
  qed
qed

lemma exact_gives: "closed p \<Longrightarrow> gives (Suc (length p)) finite (parseExactValue p)"
proof -
  assume cl: "closed p"
  then obtain it q where p: "p = it # q" "consume Values p = Some (in_context Values it, q)"
    "lookahead Values p = Some (in_context Values it)" "fst (in_context Values it) \<noteq> EndOfStringToken \<Longrightarrow> closed q"
    using closed_consume by metis
  obtain tok lit where "in_context Values it = (tok, lit)" by fastforce
  then show ?thesis using p cl by (auto simp: parseExactValue_def)
qed

lemma checked_gives: "closed p \<Longrightarrow> length p < n \<Longrightarrow> gives n valid_req (checked_requirement k op vs p)"
proof -
  assume p: "closed p" "length p < n"
  obtain r errs where n: "NewRequirement k op vs = (r, errs)" by fastforce
  have "r = \<lparr>rq_key = k, rq_operator = op, rq_strValues = vs\<rparr>" using n by (simp add: NewRequirement_def)
  then show ?thesis using p n by (cases errs) (simp_all add: checked_requirement_def valid_req_def)
qed

lemma requirement_gives: "closed p \<Longrightarrow> gives (length p) valid_req (parseRequirement p)"
proof -
  assume "closed p"
  then have "gives (length p) (\<lambda>(k, op). valid_key k) (parseKeyAndInferOperator p)" by (rule key_gives)
  then show ?thesis
  proof (cases rule: gives_cases)
    case (err e)
    then show ?thesis by (simp add: parseRequirement_def)
  next
    case (ok ko p1)
    obtain k op where ko: "ko = (k, op)" by fastforce
    show ?thesis
    proof (cases "op = Exists \<or> op = DoesNotExist")
      case True
      then show ?thesis using ok checked_gives [OF ok(2,3)] by (auto simp: parseRequirement_def ko)
    next
      case False
      have "gives (length p1) (\<lambda>op. set_op op \<or> exact_op op) (parseOperator p1)" using operator_gives [OF ok(2)] .
      then show ?thesis
      proof (cases rule: gives_cases)
        case (err e)
        then show ?thesis using ok False by (simp add: parseRequirement_def ko)
      next
        case ok2: (ok op' p2)
        let ?r = "if op' = In \<or> op' = NotIn then parseValues p2 else parseExactValue p2"
        have "gives (length p1) finite (parseValues p2)" "gives (length p1) finite (parseExactValue p2)"
          by (rule gives_mono [OF values_gives [OF ok2(2)]], use ok2(3) in simp)
            (rule gives_mono [OF exact_gives [OF ok2(2)]], use ok2(3) in simp)
        then have "gives (length p1) finite ?r" by simp
        then show ?thesis
        proof (cases rule: gives_cases)
          case (err e)
          then show ?thesis using ok ok2 False by (simp add: parseRequirement_def ko)
        next
          case ok3: (ok vs p3)
          then show ?thesis using ok ok2 False checked_gives [OF ok3(2), of "length p" k op' "sorted_list_of_set vs"]
            by (simp add: parseRequirement_def ko)
        qed
      qed
    qed
  qed
qed

lemma parse_loop_returns:
  "closed p \<Longrightarrow> \<forall>r\<in>set acc. valid_req r \<Longrightarrow> \<exists>x. parse_loop acc p = Some x \<and> (\<forall>rs. x = Inr rs \<longrightarrow> (\<forall>r\<in>set rs. valid_req r))"
proof (induction p arbitrary: acc rule: length_induct)
  case (1 p)
  obtain it q where p: "lookahead Values p = Some (in_context Values it)" using closed_consume [OF 1(2)] by metis
  obtain tok lit where it: "in_context Values it = (tok, lit)" by fastforce
  show ?case
  proof (cases "tok = IdentifierToken \<or> tok = DoesNotExistToken")
    case False
    then show ?thesis using p it 1(3) by (subst parse_loop.simps) auto
  next
    case True
    have "gives (length p) valid_req (parseRequirement p)" using requirement_gives [OF 1(2)] .
    then show ?thesis
    proof (cases rule: gives_cases)
      case (err e)
      then show ?thesis using p it True by (subst parse_loop.simps) auto
    next
      case (ok r p1)
      obtain it1 p2 where c: "p1 = it1 # p2" "consume Values p1 = Some (in_context Values it1, p2)"
        "fst (in_context Values it1) \<noteq> EndOfStringToken \<Longrightarrow> closed p2" using closed_consume [OF ok(2)] by metis
      obtain t l where it1: "in_context Values it1 = (t, l)" by fastforce
      show ?thesis
      proof (cases "t = CommaToken")
        case False
        then show ?thesis using p it True ok c it1 1(3) by (subst parse_loop.simps) auto
      next
        case comma: True
        then have cl: "closed p2" using c(3) it1 by simp
        obtain it2 where l2: "lookahead Values p2 = Some (in_context Values it2)" using closed_consume [OF cl] by metis
        obtain t2 l2' where it2: "in_context Values it2 = (t2, l2')" by fastforce
        have "length p2 < length p" using ok(3) c(1) by simp
        then have ih: "\<exists>x. parse_loop (acc @ [r]) p2 = Some x \<and> (\<forall>rs. x = Inr rs \<longrightarrow> (\<forall>r\<in>set rs. valid_req r))"
          using 1(1) cl 1(3) ok(4) by auto
        have "parse_loop acc p = (if t2 \<noteq> IdentifierToken \<and> t2 \<noteq> DoesNotExistToken then Some (Inl (Errorf ''expected: identifier after comma''))
            else parse_loop (acc @ [r]) p2)"
          using p it True ok c it1 comma l2 it2 by (subst parse_loop.simps) auto
        then show ?thesis using ih by simp
      qed
    qed
  qed
qed

section \<open>Matching\<close>

definition sorts_by_key :: "(Requirement list \<Rightarrow> Requirement list) \<Rightarrow> bool" where
  "sorts_by_key srt \<longleftrightarrow> (\<forall>rs. mset (srt rs) = mset rs \<and> sorted (map rq_key (srt rs)))"

lemma sort_key_sorts: "sorts_by_key (sort_key rq_key)"
  by (simp add: sorts_by_key_def)

lemma sorts_set: "sorts_by_key srt \<Longrightarrow> set (srt rs) = set rs"
  unfolding sorts_by_key_def by (metis set_mset_mset)

lemma internal_Matches_iff: "internal_Matches rs l \<longleftrightarrow> (\<forall>r\<in>set rs. Requirement_Matches r l)"
  by (induction rs) auto

lemma canon_matches: "valid_req r \<Longrightarrow> Requirement_Matches (canon r) l = Requirement_Matches r l"
proof -
  assume "valid_req r"
  then show ?thesis
  proof (cases rule: valid_req_cases)
    case set
    have "hasValue (canon r) v = hasValue r v" for v by (simp add: hasValue_def canon_def list_ex_iff)
    then show ?thesis using set(1) by (auto simp: Requirement_Matches_def canon_def set_op_def)
  qed (cases r; simp add: canon_def)+
qed

lemma sorted_unique:
  assumes "sorts_by_key srt" "sorted (map rq_key rs)" "distinct (map rq_key rs)"
  shows "srt rs = rs"
proof -
  have m: "mset (srt rs) = mset rs" and s: "sorted (map rq_key (srt rs))" using assms(1) by (simp_all add: sorts_by_key_def)
  have "sort (map rq_key rs) = map rq_key (srt rs)" by (rule properties_for_sort) (use m s in simp_all)
  then have k: "map rq_key (srt rs) = map rq_key rs" using sorted_sort_id [OF assms(2)] by simp
  have inj: "inj_on rq_key (set rs)" using assms(3) by (simp add: distinct_map)
  have "set (srt rs) = set rs" using m by (metis set_mset_mset)
  then show ?thesis using inj by (intro map_inj_on [OF k]) simp
qed

section \<open>Properties\<close>


text \<open>C27: The parser returns on every string, well formed or not: it neither loops nor reads past the
  scanned items. What it accepts consists of valid requirements, in the order of their keys.\<close>

theorem Parse_returns:
  assumes "sorts_by_key srt"
  shows "\<exists>res. Parse srt s = Some res \<and>
    (\<forall>sel. res = Inr sel \<longrightarrow> (\<exists>rs. sel = internalSelector rs \<and> sorted (map rq_key rs) \<and>
       (\<forall>r\<in>set rs. snd (NewRequirement (rq_key r) (rq_operator r) (rq_strValues r)) = [])))"
proof -
  obtain x where x: "parse_loop [] (scan s) = Some x" "\<And>rs. x = Inr rs \<Longrightarrow> \<forall>r\<in>set rs. valid_req r"
    using parse_loop_returns [OF scan_closed, of "[]" s] by auto
  show ?thesis
  proof (cases x)
    case (Inl e)
    then show ?thesis using x(1) by (simp add: Parse_def parse_def)
  next
    case (Inr rs)
    then have "\<forall>r\<in>set (srt rs). valid_req r" "sorted (map rq_key (srt rs))"
      using x(2) sorts_set [OF assms] assms by (simp_all add: sorts_by_key_def)
    then show ?thesis using x(1) Inr by (simp add: Parse_def parse_def valid_req_def)
  qed
qed

section \<open>The meaning of the API type\<close>

definition expr_holds :: "LabelSelectorRequirement \<Rightarrow> label_set \<Rightarrow> bool" where
  "expr_holds e l =
     (case lr_Operator e of
        LabelSelectorOpIn \<Rightarrow> (case l (lr_Key e) of None \<Rightarrow> False | Some v \<Rightarrow> v \<in> set (lr_Values e))
      | LabelSelectorOpNotIn \<Rightarrow> (case l (lr_Key e) of None \<Rightarrow> True | Some v \<Rightarrow> v \<notin> set (lr_Values e))
      | LabelSelectorOpExists \<Rightarrow> l (lr_Key e) \<noteq> None
      | LabelSelectorOpDoesNotExist \<Rightarrow> l (lr_Key e) = None
      | OtherLabelSelectorOp _ \<Rightarrow> False)"

definition expr_req :: "LabelSelectorRequirement \<Rightarrow> Requirement" where
  "expr_req e = \<lparr>rq_key = lr_Key e, rq_operator = the (selection_operator (lr_Operator e)), rq_strValues = lr_Values e\<rparr>"

definition label_req :: "label_set \<Rightarrow> string \<Rightarrow> Requirement" where
  "label_req m k = \<lparr>rq_key = k, rq_operator = Equals, rq_strValues = [Set_Get m k]\<rparr>"

lemma NewRequirement_cases:
  assumes "NewRequirement k op vs = (r, errs)"
  shows "r = \<lparr>rq_key = k, rq_operator = op, rq_strValues = vs\<rparr>" "errs = [] \<longleftrightarrow> valid_req r"
  using assms by (auto simp: valid_req_def NewRequirement_def)

lemma expr_req_matches:
  assumes "selection_operator (lr_Operator e) \<noteq> None"
  shows "Requirement_Matches (expr_req e) l = expr_holds e l"
  using assms by (cases "lr_Operator e") (auto simp: expr_req_def expr_holds_def Requirement_Matches_def selection_operator_def
      Set_Has_def Set_Get_def hasValue_def list_ex_iff split: option.split)

lemma label_req_matches: "Requirement_Matches (label_req m k) l \<longleftrightarrow> l k = Some (Set_Get m k)"
  by (auto simp: label_req_def Requirement_Matches_def Set_Has_def Set_Get_def hasValue_def split: option.split)

lemma add_match_labels_result:
  assumes "sorts_by_key srt"
  shows "(if \<forall>k\<in>set ks. valid_req (label_req m k)
      then \<exists>rs'. add_match_labels srt m ks (internalSelector rs) = Inr (internalSelector rs') \<and> set rs' = set rs \<union> label_req m ` set ks
      else \<exists>e. add_match_labels srt m ks (internalSelector rs) = Inl e)"
proof (induction ks arbitrary: rs)
  case (Cons k ks)
  obtain r errs where n: "NewRequirement k Equals [Set_Get m k] = (r, errs)" by fastforce
  note r = NewRequirement_cases [OF n]
  show ?case
  proof (cases errs)
    case Nil
    then have "valid_req (label_req m k)" "r = label_req m k" using r by (simp_all add: label_req_def)
    then show ?thesis using Cons.IH [of "srt (rs @ [r])"] n Nil sorts_set [OF assms, of "rs @ [r]"] by (auto split: if_splits)
  next
    case (Cons e es)
    then have "\<not> valid_req (label_req m k)" using r by (simp add: label_req_def)
    then show ?thesis using n Cons by simp
  qed
qed simp

lemma add_match_expressions_result:
  assumes "sorts_by_key srt"
  shows "(if \<forall>e\<in>set es. selection_operator (lr_Operator e) \<noteq> None \<and> valid_req (expr_req e)
      then \<exists>rs'. add_match_expressions srt es (internalSelector rs) = Inr (internalSelector rs') \<and> set rs' = set rs \<union> expr_req ` set es
      else \<exists>e. add_match_expressions srt es (internalSelector rs) = Inl e)"
proof (induction es arbitrary: rs)
  case (Cons x es)
  show ?case
  proof (cases "selection_operator (lr_Operator x)")
    case None
    then show ?thesis by simp
  next
    case (Some op)
    obtain r errs where n: "NewRequirement (lr_Key x) op (lr_Values x) = (r, errs)" by fastforce
    note r = NewRequirement_cases [OF n]
    have x: "r = expr_req x" using r(1) Some by (simp add: expr_req_def)
    show ?thesis
    proof (cases errs)
      case Nil
      then have "valid_req (expr_req x)" using r(2) unfolding x by simp
      then show ?thesis using Cons.IH [of "srt (rs @ [r])"] n Nil Some x sorts_set [OF assms, of "rs @ [r]"] by (auto split: if_splits)
    next
      case (Cons e es')
      then have "\<not> valid_req (expr_req x)" using r(2) unfolding x by simp
      then show ?thesis using n Cons Some by simp
    qed
  qed
qed simp

lemma map_le_all:
  assumes "range_order ks m"
  shows "m \<subseteq>\<^sub>m l \<longleftrightarrow> (\<forall>k\<in>set ks. l k = Some (Set_Get m k))"
proof -
  have d: "set ks = dom m" using assms by (simp add: range_order_def)
  show ?thesis unfolding map_le_def d by (rule ball_cong [OF refl]) (auto simp: Set_Get_def)
qed

text \<open>C16: \<open>LabelSelectorAsSelector\<close> succeeds exactly when every label pair and every expression makes a valid
  requirement with a known operator; the selector it returns then matches a label set if and only if all label pairs
  are in it and all expressions hold, whatever the order of the map and of equal keys. A nil selector becomes one that matches no labels.\<close>

theorem label_selector_meaning:
  assumes "sorts_by_key srt" "range_order ks (sl_MatchLabels ps)"
  shows "(if (\<forall>k\<in>set ks. snd (NewRequirement k Equals [Set_Get (sl_MatchLabels ps) k]) = []) \<and>
       (\<forall>e\<in>set (sl_MatchExpressions ps). \<exists>op. selection_operator (lr_Operator e) = Some op \<and> snd (NewRequirement (lr_Key e) op (lr_Values e)) = [])
     then \<exists>sel. LabelSelectorAsSelector srt ks (Some ps) = Inr sel \<and>
       (\<forall>l. Selector_Matches sel l \<longleftrightarrow> sl_MatchLabels ps \<subseteq>\<^sub>m l \<and> (\<forall>e\<in>set (sl_MatchExpressions ps). expr_holds e l))
     else \<exists>err. LabelSelectorAsSelector srt ks (Some ps) = Inl err) \<and>
    LabelSelectorAsSelector srt ks None = Inr Nothing \<and> \<not> Selector_Matches Nothing l"
proof -
  let ?m = "sl_MatchLabels ps" and ?es = "sl_MatchExpressions ps"
  have A: "(\<forall>k\<in>set ks. snd (NewRequirement k Equals [Set_Get ?m k]) = []) \<longleftrightarrow> (\<forall>k\<in>set ks. valid_req (label_req ?m k))"
    by (simp add: valid_req_def label_req_def)
  have B: "(\<forall>e\<in>set ?es. \<exists>op. selection_operator (lr_Operator e) = Some op \<and> snd (NewRequirement (lr_Key e) op (lr_Values e)) = []) \<longleftrightarrow>
      (\<forall>e\<in>set ?es. selection_operator (lr_Operator e) \<noteq> None \<and> valid_req (expr_req e))"
    by (rule ball_cong [OF refl]) (auto simp: valid_req_def expr_req_def)
  have "(if (\<forall>k\<in>set ks. valid_req (label_req ?m k)) \<and> (\<forall>e\<in>set ?es. selection_operator (lr_Operator e) \<noteq> None \<and> valid_req (expr_req e))
     then \<exists>sel. LabelSelectorAsSelector srt ks (Some ps) = Inr sel \<and>
       (\<forall>l. Selector_Matches sel l \<longleftrightarrow> ?m \<subseteq>\<^sub>m l \<and> (\<forall>e\<in>set ?es. expr_holds e l))
     else \<exists>err. LabelSelectorAsSelector srt ks (Some ps) = Inl err)"
  proof (cases "length ks + length ?es = 0")
    case True
    then show ?thesis using map_le_all [OF assms(2)] by (auto simp: LabelSelectorAsSelector_def Everything_def)
  next
    case False
    then have run: "LabelSelectorAsSelector srt ks (Some ps) = (case add_match_labels srt ?m ks (internalSelector []) of
        Inl err \<Rightarrow> Inl err | Inr selector \<Rightarrow> add_match_expressions srt ?es selector)"
      by (auto simp: LabelSelectorAsSelector_def NewSelector_def)
    show ?thesis
    proof (cases "\<forall>k\<in>set ks. valid_req (label_req ?m k)")
      case True
      then obtain rs where rs: "add_match_labels srt ?m ks (internalSelector []) = Inr (internalSelector rs)" "set rs = label_req ?m ` set ks"
        using add_match_labels_result [OF assms(1), of ks ?m "[]"] by auto
      show ?thesis
      proof (cases "\<forall>e\<in>set ?es. selection_operator (lr_Operator e) \<noteq> None \<and> valid_req (expr_req e)")
        case ok: True
        then obtain rs' where rs': "add_match_expressions srt ?es (internalSelector rs) = Inr (internalSelector rs')" "set rs' = set rs \<union> expr_req ` set ?es"
          using add_match_expressions_result [OF assms(1), of ?es rs] by auto
        have "Selector_Matches (internalSelector rs') l \<longleftrightarrow> ?m \<subseteq>\<^sub>m l \<and> (\<forall>e\<in>set ?es. expr_holds e l)" for l
          unfolding map_le_all [OF assms(2)] using ok
          by (simp add: internal_Matches_iff rs'(2) rs(2) ball_Un label_req_matches expr_req_matches)
        then show ?thesis using run rs(1) rs'(1) True ok by simp
      next
        case no: False
        then obtain e where "add_match_expressions srt ?es (internalSelector rs) = Inl e"
          using add_match_expressions_result [OF assms(1), of ?es rs] by (meson if_False)
        then show ?thesis using run rs(1) no by simp
      qed
    next
      case False
      then obtain e where "add_match_labels srt ?m ks (internalSelector []) = Inl e"
        using add_match_labels_result [OF assms(1), of ks ?m "[]"] by (auto simp del: bex_simps ball_simps)
      then show ?thesis using run False by simp
    qed
  qed
  then show ?thesis unfolding A B by (simp add: LabelSelectorAsSelector_def Nothing_def)
qed

lemma sample_requirements:
  "snd (NewRequirement ''app'' In [''a'', ''b'']) = []" "snd (NewRequirement ''tier'' DoesNotExist []) = []"
  "snd (NewRequirement ''app'' Equals [''web'']) = []"
  by code_simp+


theorem Parse_returns_witness: "\<exists>res. Parse (sort_key rq_key) ''x in (a,,), !y, z >= 3'' = Some res"
  using Parse_returns [OF sort_key_sorts, of "''x in (a,,), !y, z >= 3''"] by blast

theorem label_selector_meaning_witness:
  "\<exists>sel. LabelSelectorAsSelector (sort_key rq_key) [''app''] (Some \<lparr>sl_MatchLabels = [''app'' \<mapsto> ''web''],
      sl_MatchExpressions = [\<lparr>lr_Key = ''tier'', lr_Operator = LabelSelectorOpDoesNotExist, lr_Values = []\<rparr>]\<rparr>) = Inr sel \<and>
    Selector_Matches sel [''app'' \<mapsto> ''web''] \<and> \<not> Selector_Matches sel [''app'' \<mapsto> ''web'', ''tier'' \<mapsto> ''x'']"
  using label_selector_meaning [OF sort_key_sorts, of "[''app'']" "\<lparr>sl_MatchLabels = [''app'' \<mapsto> ''web''],
      sl_MatchExpressions = [\<lparr>lr_Key = ''tier'', lr_Operator = LabelSelectorOpDoesNotExist, lr_Values = []\<rparr>]\<rparr>" "Map.empty"] sample_requirements
  by (auto simp: range_order_def Set_Get_def selection_operator_def expr_holds_def Set_Has_def map_le_def)

end
