(* ===== verification/Pod_Info.thy ===== *)
theory Pod_Info
  imports Node_Info Selector_Correct
begin

text \<open>
  The scheduler's wrappers of pods and its cluster events (\<open>pkg/scheduler/framework/types.go\<close>):
  the affinity terms of a pod with their selectors parsed, \<open>PodInfo\<close> and \<open>QueuedPodInfo\<close>, and the
  kinds of cluster events.

  \<open>PodInfo\<close> extends the record of \<open>Node_Info\<close>, where only the pod is read, with the parsed terms.
  Building a selector ranges over a map and sorts requirements; the two orders are the fields of
  an argument \<open>go_orders\<close>. Aggregated errors are lists, and a wrapped error is paired with the
  text in front of it.
\<close>

section \<open>Cluster events\<close>

text \<open>Action types are bit masks in an \<open>int64\<close>.\<close>

type_synonym ActionType = "64 word"

definition ActionAdd :: ActionType where "ActionAdd = 1"
definition ActionDelete :: ActionType where "ActionDelete = 2"
definition UpdateNodeAllocatable :: ActionType where "UpdateNodeAllocatable = 4"
definition UpdateNodeLabel :: ActionType where "UpdateNodeLabel = 8"
definition UpdateNodeTaint :: ActionType where "UpdateNodeTaint = 16"
definition UpdateNodeCondition :: ActionType where "UpdateNodeCondition = 32"
definition ActionAll :: ActionType where "ActionAll = push_bit 6 1 - 1"

definition ActionUpdate :: ActionType where
  "ActionUpdate = or (or (or UpdateNodeAllocatable UpdateNodeLabel) UpdateNodeTaint) UpdateNodeCondition"

record ClusterEvent =
  ce_Resource :: string
  ce_ActionType :: ActionType

definition WildCardEvent :: ClusterEvent where
  "WildCardEvent = \<lparr>ce_Resource = ''*'', ce_ActionType = ActionAll\<rparr>"

section \<open>Priorities\<close>

definition PodPriority :: "pod \<Rightarrow> int" where
  "PodPriority pod = (case p_Priority pod of Some prio \<Rightarrow> prio | None \<Rightarrow> 0)"

section \<open>Affinity terms\<close>

record go_orders =
  go_sort :: "Requirement list \<Rightarrow> Requirement list"
  go_range :: "label_set \<Rightarrow> string list"

definition AsSelector :: "go_orders \<Rightarrow> LabelSelector option \<Rightarrow> go_error + Selector" where
  "AsSelector go ps =
     LabelSelectorAsSelector (go_sort go) (case ps of None \<Rightarrow> [] | Some s \<Rightarrow> go_range go (sl_MatchLabels s)) ps"

record AffinityTerm =
  at_Namespaces :: "string set"
  at_Selector :: Selector
  at_TopologyKey :: string
  at_NamespaceSelector :: Selector

definition AffinityTerm_Matches :: "AffinityTerm \<Rightarrow> pod \<Rightarrow> label_set \<Rightarrow> bool \<Rightarrow> bool" where
  "AffinityTerm_Matches t pod nsLabels nsSelectorEnabled =
     (if p_Namespace pod \<in> at_Namespaces t \<or> (nsSelectorEnabled \<and> Selector_Matches (at_NamespaceSelector t) nsLabels)
      then Selector_Matches (at_Selector t) (p_Labels pod)
      else False)"

record WeightedAffinityTerm =
  wt_AffinityTerm :: AffinityTerm
  wt_Weight :: int

definition getNamespacesFromPodAffinityTerm :: "pod \<Rightarrow> PodAffinityTerm \<Rightarrow> string set" where
  "getNamespacesFromPodAffinityTerm pod term =
     (if length (pt_Namespaces term) = 0 \<and> pt_NamespaceSelector term = None then {p_Namespace pod}
      else set (pt_Namespaces term))"

definition newAffinityTerm :: "go_orders \<Rightarrow> pod \<Rightarrow> PodAffinityTerm \<Rightarrow> go_error + AffinityTerm" where
  "newAffinityTerm go pod t =
     (case AsSelector go (pt_LabelSelector t) of
        Inl err \<Rightarrow> Inl err
      | Inr selector \<Rightarrow>
          (let namespaces = getNamespacesFromPodAffinityTerm pod t in
           case AsSelector go (pt_NamespaceSelector t) of
             Inl err \<Rightarrow> Inl err
           | Inr nsSelector \<Rightarrow>
               Inr \<lparr>at_Namespaces = namespaces, at_Selector = selector, at_TopologyKey = pt_TopologyKey t,
                    at_NamespaceSelector = nsSelector\<rparr>))"

fun getAffinityTerms :: "go_orders \<Rightarrow> pod \<Rightarrow> PodAffinityTerm list \<Rightarrow> go_error + AffinityTerm list" where
  "getAffinityTerms go pod [] = Inr []"
| "getAffinityTerms go pod (t # ts) =
     (case newAffinityTerm go pod t of
        Inl err \<Rightarrow> Inl err
      | Inr a \<Rightarrow> (case getAffinityTerms go pod ts of Inl err \<Rightarrow> Inl err | Inr as \<Rightarrow> Inr (a # as)))"

fun getWeightedAffinityTerms :: "go_orders \<Rightarrow> pod \<Rightarrow> WeightedPodAffinityTerm list \<Rightarrow> go_error + WeightedAffinityTerm list" where
  "getWeightedAffinityTerms go pod [] = Inr []"
| "getWeightedAffinityTerms go pod (t # ts) =
     (case newAffinityTerm go pod (wp_PodAffinityTerm t) of
        Inl err \<Rightarrow> Inl err
      | Inr a \<Rightarrow>
          (case getWeightedAffinityTerms go pod ts of
             Inl err \<Rightarrow> Inl err
           | Inr as \<Rightarrow> Inr (\<lparr>wt_AffinityTerm = a, wt_Weight = wp_Weight t\<rparr> # as)))"

definition getPodAffinityTerms :: "affinity option \<Rightarrow> PodAffinityTerm list" where
  "getPodAffinityTerms aff =
     (case aff of
        None \<Rightarrow> []
      | Some a \<Rightarrow> (case af_PodAffinity a of None \<Rightarrow> [] | Some pa \<Rightarrow> pa_Required pa))"

definition getPodAntiAffinityTerms :: "affinity option \<Rightarrow> PodAffinityTerm list" where
  "getPodAntiAffinityTerms aff =
     (case aff of
        None \<Rightarrow> []
      | Some a \<Rightarrow> (case af_PodAntiAffinity a of None \<Rightarrow> [] | Some pa \<Rightarrow> pa_Required pa))"

section \<open>Pods with parsed terms\<close>

record PodInfo = podInfo +
  pi_RequiredAffinityTerms :: "AffinityTerm list"
  pi_RequiredAntiAffinityTerms :: "AffinityTerm list"
  pi_PreferredAffinityTerms :: "WeightedAffinityTerm list"
  pi_PreferredAntiAffinityTerms :: "WeightedAffinityTerm list"
  pi_ParseError :: "(string \<times> go_error) list"

text \<open>The terms that failed to parse are nil, and the error goes to the list.\<close>

definition terms_of :: "go_error + 'a list \<Rightarrow> 'a list" where
  "terms_of r = (case r of Inl _ \<Rightarrow> [] | Inr ts \<Rightarrow> ts)"

definition parse_err :: "string \<Rightarrow> go_error + 'a list \<Rightarrow> (string \<times> go_error) list" where
  "parse_err what r = (case r of Inl err \<Rightarrow> [(what, err)] | Inr _ \<Rightarrow> [])"

definition preferred :: "podAffinity option \<Rightarrow> WeightedPodAffinityTerm list" where
  "preferred a = (case a of None \<Rightarrow> [] | Some pa \<Rightarrow> pa_Preferred pa)"

definition parsed_PodInfo :: "go_orders \<Rightarrow> pod \<Rightarrow> PodInfo" where
  "parsed_PodInfo go pod =
     (let preferredAffinityTerms = (case p_Affinity pod of None \<Rightarrow> [] | Some a \<Rightarrow> preferred (af_PodAffinity a));
          preferredAntiAffinityTerms = (case p_Affinity pod of None \<Rightarrow> [] | Some a \<Rightarrow> preferred (af_PodAntiAffinity a));
          required = getAffinityTerms go pod (getPodAffinityTerms (p_Affinity pod));
          requiredAnti = getAffinityTerms go pod (getPodAntiAffinityTerms (p_Affinity pod));
          weighted = getWeightedAffinityTerms go pod preferredAffinityTerms;
          weightedAnti = getWeightedAffinityTerms go pod preferredAntiAffinityTerms in
      \<lparr>pi_Pod = pod,
       pi_RequiredAffinityTerms = terms_of required,
       pi_RequiredAntiAffinityTerms = terms_of requiredAnti,
       pi_PreferredAffinityTerms = terms_of weighted,
       pi_PreferredAntiAffinityTerms = terms_of weightedAnti,
       pi_ParseError = parse_err ''requiredAffinityTerms'' required @ parse_err ''requiredAntiAffinityTerms'' requiredAnti @
         parse_err ''preferredAffinityTerms'' weighted @ parse_err ''preferredAntiAffinityTerms'' weightedAnti\<rparr>)"

text \<open>A \<open>PodInfo\<close> that has no pod yet is \<open>None\<close>; this is how \<open>NewPodInfo\<close> calls \<open>Update\<close>.\<close>

definition PodInfo_Update :: "go_orders \<Rightarrow> PodInfo option \<Rightarrow> pod \<Rightarrow> PodInfo" where
  "PodInfo_Update go pi pod =
     (case pi of
        Some i \<Rightarrow> (if p_UID (pi_Pod i) = p_UID pod then i\<lparr>pi_Pod := pod\<rparr> else parsed_PodInfo go pod)
      | None \<Rightarrow> parsed_PodInfo go pod)"

definition full_NewPodInfo :: "go_orders \<Rightarrow> pod \<Rightarrow> PodInfo" where
  "full_NewPodInfo go pod = PodInfo_Update go None pod"

lemma full_NewPodInfo_Pod [simp]: "pi_Pod (full_NewPodInfo go pod) = pod"
  by (simp add: full_NewPodInfo_def PodInfo_Update_def parsed_PodInfo_def Let_def)

lemma PodInfo_Update_Pod [simp]: "pi_Pod (PodInfo_Update go pi pod) = pod"
  by (simp add: PodInfo_Update_def parsed_PodInfo_def Let_def split: option.splits)

end
