(* ===== verification/Scheduling_Queue.thy ===== *)
theory Scheduling_Queue
  imports Pod_Info Scheduler_Heap Thread_Safe_Store
begin

text \<open>
  The scheduling queue (\<open>pkg/scheduler/internal/queue/scheduling_queue.go\<close>, \<open>events.go\<close>): pods wait in
  the active heap, in the backoff heap or in the map of unschedulable pods, and the nominator
  records pods that are expected on a node.

  Every exported method holds the queue's lock, so it is one function on the state; \<open>Pop\<close> waits
  when the active queue is empty and the queue is open. The clock's reading is the argument \<open>now\<close>,
  one reading per call. Metrics other than the recorders of the three parts are left out.

  A queued pod and the nominator may hold the same \<open>PodInfo\<close> by pointer, and an update of the pod
  writes through it. Each holder here has the contents together with the address, and
  \<open>updatePod\<close> changes all copies with the address at once.
\<close>

section \<open>Queued pods\<close>

record PodRef =
  pr_addr :: nat
  pr_info :: PodInfo

record QueuedPodInfo =
  qp_PodInfo :: PodRef
  qp_Timestamp :: int
  qp_Attempts :: nat
  qp_InitialAttemptTimestamp :: int
  qp_UnschedulablePlugins :: "string set"

abbreviation ref_pod :: "PodRef \<Rightarrow> pod" where
  "ref_pod r \<equiv> pi_Pod (pr_info r)"

abbreviation qp_Pod :: "QueuedPodInfo \<Rightarrow> pod" where
  "qp_Pod x \<equiv> ref_pod (qp_PodInfo x)"

text \<open>\<open>DeepCopy\<close> with the address of the copy as an argument; it does not copy the plugins.\<close>

definition QueuedPodInfo_DeepCopy :: "nat \<Rightarrow> QueuedPodInfo \<Rightarrow> QueuedPodInfo" where
  "QueuedPodInfo_DeepCopy a pqi =
     \<lparr>qp_PodInfo = \<lparr>pr_addr = a, pr_info = pr_info (qp_PodInfo pqi)\<rparr>, qp_Timestamp = qp_Timestamp pqi,
      qp_Attempts = qp_Attempts pqi, qp_InitialAttemptTimestamp = qp_InitialAttemptTimestamp pqi,
      qp_UnschedulablePlugins = {}\<rparr>"

definition pod_meta :: "pod \<Rightarrow> go_error + string \<times> string" where
  "pod_meta pod = Inr (p_Namespace pod, p_Name pod)"

definition podInfoKeyFunc :: "QueuedPodInfo \<Rightarrow> go_error + string" where
  "podInfoKeyFunc x = MetaNamespaceKeyFunc pod_meta (ApiObject (qp_Pod x))"

definition GetPodFullName :: "pod \<Rightarrow> string" where
  "GetPodFullName pod = p_Name pod @ ''_'' @ p_Namespace pod"

text \<open>The queue sort plugin (\<open>plugins/queuesort/priority_sort.go\<close>) orders the active queue.\<close>

definition PrioritySort_Less :: "QueuedPodInfo \<Rightarrow> QueuedPodInfo \<Rightarrow> bool" where
  "PrioritySort_Less pInfo1 pInfo2 =
     (let p1 = PodPriority (qp_Pod pInfo1); p2 = PodPriority (qp_Pod pInfo2) in
      p1 > p2 \<or> (p1 = p2 \<and> qp_Timestamp pInfo1 < qp_Timestamp pInfo2))"

section \<open>Unschedulable pods\<close>

record UnschedulablePodsMap =
  us_podInfoMap :: "string \<rightharpoonup> QueuedPodInfo"
  us_metricRecorder :: "int option"

definition us_addOrUpdate :: "UnschedulablePodsMap \<Rightarrow> QueuedPodInfo \<Rightarrow> UnschedulablePodsMap" where
  "us_addOrUpdate u pInfo =
     (let podID = GetPodFullName (qp_Pod pInfo) in
      u\<lparr>us_metricRecorder :=
          (if us_podInfoMap u podID = None then map_option (\<lambda>m. m + 1) (us_metricRecorder u) else us_metricRecorder u),
        us_podInfoMap := (us_podInfoMap u)(podID \<mapsto> pInfo)\<rparr>)"

definition us_delete :: "UnschedulablePodsMap \<Rightarrow> pod \<Rightarrow> UnschedulablePodsMap" where
  "us_delete u pod =
     (let podID = GetPodFullName pod in
      u\<lparr>us_metricRecorder :=
          (if us_podInfoMap u podID \<noteq> None then map_option (\<lambda>m. m - 1) (us_metricRecorder u) else us_metricRecorder u),
        us_podInfoMap := (us_podInfoMap u)(podID := None)\<rparr>)"

definition us_get :: "UnschedulablePodsMap \<Rightarrow> pod \<Rightarrow> QueuedPodInfo option" where
  "us_get u pod = us_podInfoMap u (GetPodFullName pod)"

definition us_clear :: "UnschedulablePodsMap \<Rightarrow> UnschedulablePodsMap" where
  "us_clear u = u\<lparr>us_podInfoMap := Map.empty, us_metricRecorder := map_option (\<lambda>_. 0) (us_metricRecorder u)\<rparr>"

definition newUnschedulablePodsMap :: "int option \<Rightarrow> UnschedulablePodsMap" where
  "newUnschedulablePodsMap metricRecorder = \<lparr>us_podInfoMap = Map.empty, us_metricRecorder = metricRecorder\<rparr>"

section \<open>Nominated pods\<close>

record nominatedPodMap =
  np_nominatedPods :: "string \<rightharpoonup> PodRef list"
  np_nominatedPodToNode :: "string \<rightharpoonup> string"

definition NewPodNominator :: nominatedPodMap where
  "NewPodNominator = \<lparr>np_nominatedPods = Map.empty, np_nominatedPodToNode = Map.empty\<rparr>"

definition NominatedPodsForNode :: "nominatedPodMap \<Rightarrow> string \<Rightarrow> PodRef list" where
  "NominatedPodsForNode npm nodeName = (case np_nominatedPods npm nodeName of None \<Rightarrow> [] | Some rs \<Rightarrow> rs)"

text \<open>The search of \<open>delete\<close>: the list without the first entry of the UID, if there is one.\<close>

fun remove_uid :: "string \<Rightarrow> PodRef list \<Rightarrow> PodRef list option" where
  "remove_uid uid [] = None"
| "remove_uid uid (r # rs) = (if p_UID (ref_pod r) = uid then Some rs else map_option (Cons r) (remove_uid uid rs))"

definition np_delete :: "nominatedPodMap \<Rightarrow> pod \<Rightarrow> nominatedPodMap" where
  "np_delete npm p =
     (case np_nominatedPodToNode npm (p_UID p) of
        None \<Rightarrow> npm
      | Some nnn \<Rightarrow>
          (let pods = (case remove_uid (p_UID p) (NominatedPodsForNode npm nnn) of
                 None \<Rightarrow> np_nominatedPods npm
               | Some rs \<Rightarrow> (np_nominatedPods npm)(nnn := (if length rs = 0 then None else Some rs))) in
           npm\<lparr>np_nominatedPods := pods, np_nominatedPodToNode := (np_nominatedPodToNode npm)(p_UID p := None)\<rparr>))"

definition np_add :: "nominatedPodMap \<Rightarrow> PodRef \<Rightarrow> string \<Rightarrow> nominatedPodMap" where
  "np_add npm0 pi nodeName =
     (let npm = np_delete npm0 (ref_pod pi);
          nnn = (if length nodeName = 0 then p_NominatedNodeName (ref_pod pi) else nodeName) in
      if length nnn = 0 then npm
      else
        let npm1 = npm\<lparr>np_nominatedPodToNode := (np_nominatedPodToNode npm)(p_UID (ref_pod pi) \<mapsto> nnn)\<rparr>;
            rs = NominatedPodsForNode npm nnn in
        if list_ex (\<lambda>npi. p_UID (ref_pod npi) = p_UID (ref_pod pi)) rs then npm1
        else npm1\<lparr>np_nominatedPods := (np_nominatedPods npm1)(nnn \<mapsto> rs @ [pi])\<rparr>)"

definition AddNominatedPod :: "nominatedPodMap \<Rightarrow> PodRef \<Rightarrow> string \<Rightarrow> nominatedPodMap" where
  "AddNominatedPod npm pi nodeName = np_add npm pi nodeName"

definition DeleteNominatedPodIfExists :: "nominatedPodMap \<Rightarrow> pod \<Rightarrow> nominatedPodMap" where
  "DeleteNominatedPodIfExists npm pod = np_delete npm pod"

text \<open>A nil old pod is dereferenced.\<close>

definition UpdateNominatedPod :: "nominatedPodMap \<Rightarrow> pod option \<Rightarrow> PodRef \<Rightarrow> nominatedPodMap go" where
  "UpdateNominatedPod npm oldPod newPodInfo =
     (case oldPod of
        None \<Rightarrow> None
      | Some old \<Rightarrow>
          (let nodeName =
             (if p_NominatedNodeName old = [] \<and> p_NominatedNodeName (ref_pod newPodInfo) = [] then
                (case np_nominatedPodToNode npm (p_UID old) of None \<Rightarrow> [] | Some nnn \<Rightarrow> nnn)
              else []) in
           Some (np_add (np_delete npm old) newPodInfo nodeName)))"

text \<open>A write to the \<open>PodInfo\<close> at an address, seen by the nominator's pointers to it.\<close>

definition np_refresh :: "nat \<Rightarrow> PodInfo \<Rightarrow> nominatedPodMap \<Rightarrow> nominatedPodMap" where
  "np_refresh a i npm =
     npm\<lparr>np_nominatedPods := (\<lambda>n. map_option (map (\<lambda>r. if pr_addr r = a then r\<lparr>pr_info := i\<rparr> else r)) (np_nominatedPods npm n))\<rparr>"

section \<open>Events\<close>

definition clusterEventReg :: "string \<rightharpoonup> ClusterEvent" where
  "clusterEventReg = map_of
     [(''AssignedPodAdd'', \<lparr>ce_Resource = ''Pod'', ce_ActionType = ActionAdd\<rparr>),
      (''AssignedPodUpdate'', \<lparr>ce_Resource = ''Pod'', ce_ActionType = ActionUpdate\<rparr>),
      (''AssignedPodDelete'', \<lparr>ce_Resource = ''Pod'', ce_ActionType = ActionDelete\<rparr>),
      (''NodeAdd'', \<lparr>ce_Resource = ''Node'', ce_ActionType = ActionAdd\<rparr>),
      (''NodeSpecUnschedulableChange'', \<lparr>ce_Resource = ''Node'', ce_ActionType = UpdateNodeTaint\<rparr>),
      (''NodeAllocatableChange'', \<lparr>ce_Resource = ''Node'', ce_ActionType = UpdateNodeAllocatable\<rparr>),
      (''NodeLabelChange'', \<lparr>ce_Resource = ''Node'', ce_ActionType = UpdateNodeLabel\<rparr>),
      (''NodeTaintChange'', \<lparr>ce_Resource = ''Node'', ce_ActionType = UpdateNodeTaint\<rparr>),
      (''NodeConditionChange'', \<lparr>ce_Resource = ''Node'', ce_ActionType = UpdateNodeCondition\<rparr>),
      (''PvAdd'', \<lparr>ce_Resource = ''PersistentVolume'', ce_ActionType = ActionAdd\<rparr>),
      (''PvUpdate'', \<lparr>ce_Resource = ''PersistentVolume'', ce_ActionType = ActionUpdate\<rparr>),
      (''PvcAdd'', \<lparr>ce_Resource = ''PersistentVolumeClaim'', ce_ActionType = ActionAdd\<rparr>),
      (''PvcUpdate'', \<lparr>ce_Resource = ''PersistentVolumeClaim'', ce_ActionType = ActionUpdate\<rparr>),
      (''StorageClassAdd'', \<lparr>ce_Resource = ''storage.k8s.io/StorageClass'', ce_ActionType = ActionAdd\<rparr>),
      (''CSINodeAdd'', \<lparr>ce_Resource = ''storage.k8s.io/CSINode'', ce_ActionType = ActionAdd\<rparr>),
      (''CSINodeUpdate'', \<lparr>ce_Resource = ''storage.k8s.io/CSINode'', ce_ActionType = ActionUpdate\<rparr>),
      (''ServiceAdd'', \<lparr>ce_Resource = ''Service'', ce_ActionType = ActionAdd\<rparr>),
      (''ServiceUpdate'', \<lparr>ce_Resource = ''Service'', ce_ActionType = ActionUpdate\<rparr>),
      (''ServiceDelete'', \<lparr>ce_Resource = ''Service'', ce_ActionType = ActionDelete\<rparr>),
      (''UnschedulableTimeout'', WildCardEvent)]"

definition intersect :: "string set \<Rightarrow> string set \<Rightarrow> bool" where
  "intersect x y = (let (x', y') = (if card x > card y then (y, x) else (x, y)) in \<exists>v\<in>x'. v \<in> y')"

section \<open>The queue\<close>

text \<open>\<open>pq_clusterEventMap\<close> lists the entries of the map in the order a loop visits them;
  \<open>pq_next\<close> is the next free address.\<close>

record PriorityQueue =
  pq_nominator :: nominatedPodMap
  pq_podInitialBackoffDuration :: int
  pq_podMaxBackoffDuration :: int
  pq_activeQ :: "QueuedPodInfo Heap"
  pq_podBackoffQ :: "QueuedPodInfo Heap"
  pq_unschedulableQ :: UnschedulablePodsMap
  pq_schedulingCycle :: int
  pq_moveRequestCycle :: int
  pq_clusterEventMap :: "(ClusterEvent \<times> string set) list"
  pq_closed :: bool
  pq_next :: nat

definition unschedulableQTimeInterval :: int where
  "unschedulableQTimeInterval = 60 * 10 ^ 9"

fun backoff_loop :: "nat \<Rightarrow> int \<Rightarrow> int \<Rightarrow> int" where
  "backoff_loop 0 maxDuration duration = duration"
| "backoff_loop (Suc n) maxDuration duration =
     (let d = wrap64 (duration * 2) in if d > maxDuration then maxDuration else backoff_loop n maxDuration d)"

definition calculateBackoffDuration :: "int \<Rightarrow> int \<Rightarrow> QueuedPodInfo \<Rightarrow> int" where
  "calculateBackoffDuration initial maxDuration podInfo = backoff_loop (qp_Attempts podInfo - 1) maxDuration initial"

definition getBackoffTime :: "int \<Rightarrow> int \<Rightarrow> QueuedPodInfo \<Rightarrow> int" where
  "getBackoffTime initial maxDuration podInfo = qp_Timestamp podInfo + calculateBackoffDuration initial maxDuration podInfo"

definition podsCompareBackoffCompleted :: "int \<Rightarrow> int \<Rightarrow> QueuedPodInfo \<Rightarrow> QueuedPodInfo \<Rightarrow> bool" where
  "podsCompareBackoffCompleted initial maxDuration podInfo1 podInfo2 =
     (getBackoffTime initial maxDuration podInfo1 < getBackoffTime initial maxDuration podInfo2)"

definition NewPriorityQueue ::
  "(QueuedPodInfo \<Rightarrow> QueuedPodInfo \<Rightarrow> bool) \<Rightarrow> int \<Rightarrow> int \<Rightarrow> nominatedPodMap option \<Rightarrow> (ClusterEvent \<times> string set) list \<Rightarrow>
   PriorityQueue" where
  "NewPriorityQueue lessFn initial maxDuration podNominator clusterEventMap =
     \<lparr>pq_nominator = (case podNominator of None \<Rightarrow> NewPodNominator | Some n \<Rightarrow> n),
      pq_podInitialBackoffDuration = initial,
      pq_podMaxBackoffDuration = maxDuration,
      pq_activeQ = NewWithRecorder podInfoKeyFunc lessFn (Some 0),
      pq_podBackoffQ = NewWithRecorder podInfoKeyFunc (podsCompareBackoffCompleted initial maxDuration) (Some 0),
      pq_unschedulableQ = newUnschedulablePodsMap (Some 0),
      pq_schedulingCycle = 0,
      pq_moveRequestCycle = - 1,
      pq_clusterEventMap = clusterEventMap,
      pq_closed = False,
      pq_next = 0\<rparr>"

definition pq_getBackoffTime :: "PriorityQueue \<Rightarrow> QueuedPodInfo \<Rightarrow> int" where
  "pq_getBackoffTime p podInfo = getBackoffTime (pq_podInitialBackoffDuration p) (pq_podMaxBackoffDuration p) podInfo"

definition isPodBackingoff :: "PriorityQueue \<Rightarrow> int \<Rightarrow> QueuedPodInfo \<Rightarrow> bool" where
  "isPodBackingoff p now podInfo = (pq_getBackoffTime p podInfo > now)"

definition SchedulingCycle :: "PriorityQueue \<Rightarrow> int" where
  "SchedulingCycle p = pq_schedulingCycle p"

definition newQueuedPodInfo :: "go_orders \<Rightarrow> int \<Rightarrow> PriorityQueue \<Rightarrow> pod \<Rightarrow> string list \<Rightarrow> QueuedPodInfo \<times> PriorityQueue" where
  "newQueuedPodInfo go now p pod plugins =
     (\<lparr>qp_PodInfo = \<lparr>pr_addr = pq_next p, pr_info = full_NewPodInfo go pod\<rparr>, qp_Timestamp = now, qp_Attempts = 0,
       qp_InitialAttemptTimestamp = now, qp_UnschedulablePlugins = set plugins\<rparr>,
      p\<lparr>pq_next := Suc (pq_next p)\<rparr>)"

text \<open>Only the pod of such an object is read.\<close>

definition newQueuedPodInfoForLookup :: "pod \<Rightarrow> string list \<Rightarrow> QueuedPodInfo" where
  "newQueuedPodInfoForLookup pod plugins =
     \<lparr>qp_PodInfo = \<lparr>pr_addr = 0, pr_info = \<lparr>pi_Pod = pod, pi_RequiredAffinityTerms = [], pi_RequiredAntiAffinityTerms = [],
        pi_PreferredAffinityTerms = [], pi_PreferredAntiAffinityTerms = [], pi_ParseError = []\<rparr>\<rparr>,
      qp_Timestamp = 0, qp_Attempts = 0, qp_InitialAttemptTimestamp = 0, qp_UnschedulablePlugins = set plugins\<rparr>"

definition pq_Add :: "go_orders \<Rightarrow> int \<Rightarrow> pod \<Rightarrow> PriorityQueue \<Rightarrow> (PriorityQueue \<times> go_error option) go" where
  "pq_Add go now pod p =
     (let (pInfo, p1) = newQueuedPodInfo go now p pod [] in
      do {
        (a, err) \<leftarrow> Heap_Add (pq_activeQ p1) pInfo;
        let p2 = p1\<lparr>pq_activeQ := a\<rparr>;
        case err of
          Some e \<Rightarrow> Some (p2, Some e)
        | None \<Rightarrow>
            let p3 = (if us_get (pq_unschedulableQ p2) pod \<noteq> None
                      then p2\<lparr>pq_unschedulableQ := us_delete (pq_unschedulableQ p2) pod\<rparr> else p2) in
            do {
              (b, _) \<leftarrow> Heap_Delete (pq_podBackoffQ p3) pInfo;
              Some (p3\<lparr>pq_podBackoffQ := b, pq_nominator := AddNominatedPod (pq_nominator p3) (qp_PodInfo pInfo) []\<rparr>, None)
            }
      })"

text \<open>\<open>obj, exists, _ := h.Get(x)\<close>: a key error counts as absent.\<close>

definition heap_find :: "QueuedPodInfo Heap \<Rightarrow> QueuedPodInfo \<Rightarrow> QueuedPodInfo option" where
  "heap_find h x = (case Heap_Get h x of Inl _ \<Rightarrow> None | Inr r \<Rightarrow> r)"

definition AddUnschedulableIfNotPresent ::
  "int \<Rightarrow> QueuedPodInfo \<Rightarrow> int \<Rightarrow> PriorityQueue \<Rightarrow> (PriorityQueue \<times> go_error option) go" where
  "AddUnschedulableIfNotPresent now pInfo0 podSchedulingCycle p =
     (let pod = qp_Pod pInfo0 in
      if us_get (pq_unschedulableQ p) pod \<noteq> None then Some (p, Some (Errorf ''already present in unschedulable queue''))
      else if heap_find (pq_activeQ p) pInfo0 \<noteq> None then Some (p, Some (Errorf ''already present in the active queue''))
      else if heap_find (pq_podBackoffQ p) pInfo0 \<noteq> None then Some (p, Some (Errorf ''already present in the backoff queue''))
      else
        let pInfo = pInfo0\<lparr>qp_Timestamp := now\<rparr> in
        if pq_moveRequestCycle p \<ge> podSchedulingCycle then
          do {
            (b, err) \<leftarrow> Heap_Add (pq_podBackoffQ p) pInfo;
            let p1 = p\<lparr>pq_podBackoffQ := b\<rparr>;
            case err of
              Some e \<Rightarrow> Some (p1, Some (Errorf ''error adding pod to the backoff queue''))
            | None \<Rightarrow> Some (p1\<lparr>pq_nominator := AddNominatedPod (pq_nominator p1) (qp_PodInfo pInfo) []\<rparr>, None)
          }
        else
          let p1 = p\<lparr>pq_unschedulableQ := us_addOrUpdate (pq_unschedulableQ p) pInfo\<rparr> in
          Some (p1\<lparr>pq_nominator := AddNominatedPod (pq_nominator p1) (qp_PodInfo pInfo) []\<rparr>, None))"

text \<open>The loop of \<open>flushBackoffQCompleted\<close>.\<close>

partial_function (option) flushBackoffQCompleted :: "int \<Rightarrow> PriorityQueue \<Rightarrow> PriorityQueue go" where
  "flushBackoffQCompleted now p =
     do {
       raw \<leftarrow> Heap_Peek (pq_podBackoffQ p);
       case raw of
         None \<Rightarrow> Some p
       | Some rawPodInfo \<Rightarrow>
           if pq_getBackoffTime p rawPodInfo > now then Some p
           else
             do {
               (b, r) \<leftarrow> Heap_Pop (pq_podBackoffQ p);
               let p1 = p\<lparr>pq_podBackoffQ := b\<rparr>;
               case r of
                 Inl _ \<Rightarrow> Some p1
               | Inr _ \<Rightarrow>
                   do {
                     (a, _) \<leftarrow> Heap_Add (pq_activeQ p1) rawPodInfo;
                     flushBackoffQCompleted now (p1\<lparr>pq_activeQ := a\<rparr>)
                   }
             }
     }"

definition event_match :: "ClusterEvent \<Rightarrow> ClusterEvent \<Rightarrow> bool" where
  "event_match evt clusterEvent =
     (evt = WildCardEvent \<or>
      ce_Resource evt = ce_Resource clusterEvent \<and> and (ce_ActionType evt) (ce_ActionType clusterEvent) \<noteq> 0)"

definition podMatchesEvent :: "PriorityQueue \<Rightarrow> QueuedPodInfo \<Rightarrow> string \<Rightarrow> bool" where
  "podMatchesEvent p podInfo event =
     (case clusterEventReg event of
        None \<Rightarrow> False
      | Some clusterEvent \<Rightarrow>
          if clusterEvent = WildCardEvent then True
          else list_ex (\<lambda>(evt, nameSet). event_match evt clusterEvent \<and> intersect nameSet (qp_UnschedulablePlugins podInfo))
                 (pq_clusterEventMap p))"

fun move_loop :: "int \<Rightarrow> string \<Rightarrow> QueuedPodInfo list \<Rightarrow> PriorityQueue \<Rightarrow> PriorityQueue go" where
  "move_loop now event [] p = Some p"
| "move_loop now event (pInfo # podInfoList) p =
     (if qp_UnschedulablePlugins pInfo \<noteq> {} \<and> \<not> podMatchesEvent p pInfo event then move_loop now event podInfoList p
      else if isPodBackingoff p now pInfo then
        do {
          (b, err) \<leftarrow> Heap_Add (pq_podBackoffQ p) pInfo;
          let p1 = p\<lparr>pq_podBackoffQ := b\<rparr>;
          move_loop now event podInfoList
            (if err \<noteq> None then p1 else p1\<lparr>pq_unschedulableQ := us_delete (pq_unschedulableQ p1) (qp_Pod pInfo)\<rparr>)
        }
      else
        do {
          (a, err) \<leftarrow> Heap_Add (pq_activeQ p) pInfo;
          let p1 = p\<lparr>pq_activeQ := a\<rparr>;
          move_loop now event podInfoList
            (if err \<noteq> None then p1 else p1\<lparr>pq_unschedulableQ := us_delete (pq_unschedulableQ p1) (qp_Pod pInfo)\<rparr>)
        })"

definition movePodsToActiveOrBackoffQueue :: "int \<Rightarrow> QueuedPodInfo list \<Rightarrow> string \<Rightarrow> PriorityQueue \<Rightarrow> PriorityQueue go" where
  "movePodsToActiveOrBackoffQueue now podInfoList event p =
     do {
       p1 \<leftarrow> move_loop now event podInfoList p;
       Some (p1\<lparr>pq_moveRequestCycle := pq_schedulingCycle p1\<rparr>)
     }"

text \<open>The order \<open>ks\<close> is that of the loop over \<open>podInfoMap\<close>.\<close>

definition us_pods :: "string list \<Rightarrow> PriorityQueue \<Rightarrow> QueuedPodInfo list" where
  "us_pods ks p = List.map_filter (us_podInfoMap (pq_unschedulableQ p)) ks"

definition MoveAllToActiveOrBackoffQueue :: "int \<Rightarrow> string list \<Rightarrow> string \<Rightarrow> PriorityQueue \<Rightarrow> PriorityQueue go" where
  "MoveAllToActiveOrBackoffQueue now ks event p = movePodsToActiveOrBackoffQueue now (us_pods ks p) event p"

definition flushUnschedulableQLeftover :: "int \<Rightarrow> string list \<Rightarrow> PriorityQueue \<Rightarrow> PriorityQueue go" where
  "flushUnschedulableQLeftover now ks p =
     (let podsToMove = filter (\<lambda>pInfo. now - qp_Timestamp pInfo > unschedulableQTimeInterval) (us_pods ks p) in
      if length podsToMove > 0 then movePodsToActiveOrBackoffQueue now podsToMove ''UnschedulableTimeout'' p
      else Some p)"

text \<open>\<open>nsLister\<close> is nil or the present labels of each namespace; the labels are copied entry by entry.\<close>

definition GetNamespaceLabelsSnapshot :: "go_orders \<Rightarrow> string \<Rightarrow> (string \<rightharpoonup> label_set) \<Rightarrow> label_set" where
  "GetNamespaceLabelsSnapshot go ns nsLister =
     (case nsLister ns of None \<Rightarrow> Map.empty | Some l \<Rightarrow> Merge (go_range go l) [] l Map.empty)"

definition getUnschedulablePodsWithMatchingAffinityTerm ::
  "go_orders \<Rightarrow> (string \<rightharpoonup> label_set) option \<Rightarrow> string list \<Rightarrow> pod \<Rightarrow> PriorityQueue \<Rightarrow> QueuedPodInfo list" where
  "getUnschedulablePodsWithMatchingAffinityTerm go nsLister ks pod p =
     (let nsSelectorEnabled = (nsLister \<noteq> None);
          nsLabels = (case nsLister of None \<Rightarrow> Map.empty | Some l \<Rightarrow> GetNamespaceLabelsSnapshot go (p_Namespace pod) l) in
      filter (\<lambda>pInfo. list_ex (\<lambda>t. AffinityTerm_Matches t pod nsLabels nsSelectorEnabled)
                (pi_RequiredAffinityTerms (pr_info (qp_PodInfo pInfo)))) (us_pods ks p))"

definition AssignedPodAdded ::
  "go_orders \<Rightarrow> (string \<rightharpoonup> label_set) option \<Rightarrow> int \<Rightarrow> string list \<Rightarrow> pod \<Rightarrow> PriorityQueue \<Rightarrow> PriorityQueue go" where
  "AssignedPodAdded go nsLister now ks pod p =
     movePodsToActiveOrBackoffQueue now (getUnschedulablePodsWithMatchingAffinityTerm go nsLister ks pod p) ''AssignedPodAdd'' p"

definition AssignedPodUpdated ::
  "go_orders \<Rightarrow> (string \<rightharpoonup> label_set) option \<Rightarrow> int \<Rightarrow> string list \<Rightarrow> pod \<Rightarrow> PriorityQueue \<Rightarrow> PriorityQueue go" where
  "AssignedPodUpdated go nsLister now ks pod p =
     movePodsToActiveOrBackoffQueue now (getUnschedulablePodsWithMatchingAffinityTerm go nsLister ks pod p) ''AssignedPodUpdate'' p"

text \<open>\<open>Some None\<close> when the call waits on the condition variable.\<close>

definition pq_Pop :: "PriorityQueue \<Rightarrow> (PriorityQueue \<times> (go_error + QueuedPodInfo)) option go" where
  "pq_Pop p =
     (if Heap_Len (pq_activeQ p) = 0 then
        (if pq_closed p then Some (Some (p, Inl (Errorf ''scheduling queue is closed''))) else Some None)
      else
        do {
          (a, r) \<leftarrow> Heap_Pop (pq_activeQ p);
          let p1 = p\<lparr>pq_activeQ := a\<rparr>;
          case r of
            Inl err \<Rightarrow> Some (Some (p1, Inl err))
          | Inr pInfo \<Rightarrow>
              Some (Some (p1\<lparr>pq_schedulingCycle := pq_schedulingCycle p1 + 1\<rparr>,
                Inr (pInfo\<lparr>qp_Attempts := qp_Attempts pInfo + 1\<rparr>)))
        })"

definition MakeNextPodFunc :: "PriorityQueue \<Rightarrow> (PriorityQueue \<times> QueuedPodInfo option) option go" where
  "MakeNextPodFunc p =
     do {
       r \<leftarrow> pq_Pop p;
       Some (case r of
           None \<Rightarrow> None
         | Some (p1, Inr podInfo) \<Rightarrow> Some (p1, Some podInfo)
         | Some (p1, Inl _) \<Rightarrow> Some (p1, None))
     }"

definition strip :: "pod \<Rightarrow> pod" where
  "strip p = p\<lparr>p_ResourceVersion := [], p_Generation := 0, p_NominatedNodeName := [], p_Conditions := [], p_Status := []\<rparr>"

text \<open>Writing to a nil copy is a panic.\<close>

definition isPodUpdated :: "pod option \<Rightarrow> pod \<Rightarrow> bool go" where
  "isPodUpdated oldPod newPod =
     (case oldPod of
        None \<Rightarrow> None
      | Some old \<Rightarrow> Some (strip old \<noteq> strip newPod))"

definition updatePod :: "go_orders \<Rightarrow> QueuedPodInfo \<Rightarrow> pod \<Rightarrow> PriorityQueue \<Rightarrow> QueuedPodInfo \<times> PriorityQueue" where
  "updatePod go oldPodInfo newPod p =
     (let r = qp_PodInfo oldPodInfo; i = PodInfo_Update go (Some (pr_info r)) newPod in
      (oldPodInfo\<lparr>qp_PodInfo := r\<lparr>pr_info := i\<rparr>\<rparr>,
       p\<lparr>pq_nominator := np_refresh (pr_addr r) i (pq_nominator p)\<rparr>))"

definition update_active ::
  "go_orders \<Rightarrow> pod \<Rightarrow> pod \<Rightarrow> QueuedPodInfo \<Rightarrow> PriorityQueue \<Rightarrow> (PriorityQueue \<times> go_error option) go" where
  "update_active go oldPod newPod oldPodInfo p =
     (let (pInfo, p1) = updatePod go oldPodInfo newPod p in
      do {
        npm \<leftarrow> UpdateNominatedPod (pq_nominator p1) (Some oldPod) (qp_PodInfo pInfo);
        (a, err) \<leftarrow> Heap_Update (pq_activeQ p1) pInfo;
        Some (p1\<lparr>pq_nominator := npm, pq_activeQ := a\<rparr>, err)
      })"

definition update_backoff ::
  "go_orders \<Rightarrow> pod \<Rightarrow> pod \<Rightarrow> QueuedPodInfo \<Rightarrow> PriorityQueue \<Rightarrow> (PriorityQueue \<times> go_error option) go" where
  "update_backoff go oldPod newPod oldPodInfo p =
     (let (pInfo, p1) = updatePod go oldPodInfo newPod p in
      do {
        npm \<leftarrow> UpdateNominatedPod (pq_nominator p1) (Some oldPod) (qp_PodInfo pInfo);
        (b, err) \<leftarrow> Heap_Update (pq_podBackoffQ p1) pInfo;
        Some (p1\<lparr>pq_nominator := npm, pq_podBackoffQ := b\<rparr>, err)
      })"

text \<open>The entry of the map is written through the pointer as well.\<close>

definition update_unschedulable ::
  "go_orders \<Rightarrow> int \<Rightarrow> pod option \<Rightarrow> pod \<Rightarrow> QueuedPodInfo \<Rightarrow> PriorityQueue \<Rightarrow> (PriorityQueue \<times> go_error option) go" where
  "update_unschedulable go now oldPod newPod usPodInfo p =
     (let (pInfo, p0) = updatePod go usPodInfo newPod p;
          u = pq_unschedulableQ p0;
          p1 = p0\<lparr>pq_unschedulableQ := u\<lparr>us_podInfoMap := (us_podInfoMap u)(GetPodFullName newPod \<mapsto> pInfo)\<rparr>\<rparr> in
      do {
        npm \<leftarrow> UpdateNominatedPod (pq_nominator p1) oldPod (qp_PodInfo pInfo);
        let p2 = p1\<lparr>pq_nominator := npm\<rparr>;
        updated \<leftarrow> isPodUpdated oldPod newPod;
        if updated then
          if isPodBackingoff p2 now pInfo then
            do {
              (b, err) \<leftarrow> Heap_Add (pq_podBackoffQ p2) pInfo;
              let p3 = p2\<lparr>pq_podBackoffQ := b\<rparr>;
              Some (case err of
                  Some e \<Rightarrow> (p3, Some e)
                | None \<Rightarrow> (p3\<lparr>pq_unschedulableQ := us_delete (pq_unschedulableQ p3) (qp_Pod pInfo)\<rparr>, None))
            }
          else
            do {
              (a, err) \<leftarrow> Heap_Add (pq_activeQ p2) pInfo;
              let p3 = p2\<lparr>pq_activeQ := a\<rparr>;
              Some (case err of
                  Some e \<Rightarrow> (p3, Some e)
                | None \<Rightarrow> (p3\<lparr>pq_unschedulableQ := us_delete (pq_unschedulableQ p3) (qp_Pod pInfo)\<rparr>, None))
            }
        else Some (p2\<lparr>pq_unschedulableQ := us_addOrUpdate (pq_unschedulableQ p2) pInfo\<rparr>, None)
      })"

text \<open>The rest of \<open>Update\<close>, when the old pod is in neither heap.\<close>

definition update_rest :: "go_orders \<Rightarrow> int \<Rightarrow> pod option \<Rightarrow> pod \<Rightarrow> PriorityQueue \<Rightarrow> (PriorityQueue \<times> go_error option) go" where
  "update_rest go now oldPod newPod p =
     (case us_get (pq_unschedulableQ p) newPod of
        Some usPodInfo \<Rightarrow> update_unschedulable go now oldPod newPod usPodInfo p
      | None \<Rightarrow>
          let (pInfo, p1) = newQueuedPodInfo go now p newPod [] in
          do {
            (a, err) \<leftarrow> Heap_Add (pq_activeQ p1) pInfo;
            let p2 = p1\<lparr>pq_activeQ := a\<rparr>;
            Some (case err of
                Some e \<Rightarrow> (p2, Some e)
              | None \<Rightarrow> (p2\<lparr>pq_nominator := AddNominatedPod (pq_nominator p2) (qp_PodInfo pInfo) []\<rparr>, None))
          })"

definition pq_Update :: "go_orders \<Rightarrow> int \<Rightarrow> pod option \<Rightarrow> pod \<Rightarrow> PriorityQueue \<Rightarrow> (PriorityQueue \<times> go_error option) go" where
  "pq_Update go now oldPod newPod p =
     (case oldPod of
        None \<Rightarrow> update_rest go now oldPod newPod p
      | Some old \<Rightarrow>
          (let oldPodInfo = newQueuedPodInfoForLookup old [] in
           case heap_find (pq_activeQ p) oldPodInfo of
             Some x \<Rightarrow> update_active go old newPod x p
           | None \<Rightarrow>
               (case heap_find (pq_podBackoffQ p) oldPodInfo of
                  Some x \<Rightarrow> update_backoff go old newPod x p
                | None \<Rightarrow> update_rest go now oldPod newPod p)))"

definition pq_Delete :: "pod \<Rightarrow> PriorityQueue \<Rightarrow> PriorityQueue go" where
  "pq_Delete pod p =
     (let p1 = p\<lparr>pq_nominator := DeleteNominatedPodIfExists (pq_nominator p) pod\<rparr> in
      do {
        (a, err) \<leftarrow> Heap_Delete (pq_activeQ p1) (newQueuedPodInfoForLookup pod []);
        let p2 = p1\<lparr>pq_activeQ := a\<rparr>;
        if err \<noteq> None then
          do {
            (b, _) \<leftarrow> Heap_Delete (pq_podBackoffQ p2) (newQueuedPodInfoForLookup pod []);
            Some (p2\<lparr>pq_podBackoffQ := b, pq_unschedulableQ := us_delete (pq_unschedulableQ p2) pod\<rparr>)
          }
        else Some p2
      })"

text \<open>The orders in which the three maps are listed are arguments.\<close>

definition PendingPods :: "string list \<Rightarrow> string list \<Rightarrow> string list \<Rightarrow> PriorityQueue \<Rightarrow> pod list" where
  "PendingPods as bs ks p =
     map qp_Pod (Heap_List as (pq_activeQ p)) @ map qp_Pod (Heap_List bs (pq_podBackoffQ p)) @ map qp_Pod (us_pods ks p)"

text \<open>Closing the channel \<open>stop\<close> a second time is a panic.\<close>

definition pq_Close :: "PriorityQueue \<Rightarrow> PriorityQueue go" where
  "pq_Close p = (if pq_closed p then None else Some (p\<lparr>pq_closed := True\<rparr>))"

definition NumUnschedulablePods :: "PriorityQueue \<Rightarrow> nat" where
  "NumUnschedulablePods p = card (dom (us_podInfoMap (pq_unschedulableQ p)))"

text \<open>The nominator's methods, called through the queue.\<close>

definition pq_AddNominatedPod :: "PodRef \<Rightarrow> string \<Rightarrow> PriorityQueue \<Rightarrow> PriorityQueue" where
  "pq_AddNominatedPod pi nodeName p = p\<lparr>pq_nominator := AddNominatedPod (pq_nominator p) pi nodeName\<rparr>"

definition pq_DeleteNominatedPodIfExists :: "pod \<Rightarrow> PriorityQueue \<Rightarrow> PriorityQueue" where
  "pq_DeleteNominatedPodIfExists pod p = p\<lparr>pq_nominator := DeleteNominatedPodIfExists (pq_nominator p) pod\<rparr>"

end
