(* ===== verification/Queue_Places.thy ===== *)
theory Queue_Places
  imports Scheduling_Queue
begin

text \<open>
  The three parts of the scheduling queue as finite maps from pod identities. The heaps key a pod
  by \<open>namespace/name\<close>, the unschedulable pods by \<open>name_namespace\<close>; for names that pass the
  validation of the API server both keys determine the pod. On such pods the operations of the
  parts are map operations, which the proofs about the queue rest on.
\<close>

section \<open>Identities and keys\<close>

definition pod_id :: "pod \<Rightarrow> string \<times> string" where
  "pod_id pod = (p_Namespace pod, p_Name pod)"

abbreviation qid :: "QueuedPodInfo \<Rightarrow> string \<times> string" where
  "qid x \<equiv> pod_id (qp_Pod x)"

definition valid_id :: "string \<times> string \<Rightarrow> bool" where
  "valid_id i \<longleftrightarrow> IsDNS1123Label (fst i) = [] \<and> IsDNS1123Subdomain (snd i) = []"

definition id_key :: "string \<times> string \<Rightarrow> string" where
  "id_key i = (if length (fst i) > 0 then fst i @ ''/'' @ snd i else snd i)"

definition id_full :: "string \<times> string \<Rightarrow> string" where
  "id_full i = snd i @ ''_'' @ fst i"

lemma podInfoKeyFunc_id: "podInfoKeyFunc x = Inr (id_key (qid x))"
  by (simp add: podInfoKeyFunc_def MetaNamespaceKeyFunc_def pod_meta_def id_key_def pod_id_def)

lemma GetPodFullName_id: "GetPodFullName pod = id_full (pod_id pod)"
  by (simp add: GetPodFullName_def id_full_def pod_id_def)

lemma IsDNS1123Label_Nil: "IsDNS1123Label v = [] \<longleftrightarrow> length v \<le> 63 \<and> dns_label v"
  unfolding IsDNS1123Label_def length_or_match_Nil by (simp only: dns_label_match not_less)

lemma dns_label_chars: "dns_label v \<Longrightarrow> c \<in> set v \<Longrightarrow> lower_alnum c \<or> c = CHR ''-''"
  by (auto simp: dns_label_def)

lemma subdomain_chars: "IsDNS1123Subdomain v = [] \<Longrightarrow> c \<in> set v \<Longrightarrow> lower_alnum c \<or> c = CHR ''-'' \<or> c = CHR ''.''"
  using split_on_join [of c v "CHR ''.''"] dns_label_chars by (auto simp: IsDNS1123Subdomain_Nil)

lemma separators_not_alnum: "\<not> lower_alnum CHR ''/''" "\<not> lower_alnum CHR ''_''"
  by (simp_all add: lower_alnum_def less_eq_char_def)

lemma valid_id_chars:
  assumes "valid_id i"
  shows "fst i \<noteq> []" "CHR ''/'' \<notin> set (fst i)" "CHR ''_'' \<notin> set (snd i)"
proof -
  have d: "dns_label (fst i)" and s: "IsDNS1123Subdomain (snd i) = []"
    using assms by (auto simp: valid_id_def IsDNS1123Label_Nil)
  show "fst i \<noteq> []" using d by (auto simp: dns_label_def)
  show "CHR ''/'' \<notin> set (fst i)" using dns_label_chars [OF d] separators_not_alnum by auto
  show "CHR ''_'' \<notin> set (snd i)" using subdomain_chars [OF s] separators_not_alnum by auto
qed

lemma first_separator_unique:
  "c \<notin> set xs \<Longrightarrow> c \<notin> set xs' \<Longrightarrow> xs @ c # ys = xs' @ c # ys' \<longleftrightarrow> xs = xs' \<and> ys = ys'"
proof (induction xs arbitrary: xs')
  case Nil
  then show ?case by (cases xs') auto
next
  case (Cons x xs)
  then show ?case by (cases xs') auto
qed

lemma id_key_inj: "valid_id i \<Longrightarrow> valid_id j \<Longrightarrow> id_key i = id_key j \<longleftrightarrow> i = j"
  using valid_id_chars(1,2) [of i] valid_id_chars(1,2) [of j]
  by (auto simp: id_key_def first_separator_unique prod_eq_iff)

lemma id_full_inj: "valid_id i \<Longrightarrow> valid_id j \<Longrightarrow> id_full i = id_full j \<longleftrightarrow> i = j"
  using valid_id_chars(3) [of i] valid_id_chars(3) [of j]
  by (auto simp: id_full_def first_separator_unique prod_eq_iff)

section \<open>Heaps of pods\<close>

definition pod_heap :: "(QueuedPodInfo \<Rightarrow> QueuedPodInfo \<Rightarrow> bool) \<Rightarrow> QueuedPodInfo Heap \<Rightarrow> bool" where
  "pod_heap lessFn h \<longleftrightarrow> heap_ok podInfoKeyFunc lessFn h \<and> (\<forall>x\<in>ran (heap_map h). valid_id (qid x))"

definition heap_pods :: "QueuedPodInfo Heap \<Rightarrow> string \<times> string \<rightharpoonup> QueuedPodInfo" where
  "heap_pods h i = (if valid_id i then heap_map h (id_key i) else None)"

lemma pod_heap_inv: "pod_heap lessFn h \<Longrightarrow> heap_inv h" "pod_heap lessFn h \<Longrightarrow> heap_key h x = Inr (id_key (qid x))"
  "pod_heap lessFn h \<Longrightarrow> heap_less h = lessFn"
  by (auto simp: pod_heap_def heap_ok_def podInfoKeyFunc_id)

lemma heap_pods_qid:
  assumes "pod_heap lessFn h" "heap_pods h i = Some x"
  shows "qid x = i" "valid_id i"
proof -
  show v: "valid_id i" using assms(2) by (auto simp: heap_pods_def split: if_splits)
  have m: "heap_map h (id_key i) = Some x" using assms(2) v by (simp add: heap_pods_def)
  then have "id_key (qid x) = id_key i" "valid_id (qid x)"
    using sched_queue.q_keys [OF pod_heap_inv(1) [OF assms(1)] m] pod_heap_inv(2) [OF assms(1)] assms(1)
    by (auto simp: pod_heap_def ran_def)
  then show "qid x = i" using id_key_inj v by blast
qed

lemma heap_map_pods:
  assumes "pod_heap lessFn h"
  shows "heap_map h k = Some x \<longleftrightarrow> k = id_key (qid x) \<and> heap_pods h (qid x) = Some x"
proof
  assume m: "heap_map h k = Some x"
  then have "k = id_key (qid x)" "valid_id (qid x)"
    using sched_queue.q_keys [OF pod_heap_inv(1) [OF assms] m] pod_heap_inv(2) [OF assms] assms
    by (auto simp: pod_heap_def ran_def)
  then show "k = id_key (qid x) \<and> heap_pods h (qid x) = Some x" using m by (simp add: heap_pods_def)
qed (auto simp: heap_pods_def split: if_splits)

lemma heap_pods_ran: "pod_heap lessFn h \<Longrightarrow> ran (heap_map h) = ran (heap_pods h)"
proof -
  assume h: "pod_heap lessFn h"
  have "x \<in> ran (heap_map h) \<longleftrightarrow> x \<in> ran (heap_pods h)" for x
  proof
    assume "x \<in> ran (heap_map h)"
    then obtain k where "heap_map h k = Some x" by (auto simp: ran_def)
    then show "x \<in> ran (heap_pods h)" using heap_map_pods [OF h] by (auto intro: ranI)
  next
    assume "x \<in> ran (heap_pods h)"
    then obtain i where i: "heap_pods h i = Some x" by (auto simp: ran_def)
    then have "heap_map h (id_key i) = Some x" using heap_pods_qid(2) [OF h i] by (simp add: heap_pods_def)
    then show "x \<in> ran (heap_map h)" by (rule ranI)
  qed
  then show ?thesis by blast
qed

lemma heap_pods_empty: "pod_heap lessFn h \<Longrightarrow> heap_map h = Map.empty \<longleftrightarrow> heap_pods h = Map.empty"
proof -
  assume "pod_heap lessFn h"
  then have "ran (heap_map h) = ran (heap_pods h)" by (rule heap_pods_ran)
  moreover have "ran m = {} \<longleftrightarrow> m = Map.empty" for m :: "'k \<rightharpoonup> QueuedPodInfo"
    by (auto simp: ran_def fun_eq_iff) (metis option.exhaust)
  ultimately show ?thesis by metis
qed

lemma heap_pods_step:
  assumes "pod_heap lessFn h" "heap_step h h' m" "valid_id i" "m = (heap_map h)(id_key i := r)"
    "\<forall>x. r = Some x \<longrightarrow> qid x = i"
  shows "pod_heap lessFn h' \<and> heap_pods h' = (heap_pods h)(i := r)"
proof -
  have m: "heap_map h' = (heap_map h)(id_key i := r)" using assms(2,4) by (simp add: heap_step_def)
  have "heap_ok podInfoKeyFunc lessFn h'" using assms(1,2) heap_ok_step by (auto simp: pod_heap_def)
  moreover have "\<forall>x\<in>ran (heap_map h'). valid_id (qid x)"
  proof
    fix x assume "x \<in> ran (heap_map h')"
    then obtain k where "(if k = id_key i then r else heap_map h k) = Some x" unfolding m by (auto simp: ran_def)
    then show "valid_id (qid x)"
      using assms(1,3,5) by (cases "k = id_key i") (auto simp: pod_heap_def ran_def)
  qed
  moreover have "heap_pods h' j = ((heap_pods h)(i := r)) j" for j
    using assms(3) id_key_inj [of j i] by (simp add: heap_pods_def m)
  ultimately show ?thesis by (auto simp: pod_heap_def)
qed

lemma pod_heap_Add:
  assumes "pod_heap lessFn h" "valid_id (qid x)"
  shows "\<exists>h'. Heap_Add h x = Some (h', None) \<and> pod_heap lessFn h' \<and> heap_pods h' = (heap_pods h)(qid x \<mapsto> x)"
  using Heap_Add_ok [OF pod_heap_inv(1,2) [OF assms(1)], of x] heap_pods_step [OF assms(1) _ assms(2), of _ _ "Some x"]
  by (metis option.inject)

lemma pod_heap_Delete:
  assumes "pod_heap lessFn h" "valid_id (qid x)"
  shows "\<exists>h' e. Heap_Delete h x = Some (h', e) \<and> (e = None \<longleftrightarrow> heap_pods h (qid x) \<noteq> None) \<and>
    pod_heap lessFn h' \<and> heap_pods h' = (heap_pods h)(qid x := None)"
proof (cases "heap_map h (id_key (qid x))")
  case None
  then show ?thesis
    using Heap_Delete_absent [OF pod_heap_inv(2) [OF assms(1)], of x] assms by (simp add: heap_pods_def fun_upd_idem)
next
  case (Some y)
  then show ?thesis
    using Heap_Delete_ok [OF pod_heap_inv(1,2) [OF assms(1)], of x] heap_pods_step [OF assms(1) _ assms(2), of _ _ None] assms(2)
    by (simp add: heap_pods_def) metis
qed

lemma pod_heap_Pop:
  assumes "pod_heap lessFn h" "heap_pods h \<noteq> Map.empty"
  shows "\<exists>h' x. Heap_Pop h = Some (h', Inr x) \<and> Heap_Peek h = Some (Some x) \<and> heap_pods h (qid x) = Some x \<and>
    pod_heap lessFn h' \<and> heap_pods h' = (heap_pods h)(qid x := None) \<and> (\<forall>i y. heap_pods h i = Some y \<longrightarrow> \<not> lessFn y x)"
proof -
  obtain h' x k where p: "Heap_Pop h = Some (h', Inr x)" "heap_map h k = Some x" "heap_step h h' ((heap_map h)(k := None))"
      "\<forall>y \<in> ran (heap_map h). \<not> lessFn y x" "Heap_Peek h = Some (Some x)"
    using Heap_Pop_ok [OF pod_heap_inv(1) [OF assms(1)]] heap_pods_empty [OF assms(1)] assms(2)
    unfolding pod_heap_inv(3) [OF assms(1)] by blast
  have k: "k = id_key (qid x)" "heap_pods h (qid x) = Some x" using heap_map_pods [OF assms(1)] p(2) by auto
  have "pod_heap lessFn h' \<and> heap_pods h' = (heap_pods h)(qid x := None)"
    using heap_pods_step [OF assms(1) p(3), of "qid x" None] heap_pods_qid(2) [OF assms(1) k(2)] k(1) by simp
  moreover have "\<forall>i y. heap_pods h i = Some y \<longrightarrow> \<not> lessFn y x"
    using p(4) unfolding heap_pods_ran [OF assms(1)] by (blast intro: ranI)
  ultimately show ?thesis using p(1,5) k(2) by blast
qed

lemma pod_heap_Peek_empty: "pod_heap lessFn h \<Longrightarrow> heap_pods h = Map.empty \<Longrightarrow> Heap_Peek h = Some None"
  using Heap_Peek_empty pod_heap_inv(1) heap_pods_empty by blast

lemma pod_heap_find: "pod_heap lessFn h \<Longrightarrow> valid_id (qid x) \<Longrightarrow> heap_find h x = heap_pods h (qid x)"
  using Heap_Get_map [OF pod_heap_inv(2), of lessFn h x] by (simp add: heap_find_def heap_pods_def)

lemma pod_heap_Len: "pod_heap lessFn h \<Longrightarrow> Heap_Len h = 0 \<longleftrightarrow> heap_pods h = Map.empty"
  using Heap_Len_card [OF pod_heap_inv(1)] sched_queue.q_finite [OF pod_heap_inv(1)] heap_pods_empty by fastforce

lemma pod_heap_New: "strict_weak_order lessFn \<Longrightarrow>
    pod_heap lessFn (NewWithRecorder podInfoKeyFunc lessFn (Some 0)) \<and>
    heap_pods (NewWithRecorder podInfoKeyFunc lessFn (Some 0)) = Map.empty"
proof -
  assume swo: "strict_weak_order lessFn"
  let ?h = "NewWithRecorder podInfoKeyFunc lessFn (Some 0)"
  have m: "heap_map ?h = Map.empty" using NewWithRecorder_inv(2) [OF swo] by blast
  have "heap_ok podInfoKeyFunc lessFn ?h" using heap_reachable_ok [OF heap_reachable.reach_new swo] .
  then show ?thesis by (simp add: pod_heap_def heap_pods_def m fun_eq_iff)
qed

section \<open>The unschedulable pods\<close>

definition us_ok :: "UnschedulablePodsMap \<Rightarrow> bool" where
  "us_ok u \<longleftrightarrow> finite (dom (us_podInfoMap u)) \<and> us_metricRecorder u = Some (int (card (dom (us_podInfoMap u)))) \<and>
     (\<forall>k x. us_podInfoMap u k = Some x \<longrightarrow> valid_id (qid x) \<and> k = id_full (qid x))"

definition us_map :: "UnschedulablePodsMap \<Rightarrow> string \<times> string \<rightharpoonup> QueuedPodInfo" where
  "us_map u i = (if valid_id i then us_podInfoMap u (id_full i) else None)"

lemma us_map_qid: "us_ok u \<Longrightarrow> us_map u i = Some x \<Longrightarrow> qid x = i \<and> valid_id i"
  using id_full_inj [of "qid x" i] by (fastforce simp: us_ok_def us_map_def split: if_splits)

lemma us_podInfoMap_iff: "us_ok u \<Longrightarrow> us_podInfoMap u k = Some x \<longleftrightarrow> k = id_full (qid x) \<and> us_map u (qid x) = Some x"
  by (auto simp: us_ok_def us_map_def split: if_splits)

lemma us_get_map: "valid_id (pod_id pod) \<Longrightarrow> us_get u pod = us_map u (pod_id pod)"
  by (simp add: us_get_def us_map_def GetPodFullName_id)

lemma us_map_upd:
  assumes "valid_id i"
  shows "us_map (u\<lparr>us_podInfoMap := (us_podInfoMap u)(id_full i := r)\<rparr>) = (us_map u)(i := r)"
    "us_map (u\<lparr>us_metricRecorder := m, us_podInfoMap := (us_podInfoMap u)(id_full i := r)\<rparr>) = (us_map u)(i := r)"
  using assms id_full_inj [of _ i] by (auto simp: us_map_def fun_eq_iff)

lemma us_addOrUpdate_ok:
  assumes "us_ok u" "valid_id (qid x)"
  shows "us_ok (us_addOrUpdate u x)" "us_map (us_addOrUpdate u x) = (us_map u)(qid x \<mapsto> x)"
proof -
  show "us_map (us_addOrUpdate u x) = (us_map u)(qid x \<mapsto> x)"
    using us_map_upd(2) [OF assms(2)] by (simp add: us_addOrUpdate_def GetPodFullName_id Let_def)
  show "us_ok (us_addOrUpdate u x)"
    using assms by (auto simp: us_ok_def us_addOrUpdate_def GetPodFullName_id Let_def card_insert_if domI insert_absorb domIff split: if_splits)
qed

lemma us_delete_ok:
  assumes "us_ok u" "valid_id (pod_id pod)"
  shows "us_ok (us_delete u pod)" "us_map (us_delete u pod) = (us_map u)(pod_id pod := None)"
proof -
  show "us_map (us_delete u pod) = (us_map u)(pod_id pod := None)"
    using us_map_upd(2) [OF assms(2)] by (simp add: us_delete_def GetPodFullName_id Let_def)
  have "int (card (dom m - {k})) = int (card (dom m)) - 1" if "finite (dom m)" "m k = Some x" for m :: "string \<rightharpoonup> QueuedPodInfo" and k x
    using that card_Suc_Diff1 [of "dom m" k] by (auto simp: domI)
  then show "us_ok (us_delete u pod)"
    using assms by (auto simp: us_ok_def us_delete_def GetPodFullName_id Let_def domIff split: if_splits)
qed

text \<open>Writing an entry that is present does not change the number of entries.\<close>

lemma us_write_ok:
  assumes "us_ok u" "valid_id i" "us_map u i \<noteq> None" "qid x = i"
  shows "us_ok (u\<lparr>us_podInfoMap := (us_podInfoMap u)(id_full i \<mapsto> x)\<rparr>)"
  using assms by (auto simp: us_ok_def us_map_def insert_absorb domI)

lemma us_new_ok: "us_ok (newUnschedulablePodsMap (Some 0))" "us_map (newUnschedulablePodsMap (Some 0)) = Map.empty"
  by (auto simp: us_ok_def us_map_def newUnschedulablePodsMap_def fun_eq_iff)

end
