(* ===== verification/Queue_Correct.thy ===== *)
theory Queue_Correct
  imports Queue_Places
begin

text \<open>
  What the scheduling queue promises. A pod is in at most one of the three parts; \<open>pq_view\<close> is the
  queue seen as one map from pod identities to the part and the queued information, and every
  operation is described by its effect on that map.
\<close>

section \<open>The invariant and the view\<close>

text \<open>Identities stay whole in the proofs.\<close>

declare split_paired_All [simp del] split_paired_Ex [simp del]

datatype place = Active | Backoff | Unschedulable

definition pq_view :: "PriorityQueue \<Rightarrow> string \<times> string \<rightharpoonup> place \<times> QueuedPodInfo" where
  "pq_view p i =
     (case heap_pods (pq_activeQ p) i of
        Some x \<Rightarrow> Some (Active, x)
      | None \<Rightarrow>
          (case heap_pods (pq_podBackoffQ p) i of
             Some x \<Rightarrow> Some (Backoff, x)
           | None \<Rightarrow> map_option (Pair Unschedulable) (us_map (pq_unschedulableQ p) i)))"

abbreviation pq_backoff_less :: "PriorityQueue \<Rightarrow> QueuedPodInfo \<Rightarrow> QueuedPodInfo \<Rightarrow> bool" where
  "pq_backoff_less p \<equiv> podsCompareBackoffCompleted (pq_podInitialBackoffDuration p) (pq_podMaxBackoffDuration p)"

definition pq_inv :: "(QueuedPodInfo \<Rightarrow> QueuedPodInfo \<Rightarrow> bool) \<Rightarrow> PriorityQueue \<Rightarrow> bool" where
  "pq_inv lessFn p \<longleftrightarrow>
     pod_heap lessFn (pq_activeQ p) \<and> pod_heap (pq_backoff_less p) (pq_podBackoffQ p) \<and> us_ok (pq_unschedulableQ p) \<and>
     (\<forall>i. heap_pods (pq_activeQ p) i \<noteq> None \<longrightarrow> heap_pods (pq_podBackoffQ p) i = None \<and> us_map (pq_unschedulableQ p) i = None) \<and>
     (\<forall>i. heap_pods (pq_podBackoffQ p) i \<noteq> None \<longrightarrow> us_map (pq_unschedulableQ p) i = None)"

text \<open>What no operation but the constructor sets.\<close>

definition pq_config :: "PriorityQueue \<Rightarrow> int \<times> int \<times> (ClusterEvent \<times> string set) list" where
  "pq_config p = (pq_podInitialBackoffDuration p, pq_podMaxBackoffDuration p, pq_clusterEventMap p)"

definition pq_cycles :: "PriorityQueue \<Rightarrow> int \<times> int" where
  "pq_cycles p = (pq_schedulingCycle p, pq_moveRequestCycle p)"

text \<open>The nominator and the addresses in use.\<close>

definition pq_noms :: "PriorityQueue \<Rightarrow> nominatedPodMap \<times> nat" where
  "pq_noms p = (pq_nominator p, pq_next p)"

lemma pq_invD:
  assumes "pq_inv lessFn p"
  shows "pod_heap lessFn (pq_activeQ p)" "pod_heap (pq_backoff_less p) (pq_podBackoffQ p)" "us_ok (pq_unschedulableQ p)"
  using assms by (auto simp: pq_inv_def)

lemma pq_view_iff:
  assumes "pq_inv lessFn p"
  shows "pq_view p i = Some (Active, x) \<longleftrightarrow> heap_pods (pq_activeQ p) i = Some x"
    "pq_view p i = Some (Backoff, x) \<longleftrightarrow> heap_pods (pq_podBackoffQ p) i = Some x"
    "pq_view p i = Some (Unschedulable, x) \<longleftrightarrow> us_map (pq_unschedulableQ p) i = Some x"
  using assms by (auto simp: pq_view_def pq_inv_def split: option.splits)

lemma pq_view_None:
  "pq_view p i = None \<longleftrightarrow> heap_pods (pq_activeQ p) i = None \<and> heap_pods (pq_podBackoffQ p) i = None \<and> us_map (pq_unschedulableQ p) i = None"
  by (auto simp: pq_view_def split: option.splits)

lemma pq_view_qid:
  assumes "pq_inv lessFn p" "pq_view p i = Some (w, x)"
  shows "qid x = i" "valid_id i"
proof -
  have "qid x = i \<and> valid_id i"
    using assms(2) pq_view_iff [OF assms(1), of i x] heap_pods_qid [OF pq_invD(1) [OF assms(1)]]
      heap_pods_qid [OF pq_invD(2) [OF assms(1)]] us_map_qid [OF pq_invD(3) [OF assms(1)]]
    by (cases w) auto
  then show "qid x = i" "valid_id i" by auto
qed

text \<open>A queue whose parts changed at one identity.\<close>

lemma pq_change:
  assumes inv: "pq_inv lessFn p" and "pq_config p' = pq_config p"
    and a: "pod_heap lessFn (pq_activeQ p')" "heap_pods (pq_activeQ p') = (heap_pods (pq_activeQ p))(i := ra)"
    and b: "pod_heap (pq_backoff_less p) (pq_podBackoffQ p')" "heap_pods (pq_podBackoffQ p') = (heap_pods (pq_podBackoffQ p))(i := rb)"
    and u: "us_ok (pq_unschedulableQ p')" "us_map (pq_unschedulableQ p') = (us_map (pq_unschedulableQ p))(i := ru)"
    and one: "(ra = None \<or> rb = None) \<and> (ra = None \<or> ru = None) \<and> (rb = None \<or> ru = None)"
  shows "pq_inv lessFn p'" "pq_view p' = (pq_view p)(i :=
    (case ra of Some x \<Rightarrow> Some (Active, x) | None \<Rightarrow> (case rb of Some x \<Rightarrow> Some (Backoff, x) | None \<Rightarrow> map_option (Pair Unschedulable) ru)))"
proof -
  show "pq_inv lessFn p'" using assms by (auto simp: pq_inv_def pq_config_def)
  show "pq_view p' = (pq_view p)(i :=
    (case ra of Some x \<Rightarrow> Some (Active, x) | None \<Rightarrow> (case rb of Some x \<Rightarrow> Some (Backoff, x) | None \<Rightarrow> map_option (Pair Unschedulable) ru)))"
    by (rule ext) (simp add: pq_view_def a(2) b(2) u(2) split: option.split)
qed

lemma pq_same_parts:
  assumes "pq_activeQ p' = pq_activeQ p" "pq_podBackoffQ p' = pq_podBackoffQ p" "pq_unschedulableQ p' = pq_unschedulableQ p"
    "pq_config p' = pq_config p"
  shows "pq_inv lessFn p' = pq_inv lessFn p" "pq_view p' = pq_view p"
  using assms by (auto simp: pq_inv_def pq_view_def [abs_def] pq_config_def split: option.split)

lemma new_queue_ok:
  assumes "strict_weak_order lessFn"
  shows "pq_inv lessFn (NewPriorityQueue lessFn initial maxDuration nom cem)"
    "pq_view (NewPriorityQueue lessFn initial maxDuration nom cem) = Map.empty"
proof -
  have swo: "strict_weak_order (podsCompareBackoffCompleted initial maxDuration)"
    using swo_key [of "getBackoffTime initial maxDuration"] by (simp add: podsCompareBackoffCompleted_def [abs_def])
  show "pq_inv lessFn (NewPriorityQueue lessFn initial maxDuration nom cem)"
    "pq_view (NewPriorityQueue lessFn initial maxDuration nom cem) = Map.empty"
    using pod_heap_New [OF assms] pod_heap_New [OF swo] us_new_ok
    by (auto simp: pq_inv_def NewPriorityQueue_def pq_view_def fun_eq_iff)
qed

section \<open>Adding and deleting\<close>

lemma lookup_qid [simp]: "qid (newQueuedPodInfoForLookup pod ps) = pod_id pod"
  by (simp add: newQueuedPodInfoForLookup_def)

lemma newQueuedPodInfo_simps [simp]:
  "qid (fst (newQueuedPodInfo go now p pod ps)) = pod_id pod"
  "snd (newQueuedPodInfo go now p pod ps) = p\<lparr>pq_next := Suc (pq_next p)\<rparr>"
  by (simp_all add: newQueuedPodInfo_def)

lemma pq_Add_ok:
  assumes inv: "pq_inv lessFn p" and v: "valid_id (pod_id pod)"
  shows "\<exists>p'. pq_Add go now pod p = Some (p', None) \<and> pq_inv lessFn p' \<and> pq_config p' = pq_config p \<and> pq_cycles p' = pq_cycles p \<and>
    pq_view p' = (pq_view p)(pod_id pod \<mapsto> (Active, fst (newQueuedPodInfo go now p pod [])))"
proof -
  obtain x p1 where x: "newQueuedPodInfo go now p pod [] = (x, p1)" by fastforce
  then have x1: "qid x = pod_id pod" "p1 = p\<lparr>pq_next := Suc (pq_next p)\<rparr>"
    using newQueuedPodInfo_simps [of go now p pod "[]"] by auto
  obtain a where a: "Heap_Add (pq_activeQ p) x = Some (a, None)" "pod_heap lessFn a"
      "heap_pods a = (heap_pods (pq_activeQ p))(pod_id pod \<mapsto> x)"
    using pod_heap_Add [OF pq_invD(1) [OF inv], of x] v x1(1) by auto
  obtain b e where b: "Heap_Delete (pq_podBackoffQ p) x = Some (b, e)" "pod_heap (pq_backoff_less p) b"
      "heap_pods b = (heap_pods (pq_podBackoffQ p))(pod_id pod := None)"
    using pod_heap_Delete [OF pq_invD(2) [OF inv], of x] v x1(1) by auto
  define u where "u = (if us_get (pq_unschedulableQ p) pod \<noteq> None then us_delete (pq_unschedulableQ p) pod else pq_unschedulableQ p)"
  have u: "us_ok u" "us_map u = (us_map (pq_unschedulableQ p))(pod_id pod := None)"
    using us_delete_ok [OF pq_invD(3) [OF inv] v] pq_invD(3) [OF inv] us_get_map [OF v] by (auto simp: u_def fun_upd_idem)
  define p' where "p' = p\<lparr>pq_activeQ := a, pq_podBackoffQ := b, pq_unschedulableQ := u,
     pq_nominator := AddNominatedPod (pq_nominator p) (qp_PodInfo x) [], pq_next := Suc (pq_next p)\<rparr>"
  have "pq_Add go now pod p = Some (p', None)"
    using a(1) b(1) by (simp add: pq_Add_def x x1(2) Let_def p'_def u_def)
  moreover have "pq_inv lessFn p'" "pq_view p' = (pq_view p)(pod_id pod \<mapsto> (Active, x))"
    using pq_change [OF inv, of p' "pod_id pod" "Some x" None None] a(2,3) b(2,3) u by (simp_all add: p'_def pq_config_def)
  ultimately show ?thesis by (simp add: x p'_def pq_config_def pq_cycles_def)
qed

lemma AddUnschedulable_ok:
  assumes inv: "pq_inv lessFn p" and v: "valid_id (qid x)"
  shows "\<exists>p' e. AddUnschedulableIfNotPresent now x cycle p = Some (p', e) \<and> pq_inv lessFn p' \<and> pq_config p' = pq_config p \<and>
    pq_cycles p' = pq_cycles p \<and>
    (if pq_view p (qid x) \<noteq> None then p' = p \<and> e \<noteq> None
     else e = None \<and> pq_view p' = (pq_view p)(qid x \<mapsto>
       (if pq_moveRequestCycle p \<ge> cycle then Backoff else Unschedulable, x\<lparr>qp_Timestamp := now\<rparr>)))"
proof (cases "pq_view p (qid x)")
  case None
  let ?x = "x\<lparr>qp_Timestamp := now\<rparr>"
  have n: "us_get (pq_unschedulableQ p) (qp_Pod x) = None" "heap_find (pq_activeQ p) x = None" "heap_find (pq_podBackoffQ p) x = None"
      "heap_pods (pq_activeQ p) (qid x) = None" "heap_pods (pq_podBackoffQ p) (qid x) = None" "us_map (pq_unschedulableQ p) (qid x) = None"
    using None us_get_map [OF v] pod_heap_find [OF pq_invD(1) [OF inv] v] pod_heap_find [OF pq_invD(2) [OF inv] v]
    by (auto simp: pq_view_None)
  have vx: "valid_id (qid ?x)" using v by simp
  have same: "m(qid x := None) = m" if "m (qid x) = None" for m :: "string \<times> string \<rightharpoonup> QueuedPodInfo"
    using that by (simp add: fun_upd_idem)
  show ?thesis
  proof (cases "pq_moveRequestCycle p \<ge> cycle")
    case True
    obtain b where b: "Heap_Add (pq_podBackoffQ p) ?x = Some (b, None)" "pod_heap (pq_backoff_less p) b"
        "heap_pods b = (heap_pods (pq_podBackoffQ p))(qid x \<mapsto> ?x)"
      using pod_heap_Add [OF pq_invD(2) [OF inv] vx] by auto
    define p' where "p' = p\<lparr>pq_podBackoffQ := b, pq_nominator := AddNominatedPod (pq_nominator p) (qp_PodInfo x) []\<rparr>"
    have "AddUnschedulableIfNotPresent now x cycle p = Some (p', None)"
      using n(1-3) True b(1) by (simp add: AddUnschedulableIfNotPresent_def Let_def p'_def)
    moreover have "pq_inv lessFn p'" "pq_view p' = (pq_view p)(qid x \<mapsto> (Backoff, ?x))"
      using pq_change [OF inv, of p' "qid x" None "Some ?x" None] b(2,3) n(4,6) pq_invD [OF inv] same
      by (simp_all add: p'_def pq_config_def)
    ultimately show ?thesis using None True by (auto simp: p'_def pq_config_def pq_cycles_def)
  next
    case False
    note u = us_addOrUpdate_ok [OF pq_invD(3) [OF inv] vx]
    define p' where "p' = p\<lparr>pq_unschedulableQ := us_addOrUpdate (pq_unschedulableQ p) ?x,
      pq_nominator := AddNominatedPod (pq_nominator p) (qp_PodInfo x) []\<rparr>"
    have "AddUnschedulableIfNotPresent now x cycle p = Some (p', None)"
      using n(1-3) False by (simp add: AddUnschedulableIfNotPresent_def Let_def p'_def)
    moreover have "pq_inv lessFn p'" "pq_view p' = (pq_view p)(qid x \<mapsto> (Unschedulable, ?x))"
      using pq_change [OF inv, of p' "qid x" None None "Some ?x"] u n(4,5) pq_invD [OF inv] same
      by (simp_all add: p'_def pq_config_def)
    ultimately show ?thesis using None False by (auto simp: p'_def pq_config_def pq_cycles_def)
  qed
next
  case (Some w)
  then show ?thesis
    using inv us_get_map [OF v] pod_heap_find [OF pq_invD(1) [OF inv] v] pod_heap_find [OF pq_invD(2) [OF inv] v]
    by (auto simp: AddUnschedulableIfNotPresent_def Let_def pq_view_def split: option.splits)
qed

lemma pq_Delete_ok:
  assumes inv: "pq_inv lessFn p" and v: "valid_id (pod_id pod)"
  shows "\<exists>p'. pq_Delete pod p = Some p' \<and> pq_inv lessFn p' \<and> pq_config p' = pq_config p \<and> pq_cycles p' = pq_cycles p \<and>
    pq_view p' = (pq_view p)(pod_id pod := None)"
proof -
  let ?l = "newQueuedPodInfoForLookup pod []"
  have vl: "valid_id (qid ?l)" using v by simp
  obtain a e where a: "Heap_Delete (pq_activeQ p) ?l = Some (a, e)" "e = None \<longleftrightarrow> heap_pods (pq_activeQ p) (pod_id pod) \<noteq> None"
      "pod_heap lessFn a" "heap_pods a = (heap_pods (pq_activeQ p))(pod_id pod := None)"
    using pod_heap_Delete [OF pq_invD(1) [OF inv] vl] by auto
  obtain b eb where b: "Heap_Delete (pq_podBackoffQ p) ?l = Some (b, eb)" "pod_heap (pq_backoff_less p) b"
      "heap_pods b = (heap_pods (pq_podBackoffQ p))(pod_id pod := None)"
    using pod_heap_Delete [OF pq_invD(2) [OF inv] vl] by auto
  note u = us_delete_ok [OF pq_invD(3) [OF inv] v]
  define p' where "p' = (if e = None then p\<lparr>pq_nominator := DeleteNominatedPodIfExists (pq_nominator p) pod, pq_activeQ := a\<rparr>
     else p\<lparr>pq_nominator := DeleteNominatedPodIfExists (pq_nominator p) pod, pq_activeQ := a, pq_podBackoffQ := b,
       pq_unschedulableQ := us_delete (pq_unschedulableQ p) pod\<rparr>)"
  have run: "pq_Delete pod p = Some p'"
    using a(1) b(1) by (simp add: pq_Delete_def Let_def p'_def)
  have "heap_pods (pq_podBackoffQ p') = (heap_pods (pq_podBackoffQ p))(pod_id pod := None)"
      "us_map (pq_unschedulableQ p') = (us_map (pq_unschedulableQ p))(pod_id pod := None)"
    using inv a(2) b(3) u(2) by (auto simp: p'_def pq_inv_def fun_upd_idem)
  moreover have "pod_heap (pq_backoff_less p) (pq_podBackoffQ p')" "us_ok (pq_unschedulableQ p')"
    using pq_invD [OF inv] b(2) u(1) by (auto simp: p'_def)
  moreover have c: "pq_config p' = pq_config p" "pq_cycles p' = pq_cycles p" "pq_activeQ p' = a"
    by (auto simp: p'_def pq_config_def pq_cycles_def)
  ultimately have "pq_inv lessFn p'" "pq_view p' = (pq_view p)(pod_id pod := None)"
    using pq_change [OF inv c(1), of "pod_id pod" None None None] a(3,4) by simp_all
  then show ?thesis using run c by blast
qed

text \<open>\<open>Pop\<close> waits or fails on an empty active queue; otherwise it hands out a pod that no active pod precedes.\<close>

lemma pq_Pop_ok:
  assumes inv: "pq_inv lessFn p"
  shows "if \<exists>i x. pq_view p i = Some (Active, x)
    then \<exists>p' x. pq_Pop p = Some (Some (p', Inr (x\<lparr>qp_Attempts := qp_Attempts x + 1\<rparr>))) \<and> pq_inv lessFn p' \<and> pq_config p' = pq_config p \<and>
      pq_schedulingCycle p' = pq_schedulingCycle p + 1 \<and> pq_moveRequestCycle p' = pq_moveRequestCycle p \<and>
      pq_view p (qid x) = Some (Active, x) \<and> pq_view p' = (pq_view p)(qid x := None) \<and>
      (\<forall>i y. pq_view p i = Some (Active, y) \<longrightarrow> \<not> lessFn y x)
    else pq_Pop p = Some (if pq_closed p then Some (p, Inl (Errorf ''scheduling queue is closed'')) else None)"
proof (cases "heap_pods (pq_activeQ p) = Map.empty")
  case True
  then show ?thesis
    using pod_heap_Len [OF pq_invD(1) [OF inv]] by (simp add: pq_view_iff [OF inv] pq_Pop_def)
next
  case False
  obtain a x where p: "Heap_Pop (pq_activeQ p) = Some (a, Inr x)" "heap_pods (pq_activeQ p) (qid x) = Some x"
      "pod_heap lessFn a" "heap_pods a = (heap_pods (pq_activeQ p))(qid x := None)"
      "\<forall>i y. heap_pods (pq_activeQ p) i = Some y \<longrightarrow> \<not> lessFn y x"
    using pod_heap_Pop [OF pq_invD(1) [OF inv] False] by blast
  define p' where "p' = p\<lparr>pq_activeQ := a, pq_schedulingCycle := pq_schedulingCycle p + 1\<rparr>"
  have n: "heap_pods (pq_podBackoffQ p) (qid x) = None" "us_map (pq_unschedulableQ p) (qid x) = None"
    using inv p(2) by (auto simp: pq_inv_def)
  have "pq_Pop p = Some (Some (p', Inr (x\<lparr>qp_Attempts := qp_Attempts x + 1\<rparr>)))"
    using False pod_heap_Len [OF pq_invD(1) [OF inv]] p(1) by (simp add: pq_Pop_def p'_def)
  moreover have "pq_inv lessFn p'" "pq_view p' = (pq_view p)(qid x := None)"
    using pq_change [OF inv, of p' "qid x" None None None] p(3,4) pq_invD [OF inv] n
    by (simp_all add: p'_def pq_config_def fun_upd_idem)
  moreover have "\<exists>i x. pq_view p i = Some (Active, x)" using p(2) by (auto simp: pq_view_iff [OF inv])
  ultimately show ?thesis using p(2,5) by (auto simp: pq_view_iff [OF inv] p'_def pq_config_def)
qed

section \<open>Moving pods between the parts\<close>

lemma pod_heap_finite: "pod_heap lessFn h \<Longrightarrow> finite (dom (heap_pods h))"
proof -
  assume h: "pod_heap lessFn h"
  have "finite (ran (heap_pods h))"
    using sched_queue.q_finite [OF pod_heap_inv(1) [OF h]] heap_pods_ran [OF h] by (metis finite_ran)
  moreover have "dom (heap_pods h) \<subseteq> qid ` ran (heap_pods h)"
    using heap_pods_qid(1) [OF h] by (force simp: ran_def image_iff)
  ultimately show ?thesis using finite_surj by blast
qed

text \<open>Pods in backoff for which \<open>completed\<close> holds become active.\<close>

definition flush_view ::
  "(QueuedPodInfo \<Rightarrow> bool) \<Rightarrow> (string \<times> string \<rightharpoonup> place \<times> QueuedPodInfo) \<Rightarrow> string \<times> string \<rightharpoonup> place \<times> QueuedPodInfo" where
  "flush_view completed v i =
     (case v i of
        Some (Backoff, x) \<Rightarrow> Some (if completed x then Active else Backoff, x)
      | r \<Rightarrow> r)"

lemma flush_view_none: "\<forall>i x. v i = Some (Backoff, x) \<longrightarrow> \<not> completed x \<Longrightarrow> flush_view completed v = v"
  by (rule ext) (auto simp: flush_view_def split: option.split place.split)

lemma flush_ok:
  assumes "pq_inv lessFn p"
  shows "\<exists>p'. flushBackoffQCompleted now p = Some p' \<and> pq_inv lessFn p' \<and> pq_config p' = pq_config p \<and> pq_cycles p' = pq_cycles p \<and>
    pq_noms p' = pq_noms p \<and> pq_view p' = flush_view (\<lambda>x. pq_getBackoffTime p x \<le> now) (pq_view p)"
  using assms
proof (induction "card (dom (heap_pods (pq_podBackoffQ p)))" arbitrary: p)
  case 0
  then have e: "heap_pods (pq_podBackoffQ p) = Map.empty"
    using pod_heap_finite [OF pq_invD(2) [OF 0(2)]] by simp
  then have "flushBackoffQCompleted now p = Some p"
    using pod_heap_Peek_empty [OF pq_invD(2) [OF 0(2)]] by (subst flushBackoffQCompleted.simps) simp
  moreover have "flush_view (\<lambda>x. pq_getBackoffTime p x \<le> now) (pq_view p) = pq_view p"
    using e by (intro flush_view_none) (simp add: pq_view_iff [OF 0(2)])
  ultimately show ?case using 0(2) by auto
next
  case (Suc n)
  note inv = Suc.prems
  have "heap_pods (pq_podBackoffQ p) \<noteq> Map.empty" using Suc.hyps(2) by auto
  then obtain b x where b: "Heap_Pop (pq_podBackoffQ p) = Some (b, Inr x)" "Heap_Peek (pq_podBackoffQ p) = Some (Some x)"
      "heap_pods (pq_podBackoffQ p) (qid x) = Some x" "pod_heap (pq_backoff_less p) b"
      "heap_pods b = (heap_pods (pq_podBackoffQ p))(qid x := None)"
      "\<forall>i y. heap_pods (pq_podBackoffQ p) i = Some y \<longrightarrow> \<not> pq_backoff_less p y x"
    using pod_heap_Pop [OF pq_invD(2) [OF inv]] by blast
  show ?case
  proof (cases "pq_getBackoffTime p x > now")
    case True
    then have "flushBackoffQCompleted now p = Some p"
      using b(2) by (subst flushBackoffQCompleted.simps) simp
    moreover have "\<not> pq_getBackoffTime p y \<le> now" if "pq_view p i = Some (Backoff, y)" for i y
      using True that b(6) by (fastforce simp: pq_view_iff [OF inv] podsCompareBackoffCompleted_def pq_getBackoffTime_def)
    then have "flush_view (\<lambda>x. pq_getBackoffTime p x \<le> now) (pq_view p) = pq_view p"
      by (intro flush_view_none) blast
    ultimately show ?thesis using inv by auto
  next
    case False
    have v: "valid_id (qid x)" using heap_pods_qid(2) [OF pq_invD(2) [OF inv] b(3)] .
    obtain a where a: "Heap_Add (pq_activeQ p) x = Some (a, None)" "pod_heap lessFn a"
        "heap_pods a = (heap_pods (pq_activeQ p))(qid x \<mapsto> x)"
      using pod_heap_Add [OF pq_invD(1) [OF inv] v] by blast
    define p1 where "p1 = p\<lparr>pq_podBackoffQ := b, pq_activeQ := a\<rparr>"
    have run: "flushBackoffQCompleted now p = flushBackoffQCompleted now p1"
      using b(1,2) a(1) False by (subst flushBackoffQCompleted.simps) (simp add: p1_def)
    have u: "us_map (pq_unschedulableQ p) (qid x) = None" using inv b(3) by (auto simp: pq_inv_def)
    have c: "pq_config p1 = pq_config p" "pq_cycles p1 = pq_cycles p" "pq_noms p1 = pq_noms p"
      by (simp_all add: p1_def pq_config_def pq_cycles_def pq_noms_def)
    have inv1: "pq_inv lessFn p1" and view: "pq_view p1 = (pq_view p)(qid x \<mapsto> (Active, x))"
      using pq_change [OF inv c(1), of "qid x" "Some x" None None] a(2,3) b(4,5) pq_invD [OF inv] u
      by (simp_all add: p1_def fun_upd_idem)
    have "card (dom (heap_pods b)) = n"
      using Suc.hyps(2) b(3,5) pod_heap_finite [OF pq_invD(2) [OF inv]] by (simp add: domI)
    then have "n = card (dom (heap_pods (pq_podBackoffQ p1)))" by (simp add: p1_def)
    from Suc.hyps(1) [OF this inv1] obtain p' where p': "flushBackoffQCompleted now p1 = Some p'" "pq_inv lessFn p'"
        "pq_config p' = pq_config p1" "pq_cycles p' = pq_cycles p1" "pq_noms p' = pq_noms p1"
        "pq_view p' = flush_view (\<lambda>x. pq_getBackoffTime p1 x \<le> now) (pq_view p1)" by blast
    have "pq_getBackoffTime p1 = pq_getBackoffTime p" by (simp add: p1_def pq_getBackoffTime_def [abs_def])
    moreover have "flush_view f ((pq_view p)(qid x \<mapsto> (Active, x))) = flush_view f (pq_view p)" if "f x" for f
      using that b(3) by (auto simp: flush_view_def fun_eq_iff pq_view_iff(2) [OF inv, symmetric])
    ultimately show ?thesis using p' run c False by (auto simp: view)
  qed
qed

text \<open>The selected unschedulable pods go where \<open>dest\<close> says.\<close>

definition move_view ::
  "(QueuedPodInfo \<Rightarrow> bool) \<Rightarrow> (QueuedPodInfo \<Rightarrow> place) \<Rightarrow> (string \<times> string \<rightharpoonup> place \<times> QueuedPodInfo) \<Rightarrow>
   string \<times> string \<rightharpoonup> place \<times> QueuedPodInfo" where
  "move_view sel dest v i =
     (case v i of
        Some (Unschedulable, x) \<Rightarrow> Some (if sel x then dest x else Unschedulable, x)
      | r \<Rightarrow> r)"

text \<open>An event moves a pod unless the pod failed in plugins of which none is registered for it.\<close>

definition event_moves :: "PriorityQueue \<Rightarrow> string \<Rightarrow> QueuedPodInfo \<Rightarrow> bool" where
  "event_moves p event x \<longleftrightarrow> qp_UnschedulablePlugins x = {} \<or> podMatchesEvent p x event"

definition move_dest :: "PriorityQueue \<Rightarrow> int \<Rightarrow> QueuedPodInfo \<Rightarrow> place" where
  "move_dest p now x = (if isPodBackingoff p now x then Backoff else Active)"

lemma config_functions:
  assumes "pq_config p' = pq_config p"
  shows "event_moves p' = event_moves p" "move_dest p' = move_dest p" "pq_getBackoffTime p' = pq_getBackoffTime p"
    "isPodBackingoff p' = isPodBackingoff p" "podMatchesEvent p' = podMatchesEvent p" "pq_backoff_less p' = pq_backoff_less p"
proof -
  have e: "pq_podInitialBackoffDuration p' = pq_podInitialBackoffDuration p" "pq_podMaxBackoffDuration p' = pq_podMaxBackoffDuration p"
      "pq_clusterEventMap p' = pq_clusterEventMap p"
    using assms by (simp_all add: pq_config_def)
  show "event_moves p' = event_moves p" "move_dest p' = move_dest p" "pq_getBackoffTime p' = pq_getBackoffTime p"
      "isPodBackingoff p' = isPodBackingoff p" "podMatchesEvent p' = podMatchesEvent p" "pq_backoff_less p' = pq_backoff_less p"
    by (simp_all only: e event_moves_def [abs_def] move_dest_def [abs_def] podMatchesEvent_def [abs_def]
        isPodBackingoff_def [abs_def] pq_getBackoffTime_def [abs_def])
qed

lemma move_one:
  assumes inv: "pq_inv lessFn p" and x: "us_map (pq_unschedulableQ p) (qid x) = Some x"
  shows "\<exists>p1. move_loop now event (x # xs) p = move_loop now event xs p1 \<and> pq_inv lessFn p1 \<and> pq_config p1 = pq_config p \<and>
    pq_cycles p1 = pq_cycles p \<and> us_map (pq_unschedulableQ p1) = (if event_moves p event x then (us_map (pq_unschedulableQ p))(qid x := None)
      else us_map (pq_unschedulableQ p)) \<and>
    pq_view p1 = (if event_moves p event x then (pq_view p)(qid x \<mapsto> (move_dest p now x, x)) else pq_view p)"
proof (cases "event_moves p event x")
  case True
  have v: "valid_id (qid x)" using us_map_qid [OF pq_invD(3) [OF inv] x] by simp
  note u = us_delete_ok [OF pq_invD(3) [OF inv] v]
  have n: "heap_pods (pq_activeQ p) (qid x) = None" "heap_pods (pq_podBackoffQ p) (qid x) = None"
    using inv x by (auto simp: pq_inv_def)
  show ?thesis
  proof (cases "isPodBackingoff p now x")
    case bo: True
    obtain b where b: "Heap_Add (pq_podBackoffQ p) x = Some (b, None)" "pod_heap (pq_backoff_less p) b"
        "heap_pods b = (heap_pods (pq_podBackoffQ p))(qid x \<mapsto> x)"
      using pod_heap_Add [OF pq_invD(2) [OF inv] v] by blast
    define p1 where "p1 = p\<lparr>pq_podBackoffQ := b, pq_unschedulableQ := us_delete (pq_unschedulableQ p) (qp_Pod x)\<rparr>"
    have "move_loop now event (x # xs) p = move_loop now event xs p1"
      using True bo b(1) by (auto simp: event_moves_def p1_def)
    moreover have c: "pq_config p1 = pq_config p" "pq_cycles p1 = pq_cycles p" by (simp_all add: p1_def pq_config_def pq_cycles_def)
    moreover have "pq_inv lessFn p1" "pq_view p1 = (pq_view p)(qid x \<mapsto> (Backoff, x))"
      using pq_change [OF inv c(1), of "qid x" None "Some x" None] b(2,3) u pq_invD [OF inv] n
      by (simp_all add: p1_def fun_upd_idem)
    ultimately show ?thesis using True bo u(2) by (auto simp: p1_def move_dest_def)
  next
    case bo: False
    obtain a where a: "Heap_Add (pq_activeQ p) x = Some (a, None)" "pod_heap lessFn a"
        "heap_pods a = (heap_pods (pq_activeQ p))(qid x \<mapsto> x)"
      using pod_heap_Add [OF pq_invD(1) [OF inv] v] by blast
    define p1 where "p1 = p\<lparr>pq_activeQ := a, pq_unschedulableQ := us_delete (pq_unschedulableQ p) (qp_Pod x)\<rparr>"
    have "move_loop now event (x # xs) p = move_loop now event xs p1"
      using True bo a(1) by (auto simp: event_moves_def p1_def)
    moreover have c: "pq_config p1 = pq_config p" "pq_cycles p1 = pq_cycles p" by (simp_all add: p1_def pq_config_def pq_cycles_def)
    moreover have "pq_inv lessFn p1" "pq_view p1 = (pq_view p)(qid x \<mapsto> (Active, x))"
      using pq_change [OF inv c(1), of "qid x" "Some x" None None] a(2,3) u pq_invD [OF inv] n
      by (simp_all add: p1_def fun_upd_idem)
    ultimately show ?thesis using True bo u(2) by (auto simp: p1_def move_dest_def)
  qed
next
  case False
  then have "move_loop now event (x # xs) p = move_loop now event xs p" by (auto simp: event_moves_def)
  then show ?thesis using False inv by auto
qed

lemma move_loop_ok:
  assumes "pq_inv lessFn p" "distinct (map qid xs)" "\<forall>x\<in>set xs. us_map (pq_unschedulableQ p) (qid x) = Some x"
  shows "\<exists>p'. move_loop now event xs p = Some p' \<and> pq_inv lessFn p' \<and> pq_config p' = pq_config p \<and> pq_cycles p' = pq_cycles p \<and>
    pq_view p' = move_view (\<lambda>x. x \<in> set xs \<and> event_moves p event x) (move_dest p now) (pq_view p)"
  using assms
proof (induction xs arbitrary: p)
  case Nil
  then show ?case by (auto simp: move_view_def fun_eq_iff split: option.split place.split)
next
  case (Cons x xs)
  note inv = Cons.prems(1)
  have ux: "us_map (pq_unschedulableQ p) (qid x) = Some x" using Cons.prems(3) by simp
  obtain p1 where p1: "move_loop now event (x # xs) p = move_loop now event xs p1" "pq_inv lessFn p1" "pq_config p1 = pq_config p"
      "pq_cycles p1 = pq_cycles p" "us_map (pq_unschedulableQ p1) = (if event_moves p event x then (us_map (pq_unschedulableQ p))(qid x := None)
      else us_map (pq_unschedulableQ p))"
      "pq_view p1 = (if event_moves p event x then (pq_view p)(qid x \<mapsto> (move_dest p now x, x)) else pq_view p)"
    using move_one [OF inv ux, of now event xs] by (elim exE conjE) (rule that; assumption)
  have "us_map (pq_unschedulableQ p1) (qid y) = Some y" if y: "y \<in> set xs" for y
  proof -
    have "us_map (pq_unschedulableQ p) (qid y) = Some y" using Cons.prems(3) y by (meson list.set_intros(2))
    moreover have "qid x \<notin> set (map qid xs)" using Cons.prems(2) unfolding list.map distinct.simps(2) by (rule conjunct1)
    then have "qid y \<noteq> qid x" using imageI [OF y, of qid] unfolding set_map by (intro notI) (erule notE, erule subst)
    ultimately show ?thesis unfolding p1(5) by simp
  qed
  then have "\<forall>y\<in>set xs. us_map (pq_unschedulableQ p1) (qid y) = Some y" by blast
  moreover have "distinct (map qid xs)" using Cons.prems(2) by simp
  ultimately obtain p' where p': "move_loop now event xs p1 = Some p'" "pq_inv lessFn p'" "pq_config p' = pq_config p1"
      "pq_cycles p' = pq_cycles p1"
      "pq_view p' = move_view (\<lambda>y. y \<in> set xs \<and> event_moves p event y) (move_dest p now) (pq_view p1)"
    using Cons.IH [OF p1(2)] unfolding config_functions [OF p1(3)] by blast
  have vx: "pq_view p (qid x) = Some (Unschedulable, x)" using ux by (simp add: pq_view_iff [OF inv])
  have "move_view (\<lambda>y. y \<in> set xs \<and> event_moves p event y) (move_dest p now) (pq_view p1) i =
      move_view (\<lambda>y. y \<in> set (x # xs) \<and> event_moves p event y) (move_dest p now) (pq_view p) i" for i
  proof (cases "i = qid x")
    case True
    have "x \<notin> set xs" using Cons.prems(2) by auto
    then show ?thesis using True vx by (auto simp: move_view_def p1(6) move_dest_def)
  next
    case False
    then have "y \<noteq> x" if "pq_view p i = Some (w, y)" for y w using pq_view_qid(1) [OF inv that] by auto
    then show ?thesis using False by (auto simp: move_view_def p1(6) split: option.split place.split)
  qed
  then have "pq_view p' = move_view (\<lambda>y. y \<in> set (x # xs) \<and> event_moves p event y) (move_dest p now) (pq_view p)"
    using p'(5) by auto
  then show ?case using p'(1-4) p1 by simp
qed

lemma set_map_filter: "set (List.map_filter f xs) = {y. \<exists>x\<in>set xs. f x = Some y}"
  by (induction xs) (auto simp: map_filter_simps split: option.splits)

lemma us_pods_ok:
  assumes ok: "us_ok (pq_unschedulableQ p)" and ks: "range_order ks (us_podInfoMap (pq_unschedulableQ p))"
  shows "distinct (map qid (us_pods ks p))" "x \<in> set (us_pods ks p) \<longleftrightarrow> us_map (pq_unschedulableQ p) (qid x) = Some x"
proof -
  let ?m = "us_podInfoMap (pq_unschedulableQ p)"
  note m = set_map_filter [of ?m]
  have "distinct (map qid (List.map_filter ?m js))" if "distinct js" for js
    using that
  proof (induction js)
    case (Cons k js)
    show ?case
    proof (cases "?m k")
      case (Some x)
      have "qid x \<noteq> qid y" if y: "y \<in> set (List.map_filter ?m js)" for y
      proof -
        obtain j where j: "j \<in> set js" "?m j = Some y" using y unfolding m by blast
        then have "j \<noteq> k" using Cons.prems by (metis distinct.simps(2))
        then show ?thesis using us_podInfoMap_iff [OF ok, of j y] us_podInfoMap_iff [OF ok, of k x] j(2) Some by metis
      qed
      then have "qid x \<notin> qid ` set (List.map_filter ?m js)" by (intro notI) (erule imageE, blast)
      then show ?thesis using Cons Some by (simp add: map_filter_simps)
    qed (use Cons in \<open>simp add: map_filter_simps\<close>)
  qed (simp add: map_filter_simps)
  then show "distinct (map qid (us_pods ks p))" using ks by (simp add: us_pods_def range_order_def)
  have "x \<in> set (us_pods ks p) \<longleftrightarrow> (\<exists>k. ?m k = Some x)"
    using ks m [of ks] by (auto simp: us_pods_def range_order_def)
  also have "\<dots> \<longleftrightarrow> us_map (pq_unschedulableQ p) (qid x) = Some x" using us_podInfoMap_iff [OF ok] by blast
  finally show "x \<in> set (us_pods ks p) \<longleftrightarrow> us_map (pq_unschedulableQ p) (qid x) = Some x" .
qed

lemma move_pods_ok:
  assumes inv: "pq_inv lessFn p" and ks: "range_order ks (us_podInfoMap (pq_unschedulableQ p))"
  shows "\<exists>p'. movePodsToActiveOrBackoffQueue now (filter P (us_pods ks p)) event p = Some p' \<and> pq_inv lessFn p' \<and>
    pq_config p' = pq_config p \<and> pq_cycles p' = (pq_schedulingCycle p, pq_schedulingCycle p) \<and>
    pq_view p' = move_view (\<lambda>x. P x \<and> event_moves p event x) (move_dest p now) (pq_view p)"
proof -
  let ?xs = "filter P (us_pods ks p)"
  note us = us_pods_ok [OF pq_invD(3) [OF inv] ks]
  have d: "distinct (map qid ?xs)" using us(1) by (rule distinct_map_filter)
  have u: "\<forall>x\<in>set ?xs. us_map (pq_unschedulableQ p) (qid x) = Some x" using us(2) by (simp only: set_filter) blast
  obtain p1 where p1: "move_loop now event ?xs p = Some p1" "pq_inv lessFn p1" "pq_config p1 = pq_config p" "pq_cycles p1 = pq_cycles p"
      "pq_view p1 = move_view (\<lambda>x. x \<in> set ?xs \<and> event_moves p event x) (move_dest p now) (pq_view p)"
    using move_loop_ok [OF inv d u] by blast
  define p' where "p' = p1\<lparr>pq_moveRequestCycle := pq_schedulingCycle p1\<rparr>"
  have "movePodsToActiveOrBackoffQueue now ?xs event p = Some p'"
    using p1(1) by (simp add: movePodsToActiveOrBackoffQueue_def p'_def)
  moreover have "pq_inv lessFn p'" "pq_view p' = pq_view p1" "pq_config p' = pq_config p1"
    using pq_same_parts [of p' p1] p1(2) by (simp_all add: p'_def pq_config_def)
  moreover have "move_view (\<lambda>x. x \<in> set ?xs \<and> event_moves p event x) (move_dest p now) (pq_view p) i =
      move_view (\<lambda>x. P x \<and> event_moves p event x) (move_dest p now) (pq_view p) i" for i
  proof -
    have "x \<in> set (us_pods ks p)" if "pq_view p i = Some (Unschedulable, x)" for x
      using that pq_view_qid(1) [OF inv that] us(2) by (simp add: pq_view_iff [OF inv])
    then show ?thesis by (auto simp: move_view_def split: option.split place.split)
  qed
  ultimately show ?thesis using p1(3-5) by (auto simp: p'_def pq_cycles_def)
qed

lemma timeout_moves: "event_moves p ''UnschedulableTimeout'' x"
  by (simp add: event_moves_def podMatchesEvent_def clusterEventReg_def)

section \<open>Updating\<close>

lemma updatePod_simps:
  "qid (fst (updatePod go x pod p)) = pod_id pod"
  "snd (updatePod go x pod p) = p\<lparr>pq_nominator := np_refresh (pr_addr (qp_PodInfo x)) (PodInfo_Update go (Some (pr_info (qp_PodInfo x))) pod) (pq_nominator p)\<rparr>"
  by (simp_all add: updatePod_def Let_def)

lemma update_active_ok:
  assumes inv: "pq_inv lessFn p" and v: "valid_id (pod_id new)" and x: "pq_view p (pod_id new) = Some (Active, x)"
  shows "\<exists>p'. update_active go old new x p = Some (p', None) \<and> pq_inv lessFn p' \<and> pq_config p' = pq_config p \<and> pq_cycles p' = pq_cycles p \<and>
    pq_view p' = (pq_view p)(pod_id new \<mapsto> (Active, fst (updatePod go x new p)))"
proof -
  obtain y p1 where y: "updatePod go x new p = (y, p1)" by fastforce
  then have y1: "qid y = pod_id new" "pq_activeQ p1 = pq_activeQ p" "pq_podBackoffQ p1 = pq_podBackoffQ p"
      "pq_unschedulableQ p1 = pq_unschedulableQ p" "pq_config p1 = pq_config p" "pq_cycles p1 = pq_cycles p"
    using updatePod_simps [of go x new p] by (auto simp: pq_config_def pq_cycles_def)
  obtain npm where npm: "UpdateNominatedPod (pq_nominator p1) (Some old) (qp_PodInfo y) = Some npm"
    by (simp add: UpdateNominatedPod_def)
  obtain a where a: "Heap_Add (pq_activeQ p) y = Some (a, None)" "pod_heap lessFn a"
      "heap_pods a = (heap_pods (pq_activeQ p))(pod_id new \<mapsto> y)"
    using pod_heap_Add [OF pq_invD(1) [OF inv], of y] v y1(1) by auto
  define p' where "p' = p1\<lparr>pq_nominator := npm, pq_activeQ := a\<rparr>"
  have run: "update_active go old new x p = Some (p', None)"
    using npm a(1) y1(2) by (simp add: update_active_def y Heap_Update_def p'_def)
  have c: "pq_config p' = pq_config p" "pq_cycles p' = pq_cycles p" using y1(5,6) by (simp_all add: p'_def pq_config_def pq_cycles_def)
  have n: "heap_pods (pq_podBackoffQ p) (pod_id new) = None" "us_map (pq_unschedulableQ p) (pod_id new) = None"
    using inv x by (auto simp: pq_inv_def pq_view_iff [OF inv])
  have "pq_inv lessFn p'" "pq_view p' = (pq_view p)(pod_id new \<mapsto> (Active, y))"
    using pq_change [OF inv c(1), of "pod_id new" "Some y" None None] a(2,3) y1 pq_invD [OF inv] n by (simp_all add: p'_def fun_upd_idem)
  then show ?thesis using run c y by simp
qed

lemma update_backoff_ok:
  assumes inv: "pq_inv lessFn p" and v: "valid_id (pod_id new)" and x: "pq_view p (pod_id new) = Some (Backoff, x)"
  shows "\<exists>p'. update_backoff go old new x p = Some (p', None) \<and> pq_inv lessFn p' \<and> pq_config p' = pq_config p \<and> pq_cycles p' = pq_cycles p \<and>
    pq_view p' = (pq_view p)(pod_id new \<mapsto> (Backoff, fst (updatePod go x new p)))"
proof -
  obtain y p1 where y: "updatePod go x new p = (y, p1)" by fastforce
  then have y1: "qid y = pod_id new" "pq_activeQ p1 = pq_activeQ p" "pq_podBackoffQ p1 = pq_podBackoffQ p"
      "pq_unschedulableQ p1 = pq_unschedulableQ p" "pq_config p1 = pq_config p" "pq_cycles p1 = pq_cycles p"
    using updatePod_simps [of go x new p] by (auto simp: pq_config_def pq_cycles_def)
  obtain npm where npm: "UpdateNominatedPod (pq_nominator p1) (Some old) (qp_PodInfo y) = Some npm"
    by (simp add: UpdateNominatedPod_def)
  obtain b where b: "Heap_Add (pq_podBackoffQ p) y = Some (b, None)" "pod_heap (pq_backoff_less p) b"
      "heap_pods b = (heap_pods (pq_podBackoffQ p))(pod_id new \<mapsto> y)"
    using pod_heap_Add [OF pq_invD(2) [OF inv], of y] v y1(1) by auto
  define p' where "p' = p1\<lparr>pq_nominator := npm, pq_podBackoffQ := b\<rparr>"
  have run: "update_backoff go old new x p = Some (p', None)"
    using npm b(1) y1(3) by (simp add: update_backoff_def y Heap_Update_def p'_def)
  have c: "pq_config p' = pq_config p" "pq_cycles p' = pq_cycles p" using y1(5,6) by (simp_all add: p'_def pq_config_def pq_cycles_def)
  have n: "heap_pods (pq_activeQ p) (pod_id new) = None" "us_map (pq_unschedulableQ p) (pod_id new) = None"
    using inv x by (auto simp: pq_inv_def pq_view_iff [OF inv])
  have "pq_inv lessFn p'" "pq_view p' = (pq_view p)(pod_id new \<mapsto> (Backoff, y))"
    using pq_change [OF inv c(1), of "pod_id new" None "Some y" None] b(2,3) y1 pq_invD [OF inv] n by (simp_all add: p'_def fun_upd_idem)
  then show ?thesis using run c y by simp
qed

text \<open>An unschedulable pod leaves its part when more than its status changed.\<close>

lemma update_unschedulable_ok:
  assumes inv: "pq_inv lessFn p" and v: "valid_id (pod_id new)" and x: "pq_view p (pod_id new) = Some (Unschedulable, x)"
  shows "\<exists>p'. update_unschedulable go now (Some old) new x p = Some (p', None) \<and> pq_inv lessFn p' \<and> pq_config p' = pq_config p \<and>
    pq_cycles p' = pq_cycles p \<and>
    pq_view p' = (pq_view p)(pod_id new \<mapsto>
      (if strip old = strip new then Unschedulable else move_dest p now (fst (updatePod go x new p)), fst (updatePod go x new p)))"
proof -
  obtain y p0 where y: "updatePod go x new p = (y, p0)" by fastforce
  define u1 where "u1 = (pq_unschedulableQ p)\<lparr>us_podInfoMap := (us_podInfoMap (pq_unschedulableQ p))(id_full (pod_id new) \<mapsto> y)\<rparr>"
  obtain npm where npm: "UpdateNominatedPod (pq_nominator p0) (Some old) (qp_PodInfo y) = Some npm"
    by (simp add: UpdateNominatedPod_def)
  define p2 where "p2 = p0\<lparr>pq_unschedulableQ := u1, pq_nominator := npm\<rparr>"
  have y1: "qid y = pod_id new" "pq_activeQ p2 = pq_activeQ p" "pq_podBackoffQ p2 = pq_podBackoffQ p" "pq_unschedulableQ p0 = pq_unschedulableQ p"
      "pq_config p2 = pq_config p" "pq_cycles p2 = pq_cycles p"
    using updatePod_simps [of go x new p] y by (auto simp: pq_config_def pq_cycles_def p2_def)
  have vy: "valid_id (qid y)" using v y1(1) by simp
  have ux: "us_map (pq_unschedulableQ p) (pod_id new) = Some x" using x by (simp add: pq_view_iff [OF inv])
  have u1: "us_ok u1" "us_map u1 = (us_map (pq_unschedulableQ p))(pod_id new \<mapsto> y)"
    using us_write_ok [OF pq_invD(3) [OF inv] v _ y1(1)] ux us_map_upd(1) [OF v] by (simp_all add: u1_def)
  note del = us_delete_ok [OF u1(1), of "qp_Pod y"] and add = us_addOrUpdate_ok [OF u1(1) vy]
  have n: "heap_pods (pq_activeQ p) (pod_id new) = None" "heap_pods (pq_podBackoffQ p) (pod_id new) = None"
    using inv ux by (auto simp: pq_inv_def)
  have upd: "isPodUpdated (Some old) new = Some (strip old \<noteq> strip new)" by (simp add: isPodUpdated_def)
  have bo: "isPodBackingoff p2 now y = isPodBackingoff p now y" using config_functions(4) [OF y1(5)] by simp
  have run: "update_unschedulable go now (Some old) new x p =
     (if strip old = strip new then Some (p2\<lparr>pq_unschedulableQ := us_addOrUpdate u1 y\<rparr>, None)
      else if isPodBackingoff p now y then
        map_option (\<lambda>(b, err). case err of Some e \<Rightarrow> (p2\<lparr>pq_podBackoffQ := b\<rparr>, Some e)
          | None \<Rightarrow> (p2\<lparr>pq_podBackoffQ := b, pq_unschedulableQ := us_delete u1 (qp_Pod y)\<rparr>, None)) (Heap_Add (pq_podBackoffQ p) y)
      else
        map_option (\<lambda>(a, err). case err of Some e \<Rightarrow> (p2\<lparr>pq_activeQ := a\<rparr>, Some e)
          | None \<Rightarrow> (p2\<lparr>pq_activeQ := a, pq_unschedulableQ := us_delete u1 (qp_Pod y)\<rparr>, None)) (Heap_Add (pq_activeQ p) y))"
    using npm bo y1(2-4)
    by (auto simp: update_unschedulable_def y Let_def GetPodFullName_id upd u1_def [symmetric] p2_def map_option_case split: option.split)
  consider (same) "strip old = strip new" | (backing) "strip old \<noteq> strip new" "isPodBackingoff p now y"
    | (act) "strip old \<noteq> strip new" "\<not> isPodBackingoff p now y" by blast
  then show ?thesis
  proof cases
    case same
    define p' where "p' = p2\<lparr>pq_unschedulableQ := us_addOrUpdate u1 y\<rparr>"
    have c: "pq_config p' = pq_config p" "pq_cycles p' = pq_cycles p" using y1(5,6) by (simp_all add: p'_def pq_config_def pq_cycles_def)
    have "pq_inv lessFn p'" "pq_view p' = (pq_view p)(pod_id new \<mapsto> (Unschedulable, y))"
      using pq_change [OF inv c(1), of "pod_id new" None None "Some y"] y1 u1 add pq_invD [OF inv] n by (simp_all add: p'_def fun_upd_idem)
    then show ?thesis using run same c y by (simp add: p'_def)
  next
    case backing
    obtain b where b: "Heap_Add (pq_podBackoffQ p) y = Some (b, None)" "pod_heap (pq_backoff_less p) b"
        "heap_pods b = (heap_pods (pq_podBackoffQ p))(pod_id new \<mapsto> y)"
      using pod_heap_Add [OF pq_invD(2) [OF inv] vy] y1(1) by auto
    define p' where "p' = p2\<lparr>pq_podBackoffQ := b, pq_unschedulableQ := us_delete u1 (qp_Pod y)\<rparr>"
    have c: "pq_config p' = pq_config p" "pq_cycles p' = pq_cycles p" using y1(5,6) by (simp_all add: p'_def pq_config_def pq_cycles_def)
    have "pq_inv lessFn p'" "pq_view p' = (pq_view p)(pod_id new \<mapsto> (Backoff, y))"
      using pq_change [OF inv c(1), of "pod_id new" None "Some y" None] y1 u1 del vy b(2,3) pq_invD [OF inv] n by (simp_all add: p'_def fun_upd_idem)
    then show ?thesis using run backing b(1) c y by (simp add: p'_def move_dest_def)
  next
    case act
    obtain a where a: "Heap_Add (pq_activeQ p) y = Some (a, None)" "pod_heap lessFn a"
        "heap_pods a = (heap_pods (pq_activeQ p))(pod_id new \<mapsto> y)"
      using pod_heap_Add [OF pq_invD(1) [OF inv] vy] y1(1) by auto
    define p' where "p' = p2\<lparr>pq_activeQ := a, pq_unschedulableQ := us_delete u1 (qp_Pod y)\<rparr>"
    have c: "pq_config p' = pq_config p" "pq_cycles p' = pq_cycles p" using y1(5,6) by (simp_all add: p'_def pq_config_def pq_cycles_def)
    have "pq_inv lessFn p'" "pq_view p' = (pq_view p)(pod_id new \<mapsto> (Active, y))"
      using pq_change [OF inv c(1), of "pod_id new" "Some y" None None] y1 u1 del vy a(2,3) pq_invD [OF inv] n by (simp_all add: p'_def fun_upd_idem)
    then show ?thesis using run act a(1) c y by (simp add: p'_def move_dest_def)
  qed
qed

definition update_entry :: "go_orders \<Rightarrow> int \<Rightarrow> pod \<Rightarrow> pod \<Rightarrow> PriorityQueue \<Rightarrow> place \<times> QueuedPodInfo" where
  "update_entry go now old new p =
     (case pq_view p (pod_id new) of
        None \<Rightarrow> (Active, fst (newQueuedPodInfo go now p new []))
      | Some (w, x) \<Rightarrow>
          (let y = fst (updatePod go x new p) in
           (if w = Unschedulable \<and> strip old \<noteq> strip new then move_dest p now y else w, y)))"

lemma pq_Update_ok:
  assumes inv: "pq_inv lessFn p" and v: "valid_id (pod_id new)" and old: "pod_id old = pod_id new"
  shows "\<exists>p'. pq_Update go now (Some old) new p = Some (p', None) \<and> pq_inv lessFn p' \<and> pq_config p' = pq_config p \<and>
    pq_cycles p' = pq_cycles p \<and> pq_view p' = (pq_view p)(pod_id new \<mapsto> update_entry go now old new p)"
proof -
  have vl: "valid_id (qid (newQueuedPodInfoForLookup old []))" using v old by simp
  have fa: "heap_find (pq_activeQ p) (newQueuedPodInfoForLookup old []) = heap_pods (pq_activeQ p) (pod_id new)"
    and fb: "heap_find (pq_podBackoffQ p) (newQueuedPodInfoForLookup old []) = heap_pods (pq_podBackoffQ p) (pod_id new)"
    using pod_heap_find [OF pq_invD(1) [OF inv] vl] pod_heap_find [OF pq_invD(2) [OF inv] vl] old by simp_all
  show ?thesis
  proof (cases "pq_view p (pod_id new)")
    case None
    then have n: "heap_pods (pq_activeQ p) (pod_id new) = None" "heap_pods (pq_podBackoffQ p) (pod_id new) = None"
        "us_map (pq_unschedulableQ p) (pod_id new) = None" by (simp_all add: pq_view_None)
    obtain x p1 where x: "newQueuedPodInfo go now p new [] = (x, p1)" by fastforce
    then have x1: "qid x = pod_id new" "p1 = p\<lparr>pq_next := Suc (pq_next p)\<rparr>"
      using newQueuedPodInfo_simps [of go now p new "[]"] by auto
    obtain a where a: "Heap_Add (pq_activeQ p) x = Some (a, None)" "pod_heap lessFn a"
        "heap_pods a = (heap_pods (pq_activeQ p))(pod_id new \<mapsto> x)"
      using pod_heap_Add [OF pq_invD(1) [OF inv], of x] v x1(1) by auto
    define p' where "p' = p1\<lparr>pq_activeQ := a, pq_nominator := AddNominatedPod (pq_nominator p1) (qp_PodInfo x) []\<rparr>"
    have run: "pq_Update go now (Some old) new p = Some (p', None)"
      using a(1) us_get_map [OF v] n by (simp add: pq_Update_def fa fb update_rest_def x x1(2) p'_def)
    have c: "pq_config p' = pq_config p" "pq_cycles p' = pq_cycles p" by (simp_all add: p'_def x1(2) pq_config_def pq_cycles_def)
    have "pq_inv lessFn p'" "pq_view p' = (pq_view p)(pod_id new \<mapsto> (Active, x))"
      using pq_change [OF inv c(1), of "pod_id new" "Some x" None None] a(2,3) pq_invD [OF inv] n
      by (simp_all add: p'_def x1(2) fun_upd_idem)
    then show ?thesis using run c None x by (simp add: update_entry_def)
  next
    case (Some wx)
    obtain w x where wx: "wx = (w, x)" by fastforce
    show ?thesis
    proof (cases w)
      case Active
      then have "heap_pods (pq_activeQ p) (pod_id new) = Some x" using Some wx by (simp add: pq_view_iff [OF inv])
      then show ?thesis using update_active_ok [OF inv v, of x go old] Some wx Active
        by (simp add: pq_Update_def fa update_entry_def)
    next
      case Backoff
      then have "heap_pods (pq_podBackoffQ p) (pod_id new) = Some x" "heap_pods (pq_activeQ p) (pod_id new) = None"
        using Some wx inv by (auto simp: pq_view_def split: option.splits)
      then show ?thesis using update_backoff_ok [OF inv v, of x go old] Some wx Backoff
        by (simp add: pq_Update_def fa fb update_entry_def)
    next
      case Unschedulable
      then have "us_map (pq_unschedulableQ p) (pod_id new) = Some x" "heap_pods (pq_podBackoffQ p) (pod_id new) = None"
          "heap_pods (pq_activeQ p) (pod_id new) = None"
        using Some wx inv by (auto simp: pq_view_def split: option.splits)
      then show ?thesis using update_unschedulable_ok [OF inv v, of x go now old] Some wx Unschedulable us_get_map [OF v]
        by (auto simp: pq_Update_def fa fb update_rest_def update_entry_def Let_def)
    qed
  qed
qed

end
