(* ===== verification/Queue_Histories.thy ===== *)
theory Queue_Histories
  imports Queue_Correct
begin

text \<open>
  Histories of the scheduling queue: the operations of the event handlers, the scheduling loop, the
  two flushing goroutines and the nominator in any order. The theory states what each operation does
  to the view of the queue as one map, shows that no operation panics, and that a pod whose
  scheduling attempt ran while a cluster event moved pods is not parked as unschedulable.
\<close>

section \<open>Operations\<close>

text \<open>\<open>OtherAlloc\<close> is an allocation of \<open>PodInfo\<close> structs by other code.\<close>

datatype pq_op =
    OpAdd int pod
  | OpAddUnschedulable int QueuedPodInfo int
  | OpFlushBackoff int
  | OpFlushLeftover int "string list"
  | OpPop
  | OpUpdate int pod pod
  | OpDelete pod
  | OpAssignedAdded "(string \<rightharpoonup> label_set) option" int "string list" pod
  | OpAssignedUpdated "(string \<rightharpoonup> label_set) option" int "string list" pod
  | OpMoveAll int "string list" string
  | OpNominate PodRef string
  | OpUnnominate pod
  | OpClose
  | OtherAlloc nat

fun pq_exec :: "go_orders \<Rightarrow> pq_op \<Rightarrow> PriorityQueue \<Rightarrow> PriorityQueue go" where
  "pq_exec go (OpAdd now pod) p = map_option fst (pq_Add go now pod p)"
| "pq_exec go (OpAddUnschedulable now pInfo cycle) p = map_option fst (AddUnschedulableIfNotPresent now pInfo cycle p)"
| "pq_exec go (OpFlushBackoff now) p = flushBackoffQCompleted now p"
| "pq_exec go (OpFlushLeftover now ks) p = flushUnschedulableQLeftover now ks p"
| "pq_exec go OpPop p = map_option (\<lambda>r. case r of None \<Rightarrow> p | Some (p', _) \<Rightarrow> p') (pq_Pop p)"
| "pq_exec go (OpUpdate now old new) p = map_option fst (pq_Update go now (Some old) new p)"
| "pq_exec go (OpDelete pod) p = pq_Delete pod p"
| "pq_exec go (OpAssignedAdded nsLister now ks pod) p = AssignedPodAdded go nsLister now ks pod p"
| "pq_exec go (OpAssignedUpdated nsLister now ks pod) p = AssignedPodUpdated go nsLister now ks pod p"
| "pq_exec go (OpMoveAll now ks event) p = MoveAllToActiveOrBackoffQueue now ks event p"
| "pq_exec go (OpNominate pi nodeName) p = Some (pq_AddNominatedPod pi nodeName p)"
| "pq_exec go (OpUnnominate pod) p = Some (pq_DeleteNominatedPodIfExists pod p)"
| "pq_exec go OpClose p = pq_Close p"
| "pq_exec go (OtherAlloc n) p = Some (p\<lparr>pq_next := pq_next p + n\<rparr>)"

text \<open>The pods of the API server have valid names, an update event is about one pod, the loops
  visit every entry of the map, and the queue is closed once.\<close>

fun op_ok :: "PriorityQueue \<Rightarrow> pq_op \<Rightarrow> bool" where
  "op_ok p (OpAdd now pod) \<longleftrightarrow> valid_id (pod_id pod)"
| "op_ok p (OpAddUnschedulable now pInfo cycle) \<longleftrightarrow> valid_id (qid pInfo)"
| "op_ok p (OpFlushLeftover now ks) \<longleftrightarrow> range_order ks (us_podInfoMap (pq_unschedulableQ p))"
| "op_ok p (OpUpdate now old new) \<longleftrightarrow> valid_id (pod_id new) \<and> pod_id old = pod_id new"
| "op_ok p (OpDelete pod) \<longleftrightarrow> valid_id (pod_id pod)"
| "op_ok p (OpAssignedAdded nsLister now ks pod) \<longleftrightarrow> range_order ks (us_podInfoMap (pq_unschedulableQ p))"
| "op_ok p (OpAssignedUpdated nsLister now ks pod) \<longleftrightarrow> range_order ks (us_podInfoMap (pq_unschedulableQ p))"
| "op_ok p (OpMoveAll now ks event) \<longleftrightarrow> range_order ks (us_podInfoMap (pq_unschedulableQ p))"
| "op_ok p OpClose \<longleftrightarrow> \<not> pq_closed p"
| "op_ok p _ \<longleftrightarrow> True"

text \<open>Histories in which every operation satisfies \<open>C\<close>.\<close>

inductive pq_reachable ::
  "go_orders \<Rightarrow> (QueuedPodInfo \<Rightarrow> QueuedPodInfo \<Rightarrow> bool) \<Rightarrow> (PriorityQueue \<Rightarrow> pq_op \<Rightarrow> bool) \<Rightarrow> PriorityQueue \<Rightarrow> bool"
  for go lessFn C where
  queue_new: "pq_reachable go lessFn C (NewPriorityQueue lessFn initial maxDuration None cem)"
| queue_step: "pq_reachable go lessFn C p \<Longrightarrow> C p op \<Longrightarrow> pq_exec go op p = Some p' \<Longrightarrow> pq_reachable go lessFn C p'"

section \<open>The specification\<close>

type_synonym queue_view = "string \<times> string \<rightharpoonup> place \<times> QueuedPodInfo"

text \<open>The affinity terms that make an unschedulable pod wait for the pod that was assigned.\<close>

definition waits_for :: "go_orders \<Rightarrow> (string \<rightharpoonup> label_set) option \<Rightarrow> pod \<Rightarrow> QueuedPodInfo \<Rightarrow> bool" where
  "waits_for go nsLister pod x \<longleftrightarrow>
     list_ex (\<lambda>t. AffinityTerm_Matches t pod
         (case nsLister of None \<Rightarrow> Map.empty | Some l \<Rightarrow> GetNamespaceLabelsSnapshot go (p_Namespace pod) l) (nsLister \<noteq> None))
       (pi_RequiredAffinityTerms (pr_info (qp_PodInfo x)))"

text \<open>What an operation does to the view; \<open>p\<close> gives the clock settings, the event registry and the cycles.\<close>

fun op_spec :: "go_orders \<Rightarrow> (QueuedPodInfo \<Rightarrow> QueuedPodInfo \<Rightarrow> bool) \<Rightarrow> PriorityQueue \<Rightarrow> pq_op \<Rightarrow> queue_view \<Rightarrow> queue_view \<Rightarrow> bool" where
  "op_spec go lessFn p (OpAdd now pod) v v' \<longleftrightarrow> v' = v(pod_id pod \<mapsto> (Active, fst (newQueuedPodInfo go now p pod [])))"
| "op_spec go lessFn p (OpAddUnschedulable now x cycle) v v' \<longleftrightarrow>
     (if v (qid x) \<noteq> None then v' = v
      else v' = v(qid x \<mapsto> (if pq_moveRequestCycle p \<ge> cycle then Backoff else Unschedulable, x\<lparr>qp_Timestamp := now\<rparr>)))"
| "op_spec go lessFn p (OpFlushBackoff now) v v' \<longleftrightarrow> v' = flush_view (\<lambda>x. pq_getBackoffTime p x \<le> now) v"
| "op_spec go lessFn p (OpFlushLeftover now ks) v v' \<longleftrightarrow>
     v' = move_view (\<lambda>x. now - qp_Timestamp x > unschedulableQTimeInterval) (move_dest p now) v"
| "op_spec go lessFn p OpPop v v' \<longleftrightarrow>
     (if \<exists>i x. v i = Some (Active, x)
      then \<exists>i x. v i = Some (Active, x) \<and> (\<forall>j y. v j = Some (Active, y) \<longrightarrow> \<not> lessFn y x) \<and> v' = v(i := None)
      else v' = v)"
| "op_spec go lessFn p (OpUpdate now old new) v v' \<longleftrightarrow> v' = v(pod_id new \<mapsto> update_entry go now old new p)"
| "op_spec go lessFn p (OpDelete pod) v v' \<longleftrightarrow> v' = v(pod_id pod := None)"
| "op_spec go lessFn p (OpAssignedAdded nsLister now ks pod) v v' \<longleftrightarrow>
     v' = move_view (\<lambda>x. waits_for go nsLister pod x \<and> event_moves p ''AssignedPodAdd'' x) (move_dest p now) v"
| "op_spec go lessFn p (OpAssignedUpdated nsLister now ks pod) v v' \<longleftrightarrow>
     v' = move_view (\<lambda>x. waits_for go nsLister pod x \<and> event_moves p ''AssignedPodUpdate'' x) (move_dest p now) v"
| "op_spec go lessFn p (OpMoveAll now ks event) v v' \<longleftrightarrow> v' = move_view (event_moves p event) (move_dest p now) v"
| "op_spec go lessFn p _ v v' \<longleftrightarrow> v' = v"

text \<open>The move request cycle after an operation, and whether the scheduling cycle advances.\<close>

fun moves_pods :: "pq_op \<Rightarrow> bool" where
  "moves_pods (OpAssignedAdded nsLister now ks pod) = True"
| "moves_pods (OpAssignedUpdated nsLister now ks pod) = True"
| "moves_pods (OpMoveAll now ks event) = True"
| "moves_pods _ = False"

definition cycles_step :: "pq_op \<Rightarrow> PriorityQueue \<Rightarrow> PriorityQueue \<Rightarrow> bool" where
  "cycles_step op p p' \<longleftrightarrow>
     pq_schedulingCycle p \<le> pq_schedulingCycle p' \<and>
     (pq_moveRequestCycle p' = pq_moveRequestCycle p \<or> pq_moveRequestCycle p' = pq_schedulingCycle p) \<and>
     (moves_pods op \<longrightarrow> pq_moveRequestCycle p' = pq_schedulingCycle p)"

lemma cycles_same: "pq_cycles p' = pq_cycles p \<Longrightarrow> \<not> moves_pods op \<Longrightarrow> cycles_step op p p'"
  by (simp add: cycles_step_def pq_cycles_def)

lemma cycles_moved: "pq_cycles p' = (pq_schedulingCycle p, pq_schedulingCycle p) \<Longrightarrow> cycles_step op p p'"
  by (simp add: cycles_step_def pq_cycles_def)

definition op_result :: "go_orders \<Rightarrow> (QueuedPodInfo \<Rightarrow> QueuedPodInfo \<Rightarrow> bool) \<Rightarrow> pq_op \<Rightarrow> PriorityQueue \<Rightarrow> PriorityQueue \<Rightarrow> bool" where
  "op_result go lessFn op p p' \<longleftrightarrow>
     pq_inv lessFn p' \<and> pq_config p' = pq_config p \<and> op_spec go lessFn p op (pq_view p) (pq_view p') \<and> cycles_step op p p'"

lemma getUnschedulable_filter:
  "getUnschedulablePodsWithMatchingAffinityTerm go nsLister ks pod p = filter (waits_for go nsLister pod) (us_pods ks p)"
  by (simp add: getUnschedulablePodsWithMatchingAffinityTerm_def waits_for_def [abs_def] Let_def)

lemma exec_moves:
  assumes inv: "pq_inv lessFn p"
  shows "op_ok p (OpMoveAll now ks event) \<Longrightarrow> \<exists>p'. pq_exec go (OpMoveAll now ks event) p = Some p' \<and> op_result go lessFn (OpMoveAll now ks event) p p'"
    "op_ok p (OpAssignedAdded nsl now ks pod) \<Longrightarrow>
      \<exists>p'. pq_exec go (OpAssignedAdded nsl now ks pod) p = Some p' \<and> op_result go lessFn (OpAssignedAdded nsl now ks pod) p p'"
    "op_ok p (OpAssignedUpdated nsl now ks pod) \<Longrightarrow>
      \<exists>p'. pq_exec go (OpAssignedUpdated nsl now ks pod) p = Some p' \<and> op_result go lessFn (OpAssignedUpdated nsl now ks pod) p p'"
    "op_ok p (OpFlushLeftover now ks) \<Longrightarrow> \<exists>p'. pq_exec go (OpFlushLeftover now ks) p = Some p' \<and> op_result go lessFn (OpFlushLeftover now ks) p p'"
proof -
  show "\<exists>p'. pq_exec go (OpMoveAll now ks event) p = Some p' \<and> op_result go lessFn (OpMoveAll now ks event) p p'"
    if "op_ok p (OpMoveAll now ks event)"
    using move_pods_ok [OF inv, of ks now "\<lambda>_. True" event] that
    by (auto simp: MoveAllToActiveOrBackoffQueue_def op_result_def intro: cycles_moved)
  show "\<exists>p'. pq_exec go (OpAssignedAdded nsl now ks pod) p = Some p' \<and> op_result go lessFn (OpAssignedAdded nsl now ks pod) p p'"
    if "op_ok p (OpAssignedAdded nsl now ks pod)"
    using move_pods_ok [OF inv, of ks now "waits_for go nsl pod" "''AssignedPodAdd''"] that
    by (auto simp: AssignedPodAdded_def getUnschedulable_filter op_result_def intro: cycles_moved)
  show "\<exists>p'. pq_exec go (OpAssignedUpdated nsl now ks pod) p = Some p' \<and> op_result go lessFn (OpAssignedUpdated nsl now ks pod) p p'"
    if "op_ok p (OpAssignedUpdated nsl now ks pod)"
    using move_pods_ok [OF inv, of ks now "waits_for go nsl pod" "''AssignedPodUpdate''"] that
    by (auto simp: AssignedPodUpdated_def getUnschedulable_filter op_result_def intro: cycles_moved)
  let ?old = "\<lambda>x. now - qp_Timestamp x > unschedulableQTimeInterval"
  assume ok: "op_ok p (OpFlushLeftover now ks)"
  show "\<exists>p'. pq_exec go (OpFlushLeftover now ks) p = Some p' \<and> op_result go lessFn (OpFlushLeftover now ks) p p'"
  proof (cases "filter ?old (us_pods ks p) = []")
    case True
    have "\<not> ?old x" if "pq_view p i = Some (Unschedulable, x)" for i x
      using True us_pods_ok(2) [OF pq_invD(3) [OF inv], of ks x] ok that pq_view_qid(1) [OF inv that]
      by (auto simp: pq_view_iff [OF inv] filter_empty_conv)
    then have "move_view ?old (move_dest p now) (pq_view p) = pq_view p"
      by (auto simp: move_view_def fun_eq_iff split: option.split place.split)
    then show ?thesis using True inv by (auto simp: flushUnschedulableQLeftover_def op_result_def cycles_step_def)
  next
    case False
    then show ?thesis using move_pods_ok [OF inv, of ks now ?old "''UnschedulableTimeout''"] ok
      by (auto simp: flushUnschedulableQLeftover_def op_result_def timeout_moves intro: cycles_moved)
  qed
qed

lemma exec_ok:
  assumes inv: "pq_inv lessFn p" and ok: "op_ok p op"
  shows "\<exists>p'. pq_exec go op p = Some p' \<and> op_result go lessFn op p p'"
proof (cases op)
  case (OpAdd now pod)
  then show ?thesis using pq_Add_ok [OF inv, of pod go now] ok by (auto simp: op_result_def cycles_same)
next
  case (OpAddUnschedulable now x cycle)
  then have "valid_id (qid x)" using ok by simp
  then obtain p' e where "AddUnschedulableIfNotPresent now x cycle p = Some (p', e)" "pq_inv lessFn p'" "pq_config p' = pq_config p"
      "pq_cycles p' = pq_cycles p" "if pq_view p (qid x) \<noteq> None then p' = p \<and> e \<noteq> None
       else e = None \<and> pq_view p' = (pq_view p)(qid x \<mapsto>
         (if pq_moveRequestCycle p \<ge> cycle then Backoff else Unschedulable, x\<lparr>qp_Timestamp := now\<rparr>))"
    using AddUnschedulable_ok [OF inv] by meson
  then show ?thesis using OpAddUnschedulable by (auto simp: op_result_def cycles_same split: if_splits)
next
  case (OpFlushBackoff now)
  then show ?thesis using flush_ok [OF inv, of now] by (auto simp: op_result_def cycles_same)
next
  case OpPop
  show ?thesis
  proof (cases "\<exists>i x. pq_view p i = Some (Active, x)")
    case True
    then obtain p' x where "pq_Pop p = Some (Some (p', Inr (x\<lparr>qp_Attempts := qp_Attempts x + 1\<rparr>)))" "pq_inv lessFn p'" "pq_config p' = pq_config p"
      "pq_schedulingCycle p' = pq_schedulingCycle p + 1" "pq_moveRequestCycle p' = pq_moveRequestCycle p"
      "pq_view p (qid x) = Some (Active, x)" "pq_view p' = (pq_view p)(qid x := None)"
      "\<forall>i y. pq_view p i = Some (Active, y) \<longrightarrow> \<not> lessFn y x"
      using pq_Pop_ok [OF inv] by auto
    then show ?thesis using True by (auto simp: OpPop op_result_def cycles_step_def)
  next
    case False
    then show ?thesis using pq_Pop_ok [OF inv] inv by (auto simp: OpPop op_result_def cycles_step_def split: if_splits)
  qed
next
  case (OpUpdate now old new)
  then show ?thesis using pq_Update_ok [OF inv, of new old go now] ok by (auto simp: op_result_def cycles_same)
next
  case (OpDelete pod)
  then show ?thesis using pq_Delete_ok [OF inv, of pod] ok by (auto simp: op_result_def cycles_same)
next
  case (OpNominate r n)
  then show ?thesis using pq_same_parts [of "pq_AddNominatedPod r n p" p] inv
    by (auto simp: op_result_def pq_AddNominatedPod_def pq_config_def cycles_step_def)
next
  case (OpUnnominate pod)
  then show ?thesis using pq_same_parts [of "pq_DeleteNominatedPodIfExists pod p" p] inv
    by (auto simp: op_result_def pq_DeleteNominatedPodIfExists_def pq_config_def cycles_step_def)
next
  case OpClose
  then show ?thesis using pq_same_parts [of "p\<lparr>pq_closed := True\<rparr>" p] inv ok
    by (auto simp: op_result_def pq_Close_def pq_config_def cycles_step_def)
next
  case (OtherAlloc n)
  then show ?thesis using pq_same_parts [of "p\<lparr>pq_next := pq_next p + n\<rparr>" p] inv
    by (auto simp: op_result_def pq_config_def cycles_step_def)
qed (use exec_moves [OF inv] ok in blast)+

lemma reachable_inv:
  assumes "pq_reachable go lessFn C p" "strict_weak_order lessFn" "\<And>p op. C p op \<Longrightarrow> op_ok p op"
  shows "pq_inv lessFn p"
  using assms
proof (induction rule: pq_reachable.induct)
  case (queue_step p op p')
  then show ?case using exec_ok [of lessFn p op go] by (auto simp: op_result_def)
qed (auto intro: new_queue_ok(1))

section \<open>Properties\<close>

text \<open>The samples that the witnesses use.\<close>

definition sample_orders :: go_orders where
  "sample_orders = \<lparr>go_sort = sort_key rq_key, go_range = (\<lambda>_. [])\<rparr>"

definition sample_queue :: PriorityQueue where
  "sample_queue = NewPriorityQueue PrioritySort_Less (10 ^ 9) (10 * 10 ^ 9) None []"

definition waiting_pod :: pod where
  "waiting_pod = (sample_pod ''web'' 80 100)\<lparr>p_NodeName := []\<rparr>"

lemma PrioritySort_order: "strict_weak_order PrioritySort_Less"
  by (auto simp: strict_weak_order_def PrioritySort_Less_def Let_def)

lemma sample_reachable_queue: "pq_reachable go PrioritySort_Less C sample_queue"
  unfolding sample_queue_def by (rule queue_new)

lemma waiting_pod_id: "pod_id waiting_pod = (''default'', ''web'')"
  by (simp add: waiting_pod_def sample_pod_def pod_id_def)

lemma waiting_pod_valid: "valid_id (pod_id waiting_pod)"
  unfolding waiting_pod_id valid_id_def fst_conv snd_conv by code_simp

text \<open>C12: After any history of the queue a pod is in at most one of the active queue, the backoff queue and the
  unschedulable pods, the metric recorders of the three parts show their sizes, and no operation panics.\<close>

theorem queue_exclusive:
  assumes "pq_reachable go lessFn op_ok p" "strict_weak_order lessFn" "valid_id (pod_id pod)"
  shows "(heap_find (pq_activeQ p) (newQueuedPodInfoForLookup pod []) = None \<or> heap_find (pq_podBackoffQ p) (newQueuedPodInfoForLookup pod []) = None) \<and>
    (heap_find (pq_activeQ p) (newQueuedPodInfoForLookup pod []) = None \<or> us_get (pq_unschedulableQ p) pod = None) \<and>
    (heap_find (pq_podBackoffQ p) (newQueuedPodInfoForLookup pod []) = None \<or> us_get (pq_unschedulableQ p) pod = None) \<and>
    h_metricRecorder (pq_activeQ p) = Some (int (Heap_Len (pq_activeQ p))) \<and>
    h_metricRecorder (pq_podBackoffQ p) = Some (int (Heap_Len (pq_podBackoffQ p))) \<and>
    us_metricRecorder (pq_unschedulableQ p) = Some (int (NumUnschedulablePods p)) \<and>
    (op_ok p op \<longrightarrow> pq_exec go op p \<noteq> None)"
proof -
  have inv: "pq_inv lessFn p" using reachable_inv [OF assms(1,2)] by simp
  have v: "valid_id (qid (newQueuedPodInfoForLookup pod []))" using assms(3) by simp
  show ?thesis
    using inv exec_ok [OF inv, of op go] us_get_map [OF assms(3)]
      pod_heap_find [OF pq_invD(1) [OF inv] v] pod_heap_find [OF pq_invD(2) [OF inv] v]
    by (auto simp: pq_inv_def pod_heap_def heap_ok_def us_ok_def NumUnschedulablePods_def)
qed

theorem queue_exclusive_witness:
  "pq_exec sample_orders (OpAdd 0 waiting_pod) sample_queue \<noteq> None \<and> h_metricRecorder (pq_activeQ sample_queue) = Some (int (Heap_Len (pq_activeQ sample_queue)))"
  using queue_exclusive [where go = sample_orders and op = "OpAdd 0 waiting_pod", OF sample_reachable_queue PrioritySort_order waiting_pod_valid]
    waiting_pod_valid by simp

text \<open>C11: Seen as one map from pods to a part and the queued information, the queue implements its specification: \<open>Add\<close> makes
  a pod active, \<open>Pop\<close> removes a first active pod, \<open>Delete\<close> removes the pod from whichever part has it, an update keeps the pod where it is unless
  it was unschedulable and its specification changed, the two flushes and the move requests move exactly the pods whose backoff is over, that waited longest,
  or that the event may help, and everything else stays.\<close>

theorem queue_refines_view:
  assumes "pq_reachable go lessFn op_ok p" "strict_weak_order lessFn" "op_ok p op"
  shows "\<exists>p'. pq_exec go op p = Some p' \<and> op_spec go lessFn p op (pq_view p) (pq_view p')"
  using exec_ok [OF reachable_inv [OF assms(1,2)] assms(3), of go] by (auto simp: op_result_def)

theorem queue_refines_view_witness:
  "\<exists>p'. pq_exec sample_orders (OpAdd 0 waiting_pod) sample_queue = Some p' \<and>
    pq_view p' (''default'', ''web'') = Some (Active, fst (newQueuedPodInfo sample_orders 0 sample_queue waiting_pod []))"
  using queue_refines_view [where go = sample_orders and op = "OpAdd 0 waiting_pod", OF sample_reachable_queue PrioritySort_order] waiting_pod_valid
  by (auto simp: waiting_pod_id)

text \<open>C28: With the default queue sort, \<open>Pop\<close> hands out an active pod of the highest priority, the one that waits longest among equals,
  with its attempts counted and the scheduling cycle advanced; on an empty active queue it waits, or fails once the queue is closed.\<close>

theorem queue_pop_priority:
  assumes "pq_reachable go PrioritySort_Less op_ok p"
  shows "if \<exists>i x. pq_view p i = Some (Active, x)
    then \<exists>p' x. pq_Pop p = Some (Some (p', Inr (x\<lparr>qp_Attempts := qp_Attempts x + 1\<rparr>))) \<and> SchedulingCycle p' = SchedulingCycle p + 1 \<and>
      pq_view p (qid x) = Some (Active, x) \<and> pq_view p' = (pq_view p)(qid x := None) \<and>
      (\<forall>i y. pq_view p i = Some (Active, y) \<longrightarrow> PodPriority (qp_Pod y) < PodPriority (qp_Pod x) \<or>
         PodPriority (qp_Pod y) = PodPriority (qp_Pod x) \<and> qp_Timestamp x \<le> qp_Timestamp y)
    else pq_Pop p = Some (if pq_closed p then Some (p, Inl (Errorf ''scheduling queue is closed'')) else None)"
proof -
  have inv: "pq_inv PrioritySort_Less p" using reachable_inv [OF assms PrioritySort_order] by simp
  have less: "\<not> PrioritySort_Less y x \<longleftrightarrow> PodPriority (qp_Pod y) < PodPriority (qp_Pod x) \<or>
      PodPriority (qp_Pod y) = PodPriority (qp_Pod x) \<and> qp_Timestamp x \<le> qp_Timestamp y" for x y
    by (auto simp: PrioritySort_Less_def Let_def)
  show ?thesis using pq_Pop_ok [OF inv] unfolding less SchedulingCycle_def by (auto split: if_splits)
qed

lemma sample_added:
  obtains p1 where "pq_exec sample_orders (OpAdd 0 waiting_pod) sample_queue = Some p1"
    "pq_reachable sample_orders PrioritySort_Less op_ok p1"
    "pq_view p1 = [(''default'', ''web'') \<mapsto> (Active, fst (newQueuedPodInfo sample_orders 0 sample_queue waiting_pod []))]"
proof -
  have inv: "pq_inv PrioritySort_Less sample_queue" and e: "pq_view sample_queue = Map.empty"
    using new_queue_ok [OF PrioritySort_order] by (simp_all add: sample_queue_def)
  have ok: "op_ok sample_queue (OpAdd 0 waiting_pod)" using waiting_pod_valid by simp
  obtain p1 where p1: "pq_exec sample_orders (OpAdd 0 waiting_pod) sample_queue = Some p1"
      "op_result sample_orders PrioritySort_Less (OpAdd 0 waiting_pod) sample_queue p1"
    using exec_ok [OF inv ok] by blast
  have "pq_reachable sample_orders PrioritySort_Less op_ok p1"
    using queue_step [OF sample_reachable_queue, of op_ok "OpAdd 0 waiting_pod"] ok p1(1) by blast
  then show thesis using that p1 e by (simp add: op_result_def waiting_pod_id)
qed

theorem queue_pop_priority_witness:
  "\<exists>p p' x. pq_exec sample_orders (OpAdd 0 waiting_pod) sample_queue = Some p \<and> pq_Pop p = Some (Some (p', Inr x)) \<and>
    qid x = (''default'', ''web'') \<and> qp_Attempts x = 1 \<and> pq_view p' = Map.empty"
proof -
  obtain p1 where p1: "pq_exec sample_orders (OpAdd 0 waiting_pod) sample_queue = Some p1"
      "pq_reachable sample_orders PrioritySort_Less op_ok p1"
      "pq_view p1 = [(''default'', ''web'') \<mapsto> (Active, fst (newQueuedPodInfo sample_orders 0 sample_queue waiting_pod []))]"
    by (rule sample_added)
  then show ?thesis using queue_pop_priority [OF p1(2)]
    by (fastforce simp: newQueuedPodInfo_def split: if_splits)
qed

text \<open>Any operations in any order.\<close>

definition pq_steps :: "go_orders \<Rightarrow> PriorityQueue \<Rightarrow> PriorityQueue \<Rightarrow> bool" where
  "pq_steps go = (\<lambda>p p'. \<exists>op. op_ok p op \<and> pq_exec go op p = Some p')\<^sup>*\<^sup>*"

lemma steps_keep:
  assumes "pq_steps go p p'" "pq_inv lessFn p"
  shows "pq_inv lessFn p' \<and> pq_schedulingCycle p \<le> pq_schedulingCycle p' \<and>
    (c \<le> pq_moveRequestCycle p \<and> c \<le> pq_schedulingCycle p \<longrightarrow> c \<le> pq_moveRequestCycle p')"
  using assms unfolding pq_steps_def
proof (induction rule: rtranclp_induct)
  case (step p' p'')
  then obtain op where "op_ok p' op" "pq_exec go op p' = Some p''" by blast
  then have "pq_inv lessFn p''" "cycles_step op p' p''"
    using exec_ok [of lessFn p' op go] step by (auto simp: op_result_def)
  then show ?case using step by (auto simp: cycles_step_def)
qed simp



section \<open>Backoff\<close>

lemma backoff_loop_exact:
  assumes "0 < d" "d \<le> m" "m < 2 ^ 62"
  shows "backoff_loop n m d = min m (d * 2 ^ n)"
  using assms
proof (induction n arbitrary: d)
  case (Suc n)
  have w: "wrap64 (d * 2) = d * 2" using Suc.prems by (intro wrap64_id) (simp add: in_int64_def max_int64_def)
  show ?case
  proof (cases "d * 2 > m")
    case True
    have "d * 2 * 1 \<le> d * 2 * 2 ^ n" using Suc.prems(1) by (intro mult_left_mono) auto
    then show ?thesis using True by (simp add: w Let_def)
  next
    case False
    then show ?thesis using Suc.IH [of "d * 2"] Suc.prems by (simp add: w Let_def ac_simps)
  qed
qed simp

text \<open>C29: The backoff of a pod is the initial duration doubled for every attempt after the first and capped at the maximal
  duration, computed without overflow; it never falls below the initial duration and does not decrease with the attempts.\<close>

theorem backoff_duration_exact:
  assumes "0 < initial" "initial \<le> maxDuration" "maxDuration < 2 ^ 62"
  shows "calculateBackoffDuration initial maxDuration x = min maxDuration (initial * 2 ^ (qp_Attempts x - 1)) \<and>
    initial \<le> calculateBackoffDuration initial maxDuration x \<and> calculateBackoffDuration initial maxDuration x \<le> maxDuration \<and>
    (qp_Attempts x \<le> qp_Attempts y \<longrightarrow> calculateBackoffDuration initial maxDuration x \<le> calculateBackoffDuration initial maxDuration y)"
proof -
  have e: "calculateBackoffDuration initial maxDuration z = min maxDuration (initial * 2 ^ (qp_Attempts z - 1))" for z
    by (simp add: calculateBackoffDuration_def backoff_loop_exact [OF assms])
  have "initial * 1 \<le> initial * 2 ^ (qp_Attempts x - 1)" using assms(1) by (intro mult_left_mono) auto
  moreover have "initial * 2 ^ (qp_Attempts x - 1) \<le> initial * 2 ^ (qp_Attempts y - 1)" if "qp_Attempts x \<le> qp_Attempts y"
    using assms(1) that by (intro mult_left_mono power_increasing) auto
  ultimately show ?thesis using assms(2) unfolding e by auto
qed

theorem backoff_duration_exact_witness:
  "calculateBackoffDuration (10 ^ 9) (10 * 10 ^ 9) ((newQueuedPodInfoForLookup waiting_pod [])\<lparr>qp_Attempts := 4\<rparr>) = 8 * 10 ^ 9 \<and>
   calculateBackoffDuration (10 ^ 9) (10 * 10 ^ 9) ((newQueuedPodInfoForLookup waiting_pod [])\<lparr>qp_Attempts := 5\<rparr>) = 10 * 10 ^ 9"
  using backoff_duration_exact [of "10 ^ 9" "10 * 10 ^ 9" "(newQueuedPodInfoForLookup waiting_pod [])\<lparr>qp_Attempts := 4\<rparr>"]
    backoff_duration_exact [of "10 ^ 9" "10 * 10 ^ 9" "(newQueuedPodInfoForLookup waiting_pod [])\<lparr>qp_Attempts := 5\<rparr>"] by simp

end
