(* ===== verification/Pod_Nominator.thy ===== *)
theory Pod_Nominator
  imports Queue_Histories
begin

text \<open>
  The nominator of the scheduling queue: the list of pods nominated for each node and the map from
  UIDs to nodes describe the same nominations, each pod being listed once. The invariant needs that
  a \<open>PodInfo\<close> keeps its UID, because an update writes through the pointers that the nominator holds.
\<close>

section \<open>The two maps agree\<close>

abbreviation ref_uid :: "PodRef \<Rightarrow> string" where
  "ref_uid r \<equiv> p_UID (ref_pod r)"

definition np_ok :: "nominatedPodMap \<Rightarrow> bool" where
  "np_ok m \<longleftrightarrow>
     (\<forall>n. distinct (map ref_uid (NominatedPodsForNode m n))) \<and>
     (\<forall>u n. np_nominatedPodToNode m u = Some n \<longleftrightarrow> u \<in> ref_uid ` set (NominatedPodsForNode m n)) \<and>
     (\<forall>n. np_nominatedPods m n \<noteq> Some [])"

lemma np_okD:
  assumes "np_ok m"
  shows "distinct (map ref_uid (NominatedPodsForNode m n))"
    "np_nominatedPodToNode m u = Some n \<longleftrightarrow> u \<in> ref_uid ` set (NominatedPodsForNode m n)"
    "np_nominatedPods m n \<noteq> Some []"
  using assms by (auto simp: np_ok_def)

lemma np_new_ok: "np_ok NewPodNominator"
  by (simp add: np_ok_def NewPodNominator_def NominatedPodsForNode_def)

lemma remove_uid_filter:
  "distinct (map ref_uid rs) \<Longrightarrow>
   remove_uid u rs = (if u \<in> ref_uid ` set rs then Some (filter (\<lambda>r. ref_uid r \<noteq> u) rs) else None)"
proof (induction rs)
  case (Cons r rs)
  have "filter (\<lambda>r. ref_uid r \<noteq> u) rs = rs" if "ref_uid r = u"
    using Cons.prems that by (auto simp: filter_id_conv) (metis rev_image_eqI)
  then show ?case using Cons by auto
qed simp

lemma delete_lists:
  assumes "np_ok m"
  shows "NominatedPodsForNode (np_delete m pod) n = filter (\<lambda>r. ref_uid r \<noteq> p_UID pod) (NominatedPodsForNode m n)"
    "np_nominatedPodToNode (np_delete m pod) = (np_nominatedPodToNode m)(p_UID pod := None)"
    "np_nominatedPods (np_delete m pod) n \<noteq> Some []"
proof -
  let ?u = "p_UID pod"
  have keep: "filter (\<lambda>r. ref_uid r \<noteq> ?u) (NominatedPodsForNode m k) = NominatedPodsForNode m k"
    if "np_nominatedPodToNode m ?u \<noteq> Some k" for k
    using that np_okD(2) [OF assms, of ?u k] by (auto simp: filter_id_conv) (metis rev_image_eqI)
  have "NominatedPodsForNode (np_delete m pod) n = filter (\<lambda>r. ref_uid r \<noteq> ?u) (NominatedPodsForNode m n) \<and>
      np_nominatedPodToNode (np_delete m pod) = (np_nominatedPodToNode m)(?u := None) \<and> np_nominatedPods (np_delete m pod) n \<noteq> Some []"
  proof (cases "np_nominatedPodToNode m ?u")
    case None
    then show ?thesis using keep [of n] np_okD(3) [OF assms] by (auto simp: np_delete_def fun_upd_idem)
  next
    case (Some k)
    have "remove_uid ?u (NominatedPodsForNode m k) = Some (filter (\<lambda>r. ref_uid r \<noteq> ?u) (NominatedPodsForNode m k))"
      using remove_uid_filter [OF np_okD(1) [OF assms]] np_okD(2) [OF assms, of ?u k] Some by simp
    then show ?thesis using Some keep [of n] np_okD(3) [OF assms, of n]
      by (cases "n = k") (auto simp: np_delete_def Let_def NominatedPodsForNode_def)
  qed
  then show "NominatedPodsForNode (np_delete m pod) n = filter (\<lambda>r. ref_uid r \<noteq> p_UID pod) (NominatedPodsForNode m n)"
    "np_nominatedPodToNode (np_delete m pod) = (np_nominatedPodToNode m)(p_UID pod := None)"
    "np_nominatedPods (np_delete m pod) n \<noteq> Some []" by auto
qed

lemma delete_ok:
  assumes "np_ok m"
  shows "np_ok (np_delete m pod)"
proof -
  note d = delete_lists [OF assms, of pod]
  have "distinct (map ref_uid (NominatedPodsForNode (np_delete m pod) n))" for n
    unfolding d(1) using np_okD(1) [OF assms] by (rule distinct_map_filter)
  moreover have "np_nominatedPodToNode (np_delete m pod) u = Some n \<longleftrightarrow> u \<in> ref_uid ` set (NominatedPodsForNode (np_delete m pod) n)" for u n
    using np_okD(2) [OF assms, of u n] by (auto simp: d(1,2))
  ultimately show ?thesis using d(3) unfolding np_ok_def by blast
qed

text \<open>The node a pod is nominated for by \<open>add\<close>.\<close>

definition target_node :: "PodRef \<Rightarrow> string \<Rightarrow> string" where
  "target_node r nodeName = (if nodeName = [] then p_NominatedNodeName (ref_pod r) else nodeName)"

lemma add_lists:
  assumes "np_ok m"
  shows "NominatedPodsForNode (np_add m r nodeName) n =
      filter (\<lambda>s. ref_uid s \<noteq> ref_uid r) (NominatedPodsForNode m n) @ (if n \<noteq> [] \<and> n = target_node r nodeName then [r] else [])"
    "np_nominatedPodToNode (np_add m r nodeName) =
      (np_nominatedPodToNode m)(ref_uid r := (if target_node r nodeName = [] then None else Some (target_node r nodeName)))"
    "np_nominatedPods (np_add m r nodeName) n \<noteq> Some []"
proof -
  note d = delete_lists [OF assms, of "ref_pod r"]
  have no: "\<not> list_ex (\<lambda>s. ref_uid s = ref_uid r) (NominatedPodsForNode (np_delete m (ref_pod r)) k)" for k
    by (auto simp: d(1) list_ex_iff)
  have other: "NominatedPodsForNode (np_delete m (ref_pod r)\<lparr>np_nominatedPodToNode := t\<rparr>) k = NominatedPodsForNode (np_delete m (ref_pod r)) k" for t k
    by (simp add: NominatedPodsForNode_def)
  show "NominatedPodsForNode (np_add m r nodeName) n =
      filter (\<lambda>s. ref_uid s \<noteq> ref_uid r) (NominatedPodsForNode m n) @ (if n \<noteq> [] \<and> n = target_node r nodeName then [r] else [])"
    using no d(1) by (auto simp: np_add_def Let_def target_node_def NominatedPodsForNode_def)
  show "np_nominatedPodToNode (np_add m r nodeName) =
      (np_nominatedPodToNode m)(ref_uid r := (if target_node r nodeName = [] then None else Some (target_node r nodeName)))"
    using no by (auto simp: np_add_def Let_def target_node_def d(2))
  show "np_nominatedPods (np_add m r nodeName) n \<noteq> Some []"
    using no d(3) by (auto simp: np_add_def Let_def target_node_def)
qed

lemma add_ok:
  assumes "np_ok m"
  shows "np_ok (np_add m r nodeName)"
proof -
  note a = add_lists [OF assms, of r nodeName]
  have "distinct (map ref_uid (NominatedPodsForNode (np_add m r nodeName) n))" for n
    using np_okD(1) [OF assms, of n] by (auto simp: a(1) distinct_map_filter)
  moreover have "np_nominatedPodToNode (np_add m r nodeName) u = Some n \<longleftrightarrow> u \<in> ref_uid ` set (NominatedPodsForNode (np_add m r nodeName) n)" for u n
    using np_okD(2) [OF assms, of u n] by (auto simp: a(1,2))
  ultimately show ?thesis using a(3) unfolding np_ok_def by blast
qed

text \<open>A write through the pointers that keeps the UID.\<close>

lemma refresh_lists:
  "NominatedPodsForNode (np_refresh a i m) n = map (\<lambda>r. if pr_addr r = a then r\<lparr>pr_info := i\<rparr> else r) (NominatedPodsForNode m n)"
  by (auto simp: NominatedPodsForNode_def np_refresh_def split: option.split)

lemma refresh_ok:
  assumes "np_ok m" "\<forall>n. \<forall>r\<in>set (NominatedPodsForNode m n). pr_addr r = a \<longrightarrow> ref_uid r = p_UID (pi_Pod i)"
  shows "np_ok (np_refresh a i m)"
    "map ref_uid (NominatedPodsForNode (np_refresh a i m) n) = map ref_uid (NominatedPodsForNode m n)"
proof -
  have u: "map ref_uid (NominatedPodsForNode (np_refresh a i m) n) = map ref_uid (NominatedPodsForNode m n)" for n
    using assms(2) by (auto simp: refresh_lists)
  then have s: "ref_uid ` set (NominatedPodsForNode (np_refresh a i m) n) = ref_uid ` set (NominatedPodsForNode m n)" for n
    by (metis list.set_map)
  have "np_nominatedPods (np_refresh a i m) n \<noteq> Some []" for n
    using np_okD(3) [OF assms(1)] by (auto simp: np_refresh_def)
  moreover have "np_nominatedPodToNode (np_refresh a i m) = np_nominatedPodToNode m" by (simp add: np_refresh_def)
  ultimately show "np_ok (np_refresh a i m)" using assms(1) by (auto simp: np_ok_def u s)
  show "map ref_uid (NominatedPodsForNode (np_refresh a i m) n) = map ref_uid (NominatedPodsForNode m n)" by (rule u)
qed

section \<open>Pointers keep their UID\<close>

definition ref_pair :: "PodRef \<Rightarrow> nat \<times> string" where
  "ref_pair r = (pr_addr r, ref_uid r)"

definition view_pairs :: "queue_view \<Rightarrow> (nat \<times> string) set" where
  "view_pairs v = {ref_pair (qp_PodInfo x) | i w x. v i = Some (w, x)}"

definition nom_pairs :: "nominatedPodMap \<Rightarrow> (nat \<times> string) set" where
  "nom_pairs m = {ref_pair r | n r. r \<in> set (NominatedPodsForNode m n)}"

definition pq_pairs :: "PriorityQueue \<Rightarrow> (nat \<times> string) set" where
  "pq_pairs p = view_pairs (pq_view p) \<union> nom_pairs (pq_nominator p)"

definition ptr_ok :: "PriorityQueue \<Rightarrow> bool" where
  "ptr_ok p \<longleftrightarrow> single_valued (pq_pairs p) \<and> (\<forall>(a, u) \<in> pq_pairs p. a < pq_next p)"

definition ref_fits :: "PodRef \<Rightarrow> PriorityQueue \<Rightarrow> bool" where
  "ref_fits r p \<longleftrightarrow> pr_addr r < pq_next p \<and> (\<forall>u. (pr_addr r, u) \<in> pq_pairs p \<longrightarrow> u = ref_uid r)"

text \<open>The scheduler hands back pointers it got from the queue, and updates are about the pod that is queued.\<close>

fun op_ptr_ok :: "PriorityQueue \<Rightarrow> pq_op \<Rightarrow> bool" where
  "op_ptr_ok p (OpAddUnschedulable now x cycle) \<longleftrightarrow> ref_fits (qp_PodInfo x) p"
| "op_ptr_ok p (OpNominate r nodeName) \<longleftrightarrow> ref_fits r p"
| "op_ptr_ok p (OpUpdate now old new) \<longleftrightarrow>
     p_UID old = p_UID new \<and> (\<forall>w x. pq_view p (pod_id new) = Some (w, x) \<longrightarrow> p_UID (qp_Pod x) = p_UID new)"
| "op_ptr_ok p _ \<longleftrightarrow> True"

lemma ptr_ok_shrink: "ptr_ok p \<Longrightarrow> pq_pairs p' \<subseteq> pq_pairs p \<Longrightarrow> pq_next p \<le> pq_next p' \<Longrightarrow> ptr_ok p'"
  by (fastforce simp: ptr_ok_def single_valued_def)

lemma ptr_ok_grow:
  assumes "ptr_ok p" "pq_pairs p' \<subseteq> insert (ref_pair r) (pq_pairs p)" "pq_next p \<le> pq_next p'" "pr_addr r < pq_next p'"
    "\<forall>u. (pr_addr r, u) \<in> pq_pairs p \<longrightarrow> u = ref_uid r"
  shows "ptr_ok p'"
proof -
  have "single_valued (insert (ref_pair r) (pq_pairs p))"
    using assms(1,5) by (auto simp: ptr_ok_def single_valued_def ref_pair_def)
  then have "single_valued (pq_pairs p')" using assms(2) by (rule single_valued_subset [rotated])
  moreover have "a < pq_next p'" if "(a, u) \<in> pq_pairs p'" for a u
    using that assms(1-4) by (fastforce simp: ptr_ok_def ref_pair_def)
  ultimately show ?thesis by (auto simp: ptr_ok_def)
qed

lemma view_pairs_upd: "view_pairs (v(i \<mapsto> (w, x))) \<subseteq> insert (ref_pair (qp_PodInfo x)) (view_pairs v)"
  "view_pairs (v(i := None)) \<subseteq> view_pairs v"
  by (auto simp: view_pairs_def split: if_splits)

lemma view_entries_kept:
  "flush_view f v i = Some (w, x) \<Longrightarrow> \<exists>w'. v i = Some (w', x)" "move_view s d v i = Some (w, x) \<Longrightarrow> \<exists>w'. v i = Some (w', x)"
  by (auto simp: flush_view_def move_view_def split: option.splits prod.splits place.splits)

lemma view_pairs_moves: "view_pairs (flush_view f v) \<subseteq> view_pairs v" "view_pairs (move_view s d v) \<subseteq> view_pairs v"
  unfolding view_pairs_def by (blast dest: view_entries_kept)+

lemma nom_pairs_delete: "np_ok m \<Longrightarrow> nom_pairs (np_delete m pod) \<subseteq> nom_pairs m"
  by (auto simp: nom_pairs_def delete_lists(1))

lemma nom_pairs_add: "np_ok m \<Longrightarrow> nom_pairs (np_add m r n) \<subseteq> insert (ref_pair r) (nom_pairs m)"
  by (auto simp: nom_pairs_def add_lists(1) split: if_splits)

lemma nom_pairs_refresh:
  assumes "\<forall>u. (a, u) \<in> nom_pairs m \<longrightarrow> u = p_UID (pi_Pod i)"
  shows "nom_pairs (np_refresh a i m) \<subseteq> nom_pairs m"
    "\<forall>n. \<forall>r\<in>set (NominatedPodsForNode m n). pr_addr r = a \<longrightarrow> ref_uid r = p_UID (pi_Pod i)"
proof -
  show u: "\<forall>n. \<forall>r\<in>set (NominatedPodsForNode m n). pr_addr r = a \<longrightarrow> ref_uid r = p_UID (pi_Pod i)"
    using assms by (auto simp: nom_pairs_def ref_pair_def)
  have "ref_pair (if pr_addr r = a then r\<lparr>pr_info := i\<rparr> else r) = ref_pair r" if "r \<in> set (NominatedPodsForNode m n)" for r n
    using u that by (auto simp: ref_pair_def)
  then have "ref_pair ` set (NominatedPodsForNode (np_refresh a i m) n) = ref_pair ` set (NominatedPodsForNode m n)" for n
    unfolding refresh_lists set_map image_image by (rule image_cong [OF refl])
  then show "nom_pairs (np_refresh a i m) \<subseteq> nom_pairs m" unfolding nom_pairs_def by blast
qed

section \<open>What the operations do to the nominator\<close>

lemma move_loop_noms: "move_loop now event xs p = Some p' \<Longrightarrow> pq_noms p' = pq_noms p"
proof (induction xs arbitrary: p)
  case (Cons x xs)
  from Cons.prems show ?case
    by (auto simp: pq_noms_def Let_def dest!: Cons.IH split: if_splits bind_splits prod.splits)
qed simp

lemma move_pods_noms: "movePodsToActiveOrBackoffQueue now xs event p = Some p' \<Longrightarrow> pq_noms p' = pq_noms p"
  using move_loop_noms by (fastforce simp: movePodsToActiveOrBackoffQueue_def pq_noms_def split: bind_splits)


lemma Add_noms:
  "pq_Add go now pod p = Some (p', e) \<Longrightarrow> pq_next p' = Suc (pq_next p) \<and>
     (pq_nominator p' = pq_nominator p \<or>
      pq_nominator p' = np_add (pq_nominator p) (qp_PodInfo (fst (newQueuedPodInfo go now p pod []))) [])"
  by (auto simp: pq_Add_def newQueuedPodInfo_def Let_def AddNominatedPod_def split: bind_splits prod.splits option.splits if_splits)

lemma AddUnschedulable_noms:
  "AddUnschedulableIfNotPresent now x cycle p = Some (p', e) \<Longrightarrow> pq_next p' = pq_next p \<and>
     (pq_nominator p' = pq_nominator p \<or> pq_nominator p' = np_add (pq_nominator p) (qp_PodInfo x) [])"
  by (auto simp: AddUnschedulableIfNotPresent_def Let_def AddNominatedPod_def split: bind_splits prod.splits option.splits if_splits)

lemma Pop_noms: "pq_Pop p = Some (Some (p', r)) \<Longrightarrow> pq_noms p' = pq_noms p"
  by (auto simp: pq_Pop_def pq_noms_def Let_def split: if_splits bind_splits prod.splits sum.splits)

lemma Delete_noms: "pq_Delete pod p = Some p' \<Longrightarrow> pq_next p' = pq_next p \<and> pq_nominator p' = np_delete (pq_nominator p) pod"
  by (auto simp: pq_Delete_def Let_def DeleteNominatedPodIfExists_def split: bind_splits prod.splits if_splits)

text \<open>An update of a queued pod writes through the pointer, then removes the old and adds the new nomination.\<close>

definition update_noms :: "go_orders \<Rightarrow> QueuedPodInfo \<Rightarrow> pod \<Rightarrow> pod \<Rightarrow> string \<Rightarrow> PriorityQueue \<Rightarrow> nominatedPodMap" where
  "update_noms go x old new nodeName p =
     np_add (np_delete (np_refresh (pr_addr (qp_PodInfo x)) (PodInfo_Update go (Some (pr_info (qp_PodInfo x))) new) (pq_nominator p)) old)
       (qp_PodInfo (fst (updatePod go x new p))) nodeName"

lemma update_parts_noms:
  "update_active go old new x p = Some (p', e) \<Longrightarrow> pq_next p' = pq_next p \<and> (\<exists>n. pq_nominator p' = update_noms go x old new n p)"
  "update_backoff go old new x p = Some (p', e) \<Longrightarrow> pq_next p' = pq_next p \<and> (\<exists>n. pq_nominator p' = update_noms go x old new n p)"
  "update_unschedulable go now (Some old) new x p = Some (p', e) \<Longrightarrow> pq_next p' = pq_next p \<and> (\<exists>n. pq_nominator p' = update_noms go x old new n p)"
  by (auto simp: update_active_def update_backoff_def update_unschedulable_def updatePod_def update_noms_def Let_def
      UpdateNominatedPod_def split: bind_splits prod.splits option.splits if_splits)

lemma Update_noms:
  assumes inv: "pq_inv lessFn p" and v: "valid_id (pod_id new)" and old: "pod_id old = pod_id new"
    and run: "pq_Update go now (Some old) new p = Some (p', e)"
  shows "(\<exists>w x n. pq_view p (pod_id new) = Some (w, x) \<and> pq_next p' = pq_next p \<and> pq_nominator p' = update_noms go x old new n p) \<or>
    pq_view p (pod_id new) = None \<and> pq_next p' = Suc (pq_next p) \<and>
      (pq_nominator p' = pq_nominator p \<or> pq_nominator p' = np_add (pq_nominator p) (qp_PodInfo (fst (newQueuedPodInfo go now p new []))) [])"
proof -
  have vl: "valid_id (qid (newQueuedPodInfoForLookup old []))" using v old by simp
  have f: "heap_find (pq_activeQ p) (newQueuedPodInfoForLookup old []) = heap_pods (pq_activeQ p) (pod_id new)"
      "heap_find (pq_podBackoffQ p) (newQueuedPodInfoForLookup old []) = heap_pods (pq_podBackoffQ p) (pod_id new)"
    using pod_heap_find [OF pq_invD(1) [OF inv] vl] pod_heap_find [OF pq_invD(2) [OF inv] vl] old by simp_all
  show ?thesis
  proof (cases "pq_view p (pod_id new)")
    case None
    then have "heap_pods (pq_activeQ p) (pod_id new) = None" "heap_pods (pq_podBackoffQ p) (pod_id new) = None"
        "us_get (pq_unschedulableQ p) new = None" using us_get_map [OF v] by (simp_all add: pq_view_None)
    then show ?thesis using run None
      by (auto simp: pq_Update_def f update_rest_def newQueuedPodInfo_def Let_def AddNominatedPod_def
          split: bind_splits prod.splits option.splits)
  next
    case (Some wx)
    obtain w x where wx: "wx = (w, x)" by fastforce
    have "update_active go old new x p = Some (p', e) \<or> update_backoff go old new x p = Some (p', e) \<or>
        update_unschedulable go now (Some old) new x p = Some (p', e)"
      using run Some wx us_get_map [OF v]
      by (auto simp: pq_Update_def f update_rest_def pq_view_def split: option.splits)
    then have "pq_next p' = pq_next p \<and> (\<exists>n. pq_nominator p' = update_noms go x old new n p)"
      by (elim disjE) (rule update_parts_noms, assumption)+
    then show ?thesis using Some wx by blast
  qed
qed

definition nom_inv :: "PriorityQueue \<Rightarrow> bool" where
  "nom_inv p \<longleftrightarrow> np_ok (pq_nominator p) \<and> ptr_ok p"

lemma nom_inv_same:
  assumes "nom_inv p" "pq_noms p' = pq_noms p" "view_pairs (pq_view p') \<subseteq> view_pairs (pq_view p)"
  shows "nom_inv p'"
  using assms ptr_ok_shrink [of p p'] by (auto simp: nom_inv_def pq_noms_def pq_pairs_def)

lemma nom_inv_add:
  assumes inv: "nom_inv p" and nom: "pq_nominator p' = pq_nominator p \<or> pq_nominator p' = np_add (pq_nominator p) r n"
    and view: "view_pairs (pq_view p') \<subseteq> insert (ref_pair r) (view_pairs (pq_view p))"
    and nxt: "pq_next p \<le> pq_next p'" "pr_addr r < pq_next p'" "\<forall>u. (pr_addr r, u) \<in> pq_pairs p \<longrightarrow> u = ref_uid r"
  shows "nom_inv p'"
proof -
  have ok: "np_ok (pq_nominator p)" "ptr_ok p" using inv by (auto simp: nom_inv_def)
  have "pq_pairs p' \<subseteq> insert (ref_pair r) (pq_pairs p)"
    using view nom nom_pairs_add [OF ok(1), of r n] by (auto simp: pq_pairs_def)
  then have "ptr_ok p'" using ptr_ok_grow [OF ok(2) _ nxt] by blast
  then show ?thesis using nom ok(1) add_ok by (auto simp: nom_inv_def)
qed

lemma next_not_used: "ptr_ok p \<Longrightarrow> (pq_next p, u) \<notin> pq_pairs p"
  by (auto simp: ptr_ok_def)

lemma nom_inv_update:
  assumes inv: "nom_inv p" and x: "pq_view p (pod_id new) = Some (w, x)" "p_UID (qp_Pod x) = p_UID new"
    and nom: "pq_nominator p' = update_noms go x old new n p" "pq_next p' = pq_next p"
    and view: "pq_view p' = (pq_view p)(pod_id new \<mapsto> (w', fst (updatePod go x new p)))"
  shows "nom_inv p'"
proof -
  let ?m = "pq_nominator p" and ?a = "pr_addr (qp_PodInfo x)" and ?r = "qp_PodInfo (fst (updatePod go x new p))"
  let ?i = "PodInfo_Update go (Some (pr_info (qp_PodInfo x))) new"
  have ok: "np_ok ?m" "ptr_ok p" using inv by (auto simp: nom_inv_def)
  have r: "ref_pair ?r = ref_pair (qp_PodInfo x)" using x(2) by (simp add: updatePod_def Let_def ref_pair_def)
  have "ref_pair (qp_PodInfo x) \<in> view_pairs (pq_view p)" using x(1) by (auto simp: view_pairs_def)
  then have in_pairs: "ref_pair ?r \<in> pq_pairs p" unfolding r by (simp add: pq_pairs_def)
  have "u = p_UID (pi_Pod ?i)" if "(?a, u) \<in> nom_pairs ?m" for u
  proof -
    have "(?a, u) \<in> pq_pairs p" using that by (simp add: pq_pairs_def)
    moreover have "(?a, p_UID new) \<in> pq_pairs p" using in_pairs x(2) unfolding r by (simp add: ref_pair_def)
    ultimately show ?thesis using ok(2) by (auto simp: ptr_ok_def single_valued_def)
  qed
  then have u: "\<forall>u. (?a, u) \<in> nom_pairs ?m \<longrightarrow> u = p_UID (pi_Pod ?i)" by blast
  note m1 = refresh_ok(1) [OF ok(1) nom_pairs_refresh(2) [OF u]] nom_pairs_refresh(1) [OF u]
  note m2 = delete_ok [OF m1(1), of old] nom_pairs_delete [OF m1(1), of old]
  note m3 = add_ok [OF m2(1), of ?r n] nom_pairs_add [OF m2(1), of ?r n]
  have "pq_pairs p' \<subseteq> pq_pairs p"
    using m1(2) m2(2) m3(2) in_pairs view_pairs_upd(1) [of "pq_view p" "pod_id new" w' "fst (updatePod go x new p)"]
    unfolding pq_pairs_def nom(1) view update_noms_def by blast
  then show ?thesis using ptr_ok_shrink [OF ok(2)] m3(1) nom by (simp add: nom_inv_def update_noms_def)
qed

lemma new_ref:
  "pr_addr (qp_PodInfo (fst (newQueuedPodInfo go now p pod ps))) = pq_next p"
  by (simp add: newQueuedPodInfo_def)

lemma exec_nom_inv:
  assumes inv: "pq_inv lessFn p" and nom: "nom_inv p" and ok: "op_ok p op" "op_ptr_ok p op" and run: "pq_exec go op p = Some p'"
  shows "nom_inv p'"
proof -
  have spec: "op_spec go lessFn p op (pq_view p) (pq_view p')"
    using exec_ok [OF inv ok(1), of go] run by (auto simp: op_result_def)
  have ptr: "ptr_ok p" using nom by (simp add: nom_inv_def)
  have fresh: "\<forall>u. (pq_next p, u) \<in> pq_pairs p \<longrightarrow> u = s" for s using next_not_used [OF ptr] by blast
  have moved: "nom_inv p'" if "pq_noms p' = pq_noms p" "pq_view p' = move_view s d (pq_view p)" for s d
    using nom_inv_same [OF nom that(1)] view_pairs_moves(2) that(2) by metis
  show ?thesis
  proof (cases op)
    case (OpAdd now pod)
    then obtain e where "pq_Add go now pod p = Some (p', e)" using run by auto
    from Add_noms [OF this] show ?thesis using spec OpAdd view_pairs_upd(1)
      by (intro nom_inv_add [OF nom, of p' "qp_PodInfo (fst (newQueuedPodInfo go now p pod []))" "[]"]) (auto simp: new_ref fresh)
  next
    case (OpAddUnschedulable now x cycle)
    then obtain e where "AddUnschedulableIfNotPresent now x cycle p = Some (p', e)" using run by auto
    from AddUnschedulable_noms [OF this] show ?thesis
      using spec ok(2) OpAddUnschedulable view_pairs_upd(1) [of "pq_view p" "qid x" _ "x\<lparr>qp_Timestamp := now\<rparr>"]
      by (intro nom_inv_add [OF nom, of p' "qp_PodInfo x" "[]"]) (auto simp: ref_fits_def split: if_splits)
  next
    case (OpFlushBackoff now)
    then have "pq_noms p' = pq_noms p" using flush_ok [OF inv, of now] run by auto
    then show ?thesis using nom_inv_same [OF nom] spec OpFlushBackoff view_pairs_moves(1) by simp
  next
    case (OpFlushLeftover now ks)
    then have "pq_noms p' = pq_noms p" using run move_pods_noms by (auto simp: flushUnschedulableQLeftover_def Let_def split: if_splits)
    then show ?thesis using moved spec OpFlushLeftover by simp
  next
    case OpPop
    then have "pq_noms p' = pq_noms p" using run Pop_noms by (auto split: option.splits)
    moreover have "pq_view p' = pq_view p \<or> (\<exists>i. pq_view p' = (pq_view p)(i := None))"
      using spec OpPop by (auto split: if_splits)
    then have "view_pairs (pq_view p') \<subseteq> view_pairs (pq_view p)" using view_pairs_upd(2) by (metis subset_refl)
    ultimately show ?thesis by (rule nom_inv_same [OF nom])
  next
    case (OpUpdate now old new)
    then obtain e where e: "pq_Update go now (Some old) new p = Some (p', e)" using run by auto
    have v: "pq_view p' = (pq_view p)(pod_id new \<mapsto> update_entry go now old new p)" using spec OpUpdate by simp
    from Update_noms [OF inv _ _ e] ok(1) OpUpdate
    consider w x n where "pq_view p (pod_id new) = Some (w, x)" "pq_next p' = pq_next p" "pq_nominator p' = update_noms go x old new n p"
      | "pq_view p (pod_id new) = None" "pq_next p' = Suc (pq_next p)"
        "pq_nominator p' = pq_nominator p \<or> pq_nominator p' = np_add (pq_nominator p) (qp_PodInfo (fst (newQueuedPodInfo go now p new []))) []"
      by auto
    then show ?thesis
    proof cases
      case (1 w x n)
      then show ?thesis using nom_inv_update [OF nom 1(1) _ 1(3,2)] ok(2) OpUpdate v by (auto simp: update_entry_def Let_def)
    next
      case 2
      then show ?thesis using v view_pairs_upd(1)
        by (intro nom_inv_add [OF nom, of p' "qp_PodInfo (fst (newQueuedPodInfo go now p new []))" "[]"]) (auto simp: new_ref fresh update_entry_def)
    qed
  next
    case (OpDelete pod)
    then have d: "pq_next p' = pq_next p" "pq_nominator p' = np_delete (pq_nominator p) pod" using run Delete_noms by auto
    have "pq_pairs p' \<subseteq> pq_pairs p"
      using spec OpDelete view_pairs_upd(2) nom_pairs_delete nom d(2) by (fastforce simp: pq_pairs_def nom_inv_def)
    then show ?thesis using ptr_ok_shrink [OF ptr] d nom delete_ok by (simp add: nom_inv_def)
  next
    case (OpAssignedAdded nsl now ks pod)
    then have "pq_noms p' = pq_noms p" using run move_pods_noms by (auto simp: AssignedPodAdded_def)
    then show ?thesis using moved spec OpAssignedAdded by simp
  next
    case (OpAssignedUpdated nsl now ks pod)
    then have "pq_noms p' = pq_noms p" using run move_pods_noms by (auto simp: AssignedPodUpdated_def)
    then show ?thesis using moved spec OpAssignedUpdated by simp
  next
    case (OpMoveAll now ks event)
    then have "pq_noms p' = pq_noms p" using run move_pods_noms by (auto simp: MoveAllToActiveOrBackoffQueue_def)
    then show ?thesis using moved spec OpMoveAll by simp
  next
    case (OpNominate r n)
    then show ?thesis using run spec ok(2)
      by (intro nom_inv_add [OF nom, of p' r n]) (auto simp: pq_AddNominatedPod_def AddNominatedPod_def ref_fits_def)
  next
    case (OpUnnominate pod)
    then have d: "pq_next p' = pq_next p" "pq_nominator p' = np_delete (pq_nominator p) pod"
      using run by (auto simp: pq_DeleteNominatedPodIfExists_def DeleteNominatedPodIfExists_def)
    have "pq_pairs p' \<subseteq> pq_pairs p" using spec OpUnnominate nom_pairs_delete nom d(2) by (fastforce simp: pq_pairs_def nom_inv_def)
    then show ?thesis using ptr_ok_shrink [OF ptr] d nom delete_ok by (simp add: nom_inv_def)
  next
    case OpClose
    then have "pq_noms p' = pq_noms p" using run by (auto simp: pq_Close_def pq_noms_def split: if_splits)
    then show ?thesis using nom_inv_same [OF nom] spec OpClose by simp
  next
    case (OtherAlloc n)
    then have "pq_nominator p' = pq_nominator p" "pq_next p \<le> pq_next p'" "pq_view p' = pq_view p" using run spec by auto
    then show ?thesis using ptr_ok_shrink [OF ptr, of p'] nom by (auto simp: nom_inv_def pq_pairs_def)
  qed
qed

section \<open>Properties\<close>

lemma nominated_reachable:
  assumes "pq_reachable go lessFn (\<lambda>p op. op_ok p op \<and> op_ptr_ok p op) p" "strict_weak_order lessFn"
  shows "nom_inv p"
  using assms
proof (induction rule: pq_reachable.induct)
  case (queue_new initial maxDuration cem)
  have "view_pairs (pq_view (NewPriorityQueue lessFn initial maxDuration None cem)) = {}"
    unfolding new_queue_ok(2) [OF queue_new] by (simp add: view_pairs_def)
  moreover have "nom_pairs NewPodNominator = {}" by (simp add: nom_pairs_def NewPodNominator_def NominatedPodsForNode_def)
  ultimately have "pq_pairs (NewPriorityQueue lessFn initial maxDuration None cem) = {}"
    by (simp add: pq_pairs_def) (simp add: NewPriorityQueue_def)
  then show ?case using np_new_ok by (simp add: nom_inv_def ptr_ok_def NewPriorityQueue_def)
next
  case (queue_step p op p')
  have "pq_inv lessFn p" using reachable_inv [OF queue_step.hyps(1) queue_step.prems] by simp
  then show ?case using exec_nom_inv queue_step by blast
qed



text \<open>Without the condition on UIDs a nomination can stay listed for ever: when an update event joins the deletion of a pod that was
  nominated in its status and the creation of one with the same name, the nominator's entry has become one of the new pod, which
  neither the removal of the old pod nor a later removal of the new one finds.\<close>

lemma nomination_leaks:
  assumes "p_UID new \<noteq> p_UID old" "p_NominatedNodeName old = n" "n \<noteq> []" "p_NominatedNodeName new = []"
    and x: "ref_pod r = old" and m: "m = AddNominatedPod NewPodNominator r []"
    and m1: "m1 = np_refresh (pr_addr r) i m" "pi_Pod i = new"
  shows "\<exists>m2. UpdateNominatedPod m1 (Some old) (r\<lparr>pr_info := i\<rparr>) = Some m2 \<and> NominatedPodsForNode m2 n = [r\<lparr>pr_info := i\<rparr>] \<and>
    np_nominatedPodToNode m2 = Map.empty \<and> DeleteNominatedPodIfExists m2 new = m2"
  using assms
  by (auto simp: AddNominatedPod_def NewPodNominator_def np_add_def np_delete_def NominatedPodsForNode_def Let_def
      np_refresh_def UpdateNominatedPod_def DeleteNominatedPodIfExists_def)

end
