(* ===== verification/Node_Selectors.thy ===== *)
theory Node_Selectors
  imports Pod_Info Field_Selectors
begin

text \<open>
  Node selectors and node affinity
  (\<open>staging/src/k8s.io/component-helpers/scheduling/corev1/nodeaffinity/nodeaffinity.go\<close>): the
  terms of a pod's node affinity are parsed to label and field selectors, and matched against the labels
  and the name of a node.

  Aggregated errors are flat lists, empty for a nil error; the paths in them are left out. The
  theory shows what the required affinity of a pod means, and when an error is reported.
\<close>

section \<open>Terms\<close>

record nodeSelectorTerm =
  ns_matchLabels :: "Selector option"
  ns_matchFields :: "field_Selector option"
  ns_parseErrs :: "go_error list"

definition isEmptyNodeSelectorTerm :: "NodeSelectorTerm \<Rightarrow> bool" where
  "isEmptyNodeSelectorTerm term \<longleftrightarrow> length (nt_MatchExpressions term) = 0 \<and> length (nt_MatchFields term) = 0"

definition extractNodeFields :: "node \<Rightarrow> field_set" where
  "extractNodeFields n = (if length (n_Name n) > 0 then [''metadata.name'' \<mapsto> n_Name n] else Map.empty)"

definition node_operator :: "NodeSelectorOperator \<Rightarrow> Operator option" where
  "node_operator op =
     (case op of
        NodeSelectorOpIn \<Rightarrow> Some In
      | NodeSelectorOpNotIn \<Rightarrow> Some NotIn
      | NodeSelectorOpExists \<Rightarrow> Some Exists
      | NodeSelectorOpDoesNotExist \<Rightarrow> Some DoesNotExist
      | NodeSelectorOpGt \<Rightarrow> Some GreaterThan
      | NodeSelectorOpLt \<Rightarrow> Some LessThan
      | OtherNodeSelectorOp _ \<Rightarrow> None)"

fun node_expressions ::
  "(Requirement list \<Rightarrow> Requirement list) \<Rightarrow> NodeSelectorRequirement list \<Rightarrow> Selector \<Rightarrow> go_error list \<Rightarrow> Selector \<times> go_error list" where
  "node_expressions srt [] selector errs = (selector, errs)"
| "node_expressions srt (expr # nsm) selector errs =
     (case node_operator (nr_Operator expr) of
        None \<Rightarrow> node_expressions srt nsm selector (errs @ [Errorf ''Unsupported value''])
      | Some op \<Rightarrow>
          (case NewRequirement (nr_Key expr) op (nr_Values expr) of
             (r, err # es) \<Rightarrow> node_expressions srt nsm selector (errs @ err # es)
           | (r, []) \<Rightarrow> node_expressions srt nsm (Selector_Add srt selector [r]) errs))"

definition nodeSelectorRequirementsAsSelector ::
  "(Requirement list \<Rightarrow> Requirement list) \<Rightarrow> NodeSelectorRequirement list \<Rightarrow> go_error list + Selector" where
  "nodeSelectorRequirementsAsSelector srt nsm =
     (if length nsm = 0 then Inr Nothing
      else
        let (selector, errs) = node_expressions srt nsm NewSelector [] in
        if length errs \<noteq> 0 then Inl errs else Inr selector)"

fun field_expressions :: "NodeSelectorRequirement list \<Rightarrow> field_Selector list \<Rightarrow> go_error list \<Rightarrow> field_Selector list \<times> go_error list" where
  "field_expressions [] selectors errs = (selectors, errs)"
| "field_expressions (expr # nsr) selectors errs =
     (case nr_Operator expr of
        NodeSelectorOpIn \<Rightarrow>
          (case nr_Values expr of
             [v] \<Rightarrow> field_expressions nsr (selectors @ [OneTermEqualSelector (nr_Key expr) v]) errs
           | _ \<Rightarrow> field_expressions nsr selectors (errs @ [Errorf ''must have one element'']))
      | NodeSelectorOpNotIn \<Rightarrow>
          (case nr_Values expr of
             [v] \<Rightarrow> field_expressions nsr (selectors @ [OneTermNotEqualSelector (nr_Key expr) v]) errs
           | _ \<Rightarrow> field_expressions nsr selectors (errs @ [Errorf ''must have one element'']))
      | _ \<Rightarrow> field_expressions nsr selectors (errs @ [Errorf ''Unsupported value'']))"

definition nodeSelectorRequirementsAsFieldSelector :: "NodeSelectorRequirement list \<Rightarrow> go_error list + field_Selector" where
  "nodeSelectorRequirementsAsFieldSelector nsr =
     (if length nsr = 0 then Inr fields_Nothing
      else
        let (selectors, errs) = field_expressions nsr [] [] in
        if length errs \<noteq> 0 then Inl errs else Inr (AndSelectors selectors))"

definition errs_of :: "go_error list + 'a \<Rightarrow> go_error list" where
  "errs_of r = (case r of Inl errs \<Rightarrow> errs | Inr _ \<Rightarrow> [])"

definition sel_of :: "go_error list + 'a \<Rightarrow> 'a option" where
  "sel_of r = (case r of Inl _ \<Rightarrow> None | Inr s \<Rightarrow> Some s)"

definition newNodeSelectorTerm :: "(Requirement list \<Rightarrow> Requirement list) \<Rightarrow> NodeSelectorTerm \<Rightarrow> nodeSelectorTerm" where
  "newNodeSelectorTerm srt term =
     (let (matchLabels, errs1) =
            (if length (nt_MatchExpressions term) \<noteq> 0 then
               (let r = nodeSelectorRequirementsAsSelector srt (nt_MatchExpressions term) in (sel_of r, errs_of r))
             else (None, []));
          (matchFields, errs2) =
            (if length (nt_MatchFields term) \<noteq> 0 then
               (let r = nodeSelectorRequirementsAsFieldSelector (nt_MatchFields term) in (sel_of r, errs_of r))
             else (None, [])) in
      \<lparr>ns_matchLabels = matchLabels, ns_matchFields = matchFields, ns_parseErrs = errs1 @ errs2\<rparr>)"

definition nodeSelectorTerm_match :: "nodeSelectorTerm \<Rightarrow> label_set \<Rightarrow> field_set \<Rightarrow> bool \<times> go_error list" where
  "nodeSelectorTerm_match t nodeLabels nodeFields =
     (if ns_parseErrs t \<noteq> [] then (False, ns_parseErrs t)
      else if (case ns_matchLabels t of None \<Rightarrow> False | Some s \<Rightarrow> \<not> Selector_Matches s nodeLabels) then (False, [])
      else if (case ns_matchFields t of None \<Rightarrow> False
               | Some s \<Rightarrow> nodeFields \<noteq> Map.empty \<and> \<not> fields_Matches s nodeFields) then (False, [])
      else (True, []))"

section \<open>Node selectors\<close>

type_synonym LazyErrorNodeSelector = "nodeSelectorTerm list"

definition NewLazyErrorNodeSelector :: "(Requirement list \<Rightarrow> Requirement list) \<Rightarrow> NodeSelectorTerm list \<Rightarrow> LazyErrorNodeSelector" where
  "NewLazyErrorNodeSelector srt ns = map (newNodeSelectorTerm srt) (filter (\<lambda>term. \<not> isEmptyNodeSelectorTerm term) ns)"

definition NewNodeSelector :: "(Requirement list \<Rightarrow> Requirement list) \<Rightarrow> NodeSelectorTerm list \<Rightarrow> go_error list + LazyErrorNodeSelector" where
  "NewNodeSelector srt ns =
     (let lazy = NewLazyErrorNodeSelector srt ns; errs = concat (map ns_parseErrs lazy) in
      if length errs \<noteq> 0 then Inl errs else Inr lazy)"

fun lazy_match :: "nodeSelectorTerm list \<Rightarrow> label_set \<Rightarrow> field_set \<Rightarrow> go_error list \<Rightarrow> bool \<times> go_error list" where
  "lazy_match [] nodeLabels nodeFields errs = (False, errs)"
| "lazy_match (t # ts) nodeLabels nodeFields errs =
     (let (match, tErrs) = nodeSelectorTerm_match t nodeLabels nodeFields in
      if length tErrs > 0 then lazy_match ts nodeLabels nodeFields (errs @ tErrs)
      else if match then (True, [])
      else lazy_match ts nodeLabels nodeFields errs)"

definition LazyErrorNodeSelector_Match :: "LazyErrorNodeSelector \<Rightarrow> node option \<Rightarrow> bool \<times> go_error list" where
  "LazyErrorNodeSelector_Match ns o_node =
     (case o_node of
        None \<Rightarrow> (False, [])
      | Some node \<Rightarrow> lazy_match ns (n_Labels node) (extractNodeFields node) [])"

definition NodeSelector_Match :: "LazyErrorNodeSelector \<Rightarrow> node option \<Rightarrow> bool" where
  "NodeSelector_Match ns node = fst (LazyErrorNodeSelector_Match ns node)"

definition MatchNodeSelectorTerms ::
  "(Requirement list \<Rightarrow> Requirement list) \<Rightarrow> node option \<Rightarrow> NodeSelectorTerm list \<Rightarrow> bool \<times> go_error list" where
  "MatchNodeSelectorTerms srt node nodeSelector =
     (if node = None then (False, [])
      else LazyErrorNodeSelector_Match (NewLazyErrorNodeSelector srt nodeSelector) node)"

section \<open>Preferred terms\<close>

record preferredSchedulingTerm = nodeSelectorTerm +
  ns_weight :: int

fun preferred_terms ::
  "(Requirement list \<Rightarrow> Requirement list) \<Rightarrow> PreferredSchedulingTerm list \<Rightarrow> preferredSchedulingTerm list \<Rightarrow> go_error list \<Rightarrow>
   preferredSchedulingTerm list \<times> go_error list" where
  "preferred_terms srt [] parsedTerms errs = (parsedTerms, errs)"
| "preferred_terms srt (term # terms) parsedTerms errs =
     (if ps_Weight term = 0 \<or> isEmptyNodeSelectorTerm (ps_Preference term) then preferred_terms srt terms parsedTerms errs
      else
        let t = newNodeSelectorTerm srt (ps_Preference term);
            parsedTerm = \<lparr>ns_matchLabels = ns_matchLabels t, ns_matchFields = ns_matchFields t, ns_parseErrs = ns_parseErrs t,
                          ns_weight = ps_Weight term\<rparr> in
        if length (ns_parseErrs t) > 0 then preferred_terms srt terms parsedTerms (errs @ ns_parseErrs t)
        else preferred_terms srt terms (parsedTerms @ [parsedTerm]) errs)"

definition NewPreferredSchedulingTerms ::
  "(Requirement list \<Rightarrow> Requirement list) \<Rightarrow> PreferredSchedulingTerm list \<Rightarrow> go_error list + preferredSchedulingTerm list" where
  "NewPreferredSchedulingTerms srt terms =
     (let (parsedTerms, errs) = preferred_terms srt terms [] [] in
      if length errs \<noteq> 0 then Inl errs else Inr parsedTerms)"

definition PreferredSchedulingTerms_Score :: "preferredSchedulingTerm list \<Rightarrow> node \<Rightarrow> int" where
  "PreferredSchedulingTerms_Score ts node =
     foldl (\<lambda>score t. if fst (nodeSelectorTerm_match (nodeSelectorTerm.truncate t) (n_Labels node) (extractNodeFields node))
                      then score + ns_weight t else score) 0 ts"

section \<open>The required affinity of a pod\<close>

record RequiredNodeAffinity =
  rn_labelSelector :: "Selector option"
  rn_nodeSelector :: "LazyErrorNodeSelector option"

definition required_terms :: "pod \<Rightarrow> NodeSelectorTerm list option" where
  "required_terms pod =
     (case p_Affinity pod of
        None \<Rightarrow> None
      | Some a \<Rightarrow> (case af_NodeAffinity a of None \<Rightarrow> None | Some na \<Rightarrow> na_Required na))"

definition GetRequiredNodeAffinity :: "go_orders \<Rightarrow> pod \<Rightarrow> RequiredNodeAffinity" where
  "GetRequiredNodeAffinity go pod =
     (let ks = go_range go (p_NodeSelector pod) in
      \<lparr>rn_labelSelector =
         (if length ks > 0 then Some (SelectorFromSet (go_sort go) ks (p_NodeSelector pod)) else None),
       rn_nodeSelector = map_option (NewLazyErrorNodeSelector (go_sort go)) (required_terms pod)\<rparr>)"

definition RequiredNodeAffinity_Match :: "RequiredNodeAffinity \<Rightarrow> node \<Rightarrow> bool \<times> go_error list" where
  "RequiredNodeAffinity_Match s node =
     (if (case rn_labelSelector s of None \<Rightarrow> False | Some sel \<Rightarrow> \<not> Selector_Matches sel (n_Labels node)) then (False, [])
      else
        (case rn_nodeSelector s of
           Some ns \<Rightarrow> LazyErrorNodeSelector_Match ns (Some node)
         | None \<Rightarrow> (True, [])))"

section \<open>What a term selects\<close>

definition int_label :: "(int \<Rightarrow> int \<Rightarrow> bool) \<Rightarrow> string option \<Rightarrow> string list \<Rightarrow> bool" where
  "int_label cmp l vs \<longleftrightarrow> (\<exists>s x w y. l = Some s \<and> ParseInt s = Some x \<and> vs = [w] \<and> ParseInt w = Some y \<and> cmp x y)"

definition node_expr_holds :: "NodeSelectorRequirement \<Rightarrow> label_set \<Rightarrow> bool" where
  "node_expr_holds e l =
     (case nr_Operator e of
        NodeSelectorOpIn \<Rightarrow> (\<exists>v\<in>set (nr_Values e). l (nr_Key e) = Some v)
      | NodeSelectorOpNotIn \<Rightarrow> (\<forall>v\<in>set (nr_Values e). l (nr_Key e) \<noteq> Some v)
      | NodeSelectorOpExists \<Rightarrow> l (nr_Key e) \<noteq> None
      | NodeSelectorOpDoesNotExist \<Rightarrow> l (nr_Key e) = None
      | NodeSelectorOpGt \<Rightarrow> int_label (\<lambda>x y. x > y) (l (nr_Key e)) (nr_Values e)
      | NodeSelectorOpLt \<Rightarrow> int_label (\<lambda>x y. x < y) (l (nr_Key e)) (nr_Values e)
      | OtherNodeSelectorOp _ \<Rightarrow> False)"

definition node_expr_valid :: "NodeSelectorRequirement \<Rightarrow> bool" where
  "node_expr_valid e \<longleftrightarrow>
     (\<exists>op. node_operator (nr_Operator e) = Some op \<and> snd (NewRequirement (nr_Key e) op (nr_Values e)) = [])"

definition field_expr_valid :: "NodeSelectorRequirement \<Rightarrow> bool" where
  "field_expr_valid e \<longleftrightarrow> (nr_Operator e = NodeSelectorOpIn \<or> nr_Operator e = NodeSelectorOpNotIn) \<and> length (nr_Values e) = 1"

definition field_expr_holds :: "NodeSelectorRequirement \<Rightarrow> field_set \<Rightarrow> bool" where
  "field_expr_holds e f \<longleftrightarrow> (nr_Operator e = NodeSelectorOpIn) = (Set_Get f (nr_Key e) \<in> set (nr_Values e))"

definition term_valid :: "NodeSelectorTerm \<Rightarrow> bool" where
  "term_valid t \<longleftrightarrow> (\<forall>e\<in>set (nt_MatchExpressions t). node_expr_valid e) \<and> (\<forall>e\<in>set (nt_MatchFields t). field_expr_valid e)"

definition term_selects :: "NodeSelectorTerm \<Rightarrow> node \<Rightarrow> bool" where
  "term_selects t node \<longleftrightarrow> \<not> isEmptyNodeSelectorTerm t \<and> term_valid t \<and>
     (\<forall>e\<in>set (nt_MatchExpressions t). node_expr_holds e (n_Labels node)) \<and>
     (n_Name node \<noteq> [] \<longrightarrow> (\<forall>e\<in>set (nt_MatchFields t). field_expr_holds e [''metadata.name'' \<mapsto> n_Name node]))"

definition required_affinity_holds :: "pod \<Rightarrow> node \<Rightarrow> bool" where
  "required_affinity_holds pod node \<longleftrightarrow> p_NodeSelector pod \<subseteq>\<^sub>m n_Labels node \<and>
     (\<forall>ts. required_terms pod = Some ts \<longrightarrow> (\<exists>t\<in>set ts. term_selects t node))"

definition node_req :: "NodeSelectorRequirement \<Rightarrow> Requirement" where
  "node_req e = \<lparr>rq_key = nr_Key e, rq_operator = the (node_operator (nr_Operator e)), rq_strValues = nr_Values e\<rparr>"

lemma node_req_matches:
  assumes "node_expr_valid e"
  shows "Requirement_Matches (node_req e) l = node_expr_holds e l"
proof -
  have cmp: "compare_ints \<lparr>rq_key = k, rq_operator = op, rq_strValues = vs\<rparr> l \<longleftrightarrow>
      op = GreaterThan \<and> int_label (\<lambda>x y. x > y) (l k) vs \<or> op = LessThan \<and> int_label (\<lambda>x y. x < y) (l k) vs" for k op vs
    by (auto simp: compare_ints_def int_label_def Set_Has_def Set_Get_def split: option.split list.split)
  show ?thesis
    using assms
    by (cases "nr_Operator e")
      (auto simp: node_expr_valid_def node_req_def node_expr_holds_def Requirement_Matches_def node_operator_def
        Set_Has_def Set_Get_def hasValue_def list_ex_iff cmp split: option.split)
qed

lemma node_expressions_result:
  assumes "sorts_by_key srt"
  shows "\<exists>rs' errs'. node_expressions srt es (internalSelector rs) errs = (internalSelector rs', errs') \<and>
    set rs' = set rs \<union> set (map node_req (filter node_expr_valid es)) \<and> (errs' = [] \<longleftrightarrow> errs = [] \<and> (\<forall>e\<in>set es. node_expr_valid e))"
proof (induction es arbitrary: rs errs)
  case (Cons x es)
  show ?case
  proof (cases "node_operator (nr_Operator x)")
    case None
    then have "\<not> node_expr_valid x" by (simp add: node_expr_valid_def)
    then show ?thesis using Cons.IH [of rs "errs @ [Errorf ''Unsupported value'']"] None by simp
  next
    case (Some op)
    obtain r es' where n: "NewRequirement (nr_Key x) op (nr_Values x) = (r, es')" by fastforce
    have x: "r = node_req x" using NewRequirement_cases(1) [OF n] Some by (simp add: node_req_def)
    have v: "node_expr_valid x \<longleftrightarrow> es' = []" using n Some by (simp add: node_expr_valid_def)
    show ?thesis
    proof (cases es')
      case Nil
      then have "set (srt (rs @ [r])) = insert (node_req x) (set rs)" using sorts_set [OF assms] x by simp
      then show ?thesis using Cons.IH [of "srt (rs @ [r])" errs] n Nil Some v by simp
    next
      case (Cons e es2)
      then show ?thesis using Cons.IH [of rs "errs @ e # es2"] n Some v by simp
    qed
  qed
qed simp

definition field_term :: "NodeSelectorRequirement \<Rightarrow> field_Selector" where
  "field_term e = (if nr_Operator e = NodeSelectorOpIn then hasTerm (nr_Key e) (hd (nr_Values e)) else notHasTerm (nr_Key e) (hd (nr_Values e)))"

lemma field_term_matches: "field_expr_valid e \<Longrightarrow> fields_Matches (field_term e) f = field_expr_holds e f"
  by (cases "nr_Values e") (auto simp: field_expr_valid_def field_term_def field_expr_holds_def)

lemma field_expressions_result:
  "\<exists>ss' errs'. field_expressions es ss errs = (ss', errs') \<and> set ss' = set ss \<union> set (map field_term (filter field_expr_valid es)) \<and>
    (errs' = [] \<longleftrightarrow> errs = [] \<and> (\<forall>e\<in>set es. field_expr_valid e))"
proof (induction es arbitrary: ss errs)
  case (Cons x es)
  show ?case
  proof (cases "field_expr_valid x")
    case True
    then obtain v where v: "nr_Values x = [v]" by (auto simp: field_expr_valid_def length_Suc_conv)
    have "field_expressions (x # es) ss errs = field_expressions es (ss @ [field_term x]) errs"
      using True v by (auto simp: field_expr_valid_def field_term_def OneTermEqualSelector_def OneTermNotEqualSelector_def)
    then show ?thesis using Cons.IH [of "ss @ [field_term x]" errs] True by simp
  next
    case False
    then have "\<exists>err. field_expressions (x # es) ss errs = field_expressions es ss (errs @ [err])"
      by (cases "nr_Operator x") (auto simp: field_expr_valid_def split: list.split)
    then obtain err where "field_expressions (x # es) ss errs = field_expressions es ss (errs @ [err])" by blast
    then show ?thesis using Cons.IH [of ss "errs @ [err]"] False by simp
  qed
qed simp

text \<open>The two conversions return errors exactly on an invalid expression, and otherwise selectors that match what all expressions hold of.\<close>

lemma AsSelector_result:
  assumes "sorts_by_key srt" "es \<noteq> []"
  shows "(if \<forall>e\<in>set es. node_expr_valid e
      then \<exists>sel. nodeSelectorRequirementsAsSelector srt es = Inr sel \<and> (\<forall>l. Selector_Matches sel l \<longleftrightarrow> (\<forall>e\<in>set es. node_expr_holds e l))
      else \<exists>errs. nodeSelectorRequirementsAsSelector srt es = Inl errs \<and> errs \<noteq> [])"
proof -
  obtain rs errs where r: "node_expressions srt es NewSelector [] = (internalSelector rs, errs)"
    "set rs = node_req ` set (filter node_expr_valid es)" "errs = [] \<longleftrightarrow> (\<forall>e\<in>set es. node_expr_valid e)"
    using node_expressions_result [OF assms(1), of es "[]" "[]"] by (auto simp: NewSelector_def)
  show ?thesis
    using r assms(2) node_req_matches by (simp add: nodeSelectorRequirementsAsSelector_def internal_Matches_iff) blast
qed

lemma AsFieldSelector_result:
  assumes "es \<noteq> []"
  shows "(if \<forall>e\<in>set es. field_expr_valid e
      then \<exists>sel. nodeSelectorRequirementsAsFieldSelector es = Inr sel \<and> (\<forall>f. fields_Matches sel f \<longleftrightarrow> (\<forall>e\<in>set es. field_expr_holds e f))
      else \<exists>errs. nodeSelectorRequirementsAsFieldSelector es = Inl errs \<and> errs \<noteq> [])"
proof -
  obtain ss errs where r: "field_expressions es [] [] = (ss, errs)"
    "set ss = field_term ` set (filter field_expr_valid es)" "errs = [] \<longleftrightarrow> (\<forall>e\<in>set es. field_expr_valid e)"
    using field_expressions_result [of es "[]" "[]"] by auto
  show ?thesis
    using r assms field_term_matches
    by (simp add: nodeSelectorRequirementsAsFieldSelector_def AndSelectors_def list_all_iff) blast
qed

lemma newNodeSelectorTerm_result:
  assumes "sorts_by_key srt"
  shows "ns_parseErrs (newNodeSelectorTerm srt t) = [] \<longleftrightarrow> term_valid t"
    "snd (nodeSelectorTerm_match (newNodeSelectorTerm srt t) l f) = ns_parseErrs (newNodeSelectorTerm srt t)"
    "fst (nodeSelectorTerm_match (newNodeSelectorTerm srt t) l f) \<longleftrightarrow> term_valid t \<and>
       (\<forall>e\<in>set (nt_MatchExpressions t). node_expr_holds e l) \<and> (f \<noteq> Map.empty \<longrightarrow> (\<forall>e\<in>set (nt_MatchFields t). field_expr_holds e f))"
proof -
  let ?n = "newNodeSelectorTerm srt t" and ?es = "nt_MatchExpressions t" and ?fs = "nt_MatchFields t"
  let ?e = "\<forall>e\<in>set ?es. node_expr_valid e" and ?f = "\<forall>e\<in>set ?fs. field_expr_valid e"
  obtain sl e1 where l: "(if length ?es \<noteq> 0 then (let r = nodeSelectorRequirementsAsSelector srt ?es in (sel_of r, errs_of r)) else (None, [])) = (sl, e1)"
    by fastforce
  obtain sf e2 where f: "(if length ?fs \<noteq> 0 then (let r = nodeSelectorRequirementsAsFieldSelector ?fs in (sel_of r, errs_of r)) else (None, [])) = (sf, e2)"
    by fastforce
  have n: "ns_matchLabels ?n = sl" "ns_matchFields ?n = sf" "ns_parseErrs ?n = e1 @ e2"
    unfolding newNodeSelectorTerm_def l f by simp_all
  have e1: "e1 = [] \<longleftrightarrow> ?e" "e1 = [] \<Longrightarrow> (case sl of None \<Rightarrow> False | Some s \<Rightarrow> \<not> Selector_Matches s l) \<longleftrightarrow> \<not> (\<forall>e\<in>set ?es. node_expr_holds e l)" for l
    using AsSelector_result [OF assms, of ?es] l
    by (cases "?es = []"; auto simp: sel_of_def errs_of_def Let_def split: if_splits)+
  have e2: "e2 = [] \<longleftrightarrow> ?f" "e2 = [] \<Longrightarrow> (case sf of None \<Rightarrow> False | Some s \<Rightarrow> g \<noteq> Map.empty \<and> \<not> fields_Matches s g) \<longleftrightarrow>
      g \<noteq> Map.empty \<and> \<not> (\<forall>e\<in>set ?fs. field_expr_holds e g)" for g
    using AsFieldSelector_result [of ?fs] f
    by (cases "?fs = []"; auto simp: sel_of_def errs_of_def Let_def split: if_splits)+
  show p: "ns_parseErrs ?n = [] \<longleftrightarrow> term_valid t" by (simp add: n e1(1) e2(1) term_valid_def)
  show "snd (nodeSelectorTerm_match ?n l f) = ns_parseErrs ?n" by (simp add: nodeSelectorTerm_match_def)
  show "fst (nodeSelectorTerm_match ?n l f) \<longleftrightarrow> term_valid t \<and>
       (\<forall>e\<in>set ?es. node_expr_holds e l) \<and> (f \<noteq> Map.empty \<longrightarrow> (\<forall>e\<in>set ?fs. field_expr_holds e f))"
  proof (cases "term_valid t")
    case True
    then have "e1 = []" "e2 = []" using p n(3) by simp_all
    then show ?thesis unfolding nodeSelectorTerm_match_def n e1(2) [OF \<open>e1 = []\<close>] e2(2) [OF \<open>e2 = []\<close>] using True by auto
  next
    case False
    then show ?thesis using p by (simp add: nodeSelectorTerm_match_def)
  qed
qed

lemma lazy_match_result:
  assumes "\<And>t. t \<in> set ts \<Longrightarrow> snd (nodeSelectorTerm_match t l f) = ns_parseErrs t"
  shows "fst (lazy_match ts l f errs) \<longleftrightarrow> (\<exists>t\<in>set ts. ns_parseErrs t = [] \<and> fst (nodeSelectorTerm_match t l f))"
    "snd (lazy_match ts l f errs) \<noteq> [] \<longleftrightarrow>
       \<not> fst (lazy_match ts l f errs) \<and> (errs \<noteq> [] \<or> (\<exists>t\<in>set ts. ns_parseErrs t \<noteq> []))"
  using assms by (induction ts arbitrary: errs) (auto simp: Let_def split_beta)

lemma extractNodeFields_simps [simp]:
  "extractNodeFields node \<noteq> Map.empty \<longleftrightarrow> n_Name node \<noteq> []"
  "n_Name node \<noteq> [] \<Longrightarrow> extractNodeFields node = [''metadata.name'' \<mapsto> n_Name node]"
  by (simp_all add: extractNodeFields_def)

lemma term_selects_match:
  assumes "sorts_by_key srt"
  shows "fst (nodeSelectorTerm_match (newNodeSelectorTerm srt t) (n_Labels node) (extractNodeFields node)) \<and> \<not> isEmptyNodeSelectorTerm t \<longleftrightarrow>
    term_selects t node"
  using newNodeSelectorTerm_result(3) [OF assms, of t "n_Labels node" "extractNodeFields node"]
  by (auto simp: term_selects_def)

lemma lazy_selector_result:
  assumes "sorts_by_key srt"
  shows "fst (LazyErrorNodeSelector_Match (NewLazyErrorNodeSelector srt ts) (Some node)) \<longleftrightarrow> (\<exists>t\<in>set ts. term_selects t node)"
    "snd (LazyErrorNodeSelector_Match (NewLazyErrorNodeSelector srt ts) (Some node)) \<noteq> [] \<longleftrightarrow>
       \<not> (\<exists>t\<in>set ts. term_selects t node) \<and> (\<exists>t\<in>set ts. \<not> isEmptyNodeSelectorTerm t \<and> \<not> term_valid t)"
proof -
  let ?ns = "NewLazyErrorNodeSelector srt ts" and ?l = "n_Labels node" and ?f = "extractNodeFields node"
  have s: "snd (nodeSelectorTerm_match t ?l ?f) = ns_parseErrs t" if "t \<in> set ?ns" for t
    using that newNodeSelectorTerm_result(2) [OF assms] by (auto simp: NewLazyErrorNodeSelector_def)
  have sel: "ns_parseErrs (newNodeSelectorTerm srt t) = [] \<and> fst (nodeSelectorTerm_match (newNodeSelectorTerm srt t) ?l ?f) \<and>
      \<not> isEmptyNodeSelectorTerm t \<longleftrightarrow> term_selects t node" for t
    using term_selects_match [OF assms, of t node] newNodeSelectorTerm_result(1) [OF assms, of t] by (auto simp: term_selects_def)
  have "(\<exists>t\<in>set ?ns. ns_parseErrs t = [] \<and> fst (nodeSelectorTerm_match t ?l ?f)) \<longleftrightarrow> (\<exists>t\<in>set ts. term_selects t node)"
    unfolding sel [symmetric] by (auto simp: NewLazyErrorNodeSelector_def)
  then show fst: "fst (LazyErrorNodeSelector_Match ?ns (Some node)) \<longleftrightarrow> (\<exists>t\<in>set ts. term_selects t node)"
    using lazy_match_result(1) [OF s] by (simp add: LazyErrorNodeSelector_Match_def)
  have "(\<exists>t\<in>set ?ns. ns_parseErrs t \<noteq> []) \<longleftrightarrow> (\<exists>t\<in>set ts. \<not> isEmptyNodeSelectorTerm t \<and> \<not> term_valid t)"
    using newNodeSelectorTerm_result(1) [OF assms] by (auto simp: NewLazyErrorNodeSelector_def)
  then show "snd (LazyErrorNodeSelector_Match ?ns (Some node)) \<noteq> [] \<longleftrightarrow>
       \<not> (\<exists>t\<in>set ts. term_selects t node) \<and> (\<exists>t\<in>set ts. \<not> isEmptyNodeSelectorTerm t \<and> \<not> term_valid t)"
    using lazy_match_result(2) [OF s] fst by (simp add: LazyErrorNodeSelector_Match_def)
qed

lemma SelectorFromSet_matches:
  assumes "sorts_by_key srt" "range_order ks m"
  shows "Selector_Matches (SelectorFromSet srt ks m) l \<longleftrightarrow> m \<subseteq>\<^sub>m l"
proof -
  have "Selector_Matches (SelectorFromSet srt ks m) l \<longleftrightarrow> (\<forall>k\<in>set ks. Requirement_Matches (label_req m k) l)"
    by (simp add: SelectorFromSet_def SelectorFromValidatedSet_def internal_Matches_iff sorts_set [OF assms(1)] label_req_def)
  then show ?thesis by (simp add: label_req_matches map_le_all [OF assms(2)])
qed

lemma required_affinity_result:
  assumes "sorts_by_key (go_sort go)" "range_order (go_range go (p_NodeSelector pod)) (p_NodeSelector pod)"
  shows "fst (RequiredNodeAffinity_Match (GetRequiredNodeAffinity go pod) node) \<longleftrightarrow> required_affinity_holds pod node"
    "snd (RequiredNodeAffinity_Match (GetRequiredNodeAffinity go pod) node) \<noteq> [] \<longleftrightarrow>
       p_NodeSelector pod \<subseteq>\<^sub>m n_Labels node \<and> \<not> required_affinity_holds pod node \<and>
       (\<exists>ts t. required_terms pod = Some ts \<and> t \<in> set ts \<and> \<not> isEmptyNodeSelectorTerm t \<and> \<not> term_valid t)"
proof -
  let ?r = "GetRequiredNodeAffinity go pod" and ?ks = "go_range go (p_NodeSelector pod)"
  have l: "(case rn_labelSelector ?r of None \<Rightarrow> False | Some sel \<Rightarrow> \<not> Selector_Matches sel (n_Labels node)) \<longleftrightarrow>
      \<not> p_NodeSelector pod \<subseteq>\<^sub>m n_Labels node"
  proof (cases "?ks = []")
    case True
    then have "p_NodeSelector pod = Map.empty" using range_order_Nil_iff [OF assms(2)] by simp
    then show ?thesis using True by (simp add: GetRequiredNodeAffinity_def Let_def)
  next
    case False
    then show ?thesis using SelectorFromSet_matches [OF assms] by (simp add: GetRequiredNodeAffinity_def Let_def)
  qed
  have n: "rn_nodeSelector ?r = map_option (NewLazyErrorNodeSelector (go_sort go)) (required_terms pod)"
    by (simp add: GetRequiredNodeAffinity_def Let_def)
  show "fst (RequiredNodeAffinity_Match ?r node) \<longleftrightarrow> required_affinity_holds pod node"
    "snd (RequiredNodeAffinity_Match ?r node) \<noteq> [] \<longleftrightarrow>
       p_NodeSelector pod \<subseteq>\<^sub>m n_Labels node \<and> \<not> required_affinity_holds pod node \<and>
       (\<exists>ts t. required_terms pod = Some ts \<and> t \<in> set ts \<and> \<not> isEmptyNodeSelectorTerm t \<and> \<not> term_valid t)"
    using lazy_selector_result [OF assms(1), of "the (required_terms pod)" node]
    by (cases "required_terms pod"; auto simp: RequiredNodeAffinity_Match_def l n required_affinity_holds_def)+
qed

text \<open>C32: A pod's required node affinity matches a node exactly when every pair of the pod's node selector is a label of the node and,
  when the affinity lists terms, one of them is nonempty and valid and all its expressions hold of the labels and of the name of the node. Errors are reported only when
  no term matches, and then exactly when a nonempty term is invalid. The orders in which Go visits and sorts the requirements do not matter.\<close>

theorem node_affinity_meaning:
  assumes "sorts_by_key (go_sort go)" "range_order (go_range go (p_NodeSelector pod)) (p_NodeSelector pod)"
  shows "(fst (RequiredNodeAffinity_Match (GetRequiredNodeAffinity go pod) node) \<longleftrightarrow> required_affinity_holds pod node) \<and>
    (snd (RequiredNodeAffinity_Match (GetRequiredNodeAffinity go pod) node) \<noteq> [] \<longleftrightarrow>
       p_NodeSelector pod \<subseteq>\<^sub>m n_Labels node \<and> \<not> required_affinity_holds pod node \<and>
       (\<exists>ts t. required_terms pod = Some ts \<and> t \<in> set ts \<and> \<not> isEmptyNodeSelectorTerm t \<and> \<not> term_valid t))"
  using required_affinity_result [OF assms] by blast

text \<open>A pod that must run on a node of two zones whose generation is above 3, and not on the node called \<open>n0\<close>.\<close>

definition zone_pod :: pod where
  "zone_pod = (sample_pod ''z'' 80 100)\<lparr>p_NodeSelector := [''disk'' \<mapsto> ''ssd''],
     p_Affinity := Some \<lparr>af_NodeAffinity = Some \<lparr>na_Required = Some
         [\<lparr>nt_MatchExpressions = [\<lparr>nr_Key = ''zone'', nr_Operator = NodeSelectorOpIn, nr_Values = [''a'', ''b'']\<rparr>,
             \<lparr>nr_Key = ''gen'', nr_Operator = NodeSelectorOpGt, nr_Values = [''3'']\<rparr>],
           nt_MatchFields = [\<lparr>nr_Key = ''metadata.name'', nr_Operator = NodeSelectorOpNotIn, nr_Values = [''n0'']\<rparr>]\<rparr>],
         na_Preferred = []\<rparr>, af_PodAffinity = None, af_PodAntiAffinity = None\<rparr>\<rparr>"

definition zone_node :: "string \<Rightarrow> node" where
  "zone_node gen = \<lparr>n_Name = ''n1'', n_Labels = [''disk'' \<mapsto> ''ssd'', ''zone'' \<mapsto> ''b'', ''gen'' \<mapsto> gen], n_Unschedulable = False,
     n_Taints = [], n_Allocatable = [(''cpu'', \<lparr>q_Value = 4, q_MilliValue = 4000\<rparr>), (''pods'', \<lparr>q_Value = 10, q_MilliValue = 10000\<rparr>)], n_Images = [], n_Conditions = []\<rparr>"

definition zone_orders :: go_orders where
  "zone_orders = \<lparr>go_sort = sort_key rq_key, go_range = (\<lambda>m. if m = Map.empty then [] else [''disk''])\<rparr>"

lemma zone_valid:
  "node_expr_valid \<lparr>nr_Key = ''zone'', nr_Operator = NodeSelectorOpIn, nr_Values = [''a'', ''b'']\<rparr>"
  "node_expr_valid \<lparr>nr_Key = ''gen'', nr_Operator = NodeSelectorOpGt, nr_Values = [''3'']\<rparr>"
  unfolding node_expr_valid_def by (simp add: node_operator_def; code_simp)+

lemma zone_ints: "ParseInt ''3'' = Some 3" "ParseInt ''12'' = Some 12" "ParseInt ''2'' = Some 2"
  by code_simp+

lemma zone_holds: "required_affinity_holds zone_pod (zone_node ''12'')" "\<not> required_affinity_holds zone_pod (zone_node ''2'')"
  by (simp_all add: required_affinity_holds_def zone_pod_def zone_node_def required_terms_def term_selects_def term_valid_def zone_valid
      isEmptyNodeSelectorTerm_def node_expr_holds_def int_label_def field_expr_valid_def field_expr_holds_def Set_Get_def zone_ints map_le_def)

lemma zone_orders_ok: "sorts_by_key (go_sort zone_orders)" "range_order (go_range zone_orders (p_NodeSelector zone_pod)) (p_NodeSelector zone_pod)"
  by (simp_all add: zone_orders_def sort_key_sorts zone_pod_def range_order_def)

theorem node_affinity_meaning_witness:
  "RequiredNodeAffinity_Match (GetRequiredNodeAffinity zone_orders zone_pod) (zone_node ''12'') = (True, []) \<and>
   RequiredNodeAffinity_Match (GetRequiredNodeAffinity zone_orders zone_pod) (zone_node ''2'') = (False, [])"
  using node_affinity_meaning [OF zone_orders_ok] zone_holds
  by (auto simp: prod_eq_iff zone_pod_def required_terms_def term_valid_def zone_valid field_expr_valid_def)

section \<open>The score of preferred terms\<close>

definition used_term :: "PreferredSchedulingTerm \<Rightarrow> bool" where
  "used_term t \<longleftrightarrow> ps_Weight t \<noteq> 0 \<and> \<not> isEmptyNodeSelectorTerm (ps_Preference t)"

definition parsed_preferred :: "(Requirement list \<Rightarrow> Requirement list) \<Rightarrow> PreferredSchedulingTerm \<Rightarrow> preferredSchedulingTerm" where
  "parsed_preferred srt t = nodeSelectorTerm.extend (newNodeSelectorTerm srt (ps_Preference t)) \<lparr>ns_weight = ps_Weight t\<rparr>"

lemma preferred_terms_result:
  assumes "sorts_by_key srt"
  shows "\<exists>errs'. preferred_terms srt ts acc errs =
      (acc @ map (parsed_preferred srt) (filter (\<lambda>t. used_term t \<and> term_valid (ps_Preference t)) ts), errs') \<and>
    (errs' = [] \<longleftrightarrow> errs = [] \<and> (\<forall>t\<in>set ts. used_term t \<longrightarrow> term_valid (ps_Preference t)))"
proof (induction ts arbitrary: acc errs)
  case (Cons t ts)
  note v = newNodeSelectorTerm_result(1) [OF assms, of "ps_Preference t"]
  show ?case
    using Cons.IH [of acc errs] Cons.IH [of acc "errs @ ns_parseErrs (newNodeSelectorTerm srt (ps_Preference t))"]
      Cons.IH [of "acc @ [parsed_preferred srt t]" errs] v
    by (cases "used_term t"; cases "term_valid (ps_Preference t)")
      (auto simp: used_term_def Let_def parsed_preferred_def nodeSelectorTerm.defs)
qed simp

lemma parsed_preferred_simps [simp]:
  "nodeSelectorTerm.truncate (parsed_preferred srt t) = newNodeSelectorTerm srt (ps_Preference t)"
  "ns_weight (parsed_preferred srt t) = ps_Weight t"
  by (simp_all add: parsed_preferred_def nodeSelectorTerm.defs)

text \<open>C33: The preferred terms of a node affinity parse exactly when all terms that have a weight and are not empty are valid; the score of a node is then
  the sum of the weights of the terms that select it.\<close>

theorem preferred_score_exact:
  assumes "sorts_by_key srt"
  shows "if \<forall>t\<in>set ts. ps_Weight t \<noteq> 0 \<and> \<not> isEmptyNodeSelectorTerm (ps_Preference t) \<longrightarrow> term_valid (ps_Preference t)
    then \<exists>terms. NewPreferredSchedulingTerms srt ts = Inr terms \<and>
      (\<forall>node. PreferredSchedulingTerms_Score terms node = (\<Sum>t\<leftarrow>ts. if term_selects (ps_Preference t) node then ps_Weight t else 0))
    else \<exists>errs. NewPreferredSchedulingTerms srt ts = Inl errs \<and> errs \<noteq> []"
proof -
  let ?good = "filter (\<lambda>t. used_term t \<and> term_valid (ps_Preference t)) ts"
  obtain errs where r: "preferred_terms srt ts [] [] = (map (parsed_preferred srt) ?good, errs)"
    "errs = [] \<longleftrightarrow> (\<forall>t\<in>set ts. used_term t \<longrightarrow> term_valid (ps_Preference t))"
    using preferred_terms_result [OF assms, of ts "[]" "[]"] by auto
  have fold: "foldl (\<lambda>score t. if P t then score + w t else score) s xs = s + (\<Sum>t\<leftarrow>xs. if P t then w t else 0)" for P and w :: "'z \<Rightarrow> int" and s xs
    by (induction xs arbitrary: s) auto
  have "(\<Sum>t\<leftarrow>filter (\<lambda>t. used_term t \<and> term_valid (ps_Preference t)) xs. if fst (nodeSelectorTerm_match (newNodeSelectorTerm srt (ps_Preference t)) (n_Labels node)
        (extractNodeFields node)) then ps_Weight t else 0) =
      (\<Sum>t\<leftarrow>xs. if term_selects (ps_Preference t) node then ps_Weight t else 0)" for node xs
    using term_selects_match [OF assms, of _ node] by (induction xs) (auto simp: used_term_def term_selects_def)
  then have "PreferredSchedulingTerms_Score (map (parsed_preferred srt) ?good) node =
      (\<Sum>t\<leftarrow>ts. if term_selects (ps_Preference t) node then ps_Weight t else 0)" for node
    by (simp add: PreferredSchedulingTerms_Score_def fold comp_def cong: if_cong)
  then show ?thesis using r by (auto simp: NewPreferredSchedulingTerms_def used_term_def)
qed

theorem preferred_score_exact_witness:
  "\<exists>terms. NewPreferredSchedulingTerms (sort_key rq_key)
      [\<lparr>ps_Weight = 5, ps_Preference = \<lparr>nt_MatchExpressions = [\<lparr>nr_Key = ''gen'', nr_Operator = NodeSelectorOpGt, nr_Values = [''3'']\<rparr>], nt_MatchFields = []\<rparr>\<rparr>,
       \<lparr>ps_Weight = 7, ps_Preference = \<lparr>nt_MatchExpressions = [], nt_MatchFields = [\<lparr>nr_Key = ''metadata.name'', nr_Operator = NodeSelectorOpIn, nr_Values = [''n1'']\<rparr>]\<rparr>\<rparr>]
      = Inr terms \<and> PreferredSchedulingTerms_Score terms (zone_node ''12'') = 12 \<and> PreferredSchedulingTerms_Score terms (zone_node ''2'') = 7"
proof -
  let ?a = "\<lparr>ps_Weight = 5, ps_Preference = \<lparr>nt_MatchExpressions = [\<lparr>nr_Key = ''gen'', nr_Operator = NodeSelectorOpGt, nr_Values = [''3'']\<rparr>], nt_MatchFields = []\<rparr>\<rparr>"
  let ?b = "\<lparr>ps_Weight = 7, ps_Preference = \<lparr>nt_MatchExpressions = [], nt_MatchFields = [\<lparr>nr_Key = ''metadata.name'', nr_Operator = NodeSelectorOpIn, nr_Values = [''n1'']\<rparr>]\<rparr>\<rparr>"
  have v: "term_valid (ps_Preference ?a)" "term_valid (ps_Preference ?b)"
    by (simp_all add: term_valid_def zone_valid field_expr_valid_def)
  have "term_selects (ps_Preference ?a) (zone_node ''12'')" "\<not> term_selects (ps_Preference ?a) (zone_node ''2'')"
    "term_selects (ps_Preference ?b) (zone_node g)" for g
    using v by (simp_all add: term_selects_def zone_node_def isEmptyNodeSelectorTerm_def node_expr_holds_def int_label_def zone_ints field_expr_holds_def Set_Get_def)
  then show ?thesis using preferred_score_exact [OF sort_key_sorts, of "[?a, ?b]"] v by auto
qed

end
