(* ===== verification/Framework_Status.thy ===== *)
theory Framework_Status
  imports Node_Selectors
begin

text \<open>
  Results and shared data of scheduler plugins: \<open>Status\<close> and \<open>PluginToStatus\<close>
  (\<open>pkg/scheduler/framework/interface.go\<close>) and \<open>CycleState\<close> (\<open>cycle_state.go\<close>).

  A nil status is \<open>None\<close> and means success. The data that a plugin keeps in the cycle state is a
  datatype with one constructor per modelled plugin, and one for the others, whose data is opaque.
  The theory shows that merging statuses keeps the most severe code, whatever the order of the map.
\<close>

section \<open>Statuses\<close>

datatype Code = Success | Error | Unschedulable | UnschedulableAndUnresolvable | Wait | Skip

record Status =
  st_code :: Code
  st_reasons :: "string list"
  st_err :: "go_error option"
  st_failedPlugin :: string

text \<open>The text of an error; the texts leave out the objects that they print.\<close>

fun error_text :: "go_error \<Rightarrow> string" where
  "error_text (Errorf s) = s"
| "error_text (Wrapf s err) = s @ '': '' @ error_text err"
| "error_text (KeyError err) = ''couldn't create key for object: '' @ error_text err"
| "error_text (ErrRequeue None) = ''the popped item should be requeued without returning an error''"
| "error_text (ErrRequeue (Some err)) = error_text err"
| "error_text ErrFIFOClosed = ''DeltaFIFO: manipulating with closed queue''"
| "error_text ErrZeroLengthDeltasObject = ''0 length Deltas object; can't get key''"

definition statusPrecedence :: "Code \<Rightarrow> int" where
  "statusPrecedence c =
     (case c of Error \<Rightarrow> 3 | UnschedulableAndUnresolvable \<Rightarrow> 2 | Unschedulable \<Rightarrow> 1 | Success \<Rightarrow> -1 | _ \<Rightarrow> 0)"

definition status_Code :: "Status option \<Rightarrow> Code" where
  "status_Code s = (case s of None \<Rightarrow> Success | Some x \<Rightarrow> st_code x)"

definition status_Message :: "Status option \<Rightarrow> string" where
  "status_Message s = (case s of None \<Rightarrow> [] | Some x \<Rightarrow> Join (st_reasons x) '', '')"

definition SetFailedPlugin :: "Status \<Rightarrow> string \<Rightarrow> Status" where
  "SetFailedPlugin s plugin = s\<lparr>st_failedPlugin := plugin\<rparr>"

definition WithFailedPlugin :: "Status \<Rightarrow> string \<Rightarrow> Status" where
  "WithFailedPlugin s plugin = SetFailedPlugin s plugin"

definition AppendReason :: "Status \<Rightarrow> string \<Rightarrow> Status" where
  "AppendReason s reason = s\<lparr>st_reasons := st_reasons s @ [reason]\<rparr>"

definition IsSuccess :: "Status option \<Rightarrow> bool" where
  "IsSuccess s \<longleftrightarrow> status_Code s = Success"

definition IsUnschedulable :: "Status option \<Rightarrow> bool" where
  "IsUnschedulable s \<longleftrightarrow> status_Code s = Unschedulable \<or> status_Code s = UnschedulableAndUnresolvable"

definition AsError :: "Status option \<Rightarrow> go_error option" where
  "AsError s =
     (case s of
        None \<Rightarrow> None
      | Some x \<Rightarrow>
          (if IsSuccess s then None
           else (case st_err x of Some err \<Rightarrow> Some err | None \<Rightarrow> Some (Errorf (status_Message s)))))"

definition NewStatus :: "Code \<Rightarrow> string list \<Rightarrow> Status" where
  "NewStatus c reasons =
     \<lparr>st_code = c, st_reasons = reasons, st_err = (if c = Error then Some (Errorf (Join reasons '', '')) else None), st_failedPlugin = []\<rparr>"

definition AsStatus :: "go_error \<Rightarrow> Status" where
  "AsStatus err = \<lparr>st_code = Error, st_reasons = [error_text err], st_err = Some err, st_failedPlugin = []\<rparr>"

text \<open>\<open>cmp.Equal\<close> is code of another repository, so the two comparisons are arguments.\<close>

definition status_Equal ::
  "(go_error option \<Rightarrow> go_error option \<Rightarrow> bool) \<Rightarrow> (string list \<Rightarrow> string list \<Rightarrow> bool) \<Rightarrow> Status option \<Rightarrow> Status option \<Rightarrow> bool" where
  "status_Equal cmp_err cmp_reasons s x =
     (case (s, x) of
        (Some a, Some b) \<Rightarrow>
          (if st_code a \<noteq> st_code b then False
           else if st_code a = Error then cmp_err (st_err a) (st_err b)
           else cmp_reasons (st_reasons a) (st_reasons b))
      | _ \<Rightarrow> IsSuccess s \<and> IsSuccess x)"

section \<open>Merging the statuses of plugins\<close>

type_synonym PluginToStatus = "string \<rightharpoonup> Status"

definition merge_status :: "Status \<Rightarrow> Status \<Rightarrow> Status" where
  "merge_status finalStatus s =
     (let f1 = (if st_code s = Error then finalStatus\<lparr>st_err := AsError (Some s)\<rparr> else finalStatus);
          f2 = (if statusPrecedence (st_code s) > statusPrecedence (st_code f1)
                then f1\<lparr>st_code := st_code s, st_failedPlugin := st_failedPlugin s\<rparr> else f1) in
      foldl AppendReason f2 (st_reasons s))"

text \<open>\<open>ks\<close> is the order in which the loop ranges over the map.\<close>

definition PluginToStatus_Merge :: "string list \<Rightarrow> PluginToStatus \<Rightarrow> Status option" where
  "PluginToStatus_Merge ks p =
     (if length ks = 0 then None else Some (foldl merge_status (NewStatus Success []) (List.map_filter p ks)))"

section \<open>Cycle state\<close>

datatype StateData =
    FitState Resource
  | PortsState "containerPort list"
  | NodeAffinityState RequiredNodeAffinity
  | NodeAffinityPreScore "preferredSchedulingTerm list option"
  | TaintPreScore "Toleration list"
  | OtherState string

record CycleState =
  cs_storage :: "string \<rightharpoonup> StateData"
  cs_recordPluginMetrics :: bool

definition NewCycleState :: CycleState where
  "NewCycleState = \<lparr>cs_storage = Map.empty, cs_recordPluginMetrics = False\<rparr>"

definition ShouldRecordPluginMetrics :: "CycleState option \<Rightarrow> bool" where
  "ShouldRecordPluginMetrics c = (case c of None \<Rightarrow> False | Some s \<Rightarrow> cs_recordPluginMetrics s)"

definition SetRecordPluginMetrics :: "CycleState option \<Rightarrow> bool \<Rightarrow> CycleState option" where
  "SetRecordPluginMetrics c flag = map_option (\<lambda>s. s\<lparr>cs_recordPluginMetrics := flag\<rparr>) c"

definition cs_Read :: "CycleState \<Rightarrow> string \<Rightarrow> go_error + StateData" where
  "cs_Read c key = (case cs_storage c key of Some v \<Rightarrow> Inr v | None \<Rightarrow> Inl (Errorf ''not found''))"

definition cs_Write :: "CycleState \<Rightarrow> string \<Rightarrow> StateData \<Rightarrow> CycleState" where
  "cs_Write c key val = c\<lparr>cs_storage := (cs_storage c)(key \<mapsto> val)\<rparr>"

definition cs_Delete :: "CycleState \<Rightarrow> string \<Rightarrow> CycleState" where
  "cs_Delete c key = c\<lparr>cs_storage := (cs_storage c)(key := None)\<rparr>"

text \<open>The plugins' \<open>Clone\<close> methods return data of the same content, so cloning copies the storage into a new cycle state.\<close>

definition cs_Clone :: "CycleState option \<Rightarrow> CycleState option" where
  "cs_Clone c = map_option (\<lambda>s. NewCycleState\<lparr>cs_storage := cs_storage s\<rparr>) c"

section \<open>Orders\<close>

text \<open>The orders in which the scheduler's loops range over maps.\<close>

record sched_orders = go_orders +
  so_ports :: "HostPortInfo \<Rightarrow> string list"
  so_scalars :: "(string \<rightharpoonup> 64 word) \<Rightarrow> string list"
  so_statuses :: "PluginToStatus \<Rightarrow> string list"

section \<open>Merging\<close>

lemma status_simps [simp]:
  "IsSuccess None" "\<not> IsUnschedulable None" "AsError None = None" "status_Code None = Success" "status_Code (Some s) = st_code s"
  "IsSuccess (Some s) \<longleftrightarrow> st_code s = Success"
  "IsUnschedulable (Some s) \<longleftrightarrow> st_code s = Unschedulable \<or> st_code s = UnschedulableAndUnresolvable"
  by (simp_all add: IsSuccess_def IsUnschedulable_def AsError_def status_Code_def)

lemma NewStatus_simps [simp]:
  "st_code (NewStatus c rs) = c" "st_reasons (NewStatus c rs) = rs" "st_code (AsStatus err) = Error" "st_err (AsStatus err) = Some err"
  "st_code (WithFailedPlugin s x) = st_code s" "st_code (SetFailedPlugin s x) = st_code s" "st_failedPlugin (WithFailedPlugin s x) = x"
  "st_failedPlugin (SetFailedPlugin s x) = x" "st_err (WithFailedPlugin s x) = st_err s" "st_reasons (SetFailedPlugin s x) = st_reasons s"
  by (simp_all add: NewStatus_def AsStatus_def WithFailedPlugin_def SetFailedPlugin_def)

lemma foldl_AppendReason: "foldl AppendReason s rs = s\<lparr>st_reasons := st_reasons s @ rs\<rparr>"
  by (induction rs arbitrary: s) (simp_all add: AppendReason_def)

lemma merge_status_fields:
  "st_code (merge_status f s) = (if statusPrecedence (st_code s) > statusPrecedence (st_code f) then st_code s else st_code f)"
  "st_failedPlugin (merge_status f s) = (if statusPrecedence (st_code s) > statusPrecedence (st_code f) then st_failedPlugin s else st_failedPlugin f)"
  "st_reasons (merge_status f s) = st_reasons f @ st_reasons s"
  "st_err (merge_status f s) = (if st_code s = Error then AsError (Some s) else st_err f)"
  by (simp_all add: merge_status_def Let_def foldl_AppendReason)

text \<open>Codes are compared by their precedence; the codes that plugins return from filters are told apart by it.\<close>

definition filter_code :: "Code \<Rightarrow> bool" where
  "filter_code c \<longleftrightarrow> c \<noteq> Wait \<and> c \<noteq> Skip"

lemma precedence_inj: "filter_code c \<Longrightarrow> filter_code d \<Longrightarrow> statusPrecedence c = statusPrecedence d \<Longrightarrow> c = d"
  by (cases c; cases d) (simp_all add: statusPrecedence_def filter_code_def)

lemma merge_fold:
  "(\<forall>s\<in>set ss. statusPrecedence (st_code s) \<le> statusPrecedence (st_code (foldl merge_status f ss))) \<and>
   statusPrecedence (st_code f) \<le> statusPrecedence (st_code (foldl merge_status f ss)) \<and>
   ((st_code (foldl merge_status f ss), st_failedPlugin (foldl merge_status f ss)) \<in>
      insert (st_code f, st_failedPlugin f) ((\<lambda>s. (st_code s, st_failedPlugin s)) ` set ss)) \<and>
   st_reasons (foldl merge_status f ss) = st_reasons f @ concat (map st_reasons ss)"
proof (induction ss arbitrary: f)
  case (Cons s ss)
  show ?case using Cons.IH [of "merge_status f s"] by (auto simp: merge_status_fields split: if_splits)
qed simp

lemma range_order_map_filter: "range_order ks m \<Longrightarrow> set (List.map_filter m ks) = ran m"
  by (auto simp: range_order_def map_filter_def ran_def) (metis (mono_tags, lifting) domI imageI mem_Collect_eq option.distinct(1) option.sel)

lemma Merge_None_iff: "range_order ks p \<Longrightarrow> PluginToStatus_Merge ks p = None \<longleftrightarrow> p = Map.empty"
  by (simp add: PluginToStatus_Merge_def range_order_Nil_iff)

text \<open>Merging the statuses of the plugins succeeds at once without statuses, and otherwise gives the code of highest precedence among
  them, with the plugin of a status with that code, and all the reasons; the order of the map only decides between equals.\<close>

theorem merge_most_severe:
  assumes "range_order ks p" "\<forall>s\<in>ran p. filter_code (st_code s)" "p \<noteq> Map.empty"
  shows "\<exists>m. PluginToStatus_Merge ks p = Some m \<and>
    (\<exists>s\<in>ran p. st_code m = st_code s \<and> (st_code m \<noteq> Success \<longrightarrow> st_failedPlugin m = st_failedPlugin s)) \<and>
    (\<forall>s\<in>ran p. statusPrecedence (st_code s) \<le> statusPrecedence (st_code m)) \<and>
    set (st_reasons m) = (\<Union>s\<in>ran p. set (st_reasons s))"
proof -
  let ?ss = "List.map_filter p ks" and ?f = "NewStatus Success []"
  let ?m = "foldl merge_status ?f ?ss"
  note r = range_order_map_filter [OF assms(1)]
  obtain s0 where "s0 \<in> ran p" using assms(3) by (metis ranI option.exhaust ext)
  have m: "PluginToStatus_Merge ks p = Some ?m"
    using Merge_None_iff [OF assms(1)] assms(3) by (auto simp: PluginToStatus_Merge_def)
  note f = merge_fold [of ?ss ?f, unfolded r]
  have "\<exists>s\<in>ran p. st_code ?m = st_code s \<and> (st_code ?m \<noteq> Success \<longrightarrow> st_failedPlugin ?m = st_failedPlugin s)"
  proof (cases "st_code ?m = Success")
    case True
    then have "statusPrecedence (st_code s0) \<le> -1" using f \<open>s0 \<in> ran p\<close> by (auto simp: statusPrecedence_def)
    then have "st_code s0 = Success" using assms(2) \<open>s0 \<in> ran p\<close> by (cases "st_code s0") (auto simp: statusPrecedence_def filter_code_def)
    then show ?thesis using True \<open>s0 \<in> ran p\<close> by (intro bexI [of _ s0]) simp_all
  next
    case False
    then show ?thesis using f by auto
  qed
  moreover have "set (st_reasons ?m) = (\<Union>s\<in>ran p. set (st_reasons s))" using f r by auto
  ultimately show ?thesis using m f by blast
qed

end
