(* ===== verification/Parallel_Filter.thy ===== *)
theory Parallel_Filter
  imports Framework_Status
begin

text \<open>
  The parallel search for feasible nodes in \<open>findNodesThatPassFilters\<close>
  (\<open>pkg/scheduler/core/generic_scheduler.go\<close>), with the error channel of \<open>internal/parallelize/error_channel.go\<close>.

  Goroutines call \<open>checkNode\<close> for the pieces of work; a worker looks at the context before each piece. The pieces share a counter, which they change atomically, the slots of
  the result, the map of statuses under its lock, the error channel of capacity one and the cancellation of the context. Each piece is a small
  program whose atomic actions interleave: \<open>pf_step e i\<close> is the next action of piece \<open>i\<close>, and a schedule is the list of pieces in the order in which they act. The
  chunks in which workers take the pieces only exclude some schedules. The context that is passed in is not cancelled from outside.

  The theory shows for every schedule that the slots are filled without gaps by distinct nodes that pass the filters, that as many as wanted or all of them are found,
  that the remaining nodes have a status, and that the search ends.
\<close>

section \<open>The error channel\<close>

definition SendError :: "go_error option \<Rightarrow> go_error \<Rightarrow> go_error option" where
  "SendError ch err = (case ch of None \<Rightarrow> Some err | Some e \<Rightarrow> Some e)"

definition ReceiveError :: "go_error option \<Rightarrow> go_error option \<times> go_error option" where
  "ReceiveError ch = (ch, None)"

section \<open>Pieces of work\<close>

text \<open>The position of a piece in \<open>checkNode\<close>: before its start, before the check, after sending an error, between taking a slot and writing it, between exceeding the number
  of nodes and cancelling, between cancelling and giving the count back, and its ends.\<close>

datatype phase = Idle | Checking | ErrSent | Slot nat | Over | OverCancelled | Filled nat | Dropped | Failed | Errored

record pf_env =
  pv_nodes :: "node list"
  pv_num :: nat
  pv_check :: "nat \<Rightarrow> Status option"

record pf_state =
  pf_phase :: "nat \<Rightarrow> phase"
  pf_len :: nat
  pf_feasible :: "node option list"
  pf_statuses :: "string \<rightharpoonup> Status"
  pf_plugins :: "string set"
  pf_err :: "go_error option"
  pf_cancelled :: bool

definition pf_init :: "pf_env \<Rightarrow> (string \<rightharpoonup> Status) \<Rightarrow> string set \<Rightarrow> pf_state" where
  "pf_init e statuses plugins =
     \<lparr>pf_phase = (\<lambda>_. Idle), pf_len = 0, pf_feasible = replicate (pv_num e) None, pf_statuses = statuses, pf_plugins = plugins,
      pf_err = None, pf_cancelled = False\<rparr>"

definition set_phase :: "nat \<Rightarrow> phase \<Rightarrow> pf_state \<Rightarrow> pf_state" where
  "set_phase i p s = s\<lparr>pf_phase := (pf_phase s)(i := p)\<rparr>"

text \<open>The next action of piece \<open>i\<close>; \<open>None\<close> when it has none.\<close>

definition pf_step :: "pf_env \<Rightarrow> nat \<Rightarrow> pf_state \<Rightarrow> pf_state option" where
  "pf_step e i s =
     (if i \<ge> length (pv_nodes e) then None
      else
        (case pf_phase s i of
           Idle \<Rightarrow> (if pf_cancelled s then None else Some (set_phase i Checking s))
         | Checking \<Rightarrow>
             (let status = pv_check e i in
              if status_Code status = Error
              then Some (set_phase i ErrSent (s\<lparr>pf_err := SendError (pf_err s) (case AsError status of Some err \<Rightarrow> err | None \<Rightarrow> Errorf [])\<rparr>))
              else if IsSuccess status then
                (let len = pf_len s + 1 in
                 if len > pv_num e then Some (set_phase i Over (s\<lparr>pf_len := len\<rparr>))
                 else Some (set_phase i (Slot (len - 1)) (s\<lparr>pf_len := len\<rparr>)))
              else
                (case status of
                   None \<Rightarrow> None
                 | Some st \<Rightarrow>
                     Some (set_phase i Failed
                       (s\<lparr>pf_statuses := (pf_statuses s)(n_Name (pv_nodes e ! i) \<mapsto> st), pf_plugins := insert (st_failedPlugin st) (pf_plugins s)\<rparr>))))
         | ErrSent \<Rightarrow> Some (set_phase i Errored (s\<lparr>pf_cancelled := True\<rparr>))
         | Slot k \<Rightarrow> Some (set_phase i (Filled k) (s\<lparr>pf_feasible := (pf_feasible s)[k := Some (pv_nodes e ! i)]\<rparr>))
         | Over \<Rightarrow> Some (set_phase i OverCancelled (s\<lparr>pf_cancelled := True\<rparr>))
         | OverCancelled \<Rightarrow> Some (set_phase i Dropped (s\<lparr>pf_len := pf_len s - 1\<rparr>))
         | _ \<Rightarrow> None))"

text \<open>A schedule; an entry for a piece that has no action is skipped.\<close>

fun pf_run :: "pf_env \<Rightarrow> nat list \<Rightarrow> pf_state \<Rightarrow> pf_state" where
  "pf_run e [] s = s"
| "pf_run e (i # is) s = pf_run e is (case pf_step e i s of None \<Rightarrow> s | Some s' \<Rightarrow> s')"

text \<open>\<open>Until\<close> returns when no piece can act any more: all have ended, or are not started because the context is cancelled.\<close>

definition pf_done :: "pf_env \<Rightarrow> pf_state \<Rightarrow> bool" where
  "pf_done e s \<longleftrightarrow> list_all (\<lambda>i. pf_step e i s = None) [0..<length (pv_nodes e)]"

section \<open>The invariant\<close>

definition slotted :: "phase \<Rightarrow> bool" where
  "slotted p = (case p of Slot _ \<Rightarrow> True | Filled _ \<Rightarrow> True | _ \<Rightarrow> False)"

definition slot_of :: "phase \<Rightarrow> nat" where
  "slot_of p = (case p of Slot k \<Rightarrow> k | Filled k \<Rightarrow> k | _ \<Rightarrow> 0)"

definition taken :: "pf_env \<Rightarrow> (nat \<Rightarrow> phase) \<Rightarrow> nat set" where
  "taken e ph = {i. i < length (pv_nodes e) \<and> slotted (ph i)}"

definition extra :: "pf_env \<Rightarrow> (nat \<Rightarrow> phase) \<Rightarrow> nat set" where
  "extra e ph = {i. i < length (pv_nodes e) \<and> (ph i = Over \<or> ph i = OverCancelled)}"

definition phase_ok :: "pf_env \<Rightarrow> pf_state \<Rightarrow> nat \<Rightarrow> bool" where
  "phase_ok e s i =
     (case pf_phase s i of
        Idle \<Rightarrow> True
      | Checking \<Rightarrow> True
      | ErrSent \<Rightarrow> status_Code (pv_check e i) = Error \<and> pf_err s \<noteq> None
      | Errored \<Rightarrow> status_Code (pv_check e i) = Error \<and> pf_err s \<noteq> None \<and> pf_cancelled s
      | Slot k \<Rightarrow> IsSuccess (pv_check e i) \<and> k < pv_num e
      | Filled k \<Rightarrow> IsSuccess (pv_check e i) \<and> k < pv_num e \<and> pf_feasible s ! k = Some (pv_nodes e ! i)
      | Over \<Rightarrow> IsSuccess (pv_check e i)
      | OverCancelled \<Rightarrow> IsSuccess (pv_check e i)
      | Dropped \<Rightarrow> IsSuccess (pv_check e i)
      | Failed \<Rightarrow> (\<exists>st. pv_check e i = Some st \<and> st_code st \<noteq> Success \<and> st_code st \<noteq> Error))"

definition slots_ok :: "pf_env \<Rightarrow> pf_state \<Rightarrow> bool" where
  "slots_ok e s \<longleftrightarrow>
     bij_betw (\<lambda>i. slot_of (pf_phase s i)) (taken e (pf_phase s)) {..<card (taken e (pf_phase s))} \<and>
     pf_len s = card (taken e (pf_phase s)) + card (extra e (pf_phase s)) \<and> card (taken e (pf_phase s)) \<le> pv_num e \<and>
     length (pf_feasible s) = pv_num e \<and>
     ((\<exists>i<length (pv_nodes e). pf_phase s i \<in> {Over, OverCancelled, Dropped}) \<longrightarrow> card (taken e (pf_phase s)) = pv_num e) \<and>
     (pf_cancelled s \<longrightarrow> pf_err s \<noteq> None \<or> card (taken e (pf_phase s)) = pv_num e)"

definition err_ok :: "pf_env \<Rightarrow> pf_state \<Rightarrow> bool" where
  "err_ok e s \<longleftrightarrow>
     (\<forall>err. pf_err s = Some err \<longrightarrow> (\<exists>i<length (pv_nodes e). status_Code (pv_check e i) = Error \<and> AsError (pv_check e i) = Some err))"

definition statuses_ok :: "pf_env \<Rightarrow> (string \<rightharpoonup> Status) \<Rightarrow> pf_state \<Rightarrow> bool" where
  "statuses_ok e statuses s \<longleftrightarrow>
     (\<forall>i<length (pv_nodes e). pf_phase s i = Failed \<longrightarrow> pf_statuses s (n_Name (pv_nodes e ! i)) = pv_check e i) \<and>
     (\<forall>name. (\<forall>i<length (pv_nodes e). pf_phase s i = Failed \<longrightarrow> n_Name (pv_nodes e ! i) \<noteq> name) \<longrightarrow> pf_statuses s name = statuses name)"

definition pf_inv :: "pf_env \<Rightarrow> (string \<rightharpoonup> Status) \<Rightarrow> pf_state \<Rightarrow> bool" where
  "pf_inv e statuses s \<longleftrightarrow> (\<forall>i<length (pv_nodes e). phase_ok e s i) \<and> slots_ok e s \<and> err_ok e s \<and> statuses_ok e statuses s"

lemma finite_pieces [simp]: "finite (taken e ph)" "finite (extra e ph)"
  by (simp_all add: taken_def extra_def)

lemma pieces_upd:
  assumes "i < length (pv_nodes e)"
  shows "taken e (ph(i := p)) = (if slotted p then insert i (taken e ph) else taken e ph - {i})"
    "extra e (ph(i := p)) = (if p = Over \<or> p = OverCancelled then insert i (extra e ph) else extra e ph - {i})"
  using assms by (auto simp: taken_def extra_def)

lemma set_phase_simps [simp]:
  "pf_phase (set_phase i p s) = (pf_phase s)(i := p)" "pf_len (set_phase i p s) = pf_len s" "pf_feasible (set_phase i p s) = pf_feasible s"
  "pf_statuses (set_phase i p s) = pf_statuses s" "pf_err (set_phase i p s) = pf_err s" "pf_cancelled (set_phase i p s) = pf_cancelled s"
  "pf_plugins (set_phase i p s) = pf_plugins s"
  by (simp_all add: set_phase_def)

lemma phase_simps [simp]:
  "slotted (Slot k)" "slotted (Filled k)" "\<not> slotted Idle" "\<not> slotted Checking" "\<not> slotted ErrSent" "\<not> slotted Over" "\<not> slotted OverCancelled"
  "\<not> slotted Dropped" "\<not> slotted Failed" "\<not> slotted Errored" "slot_of (Slot k) = k" "slot_of (Filled k) = k"
  by (simp_all add: slotted_def slot_of_def)

lemma pf_inv_init: "pf_inv e statuses (pf_init e statuses plugins)"
  by (simp add: pf_inv_def pf_init_def phase_ok_def slots_ok_def err_ok_def statuses_ok_def taken_def extra_def bij_betw_def)

text \<open>A change of a piece that neither takes nor leaves a slot keeps the slots.\<close>

lemma slots_keep:
  assumes s: "slots_ok e s" and i: "i < length (pv_nodes e)" and p: "\<not> slotted (pf_phase s i)" "\<not> slotted p"
  shows "bij_betw (\<lambda>j. slot_of (((pf_phase s)(i := p)) j)) (taken e ((pf_phase s)(i := p))) {..<card (taken e ((pf_phase s)(i := p)))}"
    "taken e ((pf_phase s)(i := p)) = taken e (pf_phase s)"
proof -
  have n: "i \<notin> taken e (pf_phase s)" using p by (simp add: taken_def)
  then show t: "taken e ((pf_phase s)(i := p)) = taken e (pf_phase s)" using pieces_upd(1) [OF i] p by simp
  have "bij_betw (\<lambda>j. slot_of (((pf_phase s)(i := p)) j)) (taken e (pf_phase s)) {..<card (taken e (pf_phase s))} \<longleftrightarrow>
      bij_betw (\<lambda>j. slot_of (pf_phase s j)) (taken e (pf_phase s)) {..<card (taken e (pf_phase s))}"
    by (rule bij_betw_cong) (use n in auto)
  then show "bij_betw (\<lambda>j. slot_of (((pf_phase s)(i := p)) j)) (taken e ((pf_phase s)(i := p))) {..<card (taken e ((pf_phase s)(i := p)))}"
    unfolding t using s by (simp add: slots_ok_def)
qed

text \<open>Taking the next free slot.\<close>

lemma slots_take:
  assumes s: "slots_ok e s" and i: "i < length (pv_nodes e)" "pf_phase s i = Checking" and l: "pf_len s + 1 \<le> pv_num e"
  shows "slots_ok e (set_phase i (Slot (pf_len s)) (s\<lparr>pf_len := pf_len s + 1\<rparr>))" "card (taken e (pf_phase s)) = pf_len s"
proof -
  let ?ph = "(pf_phase s)(i := Slot (pf_len s))"
  have ex: "extra e (pf_phase s) = {}"
  proof (rule ccontr)
    assume "extra e (pf_phase s) \<noteq> {}"
    then have "card (taken e (pf_phase s)) = pv_num e" using s unfolding slots_ok_def extra_def by blast
    then show False using l s by (simp add: slots_ok_def)
  qed
  then show len: "card (taken e (pf_phase s)) = pf_len s" using s by (simp add: slots_ok_def)
  have n: "i \<notin> taken e (pf_phase s)" using i by (simp add: taken_def)
  have t: "taken e ?ph = insert i (taken e (pf_phase s))" using pieces_upd(1) [OF i(1)] by simp
  have c: "card (taken e ?ph) = pf_len s + 1" using t n len by simp
  have "bij_betw (\<lambda>j. slot_of (pf_phase s j)) (taken e (pf_phase s)) {..<pf_len s}" using s len by (simp add: slots_ok_def)
  moreover have "bij_betw (\<lambda>j. slot_of (?ph j)) (taken e (pf_phase s)) {..<pf_len s} \<longleftrightarrow>
      bij_betw (\<lambda>j. slot_of (pf_phase s j)) (taken e (pf_phase s)) {..<pf_len s}"
    by (rule bij_betw_cong) (use n in auto)
  ultimately have "bij_betw (\<lambda>j. slot_of (?ph j)) (taken e (pf_phase s)) {..<pf_len s}" by blast
  then have "bij_betw (\<lambda>j. slot_of (?ph j)) (taken e (pf_phase s) \<union> {i}) ({..<pf_len s} \<union> {slot_of (?ph i)})"
    by (subst notIn_Un_bij_betw3 [symmetric]) (use n in auto)
  moreover have "{..<pf_len s} \<union> {slot_of (?ph i)} = {..<pf_len s + 1}" by auto
  moreover have "taken e (pf_phase s) \<union> {i} = taken e ?ph" using t by simp
  ultimately have "bij_betw (\<lambda>j. slot_of (?ph j)) (taken e ?ph) {..<pf_len s + 1}" by simp
  moreover have "extra e ?ph = {}" using pieces_upd(2) [OF i(1)] ex by simp
  moreover have "\<not> (\<exists>j<length (pv_nodes e). pf_phase s j \<in> {Over, OverCancelled, Dropped})"
    using s l len unfolding slots_ok_def by (metis Suc_eq_plus1 Suc_n_not_le_n)
  moreover have fl: "length (pf_feasible s) = pv_num e" using s by (simp add: slots_ok_def)
  moreover have "pf_cancelled s \<longrightarrow> pf_err s \<noteq> None" using s l len by (auto simp: slots_ok_def)
  ultimately show "slots_ok e (set_phase i (Slot (pf_len s)) (s\<lparr>pf_len := pf_len s + 1\<rparr>))"
    using fl l c unfolding slots_ok_def by (auto simp del: fun_upd_apply) (auto simp: fun_upd_apply split: if_splits)
qed

lemma slots_move:
  assumes s: "slots_ok e s" and i: "i < length (pv_nodes e)" "\<not> slotted (pf_phase s i)" "\<not> slotted p"
    and ph: "pf_phase s' = (pf_phase s)(i := p)" and fl: "length (pf_feasible s') = length (pf_feasible s)"
    and len: "pf_len s' = card (taken e (pf_phase s)) + card (extra e ((pf_phase s)(i := p)))"
    and over: "p \<in> {Over, OverCancelled, Dropped} \<Longrightarrow> card (taken e (pf_phase s)) = pv_num e"
    and canc: "pf_cancelled s' \<Longrightarrow> pf_err s' \<noteq> None \<or> card (taken e (pf_phase s)) = pv_num e"
  shows "slots_ok e s'"
proof -
  note k = slots_keep [OF s i]
  have c: "card (taken e (pf_phase s)) \<le> pv_num e" "length (pf_feasible s) = pv_num e"
    "(\<exists>i<length (pv_nodes e). pf_phase s i \<in> {Over, OverCancelled, Dropped}) \<longrightarrow> card (taken e (pf_phase s)) = pv_num e"
    using s by (simp_all add: slots_ok_def)
  have "(\<exists>j<length (pv_nodes e). ((pf_phase s)(i := p)) j \<in> {Over, OverCancelled, Dropped}) \<longrightarrow> card (taken e (pf_phase s)) = pv_num e"
    using c(3) over by (metis fun_upd_apply)
  then show ?thesis unfolding slots_ok_def ph k(2) using k(1) c(1,2) fl len canc unfolding k(2) by (intro conjI) simp_all
qed

lemma slots_fill:
  assumes s: "slots_ok e s" and i: "i < length (pv_nodes e)" "pf_phase s i = Slot k"
  shows "slots_ok e (set_phase i (Filled k) (s\<lparr>pf_feasible := (pf_feasible s)[k := v]\<rparr>))"
proof -
  let ?ph = "(pf_phase s)(i := Filled k)"
  have t: "taken e ?ph = taken e (pf_phase s)" using i by (auto simp: taken_def)
  have x: "extra e ?ph = extra e (pf_phase s)" using i by (auto simp: extra_def)
  have f: "(\<lambda>j. slot_of (?ph j)) = (\<lambda>j. slot_of (pf_phase s j))" using i by auto
  have "\<And>j. ?ph j \<in> {Over, OverCancelled, Dropped} \<longleftrightarrow> pf_phase s j \<in> {Over, OverCancelled, Dropped}" using i by auto
  then show ?thesis using s unfolding slots_ok_def set_phase_simps by (simp add: t x f del: fun_upd_apply)
qed

text \<open>What one action does, by the phase of its piece.\<close>

inductive piece_step :: "pf_env \<Rightarrow> nat \<Rightarrow> pf_state \<Rightarrow> pf_state \<Rightarrow> bool" for e i s where
  start: "pf_phase s i = Idle \<Longrightarrow> \<not> pf_cancelled s \<Longrightarrow> piece_step e i s (set_phase i Checking s)"
| errs: "pf_phase s i = Checking \<Longrightarrow> status_Code (pv_check e i) = Error \<Longrightarrow> AsError (pv_check e i) = Some err \<Longrightarrow>
    piece_step e i s (set_phase i ErrSent (s\<lparr>pf_err := SendError (pf_err s) err\<rparr>))"
| take_slot: "pf_phase s i = Checking \<Longrightarrow> IsSuccess (pv_check e i) \<Longrightarrow> pf_len s + 1 \<le> pv_num e \<Longrightarrow>
    piece_step e i s (set_phase i (Slot (pf_len s)) (s\<lparr>pf_len := pf_len s + 1\<rparr>))"
| exceed: "pf_phase s i = Checking \<Longrightarrow> IsSuccess (pv_check e i) \<Longrightarrow> pv_num e < pf_len s + 1 \<Longrightarrow>
    piece_step e i s (set_phase i Over (s\<lparr>pf_len := pf_len s + 1\<rparr>))"
| fails: "pf_phase s i = Checking \<Longrightarrow> pv_check e i = Some st \<Longrightarrow> st_code st \<noteq> Success \<Longrightarrow> st_code st \<noteq> Error \<Longrightarrow>
    piece_step e i s (set_phase i Failed
      (s\<lparr>pf_statuses := (pf_statuses s)(n_Name (pv_nodes e ! i) \<mapsto> st), pf_plugins := insert (st_failedPlugin st) (pf_plugins s)\<rparr>))"
| cancels: "pf_phase s i = ErrSent \<Longrightarrow> piece_step e i s (set_phase i Errored (s\<lparr>pf_cancelled := True\<rparr>))"
| fill: "pf_phase s i = Slot k \<Longrightarrow>
    piece_step e i s (set_phase i (Filled k) (s\<lparr>pf_feasible := (pf_feasible s)[k := Some (pv_nodes e ! i)]\<rparr>))"
| over: "pf_phase s i = Over \<Longrightarrow> piece_step e i s (set_phase i OverCancelled (s\<lparr>pf_cancelled := True\<rparr>))"
| give_back: "pf_phase s i = OverCancelled \<Longrightarrow> piece_step e i s (set_phase i Dropped (s\<lparr>pf_len := pf_len s - 1\<rparr>))"

lemma AsError_Error: "status_Code st = Error \<Longrightarrow> \<exists>err. AsError st = Some err"
  by (cases st) (auto simp: AsError_def status_Code_def IsSuccess_def split: option.splits)

lemma pf_step_piece:
  assumes "pf_step e i s = Some s'"
  shows "i < length (pv_nodes e)" "piece_step e i s s'"
proof -
  show i: "i < length (pv_nodes e)" using assms by (auto simp: pf_step_def split: if_splits)
  show "piece_step e i s s'"
  proof (cases "pf_phase s i = Checking")
    case True
    then show ?thesis
      using assms i AsError_Error [of "pv_check e i"] piece_step.take_slot [of s i e] piece_step.exceed [of s i e]
      by (auto simp: pf_step_def Let_def IsSuccess_def status_Code_def split: if_splits option.splits intro: piece_step.intros)
  next
    case False
    then show ?thesis using assms i piece_step.give_back [of s i e] by (auto simp: pf_step_def split: if_splits phase.splits intro: piece_step.intros)
  qed
qed

lemma slots_ok_step:
  assumes s: "slots_ok e s" and i: "i < length (pv_nodes e)" and ok: "phase_ok e s i" and st: "piece_step e i s s'"
  shows "slots_ok e s'"
  using st
proof cases
  case take_slot
  then show ?thesis using slots_take(1) [OF s i] by simp
next
  case (fill k)
  then show ?thesis using slots_fill [OF s i] by simp
next
  case exceed
  have "card (taken e (pf_phase s)) = pv_num e"
  proof (cases "extra e (pf_phase s) = {}")
    case True
    then show ?thesis using s exceed(4) by (simp add: slots_ok_def)
  next
    case False
    then show ?thesis using s unfolding slots_ok_def extra_def by blast
  qed
  moreover have "i \<notin> extra e (pf_phase s)" using exceed(2) by (simp add: extra_def)
  ultimately show ?thesis
    using s i exceed by (intro slots_move [OF s i, of Over]) (simp_all add: slots_ok_def pieces_upd(2))
next
  case over
  have "card (taken e (pf_phase s)) = pv_num e" using s i over(2) unfolding slots_ok_def by blast
  moreover have "insert i (extra e (pf_phase s)) = extra e (pf_phase s)" using i over(2) by (auto simp: extra_def)
  ultimately show ?thesis using s i over by (intro slots_move [OF s i, of OverCancelled]) (simp_all add: slots_ok_def pieces_upd(2))
next
  case give_back
  have "card (taken e (pf_phase s)) = pv_num e" using s i give_back(2) unfolding slots_ok_def by blast
  moreover have "card (extra e (pf_phase s)) = card (extra e (pf_phase s) - {i}) + 1"
    using i give_back(2) card_Suc_Diff1 [of "extra e (pf_phase s)" i] by (simp add: extra_def)
  ultimately show ?thesis using s i give_back by (intro slots_move [OF s i, of Dropped]) (simp_all add: slots_ok_def pieces_upd(2))
next
  case start
  then have "i \<notin> extra e (pf_phase s)" by (simp add: extra_def)
  then show ?thesis using s i start by (intro slots_move [OF s i, of Checking]) (simp_all add: slots_ok_def pieces_upd(2))
next
  case (errs err)
  then have "i \<notin> extra e (pf_phase s)" by (simp add: extra_def)
  then show ?thesis
    using s i errs by (intro slots_move [OF s i, of ErrSent]) (simp_all add: slots_ok_def pieces_upd(2) SendError_def split: option.splits)
next
  case (fails st)
  then have "i \<notin> extra e (pf_phase s)" by (simp add: extra_def)
  then show ?thesis using s i fails by (intro slots_move [OF s i, of Failed]) (simp_all add: slots_ok_def pieces_upd(2))
next
  case cancels
  then have "i \<notin> extra e (pf_phase s)" by (simp add: extra_def)
  then show ?thesis using s i cancels ok by (intro slots_move [OF s i, of Errored]) (simp_all add: slots_ok_def pieces_upd(2) phase_ok_def)
qed

lemma slot_inj:
  assumes "slots_ok e s" "i < length (pv_nodes e)" "j < length (pv_nodes e)" "slotted (pf_phase s i)" "slotted (pf_phase s j)"
    "slot_of (pf_phase s i) = slot_of (pf_phase s j)"
  shows "i = j"
  using assms unfolding slots_ok_def bij_betw_def inj_on_def taken_def by blast

lemma piece_step_monotone:
  assumes "piece_step e i s s'"
  shows "pf_err s \<noteq> None \<Longrightarrow> pf_err s' \<noteq> None" "pf_cancelled s \<Longrightarrow> pf_cancelled s'" "j \<noteq> i \<Longrightarrow> pf_phase s' j = pf_phase s j"
  using assms by (cases; auto simp: SendError_def split: option.splits)+

lemma phase_ok_step:
  assumes sl: "slots_ok e s" and i: "i < length (pv_nodes e)" and ok: "phase_ok e s i" and st: "piece_step e i s s'"
  shows "phase_ok e s' i"
  using st
proof cases
  case (fill k)
  then show ?thesis using ok sl by (simp add: phase_ok_def slots_ok_def)
next
  case (errs err)
  then show ?thesis by (simp add: phase_ok_def SendError_def split: option.splits)
qed (use ok in \<open>simp_all add: phase_ok_def\<close>)

lemma phase_ok_other:
  assumes sl: "slots_ok e s" and i: "i < length (pv_nodes e)" and j: "j < length (pv_nodes e)" "j \<noteq> i" and ok: "phase_ok e s j"
    and st: "piece_step e i s s'"
  shows "phase_ok e s' j"
proof -
  have "pf_feasible s' ! k = pf_feasible s ! k" if k: "pf_phase s j = Filled k" for k
    using st
  proof cases
    case (fill k')
    then have "k' \<noteq> k" using slot_inj [OF sl i j(1)] j(2) k by auto
    then show ?thesis using fill by simp
  qed simp_all
  then show ?thesis using ok piece_step_monotone [OF st] j(2) by (auto simp: phase_ok_def split: phase.splits)
qed

lemma err_ok_step: "err_ok e s \<Longrightarrow> i < length (pv_nodes e) \<Longrightarrow> piece_step e i s s' \<Longrightarrow> err_ok e s'"
  by (erule piece_step.cases) (auto simp: err_ok_def SendError_def split: option.splits)

lemma statuses_ok_step:
  assumes d: "distinct (map n_Name (pv_nodes e))" and s: "statuses_ok e statuses s" and i: "i < length (pv_nodes e)" and st: "piece_step e i s s'"
  shows "statuses_ok e statuses s'"
proof -
  have keep: "statuses_ok e statuses s'"
    if "pf_statuses s' = pf_statuses s" "pf_phase s' = (pf_phase s)(i := pf_phase s' i)" "pf_phase s i \<noteq> Failed" "pf_phase s' i \<noteq> Failed"
    using s that(1,3,4) fun_cong [OF that(2)] unfolding statuses_ok_def by (metis fun_upd_other)
  show ?thesis
    using st
  proof cases
    case (fails st)
    have n: "n_Name (pv_nodes e ! j) \<noteq> n_Name (pv_nodes e ! i)" if "j < length (pv_nodes e)" "j \<noteq> i" for j
      using d i that nth_eq_iff_index_eq [OF d, of j i] by simp
    have "\<And>j. j < length (pv_nodes e) \<Longrightarrow> pf_phase s' j = Failed \<Longrightarrow> pf_statuses s' (n_Name (pv_nodes e ! j)) = pv_check e j"
      using s n fails by (auto simp: statuses_ok_def split: if_splits)
    moreover have "\<And>name. (\<forall>j<length (pv_nodes e). pf_phase s' j = Failed \<longrightarrow> n_Name (pv_nodes e ! j) \<noteq> name) \<Longrightarrow> pf_statuses s' name = statuses name"
      using s i fails by (auto simp: statuses_ok_def split: if_splits)
    ultimately show ?thesis by (simp add: statuses_ok_def)
  qed (rule keep; simp)+
qed

lemma pf_inv_step:
  assumes "distinct (map n_Name (pv_nodes e))" "pf_inv e statuses s" "pf_step e i s = Some s'"
  shows "pf_inv e statuses s'"
proof -
  note p = pf_step_piece [OF assms(3)]
  have j: "phase_ok e s' j" if "j < length (pv_nodes e)" for j
    using assms(2) phase_ok_step [OF _ p(1) _ p(2)] phase_ok_other [OF _ p(1) that _ _ p(2)] that by (cases "j = i") (auto simp: pf_inv_def)
  show ?thesis
    using assms(2) j slots_ok_step [OF _ p(1) _ p(2)] err_ok_step [OF _ p] statuses_ok_step [OF assms(1) _ p] p(1) by (auto simp: pf_inv_def)
qed

lemma pf_inv_phase: "pf_inv e statuses s \<Longrightarrow> i < length (pv_nodes e) \<Longrightarrow> phase_ok e s i"
  by (simp add: pf_inv_def)

lemma pf_inv_run: "distinct (map n_Name (pv_nodes e)) \<Longrightarrow> pf_inv e statuses s \<Longrightarrow> pf_inv e statuses (pf_run e sched s)"
  by (induction sched arbitrary: s) (auto split: option.splits intro: pf_inv_step)

section \<open>The result of the search\<close>

definition passing :: "pf_env \<Rightarrow> node set" where
  "passing e = set (map (\<lambda>i. pv_nodes e ! i) (filter (\<lambda>i. IsSuccess (pv_check e i)) [0..<length (pv_nodes e)]))"

lemma done_phases:
  assumes "pf_done e s" "i < length (pv_nodes e)"
  shows "(pf_phase s i = Idle \<and> pf_cancelled s) \<or> (\<exists>k. pf_phase s i = Filled k) \<or> pf_phase s i \<in> {Dropped, Failed, Errored}"
proof -
  have "pf_step e i s = None" using assms by (simp add: pf_done_def list_all_iff)
  then show ?thesis using assms(2)
    by (auto simp: pf_step_def Let_def IsSuccess_def status_Code_def split: if_splits phase.splits option.splits)
qed

text \<open>When the search is over and found no error, the slots up to the count are written, each by a piece of its own.\<close>

lemma done_slots:
  assumes inv: "pf_inv e statuses s" and over: "pf_done e s" and ok: "pf_err s = None"
  shows "pf_len s = card (taken e (pf_phase s))" "pf_len s \<le> pv_num e"
    "k < pf_len s \<Longrightarrow> \<exists>i<length (pv_nodes e). pf_phase s i = Filled k \<and> IsSuccess (pv_check e i) \<and> pf_feasible s ! k = Some (pv_nodes e ! i)"
    "i < length (pv_nodes e) \<Longrightarrow> pf_phase s i = Filled j \<Longrightarrow> j < pf_len s \<and> pf_feasible s ! j = Some (pv_nodes e ! i)"
proof -
  have sl: "slots_ok e s" using inv by (simp add: pf_inv_def)
  have "extra e (pf_phase s) = {}" using done_phases [OF over] by (fastforce simp: extra_def)
  then show len: "pf_len s = card (taken e (pf_phase s))" using sl by (simp add: slots_ok_def)
  then show "pf_len s \<le> pv_num e" using sl by (simp add: slots_ok_def)
  have img: "(\<lambda>i. slot_of (pf_phase s i)) ` taken e (pf_phase s) = {..<pf_len s}" using sl len by (simp add: slots_ok_def bij_betw_def)
  show "\<exists>i<length (pv_nodes e). pf_phase s i = Filled k \<and> IsSuccess (pv_check e i) \<and> pf_feasible s ! k = Some (pv_nodes e ! i)" if k: "k < pf_len s"
  proof -
    have "k \<in> (\<lambda>i. slot_of (pf_phase s i)) ` taken e (pf_phase s)" using k img by simp
    then obtain i where i: "i < length (pv_nodes e)" "slotted (pf_phase s i)" "slot_of (pf_phase s i) = k" by (auto simp: taken_def)
    then have "pf_phase s i = Filled k" using done_phases [OF over i(1)] by auto
    then show ?thesis using pf_inv_phase [OF inv i(1)] i by (intro exI [of _ i]) (simp add: phase_ok_def)
  qed
  show "j < pf_len s \<and> pf_feasible s ! j = Some (pv_nodes e ! i)" if i: "i < length (pv_nodes e)" "pf_phase s i = Filled j"
  proof -
    have "i \<in> taken e (pf_phase s)" using i by (simp add: taken_def)
    then have "slot_of (pf_phase s i) \<in> {..<pf_len s}" unfolding img [symmetric] by (rule imageI)
    then show ?thesis using pf_inv_phase [OF inv i(1)] i by (simp add: phase_ok_def)
  qed
qed

lemma done_complete:
  assumes inv: "pf_inv e statuses s" and over: "pf_done e s" and ok: "pf_err s = None" and few: "pf_len s < pv_num e" and i: "i < length (pv_nodes e)"
  shows "if IsSuccess (pv_check e i) then \<exists>k. pf_phase s i = Filled k else pf_phase s i = Failed"
proof -
  have c: "card (taken e (pf_phase s)) \<noteq> pv_num e" using done_slots(1) [OF inv over ok] few by simp
  then have nc: "\<not> pf_cancelled s" using inv ok by (auto simp: pf_inv_def slots_ok_def)
  have nd: "pf_phase s i \<noteq> Dropped" using inv c i by (auto simp: pf_inv_def slots_ok_def)
  have ne: "pf_phase s i \<noteq> Errored" using pf_inv_phase [OF inv i] ok by (auto simp: phase_ok_def)
  then show ?thesis using done_phases [OF over i] nc nd pf_inv_phase [OF inv i] by (auto simp: phase_ok_def IsSuccess_def status_Code_def)
qed

lemma done_feasible:
  assumes d: "distinct (map n_Name (pv_nodes e))" and inv: "pf_inv e statuses s" and over: "pf_done e s" and ok: "pf_err s = None"
  defines "ns \<equiv> map the (take (pf_len s) (pf_feasible s))"
  shows "take (pf_len s) (pf_feasible s) = map Some ns" "distinct ns" "set ns \<subseteq> passing e" "length ns = pf_len s"
    "pf_len s < pv_num e \<Longrightarrow> passing e \<subseteq> set ns"
proof -
  note r = done_slots [OF inv over ok]
  have fl: "length (pf_feasible s) = pv_num e" using inv by (simp add: pf_inv_def slots_ok_def)
  then show len: "length ns = pf_len s" using r(2) by (simp add: ns_def)
  have nth: "ns ! k = the (pf_feasible s ! k)" if "k < pf_len s" for k using that fl r(2) by (simp add: ns_def)
  have n: "\<exists>i<length (pv_nodes e). pf_phase s i = Filled k \<and> IsSuccess (pv_check e i) \<and> ns ! k = pv_nodes e ! i \<and> pf_feasible s ! k = Some (ns ! k)"
    if k: "k < pf_len s" for k using r(3) [OF k] nth [OF k] by force
  have "pf_feasible s ! k = Some (ns ! k)" if "k < pf_len s" for k using n [OF that] by blast
  then show "take (pf_len s) (pf_feasible s) = map Some ns" using len fl r(2) by (intro nth_equalityI) simp_all
  have dn: "distinct (pv_nodes e)" using d by (simp add: distinct_map)
  show "distinct ns"
    unfolding distinct_conv_nth len
  proof (intro allI impI)
    fix j k assume j: "j < pf_len s" and k: "k < pf_len s" and jk: "j \<noteq> k"
    obtain a where a: "a < length (pv_nodes e)" "pf_phase s a = Filled j" "ns ! j = pv_nodes e ! a" using n [OF j] by blast
    obtain b where b: "b < length (pv_nodes e)" "pf_phase s b = Filled k" "ns ! k = pv_nodes e ! b" using n [OF k] by blast
    have "a \<noteq> b" using a(2) b(2) jk by auto
    then show "ns ! j \<noteq> ns ! k" using a b dn by (simp add: nth_eq_iff_index_eq)
  qed
  show "set ns \<subseteq> passing e"
  proof
    fix x assume "x \<in> set ns"
    then obtain k where k: "k < pf_len s" "x = ns ! k" using len by (metis in_set_conv_nth)
    then show "x \<in> passing e" using n [OF k(1)] by (auto simp: passing_def)
  qed
  show "passing e \<subseteq> set ns" if few: "pf_len s < pv_num e"
  proof
    fix x assume "x \<in> passing e"
    then obtain i where i: "i < length (pv_nodes e)" "IsSuccess (pv_check e i)" "x = pv_nodes e ! i" by (auto simp: passing_def)
    then obtain k where "pf_phase s i = Filled k" using done_complete [OF inv over ok few i(1)] by auto
    then have "k < pf_len s" "pf_feasible s ! k = Some x" using r(4) [OF i(1)] i(3) by auto
    then show "x \<in> set ns" using nth [of k] len by (metis nth_mem option.sel)
  qed
qed

section \<open>The search ends\<close>

definition rank :: "phase \<Rightarrow> nat" where
  "rank p = (case p of Idle \<Rightarrow> 4 | Checking \<Rightarrow> 3 | Over \<Rightarrow> 2 | ErrSent \<Rightarrow> 1 | Slot _ \<Rightarrow> 1 | OverCancelled \<Rightarrow> 1 | _ \<Rightarrow> 0)"

lemma rank_step: "piece_step e i s s' \<Longrightarrow> rank (pf_phase s' i) < rank (pf_phase s i)"
  by (erule piece_step.cases) (simp_all add: rank_def)

lemma pf_run_append: "pf_run e (xs @ ys) s = pf_run e ys (pf_run e xs s)"
  by (induction xs arbitrary: s) simp_all

text \<open>A piece without an action has none later: it has ended, or the context stays cancelled.\<close>

lemma stuck_stays:
  assumes "pf_step e i s = None"
  shows "pf_step e i (pf_run e sched s) = None"
  using assms
proof (induction sched arbitrary: s)
  case (Cons j sched)
  have "pf_step e i s' = None" if j: "pf_step e j s = Some s'" for s'
  proof -
    note p = pf_step_piece [OF j]
    have "j \<noteq> i" using j Cons.prems by auto
    then have "pf_phase s' i = pf_phase s i" using piece_step_monotone(3) [OF p(2)] by simp
    then show ?thesis using Cons.prems piece_step_monotone(2) [OF p(2)]
      by (auto simp: pf_step_def Let_def split: if_splits phase.splits option.splits)
  qed
  then show ?case using Cons by (auto split: option.splits)
qed simp

lemma rank_run: "rank (pf_phase (pf_run e sched s) i) \<le> rank (pf_phase s i)"
proof (induction sched arbitrary: s)
  case (Cons j sched)
  have "rank (pf_phase s' i) \<le> rank (pf_phase s i)" if j: "pf_step e j s = Some s'" for s'
  proof (cases "j = i")
    case True
    then show ?thesis using rank_step [OF pf_step_piece(2) [OF j]] by simp
  next
    case False
    then show ?thesis using piece_step_monotone(3) [OF pf_step_piece(2) [OF j]] by simp
  qed
  then show ?case using Cons by (cases "pf_step e j s") (auto intro: order_trans)
qed simp

lemma rank_zero_stuck: "rank (pf_phase s i) = 0 \<Longrightarrow> pf_step e i s = None"
  by (auto simp: rank_def pf_step_def split: phase.splits)

lemma round_progress:
  assumes "i \<in> set is"
  shows "pf_step e i (pf_run e is s) = None \<or> rank (pf_phase (pf_run e is s) i) < rank (pf_phase s i)"
proof -
  obtain xs ys where sp: "is = xs @ i # ys" using assms by (meson split_list)
  let ?t = "pf_run e xs s"
  show ?thesis
  proof (cases "pf_step e i ?t")
    case None
    then show ?thesis using stuck_stays [OF None, of "i # ys"] by (simp add: sp pf_run_append)
  next
    case (Some t')
    then show ?thesis using rank_step [OF pf_step_piece(2) [OF Some]] rank_run [of e ys t' i] rank_run [of e xs s i] Some by (simp add: sp pf_run_append)
  qed
qed

lemma rounds_progress:
  assumes "i \<in> set is"
  shows "pf_step e i (pf_run e (concat (replicate k is)) s) = None \<or> rank (pf_phase (pf_run e (concat (replicate k is)) s) i) + k \<le> rank (pf_phase s i)"
proof (induction k arbitrary: s)
  case (Suc k)
  let ?t = "pf_run e is s"
  show ?case
  proof (cases "pf_step e i ?t = None")
    case True
    then show ?thesis using stuck_stays [OF True] by (simp add: pf_run_append)
  next
    case False
    then show ?thesis using round_progress [OF assms, of e s] Suc [of ?t] by (auto simp: pf_run_append)
  qed
qed simp

text \<open>The search along a schedule, completed by letting all pieces act in turn, four times: every list is the beginning of a complete schedule, and a complete schedule
  is not changed by the completion.\<close>

definition pf_search :: "pf_env \<Rightarrow> nat list \<Rightarrow> pf_state \<Rightarrow> pf_state" where
  "pf_search e sched s = pf_run e (sched @ concat (replicate 4 [0..<length (pv_nodes e)])) s"

lemma rank_le_4: "rank p \<le> 4"
  by (cases p) (simp_all add: rank_def)

lemma pf_search_done: "pf_done e (pf_search e sched s)"
proof -
  have "pf_step e i (pf_run e (concat (replicate 4 [0..<length (pv_nodes e)])) t) = None" if "i < length (pv_nodes e)" for i t
    using rounds_progress [of i "[0..<length (pv_nodes e)]" e 4 t] rank_le_4 [of "pf_phase t i"] rank_zero_stuck that by force
  then show ?thesis by (simp add: pf_done_def list_all_iff pf_search_def pf_run_append)
qed

lemma done_run: "pf_done e s \<Longrightarrow> pf_run e sched s = s"
proof (induction sched)
  case (Cons i sched)
  have "pf_step e i s = None"
    using Cons.prems by (cases "i < length (pv_nodes e)") (auto simp: pf_done_def list_all_iff pf_step_def)
  then show ?case using Cons by simp
qed simp

lemma pf_search_complete: "pf_done e (pf_run e sched s) \<Longrightarrow> pf_search e sched s = pf_run e sched s"
  by (simp add: pf_search_def pf_run_append done_run)

lemma pf_search_inv: "distinct (map n_Name (pv_nodes e)) \<Longrightarrow> pf_inv e statuses (pf_search e sched (pf_init e statuses plugins))"
  unfolding pf_search_def by (intro pf_inv_run pf_inv_init)

end
