(* ===== verification/Filter_Plugins.thy ===== *)
theory Filter_Plugins
  imports Framework_Status
begin

text \<open>
  The filter plugins of the scheduler that decide from the pod and the node alone
  (\<open>pkg/scheduler/framework/plugins\<close>): \<open>nodename\<close>, \<open>nodeunschedulable\<close>, \<open>tainttoleration\<close>, \<open>nodeaffinity\<close>,
  \<open>nodeports\<close> and \<open>noderesources/fit.go\<close>, with the tolerations of \<open>api/core/v1/toleration.go\<close> and
  \<open>component-helpers/scheduling/corev1/helpers.go\<close>.

  A plugin returns an optional status. The node information that the framework passes is never a nil pointer, but the node in it may be.
  The context argument is left out, and so are the arguments of a constructor that only carry the handle. Resource amounts are 64-bit words that
  are compared as signed integers.
\<close>

section \<open>Taints and tolerations\<close>

definition MatchToleration :: "Toleration \<Rightarrow> Toleration \<Rightarrow> bool" where
  "MatchToleration t tolerationToMatch \<longleftrightarrow>
     to_Key t = to_Key tolerationToMatch \<and> to_Effect t = to_Effect tolerationToMatch \<and>
     to_Operator t = to_Operator tolerationToMatch \<and> to_Value t = to_Value tolerationToMatch"

definition ToleratesTaint :: "Toleration \<Rightarrow> Taint \<Rightarrow> bool" where
  "ToleratesTaint t taint =
     (if length (to_Effect t) > 0 \<and> to_Effect t \<noteq> ta_Effect taint then False
      else if length (to_Key t) > 0 \<and> to_Key t \<noteq> ta_Key taint then False
      else if to_Operator t = [] \<or> to_Operator t = ''Equal'' then to_Value t = ta_Value taint
      else if to_Operator t = ''Exists'' then True
      else False)"

definition TolerationsTolerateTaint :: "Toleration list \<Rightarrow> Taint \<Rightarrow> bool" where
  "TolerationsTolerateTaint tolerations taint = list_ex (\<lambda>t. ToleratesTaint t taint) tolerations"

definition getFilteredTaints :: "Taint list \<Rightarrow> (Taint \<Rightarrow> bool) option \<Rightarrow> Taint list" where
  "getFilteredTaints taints inclusionFilter =
     (case inclusionFilter of None \<Rightarrow> taints | Some f \<Rightarrow> filter f taints)"

text \<open>The returned flag is the presence of a taint.\<close>

definition FindMatchingUntoleratedTaint :: "Taint list \<Rightarrow> Toleration list \<Rightarrow> (Taint \<Rightarrow> bool) option \<Rightarrow> Taint option" where
  "FindMatchingUntoleratedTaint taints tolerations inclusionFilter =
     List.find (\<lambda>taint. \<not> TolerationsTolerateTaint tolerations taint) (getFilteredTaints taints inclusionFilter)"

section \<open>NodeName\<close>

definition NodeName_Fits :: "pod \<Rightarrow> node \<Rightarrow> bool" where
  "NodeName_Fits pod node \<longleftrightarrow> length (p_NodeName pod) = 0 \<or> p_NodeName pod = n_Name node"

definition NodeName_Filter :: "CycleState \<Rightarrow> pod \<Rightarrow> NodeInfo \<Rightarrow> Status option" where
  "NodeName_Filter state pod nodeInfo =
     (case ni_node nodeInfo of
        None \<Rightarrow> Some (NewStatus Error [''node not found''])
      | Some node \<Rightarrow>
          (if \<not> NodeName_Fits pod node
           then Some (NewStatus UnschedulableAndUnresolvable [''node(s) didn't match the requested node name''])
           else None))"

section \<open>NodeUnschedulable\<close>

definition unschedulable_taint :: Taint where
  "unschedulable_taint = \<lparr>ta_Key = ''node.kubernetes.io/unschedulable'', ta_Value = [], ta_Effect = ''NoSchedule''\<rparr>"

definition NodeUnschedulable_Filter :: "CycleState \<Rightarrow> pod \<Rightarrow> NodeInfo \<Rightarrow> Status option" where
  "NodeUnschedulable_Filter state pod nodeInfo =
     (case ni_node nodeInfo of
        None \<Rightarrow> Some (NewStatus UnschedulableAndUnresolvable [''node(s) had unknown conditions''])
      | Some node \<Rightarrow>
          (let podToleratesUnschedulable = TolerationsTolerateTaint (p_Tolerations pod) unschedulable_taint in
           if n_Unschedulable node \<and> \<not> podToleratesUnschedulable
           then Some (NewStatus UnschedulableAndUnresolvable [''node(s) were unschedulable''])
           else None))"

section \<open>TaintToleration\<close>

definition filterPredicate :: "Taint \<Rightarrow> bool" where
  "filterPredicate t \<longleftrightarrow> ta_Effect t = ''NoSchedule'' \<or> ta_Effect t = ''NoExecute''"

definition TaintToleration_Filter :: "CycleState \<Rightarrow> pod \<Rightarrow> NodeInfo \<Rightarrow> Status option" where
  "TaintToleration_Filter state pod nodeInfo =
     (case ni_node nodeInfo of
        None \<Rightarrow> Some (AsStatus (Errorf ''invalid nodeInfo''))
      | Some node \<Rightarrow>
          (case FindMatchingUntoleratedTaint (n_Taints node) (p_Tolerations pod) (Some filterPredicate) of
             None \<Rightarrow> None
           | Some taint \<Rightarrow>
               Some (NewStatus UnschedulableAndUnresolvable
                 [''node(s) had taint {'' @ ta_Key taint @ '': '' @ ta_Value taint @ ''}, that the pod didn't tolerate''])))"

section \<open>NodeAffinity\<close>

record NodeAffinity =
  naf_addedNodeSelector :: "LazyErrorNodeSelector option"
  naf_addedPrefSchedTerms :: "preferredSchedulingTerm list option"

text \<open>The constructor parses the affinity that the configuration adds; the argument is the validated configuration.\<close>

definition NodeAffinity_New :: "go_orders \<Rightarrow> nodeAffinity option \<Rightarrow> go_error list + NodeAffinity" where
  "NodeAffinity_New go addedAffinity =
     (case addedAffinity of
        None \<Rightarrow> Inr \<lparr>naf_addedNodeSelector = None, naf_addedPrefSchedTerms = None\<rparr>
      | Some aff \<Rightarrow>
          (case (case na_Required aff of None \<Rightarrow> Inr None
                 | Some ns \<Rightarrow> (case NewNodeSelector (go_sort go) ns of Inl errs \<Rightarrow> Inl errs | Inr sel \<Rightarrow> Inr (Some sel))) of
             Inl errs \<Rightarrow> Inl errs
           | Inr addedNodeSelector \<Rightarrow>
               (if length (na_Preferred aff) \<noteq> 0 then
                  (case NewPreferredSchedulingTerms (go_sort go) (na_Preferred aff) of
                     Inl errs \<Rightarrow> Inl errs
                   | Inr terms \<Rightarrow> Inr \<lparr>naf_addedNodeSelector = addedNodeSelector, naf_addedPrefSchedTerms = Some terms\<rparr>)
                else Inr \<lparr>naf_addedNodeSelector = addedNodeSelector, naf_addedPrefSchedTerms = None\<rparr>)))"

abbreviation NodeAffinity_key :: string where
  "NodeAffinity_key \<equiv> ''PreFilterNodeAffinity''"

definition NodeAffinity_PreFilter :: "go_orders \<Rightarrow> CycleState \<Rightarrow> pod \<Rightarrow> CycleState \<times> Status option" where
  "NodeAffinity_PreFilter go cycleState pod =
     (cs_Write cycleState NodeAffinity_key (NodeAffinityState (GetRequiredNodeAffinity go pod)), None)"

definition NodeAffinity_getPreFilterState :: "CycleState \<Rightarrow> go_error + RequiredNodeAffinity" where
  "NodeAffinity_getPreFilterState cycleState =
     (case cs_Read cycleState NodeAffinity_key of
        Inl err \<Rightarrow> Inl (Wrapf ''reading from cycleState'' err)
      | Inr (NodeAffinityState s) \<Rightarrow> Inr s
      | Inr _ \<Rightarrow> Inl (Errorf ''invalid PreFilter state''))"

definition NodeAffinity_Filter :: "go_orders \<Rightarrow> NodeAffinity \<Rightarrow> CycleState \<Rightarrow> pod \<Rightarrow> NodeInfo \<Rightarrow> Status option" where
  "NodeAffinity_Filter go pl state pod nodeInfo =
     (case ni_node nodeInfo of
        None \<Rightarrow> Some (NewStatus Error [''node not found''])
      | Some node \<Rightarrow>
          (if (case naf_addedNodeSelector pl of None \<Rightarrow> False | Some ns \<Rightarrow> \<not> NodeSelector_Match ns (Some node))
           then Some (NewStatus UnschedulableAndUnresolvable [''node(s) didn't match scheduler-enforced node affinity''])
           else
             let s = (case NodeAffinity_getPreFilterState state of Inl _ \<Rightarrow> GetRequiredNodeAffinity go pod | Inr s \<Rightarrow> s);
                 (match, _) = RequiredNodeAffinity_Match s node in
             if \<not> match then Some (NewStatus UnschedulableAndUnresolvable [''node(s) didn't match Pod's node affinity/selector''])
             else None))"

section \<open>NodePorts\<close>

abbreviation NodePorts_key :: string where
  "NodePorts_key \<equiv> ''PreFilterNodePorts''"

definition getContainerPorts :: "pod list \<Rightarrow> containerPort list" where
  "getContainerPorts pods = concat (map (\<lambda>pod. concat (map co_Ports (p_Containers pod))) pods)"

definition NodePorts_PreFilter :: "CycleState \<Rightarrow> pod \<Rightarrow> CycleState \<times> Status option" where
  "NodePorts_PreFilter cycleState pod = (cs_Write cycleState NodePorts_key (PortsState (getContainerPorts [pod])), None)"

definition NodePorts_getPreFilterState :: "CycleState \<Rightarrow> go_error + containerPort list" where
  "NodePorts_getPreFilterState cycleState =
     (case cs_Read cycleState NodePorts_key of
        Inl err \<Rightarrow> Inl (Wrapf ''reading from cycleState'' err)
      | Inr (PortsState s) \<Rightarrow> Inr s
      | Inr _ \<Rightarrow> Inl (Errorf ''convert to nodeports.preFilterState error''))"

definition fitsPorts :: "sched_orders \<Rightarrow> containerPort list \<Rightarrow> NodeInfo \<Rightarrow> bool" where
  "fitsPorts so wantPorts nodeInfo =
     (let existingPorts = ni_UsedPorts nodeInfo in
      \<not> list_ex (\<lambda>cp. CheckConflict (so_ports so existingPorts) existingPorts (cp_HostIP cp) (cp_Protocol cp) (cp_HostPort cp)) wantPorts)"

definition NodePorts_Fits :: "sched_orders \<Rightarrow> pod \<Rightarrow> NodeInfo \<Rightarrow> bool" where
  "NodePorts_Fits so pod nodeInfo = fitsPorts so (getContainerPorts [pod]) nodeInfo"

definition NodePorts_Filter :: "sched_orders \<Rightarrow> CycleState \<Rightarrow> pod \<Rightarrow> NodeInfo \<Rightarrow> Status option" where
  "NodePorts_Filter so cycleState pod nodeInfo =
     (case NodePorts_getPreFilterState cycleState of
        Inl err \<Rightarrow> Some (AsStatus err)
      | Inr wantPorts \<Rightarrow>
          (if \<not> fitsPorts so wantPorts nodeInfo
           then Some (NewStatus Unschedulable [''node(s) didn't have free ports for the requested pod ports''])
           else None))"

section \<open>NodeResourcesFit\<close>

record Fit =
  fit_ignoredResources :: "string set"
  fit_ignoredResourceGroups :: "string set"

record InsufficientResource =
  ir_ResourceName :: string
  ir_Reason :: string
  ir_Requested :: "64 word"
  ir_Used :: "64 word"
  ir_Capacity :: "64 word"

abbreviation Fit_key :: string where
  "Fit_key \<equiv> ''PreFilterNodeResourcesFit''"

text \<open>The configuration's lists are checked label names, and a group has no slash; only whether a check fails matters here.\<close>

definition validateFitArgs :: "string list \<Rightarrow> string list \<Rightarrow> go_error list" where
  "validateFitArgs ignoredResources ignoredResourceGroups =
     concat (map (\<lambda>res. map Errorf (IsQualifiedName res)) ignoredResources) @
     concat (map (\<lambda>group.
         (if Contains group ''/'' then [Errorf ''resource group name can't contain /''] else []) @
         map Errorf (IsQualifiedName group)) ignoredResourceGroups)"

definition NewFit :: "string list \<Rightarrow> string list \<Rightarrow> go_error list + Fit" where
  "NewFit ignoredResources ignoredResourceGroups =
     (let errs = validateFitArgs ignoredResources ignoredResourceGroups in
      if errs \<noteq> [] then Inl errs
      else Inr \<lparr>fit_ignoredResources = set ignoredResources, fit_ignoredResourceGroups = set ignoredResourceGroups\<rparr>)"

definition computePodResourceRequest :: "feature_gates \<Rightarrow> pod \<Rightarrow> Resource" where
  "computePodResourceRequest g pod =
     (let r1 = foldl (\<lambda>r c. Resource_Add g r (co_Requests c)) zero_Resource (p_Containers pod);
          r2 = foldl (\<lambda>r c. SetMaxResource g r (co_Requests c)) r1 (p_InitContainers pod) in
      case p_Overhead pod of
        None \<Rightarrow> r2
      | Some overhead \<Rightarrow> (if PodOverhead g then Resource_Add g r2 overhead else r2))"

definition Fit_PreFilter :: "feature_gates \<Rightarrow> CycleState \<Rightarrow> pod \<Rightarrow> CycleState \<times> Status option" where
  "Fit_PreFilter g cycleState pod = (cs_Write cycleState Fit_key (FitState (computePodResourceRequest g pod)), None)"

definition Fit_getPreFilterState :: "CycleState \<Rightarrow> go_error + Resource" where
  "Fit_getPreFilterState cycleState =
     (case cs_Read cycleState Fit_key of
        Inl err \<Rightarrow> Inl (Wrapf ''error reading from cycleState'' err)
      | Inr (FitState s) \<Rightarrow> Inr s
      | Inr _ \<Rightarrow> Inl (Errorf ''convert to NodeResourcesFit.preFilterState error''))"

definition Fit_EventsToRegister :: "ClusterEvent list" where
  "Fit_EventsToRegister =
     [\<lparr>ce_Resource = ''Pod'', ce_ActionType = ActionDelete\<rparr>,
      \<lparr>ce_Resource = ''Node'', ce_ActionType = or ActionAdd UpdateNodeAllocatable\<rparr>]"

definition insufficient :: "string \<Rightarrow> string \<Rightarrow> 64 word \<Rightarrow> 64 word \<Rightarrow> 64 word \<Rightarrow> InsufficientResource list" where
  "insufficient name reason requested used capacity =
     (if sint requested > sint (capacity - used)
      then [\<lparr>ir_ResourceName = name, ir_Reason = reason, ir_Requested = requested, ir_Used = used, ir_Capacity = capacity\<rparr>]
      else [])"

definition ignored_resource :: "string set \<Rightarrow> string set \<Rightarrow> string \<Rightarrow> bool" where
  "ignored_resource ignoredExtendedResources ignoredResourceGroups rName \<longleftrightarrow>
     IsExtendedResourceName rName \<and>
     (let rNamePrefix = (if ignoredResourceGroups \<noteq> {} then hd (split_on (CHR ''/'') rName) else []) in
      rName \<in> ignoredExtendedResources \<or> rNamePrefix \<in> ignoredResourceGroups)"

definition fitsRequest :: "sched_orders \<Rightarrow> Resource \<Rightarrow> NodeInfo \<Rightarrow> string set \<Rightarrow> string set \<Rightarrow> InsufficientResource list" where
  "fitsRequest so podRequest nodeInfo ignoredExtendedResources ignoredResourceGroups =
     (let alloc = ni_Allocatable nodeInfo; req = ni_Requested nodeInfo;
          allowedPodNumber = r_AllowedPodNumber alloc;
          scalars = so_scalars so (r_ScalarResources podRequest);
          pods =
            (if int (length (ni_Pods nodeInfo)) + 1 > sint allowedPodNumber
             then [\<lparr>ir_ResourceName = ''pods'', ir_Reason = ''Too many pods'', ir_Requested = 1,
                    ir_Used = of_nat (length (ni_Pods nodeInfo)), ir_Capacity = allowedPodNumber\<rparr>]
             else []) in
      if r_MilliCPU podRequest = 0 \<and> r_Memory podRequest = 0 \<and> r_EphemeralStorage podRequest = 0 \<and> length scalars = 0
      then pods
      else
        pods @
        insufficient ''cpu'' ''Insufficient cpu'' (r_MilliCPU podRequest) (r_MilliCPU req) (r_MilliCPU alloc) @
        insufficient ''memory'' ''Insufficient memory'' (r_Memory podRequest) (r_Memory req) (r_Memory alloc) @
        insufficient ''ephemeral-storage'' ''Insufficient ephemeral-storage''
          (r_EphemeralStorage podRequest) (r_EphemeralStorage req) (r_EphemeralStorage alloc) @
        concat (map (\<lambda>rName.
            if ignored_resource ignoredExtendedResources ignoredResourceGroups rName then []
            else insufficient rName (''Insufficient '' @ rName) (scalar_at (r_ScalarResources podRequest) rName)
                   (scalar_at (r_ScalarResources req) rName) (scalar_at (r_ScalarResources alloc) rName)) scalars))"

definition Fit_Fits :: "sched_orders \<Rightarrow> feature_gates \<Rightarrow> pod \<Rightarrow> NodeInfo \<Rightarrow> InsufficientResource list" where
  "Fit_Fits so g pod nodeInfo = fitsRequest so (computePodResourceRequest g pod) nodeInfo {} {}"

definition Fit_Filter :: "sched_orders \<Rightarrow> Fit \<Rightarrow> CycleState \<Rightarrow> pod \<Rightarrow> NodeInfo \<Rightarrow> Status option" where
  "Fit_Filter so f cycleState pod nodeInfo =
     (case Fit_getPreFilterState cycleState of
        Inl err \<Rightarrow> Some (AsStatus err)
      | Inr s \<Rightarrow>
          (let insufficientResources = fitsRequest so s nodeInfo (fit_ignoredResources f) (fit_ignoredResourceGroups f) in
           if length insufficientResources \<noteq> 0
           then Some (NewStatus Unschedulable (map ir_Reason insufficientResources))
           else None))"

end
