(* ===== verification/Framework_Runtime.thy ===== *)
theory Framework_Runtime
  imports Filter_Plugins
begin

text \<open>
  The part of the scheduling framework that runs the plugins of one cycle up to the choice of a node
  (\<open>pkg/scheduler/framework/runtime/framework.go\<close>): the prefilter plugins with their extensions, the filter plugins, once
  more with the pods nominated to the node, and the postfilter plugins.

  A plugin is a record of its name and its functions, so the plugins that are not modelled appear as arbitrary elements of the lists. A call that changes the cycle state
  returns the new one. The framework's access to the nominated pods is a field. Metrics are left out. The pods of a clone draw generation numbers
  that nothing reads, since the clone is dropped: \<open>gen\<close> is the counter when the call starts.
\<close>

section \<open>Plugins\<close>

record PreFilterExtensions =
  pe_AddPod :: "CycleState \<Rightarrow> pod \<Rightarrow> podInfo \<Rightarrow> NodeInfo \<Rightarrow> CycleState \<times> Status option"
  pe_RemovePod :: "CycleState \<Rightarrow> pod \<Rightarrow> podInfo \<Rightarrow> NodeInfo \<Rightarrow> CycleState \<times> Status option"

record PreFilterPlugin =
  pp_Name :: string
  pp_PreFilter :: "CycleState \<Rightarrow> pod \<Rightarrow> CycleState \<times> Status option"
  pp_PreFilterExtensions :: "PreFilterExtensions option"

record FilterPlugin =
  fp_Name :: string
  fp_Filter :: "CycleState \<Rightarrow> pod \<Rightarrow> NodeInfo \<Rightarrow> Status option"

type_synonym NodeToStatusMap = "string \<rightharpoonup> Status"

record PostFilterPlugin =
  po_Name :: string
  po_PostFilter :: "CycleState \<Rightarrow> pod \<Rightarrow> NodeToStatusMap \<Rightarrow> string option \<times> Status option"

record NodeScore =
  ns_Name :: string
  ns_Score :: int

record PreScorePlugin =
  ps_Name :: string
  ps_PreScore :: "CycleState \<Rightarrow> pod \<Rightarrow> node list \<Rightarrow> CycleState \<times> Status option"

text \<open>A score plugin reads the node from the snapshot by its name. \<open>NormalizeScore\<close> changes the scores of its list in place; it returns the changed list.\<close>

record ScorePlugin =
  sp_Name :: string
  sp_Score :: "CycleState \<Rightarrow> pod \<Rightarrow> string \<Rightarrow> int \<times> Status option"
  sp_ScoreExtensions :: "(CycleState \<Rightarrow> pod \<Rightarrow> NodeScore list \<Rightarrow> NodeScore list \<times> Status option) option"

record filter_framework =
  fw_preFilterPlugins :: "PreFilterPlugin list"
  fw_filterPlugins :: "FilterPlugin list"
  fw_postFilterPlugins :: "PostFilterPlugin list"
  fw_preScorePlugins :: "PreScorePlugin list"
  fw_scorePlugins :: "ScorePlugin list"
  fw_pluginNameToWeightMap :: "string \<rightharpoonup> int"
  fw_runAllFilters :: bool
  fw_NominatedPodsForNode :: "string \<Rightarrow> podInfo list"

definition HasFilterPlugins :: "filter_framework \<Rightarrow> bool" where
  "HasFilterPlugins f \<longleftrightarrow> length (fw_filterPlugins f) > 0"

definition HasPostFilterPlugins :: "filter_framework \<Rightarrow> bool" where
  "HasPostFilterPlugins f \<longleftrightarrow> length (fw_postFilterPlugins f) > 0"

definition HasScorePlugins :: "filter_framework \<Rightarrow> bool" where
  "HasScorePlugins f \<longleftrightarrow> length (fw_scorePlugins f) > 0"

section \<open>Prefilter plugins\<close>

text \<open>The error of a status that is not a success.\<close>

definition status_error :: "Status \<Rightarrow> go_error" where
  "status_error s = (case st_err s of Some err \<Rightarrow> err | None \<Rightarrow> Errorf (Join (st_reasons s) '', ''))"

lemma AsError_status_error: "AsError (Some s) = (if st_code s = Success then None else Some (status_error s))"
  by (simp add: AsError_def status_error_def status_Message_def split: option.split)

fun run_prefilters :: "PreFilterPlugin list \<Rightarrow> CycleState \<Rightarrow> pod \<Rightarrow> CycleState \<times> Status option" where
  "run_prefilters [] state pod = (state, None)"
| "run_prefilters (pl # pls) state pod =
     (case pp_PreFilter pl state pod of
        (state', None) \<Rightarrow> run_prefilters pls state' pod
      | (state', Some s) \<Rightarrow>
          (if IsSuccess (Some s) then run_prefilters pls state' pod
           else if IsUnschedulable (Some s) then (state', Some (SetFailedPlugin s (pp_Name pl)))
           else (state', Some (WithFailedPlugin (AsStatus (Wrapf (''running PreFilter plugin '' @ pp_Name pl) (status_error s))) (pp_Name pl)))))"

definition RunPreFilterPlugins :: "filter_framework \<Rightarrow> CycleState \<Rightarrow> pod \<Rightarrow> CycleState \<times> Status option" where
  "RunPreFilterPlugins f state pod = run_prefilters (fw_preFilterPlugins f) state pod"

fun run_extensions ::
  "(PreFilterExtensions \<Rightarrow> CycleState \<Rightarrow> pod \<Rightarrow> podInfo \<Rightarrow> NodeInfo \<Rightarrow> CycleState \<times> Status option) \<Rightarrow> string \<Rightarrow> PreFilterPlugin list \<Rightarrow>
   CycleState \<Rightarrow> pod \<Rightarrow> podInfo \<Rightarrow> NodeInfo \<Rightarrow> CycleState \<times> Status option" where
  "run_extensions call what [] state pod pi nodeInfo = (state, None)"
| "run_extensions call what (pl # pls) state pod pi nodeInfo =
     (case pp_PreFilterExtensions pl of
        None \<Rightarrow> run_extensions call what pls state pod pi nodeInfo
      | Some ext \<Rightarrow>
          (case call ext state pod pi nodeInfo of
             (state', None) \<Rightarrow> run_extensions call what pls state' pod pi nodeInfo
           | (state', Some s) \<Rightarrow>
               (if IsSuccess (Some s) then run_extensions call what pls state' pod pi nodeInfo
                else (state', Some (AsStatus (Wrapf (what @ pp_Name pl) (status_error s)))))))"

definition RunPreFilterExtensionAddPod ::
  "filter_framework \<Rightarrow> CycleState \<Rightarrow> pod \<Rightarrow> podInfo \<Rightarrow> NodeInfo \<Rightarrow> CycleState \<times> Status option" where
  "RunPreFilterExtensionAddPod f state podToSchedule podInfoToAdd nodeInfo =
     run_extensions pe_AddPod ''running AddPod on PreFilter plugin '' (fw_preFilterPlugins f) state podToSchedule podInfoToAdd nodeInfo"

definition RunPreFilterExtensionRemovePod ::
  "filter_framework \<Rightarrow> CycleState \<Rightarrow> pod \<Rightarrow> podInfo \<Rightarrow> NodeInfo \<Rightarrow> CycleState \<times> Status option" where
  "RunPreFilterExtensionRemovePod f state podToSchedule podInfoToRemove nodeInfo =
     run_extensions pe_RemovePod ''running RemovePod on PreFilter plugin '' (fw_preFilterPlugins f) state podToSchedule podInfoToRemove nodeInfo"

section \<open>Filter plugins\<close>

fun run_filters :: "bool \<Rightarrow> FilterPlugin list \<Rightarrow> CycleState \<Rightarrow> pod \<Rightarrow> NodeInfo \<Rightarrow> PluginToStatus \<Rightarrow> PluginToStatus" where
  "run_filters runAll [] state pod nodeInfo statuses = statuses"
| "run_filters runAll (pl # pls) state pod nodeInfo statuses =
     (case fp_Filter pl state pod nodeInfo of
        None \<Rightarrow> run_filters runAll pls state pod nodeInfo statuses
      | Some s \<Rightarrow>
          (if IsSuccess (Some s) then run_filters runAll pls state pod nodeInfo statuses
           else if \<not> IsUnschedulable (Some s) then
             [fp_Name pl \<mapsto> WithFailedPlugin (AsStatus (Wrapf (''running filter plugin '' @ fp_Name pl) (status_error s))) (fp_Name pl)]
           else
             let statuses' = statuses(fp_Name pl \<mapsto> SetFailedPlugin s (fp_Name pl)) in
             if \<not> runAll then statuses' else run_filters runAll pls state pod nodeInfo statuses'))"

definition RunFilterPlugins :: "filter_framework \<Rightarrow> CycleState \<Rightarrow> pod \<Rightarrow> NodeInfo \<Rightarrow> PluginToStatus" where
  "RunFilterPlugins f state pod nodeInfo = run_filters (fw_runAllFilters f) (fw_filterPlugins f) state pod nodeInfo Map.empty"

section \<open>Nominated pods\<close>

fun add_nominated ::
  "feature_gates \<Rightarrow> filter_framework \<Rightarrow> pod \<Rightarrow> podInfo list \<Rightarrow> bool \<Rightarrow> CycleState \<Rightarrow> NodeInfo \<times> int \<Rightarrow> go_error + bool \<times> CycleState \<times> NodeInfo" where
  "add_nominated g f pod [] podsAdded stateOut ns = Inr (podsAdded, stateOut, fst ns)"
| "add_nominated g f pod (pi # pis) podsAdded stateOut ns =
     (if PodPriority (pi_Pod pi) \<ge> PodPriority pod \<and> p_UID (pi_Pod pi) \<noteq> p_UID pod then
        let ns' = AddPodInfo g ns pi in
        (case RunPreFilterExtensionAddPod f stateOut pod pi (fst ns') of
           (state', None) \<Rightarrow> add_nominated g f pod pis True state' ns'
         | (state', Some s) \<Rightarrow>
             (if IsSuccess (Some s) then add_nominated g f pod pis True state' ns'
              else Inl (status_error s)))
      else add_nominated g f pod pis podsAdded stateOut ns)"

text \<open>On an error the caller uses neither the state nor the node information that is returned with it.\<close>

definition addNominatedPods ::
  "feature_gates \<Rightarrow> int \<Rightarrow> filter_framework \<Rightarrow> pod \<Rightarrow> CycleState \<Rightarrow> NodeInfo \<Rightarrow> go_error + bool \<times> CycleState \<times> NodeInfo" where
  "addNominatedPods g gen f pod state nodeInfo =
     (case ni_node nodeInfo of
        None \<Rightarrow> Inr (False, state, nodeInfo)
      | Some node \<Rightarrow>
          (let nominatedPodInfos = fw_NominatedPodsForNode f (n_Name node) in
           if length nominatedPodInfos = 0 then Inr (False, state, nodeInfo)
           else add_nominated g f pod nominatedPodInfos False (the (cs_Clone (Some state))) (NodeInfo_Clone nodeInfo, gen)))"

text \<open>The loop runs the filters on the augmented node first and, when pods were added and the filters passed, on the node as it is.\<close>

definition RunFilterPluginsWithNominatedPods ::
  "sched_orders \<Rightarrow> feature_gates \<Rightarrow> int \<Rightarrow> filter_framework \<Rightarrow> CycleState \<Rightarrow> pod \<Rightarrow> NodeInfo \<Rightarrow> Status option" where
  "RunFilterPluginsWithNominatedPods so g gen f state pod info =
     (case addNominatedPods g gen f pod state info of
        Inl err \<Rightarrow> Some (AsStatus err)
      | Inr (podsAdded, stateToUse, nodeInfoToUse) \<Rightarrow>
          (let statusMap = RunFilterPlugins f stateToUse pod nodeInfoToUse;
               status = PluginToStatus_Merge (so_statuses so statusMap) statusMap in
           if \<not> IsSuccess status \<and> \<not> IsUnschedulable status then status
           else if \<not> podsAdded \<or> \<not> IsSuccess status then status
           else
             let statusMap2 = RunFilterPlugins f state pod info in
             PluginToStatus_Merge (so_statuses so statusMap2) statusMap2))"

section \<open>Postfilter plugins\<close>

fun run_postfilters ::
  "sched_orders \<Rightarrow> PostFilterPlugin list \<Rightarrow> CycleState \<Rightarrow> pod \<Rightarrow> NodeToStatusMap \<Rightarrow> PluginToStatus \<Rightarrow> string option \<times> Status option" where
  "run_postfilters so [] state pod m statuses = (None, PluginToStatus_Merge (so_statuses so statuses) statuses)"
| "run_postfilters so (pl # pls) state pod m statuses =
     (case po_PostFilter pl state pod m of
        (r, None) \<Rightarrow> (r, None)
      | (r, Some s) \<Rightarrow>
          (if IsSuccess (Some s) then (r, Some s)
           else if \<not> IsUnschedulable (Some s) then (None, Some (AsStatus (status_error s)))
           else run_postfilters so pls state pod m (statuses(po_Name pl \<mapsto> s))))"

definition RunPostFilterPlugins ::
  "sched_orders \<Rightarrow> filter_framework \<Rightarrow> CycleState \<Rightarrow> pod \<Rightarrow> NodeToStatusMap \<Rightarrow> string option \<times> Status option" where
  "RunPostFilterPlugins so f state pod m = run_postfilters so (fw_postFilterPlugins f) state pod m Map.empty"

section \<open>Score plugins\<close>

fun run_prescores :: "PreScorePlugin list \<Rightarrow> CycleState \<Rightarrow> pod \<Rightarrow> node list \<Rightarrow> CycleState \<times> Status option" where
  "run_prescores [] state pod nodes = (state, None)"
| "run_prescores (pl # pls) state pod nodes =
     (case ps_PreScore pl state pod nodes of
        (state', None) \<Rightarrow> run_prescores pls state' pod nodes
      | (state', Some s) \<Rightarrow>
          (if IsSuccess (Some s) then run_prescores pls state' pod nodes
           else (state', Some (AsStatus (Wrapf (''running PreScore plugin '' @ ps_Name pl) (status_error s))))))"

definition RunPreScorePlugins :: "filter_framework \<Rightarrow> CycleState \<Rightarrow> pod \<Rightarrow> node list \<Rightarrow> CycleState \<times> Status option" where
  "RunPreScorePlugins f state pod nodes = run_prescores (fw_preScorePlugins f) state pod nodes"

text \<open>
  The three parallel loops of \<open>RunScorePlugins\<close> work on pieces that write different cells, and only one error is kept: what a loop leaves
  is the same as running its pieces one after another, in the order in which they end, up to the first error. That order is an argument.
\<close>

fun run_pieces :: "('i \<Rightarrow> 's \<Rightarrow> go_error + 's) \<Rightarrow> 'i list \<Rightarrow> 's \<Rightarrow> go_error + 's" where
  "run_pieces piece [] s = Inr s"
| "run_pieces piece (i # is) s = (case piece i s of Inl err \<Rightarrow> Inl err | Inr s' \<Rightarrow> run_pieces piece is s')"

type_synonym PluginToNodeScores = "string \<rightharpoonup> NodeScore list"

text \<open>The scores of one node by all plugins.\<close>

fun score_node :: "CycleState \<Rightarrow> pod \<Rightarrow> node list \<Rightarrow> ScorePlugin list \<Rightarrow> nat \<Rightarrow> PluginToNodeScores \<Rightarrow> go_error + PluginToNodeScores" where
  "score_node state pod nodes [] index m = Inr m"
| "score_node state pod nodes (pl # pls) index m =
     (let nodeName = n_Name (nodes ! index);
          (s, status) = sp_Score pl state pod nodeName in
      if \<not> IsSuccess status
      then Inl (Wrapf (''plugin failed '' @ sp_Name pl) (case status of Some st \<Rightarrow> status_error st | None \<Rightarrow> Errorf []))
      else score_node state pod nodes pls index
             (m(sp_Name pl := map_option (\<lambda>l. l[index := \<lparr>ns_Name = nodeName, ns_Score = s\<rparr>]) (m (sp_Name pl)))))"

definition normalize_scores :: "CycleState \<Rightarrow> pod \<Rightarrow> ScorePlugin list \<Rightarrow> nat \<Rightarrow> PluginToNodeScores \<Rightarrow> go_error + PluginToNodeScores" where
  "normalize_scores state pod pls index m =
     (let pl = pls ! index; nodeScoreList = (case m (sp_Name pl) of Some l \<Rightarrow> l | None \<Rightarrow> []) in
      case sp_ScoreExtensions pl of
        None \<Rightarrow> Inr m
      | Some ext \<Rightarrow>
          (let (l, status) = ext state pod nodeScoreList in
           if \<not> IsSuccess status
           then Inl (Wrapf (''plugin failed '' @ sp_Name pl) (case status of Some st \<Rightarrow> status_error st | None \<Rightarrow> Errorf []))
           else Inr (m(sp_Name pl \<mapsto> l))))"

definition MaxNodeScore :: int where "MaxNodeScore = 100"

definition MinNodeScore :: int where "MinNodeScore = 0"

definition MaxTotalScore :: int where "MaxTotalScore = 2 ^ 63 - 1"

definition weigh_scores :: "(string \<rightharpoonup> int) \<Rightarrow> ScorePlugin list \<Rightarrow> nat \<Rightarrow> PluginToNodeScores \<Rightarrow> go_error + PluginToNodeScores" where
  "weigh_scores weights pls index m =
     (let pl = pls ! index; weight = (case weights (sp_Name pl) of Some w \<Rightarrow> w | None \<Rightarrow> 0);
          nodeScoreList = (case m (sp_Name pl) of Some l \<Rightarrow> l | None \<Rightarrow> []) in
      if list_ex (\<lambda>ns. ns_Score ns > MaxNodeScore \<or> ns_Score ns < MinNodeScore) nodeScoreList
      then Inl (Errorf (''plugin returns an invalid score '' @ sp_Name pl))
      else Inr (m(sp_Name pl \<mapsto> map (\<lambda>ns. ns\<lparr>ns_Score := wrap64 (ns_Score ns * weight)\<rparr>) nodeScoreList)))"

record score_order =
  sc_score :: "nat list"
  sc_normalize :: "nat list"
  sc_weigh :: "nat list"

definition RunScorePlugins :: "score_order \<Rightarrow> filter_framework \<Rightarrow> CycleState \<Rightarrow> pod \<Rightarrow> node list \<Rightarrow> Status + PluginToNodeScores" where
  "RunScorePlugins ord f state pod nodes =
     (let pls = fw_scorePlugins f;
          empty = replicate (length nodes) \<lparr>ns_Name = [], ns_Score = 0\<rparr>;
          m0 = fold (\<lambda>pl m. m(sp_Name pl \<mapsto> empty)) pls Map.empty in
      case run_pieces (score_node state pod nodes pls) (sc_score ord) m0 of
        Inl err \<Rightarrow> Inl (AsStatus (Wrapf ''running Score plugins'' err))
      | Inr m1 \<Rightarrow>
          (case run_pieces (normalize_scores state pod pls) (sc_normalize ord) m1 of
             Inl err \<Rightarrow> Inl (AsStatus (Wrapf ''running Normalize on Score plugins'' err))
           | Inr m2 \<Rightarrow>
               (case run_pieces (weigh_scores (fw_pluginNameToWeightMap f) pls) (sc_weigh ord) m2 of
                  Inl err \<Rightarrow> Inl (AsStatus (Wrapf ''applying score defaultWeights on Score plugins'' err))
                | Inr m3 \<Rightarrow> Inr m3)))"

text \<open>The weights that the construction of the framework gives its plugins: a weight of zero becomes one, and the sum is checked against the greatest total. The arguments are the
  weights of the needed plugins in the order in which the registry is ranged over; a weight is an \<open>int32\<close>.\<close>

fun plugin_weights :: "(string \<times> int) list \<Rightarrow> int \<Rightarrow> (string \<rightharpoonup> int) \<Rightarrow> go_error + (string \<rightharpoonup> int)" where
  "plugin_weights [] totalPriority m = Inr m"
| "plugin_weights ((name, w) # pg) totalPriority m =
     (let weight = (if w = 0 then 1 else w) in
      if wrap64 (weight * MaxNodeScore) > wrap64 (MaxTotalScore - totalPriority)
      then Inl (Errorf ''total score of Score plugins could overflow'')
      else plugin_weights pg (wrap64 (totalPriority + wrap64 (weight * MaxNodeScore))) (m(name \<mapsto> weight)))"

end
