(* ===== verification/Generic_Scheduler.thy ===== *)
theory Generic_Scheduler
  imports Parallel_Filter Framework_Runtime Cache_Snapshot
begin

text \<open>
  The scheduling algorithm: \<open>pkg/scheduler/core/generic_scheduler.go\<close>. \<open>Schedule\<close> takes a snapshot of the cache, finds the nodes on which the pod fits, scores
  them and selects one.

  What the runtime decides is an argument: the interleavings of the parallel searches (\<open>Parallel_Filter\<close>), the orders of the parallel loops over scores, the order in which a map
  is ranged over and the results of \<open>rand.Intn\<close>. Extenders are records of functions. Logging, metrics and traces are left out. The node informations of a snapshot
  have their node; where the code would read a field of a missing node the model panics, also in the branches that would store the missing node first.
\<close>

section \<open>State\<close>

text \<open>The part of an extender that the algorithm calls. \<open>Filter\<close> returns the nodes that pass and the messages of those that failed, of which some cannot be
  helped by preemption. \<open>Prioritize\<close> returns scores by node name, and the weight of the extender.\<close>

record Extender =
  ex_IsInterested :: "pod \<Rightarrow> bool"
  ex_IsIgnorable :: bool
  ex_IsBinder :: bool
  ex_Filter :: "pod \<Rightarrow> node list \<Rightarrow> go_error + node list \<times> (string \<rightharpoonup> string) \<times> (string \<rightharpoonup> string)"
  ex_Prioritize :: "pod \<Rightarrow> node list \<Rightarrow> go_error + (string \<times> int) list \<times> int"

record genericScheduler =
  gs_extenders :: "Extender list"
  gs_nodeInfoSnapshot :: Snapshot
  gs_percentageOfNodesToScore :: int
  gs_nextStartNodeIndex :: nat

definition NewGenericScheduler :: "Snapshot \<Rightarrow> Extender list \<Rightarrow> int \<Rightarrow> genericScheduler" where
  "NewGenericScheduler nodeInfoSnapshot extenders percentageOfNodesToScore =
     \<lparr>gs_extenders = extenders, gs_nodeInfoSnapshot = nodeInfoSnapshot, gs_percentageOfNodesToScore = percentageOfNodesToScore,
      gs_nextStartNodeIndex = 0\<rparr>"

record Diagnosis =
  di_NodeToStatusMap :: NodeToStatusMap
  di_UnschedulablePlugins :: "string set"

record ScheduleResult =
  sr_SuggestedHost :: string
  sr_EvaluatedNodes :: nat
  sr_FeasibleNodes :: nat

datatype schedule_error = ErrNoNodesAvailable | FitError pod nat Diagnosis | OtherError go_error

text \<open>What the runtime decides during one call of \<open>Schedule\<close>: the schedules of the two searches, the orders of the score loops, the order of the plugins in the sum of
  the scores, the order in which the extenders end and the random numbers.\<close>

record choices =
  ch_nominated :: "nat list"
  ch_search :: "nat list"
  ch_scores :: score_order
  ch_sum :: "PluginToNodeScores \<Rightarrow> string list"
  ch_extenders :: "nat list"
  ch_rand :: "nat list"

section \<open>The number of nodes to find\<close>

definition wrap32 :: "int \<Rightarrow> int" where
  "wrap32 x = (x + 2 ^ 31) mod 2 ^ 32 - 2 ^ 31"

text \<open>Division of Go's integers truncates.\<close>

definition quot :: "int \<Rightarrow> int \<Rightarrow> int" where
  "quot a b = sgn a * sgn b * (\<bar>a\<bar> div \<bar>b\<bar>)"

definition minFeasibleNodesToFind :: int where "minFeasibleNodesToFind = 100"

definition minFeasibleNodesPercentageToFind :: int where "minFeasibleNodesPercentageToFind = 5"

definition numFeasibleNodesToFind :: "int \<Rightarrow> int \<Rightarrow> int" where
  "numFeasibleNodesToFind percentageOfNodesToScore numAllNodes =
     (if numAllNodes < minFeasibleNodesToFind \<or> percentageOfNodesToScore \<ge> 100 then numAllNodes
      else
        let adaptivePercentage =
              (if percentageOfNodesToScore \<le> 0 then
                 let p = wrap32 (50 - quot numAllNodes 125) in
                 if p < minFeasibleNodesPercentageToFind then minFeasibleNodesPercentageToFind else p
               else percentageOfNodesToScore);
            numNodes = quot (wrap32 (numAllNodes * adaptivePercentage)) 100 in
        if numNodes < minFeasibleNodesToFind then minFeasibleNodesToFind else numNodes)"

section \<open>Filtering\<close>

text \<open>The pieces of the search: piece \<open>i\<close> checks the \<open>i\<close>-th node after the one at which the last search stopped.\<close>

definition check_env ::
  "sched_orders \<Rightarrow> feature_gates \<Rightarrow> int \<Rightarrow> filter_framework \<Rightarrow> CycleState \<Rightarrow> pod \<Rightarrow> NodeInfo list \<Rightarrow> nat \<Rightarrow> nat \<Rightarrow> pf_env" where
  "check_env so g gen f state pod nodes start num =
     \<lparr>pv_nodes = map (\<lambda>i. the (ni_node (nodes ! ((start + i) mod length nodes)))) [0..<length nodes],
      pv_num = num,
      pv_check = (\<lambda>i. RunFilterPluginsWithNominatedPods so g gen f state pod (nodes ! ((start + i) mod length nodes)))\<rparr>"

definition findNodesThatPassFilters ::
  "sched_orders \<Rightarrow> feature_gates \<Rightarrow> int \<Rightarrow> nat list \<Rightarrow> genericScheduler \<Rightarrow> filter_framework \<Rightarrow> CycleState \<Rightarrow> pod \<Rightarrow> Diagnosis \<Rightarrow> NodeInfo list \<Rightarrow>
   (genericScheduler \<times> Diagnosis \<times> (go_error + node list)) go" where
  "findNodesThatPassFilters so g gen sched gs f state pod diagnosis nodes =
     (let numNodesToFind = numFeasibleNodesToFind (gs_percentageOfNodesToScore gs) (wrap32 (int (length nodes)));
          num = nat numNodesToFind; start = gs_nextStartNodeIndex gs; n = length nodes in
      if numNodesToFind < 0 \<or> n = 0 \<or> list_ex (\<lambda>i. ni_node i = None) nodes then None
      else if \<not> HasFilterPlugins f then
        Some (gs\<lparr>gs_nextStartNodeIndex := (start + num) mod n\<rparr>, diagnosis,
              Inr (map (\<lambda>i. the (ni_node (nodes ! ((start + i) mod n)))) [0..<num]))
      else
        let e = check_env so g gen f state pod nodes start num;
            s = pf_search e sched (pf_init e (di_NodeToStatusMap diagnosis) (di_UnschedulablePlugins diagnosis));
            processedNodes = pf_len s + length (so_statuses so (pf_statuses s));
            gs' = gs\<lparr>gs_nextStartNodeIndex := (start + processedNodes) mod n\<rparr>;
            diagnosis' = \<lparr>di_NodeToStatusMap = pf_statuses s, di_UnschedulablePlugins = pf_plugins s\<rparr> in
        Some (gs', diagnosis',
              (case fst (ReceiveError (pf_err s)) of
                 Some err \<Rightarrow> Inl err
               | None \<Rightarrow> Inr (map the (take (pf_len s) (pf_feasible s))))))"

text \<open>The statuses after an extender: the loops over its two maps touch each name once, in any order. The nodes that preemption cannot help get that status, with the reasons they had.\<close>

definition extender_statuses :: "(string \<rightharpoonup> string) \<Rightarrow> (string \<rightharpoonup> string) \<Rightarrow> NodeToStatusMap \<Rightarrow> NodeToStatusMap" where
  "extender_statuses failedMap failedAndUnresolvableMap statuses =
     (\<lambda>name.
        case failedAndUnresolvableMap name of
          Some failedMsg \<Rightarrow>
            Some (NewStatus UnschedulableAndUnresolvable ((case statuses name of Some s \<Rightarrow> st_reasons s | None \<Rightarrow> []) @ [failedMsg]))
        | None \<Rightarrow>
            (case failedMap name of
               Some failedMsg \<Rightarrow>
                 (case statuses name of
                    None \<Rightarrow> Some (NewStatus Unschedulable [failedMsg])
                  | Some s \<Rightarrow> Some (AppendReason s failedMsg))
             | None \<Rightarrow> statuses name))"

fun findNodesThatPassExtenders ::
  "Extender list \<Rightarrow> pod \<Rightarrow> node list \<Rightarrow> NodeToStatusMap \<Rightarrow> NodeToStatusMap \<times> (go_error + node list)" where
  "findNodesThatPassExtenders [] pod feasibleNodes statuses = (statuses, Inr feasibleNodes)"
| "findNodesThatPassExtenders (extender # extenders) pod feasibleNodes statuses =
     (if length feasibleNodes = 0 then (statuses, Inr feasibleNodes)
      else if \<not> ex_IsInterested extender pod then findNodesThatPassExtenders extenders pod feasibleNodes statuses
      else
        (case ex_Filter extender pod feasibleNodes of
           Inl err \<Rightarrow>
             (if ex_IsIgnorable extender then findNodesThatPassExtenders extenders pod feasibleNodes statuses
              else (statuses, Inl err))
         | Inr (feasibleList, failedMap, failedAndUnresolvableMap) \<Rightarrow>
             findNodesThatPassExtenders extenders pod feasibleList (extender_statuses failedMap failedAndUnresolvableMap statuses)))"

definition evaluateNominatedNode ::
  "sched_orders \<Rightarrow> feature_gates \<Rightarrow> int \<Rightarrow> nat list \<Rightarrow> genericScheduler \<Rightarrow> pod \<Rightarrow> filter_framework \<Rightarrow> CycleState \<Rightarrow> Diagnosis \<Rightarrow>
   (genericScheduler \<times> Diagnosis \<times> (go_error + node list)) go" where
  "evaluateNominatedNode so g gen sched gs pod f state diagnosis =
     (case sn_Get (gs_nodeInfoSnapshot gs) (p_NominatedNodeName pod) of
        Inl err \<Rightarrow> Some (gs, diagnosis, Inl err)
      | Inr nodeInfo \<Rightarrow>
          do {
            (gs1, diagnosis1, r) \<leftarrow> findNodesThatPassFilters so g gen sched gs f state pod diagnosis [nodeInfo];
            case r of
              Inl err \<Rightarrow> Some (gs1, diagnosis1, Inl err)
            | Inr feasibleNodes \<Rightarrow>
                (let (statuses, r2) = findNodesThatPassExtenders (gs_extenders gs1) pod feasibleNodes (di_NodeToStatusMap diagnosis1) in
                 Some (gs1, diagnosis1\<lparr>di_NodeToStatusMap := statuses\<rparr>, r2))
          })"

text \<open>The nodes that fit the pod: the nominated node alone when it passes, and otherwise those that the search finds.\<close>

definition search_all ::
  "sched_orders \<Rightarrow> feature_gates \<Rightarrow> int \<Rightarrow> nat list \<Rightarrow> genericScheduler \<Rightarrow> filter_framework \<Rightarrow> CycleState \<Rightarrow> pod \<Rightarrow> Diagnosis \<Rightarrow> NodeInfo list \<Rightarrow>
   (genericScheduler \<times> CycleState \<times> Diagnosis \<times> (go_error + node list)) go" where
  "search_all so g gen sched gs f state pod diagnosis allNodes =
     do {
       (gs1, diagnosis1, r) \<leftarrow> findNodesThatPassFilters so g gen sched gs f state pod diagnosis allNodes;
       case r of
         Inl err \<Rightarrow> Some (gs1, state, diagnosis1, Inl err)
       | Inr feasibleNodes \<Rightarrow>
           (let (statuses, r2) = findNodesThatPassExtenders (gs_extenders gs1) pod feasibleNodes (di_NodeToStatusMap diagnosis1) in
            Some (gs1, state, diagnosis1\<lparr>di_NodeToStatusMap := statuses\<rparr>, r2))
     }"

definition nominated_or_all ::
  "sched_orders \<Rightarrow> feature_gates \<Rightarrow> int \<Rightarrow> choices \<Rightarrow> genericScheduler \<Rightarrow> filter_framework \<Rightarrow> CycleState \<Rightarrow> pod \<Rightarrow> Diagnosis \<Rightarrow> NodeInfo list \<Rightarrow>
   (genericScheduler \<times> CycleState \<times> Diagnosis \<times> (go_error + node list)) go" where
  "nominated_or_all so g gen ch gs f state pod diagnosis allNodes =
     (if length (p_NominatedNodeName pod) > 0 \<and> PreferNominatedNode g then
        do {
          (gs1, diagnosis1, r) \<leftarrow> evaluateNominatedNode so g gen (ch_nominated ch) gs pod f state diagnosis;
          case r of
            Inr (node # nodes) \<Rightarrow> Some (gs1, state, diagnosis1, Inr (node # nodes))
          | _ \<Rightarrow> search_all so g gen (ch_search ch) gs1 f state pod diagnosis1 allNodes
        }
      else search_all so g gen (ch_search ch) gs f state pod diagnosis allNodes)"

definition findNodesThatFitPod ::
  "sched_orders \<Rightarrow> feature_gates \<Rightarrow> int \<Rightarrow> choices \<Rightarrow> genericScheduler \<Rightarrow> filter_framework \<Rightarrow> CycleState \<Rightarrow> pod \<Rightarrow>
   (genericScheduler \<times> CycleState \<times> Diagnosis \<times> (go_error + node list)) go" where
  "findNodesThatFitPod so g gen ch gs f state pod =
     (let diagnosis = \<lparr>di_NodeToStatusMap = Map.empty, di_UnschedulablePlugins = {}\<rparr>;
          (state1, s) = RunPreFilterPlugins f state pod;
          allNodes = sn_List (gs_nodeInfoSnapshot gs) in
      case s of
        Some st \<Rightarrow>
          (if IsSuccess (Some st) then nominated_or_all so g gen ch gs f state1 pod diagnosis allNodes
           else if \<not> IsUnschedulable (Some st) then Some (gs, state1, diagnosis, Inl (status_error st))
           else if list_ex (\<lambda>i. ni_node i = None) allNodes then None
           else
             Some (gs, state1,
               \<lparr>di_NodeToStatusMap = fold (\<lambda>i m. m(n_Name (the (ni_node i)) \<mapsto> st)) allNodes Map.empty,
                di_UnschedulablePlugins = {st_failedPlugin st}\<rparr>, Inr []))
      | None \<Rightarrow> nominated_or_all so g gen ch gs f state1 pod diagnosis allNodes)"

section \<open>Scoring\<close>

definition MaxExtenderPriority :: int where "MaxExtenderPriority = 10"

text \<open>The total of node \<open>i\<close>; a list that is too short is an index out of range.\<close>

fun sum_scores :: "PluginToNodeScores \<Rightarrow> nat \<Rightarrow> string list \<Rightarrow> int \<Rightarrow> int go" where
  "sum_scores scoresMap i [] score = Some score"
| "sum_scores scoresMap i (j # js) score =
     (case scoresMap j of
        None \<Rightarrow> None
      | Some l \<Rightarrow> if i < length l then sum_scores scoresMap i js (wrap64 (score + ns_Score (l ! i))) else None)"

fun sum_nodes :: "PluginToNodeScores \<Rightarrow> string list \<Rightarrow> nat \<Rightarrow> node list \<Rightarrow> NodeScore list go" where
  "sum_nodes scoresMap js i [] = Some []"
| "sum_nodes scoresMap js i (node # nodes) =
     do {
       score \<leftarrow> sum_scores scoresMap i js 0;
       rest \<leftarrow> sum_nodes scoresMap js (Suc i) nodes;
       Some (\<lparr>ns_Name = n_Name node, ns_Score = score\<rparr> # rest)
     }"

text \<open>The goroutines of the extenders add their scores under a lock; a missing entry of the map counts as zero.\<close>

fun combine_scores :: "(string \<times> int) list \<Rightarrow> int \<Rightarrow> (string \<rightharpoonup> int) \<Rightarrow> (string \<rightharpoonup> int)" where
  "combine_scores [] weight m = m"
| "combine_scores ((host, score) # l) weight m =
     combine_scores l weight (m(host \<mapsto> wrap64 ((case m host of Some v \<Rightarrow> v | None \<Rightarrow> 0) + wrap64 (score * weight))))"

fun extender_scores :: "Extender list \<Rightarrow> pod \<Rightarrow> node list \<Rightarrow> nat list \<Rightarrow> (string \<rightharpoonup> int) \<Rightarrow> (string \<rightharpoonup> int)" where
  "extender_scores extenders pod nodes [] m = m"
| "extender_scores extenders pod nodes (i # is) m =
     (if i < length extenders \<and> ex_IsInterested (extenders ! i) pod then
        (case ex_Prioritize (extenders ! i) pod nodes of
           Inl err \<Rightarrow> extender_scores extenders pod nodes is m
         | Inr (prioritizedList, weight) \<Rightarrow> extender_scores extenders pod nodes is (combine_scores prioritizedList weight m))
      else extender_scores extenders pod nodes is m)"

definition prioritizeNodes ::
  "choices \<Rightarrow> genericScheduler \<Rightarrow> filter_framework \<Rightarrow> CycleState \<Rightarrow> pod \<Rightarrow> node list \<Rightarrow> (CycleState \<times> (go_error + NodeScore list)) go" where
  "prioritizeNodes ch gs f state pod nodes =
     (if length (gs_extenders gs) = 0 \<and> \<not> HasScorePlugins f
      then Some (state, Inr (map (\<lambda>node. \<lparr>ns_Name = n_Name node, ns_Score = 1\<rparr>) nodes))
      else
        (case RunPreScorePlugins f state pod nodes of
           (state1, preScoreStatus) \<Rightarrow>
             (if \<not> IsSuccess preScoreStatus
              then Some (state1, Inl (case preScoreStatus of Some st \<Rightarrow> status_error st | None \<Rightarrow> Errorf []))
              else
                (case RunScorePlugins (ch_scores ch) f state1 pod nodes of
                   Inl st \<Rightarrow> Some (state1, Inl (status_error st))
                 | Inr scoresMap \<Rightarrow>
                     do {
                       result \<leftarrow> sum_nodes scoresMap (ch_sum ch scoresMap) 0 nodes;
                       let combinedScores = extender_scores (gs_extenders gs) pod nodes (ch_extenders ch) Map.empty;
                       let scaled = (\<lambda>name. wrap64 ((case combinedScores name of Some v \<Rightarrow> v | None \<Rightarrow> 0) * (MaxNodeScore div MaxExtenderPriority)));
                       Some (state1, Inr (if length (gs_extenders gs) \<noteq> 0
                         then map (\<lambda>ns. ns\<lparr>ns_Score := wrap64 (ns_Score ns + scaled (ns_Name ns))\<rparr>) result else result))
                     }))))"

section \<open>Selection\<close>

text \<open>The list \<open>ds\<close> has the results of the calls of \<open>rand.Intn(cntOfMaxScore)\<close>, one after the other; it counts as zeros where it ends.\<close>

fun select_loop :: "NodeScore list \<Rightarrow> int \<Rightarrow> string \<Rightarrow> nat \<Rightarrow> nat list \<Rightarrow> string" where
  "select_loop [] maxScore selected cntOfMaxScore ds = selected"
| "select_loop (ns # nss) maxScore selected cntOfMaxScore ds =
     (if ns_Score ns > maxScore then select_loop nss (ns_Score ns) (ns_Name ns) 1 ds
      else if ns_Score ns = maxScore then
        (let r = (case ds of [] \<Rightarrow> 0 | d # _ \<Rightarrow> d) in
         select_loop nss maxScore (if r = 0 then ns_Name ns else selected) (cntOfMaxScore + 1) (tl ds))
      else select_loop nss maxScore selected cntOfMaxScore ds)"

definition selectHost :: "nat list \<Rightarrow> NodeScore list \<Rightarrow> go_error + string" where
  "selectHost ds nodeScoreList =
     (case nodeScoreList of
        [] \<Rightarrow> Inl (Errorf ''empty priorityList'')
      | ns # nss \<Rightarrow> Inr (select_loop nss (ns_Score ns) (ns_Name ns) 1 ds))"

section \<open>Schedule\<close>

definition Schedule ::
  "sched_orders \<Rightarrow> feature_gates \<Rightarrow> (Snapshot \<Rightarrow> string list) \<Rightarrow> int \<Rightarrow> choices \<Rightarrow> schedulerCache \<Rightarrow> genericScheduler \<Rightarrow> filter_framework \<Rightarrow> CycleState \<Rightarrow> pod \<Rightarrow>
   (genericScheduler \<times> CycleState \<times> (schedule_error + ScheduleResult)) go" where
  "Schedule so g order gen ch cache gs f state pod =
     do {
       (snap, err) \<leftarrow> UpdateSnapshot order cache (gs_nodeInfoSnapshot gs);
       let gs1 = gs\<lparr>gs_nodeInfoSnapshot := snap\<rparr>;
       case err of
         Some e \<Rightarrow> Some (gs1, state, Inl (OtherError e))
       | None \<Rightarrow>
           (if sn_NumNodes snap = 0 then Some (gs1, state, Inl ErrNoNodesAvailable)
            else
              do {
                (gs2, state1, diagnosis, r) \<leftarrow> findNodesThatFitPod so g gen ch gs1 f state pod;
                case r of
                  Inl e \<Rightarrow> Some (gs2, state1, Inl (OtherError e))
                | Inr [] \<Rightarrow> Some (gs2, state1, Inl (FitError pod (sn_NumNodes snap) diagnosis))
                | Inr [node] \<Rightarrow>
                    Some (gs2, state1, Inr \<lparr>sr_SuggestedHost = n_Name node,
                      sr_EvaluatedNodes = 1 + length (so_statuses so (di_NodeToStatusMap diagnosis)), sr_FeasibleNodes = 1\<rparr>)
                | Inr feasibleNodes \<Rightarrow>
                    do {
                      (state2, p) \<leftarrow> prioritizeNodes ch gs2 f state1 pod feasibleNodes;
                      case p of
                        Inl e \<Rightarrow> Some (gs2, state2, Inl (OtherError e))
                      | Inr priorityList \<Rightarrow>
                          (case selectHost (ch_rand ch) priorityList of
                             Inl e \<Rightarrow> Some (gs2, state2, Inl (OtherError e))
                           | Inr host \<Rightarrow>
                               Some (gs2, state2, Inr \<lparr>sr_SuggestedHost = host,
                                 sr_EvaluatedNodes = length feasibleNodes + length (so_statuses so (di_NodeToStatusMap diagnosis)),
                                 sr_FeasibleNodes = length feasibleNodes\<rparr>))
                    }
              })
     }"

end
