(* ===== verification/Admission.thy ===== *)
theory Admission
  imports Framework_Runtime
begin

text \<open>
  What the filter plugins guarantee together. A pod is bound to a node only after the framework ran the prefilter and filter plugins on it; the theory
  follows the pods of a node through any sequence of such decisions and of removals, with any other plugins configured beside the modelled ones, and shows that
  the node is never overcommitted, that no two pods claim one host port, and that every pod tolerates the taints and selects the node.
\<close>

section \<open>Requests\<close>

text \<open>The plugin and the accounting of a node compute the same request.\<close>

lemma container_sum_fst: "fst (container_sum g cs (r, a, b)) = foldl (\<lambda>r c. Resource_Add g r (co_Requests c)) r cs"
  by (induction cs arbitrary: r a b) (auto simp: Let_def split: prod.split)

lemma init_max_fst: "fst (init_max g cs (r, a, b)) = foldl (\<lambda>r c. SetMaxResource g r (co_Requests c)) r cs"
  by (induction cs arbitrary: r a b) (auto simp: Let_def split: prod.split)

lemma computePodResourceRequest_eq: "computePodResourceRequest g pod = fst (calculateResource g pod)"
proof -
  obtain r a b where c: "container_sum g (p_Containers pod) (zero_Resource, 0, 0) = (r, a, b)" by (metis prod_cases3)
  obtain r' a' b' where i: "init_max g (p_InitContainers pod) (r, a, b) = (r', a', b')" by (metis prod_cases3)
  have "foldl (\<lambda>r c. Resource_Add g r (co_Requests c)) zero_Resource (p_Containers pod) = r"
    using container_sum_fst [of g "p_Containers pod" zero_Resource 0 0] c by simp
  moreover have "foldl (\<lambda>r c. SetMaxResource g r (co_Requests c)) r (p_InitContainers pod) = r'"
    using init_max_fst [of g "p_InitContainers pod" r a b] i by simp
  ultimately show ?thesis
    by (simp add: computePodResourceRequest_def calculateResource_def c i Let_def split: option.split)
qed

lemma Resource_Add_finite: "finite (dom (r_ScalarResources r)) \<Longrightarrow> finite (dom (r_ScalarResources (Resource_Add g r rl)))"
  by (induction g r rl rule: Resource_Add.induct) (simp_all add: AddScalar_def SetScalar_def)

lemma SetMaxResource_finite: "finite (dom (r_ScalarResources r)) \<Longrightarrow> finite (dom (r_ScalarResources (SetMaxResource g r rl)))"
  by (induction g r rl rule: SetMaxResource.induct) (simp_all add: SetScalar_def)

lemma request_finite: "finite (dom (r_ScalarResources (computePodResourceRequest g pod)))"
proof -
  have "finite (dom (r_ScalarResources r)) \<Longrightarrow> finite (dom (r_ScalarResources (foldl (\<lambda>r c. Resource_Add g r (co_Requests c)) r cs)))" for r and cs :: "container list"
    by (induction cs arbitrary: r) (simp_all add: Resource_Add_finite)
  moreover have "finite (dom (r_ScalarResources r)) \<Longrightarrow> finite (dom (r_ScalarResources (foldl (\<lambda>r c. SetMaxResource g r (co_Requests c)) r cs)))" for r and cs :: "container list"
    by (induction cs arbitrary: r) (simp_all add: SetMaxResource_finite)
  ultimately show ?thesis
    by (simp add: computePodResourceRequest_def Let_def Resource_Add_finite zero_Resource_def split: option.split)
qed

section \<open>Exactness of the resource check\<close>

lemma sint_bounds64: "- (2 ^ 63) \<le> sint (x :: 64 word)" "sint (x :: 64 word) \<le> 2 ^ 63 - 1"
  using sint_ge [of x] sint_lt [of x] by simp_all

lemma fits_amount:
  assumes "0 \<le> sint (a :: 64 word)" "0 \<le> sint u"
  shows "sint r \<le> sint (a - u) \<longleftrightarrow> sint u + sint r \<le> sint a"
proof -
  have "a - u = word_of_int (sint a - sint u)" by simp
  then have "sint (a - u) = wrap64 (sint a - sint u)" by (metis wrap64_sint)
  moreover have "in_int64 (sint a - sint u)"
    using assms sint_bounds64 [of a] sint_bounds64 [of u] by (simp add: in_int64_def max_int64_def)
  ultimately show ?thesis by (auto simp: wrap64_id)
qed

lemma insufficient_Nil: "insufficient name reason r u a = [] \<longleftrightarrow> sint r \<le> sint (a - u)"
  by (auto simp: insufficient_def)

lemma concat_map_Nil: "concat (map f xs) = [] \<longleftrightarrow> (\<forall>x\<in>set xs. f x = [])"
  by (induction xs) auto

text \<open>Amounts are nonnegative in all resources that are not ignored.\<close>

definition nonneg_resource :: "string set \<Rightarrow> string set \<Rightarrow> Resource \<Rightarrow> bool" where
  "nonneg_resource ign groups r \<longleftrightarrow> 0 \<le> sint (r_MilliCPU r) \<and> 0 \<le> sint (r_Memory r) \<and> 0 \<le> sint (r_EphemeralStorage r) \<and>
     (\<forall>name. ignored_resource ign groups name \<or> 0 \<le> sint (scalar_amount name r))"

text \<open>The amounts of a request fit beside those in use, for every resource that the check looks at.\<close>

definition amounts_fit :: "string set \<Rightarrow> string set \<Rightarrow> Resource \<Rightarrow> Resource \<Rightarrow> Resource \<Rightarrow> bool" where
  "amounts_fit ign groups req used alloc \<longleftrightarrow>
     sint (r_MilliCPU used) + sint (r_MilliCPU req) \<le> sint (r_MilliCPU alloc) \<and>
     sint (r_Memory used) + sint (r_Memory req) \<le> sint (r_Memory alloc) \<and>
     sint (r_EphemeralStorage used) + sint (r_EphemeralStorage req) \<le> sint (r_EphemeralStorage alloc) \<and>
     (\<forall>name\<in>dom (r_ScalarResources req). ignored_resource ign groups name \<or>
        sint (scalar_amount name used) + sint (scalar_amount name req) \<le> sint (scalar_amount name alloc))"

definition zero_request :: "Resource \<Rightarrow> bool" where
  "zero_request r \<longleftrightarrow> r_MilliCPU r = 0 \<and> r_Memory r = 0 \<and> r_EphemeralStorage r = 0 \<and> r_ScalarResources r = Map.empty"

lemma fitsRequest_exact:
  assumes "range_order (so_scalars so (r_ScalarResources req)) (r_ScalarResources req)"
    "nonneg_resource ign groups (ni_Allocatable n)" "nonneg_resource ign groups (ni_Requested n)"
  shows "fitsRequest so req n ign groups = [] \<longleftrightarrow>
    int (length (ni_Pods n)) + 1 \<le> sint (r_AllowedPodNumber (ni_Allocatable n)) \<and>
    (zero_request req \<or> amounts_fit ign groups req (ni_Requested n) (ni_Allocatable n))"
proof -
  let ?ks = "so_scalars so (r_ScalarResources req)"
  have ks: "set ?ks = dom (r_ScalarResources req)" using assms(1) by (simp add: range_order_def)
  have fits: "sint r \<le> sint (f (ni_Allocatable n) - f (ni_Requested n)) \<longleftrightarrow> sint (f (ni_Requested n)) + sint r \<le> sint (f (ni_Allocatable n))"
    if "0 \<le> sint (f (ni_Allocatable n))" "0 \<le> sint (f (ni_Requested n))" for f :: "Resource \<Rightarrow> 64 word" and r :: "64 word"
    using that by (rule fits_amount)
  have "sint (scalar_amount k req) \<le> sint (scalar_amount k (ni_Allocatable n) - scalar_amount k (ni_Requested n)) \<longleftrightarrow>
      sint (scalar_amount k (ni_Requested n)) + sint (scalar_amount k req) \<le> sint (scalar_amount k (ni_Allocatable n))" if "\<not> ignored_resource ign groups k" for k
    using assms(2,3) that by (intro fits) (auto simp: nonneg_resource_def)
  then have sc: "concat (map (\<lambda>k. if ignored_resource ign groups k then [] else insufficient k (''Insufficient '' @ k)
        (scalar_at (r_ScalarResources req) k) (scalar_at (r_ScalarResources (ni_Requested n)) k)
        (scalar_at (r_ScalarResources (ni_Allocatable n)) k)) ?ks) = [] \<longleftrightarrow>
      (\<forall>k\<in>dom (r_ScalarResources req). ignored_resource ign groups k \<or>
        sint (scalar_amount k (ni_Requested n)) + sint (scalar_amount k req) \<le> sint (scalar_amount k (ni_Allocatable n)))"
    unfolding concat_map_Nil ks by (intro ball_cong refl) (auto simp: insufficient_Nil scalar_amount_def)
  have z: "r_MilliCPU req = 0 \<and> r_Memory req = 0 \<and> r_EphemeralStorage req = 0 \<and> length ?ks = 0 \<longleftrightarrow> zero_request req"
    using range_order_Nil_iff [OF assms(1)] by (auto simp: zero_request_def)
  show ?thesis
    unfolding fitsRequest_def Let_def z
    using assms(2,3) fits [of r_MilliCPU] fits [of r_Memory] fits [of r_EphemeralStorage]
    by (cases "zero_request req") (simp_all add: sc amounts_fit_def insufficient_Nil nonneg_resource_def del: concat_eq_Nil_conv)
qed

text \<open>C31: For nonnegative allocatable and requested amounts the resource plugin passes a pod exactly when one more pod is allowed and
  either the pod requests nothing or, in every resource that is not ignored, what is in use and what the pod requests is at most what the node
  has, as integers without wrap-around. Otherwise it answers that the pod is unschedulable, which preemption can resolve. A missing prefilter state is an error.\<close>

theorem fit_filter_exact:
  assumes "cs_storage state ''PreFilterNodeResourcesFit'' = Some (FitState req)"
    "range_order (so_scalars so (r_ScalarResources req)) (r_ScalarResources req)"
    "nonneg_resource (fit_ignoredResources f) (fit_ignoredResourceGroups f) (ni_Allocatable n)"
    "nonneg_resource (fit_ignoredResources f) (fit_ignoredResourceGroups f) (ni_Requested n)"
  shows "status_Code (Fit_Filter so f state pod n) =
      (if int (length (ni_Pods n)) + 1 \<le> sint (r_AllowedPodNumber (ni_Allocatable n)) \<and>
          (zero_request req \<or>
           amounts_fit (fit_ignoredResources f) (fit_ignoredResourceGroups f) req (ni_Requested n) (ni_Allocatable n))
       then Success else Unschedulable) \<and>
    status_Code (Fit_Filter so f (cs_Delete state ''PreFilterNodeResourcesFit'') pod n) = Error"
  using fitsRequest_exact [OF assms(2-4)]
  by (auto simp: Fit_Filter_def Fit_getPreFilterState_def cs_Read_def cs_Delete_def Let_def assms(1))

section \<open>Passing all filters\<close>

text \<open>Orders that list every key of a finite map once.\<close>

definition orders_ok :: "sched_orders \<Rightarrow> bool" where
  "orders_ok so \<longleftrightarrow> sorts_by_key (go_sort so) \<and>
     (\<forall>m. finite (dom m) \<longrightarrow> range_order (go_range so m) m) \<and> (\<forall>m. finite (dom m) \<longrightarrow> range_order (so_ports so m) m) \<and>
     (\<forall>m. finite (dom m) \<longrightarrow> range_order (so_scalars so m) m) \<and> (\<forall>m. finite (dom m) \<longrightarrow> range_order (so_statuses so m) m)"

definition failing :: "PluginToStatus \<Rightarrow> bool" where
  "failing p \<longleftrightarrow> finite (dom p) \<and> (\<forall>s\<in>ran p. st_code s \<noteq> Success \<and> filter_code (st_code s))"

lemma failing_upd:
  assumes "failing m" "st_code s \<noteq> Success" "filter_code (st_code s)"
  shows "failing (m(k \<mapsto> s))" "m(k \<mapsto> s) \<noteq> Map.empty"
proof -
  have "ran (m(k \<mapsto> s)) \<subseteq> insert s (ran m)" by (auto simp: ran_def)
  then show "failing (m(k \<mapsto> s))" using assms by (auto simp: failing_def)
  show "m(k \<mapsto> s) \<noteq> Map.empty" by (metis fun_upd_same option.distinct(1))
qed

lemma failing_empty: "failing Map.empty"
  by (simp add: failing_def)

lemma run_filters_result:
  assumes "failing statuses"
  shows "failing (run_filters runAll pls state pod n statuses) \<and>
    (run_filters runAll pls state pod n statuses = Map.empty \<longleftrightarrow>
       statuses = Map.empty \<and> (\<forall>pl\<in>set pls. IsSuccess (fp_Filter pl state pod n)))"
  using assms
proof (induction pls arbitrary: statuses)
  case (Cons pl pls)
  show ?case
  proof (cases "fp_Filter pl state pod n")
    case None
    then show ?thesis using Cons by simp
  next
    case (Some s)
    consider (ok) "st_code s = Success" | (unsched) "IsUnschedulable (Some s)"
      | (err) "st_code s \<noteq> Success" "\<not> IsUnschedulable (Some s)" by blast
    then show ?thesis
    proof cases
      case ok
      then show ?thesis using Cons Some by simp
    next
      case err
      let ?e = "WithFailedPlugin (AsStatus (Wrapf (''running filter plugin '' @ fp_Name pl) (status_error s))) (fp_Name pl)"
      have run: "run_filters runAll (pl # pls) state pod n statuses = [fp_Name pl \<mapsto> ?e]" using err Some by simp
      have "failing [fp_Name pl \<mapsto> ?e]" "[fp_Name pl \<mapsto> ?e] \<noteq> Map.empty"
        by (rule failing_upd [OF failing_empty]; simp add: filter_code_def)+
      then show ?thesis unfolding run using err Some by (intro conjI iffI) (auto simp del: fun_upd_apply)
    next
      case unsched
      let ?st = "statuses(fp_Name pl \<mapsto> SetFailedPlugin s (fp_Name pl))"
      have f: "failing ?st" "?st \<noteq> Map.empty"
        using failing_upd [OF Cons.prems, of "SetFailedPlugin s (fp_Name pl)"] unsched by (auto simp: filter_code_def)
      then show ?thesis using Cons.IH [OF f(1)] unsched Some by (auto simp: Let_def simp del: fun_upd_apply)
    qed
  qed
qed simp

lemma failing_merge:
  assumes "orders_ok so" "failing p"
  shows "IsSuccess (PluginToStatus_Merge (so_statuses so p) p) \<longleftrightarrow> p = Map.empty"
proof -
  have r: "range_order (so_statuses so p) p" using assms by (simp add: orders_ok_def failing_def)
  show ?thesis
  proof (cases "p = Map.empty")
    case True
    then show ?thesis using Merge_None_iff [OF r] by simp
  next
    case False
    let ?ss = "List.map_filter p (so_statuses so p)"
    obtain s where s: "s \<in> ran p" using False by (metis ranI option.exhaust ext)
    have "PluginToStatus_Merge (so_statuses so p) p = Some (foldl merge_status (NewStatus Success []) ?ss)"
      using Merge_None_iff [OF r] False by (auto simp: PluginToStatus_Merge_def)
    moreover have "statusPrecedence (st_code s) \<le> statusPrecedence (st_code (foldl merge_status (NewStatus Success []) ?ss))"
      using merge_fold [of ?ss "NewStatus Success []"] range_order_map_filter [OF r] s by blast
    moreover have "0 < statusPrecedence (st_code s)"
      using assms(2) s by (cases "st_code s") (auto simp: failing_def filter_code_def statusPrecedence_def)
    ultimately show ?thesis using False by (auto simp: statusPrecedence_def)
  qed
qed

lemma RunFilterPlugins_success:
  assumes "orders_ok so"
  shows "IsSuccess (PluginToStatus_Merge (so_statuses so (RunFilterPlugins f state pod n)) (RunFilterPlugins f state pod n)) \<longleftrightarrow>
    (\<forall>pl\<in>set (fw_filterPlugins f). IsSuccess (fp_Filter pl state pod n))"
  using run_filters_result [OF failing_empty] by (simp add: RunFilterPlugins_def failing_merge [OF assms])

lemma add_nominated_unchanged:
  "add_nominated g f pod pis added st ns = Inr (False, st', n') \<Longrightarrow> \<not> added \<and> st' = st \<and> n' = fst ns"
proof (induction pis arbitrary: added st ns)
  case (Cons pi pis)
  show ?case
  proof (cases "PodPriority pod \<le> PodPriority (pi_Pod pi) \<and> p_UID (pi_Pod pi) \<noteq> p_UID pod")
    case True
    then show ?thesis
      using Cons.prems by (auto simp: Let_def split: prod.splits option.splits if_splits dest!: Cons.IH)
  next
    case False
    then have "add_nominated g f pod pis added st ns = Inr (False, st', n')" using Cons.prems by (auto split: if_splits)
    then show ?thesis by (rule Cons.IH)
  qed
qed simp

text \<open>When the filters pass with the nominated pods, every plugin passed on the node without them, on a cycle state of the same content.\<close>

lemma nominated_success:
  assumes "orders_ok so" "IsSuccess (RunFilterPluginsWithNominatedPods so g gen f state pod n)"
  shows "\<exists>state'. cs_storage state' = cs_storage state \<and> (\<forall>pl\<in>set (fw_filterPlugins f). IsSuccess (fp_Filter pl state' pod n))"
proof -
  obtain added st n1 where a: "addNominatedPods g gen f pod state n = Inr (added, st, n1)"
    using assms(2) by (auto simp: RunFilterPluginsWithNominatedPods_def split: sum.splits)
  let ?ok = "\<lambda>st n. IsSuccess (PluginToStatus_Merge (so_statuses so (RunFilterPlugins f st pod n)) (RunFilterPlugins f st pod n))"
  have run: "if added then ?ok state n else ?ok st n1"
    using assms(2) by (auto simp: RunFilterPluginsWithNominatedPods_def a Let_def split: if_splits)
  show ?thesis
  proof (cases added)
    case True
    then have "?ok state n" using run by simp
    then show ?thesis unfolding RunFilterPlugins_success [OF assms(1)] by blast
  next
    case False
    then have "cs_storage st = cs_storage state" "n1 = n"
      using a by (auto simp: addNominatedPods_def Let_def cs_Clone_def NewCycleState_def split: option.splits if_splits
          dest!: add_nominated_unchanged)
    moreover have "?ok st n1" using run False by simp
    ultimately show ?thesis unfolding RunFilterPlugins_success [OF assms(1)] by blast
  qed
qed

section \<open>The modelled plugins in a framework\<close>

definition node_filters :: "sched_orders \<Rightarrow> Fit \<Rightarrow> NodeAffinity \<Rightarrow> FilterPlugin list" where
  "node_filters so fit na =
     [\<lparr>fp_Name = ''NodeUnschedulable'', fp_Filter = NodeUnschedulable_Filter\<rparr>,
      \<lparr>fp_Name = ''NodeName'', fp_Filter = NodeName_Filter\<rparr>,
      \<lparr>fp_Name = ''TaintToleration'', fp_Filter = TaintToleration_Filter\<rparr>,
      \<lparr>fp_Name = ''NodeAffinity'', fp_Filter = NodeAffinity_Filter (go_orders.truncate so) na\<rparr>,
      \<lparr>fp_Name = ''NodePorts'', fp_Filter = NodePorts_Filter so\<rparr>,
      \<lparr>fp_Name = ''NodeResourcesFit'', fp_Filter = Fit_Filter so fit\<rparr>]"

definition node_prefilters :: "sched_orders \<Rightarrow> feature_gates \<Rightarrow> PreFilterPlugin list" where
  "node_prefilters so g =
     [\<lparr>pp_Name = ''NodeResourcesFit'', pp_PreFilter = Fit_PreFilter g, pp_PreFilterExtensions = None\<rparr>,
      \<lparr>pp_Name = ''NodePorts'', pp_PreFilter = NodePorts_PreFilter, pp_PreFilterExtensions = None\<rparr>,
      \<lparr>pp_Name = ''NodeAffinity'', pp_PreFilter = NodeAffinity_PreFilter (go_orders.truncate so), pp_PreFilterExtensions = None\<rparr>]"

text \<open>The values of the modelled plugins in the cycle state.\<close>

fun node_data :: "sched_orders \<Rightarrow> feature_gates \<Rightarrow> pod \<Rightarrow> string \<rightharpoonup> StateData" where
  "node_data so g pod = [Fit_key \<mapsto> FitState (computePodResourceRequest g pod), NodePorts_key \<mapsto> PortsState (getContainerPorts [pod]),
     NodeAffinity_key \<mapsto> NodeAffinityState (GetRequiredNodeAffinity (go_orders.truncate so) pod)]"

text \<open>A framework has the plugins, beside any others whose prefilters leave that data alone.\<close>

definition has_node_plugins :: "sched_orders \<Rightarrow> feature_gates \<Rightarrow> Fit \<Rightarrow> NodeAffinity \<Rightarrow> filter_framework \<Rightarrow> bool" where
  "has_node_plugins so g fit na f \<longleftrightarrow>
     set (node_filters so fit na) \<subseteq> set (fw_filterPlugins f) \<and> set (node_prefilters so g) \<subseteq> set (fw_preFilterPlugins f) \<and>
     (\<forall>pl\<in>set (fw_preFilterPlugins f). pl \<in> set (node_prefilters so g) \<or>
        (\<forall>state pod. \<forall>k\<in>{Fit_key, NodePorts_key, NodeAffinity_key}. cs_storage (fst (pp_PreFilter pl state pod)) k = cs_storage state k))"

lemma run_prefilters_data:
  assumes "\<forall>pl\<in>set pls. \<forall>state. cs_storage (fst (pp_PreFilter pl state pod)) k \<in> {cs_storage state k, v}"
    "(\<exists>pl\<in>set pls. \<forall>state. cs_storage (fst (pp_PreFilter pl state pod)) k = v) \<or> cs_storage state k = v"
    "run_prefilters pls state pod = (state', s)" "IsSuccess s"
  shows "cs_storage state' k = v"
  using assms
proof (induction pls arbitrary: state)
  case (Cons pl pls)
  obtain st1 s1 where p: "pp_PreFilter pl state pod = (st1, s1)" by fastforce
  have run: "run_prefilters pls st1 pod = (state', s)"
    using Cons.prems(3,4) p by (auto split: option.splits if_splits)
  have "cs_storage st1 k \<in> {cs_storage state k, v}" using Cons.prems(1) p by (metis fst_conv list.set_intros(1))
  moreover have "cs_storage st1 k = v" if "\<forall>state. cs_storage (fst (pp_PreFilter pl state pod)) k = v" using that p by (metis fst_conv)
  ultimately have "(\<exists>pl\<in>set pls. \<forall>state. cs_storage (fst (pp_PreFilter pl state pod)) k = v) \<or> cs_storage st1 k = v"
    using Cons.prems(2) by auto
  then show ?case using Cons.IH [of st1] Cons.prems(1,4) run by simp
qed simp

text \<open>Each prefilter writes the value of its key.\<close>

lemma node_prefilter_writes:
  "cs_storage (fst (Fit_PreFilter g state pod)) = (cs_storage state)(Fit_key := node_data so g pod Fit_key)"
  "cs_storage (fst (NodePorts_PreFilter state pod)) = (cs_storage state)(NodePorts_key := node_data so g pod NodePorts_key)"
  "cs_storage (fst (NodeAffinity_PreFilter (go_orders.truncate so) state pod)) = (cs_storage state)(NodeAffinity_key := node_data so g pod NodeAffinity_key)"
  by (simp_all add: Fit_PreFilter_def NodePorts_PreFilter_def NodeAffinity_PreFilter_def cs_Write_def)

declare node_data.simps [simp del]

lemma node_prefilters_all:
  assumes "pl \<in> set (node_prefilters so g)"
  shows "\<exists>k. \<forall>state pod. cs_storage (fst (pp_PreFilter pl state pod)) = (cs_storage state)(k := node_data so g pod k)"
proof -
  consider "pp_PreFilter pl = Fit_PreFilter g" | "pp_PreFilter pl = NodePorts_PreFilter"
    | "pp_PreFilter pl = NodeAffinity_PreFilter (go_orders.truncate so)"
    using assms by (auto simp: node_prefilters_def)
  then show ?thesis
  proof cases
    case 1
    then show ?thesis using node_prefilter_writes(1) [of g _ _ so] by (intro exI [of _ Fit_key]) simp
  next
    case 2
    then show ?thesis using node_prefilter_writes(2) [of _ _ so g] by (intro exI [of _ NodePorts_key]) simp
  next
    case 3
    then show ?thesis using node_prefilter_writes(3) [of so _ _ g] by (intro exI [of _ NodeAffinity_key]) simp
  qed
qed

lemma node_prefilters_each:
  assumes "k \<in> {Fit_key, NodePorts_key, NodeAffinity_key}"
  shows "\<exists>pl\<in>set (node_prefilters so g). \<forall>state pod. cs_storage (fst (pp_PreFilter pl state pod)) k = node_data so g pod k"
proof -
  consider "k = Fit_key" | "k = NodePorts_key" | "k = NodeAffinity_key" using assms by blast
  then show ?thesis
  proof cases
    case 1
    then show ?thesis using node_prefilter_writes(1) [of g _ _ so] by (intro bexI [of _ "node_prefilters so g ! 0"]) (simp_all add: node_prefilters_def)
  next
    case 2
    then show ?thesis using node_prefilter_writes(2) [of _ _ so g] by (intro bexI [of _ "node_prefilters so g ! 1"]) (simp_all add: node_prefilters_def)
  next
    case 3
    then show ?thesis using node_prefilter_writes(3) [of so _ _ g] by (intro bexI [of _ "node_prefilters so g ! 2"]) (simp_all add: node_prefilters_def)
  qed
qed

lemma node_prefilter_data:
  assumes "has_node_plugins so g fit na f" "RunPreFilterPlugins f state pod = (state', s)" "IsSuccess s" "k \<in> {Fit_key, NodePorts_key, NodeAffinity_key}"
  shows "cs_storage state' k = node_data so g pod k"
proof (rule run_prefilters_data)
  have n: "cs_storage (fst (pp_PreFilter pl state pod)) k \<in> {cs_storage state k, node_data so g pod k}" if "pl \<in> set (node_prefilters so g)" for pl state
    using node_prefilters_all [OF that] by (metis fun_upd_apply insertI1 insertI2)
  show "\<forall>pl\<in>set (fw_preFilterPlugins f). \<forall>state. cs_storage (fst (pp_PreFilter pl state pod)) k \<in> {cs_storage state k, node_data so g pod k}"
    using assms(1,4) n unfolding has_node_plugins_def by blast
  obtain pl where pl: "pl \<in> set (node_prefilters so g)" "\<forall>state pod. cs_storage (fst (pp_PreFilter pl state pod)) k = node_data so g pod k"
    using node_prefilters_each [OF assms(4)] by blast
  then have "pl \<in> set (fw_preFilterPlugins f)" using assms(1) unfolding has_node_plugins_def by (elim conjE) (rule subsetD)
  then show "(\<exists>pl\<in>set (fw_preFilterPlugins f). \<forall>state. cs_storage (fst (pp_PreFilter pl state pod)) k = node_data so g pod k) \<or>
      cs_storage state k = node_data so g pod k"
    using pl(2) by blast
  show "run_prefilters (fw_preFilterPlugins f) state pod = (state', s)" using assms(2) by (simp add: RunPreFilterPlugins_def)
qed (rule assms(3))

text \<open>What a pod and a node must have in common, apart from resources and ports.\<close>

definition node_accepts :: "pod \<Rightarrow> node \<Rightarrow> bool" where
  "node_accepts pod node \<longleftrightarrow>
     (p_NodeName pod = [] \<or> p_NodeName pod = n_Name node) \<and>
     (n_Unschedulable node \<longrightarrow> (\<exists>t\<in>set (p_Tolerations pod). ToleratesTaint t unschedulable_taint)) \<and>
     (\<forall>taint\<in>set (n_Taints node). ta_Effect taint \<in> {''NoSchedule'', ''NoExecute''} \<longrightarrow>
        (\<exists>t\<in>set (p_Tolerations pod). ToleratesTaint t taint)) \<and>
     required_affinity_holds pod node"

lemma node_filters_pass:
  assumes "orders_ok so" "finite (dom (p_NodeSelector pod))" "ni_node n = Some node"
    "\<And>k. k \<in> {Fit_key, NodePorts_key, NodeAffinity_key} \<Longrightarrow> cs_storage state k = node_data so g pod k"
    "\<forall>pl\<in>set (node_filters so fit na). IsSuccess (fp_Filter pl state pod n)"
  shows "node_accepts pod node" "fitsPorts so (pod_ports pod) n"
    "fitsRequest so (computePodResourceRequest g pod) n (fit_ignoredResources fit) (fit_ignoredResourceGroups fit) = []"
proof -
  have sort: "sorts_by_key (go_sort (go_orders.truncate so))"
      "range_order (go_range (go_orders.truncate so) (p_NodeSelector pod)) (p_NodeSelector pod)"
    using assms(1,2) by (simp_all add: orders_ok_def go_orders.defs)
  have data: "cs_storage state Fit_key = Some (FitState (computePodResourceRequest g pod))"
    "cs_storage state NodePorts_key = Some (PortsState (getContainerPorts [pod]))"
    "cs_storage state NodeAffinity_key = Some (NodeAffinityState (GetRequiredNodeAffinity (go_orders.truncate so) pod))"
    using assms(4) by (simp_all add: node_data.simps)
  have p: "IsSuccess (NodeUnschedulable_Filter state pod n)" "IsSuccess (NodeName_Filter state pod n)" "IsSuccess (TaintToleration_Filter state pod n)"
    "IsSuccess (NodeAffinity_Filter (go_orders.truncate so) na state pod n)" "IsSuccess (NodePorts_Filter so state pod n)"
    "IsSuccess (Fit_Filter so fit state pod n)"
    using assms(5) by (simp_all add: node_filters_def)
  have "fst (RequiredNodeAffinity_Match (GetRequiredNodeAffinity (go_orders.truncate so) pod) node)"
    using p(4) by (auto simp: NodeAffinity_Filter_def assms(3) NodeAffinity_getPreFilterState_def cs_Read_def data Let_def split: if_splits prod.splits)
  then have "required_affinity_holds pod node" using required_affinity_result(1) [OF sort] by blast
  moreover have "\<forall>taint\<in>set (n_Taints node). filterPredicate taint \<longrightarrow> TolerationsTolerateTaint (p_Tolerations pod) taint"
    using p(3) by (auto simp: TaintToleration_Filter_def assms(3) FindMatchingUntoleratedTaint_def getFilteredTaints_def find_None_iff split: option.splits)
  moreover have "n_Unschedulable node \<longrightarrow> TolerationsTolerateTaint (p_Tolerations pod) unschedulable_taint"
    using p(1) by (auto simp: NodeUnschedulable_Filter_def assms(3) Let_def split: if_splits)
  ultimately show "node_accepts pod node"
    using p(2) by (auto simp: node_accepts_def NodeName_Filter_def NodeName_Fits_def assms(3) TolerationsTolerateTaint_def list_ex_iff filterPredicate_def
        split: if_splits)
  show "fitsPorts so (pod_ports pod) n"
    using p(5) by (auto simp: NodePorts_Filter_def NodePorts_getPreFilterState_def cs_Read_def data getContainerPorts_def pod_ports_def split: if_splits)
  show "fitsRequest so (computePodResourceRequest g pod) n (fit_ignoredResources fit) (fit_ignoredResourceGroups fit) = []"
    using p(6) by (auto simp: Fit_Filter_def Fit_getPreFilterState_def cs_Read_def data Let_def split: if_splits)
qed

section \<open>Admitted pods\<close>

text \<open>The true sum of an amount over pods.\<close>

definition load :: "(podInfo \<Rightarrow> 64 word) \<Rightarrow> podInfo list \<Rightarrow> int" where
  "load f ps = (\<Sum>p\<leftarrow>ps. sint (f p))"

definition not_overcommitted :: "feature_gates \<Rightarrow> Fit \<Rightarrow> NodeInfo \<Rightarrow> bool" where
  "not_overcommitted g fit n \<longleftrightarrow>
     int (length (ni_Pods n)) \<le> sint (r_AllowedPodNumber (ni_Allocatable n)) \<and>
     load (pod_amount g r_MilliCPU) (ni_Pods n) \<le> sint (r_MilliCPU (ni_Allocatable n)) \<and>
     load (pod_amount g r_Memory) (ni_Pods n) \<le> sint (r_Memory (ni_Allocatable n)) \<and>
     load (pod_amount g r_EphemeralStorage) (ni_Pods n) \<le> sint (r_EphemeralStorage (ni_Allocatable n)) \<and>
     (\<forall>name. ignored_resource (fit_ignoredResources fit) (fit_ignoredResourceGroups fit) name \<or>
        load (pod_amount g (scalar_amount name)) (ni_Pods n) \<le> sint (scalar_amount name (ni_Allocatable n)))"

definition port_conflict :: "string \<times> ProtocolPort \<Rightarrow> string \<times> ProtocolPort \<Rightarrow> bool" where
  "port_conflict x y \<longleftrightarrow> snd x = snd y \<and> (fst x = fst y \<or> fst x = DefaultBindAllHostIP \<or> fst y = DefaultBindAllHostIP)"

definition ports_apart :: "podInfo list \<Rightarrow> bool" where
  "ports_apart ps \<longleftrightarrow>
     (\<forall>p\<in>set ps. \<forall>q\<in>set ps. p \<noteq> q \<longrightarrow>
        (\<forall>x\<in>set (pod_port_keys (pi_Pod p)). \<forall>y\<in>set (pod_port_keys (pi_Pod q)). \<not> port_conflict x y))"

text \<open>What the API server's validation ensures of a pod: no negative requests. Go maps are finite.\<close>

definition pod_ok :: "feature_gates \<Rightarrow> pod \<Rightarrow> bool" where
  "pod_ok g pod \<longleftrightarrow> nonneg_resource {} {} (computePodResourceRequest g pod) \<and> finite (dom (p_NodeSelector pod))"

definition node_ok :: "feature_gates \<Rightarrow> node \<Rightarrow> bool" where
  "node_ok g node \<longleftrightarrow> nonneg_resource {} {} (NewResource g (n_Allocatable node)) \<and> 0 \<le> sint (r_AllowedPodNumber (NewResource g (n_Allocatable node)))"

text \<open>A node starts empty; a pod is added after the plugins passed it for this node, with a UID of its own, and removed with the specification it was
  added with.\<close>

inductive admitted :: "sched_orders \<Rightarrow> feature_gates \<Rightarrow> filter_framework \<Rightarrow> node \<Rightarrow> NodeInfo \<times> int \<Rightarrow> bool" for so g f node where
  adm_new: "admitted so g f node (SetNode g (NewNodeInfo g gen []) node)"
| adm_add: "admitted so g f node ns \<Longrightarrow> RunPreFilterPlugins f NewCycleState pod = (state, s) \<Longrightarrow> IsSuccess s \<Longrightarrow>
    IsSuccess (RunFilterPluginsWithNominatedPods so g gen f state pod (fst ns)) \<Longrightarrow>
    p_UID pod \<noteq> [] \<Longrightarrow> p_UID pod \<notin> (\<lambda>p. p_UID (pi_Pod p)) ` set (ni_Pods (fst ns)) \<Longrightarrow> pod_ok g pod \<Longrightarrow>
    admitted so g f node (AddPod g ns pod)"
| adm_remove: "admitted so g f node ns \<Longrightarrow> ni_allowed True (NiRemove pod) (fst ns) \<Longrightarrow> RemovePod g ns pod = Some (ns', err) \<Longrightarrow>
    admitted so g f node ns'"

definition adm_inv :: "feature_gates \<Rightarrow> Fit \<Rightarrow> node \<Rightarrow> NodeInfo \<Rightarrow> bool" where
  "adm_inv g fit node n \<longleftrightarrow> ni_inv g True n \<and> finite (dom (ni_UsedPorts n)) \<and> ni_node n = Some node \<and>
     ni_Allocatable n = NewResource g (n_Allocatable node) \<and>
     (\<forall>p\<in>set (ni_Pods n). pod_ok g (pi_Pod p) \<and> node_accepts (pi_Pod p) node) \<and> not_overcommitted g fit n \<and> ports_apart (ni_Pods n)"

lemma load_simps [simp]: "load f [] = 0" "load f (ps @ [p]) = load f ps + sint (f p)"
  by (simp_all add: load_def)

lemma load_nonneg: "\<forall>p\<in>set ps. 0 \<le> sint (f p) \<Longrightarrow> 0 \<le> load f ps"
  unfolding load_def by (rule sum_list_nonneg) auto

lemma load_mset: "mset ps = mset qs \<Longrightarrow> load f ps = load f qs"
  unfolding load_def sum_mset_sum_list [symmetric] mset_map by simp

lemma load_remove:
  assumes "x \<in># mset ps" "mset qs = mset ps - {#x#}" "0 \<le> sint (f x)"
  shows "load f qs \<le> load f ps"
proof -
  have "mset ps = mset (x # qs)" using assms by simp
  then have "load f ps = load f (x # qs)" by (rule load_mset)
  then show ?thesis using assms(3) by (simp add: load_def)
qed

text \<open>A sum within the node's capacity is what the wrapping total shows.\<close>

lemma total_load:
  assumes "0 \<le> load f ps" "load f ps \<le> sint (a :: 64 word)"
  shows "sint (total f ps) = load f ps"
proof -
  have "in_int64 (load f ps)" using assms sint_bounds64 [of a] unfolding in_int64_def max_int64_def by linarith
  then show ?thesis using sint_total [of f ps] by (simp only: load_def wrap64_id)
qed

lemma pod_ok_amounts:
  assumes "pod_ok g (pi_Pod p)"
  shows "0 \<le> sint (pod_amount g r_MilliCPU p)" "0 \<le> sint (pod_amount g r_Memory p)" "0 \<le> sint (pod_amount g r_EphemeralStorage p)"
    "0 \<le> sint (pod_amount g (scalar_amount name) p)"
  using assms by (auto simp: pod_ok_def nonneg_resource_def pod_amount_def computePodResourceRequest_eq ignored_resource_def Let_def)

lemma requested_load:
  assumes "totals_ok g n" "\<forall>p\<in>set (ni_Pods n). pod_ok g (pi_Pod p)" "not_overcommitted g fit n"
  shows "sint (r_MilliCPU (ni_Requested n)) = load (pod_amount g r_MilliCPU) (ni_Pods n)"
    "sint (r_Memory (ni_Requested n)) = load (pod_amount g r_Memory) (ni_Pods n)"
    "sint (r_EphemeralStorage (ni_Requested n)) = load (pod_amount g r_EphemeralStorage) (ni_Pods n)"
    "\<not> ignored_resource (fit_ignoredResources fit) (fit_ignoredResourceGroups fit) name \<Longrightarrow>
       sint (scalar_amount name (ni_Requested n)) = load (pod_amount g (scalar_amount name)) (ni_Pods n)"
proof -
  have nn: "0 \<le> load (pod_amount g r_MilliCPU) (ni_Pods n)" "0 \<le> load (pod_amount g r_Memory) (ni_Pods n)"
    "0 \<le> load (pod_amount g r_EphemeralStorage) (ni_Pods n)" "0 \<le> load (pod_amount g (scalar_amount name)) (ni_Pods n)"
    using assms(2) pod_ok_amounts by (auto intro!: load_nonneg)
  have req: "r_MilliCPU (ni_Requested n) = total (pod_amount g r_MilliCPU) (ni_Pods n)"
    "r_Memory (ni_Requested n) = total (pod_amount g r_Memory) (ni_Pods n)"
    "r_EphemeralStorage (ni_Requested n) = total (pod_amount g r_EphemeralStorage) (ni_Pods n)"
    "scalar_amount name (ni_Requested n) = total (pod_amount g (scalar_amount name)) (ni_Pods n)"
    using assms(1) unfolding totals_ok_def by blast+
  have le: "load (pod_amount g r_MilliCPU) (ni_Pods n) \<le> sint (r_MilliCPU (ni_Allocatable n))"
    "load (pod_amount g r_Memory) (ni_Pods n) \<le> sint (r_Memory (ni_Allocatable n))"
    "load (pod_amount g r_EphemeralStorage) (ni_Pods n) \<le> sint (r_EphemeralStorage (ni_Allocatable n))"
    "\<not> ignored_resource (fit_ignoredResources fit) (fit_ignoredResourceGroups fit) name \<Longrightarrow>
       load (pod_amount g (scalar_amount name)) (ni_Pods n) \<le> sint (scalar_amount name (ni_Allocatable n))"
    using assms(3) unfolding not_overcommitted_def by blast+
  show "sint (r_MilliCPU (ni_Requested n)) = load (pod_amount g r_MilliCPU) (ni_Pods n)" unfolding req by (rule total_load [OF nn(1) le(1)])
  show "sint (r_Memory (ni_Requested n)) = load (pod_amount g r_Memory) (ni_Pods n)" unfolding req by (rule total_load [OF nn(2) le(2)])
  show "sint (r_EphemeralStorage (ni_Requested n)) = load (pod_amount g r_EphemeralStorage) (ni_Pods n)"
    unfolding req by (rule total_load [OF nn(3) le(3)])
  show "sint (scalar_amount name (ni_Requested n)) = load (pod_amount g (scalar_amount name)) (ni_Pods n)"
    if "\<not> ignored_resource (fit_ignoredResources fit) (fit_ignoredResourceGroups fit) name"
    unfolding req by (rule total_load [OF nn(4) le(4) [OF that]])
qed

lemma nonneg_ignoring: "nonneg_resource {} {} r \<Longrightarrow> nonneg_resource ign groups r"
  by (auto simp: nonneg_resource_def ignored_resource_def Let_def)

lemma requested_nonneg:
  assumes "totals_ok g n" "\<forall>p\<in>set (ni_Pods n). pod_ok g (pi_Pod p)" "not_overcommitted g fit n"
  shows "nonneg_resource (fit_ignoredResources fit) (fit_ignoredResourceGroups fit) (ni_Requested n)"
proof -
  have "0 \<le> load (pod_amount g r_MilliCPU) (ni_Pods n)" "0 \<le> load (pod_amount g r_Memory) (ni_Pods n)"
    "0 \<le> load (pod_amount g r_EphemeralStorage) (ni_Pods n)" "0 \<le> load (pod_amount g (scalar_amount name)) (ni_Pods n)" for name
    using assms(2) pod_ok_amounts by (auto intro!: load_nonneg)
  then show ?thesis
    unfolding nonneg_resource_def requested_load(1-3) [OF assms] using requested_load(4) [OF assms] by metis
qed

text \<open>A pod that passes the resource check keeps the node within its capacity.\<close>

lemma fits_not_overcommitted:
  assumes inv: "totals_ok g n" "\<forall>p\<in>set (ni_Pods n). pod_ok g (pi_Pod p)" "not_overcommitted g fit n"
    and o: "orders_ok so" and alloc: "nonneg_resource {} {} (ni_Allocatable n)"
    and fits: "fitsRequest so (computePodResourceRequest g pod) n (fit_ignoredResources fit) (fit_ignoredResourceGroups fit) = []"
    and n': "ni_Pods n' = ni_Pods n @ [NewPodInfo pod]" "ni_Allocatable n' = ni_Allocatable n"
  shows "not_overcommitted g fit n'"
proof -
  let ?r = "computePodResourceRequest g pod" and ?ign = "ignored_resource (fit_ignoredResources fit) (fit_ignoredResourceGroups fit)"
  have am: "pod_amount g h (NewPodInfo pod) = h ?r" for h by (simp add: pod_amount_def NewPodInfo_def computePodResourceRequest_eq)
  have "range_order (so_scalars so (r_ScalarResources ?r)) (r_ScalarResources ?r)"
    using o request_finite by (simp add: orders_ok_def)
  from fitsRequest_exact [OF this nonneg_ignoring [OF alloc] requested_nonneg [OF inv]] fits
  have count: "int (length (ni_Pods n)) + 1 \<le> sint (r_AllowedPodNumber (ni_Allocatable n))"
    and fit: "zero_request ?r \<or> amounts_fit (fit_ignoredResources fit) (fit_ignoredResourceGroups fit) ?r (ni_Requested n) (ni_Allocatable n)"
    by blast+
  note rl = requested_load [OF inv]
  have old: "load (pod_amount g r_MilliCPU) (ni_Pods n) \<le> sint (r_MilliCPU (ni_Allocatable n))"
    "load (pod_amount g r_Memory) (ni_Pods n) \<le> sint (r_Memory (ni_Allocatable n))"
    "load (pod_amount g r_EphemeralStorage) (ni_Pods n) \<le> sint (r_EphemeralStorage (ni_Allocatable n))"
    "\<And>name. \<not> ?ign name \<Longrightarrow> load (pod_amount g (scalar_amount name)) (ni_Pods n) \<le> sint (scalar_amount name (ni_Allocatable n))"
    using inv(3) unfolding not_overcommitted_def by blast+
  have main: "load (pod_amount g r_MilliCPU) (ni_Pods n) + sint (r_MilliCPU ?r) \<le> sint (r_MilliCPU (ni_Allocatable n))"
    "load (pod_amount g r_Memory) (ni_Pods n) + sint (r_Memory ?r) \<le> sint (r_Memory (ni_Allocatable n))"
    "load (pod_amount g r_EphemeralStorage) (ni_Pods n) + sint (r_EphemeralStorage ?r) \<le> sint (r_EphemeralStorage (ni_Allocatable n))"
    using fit old(1-3) unfolding amounts_fit_def zero_request_def rl(1-3) by auto
  have "load (pod_amount g (scalar_amount name)) (ni_Pods n) + sint (scalar_amount name ?r) \<le> sint (scalar_amount name (ni_Allocatable n))"
    if ni: "\<not> ?ign name" for name
  proof (cases "name \<in> dom (r_ScalarResources ?r)")
    case True
    then have "\<not> zero_request ?r" unfolding zero_request_def by auto
    then have "amounts_fit (fit_ignoredResources fit) (fit_ignoredResourceGroups fit) ?r (ni_Requested n) (ni_Allocatable n)" using fit by blast
    then have "sint (scalar_amount name (ni_Requested n)) + sint (scalar_amount name ?r) \<le> sint (scalar_amount name (ni_Allocatable n))"
      using True ni unfolding amounts_fit_def by blast
    then show ?thesis unfolding rl(4) [OF ni] .
  next
    case False
    then have "scalar_amount name ?r = 0" by (simp add: scalar_amount_def scalar_at_def domIff)
    then show ?thesis using old(4) [OF ni] by simp
  qed
  then show ?thesis using main count unfolding not_overcommitted_def n' load_simps am by auto
qed

lemma updateUsedPorts_finite: "finite (dom h) \<Longrightarrow> finite (dom (updateUsedPorts h pod add))"
proof -
  have one: "finite (dom h) \<Longrightarrow> finite (dom (if add then HostPortInfo_Add h ip pr port else HostPortInfo_Remove h ip pr port))" for h ip pr port
    by (auto simp: HostPortInfo_Add_def HostPortInfo_Remove_def Let_def split: prod.split option.split intro: finite_subset)
  have "finite (dom h) \<Longrightarrow> finite (dom (foldl (\<lambda>h p. if add then HostPortInfo_Add h (cp_HostIP p) (cp_Protocol p) (cp_HostPort p)
         else HostPortInfo_Remove h (cp_HostIP p) (cp_Protocol p) (cp_HostPort p)) h ps))" for h and ps :: "containerPort list"
    by (induction ps arbitrary: h) (simp_all add: one)
  then show "finite (dom h) \<Longrightarrow> finite (dom (updateUsedPorts h pod add))"
    unfolding updateUsedPorts_def foldl_concat_map .
qed

text \<open>A pod whose ports pass the check is apart from the pods on the node.\<close>

lemma fits_ports_apart:
  assumes o: "orders_ok so" and fin: "finite (dom (ni_UsedPorts n))" and used: "ports_of (ni_UsedPorts n) = all_port_keys (ni_Pods n)"
    and fits: "fitsPorts so (pod_ports pod) n"
    and x: "x \<in> set (pod_port_keys pod)" and q: "q \<in> set (ni_Pods n)" "y \<in> set (pod_port_keys (pi_Pod q))"
  shows "\<not> port_conflict x y"
proof
  assume c: "port_conflict x y"
  have r: "range_order (so_ports so (ni_UsedPorts n)) (ni_UsedPorts n)" using o fin by (simp add: orders_ok_def)
  obtain p where p: "p \<in> set (pod_ports pod)" "port_key p = Some x" using x by (auto simp: pod_port_keys_def map_filter_def)
  have "y \<in> ports_of (ni_UsedPorts n)" unfolding used all_port_keys_def using q by blast
  then have "CheckConflict (so_ports so (ni_UsedPorts n)) (ni_UsedPorts n) (cp_HostIP p) (cp_Protocol p) (cp_HostPort p)"
    unfolding CheckConflict_iff [OF r] using p(2) c by (cases x; cases y) (auto simp: port_conflict_def)
  then show False using fits p(1) by (auto simp: fitsPorts_def list_ex_iff Let_def)
qed

lemma port_conflict_sym: "port_conflict x y \<Longrightarrow> port_conflict y x"
  unfolding port_conflict_def by metis

lemma ports_apart_add:
  assumes "ports_apart ps"
    "\<And>x y q. x \<in> set (pod_port_keys (pi_Pod p)) \<Longrightarrow> q \<in> set ps \<Longrightarrow> y \<in> set (pod_port_keys (pi_Pod q)) \<Longrightarrow> \<not> port_conflict x y"
  shows "ports_apart (ps @ [p])"
proof -
  have "set (ps @ [p]) = insert p (set ps)" by simp
  then show ?thesis
    using assms(1) unfolding ports_apart_def by (simp only:) (blast dest: assms(2) port_conflict_sym)
qed

lemma adm_inv_new:
  assumes "node_ok g node"
  shows "adm_inv g fit node (fst (SetNode g (NewNodeInfo g gen []) node))"
proof -
  let ?n = "fst (SetNode g (NewNodeInfo g gen []) node)"
  have f: "ni_Pods ?n = []" "ni_node ?n = Some node" "ni_Allocatable ?n = NewResource g (n_Allocatable node)" "ni_UsedPorts ?n = Map.empty"
    by (simp_all add: SetNode_def NewNodeInfo_def)
  have "ni_inv g True ?n"
    using ni_reachable_inv [OF ni_next [OF ni_new, of True "NiSetNode node" g gen]] by simp
  then show ?thesis
    using assms by (auto simp: adm_inv_def f not_overcommitted_def ports_apart_def node_ok_def nonneg_resource_def ignored_resource_def Let_def)
qed

lemma adm_inv_add:
  assumes o: "orders_ok so" and pl: "has_node_plugins so g fit na f" and node: "node_ok g node"
    and inv: "adm_inv g fit node n"
    and pre: "RunPreFilterPlugins f NewCycleState pod = (state, s)" "IsSuccess s"
    and run: "IsSuccess (RunFilterPluginsWithNominatedPods so g gen0 f state pod n)"
    and uid: "p_UID pod \<noteq> []" "p_UID pod \<notin> (\<lambda>p. p_UID (pi_Pod p)) ` set (ni_Pods n)" and ok: "pod_ok g pod"
  shows "adm_inv g fit node (fst (AddPod g (n, gen) pod))"
proof -
  obtain n' gen' where r: "AddPodInfo g (n, gen) (NewPodInfo pod) = (n', gen')" by fastforce
  note f = AddPodInfo_fields [OF r]
  have i: "ni_inv g True n" "finite (dom (ni_UsedPorts n))" "ni_node n = Some node" "ni_Allocatable n = NewResource g (n_Allocatable node)"
    "\<forall>p\<in>set (ni_Pods n). pod_ok g (pi_Pod p)" "\<forall>p\<in>set (ni_Pods n). node_accepts (pi_Pod p) node" "not_overcommitted g fit n" "ports_apart (ni_Pods n)"
    using inv by (auto simp: adm_inv_def)
  obtain st where st: "cs_storage st = cs_storage state" "\<forall>pl\<in>set (fw_filterPlugins f). IsSuccess (fp_Filter pl st pod n)"
    using nominated_success [OF o run] by blast
  have "\<forall>pl\<in>set (node_filters so fit na). IsSuccess (fp_Filter pl st pod n)" using st(2) pl unfolding has_node_plugins_def by blast
  moreover have "cs_storage st k = node_data so g pod k" if "k \<in> {Fit_key, NodePorts_key, NodeAffinity_key}" for k
    unfolding st(1) by (rule node_prefilter_data [OF pl pre that])
  moreover have "finite (dom (p_NodeSelector pod))" using ok by (simp add: pod_ok_def)
  ultimately have pass: "node_accepts pod node" "fitsPorts so (pod_ports pod) n"
    "fitsRequest so (computePodResourceRequest g pod) n (fit_ignoredResources fit) (fit_ignoredResourceGroups fit) = []"
    using node_filters_pass [OF o _ i(3), of pod st g fit na] by blast+
  have used: "ports_of (ni_UsedPorts n) = all_port_keys (ni_Pods n)" "totals_ok g n" using i(1) by (auto simp: ni_inv_def)
  note apart = fits_ports_apart [OF o i(2) used(1) pass(2)]
  have "all_port_keys (ni_Pods n) \<inter> set (pod_port_keys pod) = {}"
    using apart by (force simp: all_port_keys_def port_conflict_def)
  then have "ni_inv g True n'" using ni_inv_AddPod [OF i(1), of pod gen] uid r by (simp add: AddPod_def)
  moreover have "not_overcommitted g fit n'"
    by (rule fits_not_overcommitted [OF used(2) i(5,7) o _ pass(3)]) (use node i(4) f in \<open>simp_all add: node_ok_def\<close>)
  moreover have "ports_apart (ni_Pods n')"
    unfolding f(2) by (rule ports_apart_add [OF i(8)]) (rule apart, simp add: NewPodInfo_def)
  ultimately show ?thesis
    using i ok pass(1) f updateUsedPorts_finite [OF i(2)] r by (auto simp: adm_inv_def AddPod_def NewPodInfo_def)
qed

lemma adm_inv_remove:
  assumes inv: "adm_inv g fit node n" and ok: "ni_allowed True (NiRemove pod) n" and run: "RemovePod g (n, gen) pod = Some ((n', gen'), err)"
  shows "adm_inv g fit node n'"
proof (cases "\<exists>x\<in>set (ni_Pods n). p_UID (pi_Pod x) = p_UID pod")
  case True
  then obtain x where x: "x \<in> set (ni_Pods n)" "p_UID (pi_Pod x) = p_UID pod" by blast
  have i: "ni_inv g True n" "finite (dom (ni_UsedPorts n))" "\<forall>p\<in>set (ni_Pods n). pod_ok g (pi_Pod p)" "not_overcommitted g fit n"
    using inv by (auto simp: adm_inv_def)
  have k: "keys_ok (ni_Pods n)" using i(1) by (simp add: ni_inv_def)
  have sp: "same_spec (pi_Pod x) pod" using ok x by auto
  have m: "mset (ni_Pods n') = mset (ni_Pods n) - {#x#}" and f: "ni_node n' = ni_node n" "ni_Allocatable n' = ni_Allocatable n"
    "ni_UsedPorts n' = updateUsedPorts (ni_UsedPorts n) pod False"
    using RemovePod_found [OF k x sp, of g gen] run by auto
  have sub: "set (ni_Pods n') \<subseteq> set (ni_Pods n)" using m by (metis in_diffD set_mset_mset subsetI)
  have len: "length (ni_Pods n') \<le> length (ni_Pods n)" using m by (metis diff_subset_eq_self size_mset size_mset_mono)
  have ld: "load h (ni_Pods n') \<le> load h (ni_Pods n)" if "0 \<le> sint (h x)" for h
    using load_remove [OF _ m, of h] that x(1) by simp
  note am = pod_ok_amounts [of g x]
  have "pod_ok g (pi_Pod x)" using i(3) x(1) by blast
  then have "load (pod_amount g r_MilliCPU) (ni_Pods n') \<le> load (pod_amount g r_MilliCPU) (ni_Pods n)"
    "load (pod_amount g r_Memory) (ni_Pods n') \<le> load (pod_amount g r_Memory) (ni_Pods n)"
    "load (pod_amount g r_EphemeralStorage) (ni_Pods n') \<le> load (pod_amount g r_EphemeralStorage) (ni_Pods n)"
    "\<And>name. load (pod_amount g (scalar_amount name)) (ni_Pods n') \<le> load (pod_amount g (scalar_amount name)) (ni_Pods n)"
    using am ld by blast+
  then have "not_overcommitted g fit n'"
    using i(4) len unfolding not_overcommitted_def f by (auto intro: order_trans)
  moreover have "ni_inv g True n'" by (rule ni_inv_RemovePod [OF i(1) ok run])
  ultimately show ?thesis
    using inv sub updateUsedPorts_finite [OF i(2)] unfolding adm_inv_def f ports_apart_def by blast
next
  case False
  then have "n' = n" using RemovePod_absent run inv by (auto simp: adm_inv_def ni_inv_def)
  then show ?thesis using inv by simp
qed

lemma admitted_inv:
  assumes "admitted so g f node ns" "orders_ok so" "has_node_plugins so g fit na f" "node_ok g node"
  shows "adm_inv g fit node (fst ns)"
  using assms(1)
proof (induction rule: admitted.induct)
  case (adm_new gen)
  show ?case by (rule adm_inv_new [OF assms(4)])
next
  case (adm_add ns pod state s gen)
  then show ?case using adm_inv_add [OF assms(2-4), of "fst ns" pod state s gen "snd ns"] by simp
next
  case (adm_remove ns pod ns' err)
  then show ?case using adm_inv_remove [of g fit node "fst ns" pod "snd ns" "fst ns'" "snd ns'" err] by simp
qed

text \<open>C30: As long as the node object does not change, a node whose pods were all admitted by the framework's filters is safe after any sequence of admissions and
  removals: the true sums of its pods' requests are at most its allocatable amounts, for CPU, memory, ephemeral storage and every scalar resource that the
  resource plugin does not ignore, and it holds no more pods than allowed; no two pods claim the same protocol and port on the same or on all addresses; every pod tolerates
  the taints that repel it, and its node selector and required affinity select the node. This holds with any other plugins beside the modelled ones
  and with pods nominated to the node.\<close>

theorem admission_safe:
  assumes "admitted so g f node (n, gen)" "orders_ok so" "has_node_plugins so g fit na f" "node_ok g node"
  shows "not_overcommitted g fit n \<and> ports_apart (ni_Pods n) \<and> (\<forall>p\<in>set (ni_Pods n). node_accepts (pi_Pod p) node)"
  using admitted_inv [OF assms] by (simp add: adm_inv_def)

text \<open>A framework with exactly the modelled plugins, and sorted keys as orders.\<close>

definition key_orders :: sched_orders where
  "key_orders = \<lparr>go_sort = sort_key rq_key, go_range = (\<lambda>m. sorted_list_of_set (dom m)), so_ports = (\<lambda>m. sorted_list_of_set (dom m)),
     so_scalars = (\<lambda>m. sorted_list_of_set (dom m)), so_statuses = (\<lambda>m. sorted_list_of_set (dom m))\<rparr>"

definition plain_fit :: Fit where
  "plain_fit = \<lparr>fit_ignoredResources = {}, fit_ignoredResourceGroups = {}\<rparr>"

definition plain_affinity :: NodeAffinity where
  "plain_affinity = \<lparr>naf_addedNodeSelector = None, naf_addedPrefSchedTerms = None\<rparr>"

definition node_framework :: filter_framework where
  "node_framework = \<lparr>fw_preFilterPlugins = node_prefilters key_orders sample_gates,
     fw_filterPlugins = node_filters key_orders plain_fit plain_affinity, fw_postFilterPlugins = [], fw_preScorePlugins = [], fw_scorePlugins = [],
     fw_pluginNameToWeightMap = Map.empty, fw_runAllFilters = False,
     fw_NominatedPodsForNode = (\<lambda>_. [])\<rparr>"

lemma key_orders_ok: "orders_ok key_orders"
  by (simp add: orders_ok_def key_orders_def sort_key_sorts range_order_def)

lemma node_framework_plugins: "has_node_plugins key_orders sample_gates plain_fit plain_affinity node_framework"
  by (auto simp: has_node_plugins_def node_framework_def)

definition zone_info :: "NodeInfo \<times> int" where
  "zone_info = SetNode sample_gates (NewNodeInfo sample_gates 0 []) (zone_node ''12'')"

text \<open>The node without pods; its generation and images do not matter.\<close>

definition is_zone_info :: "NodeInfo \<Rightarrow> bool" where
  "is_zone_info n \<longleftrightarrow> ni_node n = Some (zone_node ''12'') \<and> ni_Pods n = [] \<and> ni_UsedPorts n = Map.empty \<and> ni_Requested n = zero_Resource \<and>
     ni_Allocatable n = zero_Resource\<lparr>r_MilliCPU := 4000, r_AllowedPodNumber := 10\<rparr>"

lemma zone_info_is: "is_zone_info (fst zone_info)"
  by (simp add: is_zone_info_def zone_info_def SetNode_def NewNodeInfo_def NewResource_def zone_node_def zero_Resource_def)

lemmas zone_info_fields = zone_info_is [unfolded is_zone_info_def]

lemma zone_request: "computePodResourceRequest sample_gates zone_pod = zero_Resource\<lparr>r_MilliCPU := 100\<rparr>"
  by (simp add: computePodResourceRequest_def zone_pod_def sample_pod_def zero_Resource_def)

lemma zone_ok: "pod_ok sample_gates zone_pod" "node_ok sample_gates (zone_node ''12'')"
  unfolding pod_ok_def node_ok_def zone_request
  by (simp_all add: nonneg_resource_def zero_Resource_def scalar_amount_def scalar_at_def zone_pod_def NewResource_def zone_node_def)

definition zone_state :: CycleState where
  "zone_state = fst (RunPreFilterPlugins node_framework NewCycleState zone_pod)"

lemma zone_prefilter: "RunPreFilterPlugins node_framework NewCycleState zone_pod = (zone_state, None)"
  by (simp add: zone_state_def RunPreFilterPlugins_def node_framework_def node_prefilters_def Fit_PreFilter_def NodePorts_PreFilter_def NodeAffinity_PreFilter_def)

lemma zone_data:
  "cs_storage zone_state Fit_key = Some (FitState (zero_Resource\<lparr>r_MilliCPU := 100\<rparr>))"
  "cs_storage zone_state NodePorts_key = Some (PortsState (getContainerPorts [zone_pod]))"
  "cs_storage zone_state NodeAffinity_key = Some (NodeAffinityState (GetRequiredNodeAffinity (go_orders.truncate key_orders) zone_pod))"
  using node_prefilter_data [OF node_framework_plugins zone_prefilter] by (simp_all add: node_data.simps zone_request)

lemma zone_passes:
  assumes n: "is_zone_info n"
  shows "IsSuccess (RunFilterPluginsWithNominatedPods key_orders sample_gates gen node_framework zone_state zone_pod n)"
proof -
  note fields = n [unfolded is_zone_info_def]
  have range: "sorts_by_key (go_sort (go_orders.truncate key_orders))"
    "range_order (go_range (go_orders.truncate key_orders) (p_NodeSelector zone_pod)) (p_NodeSelector zone_pod)"
    using key_orders_ok zone_ok(1) by (simp_all add: orders_ok_def pod_ok_def go_orders.defs)
  have aff: "fst (RequiredNodeAffinity_Match (GetRequiredNodeAffinity (go_orders.truncate key_orders) zone_pod) (zone_node ''12''))"
    using required_affinity_result(1) [OF range] zone_holds(1) by blast
  have "p_Tolerations zone_pod = []" "n_Taints (zone_node ''12'') = []" "\<not> n_Unschedulable (zone_node ''12'')" "p_NodeName zone_pod = n_Name (zone_node ''12'')"
    by (simp_all add: zone_pod_def sample_pod_def zone_node_def)
  then have "IsSuccess (fp_Filter pl zone_state zone_pod n)" if "pl \<in> set (node_filters key_orders plain_fit plain_affinity)" for pl
    using that aff
    by (auto simp: node_filters_def NodeUnschedulable_Filter_def NodeName_Filter_def NodeName_Fits_def TaintToleration_Filter_def FindMatchingUntoleratedTaint_def
        getFilteredTaints_def NodeAffinity_Filter_def NodeAffinity_getPreFilterState_def plain_affinity_def cs_Read_def NodePorts_Filter_def NodePorts_getPreFilterState_def
        fitsPorts_def CheckConflict_def key_orders_def port_in_def list_ex_iff Fit_Filter_def Fit_getPreFilterState_def fitsRequest_def insufficient_def plain_fit_def
        zero_Resource_def fields zone_data Let_def split: prod.splits)
  then have "IsSuccess (PluginToStatus_Merge (so_statuses key_orders (RunFilterPlugins node_framework zone_state zone_pod n))
      (RunFilterPlugins node_framework zone_state zone_pod n))"
    unfolding RunFilterPlugins_success [OF key_orders_ok] by (simp add: node_framework_def)
  then show ?thesis
    by (simp add: RunFilterPluginsWithNominatedPods_def addNominatedPods_def node_framework_def fields Let_def)
qed

theorem admission_safe_witness:
  "\<exists>n gen. admitted key_orders sample_gates node_framework (zone_node ''12'') (n, gen) \<and> map (p_UID \<circ> pi_Pod) (ni_Pods n) = [''z''] \<and>
     not_overcommitted sample_gates plain_fit n \<and> (\<forall>p\<in>set (ni_Pods n). node_accepts (pi_Pod p) (zone_node ''12''))"
proof -
  have uid: "p_UID zone_pod = ''z''" by (simp add: zone_pod_def sample_pod_def)
  obtain n gen where n: "AddPod sample_gates zone_info zone_pod = (n, gen)" by fastforce
  have new: "admitted key_orders sample_gates node_framework (zone_node ''12'') zone_info"
    unfolding zone_info_def by (rule adm_new)
  have adm: "admitted key_orders sample_gates node_framework (zone_node ''12'') (n, gen)"
    unfolding n [symmetric] by (rule adm_add [OF new zone_prefilter _ zone_passes [OF zone_info_is] _ _ zone_ok(1)]) (simp_all add: uid zone_info_fields)
  have "ni_Pods n = [NewPodInfo zone_pod]"
    using AddPodInfo_fields(2) [of sample_gates "fst zone_info" "snd zone_info" "NewPodInfo zone_pod" n gen] n zone_info_fields by (simp add: AddPod_def)
  then show ?thesis
    using admission_safe [OF adm key_orders_ok node_framework_plugins zone_ok(2)] adm uid by (auto simp: NewPodInfo_def)
qed

text \<open>A pod that requests one more than what is left is turned away.\<close>

theorem fit_filter_exact_witness:
  "status_Code (Fit_Filter key_orders plain_fit zone_state zone_pod (fst zone_info)) = Success \<and>
   status_Code (Fit_Filter key_orders plain_fit (cs_Write zone_state Fit_key (FitState (zero_Resource\<lparr>r_MilliCPU := 4001\<rparr>))) zone_pod (fst zone_info)) = Unschedulable"
proof -
  have r: "range_order (so_scalars key_orders (r_ScalarResources (zero_Resource\<lparr>r_MilliCPU := c\<rparr>))) (r_ScalarResources (zero_Resource\<lparr>r_MilliCPU := c\<rparr>))" for c
    using key_orders_ok by (simp add: orders_ok_def zero_Resource_def)
  have nn: "nonneg_resource (fit_ignoredResources plain_fit) (fit_ignoredResourceGroups plain_fit) (ni_Allocatable (fst zone_info))"
    "nonneg_resource (fit_ignoredResources plain_fit) (fit_ignoredResourceGroups plain_fit) (ni_Requested (fst zone_info))"
    by (simp_all add: zone_info_fields nonneg_resource_def zero_Resource_def scalar_amount_def scalar_at_def)
  show ?thesis
    using fit_filter_exact [OF zone_data(1) r nn, of zone_pod]
      fit_filter_exact [of "cs_Write zone_state Fit_key (FitState (zero_Resource\<lparr>r_MilliCPU := 4001\<rparr>))", OF _ r nn, of 4001 zone_pod]
    by (simp add: cs_Write_def zone_info_fields zero_request_def amounts_fit_def zero_Resource_def)
qed

end
