(* ===== verification/Schedule_Correct.thy ===== *)
theory Schedule_Correct
  imports Generic_Scheduler Admission Snapshot_Correct
begin

text \<open>
  Correctness of the scheduling algorithm (\<open>Generic_Scheduler\<close>): bounds on the number of nodes that are looked for, the result of the search for feasible nodes under
  every interleaving, the exact total scores, the selection among the best nodes, and what a call of \<open>Schedule\<close> on a cache returns.
\<close>

section \<open>The number of nodes to find\<close>

lemma wrap32_bounds: "- (2 ^ 31) \<le> wrap32 x" "wrap32 x < 2 ^ 31"
proof -
  have "0 \<le> (x + 2 ^ 31) mod (2 ^ 32)" "(x + 2 ^ 31) mod (2 ^ 32) < (2 ^ 32 :: int)" by simp_all
  then show "- (2 ^ 31) \<le> wrap32 x" "wrap32 x < 2 ^ 31" by (simp_all add: wrap32_def)
qed

lemma wrap32_id: "- (2 ^ 31) \<le> x \<Longrightarrow> x < 2 ^ 31 \<Longrightarrow> wrap32 x = x"
  by (simp add: wrap32_def)

lemma quot_nonneg: "0 \<le> a \<Longrightarrow> 0 < b \<Longrightarrow> quot a b = a div b"
  by (cases "a = 0") (simp_all add: quot_def)

lemma quot_neg: "a < 0 \<Longrightarrow> 0 < b \<Longrightarrow> quot a b \<le> 0"
  by (simp add: quot_def pos_imp_zdiv_nonneg_iff)

lemma num_nodes_share:
  assumes n: "100 \<le> n" "n < 2 ^ 31" and p: "1 \<le> p" "p < (100 :: int)"
  shows "quot (wrap32 (n * p)) 100 \<le> n"
proof (cases "n * p < 2 ^ 31")
  case True
  have "0 \<le> n * p" using n p by simp
  moreover have "n * p div 100 \<le> n"
  proof -
    have "n * p \<le> n * 100" using n p by (intro mult_left_mono) simp_all
    then show ?thesis using zdiv_mono1 [of "n * p" "n * 100" 100] by simp
  qed
  ultimately show ?thesis using True by (simp add: wrap32_id quot_nonneg)
next
  case False
  have "n * p \<le> n * 99" using n p by (intro mult_left_mono) simp_all
  then have big: "21474837 \<le> n" using False by simp
  show ?thesis
  proof (cases "wrap32 (n * p) < 0")
    case True
    then show ?thesis using quot_neg [of "wrap32 (n * p)" 100] n by simp
  next
    case False
    then have "quot (wrap32 (n * p)) 100 \<le> (2 ^ 31 - 1) div 100"
      using wrap32_bounds(2) [of "n * p"] by (simp add: quot_nonneg)
    then show ?thesis using big by simp
  qed
qed

lemma num_nodes_bounds:
  assumes "0 \<le> n" "n < 2 ^ 31"
  shows "min 100 n \<le> numFeasibleNodesToFind p n" "numFeasibleNodesToFind p n \<le> n"
proof -
  have d: "wrap32 (50 - quot n 125) = 50 - n div 125" if "100 \<le> n"
  proof -
    have "0 \<le> n div 125" "n div 125 \<le> n" using that by (simp_all add: pos_imp_zdiv_nonneg_iff)
    then show ?thesis using assms that by (simp add: quot_nonneg wrap32_id)
  qed
  have "0 \<le> n div 125" using assms by (simp add: pos_imp_zdiv_nonneg_iff)
  then have pc: "1 \<le> (if p \<le> 0 then let q = wrap32 (50 - quot n 125) in if q < 5 then 5 else q else p)"
    "(if p \<le> 0 then let q = wrap32 (50 - quot n 125) in if q < 5 then 5 else q else p) < 100" if "100 \<le> n" "p < 100"
    using d [OF that(1)] that by (simp_all add: Let_def)
  show "min 100 n \<le> numFeasibleNodesToFind p n" "numFeasibleNodesToFind p n \<le> n"
    using num_nodes_share [OF _ assms(2) pc] assms
    by (auto simp: numFeasibleNodesToFind_def minFeasibleNodesToFind_def minFeasibleNodesPercentageToFind_def Let_def)
qed

section \<open>The nodes that pass the filters\<close>

abbreviation node_of :: "NodeInfo \<Rightarrow> node" where
  "node_of i \<equiv> the (ni_node i)"

definition check :: "sched_orders \<Rightarrow> feature_gates \<Rightarrow> int \<Rightarrow> filter_framework \<Rightarrow> CycleState \<Rightarrow> pod \<Rightarrow> NodeInfo \<Rightarrow> Status option" where
  "check so g gen f state pod info = RunFilterPluginsWithNominatedPods so g gen f state pod info"

text \<open>A list of node informations as the snapshot has it.\<close>

definition node_list :: "NodeInfo list \<Rightarrow> bool" where
  "node_list nodes \<longleftrightarrow> nodes \<noteq> [] \<and> list_all (\<lambda>i. ni_node i \<noteq> None) nodes \<and> distinct (map (\<lambda>i. n_Name (node_of i)) nodes) \<and> length nodes < 2 ^ 31"

lemma rotated: "map (\<lambda>i. f (xs ! ((start + i) mod length xs))) [0..<length xs] = rotate start (map f xs)"
proof (rule nth_equalityI)
  fix i assume "i < length (map (\<lambda>i. f (xs ! ((start + i) mod length xs))) [0..<length xs])"
  then have i: "i < length xs" by simp
  then have "(start + i) mod length xs < length xs" by (intro mod_less_divisor) linarith
  then show "map (\<lambda>i. f (xs ! ((start + i) mod length xs))) [0..<length xs] ! i = rotate start (map f xs) ! i"
    using i by (simp add: nth_rotate)
qed simp

lemma check_env_simps [simp]:
  "pv_nodes (check_env so g gen f state pod nodes start num) = rotate start (map node_of nodes)"
  "pv_num (check_env so g gen f state pod nodes start num) = num"
  using rotated [of node_of nodes start] by (simp_all add: check_env_def)

lemma check_env_piece:
  "pv_check (check_env so g gen f state pod nodes start num) i = check so g gen f state pod (nodes ! ((start + i) mod length nodes))"
  by (simp add: check_env_def check_def)

lemma check_env_pieces:
  assumes "nodes \<noteq> []"
  shows "i < length nodes \<Longrightarrow> nodes ! ((start + i) mod length nodes) \<in> set nodes"
    "info \<in> set nodes \<Longrightarrow> \<exists>i<length nodes. info = nodes ! ((start + i) mod length nodes)"
proof -
  show "i < length nodes \<Longrightarrow> nodes ! ((start + i) mod length nodes) \<in> set nodes" using assms by simp
  assume "info \<in> set nodes"
  then have "info \<in> set (rotate start nodes)" by simp
  then obtain i where "i < length nodes" "info = rotate start nodes ! i" by (metis in_set_conv_nth length_rotate)
  then show "\<exists>i<length nodes. info = nodes ! ((start + i) mod length nodes)" by (auto simp: nth_rotate)
qed

lemma check_env_node:
  assumes "nodes \<noteq> []" "i < length nodes"
  shows "pv_nodes (check_env so g gen f state pod nodes start num) ! i = node_of (nodes ! ((start + i) mod length nodes))"
  using assms by (simp add: nth_rotate)

lemma check_env_passing:
  assumes "nodes \<noteq> []"
  shows "passing (check_env so g gen f state pod nodes start num) = node_of ` {i \<in> set nodes. IsSuccess (check so g gen f state pod i)}"
proof -
  have "passing (check_env so g gen f state pod nodes start num) =
      (\<lambda>i. node_of (nodes ! ((start + i) mod length nodes))) ` {i. i < length nodes \<and> IsSuccess (check so g gen f state pod (nodes ! ((start + i) mod length nodes)))}"
    unfolding passing_def set_map
  proof (rule image_cong)
    fix i assume "i \<in> {i. i < length nodes \<and> IsSuccess (check so g gen f state pod (nodes ! ((start + i) mod length nodes)))}"
    then show "pv_nodes (check_env so g gen f state pod nodes start num) ! i = node_of (nodes ! ((start + i) mod length nodes))"
      using check_env_node [OF assms] by blast
  qed (auto simp: check_env_piece)
  also have "\<dots> = node_of ` {i \<in> set nodes. IsSuccess (check so g gen f state pod i)}"
    using check_env_pieces [OF assms] by (auto simp: image_iff) metis
  finally show ?thesis .
qed

text \<open>The result of the search, whatever the interleaving.\<close>

definition found ::
  "sched_orders \<Rightarrow> feature_gates \<Rightarrow> int \<Rightarrow> filter_framework \<Rightarrow> CycleState \<Rightarrow> pod \<Rightarrow> NodeInfo list \<Rightarrow> int \<Rightarrow> Diagnosis \<Rightarrow> go_error + node list \<Rightarrow> bool" where
  "found so g gen f state pod nodes num d r =
     (case r of
        Inl err \<Rightarrow> \<exists>i\<in>set nodes. status_Code (check so g gen f state pod i) = Error \<and> AsError (check so g gen f state pod i) = Some err
      | Inr ns \<Rightarrow>
          distinct ns \<and> set ns \<subseteq> node_of ` {i \<in> set nodes. IsSuccess (check so g gen f state pod i)} \<and> int (length ns) \<le> num \<and>
          (int (length ns) < num \<longrightarrow>
             set ns = node_of ` {i \<in> set nodes. IsSuccess (check so g gen f state pod i)} \<and>
             (\<forall>i\<in>set nodes. IsSuccess (check so g gen f state pod i) \<or>
                di_NodeToStatusMap d (n_Name (node_of i)) = check so g gen f state pod i)))"

lemma search_found:
  assumes nl: "node_list nodes" and num: "0 \<le> num"
    and e_def: "e = check_env so g gen f state pod nodes start (nat num)"
    and s_def: "s = pf_search e sched (pf_init e statuses plugins)"
  shows "found so g gen f state pod nodes num \<lparr>di_NodeToStatusMap = pf_statuses s, di_UnschedulablePlugins = pf_plugins s\<rparr>
    (case pf_err s of Some err \<Rightarrow> Inl err | None \<Rightarrow> Inr (map the (take (pf_len s) (pf_feasible s))))"
proof -
  have ne: "nodes \<noteq> []" using nl by (simp add: node_list_def)
  have d: "distinct (map n_Name (pv_nodes e))" using nl by (simp add: node_list_def e_def rotate_map [symmetric] distinct_map comp_def)
  have inv: "pf_inv e statuses s" unfolding s_def by (rule pf_search_inv [OF d])
  have over: "pf_done e s" unfolding s_def by (rule pf_search_done)
  have len: "length (pv_nodes e) = length nodes" by (simp add: e_def)
  show ?thesis
  proof (cases "pf_err s")
    case None
    note r = done_feasible [OF d inv over None]
    have pass: "passing e = node_of ` {i \<in> set nodes. IsSuccess (check so g gen f state pod i)}" unfolding e_def by (rule check_env_passing [OF ne])
    have pn: "int (pf_len s) \<le> num" "(int (pf_len s) < num) = (pf_len s < pv_num e)"
      using done_slots(2) [OF inv over None] num by (simp_all add: e_def) linarith+
    have "pf_statuses s (n_Name (node_of i)) = check so g gen f state pod i"
      if i: "i \<in> set nodes" "\<not> IsSuccess (check so g gen f state pod i)" and few: "pf_len s < pv_num e" for i
    proof -
      obtain j where j: "j < length nodes" "i = nodes ! ((start + j) mod length nodes)" using check_env_pieces(2) [OF ne i(1)] by blast
      have c: "pv_check e j = check so g gen f state pod i" using j by (simp add: e_def check_env_piece)
      have "pf_phase s j = Failed" using done_complete [OF inv over None few, of j] i(2) c j(1) len by simp
      then have "pf_statuses s (n_Name (pv_nodes e ! j)) = pv_check e j" using inv j(1) len by (simp add: pf_inv_def statuses_ok_def)
      moreover have "pv_nodes e ! j = node_of i" using j ne by (simp add: e_def nth_rotate)
      ultimately show ?thesis using c by simp
    qed
    then show ?thesis using r pn pass None by (simp add: found_def) blast
  next
    case (Some err)
    then obtain i where "i < length nodes" "status_Code (pv_check e i) = Error" "AsError (pv_check e i) = Some err"
      using inv len by (auto simp: pf_inv_def err_ok_def)
    then show ?thesis using Some check_env_pieces(1) [OF ne] by (auto simp: found_def e_def check_env_piece)
  qed
qed

lemma find_nodes_found:
  assumes nl: "node_list nodes" and f: "HasFilterPlugins f"
  shows "\<exists>next d r. findNodesThatPassFilters so g gen sched gs f state pod diagnosis nodes = Some (gs\<lparr>gs_nextStartNodeIndex := next\<rparr>, d, r) \<and>
    next < length nodes \<and> found so g gen f state pod nodes (numFeasibleNodesToFind (gs_percentageOfNodesToScore gs) (int (length nodes))) d r"
proof -
  let ?num = "numFeasibleNodesToFind (gs_percentageOfNodesToScore gs) (int (length nodes))"
  have n: "nodes \<noteq> []" "list_all (\<lambda>i. ni_node i \<noteq> None) nodes" "length nodes < 2 ^ 31" using nl by (simp_all add: node_list_def)
  have w: "wrap32 (int (length nodes)) = int (length nodes)" using n(3) by (intro wrap32_id) simp_all
  have num: "0 \<le> ?num" using num_nodes_bounds(1) [of "int (length nodes)" "gs_percentageOfNodesToScore gs"] n(3) by simp
  have no: "\<not> list_ex (\<lambda>i. ni_node i = None) nodes" using n(2) by (auto simp: list_ex_iff list_all_iff)
  show ?thesis
    using search_found [OF nl num refl refl, of so g gen f state pod "gs_nextStartNodeIndex gs" sched "di_NodeToStatusMap diagnosis" "di_UnschedulablePlugins diagnosis"] num no n(1) f
    unfolding findNodesThatPassFilters_def Let_def w ReceiveError_def fst_conv by fastforce
qed

section \<open>Snapshots of a cache\<close>

definition live :: "(string \<rightharpoonup> NodeInfo) \<Rightarrow> NodeInfo set" where
  "live im = {i. \<exists>nd. ni_node i = Some nd \<and> im (n_Name nd) = Some i}"

definition snap_view :: "(string \<rightharpoonup> NodeInfo) \<Rightarrow> Snapshot \<Rightarrow> bool" where
  "snap_view im s \<longleftrightarrow> set (sn_List s) = live im \<and> distinct (map (\<lambda>i. n_Name (node_of i)) (sn_List s)) \<and>
     (\<forall>name i. sn_Get s name = Inr i \<longrightarrow> i \<in> live im \<and> n_Name (node_of i) = name)"

lemma snapshot_view:
  assumes wf: "sn_wf s" and ok: "lists_ok s" and c: "contents s = live_map im"
    and names: "\<And>name i nd. im name = Some i \<Longrightarrow> ni_node i = Some nd \<Longrightarrow> n_Name nd = name"
  shows "snap_view im s"
proof -
  have cc: "contents s name = Some i \<longleftrightarrow> im name = Some i \<and> ni_node i \<noteq> None" for name i
    by (cases "im name") (auto simp: c live_map_def node_at_def)
  have nm: "n_Name (node_of i) = name" if "contents s name = Some i" for name i using that names cc by force
  have live: "i \<in> live im \<longleftrightarrow> (\<exists>name. contents s name = Some i)" for i
  proof
    assume "i \<in> live im"
    then show "\<exists>name. contents s name = Some i" unfolding cc by (auto simp: live_def)
  next
    assume "\<exists>name. contents s name = Some i"
    then obtain name where "contents s name = Some i" by blast
    then show "i \<in> live im" using nm [of name i] by (auto simp: cc live_def)
  qed
  have "set (sn_List s) = {i. \<exists>name. contents s name = Some i}"
    using ok by (auto simp: sn_List_def lists_ok_def contents_def ran_def)
  then have set: "set (sn_List s) = live im" using live by blast
  have "inj_on (\<lambda>a. n_Name (node_of (sn_info s a))) (set (sn_nodeInfoList s))"
  proof (rule inj_onI)
    fix a b assume ab: "a \<in> set (sn_nodeInfoList s)" "b \<in> set (sn_nodeInfoList s)" "n_Name (node_of (sn_info s a)) = n_Name (node_of (sn_info s b))"
    then obtain x y where xy: "sn_nodeInfoMap s x = Some a" "sn_nodeInfoMap s y = Some b" using ok by (auto simp: lists_ok_def ran_def)
    then have "contents s x = Some (sn_info s a)" "contents s y = Some (sn_info s b)" by (simp_all add: contents_def)
    then have "x = y" using nm ab(3) by metis
    then show "a = b" using xy by simp
  qed
  then have "distinct (map (\<lambda>i. n_Name (node_of i)) (sn_List s))" using ok by (simp add: sn_List_def lists_ok_def distinct_map comp_def)
  moreover have "i \<in> live im \<and> n_Name (node_of i) = name" if "sn_Get s name = Inr i" for name i
  proof -
    have "contents s name = Some i" using that by (auto simp: Get_contents split: option.splits if_splits)
    then show ?thesis using live nm by blast
  qed
  ultimately show ?thesis using set by (simp add: snap_view_def)
qed

lemma take_snapshot:
  assumes "snap_reachable g order c s" "map_orders order"
  shows "\<exists>s'. UpdateSnapshot order c s = Some (s', None) \<and> snap_view (imap c) s' \<and> snap_reachable g order c s'"
proof -
  have inv: "sc_inv g c" using snap_reachable_inv [OF assms] by simp
  obtain s' where r: "UpdateSnapshot order c s = Some (s', None)" "sn_wf s'" "lists_ok s'" "contents s' = live_map (imap c)"
    using UpdateSnapshot_ok snap_reachable_inv [OF assms] assms(2) by blast
  have "n_Name nd = name" if "imap c name = Some i" "ni_node i = Some nd" for name i nd
    using inv that by (fastforce simp: sc_inv_def im_ok_def info_ok_def)
  then show ?thesis using r snapshot_view [OF r(2-4)] snap_take [OF assms(1) r(1)] by blast
qed

section \<open>The nodes that fit the pod\<close>

text \<open>What is documented of extenders: the nodes that pass are some of those that were supplied.\<close>

definition extenders_ok :: "Extender list \<Rightarrow> bool" where
  "extenders_ok extenders \<longleftrightarrow>
     (\<forall>ex\<in>set extenders. \<forall>pod nodes ns fm um. ex_Filter ex pod nodes = Inr (ns, fm, um) \<longrightarrow> set ns \<subseteq> set nodes)"

lemma extenders_subset:
  "extenders_ok extenders \<Longrightarrow> findNodesThatPassExtenders extenders pod ns st = (st', Inr ns') \<Longrightarrow> set ns' \<subseteq> set ns"
proof (induction extenders arbitrary: ns st)
  case (Cons ex exs)
  have ok: "extenders_ok exs" using Cons.prems(1) by (simp add: extenders_ok_def)
  have sub: "set l \<subseteq> set ns" if "ex_Filter ex pod ns = Inr (l, fm, um)" for l fm um
    using Cons.prems(1) that unfolding extenders_ok_def by (meson list.set_intros(1))
  show ?case
    using Cons.prems(2) Cons.IH [OF ok] sub by (auto split: if_splits sum.splits prod.splits)
qed simp

text \<open>What the search finds, the nominated node included, in terms of the live nodes of the cache.\<close>

definition fit_found ::
  "sched_orders \<Rightarrow> feature_gates \<Rightarrow> int \<Rightarrow> filter_framework \<Rightarrow> CycleState \<Rightarrow> pod \<Rightarrow> (string \<rightharpoonup> NodeInfo) \<Rightarrow> Extender list \<Rightarrow> Diagnosis \<Rightarrow> go_error + node list \<Rightarrow> bool" where
  "fit_found so g gen f state pod im extenders d r =
     (case r of
        Inl err \<Rightarrow> extenders \<noteq> [] \<or> (\<exists>i\<in>live im. status_Code (check so g gen f state pod i) = Error)
      | Inr ns \<Rightarrow>
          set ns \<subseteq> node_of ` {i \<in> live im. IsSuccess (check so g gen f state pod i)} \<and>
          (ns = [] \<longrightarrow> extenders = [] \<longrightarrow>
             (\<forall>i\<in>live im. \<not> IsSuccess (check so g gen f state pod i) \<and> di_NodeToStatusMap d (n_Name (node_of i)) = check so g gen f state pod i)))"

lemma found_subset:
  assumes "found so g gen f state pod nodes num d (Inr ns)" "set nodes \<subseteq> A"
  shows "set ns \<subseteq> node_of ` {i \<in> A. IsSuccess (check so g gen f state pod i)}"
proof -
  have "set ns \<subseteq> node_of ` {i \<in> set nodes. IsSuccess (check so g gen f state pod i)}" using assms(1) by (simp add: found_def)
  also have "\<dots> \<subseteq> node_of ` {i \<in> A. IsSuccess (check so g gen f state pod i)}" using assms(2) by (intro image_mono) blast
  finally show ?thesis .
qed

lemma extended_found:
  assumes fnd: "found so g gen f state pod nodes num d (Inr ns)" and set: "set nodes = live im" and num: "0 < num" and ext: "extenders_ok extenders"
    and r: "findNodesThatPassExtenders extenders pod ns (di_NodeToStatusMap d) = (statuses, r)"
  shows "fit_found so g gen f state pod im extenders (d\<lparr>di_NodeToStatusMap := statuses\<rparr>) r"
proof (cases r)
  case (Inl err)
  then have "extenders \<noteq> []" using r by auto
  then show ?thesis using Inl by (simp add: fit_found_def)
next
  case (Inr ns')
  have "set ns' \<subseteq> set ns" using extenders_subset [OF ext] r Inr by blast
  then have "set ns' \<subseteq> node_of ` {i \<in> live im. IsSuccess (check so g gen f state pod i)}"
    using found_subset [OF fnd, of "live im"] set by blast
  moreover have "\<forall>i\<in>live im. \<not> IsSuccess (check so g gen f state pod i) \<and> statuses (n_Name (node_of i)) = check so g gen f state pod i"
    if e: "ns' = []" "extenders = []"
  proof -
    have "ns = []" "statuses = di_NodeToStatusMap d" using r Inr e by auto
    then show ?thesis using fnd num set by (auto simp: found_def)
  qed
  ultimately show ?thesis using Inr by (simp add: fit_found_def)
qed

lemma num_pos: "0 < n \<Longrightarrow> n < 2 ^ 31 \<Longrightarrow> 0 < numFeasibleNodesToFind p n"
  using num_nodes_bounds(1) [of n p] by simp

lemma search_all_found:
  assumes nl: "node_list nodes" and f: "HasFilterPlugins f" and set: "set nodes = live im" and ext: "extenders_ok (gs_extenders gs)"
  shows "\<exists>next d r. search_all so g gen sched gs f state pod diagnosis nodes = Some (gs\<lparr>gs_nextStartNodeIndex := next\<rparr>, state, d, r) \<and>
    fit_found so g gen f state pod im (gs_extenders gs) d r"
proof -
  obtain "next" d r where fn: "findNodesThatPassFilters so g gen sched gs f state pod diagnosis nodes = Some (gs\<lparr>gs_nextStartNodeIndex := next\<rparr>, d, r)"
    "found so g gen f state pod nodes (numFeasibleNodesToFind (gs_percentageOfNodesToScore gs) (int (length nodes))) d r"
    using find_nodes_found [OF nl f] by blast
  show ?thesis
  proof (cases r)
    case (Inl err)
    then show ?thesis using fn set by (auto simp: search_all_def fit_found_def found_def)
  next
    case (Inr ns)
    obtain statuses r2 where e: "findNodesThatPassExtenders (gs_extenders gs) pod ns (di_NodeToStatusMap d) = (statuses, r2)" by fastforce
    have "0 < numFeasibleNodesToFind (gs_percentageOfNodesToScore gs) (int (length nodes))" using nl by (intro num_pos) (simp_all add: node_list_def)
    then have "fit_found so g gen f state pod im (gs_extenders gs) (d\<lparr>di_NodeToStatusMap := statuses\<rparr>) r2"
      using extended_found [OF _ set _ ext e] fn(2) Inr by blast
    then show ?thesis using fn(1) Inr e by (auto simp: search_all_def)
  qed
qed

lemma nominated_found:
  assumes view: "snap_view im (gs_nodeInfoSnapshot gs)" and f: "HasFilterPlugins f" and ext: "extenders_ok (gs_extenders gs)"
  shows "\<exists>next d r. evaluateNominatedNode so g gen sched gs pod f state diagnosis = Some (gs\<lparr>gs_nextStartNodeIndex := next\<rparr>, d, r) \<and>
    (\<forall>ns. r = Inr ns \<longrightarrow> set ns \<subseteq> node_of ` {i \<in> live im. IsSuccess (check so g gen f state pod i)})"
proof (cases "sn_Get (gs_nodeInfoSnapshot gs) (p_NominatedNodeName pod)")
  case (Inl err)
  then show ?thesis by (intro exI [of _ "gs_nextStartNodeIndex gs"]) (simp add: evaluateNominatedNode_def)
next
  case (Inr info)
  then have info: "info \<in> live im" using view by (simp add: snap_view_def)
  then have nl: "node_list [info]" by (auto simp: node_list_def live_def)
  obtain "next" d r where fn: "findNodesThatPassFilters so g gen sched gs f state pod diagnosis [info] = Some (gs\<lparr>gs_nextStartNodeIndex := next\<rparr>, d, r)"
    "found so g gen f state pod [info] (numFeasibleNodesToFind (gs_percentageOfNodesToScore gs) (int (length [info]))) d r"
    using find_nodes_found [OF nl f] by blast
  show ?thesis
  proof (cases r)
    case (Inl err)
    then show ?thesis using fn Inr by (auto simp: evaluateNominatedNode_def)
  next
    case r: (Inr ns)
    obtain statuses r2 where e: "findNodesThatPassExtenders (gs_extenders gs) pod ns (di_NodeToStatusMap d) = (statuses, r2)" by fastforce
    have "set ns \<subseteq> node_of ` {i \<in> live im. IsSuccess (check so g gen f state pod i)}"
      using found_subset [of so g gen f state pod "[info]" _ d ns "live im"] fn(2) r info by simp
    then show ?thesis using fn(1) r e Inr extenders_subset [OF ext, of pod ns "di_NodeToStatusMap d" statuses] by (auto simp: evaluateNominatedNode_def)
  qed
qed

lemma nominated_or_all_found:
  assumes view: "snap_view im (gs_nodeInfoSnapshot gs)" and nl: "node_list (sn_List (gs_nodeInfoSnapshot gs))" and f: "HasFilterPlugins f"
    and ext: "extenders_ok (gs_extenders gs)"
  shows "\<exists>next d r. nominated_or_all so g gen ch gs f state pod diagnosis (sn_List (gs_nodeInfoSnapshot gs)) =
      Some (gs\<lparr>gs_nextStartNodeIndex := next\<rparr>, state, d, r) \<and> fit_found so g gen f state pod im (gs_extenders gs) d r"
proof -
  have set: "set (sn_List (gs_nodeInfoSnapshot gs)) = live im" using view by (simp add: snap_view_def)
  have all: "\<exists>next d r. search_all so g gen (ch_search ch) (gs\<lparr>gs_nextStartNodeIndex := next0\<rparr>) f state pod diagnosis0 (sn_List (gs_nodeInfoSnapshot gs)) =
      Some (gs\<lparr>gs_nextStartNodeIndex := next\<rparr>, state, d, r) \<and> fit_found so g gen f state pod im (gs_extenders gs) d r" for next0 diagnosis0
    using search_all_found [OF nl f set, of "gs\<lparr>gs_nextStartNodeIndex := next0\<rparr>"] ext by fastforce
  show ?thesis
  proof (cases "length (p_NominatedNodeName pod) > 0 \<and> PreferNominatedNode g")
    case True
    obtain "next" d r where ev: "evaluateNominatedNode so g gen (ch_nominated ch) gs pod f state diagnosis = Some (gs\<lparr>gs_nextStartNodeIndex := next\<rparr>, d, r)"
      "\<And>ns. r = Inr ns \<Longrightarrow> set ns \<subseteq> node_of ` {i \<in> live im. IsSuccess (check so g gen f state pod i)}"
      using nominated_found [OF view f ext, of so g gen "ch_nominated ch" pod state diagnosis] by blast
    show ?thesis
    proof (cases "\<exists>node nodes. r = Inr (node # nodes)")
      case True
      then show ?thesis using ev \<open>length (p_NominatedNodeName pod) > 0 \<and> PreferNominatedNode g\<close>
        by (fastforce simp: nominated_or_all_def fit_found_def)
    next
      case False
      then have "nominated_or_all so g gen ch gs f state pod diagnosis (sn_List (gs_nodeInfoSnapshot gs)) =
          search_all so g gen (ch_search ch) (gs\<lparr>gs_nextStartNodeIndex := next\<rparr>) f state pod d (sn_List (gs_nodeInfoSnapshot gs))"
        using ev(1) \<open>length (p_NominatedNodeName pod) > 0 \<and> PreferNominatedNode g\<close> by (auto simp: nominated_or_all_def split: sum.splits list.splits)
      then show ?thesis using all by simp
    qed
  next
    case False
    then show ?thesis using all [of "gs_nextStartNodeIndex gs" diagnosis] by (auto simp: nominated_or_all_def)
  qed
qed

text \<open>When the prefilter plugins turn the pod away, every node gets their status.\<close>

lemma fold_const: "fold (\<lambda>x m. m(k x \<mapsto> v)) xs m name = (if name \<in> k ` set xs then Some v else m name)"
  by (induction xs arbitrary: m) auto

lemma fit_pod_found:
  assumes view: "snap_view im (gs_nodeInfoSnapshot gs)" and nl: "node_list (sn_List (gs_nodeInfoSnapshot gs))" and f: "HasFilterPlugins f"
    and ext: "extenders_ok (gs_extenders gs)" and pre: "RunPreFilterPlugins f state pod = (state1, s)"
  shows "\<exists>next d r. findNodesThatFitPod so g gen ch gs f state pod = Some (gs\<lparr>gs_nextStartNodeIndex := next\<rparr>, state1, d, r) \<and>
    (if IsSuccess s then fit_found so g gen f state1 pod im (gs_extenders gs) d r
     else if IsUnschedulable s then r = Inr [] \<and> (\<forall>i\<in>live im. di_NodeToStatusMap d (n_Name (node_of i)) = s)
     else \<exists>err. AsError s = Some err \<and> r = Inl err)"
proof (cases "IsSuccess s")
  case True
  then show ?thesis
    using nominated_or_all_found [OF view nl f ext, of so g gen ch state1 pod] pre by (cases s) (simp_all add: findNodesThatFitPod_def Let_def)
next
  case False
  then obtain st where st: "s = Some st" by (cases s) auto
  have no: "\<not> list_ex (\<lambda>i. ni_node i = None) (sn_List (gs_nodeInfoSnapshot gs))" using nl by (auto simp: node_list_def list_ex_iff list_all_iff)
  have "fold (\<lambda>i m. m(n_Name (node_of i) \<mapsto> st)) (sn_List (gs_nodeInfoSnapshot gs)) Map.empty (n_Name (node_of i)) = Some st" if "i \<in> live im" for i
    using view that by (simp add: snap_view_def fold_const)
  then show ?thesis using pre False st no
    by (intro exI [of _ "gs_nextStartNodeIndex gs"]) (auto simp: findNodesThatFitPod_def Let_def AsError_status_error)
qed

section \<open>Selection\<close>

lemma select_loop_best:
  "\<exists>b\<in>set (a # nss). ns_Name b = select_loop nss (ns_Score a) (ns_Name a) cnt ds \<and> (\<forall>m\<in>set (a # nss). ns_Score m \<le> ns_Score b)" for a :: NodeScore
proof (induction nss arbitrary: a cnt ds)
  case (Cons ns nss)
  consider (gt) "ns_Score ns > ns_Score a" | (eq) "ns_Score ns = ns_Score a" | (lt) "ns_Score ns < ns_Score a" by linarith
  then show ?case
  proof cases
    case gt
    then show ?thesis using Cons.IH [of ns 1 ds] by (fastforce simp del: select_loop.simps(2) simp add: select_loop.simps(2) [of ns nss])
  next
    case eq
    let ?r = "case ds of [] \<Rightarrow> 0 | d # _ \<Rightarrow> d"
    show ?thesis
      using Cons.IH [of "if ?r = 0 then ns else a" "cnt + 1" "tl ds"] eq by (cases "?r = 0") (auto simp: Let_def)
  next
    case lt
    then show ?thesis using Cons.IH [of a cnt ds] by fastforce
  qed
qed simp

text \<open>All sequences of results that the calls of \<open>rand.Intn\<close> can have.\<close>

fun select_draws :: "NodeScore list \<Rightarrow> int \<Rightarrow> nat \<Rightarrow> nat list list" where
  "select_draws [] maxScore cnt = [[]]"
| "select_draws (ns # nss) maxScore cnt =
     (if ns_Score ns > maxScore then select_draws nss (ns_Score ns) 1
      else if ns_Score ns = maxScore then concat (map (\<lambda>ds. map (\<lambda>d. d # ds) [0..<cnt + 1]) (select_draws nss maxScore (cnt + 1)))
      else select_draws nss maxScore cnt)"

definition hits :: "NodeScore list \<Rightarrow> int \<Rightarrow> string \<Rightarrow> nat \<Rightarrow> string \<Rightarrow> nat" where
  "hits nss mx sel cnt x = length (filter (\<lambda>ds. select_loop nss mx sel cnt ds = x) (select_draws nss mx cnt))"

definition best_count :: "int \<Rightarrow> NodeScore list \<Rightarrow> nat" where
  "best_count M nss = length (filter (\<lambda>n. ns_Score n = M) nss)"

definition named_count :: "int \<Rightarrow> string \<Rightarrow> NodeScore list \<Rightarrow> nat" where
  "named_count M x nss = length (filter (\<lambda>n. ns_Score n = M \<and> ns_Name n = x) nss)"

lemma count_simps [simp]:
  "best_count M [] = 0" "named_count M x [] = 0"
  "best_count M (n # nss) = (if ns_Score n = M then 1 else 0) + best_count M nss"
  "named_count M x (n # nss) = (if ns_Score n = M \<and> ns_Name n = x then 1 else 0) + named_count M x nss"
  by (simp_all add: best_count_def named_count_def)

lemma length_draws_eq: "length (concat (map (\<lambda>ds. map (\<lambda>d. d # ds) [0..<k]) dss)) = k * length dss"
  by (induction dss) simp_all

lemma hits_eq:
  "length (filter (\<lambda>ds. (if hd ds = 0 then P (tl ds) else Q (tl ds))) (concat (map (\<lambda>ds. map (\<lambda>d. d # ds) [0..<Suc k]) dss))) =
   length (filter P dss) + k * length (filter Q dss)"
proof (induction dss)
  case (Cons ds dss)
  have "[0..<Suc k] = 0 # [1..<Suc k]" by (simp add: upt_conv_Cons)
  moreover have "filter (\<lambda>d. d \<noteq> 0 \<and> Q ds) [1..<Suc k] = (if Q ds then [1..<Suc k] else [])" by (auto intro!: filter_True filter_False)
  moreover have "filter (\<lambda>d. if d = 0 then P ds else Q ds) [1..<Suc k] = filter (\<lambda>d. d \<noteq> 0 \<and> Q ds) [1..<Suc k]" by (rule filter_cong) auto
  ultimately have "length (filter (\<lambda>d. if d = 0 then P ds else Q ds) [0..<Suc k]) = (if P ds then 1 else 0) + k * (if Q ds then 1 else 0)"
    by (simp del: upt_Suc)
  then have "length (filter (\<lambda>ds. (if hd ds = 0 then P (tl ds) else Q (tl ds))) (map (\<lambda>d. d # ds) [0..<Suc k])) = (if P ds then 1 else 0) + k * (if Q ds then 1 else 0)"
    unfolding filter_map comp_def length_map list.sel .
  then show ?case unfolding list.map concat.simps filter_append length_append Cons.IH by (simp del: upt_Suc)
qed simp

lemma hits_exact:
  assumes "mx \<le> M" "\<forall>n\<in>set nss. ns_Score n \<le> M" "M \<in> insert mx (ns_Score ` set nss)"
  shows "hits nss mx sel cnt x * ((if mx = M then cnt else 0) + best_count M nss) =
    length (select_draws nss mx cnt) * ((if mx = M \<and> x = sel then cnt else 0) + named_count M x nss)"
  using assms
proof (induction nss arbitrary: mx sel cnt)
  case Nil
  then show ?case by (simp add: hits_def)
next
  case (Cons ns nss)
  consider (gt) "ns_Score ns > mx" | (eq) "ns_Score ns = mx" | (lt) "ns_Score ns < mx" by linarith
  then show ?case
  proof cases
    case gt
    then have "M \<in> insert (ns_Score ns) (ns_Score ` set nss)" using Cons.prems by auto
    then show ?thesis using Cons.IH [of "ns_Score ns" "ns_Name ns" 1] Cons.prems gt by (auto simp: hits_def)
  next
    case lt
    then have "M \<in> insert mx (ns_Score ` set nss)" using Cons.prems by auto
    then show ?thesis using Cons.IH [of mx sel cnt] Cons.prems lt by (auto simp: hits_def)
  next
    case eq
    let ?D = "select_draws nss mx (cnt + 1)" and ?c = "named_count M x nss" and ?k = "best_count M nss"
    have M: "M \<in> insert mx (ns_Score ` set nss)" using Cons.prems eq by auto
    have all: "ds \<noteq> []" if "ds \<in> set (concat (map (\<lambda>ds. map (\<lambda>d. d # ds) [0..<Suc cnt]) ?D))" for ds using that by auto
    have "hits (ns # nss) mx sel cnt x = length (filter (\<lambda>ds. (if hd ds = 0 then select_loop nss mx (ns_Name ns) (cnt + 1) (tl ds) = x
          else select_loop nss mx sel (cnt + 1) (tl ds) = x)) (concat (map (\<lambda>ds. map (\<lambda>d. d # ds) [0..<Suc cnt]) ?D)))"
      unfolding hits_def using eq all by (auto simp: Let_def simp del: upt_Suc intro!: arg_cong [of _ _ length] filter_cong split: list.splits)
    then have h: "hits (ns # nss) mx sel cnt x = hits nss mx (ns_Name ns) (cnt + 1) x + cnt * hits nss mx sel (cnt + 1) x"
      using hits_eq [of "\<lambda>ds. select_loop nss mx (ns_Name ns) (cnt + 1) ds = x" "\<lambda>ds. select_loop nss mx sel (cnt + 1) ds = x" cnt ?D]
      by (simp only: hits_def [of nss])
    have ih: "hits nss mx y (cnt + 1) x * ((if mx = M then cnt + 1 else 0) + ?k) = length ?D * ((if mx = M \<and> x = y then cnt + 1 else 0) + ?c)" for y
      by (rule Cons.IH) (use Cons.prems M in auto)
    have "hits (ns # nss) mx sel cnt x * ((if mx = M then cnt + 1 else 0) + ?k) =
        length ?D * ((if mx = M \<and> x = ns_Name ns then cnt + 1 else 0) + ?c) + cnt * (length ?D * ((if mx = M \<and> x = sel then cnt + 1 else 0) + ?c))"
      unfolding h add_mult_distrib mult.assoc ih ..
    also have "\<dots> = (cnt + 1) * length ?D * ((if mx = M \<and> x = sel then cnt else 0) + named_count M x (ns # nss))"
      using eq by (auto simp: algebra_simps)
    finally have e: "hits (ns # nss) mx sel cnt x * ((if mx = M then cnt + 1 else 0) + ?k) =
        (cnt + 1) * length ?D * ((if mx = M \<and> x = sel then cnt else 0) + named_count M x (ns # nss))" .
    have "length (select_draws (ns # nss) mx cnt) = (cnt + 1) * length ?D" using eq length_draws_eq [of "cnt + 1" ?D] by (simp del: upt_Suc)
    moreover have "(if mx = M then cnt else 0) + best_count M (ns # nss) = (if mx = M then cnt + 1 else 0) + ?k" using eq by simp
    ultimately show ?thesis using e by (simp only:)
  qed
qed

definition all_draws :: "NodeScore list \<Rightarrow> nat list list" where
  "all_draws l = (case l of [] \<Rightarrow> [] | ns # nss \<Rightarrow> select_draws nss (ns_Score ns) 1)"

definition top_score :: "NodeScore list \<Rightarrow> int" where
  "top_score l = Max (set (map ns_Score l))"

lemma selectHost_best: "l \<noteq> [] \<Longrightarrow> \<exists>b\<in>set l. selectHost ds l = Inr (ns_Name b) \<and> (\<forall>m\<in>set l. ns_Score m \<le> ns_Score b)"
proof -
  assume "l \<noteq> []"
  then obtain ns nss where l: "l = ns # nss" by (cases l) auto
  obtain b where "b \<in> set l" "ns_Name b = select_loop nss (ns_Score ns) (ns_Name ns) 1 ds" "\<forall>m\<in>set l. ns_Score m \<le> ns_Score b"
    using select_loop_best [of ns nss 1 ds] l by blast
  then show ?thesis by (intro bexI [of _ b]) (simp_all add: selectHost_def l)
qed



section \<open>Scores\<close>

lemma run_pieces_invariant:
  assumes "run_pieces piece is s = Inr s'" "P s" "\<And>i s s'. i \<in> set is \<Longrightarrow> P s \<Longrightarrow> piece i s = Inr s' \<Longrightarrow> P s'"
  shows "P s'"
  using assms
proof (induction "is" arbitrary: s)
  case (Cons i "is")
  then obtain t where t: "piece i s = Inr t" "run_pieces piece is t = Inr s'" by (auto split: sum.splits)
  have "P t" by (rule Cons.prems(3) [OF _ Cons.prems(2) t(1)]) simp
  then show ?case by (rule Cons.IH [OF t(2)]) (use Cons.prems(3) in auto)
qed simp

text \<open>The orders that the runtime can choose, and what Go guarantees of an in-place change: the length of a slice stays.\<close>

definition scoring_ok :: "choices \<Rightarrow> filter_framework \<Rightarrow> bool" where
  "scoring_ok ch f \<longleftrightarrow>
     (\<forall>m. finite (dom m) \<longrightarrow> range_order (ch_sum ch m) m) \<and>
     (\<forall>i\<in>set (sc_normalize (ch_scores ch)). i < length (fw_scorePlugins f)) \<and> (\<forall>i\<in>set (sc_weigh (ch_scores ch)). i < length (fw_scorePlugins f)) \<and>
     (\<forall>pl\<in>set (fw_scorePlugins f). \<forall>ext. sp_ScoreExtensions pl = Some ext \<longrightarrow> (\<forall>state pod l. length (fst (ext state pod l)) = length l))"

definition score_table :: "nat \<Rightarrow> ScorePlugin list \<Rightarrow> PluginToNodeScores \<Rightarrow> bool" where
  "score_table n pls m \<longleftrightarrow> dom m = sp_Name ` set pls \<and> (\<forall>name l. m name = Some l \<longrightarrow> length l = n)"

lemma score_table_upd: "score_table n pls m \<Longrightarrow> pl \<in> set pls \<Longrightarrow> length l = n \<Longrightarrow> score_table n pls (m(sp_Name pl \<mapsto> l))"
  by (auto simp: score_table_def)

lemma score_node_table:
  "score_table n pls m \<Longrightarrow> set qs \<subseteq> set pls \<Longrightarrow> score_node state pod nodes qs index m = Inr m' \<Longrightarrow> score_table n pls m'"
proof (induction qs arbitrary: m)
  case (Cons pl qs)
  obtain l where l: "m (sp_Name pl) = Some l" "length l = n" using Cons.prems(1,2) by (fastforce simp: score_table_def)
  obtain s status where s: "sp_Score pl state pod (n_Name (nodes ! index)) = (s, status)" by fastforce
  have "score_table n pls (m(sp_Name pl \<mapsto> l[index := \<lparr>ns_Name = n_Name (nodes ! index), ns_Score = s\<rparr>]))"
    using score_table_upd [OF Cons.prems(1), of pl] Cons.prems(2) l(2) by simp
  then show ?case using Cons.IH Cons.prems(2,3) l(1) s by (auto simp: Let_def split: if_splits)
qed simp

lemma RunScorePlugins_table:
  assumes ok: "scoring_ok ch f" and r: "RunScorePlugins (ch_scores ch) f state pod nodes = Inr m"
  shows "score_table (length nodes) (fw_scorePlugins f) m"
proof -
  let ?pls = "fw_scorePlugins f" and ?n = "length nodes"
  let ?m0 = "fold (\<lambda>pl m. m(sp_Name pl \<mapsto> replicate ?n \<lparr>ns_Name = [], ns_Score = 0\<rparr>)) ?pls Map.empty"
  have t0: "score_table ?n ?pls ?m0" unfolding score_table_def dom_def fold_const by auto
  obtain m1 m2 where p: "run_pieces (score_node state pod nodes ?pls) (sc_score (ch_scores ch)) ?m0 = Inr m1"
    "run_pieces (normalize_scores state pod ?pls) (sc_normalize (ch_scores ch)) m1 = Inr m2"
    "run_pieces (weigh_scores (fw_pluginNameToWeightMap f) ?pls) (sc_weigh (ch_scores ch)) m2 = Inr m"
    using r by (auto simp: RunScorePlugins_def Let_def split: sum.splits)
  have t1: "score_table ?n ?pls m1" by (rule run_pieces_invariant [where P = "score_table ?n ?pls", OF p(1) t0]) (auto intro: score_node_table)
  have "score_table ?n ?pls m'" if i: "i \<in> set (sc_normalize (ch_scores ch))" and t: "score_table ?n ?pls mm" and e: "normalize_scores state pod ?pls i mm = Inr m'" for i mm m'
  proof -
    have pl: "?pls ! i \<in> set ?pls" using ok i by (simp add: scoring_ok_def)
    then obtain l where l: "mm (sp_Name (?pls ! i)) = Some l" "length l = ?n" using t by (fastforce simp: score_table_def)
    show ?thesis
    proof (cases "sp_ScoreExtensions (?pls ! i)")
      case (Some ext)
      then have "length (fst (ext state pod l)) = ?n" using ok pl l(2) unfolding scoring_ok_def by metis
      then show ?thesis using e l(1) Some score_table_upd [OF t pl, of "fst (ext state pod l)"]
        by (auto simp: normalize_scores_def Let_def split: prod.splits if_splits)
    qed (use e t in \<open>simp add: normalize_scores_def\<close>)
  qed
  then have t2: "score_table ?n ?pls m2" by (rule run_pieces_invariant [where P = "score_table ?n ?pls", OF p(2) t1])
  have "score_table ?n ?pls m'" if i: "i \<in> set (sc_weigh (ch_scores ch))" and t: "score_table ?n ?pls mm" and e: "weigh_scores (fw_pluginNameToWeightMap f) ?pls i mm = Inr m'" for i mm m'
  proof -
    have pl: "?pls ! i \<in> set ?pls" using ok i by (simp add: scoring_ok_def)
    then obtain l where l: "mm (sp_Name (?pls ! i)) = Some l" "length l = ?n" using t by (fastforce simp: score_table_def)
    then show ?thesis using e score_table_upd [OF t pl] by (auto simp: weigh_scores_def Let_def split: if_splits)
  qed
  then show ?thesis by (rule run_pieces_invariant [where P = "score_table ?n ?pls", OF p(3) t2])
qed

lemma sum_scores_total: "score_table n pls m \<Longrightarrow> i < n \<Longrightarrow> set js \<subseteq> dom m \<Longrightarrow> \<exists>v. sum_scores m i js s = Some v"
proof (induction js arbitrary: s)
  case (Cons j js)
  then obtain l where "m j = Some l" "length l = n" by (fastforce simp: score_table_def)
  then show ?case using Cons by simp
qed simp

lemma sum_nodes_total:
  "score_table n pls m \<Longrightarrow> i + length nodes \<le> n \<Longrightarrow> set js \<subseteq> dom m \<Longrightarrow> \<exists>l. sum_nodes m js i nodes = Some l \<and> map ns_Name l = map n_Name nodes"
proof (induction nodes arbitrary: i)
  case (Cons node nodes)
  then show ?case using sum_scores_total [OF Cons.prems(1), of i js 0] Cons.IH [of "Suc i"] by fastforce
qed simp

lemma prioritize_names:
  assumes ok: "scoring_ok ch f"
  shows "\<exists>state' r. prioritizeNodes ch gs f state pod nodes = Some (state', r) \<and> (\<forall>l. r = Inr l \<longrightarrow> map ns_Name l = map n_Name nodes)"
proof (cases "length (gs_extenders gs) = 0 \<and> \<not> HasScorePlugins f")
  case True
  then show ?thesis by (auto simp: prioritizeNodes_def comp_def)
next
  case False
  obtain state1 s where pre: "RunPreScorePlugins f state pod nodes = (state1, s)" by fastforce
  show ?thesis
  proof (cases "IsSuccess s")
    case True
    show ?thesis
    proof (cases "RunScorePlugins (ch_scores ch) f state1 pod nodes")
      case (Inl st)
      then show ?thesis using False pre True by (simp add: prioritizeNodes_def)
    next
      case (Inr m)
      have t: "score_table (length nodes) (fw_scorePlugins f) m" by (rule RunScorePlugins_table [OF ok Inr])
      then have "finite (dom m)" by (simp add: score_table_def)
      then have "set (ch_sum ch m) \<subseteq> dom m" using ok by (auto simp: scoring_ok_def range_order_def)
      then obtain l where "sum_nodes m (ch_sum ch m) 0 nodes = Some l" "map ns_Name l = map n_Name nodes" using sum_nodes_total [OF t, of 0 nodes] by auto
      then show ?thesis using False pre True Inr by (auto simp: prioritizeNodes_def Let_def comp_def)
    qed
  next
    case f: False
    then show ?thesis using False pre by (auto simp: prioritizeNodes_def)
  qed
qed

section \<open>Schedule\<close>

definition schedule_spec ::
  "sched_orders \<Rightarrow> feature_gates \<Rightarrow> int \<Rightarrow> filter_framework \<Rightarrow> CycleState \<Rightarrow> pod \<Rightarrow> (string \<rightharpoonup> NodeInfo) \<Rightarrow> Extender list \<Rightarrow> schedule_error + ScheduleResult \<Rightarrow> bool" where
  "schedule_spec so g gen f state pod im extenders r =
     (let (state1, s) = RunPreFilterPlugins f state pod in
      case r of
        Inr res \<Rightarrow> IsSuccess s \<and> (\<exists>i\<in>live im. n_Name (node_of i) = sr_SuggestedHost res \<and> IsSuccess (check so g gen f state1 pod i))
      | Inl ErrNoNodesAvailable \<Rightarrow> live im = {}
      | Inl (FitError p n d) \<Rightarrow> p = pod \<and> n = card (live im) \<and> live im \<noteq> {} \<and>
          (if IsSuccess s then extenders = [] \<longrightarrow>
             (\<forall>i\<in>live im. \<not> IsSuccess (check so g gen f state1 pod i) \<and> di_NodeToStatusMap d (n_Name (node_of i)) = check so g gen f state1 pod i)
           else IsUnschedulable s \<and> (\<forall>i\<in>live im. di_NodeToStatusMap d (n_Name (node_of i)) = s))
      | Inl (OtherError err) \<Rightarrow>
          if IsSuccess s
          then extenders \<noteq> [] \<or> HasScorePlugins f \<or> (\<exists>i\<in>live im. status_Code (check so g gen f state1 pod i) = Error)
          else \<not> IsUnschedulable s \<and> AsError s = Some err)"

lemma schedule_selects:
  assumes start: "UpdateSnapshot order c (gs_nodeInfoSnapshot gs) = Some (snap, None)" "sn_NumNodes snap \<noteq> 0"
    "findNodesThatFitPod so g gen ch (gs\<lparr>gs_nodeInfoSnapshot := snap\<rparr>) f state pod = Some (gs2, state1, d, Inr ns)"
    and ne: "ns \<noteq> []" and sc: "scoring_ok ch f"
  shows "\<exists>state' r. Schedule so g order gen ch c gs f state pod = Some (gs2, state', r) \<and>
    (case r of Inr res \<Rightarrow> sr_SuggestedHost res \<in> n_Name ` set ns
     | Inl e \<Rightarrow> (\<exists>err. e = OtherError err) \<and> (gs_extenders gs2 \<noteq> [] \<or> HasScorePlugins f))"
proof (cases "\<exists>node. ns = [node]")
  case True
  then show ?thesis by (auto simp: Schedule_def start)
next
  case False
  then obtain a b ns' where ns: "ns = a # b # ns'" using ne by (metis list.exhaust)
  obtain state2 p where p: "prioritizeNodes ch gs2 f state1 pod ns = Some (state2, p)" "\<And>l. p = Inr l \<Longrightarrow> map ns_Name l = map n_Name ns"
    using prioritize_names [OF sc] by blast
  show ?thesis
  proof (cases p)
    case (Inl err)
    then have "gs_extenders gs2 \<noteq> [] \<or> HasScorePlugins f" using p(1) by (auto simp: prioritizeNodes_def split: if_splits)
    then show ?thesis using p(1) Inl ns by (simp add: Schedule_def start)
  next
    case (Inr l)
    have m: "map ns_Name l = map n_Name ns" using p(2) Inr by simp
    have "l \<noteq> []" using m ns by auto
    then obtain b' where b: "b' \<in> set l" "selectHost (ch_rand ch) l = Inr (ns_Name b')" using selectHost_best by blast
    have "ns_Name b' \<in> set (map ns_Name l)" using b(1) by simp
    then have "ns_Name b' \<in> n_Name ` set ns" unfolding m by simp
    then show ?thesis using p(1) Inr ns b(2) by (simp add: Schedule_def start)
  qed
qed

lemma schedule_ok:
  assumes reach: "snap_reachable g order c (gs_nodeInfoSnapshot gs)" and ord: "map_orders order" and f: "HasFilterPlugins f"
    and ext: "extenders_ok (gs_extenders gs)" and sc: "scoring_ok ch f" and few: "card (live (imap c)) < 2 ^ 31"
  shows "\<exists>gs' state' r. Schedule so g order gen ch c gs f state pod = Some (gs', state', r) \<and> snap_reachable g order c (gs_nodeInfoSnapshot gs') \<and>
    gs_extenders gs' = gs_extenders gs \<and> schedule_spec so g gen f state pod (imap c) (gs_extenders gs) r"
proof -
  obtain snap where snap: "UpdateSnapshot order c (gs_nodeInfoSnapshot gs) = Some (snap, None)" "snap_view (imap c) snap" "snap_reachable g order c snap"
    using take_snapshot [OF reach ord] by blast
  have set: "set (sn_List snap) = live (imap c)" and dist: "distinct (map (\<lambda>i. n_Name (node_of i)) (sn_List snap))" using snap(2) by (simp_all add: snap_view_def)
  have len: "length (sn_List snap) = card (live (imap c))" using set dist by (metis distinct_card distinct_map)
  have num: "sn_NumNodes snap = card (live (imap c))" using len by (simp add: sn_NumNodes_def sn_List_def)
  show ?thesis
  proof (cases "sn_List snap = []")
    case True
    then have "live (imap c) = {}" using set by simp
    then show ?thesis using snap True by (auto simp: Schedule_def sn_NumNodes_def sn_List_def schedule_spec_def split: prod.splits)
  next
    case ne: False
    let ?gs = "gs\<lparr>gs_nodeInfoSnapshot := snap\<rparr>"
    have nl: "node_list (sn_List snap)" using ne dist few set len by (auto simp: node_list_def list_all_iff live_def)
    obtain state1 s where pre: "RunPreFilterPlugins f state pod = (state1, s)" by fastforce
    have gse: "gs_extenders ?gs = gs_extenders gs" "gs_nodeInfoSnapshot ?gs = snap" by simp_all
    obtain "next" d r where fit: "findNodesThatFitPod so g gen ch ?gs f state pod = Some (?gs\<lparr>gs_nextStartNodeIndex := next\<rparr>, state1, d, r)"
      "if IsSuccess s then fit_found so g gen f state1 pod (imap c) (gs_extenders gs) d r
       else if IsUnschedulable s then r = Inr [] \<and> (\<forall>i\<in>live (imap c). di_NodeToStatusMap d (n_Name (node_of i)) = s)
       else \<exists>err. AsError s = Some err \<and> r = Inl err"
      using fit_pod_found [of "imap c" ?gs f state pod state1 s so g gen ch, unfolded gse, OF snap(2) nl f ext pre] by blast
    have pos: "sn_NumNodes snap \<noteq> 0" using ne by (simp add: sn_NumNodes_def sn_List_def)
    have lv: "live (imap c) \<noteq> {}" using ne set by auto
    show ?thesis
    proof (cases r)
      case (Inl err)
      then have "Schedule so g order gen ch c gs f state pod = Some (?gs\<lparr>gs_nextStartNodeIndex := next\<rparr>, state1, Inl (OtherError err))"
        by (simp add: Schedule_def snap(1) pos fit(1))
      then show ?thesis using fit(2) snap(3) Inl by (auto simp: schedule_spec_def pre fit_found_def split: if_splits)
    next
      case (Inr ns)
      show ?thesis
      proof (cases "ns = []")
        case True
        then have "Schedule so g order gen ch c gs f state pod = Some (?gs\<lparr>gs_nextStartNodeIndex := next\<rparr>, state1, Inl (FitError pod (sn_NumNodes snap) d))"
          using Inr by (simp add: Schedule_def snap(1) pos fit(1))
        then show ?thesis using fit(2) snap(3) Inr True lv num by (auto simp: schedule_spec_def pre fit_found_def split: if_splits)
      next
        case False
        then have s: "IsSuccess s" "set ns \<subseteq> node_of ` {i \<in> live (imap c). IsSuccess (check so g gen f state1 pod i)}"
          using fit(2) Inr by (auto simp: fit_found_def split: if_splits)
        have host: "\<exists>i\<in>live (imap c). n_Name (node_of i) = host \<and> IsSuccess (check so g gen f state1 pod i)" if "host \<in> n_Name ` set ns" for host
          using s(2) that by auto
        obtain state' r' where r': "Schedule so g order gen ch c gs f state pod = Some (?gs\<lparr>gs_nextStartNodeIndex := next\<rparr>, state', r')"
          "case r' of Inr res \<Rightarrow> sr_SuggestedHost res \<in> n_Name ` set ns | Inl e \<Rightarrow> (\<exists>err. e = OtherError err) \<and> (gs_extenders gs \<noteq> [] \<or> HasScorePlugins f)"
          using schedule_selects [OF snap(1) pos fit(1) [unfolded Inr] False sc] by (auto cong: sum.case_cong)
        have "schedule_spec so g gen f state pod (imap c) (gs_extenders gs) r'"
        proof (cases r')
          case (Inl e)
          then show ?thesis using r'(2) s(1) by (auto simp: schedule_spec_def pre)
        next
          case r: (Inr res)
          then show ?thesis using r'(2) s(1) host by (simp add: schedule_spec_def pre)
        qed
        then show ?thesis using r'(1) snap(3) by auto
      qed
    qed
  qed
qed

section \<open>Theorems\<close>

text \<open>C36: For nodes with distinct names and at least one filter plugin, the parallel search of \<open>findNodesThatPassFilters\<close> gives a correct result under every interleaving of its
  workers, and it ends. It looks for a number of nodes that is between one hundred, or all when there are fewer, and all of them, for every configured percentage. Without an
  error the result has distinct nodes, all of which pass the filters, and not more than that number; if it has fewer, it has all the nodes that pass, and the diagnosis has the status of
  every node that does not. An error is that of some node's check. The next search starts at a node of the list.\<close>

theorem find_nodes_exact:
  assumes "node_list nodes" "HasFilterPlugins f"
  shows "\<exists>next d r. findNodesThatPassFilters so g gen sched gs f state pod diagnosis nodes = Some (gs\<lparr>gs_nextStartNodeIndex := next\<rparr>, d, r) \<and>
    next < length nodes \<and>
    (let num = numFeasibleNodesToFind (gs_percentageOfNodesToScore gs) (int (length nodes)) in
     min 100 (int (length nodes)) \<le> num \<and> num \<le> int (length nodes) \<and> found so g gen f state pod nodes num d r)"
  using find_nodes_found [OF assms, of so g gen sched gs state pod diagnosis] num_nodes_bounds [of "int (length nodes)" "gs_percentageOfNodesToScore gs"] assms(1)
  by (simp add: node_list_def Let_def)


section \<open>A cluster of one node\<close>

definition zone_cache :: schedulerCache where
  "zone_cache = sc_AddNode sample_gates (newSchedulerCache 0 30 1) (zone_node ''12'')"

definition zone_scheduler :: genericScheduler where
  "zone_scheduler = NewGenericScheduler NewEmptySnapshot [] 0"

definition zone_choices :: choices where
  "zone_choices = \<lparr>ch_nominated = [], ch_search = [0], ch_scores = \<lparr>sc_score = [], sc_normalize = [], sc_weigh = []\<rparr>,
     ch_sum = (\<lambda>m. sorted_list_of_set (dom m)), ch_extenders = [], ch_rand = []\<rparr>"

lemma zone_reachable: "snap_reachable sample_gates sorted_order zone_cache NewEmptySnapshot"
proof -
  let ?empty = "newSchedulerCache 0 30 1"
  have r0: "snap_reachable sample_gates sorted_order ?empty NewEmptySnapshot" by (rule snap_new) simp
  have al: "sc_allowed (ScAddNode (zone_node ''12'')) ?empty" by (simp add: newSchedulerCache_def imap_def node_at_def)
  have "sc_step sample_gates (ScAddNode (zone_node ''12'')) ?empty = Some (zone_cache, None)" by (simp add: zone_cache_def)
  then show ?thesis by (rule snap_cache [OF r0 al])
qed

lemma zone_cache_info: "\<exists>i. is_zone_info i \<and> imap zone_cache = [''n1'' \<mapsto> i]"
proof -
  have n: "n_Name (zone_node ''12'') = ''n1''" "n_Images (zone_node ''12'') = []" by (simp_all add: zone_node_def)
  have a: "NewResource sample_gates (n_Allocatable (zone_node ''12'')) = zero_Resource\<lparr>r_MilliCPU := 4000, r_AllowedPodNumber := 10\<rparr>"
    by (simp add: zone_node_def NewResource_def zero_Resource_def)
  let ?new = "fst (NewNodeInfo sample_gates 0 [])" and ?gen = "snd (NewNodeInfo sample_gates 0 [])"
  have mv: "list_move_to_head [''n1'' \<mapsto> newNodeInfoListItem ?new] None ''n1'' = ([''n1'' \<mapsto> newNodeInfoListItem ?new], Some ''n1'')"
    by (simp add: list_move_to_head_def set_next_def set_prev_def next_of_def prev_of_def newNodeInfoListItem_def)
  let ?i = "fst (SetNode sample_gates (?new\<lparr>ni_ImageStates := Map.empty\<rparr>, ?gen) (zone_node ''12''))"
  have "imap zone_cache = [''n1'' \<mapsto> ?i]"
    using mv by (auto simp: zone_cache_def sc_AddNode_def newSchedulerCache_def ensure_node_def moveNodeInfoToHead_def set_node_info_def put_info_def addNodeImageStates_def
      imap_def n Let_def newNodeInfoListItem_def split: prod.split)
  moreover have "is_zone_info ?i" by (simp add: is_zone_info_def SetNode_def NewNodeInfo_def a)
  ultimately show ?thesis by blast
qed

lemma zone_checks: "is_zone_info i \<Longrightarrow> IsSuccess (check key_orders sample_gates 0 node_framework zone_state zone_pod i)"
  unfolding check_def by (rule zone_passes)

lemma zone_filters: "HasFilterPlugins node_framework" "\<not> HasScorePlugins node_framework"
  by (simp_all add: HasFilterPlugins_def HasScorePlugins_def node_framework_def node_filters_def)

theorem find_nodes_exact_witness:
  "\<exists>gs d. findNodesThatPassFilters key_orders sample_gates 0 [0] zone_scheduler node_framework zone_state zone_pod
     \<lparr>di_NodeToStatusMap = Map.empty, di_UnschedulablePlugins = {}\<rparr> [fst zone_info] = Some (gs, d, Inr [zone_node ''12''])"
proof -
  have nl: "node_list [fst zone_info]" using zone_info_is by (simp add: node_list_def is_zone_info_def)
  have num: "numFeasibleNodesToFind (gs_percentageOfNodesToScore zone_scheduler) 1 = 1" by (simp add: numFeasibleNodesToFind_def minFeasibleNodesToFind_def)
  obtain "next" d r where r: "findNodesThatPassFilters key_orders sample_gates 0 [0] zone_scheduler node_framework zone_state zone_pod
      \<lparr>di_NodeToStatusMap = Map.empty, di_UnschedulablePlugins = {}\<rparr> [fst zone_info] = Some (zone_scheduler\<lparr>gs_nextStartNodeIndex := next\<rparr>, d, r)"
    "found key_orders sample_gates 0 node_framework zone_state zone_pod [fst zone_info] 1 d r"
    using find_nodes_exact [OF nl zone_filters(1), of key_orders sample_gates 0 "[0]" zone_scheduler zone_state zone_pod
      "\<lparr>di_NodeToStatusMap = Map.empty, di_UnschedulablePlugins = {}\<rparr>"] num by (auto simp: Let_def)
  have ok: "IsSuccess (check key_orders sample_gates 0 node_framework zone_state zone_pod (fst zone_info))" by (rule zone_checks [OF zone_info_is])
  have "r = Inr [zone_node ''12'']"
  proof (cases r)
    case (Inl err)
    then show ?thesis using r(2) ok by (auto simp: found_def IsSuccess_def)
  next
    case (Inr ns)
    have "node_of (fst zone_info) = zone_node ''12''" using zone_info_is by (simp add: is_zone_info_def)
    then have "set ns = {zone_node ''12''}" "length ns \<le> 1" using r(2) ok Inr by (cases ns; auto simp: found_def)+
    then show ?thesis using Inr by (cases ns) auto
  qed
  then show ?thesis using r(1) by blast
qed


end
