(* ===== verification/Score_Correct.thy ===== *)
theory Score_Correct
  imports Schedule_Correct
begin

text \<open>
  The total scores of \<open>prioritizeNodes\<close>: with the weights that the construction of the framework accepts, the total of a node is the exact weighted sum of its
  normalised scores; no 64-bit addition or multiplication wraps.
\<close>

section \<open>Weights\<close>

definition given_weight :: "int \<Rightarrow> int" where
  "given_weight w = (if w = 0 then 1 else w)"

lemma plugin_weights_bound:
  assumes "plugin_weights pg tot m = Inr m'" "\<forall>(name, w)\<in>set pg. 0 \<le> w \<and> w < 2 ^ 31" "0 \<le> tot" "tot \<le> MaxTotalScore" "distinct (map fst pg)"
  shows "tot + (\<Sum>(name, w)\<leftarrow>pg. given_weight w * MaxNodeScore) \<le> MaxTotalScore"
    "name \<notin> fst ` set pg \<Longrightarrow> m' name = m name" "(name, w) \<in> set pg \<Longrightarrow> m' name = Some (given_weight w)"
proof -
  have "tot + (\<Sum>(name, w)\<leftarrow>pg. given_weight w * MaxNodeScore) \<le> MaxTotalScore \<and> (\<forall>name. name \<notin> fst ` set pg \<longrightarrow> m' name = m name) \<and>
      (\<forall>name w. (name, w) \<in> set pg \<longrightarrow> m' name = Some (given_weight w))"
    using assms
  proof (induction pg arbitrary: tot m)
    case (Cons e pg)
    obtain n v where e: "e = (n, v)" by fastforce
    have v: "0 \<le> v" "v < 2 ^ 31" using Cons.prems(2) e by auto
    have w: "wrap64 (given_weight v * MaxNodeScore) = given_weight v * MaxNodeScore" "wrap64 (MaxTotalScore - tot) = MaxTotalScore - tot"
      using v Cons.prems(3,4) by (auto simp: wrap64_id in_int64_def max_int64_def given_weight_def MaxNodeScore_def MaxTotalScore_def)
    then have le: "given_weight v * MaxNodeScore \<le> MaxTotalScore - tot" using Cons.prems(1) e
      by (auto simp: Let_def given_weight_def split: if_splits)
    have t: "wrap64 (tot + given_weight v * MaxNodeScore) = tot + given_weight v * MaxNodeScore"
      using le v Cons.prems(3) by (intro wrap64_id) (auto simp: in_int64_def max_int64_def MaxTotalScore_def given_weight_def MaxNodeScore_def)
    have "plugin_weights pg (tot + given_weight v * MaxNodeScore) (m(n \<mapsto> given_weight v)) = Inr m'"
      using Cons.prems(1) e w le t by (auto simp: Let_def given_weight_def split: if_splits)
    moreover have "0 \<le> tot + given_weight v * MaxNodeScore" using v Cons.prems(3) by (simp add: given_weight_def MaxNodeScore_def)
    moreover have "\<forall>(name, w)\<in>set pg. 0 \<le> w \<and> w < 2 ^ 31" "distinct (map fst pg)" "tot + given_weight v * MaxNodeScore \<le> MaxTotalScore"
      using Cons.prems(2,5) le by simp_all
    ultimately have ih: "tot + given_weight v * MaxNodeScore + (\<Sum>(name, w)\<leftarrow>pg. given_weight w * MaxNodeScore) \<le> MaxTotalScore"
      "\<And>name. name \<notin> fst ` set pg \<Longrightarrow> m' name = (m(n \<mapsto> given_weight v)) name" "\<And>name w. (name, w) \<in> set pg \<Longrightarrow> m' name = Some (given_weight w)"
      using Cons.IH [of "tot + given_weight v * MaxNodeScore" "m(n \<mapsto> given_weight v)"] by blast+
    have n: "n \<notin> fst ` set pg" using Cons.prems(5) e by simp
    have "m' name = Some (given_weight w)" if "(name, w) \<in> set (e # pg)" for name w using that ih(2) [OF n] ih(3) e by auto
    moreover have "m' name = m name" if "name \<notin> fst ` set (e # pg)" for name using that ih(2) [of name] e by auto
    moreover have "tot + (\<Sum>(name, w)\<leftarrow>e # pg. given_weight w * MaxNodeScore) \<le> MaxTotalScore" using ih(1) e by simp
    ultimately show ?case by blast
  qed simp
  then show "tot + (\<Sum>(name, w)\<leftarrow>pg. given_weight w * MaxNodeScore) \<le> MaxTotalScore"
    "name \<notin> fst ` set pg \<Longrightarrow> m' name = m name" "(name, w) \<in> set pg \<Longrightarrow> m' name = Some (given_weight w)" by blast+
qed

section \<open>The loops over plugins\<close>

definition holds_table :: "ScorePlugin list \<Rightarrow> (nat \<Rightarrow> NodeScore list) \<Rightarrow> PluginToNodeScores \<Rightarrow> bool" where
  "holds_table pls h m \<longleftrightarrow> (\<forall>i<length pls. m (sp_Name (pls ! i)) = Some (h i))"

lemma holds_table_upd:
  assumes "holds_table pls h m" "distinct (map sp_Name pls)" "i < length pls"
  shows "holds_table pls (h(i := l)) (m(sp_Name (pls ! i) \<mapsto> l))"
proof -
  have "sp_Name (pls ! j) = sp_Name (pls ! i) \<longleftrightarrow> j = i" if "j < length pls" for j
    using nth_eq_iff_index_eq [OF assms(2), of j i] assms(3) that by simp
  then show ?thesis using assms by (auto simp: holds_table_def)
qed

text \<open>Pieces that each replace the list of one plugin.\<close>

lemma run_plugin_pieces:
  assumes step: "\<And>i m. i < length pls \<Longrightarrow> m (sp_Name (pls ! i)) = Some (h i) \<Longrightarrow> \<exists>m'. piece i m = Inr m' \<and> m' = m(sp_Name (pls ! i) \<mapsto> h' i)"
    and d: "distinct (map sp_Name pls)" and "is": "distinct is" "set is \<subseteq> {..<length pls}"
    and m: "\<forall>i<length pls. m (sp_Name (pls ! i)) = Some (if i \<in> S then h' i else h i)" and S: "S \<inter> set is = {}"
  shows "\<exists>m'. run_pieces piece is m = Inr m' \<and> holds_table pls (\<lambda>i. if i \<in> S \<union> set is then h' i else h i) m'"
  using "is" m S
proof (induction "is" arbitrary: m S)
  case Nil
  then show ?case by (simp add: holds_table_def)
next
  case (Cons i "is")
  have i: "i < length pls" "i \<notin> S" "i \<notin> set is" using Cons.prems by auto
  let ?m = "m(sp_Name (pls ! i) \<mapsto> h' i)"
  have p: "piece i m = Inr ?m" using step [OF i(1), of m] Cons.prems(3) i by auto
  have "sp_Name (pls ! j) = sp_Name (pls ! i) \<longleftrightarrow> j = i" if "j < length pls" for j
    using nth_eq_iff_index_eq [OF d, of j i] i(1) that by simp
  then have "\<forall>j<length pls. ?m (sp_Name (pls ! j)) = Some (if j \<in> insert i S then h' j else h j)" using Cons.prems(3) by auto
  moreover have "insert i S \<union> set is = S \<union> set (i # is)" "insert i S \<inter> set is = {}" using Cons.prems(4) i by auto
  ultimately show ?case using Cons.IH [of ?m "insert i S"] Cons.prems(1,2) p by (simp del: fun_upd_apply)
qed

lemma run_plugin_pieces_all:
  assumes "\<And>i m. i < length pls \<Longrightarrow> m (sp_Name (pls ! i)) = Some (h i) \<Longrightarrow> \<exists>m'. piece i m = Inr m' \<and> m' = m(sp_Name (pls ! i) \<mapsto> h' i)"
    "distinct (map sp_Name pls)" "distinct is" "set is = {..<length pls}" "holds_table pls h m"
  shows "\<exists>m'. run_pieces piece is m = Inr m' \<and> holds_table pls h' m'"
  using run_plugin_pieces [of pls h piece h' "is" m "{}"] assms by (auto simp: holds_table_def)

section \<open>The loop over nodes\<close>

definition score_entry :: "CycleState \<Rightarrow> pod \<Rightarrow> ScorePlugin \<Rightarrow> node \<Rightarrow> NodeScore" where
  "score_entry state pod pl node = \<lparr>ns_Name = n_Name node, ns_Score = fst (sp_Score pl state pod (n_Name node))\<rparr>"

lemma score_node_ok:
  assumes d: "distinct (map sp_Name pls)" and ok: "\<forall>pl\<in>set pls. IsSuccess (snd (sp_Score pl state pod (n_Name (nodes ! index))))"
  shows "k \<le> length pls \<Longrightarrow> holds_table pls h m \<Longrightarrow>
    \<exists>m'. score_node state pod nodes (drop k pls) index m = Inr m' \<and>
      holds_table pls (\<lambda>i. if k \<le> i then (h i)[index := score_entry state pod (pls ! i) (nodes ! index)] else h i) m'"
proof (induction "length pls - k" arbitrary: k h m)
  case 0
  then show ?case by (auto simp: holds_table_def)
next
  case (Suc x)
  let ?e = "\<lambda>i. score_entry state pod (pls ! i) (nodes ! index)"
  have k: "k < length pls" using Suc.hyps(2) by simp
  have m: "m (sp_Name (pls ! k)) = Some (h k)" using Suc.prems(2) k by (simp add: holds_table_def)
  let ?m = "m(sp_Name (pls ! k) \<mapsto> (h k)[index := ?e k])"
  have t: "holds_table pls (h(k := (h k)[index := ?e k])) ?m" by (rule holds_table_upd [OF Suc.prems(2) d k])
  obtain v st where s: "sp_Score (pls ! k) state pod (n_Name (nodes ! index)) = (v, st)" by fastforce
  have "IsSuccess st" using ok k s by (metis nth_mem snd_conv)
  then have step: "score_node state pod nodes (drop k pls) index m = score_node state pod nodes (drop (Suc k) pls) index ?m"
    using k s m by (simp add: Cons_nth_drop_Suc [symmetric] Let_def score_entry_def fun_upd_def)
  have x: "x = length pls - Suc k" using Suc.hyps(2) by simp
  obtain m' where m': "score_node state pod nodes (drop (Suc k) pls) index ?m = Inr m'"
    "holds_table pls (\<lambda>i. if Suc k \<le> i then ((h(k := (h k)[index := ?e k])) i)[index := ?e i] else (h(k := (h k)[index := ?e k])) i) m'"
    using Suc.hyps(1) [of "Suc k", OF x _ t] k by (auto simp del: fun_upd_apply)
  have "holds_table pls (\<lambda>i. if k \<le> i then (h i)[index := ?e i] else h i) m'"
    using m'(2) unfolding holds_table_def by (auto simp: le_Suc_eq not_less_eq_eq split: if_splits)
  then show ?case using step m'(1) by simp
qed

lemma score_phase:
  assumes d: "distinct (map sp_Name pls)" and ok: "\<forall>node\<in>set nodes. \<forall>pl\<in>set pls. IsSuccess (snd (sp_Score pl state pod (n_Name node)))"
  shows "set is \<subseteq> {..<length nodes} \<Longrightarrow>
    holds_table pls (\<lambda>i. map (\<lambda>j. if j \<in> S then score_entry state pod (pls ! i) (nodes ! j) else z) [0..<length nodes]) m \<Longrightarrow>
    \<exists>m'. run_pieces (score_node state pod nodes pls) is m = Inr m' \<and>
      holds_table pls (\<lambda>i. map (\<lambda>j. if j \<in> S \<union> set is then score_entry state pod (pls ! i) (nodes ! j) else z) [0..<length nodes]) m'"
proof (induction "is" arbitrary: m S)
  case (Cons a "is")
  let ?h = "\<lambda>S i. map (\<lambda>j. if j \<in> S then score_entry state pod (pls ! i) (nodes ! j) else z) [0..<length nodes]"
  have a: "a < length nodes" using Cons.prems(1) by simp
  have "\<forall>pl\<in>set pls. IsSuccess (snd (sp_Score pl state pod (n_Name (nodes ! a))))" using ok a by simp
  from score_node_ok [OF d this, of 0 "?h S" m] obtain m1 where m1: "score_node state pod nodes pls a m = Inr m1"
    "holds_table pls (\<lambda>i. (?h S i)[a := score_entry state pod (pls ! i) (nodes ! a)]) m1" using Cons.prems(2) by auto
  have "(?h S i)[a := score_entry state pod (pls ! i) (nodes ! a)] = ?h (insert a S) i" for i
    using a by (intro nth_equalityI) (auto simp: nth_list_update)
  then have "holds_table pls (?h (insert a S)) m1" using m1(2) by simp
  from Cons.IH [OF _ this] show ?case using Cons.prems(1) m1(1) by (simp add: insert_commute)
qed simp

section \<open>The scores of all plugins\<close>

definition raw_scores :: "CycleState \<Rightarrow> pod \<Rightarrow> node list \<Rightarrow> ScorePlugin \<Rightarrow> NodeScore list" where
  "raw_scores state pod nodes pl = map (score_entry state pod pl) nodes"

definition normal_scores :: "CycleState \<Rightarrow> pod \<Rightarrow> node list \<Rightarrow> ScorePlugin \<Rightarrow> NodeScore list" where
  "normal_scores state pod nodes pl =
     (case sp_ScoreExtensions pl of None \<Rightarrow> raw_scores state pod nodes pl | Some ext \<Rightarrow> fst (ext state pod (raw_scores state pod nodes pl)))"

definition weight_of :: "filter_framework \<Rightarrow> ScorePlugin \<Rightarrow> int" where
  "weight_of f pl = (case fw_pluginNameToWeightMap f (sp_Name pl) of Some w \<Rightarrow> w | None \<Rightarrow> 0)"

text \<open>The plugins succeed on all nodes, with normalised scores in the range that the framework asks for.\<close>

definition scorers_succeed :: "filter_framework \<Rightarrow> CycleState \<Rightarrow> pod \<Rightarrow> node list \<Rightarrow> bool" where
  "scorers_succeed f state pod nodes \<longleftrightarrow>
     (\<forall>pl\<in>set (fw_scorePlugins f).
        (\<forall>node\<in>set nodes. IsSuccess (snd (sp_Score pl state pod (n_Name node)))) \<and>
        (\<forall>ext. sp_ScoreExtensions pl = Some ext \<longrightarrow> IsSuccess (snd (ext state pod (raw_scores state pod nodes pl)))) \<and>
        (\<forall>ns\<in>set (normal_scores state pod nodes pl). MinNodeScore \<le> ns_Score ns \<and> ns_Score ns \<le> MaxNodeScore))"

text \<open>The three parallel loops run every piece once.\<close>

definition pieces_ok :: "score_order \<Rightarrow> nat \<Rightarrow> nat \<Rightarrow> bool" where
  "pieces_ok ord n k \<longleftrightarrow> set (sc_score ord) = {..<n} \<and> distinct (sc_normalize ord) \<and> set (sc_normalize ord) = {..<k} \<and>
     distinct (sc_weigh ord) \<and> set (sc_weigh ord) = {..<k}"

lemma RunScorePlugins_exact:
  assumes d: "distinct (map sp_Name (fw_scorePlugins f))" and ok: "scorers_succeed f state pod nodes"
    and ord: "pieces_ok ord (length nodes) (length (fw_scorePlugins f))"
  shows "\<exists>m. RunScorePlugins ord f state pod nodes = Inr m \<and> holds_table (fw_scorePlugins f)
    (\<lambda>i. map (\<lambda>ns. ns\<lparr>ns_Score := wrap64 (ns_Score ns * weight_of f (fw_scorePlugins f ! i))\<rparr>) (normal_scores state pod nodes (fw_scorePlugins f ! i))) m"
proof -
  let ?pls = "fw_scorePlugins f" and ?z = "\<lparr>ns_Name = [], ns_Score = 0\<rparr>"
  let ?m0 = "fold (\<lambda>pl m. m(sp_Name pl \<mapsto> replicate (length nodes) ?z)) ?pls Map.empty"
  let ?raw = "\<lambda>i. raw_scores state pod nodes (?pls ! i)" and ?normal = "\<lambda>i. normal_scores state pod nodes (?pls ! i)"
  let ?weighed = "\<lambda>i. map (\<lambda>ns. ns\<lparr>ns_Score := wrap64 (ns_Score ns * weight_of f (?pls ! i))\<rparr>) (?normal i)"
  have p: "\<And>pl. pl \<in> set ?pls \<Longrightarrow> (\<forall>ext. sp_ScoreExtensions pl = Some ext \<longrightarrow> IsSuccess (snd (ext state pod (raw_scores state pod nodes pl)))) \<and>
      (\<forall>ns\<in>set (normal_scores state pod nodes pl). MinNodeScore \<le> ns_Score ns \<and> ns_Score ns \<le> MaxNodeScore)"
    and succ: "\<forall>node\<in>set nodes. \<forall>pl\<in>set ?pls. IsSuccess (snd (sp_Score pl state pod (n_Name node)))"
    using ok by (simp_all add: scorers_succeed_def)
  have ok_order: "distinct (sc_normalize ord)" "set (sc_normalize ord) = {..<length ?pls}" "distinct (sc_weigh ord)" "set (sc_weigh ord) = {..<length ?pls}"
    using ord by (simp_all add: pieces_ok_def)
  have "holds_table ?pls (\<lambda>i. map (\<lambda>j. if j \<in> {} then score_entry state pod (?pls ! i) (nodes ! j) else ?z) [0..<length nodes]) ?m0"
    by (simp add: holds_table_def fold_const map_replicate_const)
  from score_phase [OF d succ _ this, of "sc_score ord"] obtain m1 where m1: "run_pieces (score_node state pod nodes ?pls) (sc_score ord) ?m0 = Inr m1"
    "holds_table ?pls (\<lambda>i. map (\<lambda>j. if j \<in> {..<length nodes} then score_entry state pod (?pls ! i) (nodes ! j) else ?z) [0..<length nodes]) m1"
    using ord by (auto simp: pieces_ok_def)
  have "map (\<lambda>j. if j \<in> {..<length nodes} then score_entry state pod (?pls ! i) (nodes ! j) else ?z) [0..<length nodes] = ?raw i" for i
    by (intro nth_equalityI) (simp_all add: raw_scores_def)
  then have t1: "holds_table ?pls ?raw m1" using m1(2) by simp
  have n: "\<exists>m'. normalize_scores state pod ?pls i m = Inr m' \<and> m' = m(sp_Name (?pls ! i) \<mapsto> ?normal i)"
    if i: "i < length ?pls" "m (sp_Name (?pls ! i)) = Some (?raw i)" for i m
  proof (cases "sp_ScoreExtensions (?pls ! i)")
    case None
    then show ?thesis using i by (auto simp: normalize_scores_def normal_scores_def)
  next
    case (Some ext)
    then have "IsSuccess (snd (ext state pod (?raw i)))" using p [of "?pls ! i"] i(1) by simp
    then show ?thesis using i Some by (auto simp: normalize_scores_def normal_scores_def Let_def split: prod.split)
  qed
  obtain m2 where m2: "run_pieces (normalize_scores state pod ?pls) (sc_normalize ord) m1 = Inr m2" "holds_table ?pls ?normal m2"
    using run_plugin_pieces_all [where piece = "normalize_scores state pod ?pls", OF n d ok_order(1,2) t1] by blast
  have w: "\<exists>m'. weigh_scores (fw_pluginNameToWeightMap f) ?pls i m = Inr m' \<and> m' = m(sp_Name (?pls ! i) \<mapsto> ?weighed i)"
    if i: "i < length ?pls" "m (sp_Name (?pls ! i)) = Some (?normal i)" for i m
  proof -
    have "\<not> list_ex (\<lambda>ns. ns_Score ns > MaxNodeScore \<or> ns_Score ns < MinNodeScore) (?normal i)" using p [of "?pls ! i"] i(1) by (force simp: list_ex_iff)
    then show ?thesis using i by (simp add: weigh_scores_def weight_of_def Let_def)
  qed
  obtain m3 where "run_pieces (weigh_scores (fw_pluginNameToWeightMap f) ?pls) (sc_weigh ord) m2 = Inr m3" "holds_table ?pls ?weighed m3"
    using run_plugin_pieces_all [where piece = "weigh_scores (fw_pluginNameToWeightMap f) ?pls", OF w d ok_order(3,4) m2(2)] by blast
  then show ?thesis using m1(1) m2(1) by (simp add: RunScorePlugins_def Let_def)
qed

section \<open>Totals\<close>

lemma sum_scores_exact:
  assumes "\<And>j. j \<in> set js \<Longrightarrow> \<exists>l. m j = Some l \<and> i < length l \<and> ns_Score (l ! i) = v j \<and> 0 \<le> v j" "0 \<le> s" "s + sum_list (map v js) \<le> MaxTotalScore"
  shows "sum_scores m i js s = Some (s + sum_list (map v js))"
  using assms
proof (induction js arbitrary: s)
  case (Cons j js)
  obtain l where l: "m j = Some l" "i < length l" "ns_Score (l ! i) = v j" "0 \<le> v j" using Cons.prems(1) [of j] by auto
  have "\<forall>x\<in>set js. 0 \<le> v x" using Cons.prems(1) by (meson list.set_intros(2))
  then have nn: "0 \<le> sum_list (map v js)" by (intro sum_list_nonneg) auto
  then have "wrap64 (s + v j) = s + v j" using Cons.prems(2,3) l(4) by (intro wrap64_id) (simp add: in_int64_def max_int64_def MaxTotalScore_def)
  moreover have "sum_scores m i js (s + v j) = Some (s + v j + sum_list (map v js))"
    by (rule Cons.IH) (use Cons.prems l in \<open>auto simp: add.assoc\<close>)
  ultimately show ?case using l by (simp add: add.assoc)
qed simp

lemma sum_nodes_exact:
  assumes "\<And>j. j < length nodes \<Longrightarrow> sum_scores m (i + j) js 0 = Some (t (i + j))"
  shows "sum_nodes m js i nodes = Some (map (\<lambda>j. \<lparr>ns_Name = n_Name (nodes ! j), ns_Score = t (i + j)\<rparr>) [0..<length nodes])"
  using assms
proof (induction nodes arbitrary: i)
  case (Cons node nodes)
  have "sum_scores m (Suc i + j) js 0 = Some (t (Suc i + j))" if "j < length nodes" for j using Cons.prems [of "Suc j"] that by simp
  from Cons.IH [OF this] have "sum_nodes m js (Suc i) nodes = Some (map (\<lambda>j. \<lparr>ns_Name = n_Name (nodes ! j), ns_Score = t (Suc i + j)\<rparr>) [0..<length nodes])" .
  moreover have "[0..<length (node # nodes)] = 0 # map Suc [0..<length nodes]" by (simp add: upt_conv_Cons map_Suc_upt del: upt_Suc)
  ultimately show ?case using Cons.prems [of 0] by (simp add: comp_def del: upt_Suc)
qed simp

definition total_score :: "filter_framework \<Rightarrow> CycleState \<Rightarrow> pod \<Rightarrow> node list \<Rightarrow> nat \<Rightarrow> int" where
  "total_score f state pod nodes j = (\<Sum>pl\<leftarrow>fw_scorePlugins f. weight_of f pl * ns_Score (normal_scores state pod nodes pl ! j))"

text \<open>The weights that the framework was built with: distinct plugins with \<open>int32\<close> weights that are not negative.\<close>

definition weights_given :: "filter_framework \<Rightarrow> bool" where
  "weights_given f \<longleftrightarrow>
     (\<exists>pg. plugin_weights pg 0 Map.empty = Inr (fw_pluginNameToWeightMap f) \<and> (\<forall>(name, w)\<in>set pg. 0 \<le> w \<and> w < 2 ^ 31) \<and> distinct (map fst pg) \<and>
        sp_Name ` set (fw_scorePlugins f) \<subseteq> fst ` set pg)"

lemma weights_bound:
  assumes "weights_given f" "distinct (map sp_Name (fw_scorePlugins f))"
  shows "pl \<in> set (fw_scorePlugins f) \<Longrightarrow> 1 \<le> weight_of f pl \<and> weight_of f pl < 2 ^ 31"
    "(\<Sum>pl\<leftarrow>fw_scorePlugins f. weight_of f pl * MaxNodeScore) \<le> MaxTotalScore"
proof -
  obtain pg where pg: "plugin_weights pg 0 Map.empty = Inr (fw_pluginNameToWeightMap f)" "\<forall>(name, w)\<in>set pg. 0 \<le> w \<and> w < 2 ^ 31" "distinct (map fst pg)"
    "sp_Name ` set (fw_scorePlugins f) \<subseteq> fst ` set pg" using assms(1) by (auto simp: weights_given_def)
  let ?W = "fw_pluginNameToWeightMap f" and ?w = "\<lambda>name. case fw_pluginNameToWeightMap f name of Some w \<Rightarrow> w | None \<Rightarrow> 0"
  have le: "(0 :: int) \<le> MaxTotalScore" by (simp add: MaxTotalScore_def)
  note b = plugin_weights_bound [OF pg(1,2) _ le pg(3), simplified]
  have w: "?w name = given_weight w" "0 \<le> w" "w < 2 ^ 31" if "(name, w) \<in> set pg" for name w using b(3) [OF that] pg(2) that by auto
  then have pos: "1 \<le> ?w name \<and> ?w name < 2 ^ 31" if "name \<in> fst ` set pg" for name using that by (force simp: given_weight_def)
  then show "1 \<le> weight_of f pl \<and> weight_of f pl < 2 ^ 31" if "pl \<in> set (fw_scorePlugins f)"
    unfolding weight_of_def using that pg(4) by blast
  have "(\<Sum>pl\<leftarrow>fw_scorePlugins f. weight_of f pl * MaxNodeScore) = (\<Sum>name\<leftarrow>map sp_Name (fw_scorePlugins f). ?w name * MaxNodeScore)"
    by (simp add: weight_of_def comp_def)
  also have "\<dots> = (\<Sum>name\<in>sp_Name ` set (fw_scorePlugins f). ?w name * MaxNodeScore)" using sum_list_distinct_conv_sum_set [OF assms(2)] by simp
  also have "\<dots> \<le> (\<Sum>name\<in>fst ` set pg. ?w name * MaxNodeScore)"
  proof (rule sum_mono2 [OF _ pg(4)])
    fix name assume "name \<in> fst ` set pg - sp_Name ` set (fw_scorePlugins f)"
    then have "1 \<le> ?w name" using pos [of name] by blast
    then have "0 \<le> ?w name" by linarith
    then show "0 \<le> ?w name * MaxNodeScore" by (simp add: MaxNodeScore_def)
  qed simp
  also have "\<dots> = (\<Sum>name\<leftarrow>map fst pg. ?w name * MaxNodeScore)" by (simp only: sum_list_distinct_conv_sum_set [OF pg(3)] set_map)
  also have "\<dots> = (\<Sum>(name, w)\<leftarrow>pg. given_weight w * MaxNodeScore)"
    unfolding map_map comp_def by (intro arg_cong [of _ _ sum_list] map_cong refl) (use w(1) in auto)
  also have "\<dots> \<le> MaxTotalScore" using b(1) by simp
  finally show "(\<Sum>pl\<leftarrow>fw_scorePlugins f. weight_of f pl * MaxNodeScore) \<le> MaxTotalScore" .
qed

lemma total_bounds:
  assumes w: "weights_given f" "distinct (map sp_Name (fw_scorePlugins f))" and s: "scorers_succeed f state pod nodes"
    and len: "\<forall>pl\<in>set (fw_scorePlugins f). length (normal_scores state pod nodes pl) = length nodes" and j: "j < length nodes"
  shows "0 \<le> total_score f state pod nodes j" "total_score f state pod nodes j \<le> MaxTotalScore"
proof -
  have b: "0 \<le> ns_Score (normal_scores state pod nodes pl ! j) \<and> ns_Score (normal_scores state pod nodes pl ! j) \<le> MaxNodeScore" "0 \<le> weight_of f pl"
    if "pl \<in> set (fw_scorePlugins f)" for pl
    using s len that j weights_bound(1) [OF w that] by (force simp: scorers_succeed_def MinNodeScore_def)+
  show "0 \<le> total_score f state pod nodes j" unfolding total_score_def using b by (intro sum_list_nonneg) auto
  have "total_score f state pod nodes j \<le> (\<Sum>pl\<leftarrow>fw_scorePlugins f. weight_of f pl * MaxNodeScore)"
    unfolding total_score_def using b by (intro sum_list_mono mult_left_mono) auto
  then show "total_score f state pod nodes j \<le> MaxTotalScore" using weights_bound(2) [OF w] by linarith
qed

lemma prioritize_total:
  assumes w: "weights_given f" "distinct (map sp_Name (fw_scorePlugins f))" and pre: "RunPreScorePlugins f state pod nodes = (state1, s)" "IsSuccess s"
    and ok: "scorers_succeed f state1 pod nodes" and ord: "pieces_ok (ch_scores ch) (length nodes) (length (fw_scorePlugins f))" and sc: "scoring_ok ch f"
    and ext: "gs_extenders gs = []" "HasScorePlugins f"
  shows "prioritizeNodes ch gs f state pod nodes =
    Some (state1, Inr (map (\<lambda>j. \<lparr>ns_Name = n_Name (nodes ! j), ns_Score = total_score f state1 pod nodes j\<rparr>) [0..<length nodes]))"
proof -
  let ?pls = "fw_scorePlugins f" and ?v = "\<lambda>pl j. weight_of f pl * ns_Score (normal_scores state1 pod nodes pl ! j)"
  obtain m where m: "RunScorePlugins (ch_scores ch) f state1 pod nodes = Inr m" and hold: "holds_table ?pls
      (\<lambda>i. map (\<lambda>ns. ns\<lparr>ns_Score := wrap64 (ns_Score ns * weight_of f (?pls ! i))\<rparr>) (normal_scores state1 pod nodes (?pls ! i))) m"
    using RunScorePlugins_exact [OF w(2) ok ord] by blast
  have tab: "score_table (length nodes) ?pls m" by (rule RunScorePlugins_table [OF sc m])
  have at: "m (sp_Name pl) = Some (map (\<lambda>ns. ns\<lparr>ns_Score := wrap64 (ns_Score ns * weight_of f pl)\<rparr>) (normal_scores state1 pod nodes pl))" if "pl \<in> set ?pls" for pl
    using hold that by (auto simp: holds_table_def in_set_conv_nth)
  then have len: "\<forall>pl\<in>set ?pls. length (normal_scores state1 pod nodes pl) = length nodes" using tab by (fastforce simp: score_table_def)
  have "finite (dom m)" using tab by (simp add: score_table_def)
  then have js: "distinct (ch_sum ch m)" "set (ch_sum ch m) = sp_Name ` set ?pls" using sc tab by (auto simp: scoring_ok_def range_order_def score_table_def)
  have inj: "inj_on sp_Name (set ?pls)" using w(2) by (simp add: distinct_map)
  have one: "sum_scores m j (ch_sum ch m) 0 = Some (total_score f state1 pod nodes j)" if j: "j < length nodes" for j
  proof -
    let ?u = "\<lambda>name. ?v (the_inv_into (set ?pls) sp_Name name) j"
    have u: "?u (sp_Name pl) = ?v pl j" if "pl \<in> set ?pls" for pl using the_inv_into_f_f [OF inj that] by simp
    have b: "0 \<le> ns_Score (normal_scores state1 pod nodes pl ! j)" "ns_Score (normal_scores state1 pod nodes pl ! j) \<le> 100" "1 \<le> weight_of f pl" "weight_of f pl < 2 ^ 31"
      if "pl \<in> set ?pls" for pl
      using ok len that j weights_bound(1) [OF w that] by (force simp: scorers_succeed_def MinNodeScore_def MaxNodeScore_def)+
    have "sum_list (map ?u (ch_sum ch m)) = (\<Sum>name\<in>sp_Name ` set ?pls. ?u name)" using sum_list_distinct_conv_sum_set [OF js(1)] js(2) by simp
    also have "\<dots> = (\<Sum>pl\<in>set ?pls. ?v pl j)" using u by (simp add: sum.reindex [OF inj])
    also have "\<dots> = total_score f state1 pod nodes j"
      unfolding total_score_def using w(2) by (subst sum_list_distinct_conv_sum_set) (simp_all add: distinct_map)
    finally have sum: "sum_list (map ?u (ch_sum ch m)) = total_score f state1 pod nodes j" .
    have "\<exists>l. m name = Some l \<and> j < length l \<and> ns_Score (l ! j) = ?u name \<and> 0 \<le> ?u name" if nm: "name \<in> set (ch_sum ch m)" for name
    proof -
      obtain pl where pl: "pl \<in> set ?pls" "name = sp_Name pl" using nm js(2) by auto
      have "ns_Score (normal_scores state1 pod nodes pl ! j) * weight_of f pl \<le> 100 * 2 ^ 31" using b [OF pl(1)] by (intro mult_mono) auto
      moreover have "0 \<le> ns_Score (normal_scores state1 pod nodes pl ! j) * weight_of f pl" using b [OF pl(1)] by (intro mult_nonneg_nonneg) auto
      ultimately have "wrap64 (ns_Score (normal_scores state1 pod nodes pl ! j) * weight_of f pl) = ?v pl j"
        by (subst wrap64_id) (simp_all add: in_int64_def max_int64_def mult.commute)
      then show ?thesis using at [OF pl(1)] pl len j b [OF pl(1)] u by (simp add: mult.commute)
    qed
    from sum_scores_exact [where v = ?u and s = 0, OF this] show ?thesis using sum total_bounds [OF w ok len j] by simp
  qed
  from sum_nodes_exact [of nodes m 0 "ch_sum ch m" "total_score f state1 pod nodes"] one
  show ?thesis using pre ext m by (simp add: prioritizeNodes_def)
qed

lemma normal_length: "scoring_ok ch f \<Longrightarrow> pl \<in> set (fw_scorePlugins f) \<Longrightarrow> length (normal_scores state pod nodes pl) = length nodes"
  unfolding scoring_ok_def normal_scores_def by (auto simp: raw_scores_def split: option.splits)


section \<open>Two nodes and two plugins\<close>

definition flat_scorer :: ScorePlugin where
  "flat_scorer = \<lparr>sp_Name = ''flat'', sp_Score = (\<lambda>_ _ _. (30, None)), sp_ScoreExtensions = None\<rparr>"

definition named_scorer :: ScorePlugin where
  "named_scorer = \<lparr>sp_Name = ''named'', sp_Score = (\<lambda>_ _ name. (if name = ''n1'' then 50 else 20, None)),
     sp_ScoreExtensions = Some (\<lambda>_ _ l. (map (\<lambda>ns. ns\<lparr>ns_Score := 2 * ns_Score ns\<rparr>) l, None))\<rparr>"

definition score_framework :: filter_framework where
  "score_framework = node_framework\<lparr>fw_scorePlugins := [flat_scorer, named_scorer], fw_pluginNameToWeightMap := [''flat'' \<mapsto> 2, ''named'' \<mapsto> 1]\<rparr>"

definition score_choices :: choices where
  "score_choices = zone_choices\<lparr>ch_scores := \<lparr>sc_score = [1, 0], sc_normalize = [0, 1], sc_weigh = [1, 0]\<rparr>\<rparr>"


end
