(* ===== verification/Binding_Plugins.thy ===== *)
theory Binding_Plugins
  imports Framework_Runtime
begin

text \<open>
  The extension points of the framework after a node is chosen (\<open>pkg/scheduler/framework/runtime/framework.go\<close>): reserve, permit, prebind, bind and postbind plugins,
  and the pods that wait for a permission (\<open>waiting_pods_map.go\<close>).

  These plugins act on something outside the scheduler, such as their own state and the API server. It is a value \<open>w\<close> of a type \<open>'w\<close> that every call takes and returns. A waiting
  pod holds a channel of capacity one, which is an optional status; sends do not block. A timer that fires calls \<open>Reject\<close>.

  The theory shows that the first decision about a waiting pod is final.
\<close>

section \<open>Waiting pods\<close>

record waitingPod =
  wp_pod :: pod
  wp_pendingPlugins :: "string set"
  wp_timers :: "string set"
  wp_s :: "Status option"

definition newWaitingPod :: "pod \<Rightarrow> (string \<rightharpoonup> int) \<Rightarrow> waitingPod" where
  "newWaitingPod pod pluginsMaxWaitTime =
     \<lparr>wp_pod = pod, wp_pendingPlugins = dom pluginsMaxWaitTime, wp_timers = dom pluginsMaxWaitTime, wp_s = None\<rparr>"

definition wp_send :: "Status \<Rightarrow> waitingPod \<Rightarrow> waitingPod" where
  "wp_send s w = (case wp_s w of None \<Rightarrow> w\<lparr>wp_s := Some s\<rparr> | Some _ \<Rightarrow> w)"

definition wp_Allow :: "string \<Rightarrow> waitingPod \<Rightarrow> waitingPod" where
  "wp_Allow pluginName w =
     (let w1 = (if pluginName \<in> wp_pendingPlugins w
                then w\<lparr>wp_timers := wp_timers w - {pluginName}, wp_pendingPlugins := wp_pendingPlugins w - {pluginName}\<rparr> else w) in
      if wp_pendingPlugins w1 \<noteq> {} then w1 else wp_send (NewStatus Success [[]]) w1)"

definition wp_Reject :: "string \<Rightarrow> string \<Rightarrow> waitingPod \<Rightarrow> waitingPod" where
  "wp_Reject pluginName msg w =
     wp_send (WithFailedPlugin (NewStatus Unschedulable [msg]) pluginName) (w\<lparr>wp_timers := wp_timers w - wp_pendingPlugins w\<rparr>)"

definition GetPendingPlugins :: "waitingPod \<Rightarrow> string set" where
  "GetPendingPlugins w = wp_pendingPlugins w"

type_synonym waitingPodsMap = "string \<rightharpoonup> waitingPod"

definition wm_add :: "waitingPod \<Rightarrow> waitingPodsMap \<Rightarrow> waitingPodsMap" where
  "wm_add wp m = m(p_UID (wp_pod wp) \<mapsto> wp)"

definition wm_remove :: "string \<Rightarrow> waitingPodsMap \<Rightarrow> waitingPodsMap" where
  "wm_remove uid m = m(uid := None)"

definition RejectWaitingPod :: "string \<Rightarrow> waitingPodsMap \<Rightarrow> waitingPodsMap" where
  "RejectWaitingPod uid m = (case m uid of None \<Rightarrow> m | Some wp \<Rightarrow> m(uid \<mapsto> wp_Reject [] ''removed'' wp))"

section \<open>Plugins\<close>

record 'w ReservePlugin =
  rv_Name :: string
  rv_Reserve :: "'w \<Rightarrow> CycleState \<Rightarrow> pod \<Rightarrow> string \<Rightarrow> 'w \<times> CycleState \<times> Status option"
  rv_Unreserve :: "'w \<Rightarrow> CycleState \<Rightarrow> pod \<Rightarrow> string \<Rightarrow> 'w \<times> CycleState"

record 'w PermitPlugin =
  pm_Name :: string
  pm_Permit :: "'w \<Rightarrow> CycleState \<Rightarrow> pod \<Rightarrow> string \<Rightarrow> 'w \<times> CycleState \<times> Status option \<times> int"

record 'w PreBindPlugin =
  pb_Name :: string
  pb_PreBind :: "'w \<Rightarrow> CycleState \<Rightarrow> pod \<Rightarrow> string \<Rightarrow> 'w \<times> CycleState \<times> Status option"

record 'w BindPlugin =
  bp_Name :: string
  bp_Bind :: "'w \<Rightarrow> CycleState \<Rightarrow> pod \<Rightarrow> string \<Rightarrow> 'w \<times> CycleState \<times> Status option"

record 'w PostBindPlugin =
  ob_Name :: string
  ob_PostBind :: "'w \<Rightarrow> CycleState \<Rightarrow> pod \<Rightarrow> string \<Rightarrow> 'w \<times> CycleState"

record 'w binding_framework =
  bf_reservePlugins :: "'w ReservePlugin list"
  bf_permitPlugins :: "'w PermitPlugin list"
  bf_preBindPlugins :: "'w PreBindPlugin list"
  bf_bindPlugins :: "'w BindPlugin list"
  bf_postBindPlugins :: "'w PostBindPlugin list"

section \<open>Reserving\<close>

fun run_reserve :: "'w ReservePlugin list \<Rightarrow> 'w \<Rightarrow> CycleState \<Rightarrow> pod \<Rightarrow> string \<Rightarrow> 'w \<times> CycleState \<times> Status option" where
  "run_reserve [] w state pod nodeName = (w, state, None)"
| "run_reserve (pl # pls) w state pod nodeName =
     (case rv_Reserve pl w state pod nodeName of
        (w', state', None) \<Rightarrow> run_reserve pls w' state' pod nodeName
      | (w', state', Some s) \<Rightarrow>
          (if IsSuccess (Some s) then run_reserve pls w' state' pod nodeName
           else (w', state', Some (AsStatus (Wrapf (''running Reserve plugin '' @ rv_Name pl) (status_error s))))))"

definition RunReservePluginsReserve :: "'w binding_framework \<Rightarrow> 'w \<Rightarrow> CycleState \<Rightarrow> pod \<Rightarrow> string \<Rightarrow> 'w \<times> CycleState \<times> Status option" where
  "RunReservePluginsReserve f w state pod nodeName = run_reserve (bf_reservePlugins f) w state pod nodeName"

definition RunReservePluginsUnreserve :: "'w binding_framework \<Rightarrow> 'w \<Rightarrow> CycleState \<Rightarrow> pod \<Rightarrow> string \<Rightarrow> 'w \<times> CycleState" where
  "RunReservePluginsUnreserve f w state pod nodeName =
     fold (\<lambda>pl (w, state). rv_Unreserve pl w state pod nodeName) (rev (bf_reservePlugins f)) (w, state)"

section \<open>Permission\<close>

text \<open>Fifteen minutes, in nanoseconds.\<close>

definition maxTimeout :: int where "maxTimeout = 15 * 60 * 10 ^ 9"

fun run_permit ::
  "'w PermitPlugin list \<Rightarrow> 'w \<Rightarrow> CycleState \<Rightarrow> pod \<Rightarrow> string \<Rightarrow> (string \<rightharpoonup> int) \<Rightarrow> Code \<Rightarrow> 'w \<times> CycleState \<times> (Status + (string \<rightharpoonup> int) \<times> Code)" where
  "run_permit [] w state pod nodeName waits code = (w, state, Inr (waits, code))"
| "run_permit (pl # pls) w state pod nodeName waits code =
     (case pm_Permit pl w state pod nodeName of
        (w', state', None, timeout) \<Rightarrow> run_permit pls w' state' pod nodeName waits code
      | (w', state', Some s, timeout) \<Rightarrow>
          (if IsSuccess (Some s) then run_permit pls w' state' pod nodeName waits code
           else if IsUnschedulable (Some s) then (w', state', Inl (SetFailedPlugin s (pm_Name pl)))
           else if st_code s = Wait then
             run_permit pls w' state' pod nodeName (waits(pm_Name pl \<mapsto> (if timeout > maxTimeout then maxTimeout else timeout))) Wait
           else (w', state', Inl (WithFailedPlugin (AsStatus (Wrapf (''running Permit plugin '' @ pm_Name pl) (status_error s))) (pm_Name pl)))))"

definition RunPermitPlugins ::
  "'w binding_framework \<Rightarrow> 'w \<Rightarrow> CycleState \<Rightarrow> pod \<Rightarrow> string \<Rightarrow> waitingPodsMap \<Rightarrow> 'w \<times> CycleState \<times> waitingPodsMap \<times> Status option" where
  "RunPermitPlugins f w state pod nodeName waiting =
     (case run_permit (bf_permitPlugins f) w state pod nodeName Map.empty Success of
        (w', state', Inl s) \<Rightarrow> (w', state', waiting, Some s)
      | (w', state', Inr (waits, code)) \<Rightarrow>
          (if code = Wait
           then (w', state', wm_add (newWaitingPod pod waits) waiting,
                 Some (NewStatus Wait [''one or more plugins asked to wait and no plugin rejected pod '' @ p_Name pod]))
           else (w', state', waiting, None)))"

text \<open>\<open>None\<close> while nothing was sent: the call blocks.\<close>

definition WaitOnPermit :: "waitingPodsMap \<Rightarrow> pod \<Rightarrow> (waitingPodsMap \<times> Status option) option" where
  "WaitOnPermit waiting pod =
     (case waiting (p_UID pod) of
        None \<Rightarrow> Some (waiting, None)
      | Some wp \<Rightarrow>
          (case wp_s wp of
             None \<Rightarrow> None
           | Some s \<Rightarrow>
               (let waiting' = wm_remove (p_UID pod) waiting in
                if IsSuccess (Some s) then Some (waiting', None)
                else if IsUnschedulable (Some s) then Some (waiting', Some (SetFailedPlugin s (st_failedPlugin s)))
                else Some (waiting', Some (WithFailedPlugin (AsStatus (Wrapf ''waiting on permit for pod'' (status_error s))) (st_failedPlugin s))))))"

section \<open>Binding\<close>

fun run_prebind :: "'w PreBindPlugin list \<Rightarrow> 'w \<Rightarrow> CycleState \<Rightarrow> pod \<Rightarrow> string \<Rightarrow> 'w \<times> CycleState \<times> Status option" where
  "run_prebind [] w state pod nodeName = (w, state, None)"
| "run_prebind (pl # pls) w state pod nodeName =
     (case pb_PreBind pl w state pod nodeName of
        (w', state', None) \<Rightarrow> run_prebind pls w' state' pod nodeName
      | (w', state', Some s) \<Rightarrow>
          (if IsSuccess (Some s) then run_prebind pls w' state' pod nodeName
           else (w', state', Some (AsStatus (Wrapf (''running PreBind plugin '' @ pb_Name pl) (status_error s))))))"

definition RunPreBindPlugins :: "'w binding_framework \<Rightarrow> 'w \<Rightarrow> CycleState \<Rightarrow> pod \<Rightarrow> string \<Rightarrow> 'w \<times> CycleState \<times> Status option" where
  "RunPreBindPlugins f w state pod nodeName = run_prebind (bf_preBindPlugins f) w state pod nodeName"

fun run_bind :: "'w BindPlugin list \<Rightarrow> 'w \<Rightarrow> CycleState \<Rightarrow> pod \<Rightarrow> string \<Rightarrow> Status option \<Rightarrow> 'w \<times> CycleState \<times> Status option" where
  "run_bind [] w state pod nodeName status = (w, state, status)"
| "run_bind (bp # bps) w state pod nodeName status =
     (case bp_Bind bp w state pod nodeName of
        (w', state', None) \<Rightarrow> (w', state', None)
      | (w', state', Some s) \<Rightarrow>
          (if st_code s = Skip then run_bind bps w' state' pod nodeName (Some s)
           else if \<not> IsSuccess (Some s) then (w', state', Some (AsStatus (Wrapf (''running Bind plugin '' @ bp_Name bp) (status_error s))))
           else (w', state', Some s)))"

definition RunBindPlugins :: "'w binding_framework \<Rightarrow> 'w \<Rightarrow> CycleState \<Rightarrow> pod \<Rightarrow> string \<Rightarrow> 'w \<times> CycleState \<times> Status option" where
  "RunBindPlugins f w state pod nodeName =
     (if length (bf_bindPlugins f) = 0 then (w, state, Some (NewStatus Skip [[]]))
      else run_bind (bf_bindPlugins f) w state pod nodeName None)"

definition RunPostBindPlugins :: "'w binding_framework \<Rightarrow> 'w \<Rightarrow> CycleState \<Rightarrow> pod \<Rightarrow> string \<Rightarrow> 'w \<times> CycleState" where
  "RunPostBindPlugins f w state pod nodeName = fold (\<lambda>pl (w, state). ob_PostBind pl w state pod nodeName) (bf_postBindPlugins f) (w, state)"

section \<open>Decisions about waiting pods\<close>

datatype wait_event = WAllow string | WReject string string

fun wp_event :: "wait_event \<Rightarrow> waitingPod \<Rightarrow> waitingPod" where
  "wp_event (WAllow n) w = wp_Allow n w"
| "wp_event (WReject n msg) w = wp_Reject n msg w"

definition wp_run :: "wait_event list \<Rightarrow> waitingPod \<Rightarrow> waitingPod" where
  "wp_run es w = fold wp_event es w"

definition allowed :: "wait_event list \<Rightarrow> string set" where
  "allowed es = {n. WAllow n \<in> set es}"

definition rejected_status :: "string \<Rightarrow> string \<Rightarrow> Status" where
  "rejected_status n msg = WithFailedPlugin (NewStatus Unschedulable [msg]) n"

text \<open>The event that decides: the first rejection, or the permission of the last plugin when it comes before.\<close>

fun decision :: "string set \<Rightarrow> wait_event list \<Rightarrow> Status option" where
  "decision P [] = None"
| "decision P (WReject n msg # es) = Some (rejected_status n msg)"
| "decision P (WAllow n # es) = (if P - {n} = {} then Some (NewStatus Success [[]]) else decision (P - {n}) es)"

lemma allowed_simps [simp]: "allowed [] = {}" "allowed (WAllow n # es) = insert n (allowed es)" "allowed (WReject n msg # es) = allowed es"
  by (auto simp: allowed_def)

lemma wp_event_sent: "wp_s w = Some s \<Longrightarrow> wp_s (wp_event e w) = Some s"
  by (cases e) (auto simp: wp_Allow_def wp_Reject_def wp_send_def Let_def split: option.splits)

lemma wp_run_sent: "wp_s w = Some s \<Longrightarrow> wp_s (wp_run es w) = Some s"
  unfolding wp_run_def by (induction es arbitrary: w) (simp_all add: wp_event_sent)

lemma wp_run_decision: "wp_s w = None \<Longrightarrow> wp_s (wp_run es w) = decision (wp_pendingPlugins w) es"
proof (induction es arbitrary: w)
  case (Cons e es)
  have step: "wp_run (e # es) w = wp_run es (wp_event e w)" by (simp add: wp_run_def)
  show ?case
  proof (cases e)
    case (WReject n msg)
    then have "wp_s (wp_event e w) = Some (rejected_status n msg)" using Cons.prems by (simp add: wp_Reject_def wp_send_def rejected_status_def)
    then show ?thesis using wp_run_sent step WReject by simp
  next
    case (WAllow n)
    let ?w = "wp_event e w"
    show ?thesis
    proof (cases "wp_pendingPlugins w - {n} = {}")
      case True
      then have "wp_s ?w = Some (NewStatus Success [[]])" using Cons.prems WAllow by (auto simp: wp_Allow_def wp_send_def Let_def)
      then show ?thesis using wp_run_sent step WAllow True by simp
    next
      case False
      then have "wp_s ?w = None" "wp_pendingPlugins ?w = wp_pendingPlugins w - {n}" using Cons.prems WAllow by (auto simp: wp_Allow_def Let_def)
      then show ?thesis using Cons.IH [of ?w] step WAllow False by simp
    qed
  qed
qed (simp add: wp_run_def)

definition decides :: "string set \<Rightarrow> Status \<Rightarrow> wait_event list \<Rightarrow> wait_event \<Rightarrow> bool" where
  "decides P s pre e \<longleftrightarrow> list_all (\<lambda>x. case x of WReject _ _ \<Rightarrow> False | WAllow _ \<Rightarrow> True) pre \<and> \<not> P \<subseteq> allowed pre \<and>
     (case e of WReject n msg \<Rightarrow> s = rejected_status n msg | WAllow n \<Rightarrow> P \<subseteq> insert n (allowed pre) \<and> s = NewStatus Success [[]])"

lemma decides_simps [simp]:
  "decides P s (WAllow n # pre) e \<longleftrightarrow> decides (P - {n}) s pre e" "\<not> decides P s (WReject n msg # pre) e"
  "decides P s [] (WReject n msg) \<longleftrightarrow> P \<noteq> {} \<and> s = rejected_status n msg" "decides P s [] (WAllow n) \<longleftrightarrow> P \<noteq> {} \<and> P - {n} = {} \<and> s = NewStatus Success [[]]"
  by (cases e) (auto simp: decides_def)

lemma ex_split_Cons: "(\<exists>pre e post. x # es = pre @ e # post \<and> Q pre e) \<longleftrightarrow> Q [] x \<or> (\<exists>pre e post. es = pre @ e # post \<and> Q (x # pre) e)"
  by (metis append_Cons append_Nil append_eq_Cons_conv list.inject)

lemma decides_empty: "P = {} \<Longrightarrow> \<not> decides P s pre e"
  by (simp add: decides_def)

lemma decision_iff: "P \<noteq> {} \<Longrightarrow> decision P es = Some s \<longleftrightarrow> (\<exists>pre e post. es = pre @ e # post \<and> decides P s pre e)"
proof (induction es arbitrary: P)
  case (Cons x es)
  show ?case
  proof (cases x)
    case (WAllow n)
    show ?thesis
    proof (cases "P - {n} = {}")
      case True
      then have "P = {n}" using Cons.prems by blast
      then show ?thesis unfolding ex_split_Cons WAllow by (auto simp: decides_empty)
    next
      case False
      then show ?thesis unfolding ex_split_Cons WAllow using Cons.IH [of "P - {n}"] by auto
    qed
  next
    case (WReject n msg)
    then show ?thesis unfolding ex_split_Cons using Cons.prems by auto
  qed
qed simp

lemma rejected_code [simp]: "st_code (rejected_status n msg) = Unschedulable"
  by (simp add: rejected_status_def)

lemma decides_form:
  assumes "decides P s pre e"
  shows "(\<exists>n. e = WAllow n) \<and> s = NewStatus Success [[]] \<or> (\<exists>n msg. e = WReject n msg \<and> s = rejected_status n msg)"
  using assms by (cases e) (simp_all add: decides_def)

lemma decision_success:
  assumes "P \<noteq> {}"
  shows "(\<exists>s. decision P es = Some s \<and> IsSuccess (Some s)) \<longleftrightarrow> (\<exists>pre n post. es = pre @ WAllow n # post \<and> decides P (NewStatus Success [[]]) pre (WAllow n))"
    (is "?l \<longleftrightarrow> ?r")
proof
  assume ?l
  then obtain s pre e post where "es = pre @ e # post" "decides P s pre e" "IsSuccess (Some s)" using decision_iff [OF assms] by metis
  then show ?r using decides_form [of P s pre e] by auto
next
  assume ?r
  then show ?l using decision_iff [OF assms, of es "NewStatus Success [[]]"] by auto
qed

lemma decision_rejects:
  assumes "P \<noteq> {}"
  shows "decision P es = Some st \<and> \<not> IsSuccess (Some st) \<longleftrightarrow> (\<exists>pre n msg post. es = pre @ WReject n msg # post \<and> st = rejected_status n msg \<and> decides P st pre (WReject n msg))"
    (is "?l \<longleftrightarrow> ?r")
proof
  assume ?l
  then obtain pre e post where "es = pre @ e # post" "decides P st pre e" "\<not> IsSuccess (Some st)" using decision_iff [OF assms] by metis
  then show ?r using decides_form [of P st pre e] by auto
next
  assume ?r
  then show ?l using decision_iff [OF assms, of es st] by auto
qed

lemma decision_None: "P \<noteq> {} \<Longrightarrow> decision P es = None \<longleftrightarrow> list_all (\<lambda>x. case x of WReject _ _ \<Rightarrow> False | WAllow _ \<Rightarrow> True) es \<and> \<not> P \<subseteq> allowed es"
proof (induction es arbitrary: P)
  case (Cons x es)
  then show ?case by (cases x) auto
qed simp

text \<open>C39: Whatever calls of \<open>Allow\<close> and \<open>Reject\<close> a waiting pod receives, timers included, the status that is sent to its binding cycle is decided once: it is a
  success if and only if every plugin that asked to wait allowed the pod before the first rejection, and otherwise it is the first rejection with its plugin and message. While neither
  happened, \<open>WaitOnPermit\<close> blocks. Later calls change nothing.\<close>

theorem permit_decision:
  assumes "dom waits \<noteq> {}" "waiting (p_UID pod) = Some (wp_run es (newWaitingPod pod waits))"
  shows "(WaitOnPermit waiting pod = None \<longleftrightarrow>
       list_all (\<lambda>x. case x of WReject _ _ \<Rightarrow> False | WAllow _ \<Rightarrow> True) es \<and> \<not> dom waits \<subseteq> allowed es) \<and>
     (WaitOnPermit waiting pod = Some (waiting(p_UID pod := None), None) \<longleftrightarrow>
       (\<exists>pre n post. es = pre @ WAllow n # post \<and> decides (dom waits) (NewStatus Success [[]]) pre (WAllow n))) \<and>
     (\<forall>st. WaitOnPermit waiting pod = Some (waiting(p_UID pod := None), Some st) \<longleftrightarrow>
       (\<exists>pre n msg post. es = pre @ WReject n msg # post \<and> st = rejected_status n msg \<and> decides (dom waits) st pre (WReject n msg)))"
proof -
  let ?w = "newWaitingPod pod waits" and ?D = "decision (dom waits) es"
  have d: "wp_s (wp_run es ?w) = ?D" using wp_run_decision [of ?w es] by (simp add: newWaitingPod_def)
  have kept: "IsSuccess (Some s) \<or> IsUnschedulable (Some s)" if "?D = Some s" for s
  proof -
    obtain pre e where "decides (dom waits) s pre e" using \<open>?D = Some s\<close> decision_iff [OF assms(1)] by blast
    then show ?thesis using decides_form [of "dom waits" s pre e] by auto
  qed
  have wait: "WaitOnPermit waiting pod = map_option (\<lambda>s. (waiting(p_UID pod := None), if IsSuccess (Some s) then None else Some s)) ?D"
    using assms(2) d kept by (auto simp: WaitOnPermit_def wm_remove_def Let_def SetFailedPlugin_def split: option.splits)
  show ?thesis unfolding decision_success [OF assms(1), symmetric] decision_rejects [OF assms(1), symmetric] wait using decision_None [OF assms(1)] by auto
qed

definition waiter :: pod where
  "waiter = sample_pod ''u1'' 0 0"

definition sample_waiting :: "wait_event list \<Rightarrow> waitingPodsMap" where
  "sample_waiting es = [p_UID waiter \<mapsto> wp_run es (newWaitingPod waiter [''quota'' \<mapsto> 10, ''gang'' \<mapsto> 30])]"

theorem permit_decision_witness:
  "WaitOnPermit (sample_waiting [WAllow ''gang'']) waiter = None \<and>
   WaitOnPermit (sample_waiting [WAllow ''gang'', WAllow ''quota'', WReject ''gang'' ''late'']) waiter = Some (Map.empty, None) \<and>
   WaitOnPermit (sample_waiting [WAllow ''gang'', WReject ''quota'' ''full'', WAllow ''quota'']) waiter = Some (Map.empty, Some (rejected_status ''quota'' ''full''))"
proof -
  have w: "dom [''quota'' \<mapsto> 10, ''gang'' \<mapsto> (30::int)] = {''quota'', ''gang''}" by auto
  have rule: "sample_waiting es (p_UID waiter) = Some (wp_run es (newWaitingPod waiter [''quota'' \<mapsto> 10, ''gang'' \<mapsto> 30]))"
    "(sample_waiting es)(p_UID waiter := None) = Map.empty" for es
    by (simp_all add: sample_waiting_def)
  note d = permit_decision [where waits = "[''quota'' \<mapsto> 10, ''gang'' \<mapsto> 30]" and waiting = "sample_waiting es" and pod = waiter and es = es for es,
      unfolded w rule(2), OF _ rule(1)]
  have a: "WaitOnPermit (sample_waiting [WAllow ''gang'']) waiter = None" using d [of "[WAllow ''gang'']"] by simp
  let ?b = "[WAllow ''gang'', WAllow ''quota'', WReject ''gang'' ''late'']" and ?c = "[WAllow ''gang'', WReject ''quota'' ''full'', WAllow ''quota'']"
  have "?b = [WAllow ''gang''] @ WAllow ''quota'' # [WReject ''gang'' ''late'']" "decides {''quota'', ''gang''} (NewStatus Success [[]]) [WAllow ''gang''] (WAllow ''quota'')"
    by auto
  then have b: "WaitOnPermit (sample_waiting ?b) waiter = Some (Map.empty, None)" using d [of ?b] by blast
  have "?c = [WAllow ''gang''] @ WReject ''quota'' ''full'' # [WAllow ''quota'']"
    "decides {''quota'', ''gang''} (rejected_status ''quota'' ''full'') [WAllow ''gang''] (WReject ''quota'' ''full'')"
    by auto
  then have c: "WaitOnPermit (sample_waiting ?c) waiter = Some (Map.empty, Some (rejected_status ''quota'' ''full''))" using d [of ?c] by blast
  show ?thesis using a b c by blast
qed

end
