(* ===== verification/Schedule_One.thy ===== *)
theory Schedule_One
  imports Generic_Scheduler Binding_Plugins Scheduling_Queue
begin

text \<open>
  The scheduler (\<open>pkg/scheduler/scheduler.go\<close>, with \<open>MakeDefaultErrorFunc\<close> of \<open>factory.go\<close>): a scheduling cycle pops a pod, selects a node, assumes the pod there and runs
  the reserve and permit plugins; a binding cycle, a goroutine of its own, waits for the permission, binds the pod and tells the cache, or gives the node back and the pod to the queue.

  A cycle is at a \<open>stage\<close>. One step of \<open>cycle_step\<close> runs it up to the next stage, so that the steps of several cycles and of the event handlers can be interleaved between the calls
  of \<open>scheduleOne\<close> that touch shared state. Stages up to \<open>Spawn\<close> are those of \<open>scheduleOne\<close>, which runs them one after the other; the stages from \<open>WaitPermit\<close> on are those of
  the binding goroutine.

  The informer's store of pods is a field of the state. The API server and what plugins and extenders reach is the world \<open>w\<close>. The text of errors, the API client, the \<open>Bind\<close> calls of
  extenders and the classification of API errors are arguments in \<open>sched_config\<close>. Events, logs and metrics are left out.
\<close>

section \<open>State\<close>

record 'w Scheduler =
  sd_SchedulerCache :: schedulerCache
  sd_SchedulingQueue :: PriorityQueue
  sd_Algorithm :: genericScheduler
  sd_waitingPods :: "string \<Rightarrow> waitingPodsMap"
  sd_podLister :: "string \<times> string \<rightharpoonup> pod"
  sd_world :: 'w

text \<open>The frameworks of the profiles share one nominator, that of the queue; each has waiting pods of its own.\<close>

type_synonym 'w profile = "filter_framework \<times> 'w binding_framework"

text \<open>\<open>cf_nodeNotFound\<close> gives the name of the node that an API error says was not found, \<open>cf_nodeGone\<close> whether the API server, asked again, still does not have it, and
  \<open>cf_ExtenderBind\<close> the \<open>Bind\<close> method of the extender at a position.\<close>

record 'w sched_config =
  cf_orders :: sched_orders
  cf_go :: go_orders
  cf_gates :: feature_gates
  cf_snapshot :: "Snapshot \<Rightarrow> string list"
  cf_Profiles :: "string \<rightharpoonup> 'w profile"
  cf_ErrorText :: "schedule_error \<Rightarrow> string"
  cf_PatchPod :: "'w \<Rightarrow> pod \<Rightarrow> pod \<Rightarrow> 'w \<times> go_error option"
  cf_nodeNotFound :: "go_error \<Rightarrow> string option"
  cf_nodeGone :: "'w \<Rightarrow> string \<Rightarrow> bool"
  cf_ExtenderBind :: "nat \<Rightarrow> 'w \<Rightarrow> pod \<Rightarrow> string \<Rightarrow> 'w \<times> go_error option"

definition frameworkForPod :: "'w sched_config \<Rightarrow> pod \<Rightarrow> go_error + 'w profile" where
  "frameworkForPod cfg pod =
     (case cf_Profiles cfg (p_SchedulerName pod) of
        None \<Rightarrow> Inl (Errorf ''profile not found for scheduler name'')
      | Some fwk \<Rightarrow> Inr fwk)"

text \<open>The framework reads the nominated pods from the queue.\<close>

definition with_nominator :: "PriorityQueue \<Rightarrow> filter_framework \<Rightarrow> filter_framework" where
  "with_nominator p f = f\<lparr>fw_NominatedPodsForNode := (\<lambda>name. map (\<lambda>r. podInfo.truncate (pr_info r)) (NominatedPodsForNode (pq_nominator p) name))\<rparr>"

section \<open>Skipping a pod\<close>

definition update_copy :: "pod \<Rightarrow> pod" where
  "update_copy pod = pod\<lparr>p_ResourceVersion := [], p_NodeName := [], p_Annotations := [], p_Conditions := []\<rparr>"

definition skipPodUpdate :: "schedulerCache \<Rightarrow> pod \<Rightarrow> bool" where
  "skipPodUpdate cache pod =
     (case sc_IsAssumedPod cache pod of
        Inl err \<Rightarrow> False
      | Inr isAssumed \<Rightarrow>
          (if \<not> isAssumed then False
           else
             (case sc_GetPod cache pod of
                Inl err \<Rightarrow> False
              | Inr assumedPod \<Rightarrow> if update_copy assumedPod \<noteq> update_copy pod then False else True)))"

definition skipPodSchedule :: "schedulerCache \<Rightarrow> pod \<Rightarrow> bool" where
  "skipPodSchedule cache pod =
     (if p_DeletionTimestamp pod \<noteq> None then True
      else if skipPodUpdate cache pod then True
      else False)"

section \<open>Failures\<close>

fun GetPodConditionFromList :: "PodCondition list \<Rightarrow> string \<Rightarrow> (nat \<times> PodCondition) option" where
  "GetPodConditionFromList [] conditionType = None"
| "GetPodConditionFromList (c # cs) conditionType =
     (if pc_Type c = conditionType then Some (0, c) else map_option (\<lambda>(i, c). (Suc i, c)) (GetPodConditionFromList cs conditionType))"

definition UpdatePodCondition :: "int \<Rightarrow> PodCondition list \<Rightarrow> PodCondition \<Rightarrow> PodCondition list \<times> bool" where
  "UpdatePodCondition now conditions condition =
     (case GetPodConditionFromList conditions (pc_Type condition) of
        None \<Rightarrow> (conditions @ [condition\<lparr>pc_LastTransitionTime := now\<rparr>], True)
      | Some (conditionIndex, oldCondition) \<Rightarrow>
          (let condition1 = condition\<lparr>pc_LastTransitionTime :=
                 (if pc_Status condition = pc_Status oldCondition then pc_LastTransitionTime oldCondition else now)\<rparr>;
               isEqual = (pc_Status condition1 = pc_Status oldCondition \<and> pc_Reason condition1 = pc_Reason oldCondition \<and>
                 pc_Message condition1 = pc_Message oldCondition \<and> pc_LastProbeTime condition1 = pc_LastProbeTime oldCondition \<and>
                 pc_LastTransitionTime condition1 = pc_LastTransitionTime oldCondition) in
           (conditions[conditionIndex := condition1], \<not> isEqual)))"

definition patch_condition :: "'w sched_config \<Rightarrow> int \<Rightarrow> 'w \<Rightarrow> pod \<Rightarrow> PodCondition \<Rightarrow> string \<Rightarrow> 'w \<times> go_error option" where
  "patch_condition cfg now w pod condition nominatedNode =
     (let (conditions, updated) = UpdatePodCondition now (p_Conditions pod) condition;
          podCopy = pod\<lparr>p_Conditions := conditions\<rparr> in
      if \<not> updated \<and> (length nominatedNode = 0 \<or> p_NominatedNodeName pod = nominatedNode) then (w, None)
      else cf_PatchPod cfg w pod (if nominatedNode \<noteq> [] then podCopy\<lparr>p_NominatedNodeName := nominatedNode\<rparr> else podCopy))"

text \<open>A node that has only a name.\<close>

definition named_node :: "string \<Rightarrow> node" where
  "named_node name = \<lparr>n_Name = name, n_Labels = Map.empty, n_Unschedulable = False, n_Taints = [], n_Allocatable = [], n_Images = [], n_Conditions = []\<rparr>"

text \<open>The function writes to the queued information, which is returned with the state. The clock reading is that of \<open>AddUnschedulableIfNotPresent\<close>.\<close>

definition MakeDefaultErrorFunc ::
  "'w sched_config \<Rightarrow> int \<Rightarrow> QueuedPodInfo \<Rightarrow> schedule_error \<Rightarrow> 'w Scheduler \<Rightarrow> ('w Scheduler \<times> QueuedPodInfo) go" where
  "MakeDefaultErrorFunc cfg now podInfo err s =
     (let pod = qp_Pod podInfo;
          (podInfo1, s1) =
            (case err of
               ErrNoNodesAvailable \<Rightarrow> (podInfo, s)
             | FitError _ _ diagnosis \<Rightarrow> (podInfo\<lparr>qp_UnschedulablePlugins := di_UnschedulablePlugins diagnosis\<rparr>, s)
             | OtherError e \<Rightarrow>
                 (podInfo,
                  case cf_nodeNotFound cfg e of
                    None \<Rightarrow> s
                  | Some nodeName \<Rightarrow>
                      if cf_nodeGone cfg (sd_world s) nodeName
                      then s\<lparr>sd_SchedulerCache := fst (sc_RemoveNode (cf_gates cfg) (sd_SchedulerCache s) (named_node nodeName))\<rparr>
                      else s)) in
      case sd_podLister s (p_Namespace pod, p_Name pod) of
        None \<Rightarrow> Some (s1, podInfo1)
      | Some cachedPod \<Rightarrow>
          (if length (p_NodeName cachedPod) \<noteq> 0 then Some (s1, podInfo1)
           else
             let podQueue = sd_SchedulingQueue s1;
                 podInfo2 = podInfo1\<lparr>qp_PodInfo := \<lparr>pr_addr = pq_next podQueue, pr_info = full_NewPodInfo (cf_go cfg) cachedPod\<rparr>\<rparr> in
             do {
               (podQueue1, _) \<leftarrow> AddUnschedulableIfNotPresent now podInfo2 (SchedulingCycle podQueue) (podQueue\<lparr>pq_next := Suc (pq_next podQueue)\<rparr>);
               Some (s1\<lparr>sd_SchedulingQueue := podQueue1\<rparr>, podInfo2)
             }))"

definition recordSchedulingFailure ::
  "'w sched_config \<Rightarrow> int \<Rightarrow> QueuedPodInfo \<Rightarrow> schedule_error \<Rightarrow> string \<Rightarrow> string \<Rightarrow> 'w Scheduler \<Rightarrow> 'w Scheduler go" where
  "recordSchedulingFailure cfg now podInfo err reason nominatedNode s =
     do {
       (s1, podInfo1) \<leftarrow> MakeDefaultErrorFunc cfg now podInfo err s;
       let s2 = s1\<lparr>sd_SchedulingQueue := pq_AddNominatedPod (qp_PodInfo podInfo1) nominatedNode (sd_SchedulingQueue s1)\<rparr>;
       let condition = \<lparr>pc_Type = ''PodScheduled'', pc_Status = ''False'', pc_LastProbeTime = 0, pc_LastTransitionTime = 0,
             pc_Reason = reason, pc_Message = cf_ErrorText cfg err\<rparr>;
       Some (s2\<lparr>sd_world := fst (patch_condition cfg now (sd_world s2) (qp_Pod podInfo1) condition nominatedNode)\<rparr>)
     }"

section \<open>Assuming and binding\<close>

definition set_pod :: "QueuedPodInfo \<Rightarrow> pod \<Rightarrow> QueuedPodInfo" where
  "set_pod podInfo pod = podInfo\<lparr>qp_PodInfo := (qp_PodInfo podInfo)\<lparr>pr_info := (pr_info (qp_PodInfo podInfo))\<lparr>pi_Pod := pod\<rparr>\<rparr>\<rparr>"

text \<open>\<open>assume\<close> gets the pod with its new node name.\<close>

definition sched_assume :: "'w sched_config \<Rightarrow> pod \<Rightarrow> 'w Scheduler \<Rightarrow> ('w Scheduler \<times> go_error option) go" where
  "sched_assume cfg assumed s =
     do {
       (cache, err) \<leftarrow> sc_AssumePod (cf_gates cfg) (sd_SchedulerCache s) assumed;
       let s1 = s\<lparr>sd_SchedulerCache := cache\<rparr>;
       Some (case err of
           Some e \<Rightarrow> (s1, Some e)
         | None \<Rightarrow> (s1\<lparr>sd_SchedulingQueue := pq_DeleteNominatedPodIfExists assumed (sd_SchedulingQueue s1)\<rparr>, None))
     }"

text \<open>The first extender that binds and is interested in the pod; \<open>None\<close> if there is none.\<close>

fun extendersBinding :: "'w sched_config \<Rightarrow> nat \<Rightarrow> Extender list \<Rightarrow> 'w \<Rightarrow> pod \<Rightarrow> string \<Rightarrow> ('w \<times> go_error option) option" where
  "extendersBinding cfg i [] w pod node = None"
| "extendersBinding cfg i (extender # extenders) w pod node =
     (if \<not> ex_IsBinder extender \<or> \<not> ex_IsInterested extender pod then extendersBinding cfg (Suc i) extenders w pod node
      else Some (cf_ExtenderBind cfg i w pod node))"

text \<open>\<open>bind\<close> up to its deferred call of \<open>finishBinding\<close>, which is the next stage.\<close>

definition sched_bind ::
  "'w sched_config \<Rightarrow> 'w binding_framework \<Rightarrow> Extender list \<Rightarrow> 'w \<Rightarrow> CycleState \<Rightarrow> pod \<Rightarrow> string \<Rightarrow> 'w \<times> CycleState \<times> go_error option" where
  "sched_bind cfg fwk extenders w state assumed targetNode =
     (case extendersBinding cfg 0 extenders w assumed targetNode of
        Some (w', err) \<Rightarrow> (w', state, err)
      | None \<Rightarrow>
          (case RunBindPlugins fwk w state assumed targetNode of
             (w', state', bindStatus) \<Rightarrow>
               (w', state',
                if IsSuccess bindStatus then None
                else if status_Code bindStatus = Error then AsError bindStatus
                else Some (Errorf ''bind status''))))"

definition finishBinding :: "pod \<Rightarrow> int \<Rightarrow> 'w Scheduler \<Rightarrow> 'w Scheduler" where
  "finishBinding assumed now s = s\<lparr>sd_SchedulerCache := fst (sc_finishBinding (sd_SchedulerCache s) assumed now)\<rparr>"

section \<open>The scheduling and the binding cycle\<close>

text \<open>What a cycle knows after a node is selected: the copy of the queued information, whose pod has the name of the node, the state that the plugins share and the profile.\<close>

record 'w cycle =
  cy_podInfo :: QueuedPodInfo
  cy_state :: CycleState
  cy_fwk :: "'w profile"

abbreviation cy_pod :: "'w cycle \<Rightarrow> pod" where
  "cy_pod c \<equiv> qp_Pod (cy_podInfo c)"

abbreviation cy_host :: "'w cycle \<Rightarrow> string" where
  "cy_host c \<equiv> p_NodeName (cy_pod c)"

datatype 'w stage =
    NextPod
  | Popped QueuedPodInfo
  | Assume "'w cycle"
  | Reserve "'w cycle"
  | Permit "'w cycle"
  | Spawn "'w cycle"
  | WaitPermit "'w cycle"
  | PreBind "'w cycle"
  | Bind "'w cycle"
  | Finish "'w cycle" "go_error option"
  | PostBind "'w cycle"
  | Unreserve "'w cycle" go_error string
  | Fail QueuedPodInfo schedule_error string string
  | Done

definition PodReasonUnschedulable :: string where "PodReasonUnschedulable = ''Unschedulable''"

definition SchedulerError :: string where "SchedulerError = ''SchedulerError''"

text \<open>From a popped pod to the selected node, or to the failure with the node that the postfilter plugins nominate.\<close>

definition select_node ::
  "'w sched_config \<Rightarrow> choices \<Rightarrow> QueuedPodInfo \<Rightarrow> 'w Scheduler \<Rightarrow> ('w Scheduler \<times> 'w stage) go" where
  "select_node cfg ch podInfo s =
     (let pod = qp_Pod podInfo in
      case frameworkForPod cfg pod of
        Inl err \<Rightarrow> Some (s, Done)
      | Inr fwk \<Rightarrow>
          (if skipPodSchedule (sd_SchedulerCache s) pod then Some (s, Done)
           else
             let f = with_nominator (sd_SchedulingQueue s) (fst fwk) in
             do {
               (algorithm, state, r) \<leftarrow> Schedule (cf_orders cfg) (cf_gates cfg) (cf_snapshot cfg) (sc_gen (sd_SchedulerCache s)) ch (sd_SchedulerCache s)
                 (sd_Algorithm s) f NewCycleState pod;
               let s1 = s\<lparr>sd_Algorithm := algorithm\<rparr>;
               Some
                 (case r of
                    Inl err \<Rightarrow>
                      (let nominatedNode =
                         (case err of
                            FitError _ _ diagnosis \<Rightarrow>
                              (if \<not> HasPostFilterPlugins f then []
                               else
                                 (case RunPostFilterPlugins (cf_orders cfg) f state pod (di_NodeToStatusMap diagnosis) of
                                    (result, status) \<Rightarrow>
                                      (case result of
                                         Some name \<Rightarrow> if IsSuccess status then name else []
                                       | None \<Rightarrow> [])))
                          | _ \<Rightarrow> []) in
                       (s1, Fail podInfo err PodReasonUnschedulable nominatedNode))
                  | Inr scheduleResult \<Rightarrow>
                      (let podQueue = sd_SchedulingQueue s1;
                           assumedPodInfo = QueuedPodInfo_DeepCopy (pq_next podQueue) podInfo in
                       (s1\<lparr>sd_SchedulingQueue := podQueue\<lparr>pq_next := Suc (pq_next podQueue)\<rparr>\<rparr>,
                        Assume \<lparr>cy_podInfo = set_pod assumedPodInfo ((qp_Pod assumedPodInfo)\<lparr>p_NodeName := sr_SuggestedHost scheduleResult\<rparr>),
                          cy_state = state, cy_fwk = fwk\<rparr>)))
             }))"

text \<open>The reason of a failure in the permit stages.\<close>

definition permit_reason :: "Status option \<Rightarrow> string" where
  "permit_reason s = (if IsUnschedulable s then PodReasonUnschedulable else SchedulerError)"

text \<open>One step of a cycle, with the clock and what the runtime decides as arguments. \<open>Some None\<close> when the call blocks.\<close>

fun cycle_step :: "'w sched_config \<Rightarrow> int \<Rightarrow> choices \<Rightarrow> 'w stage \<Rightarrow> 'w Scheduler \<Rightarrow> ('w Scheduler \<times> 'w stage) option go" where
  "cycle_step cfg now ch NextPod s =
     do {
       r \<leftarrow> MakeNextPodFunc (sd_SchedulingQueue s);
       Some (case r of
           None \<Rightarrow> None
         | Some (podQueue, podInfo) \<Rightarrow>
             Some (s\<lparr>sd_SchedulingQueue := podQueue\<rparr>, case podInfo of None \<Rightarrow> Done | Some i \<Rightarrow> Popped i))
     }"
| "cycle_step cfg now ch (Popped podInfo) s = map_option Some (select_node cfg ch podInfo s)"
| "cycle_step cfg now ch (Assume c) s =
     do {
       (s1, err) \<leftarrow> sched_assume cfg (cy_pod c) s;
       Some (Some (s1, case err of Some e \<Rightarrow> Fail (cy_podInfo c) (OtherError e) SchedulerError [] | None \<Rightarrow> Reserve c))
     }"
| "cycle_step cfg now ch (Reserve c) s =
     (case RunReservePluginsReserve (snd (cy_fwk c)) (sd_world s) (cy_state c) (cy_pod c) (cy_host c) of
        (w, state, sts) \<Rightarrow>
          Some (Some (s\<lparr>sd_world := w\<rparr>,
            case sts of
              Some st \<Rightarrow> if IsSuccess sts then Permit (c\<lparr>cy_state := state\<rparr>) else Unreserve (c\<lparr>cy_state := state\<rparr>) (status_error st) SchedulerError
            | None \<Rightarrow> Permit (c\<lparr>cy_state := state\<rparr>))))"
| "cycle_step cfg now ch (Permit c) s =
     (let profile = p_SchedulerName (cy_pod c) in
      case RunPermitPlugins (snd (cy_fwk c)) (sd_world s) (cy_state c) (cy_pod c) (cy_host c) (sd_waitingPods s profile) of
        (w, state, waiting, runPermitStatus) \<Rightarrow>
          Some (Some (s\<lparr>sd_world := w, sd_waitingPods := (sd_waitingPods s)(profile := waiting)\<rparr>,
            case runPermitStatus of
              Some st \<Rightarrow>
                if status_Code runPermitStatus \<noteq> Wait \<and> \<not> IsSuccess runPermitStatus
                then Unreserve (c\<lparr>cy_state := state\<rparr>) (status_error st) (permit_reason runPermitStatus)
                else Spawn (c\<lparr>cy_state := state\<rparr>)
            | None \<Rightarrow> Spawn (c\<lparr>cy_state := state\<rparr>))))"
| "cycle_step cfg now ch (Spawn c) s = Some (Some (s, WaitPermit c))"
| "cycle_step cfg now ch (WaitPermit c) s =
     (let profile = p_SchedulerName (cy_pod c) in
      case WaitOnPermit (sd_waitingPods s profile) (cy_pod c) of
        None \<Rightarrow> Some None
      | Some (waiting, waitOnPermitStatus) \<Rightarrow>
          Some (Some (s\<lparr>sd_waitingPods := (sd_waitingPods s)(profile := waiting)\<rparr>,
            case waitOnPermitStatus of
              Some st \<Rightarrow> if IsSuccess waitOnPermitStatus then PreBind c else Unreserve c (status_error st) (permit_reason waitOnPermitStatus)
            | None \<Rightarrow> PreBind c)))"
| "cycle_step cfg now ch (PreBind c) s =
     (case RunPreBindPlugins (snd (cy_fwk c)) (sd_world s) (cy_state c) (cy_pod c) (cy_host c) of
        (w, state, preBindStatus) \<Rightarrow>
          Some (Some (s\<lparr>sd_world := w\<rparr>,
            case preBindStatus of
              Some st \<Rightarrow> if IsSuccess preBindStatus then Bind (c\<lparr>cy_state := state\<rparr>) else Unreserve (c\<lparr>cy_state := state\<rparr>) (status_error st) SchedulerError
            | None \<Rightarrow> Bind (c\<lparr>cy_state := state\<rparr>))))"
| "cycle_step cfg now ch (Bind c) s =
     (case sched_bind cfg (snd (cy_fwk c)) (gs_extenders (sd_Algorithm s)) (sd_world s) (cy_state c) (cy_pod c) (cy_host c) of
        (w, state, err) \<Rightarrow> Some (Some (s\<lparr>sd_world := w\<rparr>, Finish (c\<lparr>cy_state := state\<rparr>) err)))"
| "cycle_step cfg now ch (Finish c err) s =
     Some (Some (finishBinding (cy_pod c) now s,
       case err of Some e \<Rightarrow> Unreserve c (Wrapf ''binding rejected'' e) SchedulerError | None \<Rightarrow> PostBind c))"
| "cycle_step cfg now ch (PostBind c) s =
     (case RunPostBindPlugins (snd (cy_fwk c)) (sd_world s) (cy_state c) (cy_pod c) (cy_host c) of
        (w, state) \<Rightarrow> Some (Some (s\<lparr>sd_world := w\<rparr>, Done)))"
| "cycle_step cfg now ch (Unreserve c err reason) s =
     (case RunReservePluginsUnreserve (snd (cy_fwk c)) (sd_world s) (cy_state c) (cy_pod c) (cy_host c) of
        (w, state) \<Rightarrow>
          do {
            (cache, _) \<leftarrow> sc_ForgetPod (cf_gates cfg) (sd_SchedulerCache s) (cy_pod c);
            Some (Some (s\<lparr>sd_world := w, sd_SchedulerCache := cache\<rparr>, Fail (cy_podInfo c) (OtherError err) reason []))
          })"
| "cycle_step cfg now ch (Fail podInfo err reason nominatedNode) s =
     do {
       s1 \<leftarrow> recordSchedulingFailure cfg now podInfo err reason nominatedNode s;
       Some (Some (s1, Done))
     }"
| "cycle_step cfg now ch Done s = Some (Some (s, Done))"

end
