(* ===== verification/Event_Handlers.thy ===== *)
theory Event_Handlers
  imports Schedule_One
begin

text \<open>
  The scheduler's handlers of informer events (\<open>pkg/scheduler/eventhandlers.go\<close>) and the filtering handler of \<open>client-go/tools/cache/controller.go\<close> through which they get the events
  of pods. An object that an informer hands out is a pod, a node, another object, or a tombstone with the last known state.

  A \<open>None\<close> is a panic: a failed type assertion or a corrupted cache. Map values are compared as maps; a nil map and an empty one are the same here.
\<close>

section \<open>Objects and handlers\<close>

datatype event_obj = PodObj pod | NodeObj node | OtherObj | Tombstone string event_obj

record 's ResourceEventHandler =
  eh_OnAdd :: "event_obj \<Rightarrow> 's \<Rightarrow> 's go"
  eh_OnUpdate :: "event_obj \<Rightarrow> event_obj \<Rightarrow> 's \<Rightarrow> 's go"
  eh_OnDelete :: "event_obj \<Rightarrow> 's \<Rightarrow> 's go"

definition FilteringResourceEventHandler :: "(event_obj \<Rightarrow> bool) \<Rightarrow> 's ResourceEventHandler \<Rightarrow> 's ResourceEventHandler" where
  "FilteringResourceEventHandler filterFunc h =
     \<lparr>eh_OnAdd = (\<lambda>obj s. if \<not> filterFunc obj then Some s else eh_OnAdd h obj s),
      eh_OnUpdate = (\<lambda>oldObj newObj s.
        let newer = filterFunc newObj; older = filterFunc oldObj in
        if newer \<and> older then eh_OnUpdate h oldObj newObj s
        else if newer \<and> \<not> older then eh_OnAdd h newObj s
        else if \<not> newer \<and> older then eh_OnDelete h oldObj s
        else Some s),
      eh_OnDelete = (\<lambda>obj s. if \<not> filterFunc obj then Some s else eh_OnDelete h obj s)\<rparr>"

text \<open>What a handler reads: the clock, the order in which the unschedulable pods are ranged over and the namespaces, when their lister is used.\<close>

record handler_env =
  he_now :: int
  he_range :: "(string \<rightharpoonup> QueuedPodInfo) \<Rightarrow> string list"
  he_nsLister :: "(string \<rightharpoonup> label_set) option"

abbreviation he_order :: "handler_env \<Rightarrow> 'w Scheduler \<Rightarrow> string list" where
  "he_order e s \<equiv> he_range e (us_podInfoMap (pq_unschedulableQ (sd_SchedulingQueue s)))"

definition on_queue :: "(PriorityQueue \<Rightarrow> PriorityQueue go) \<Rightarrow> 'w Scheduler \<Rightarrow> 'w Scheduler go" where
  "on_queue f s = map_option (\<lambda>p. s\<lparr>sd_SchedulingQueue := p\<rparr>) (f (sd_SchedulingQueue s))"

definition on_cache :: "(schedulerCache \<Rightarrow> (schedulerCache \<times> go_error option) go) \<Rightarrow> 'w Scheduler \<Rightarrow> 'w Scheduler go" where
  "on_cache f s = map_option (\<lambda>(c, _). s\<lparr>sd_SchedulerCache := c\<rparr>) (f (sd_SchedulerCache s))"

definition move_all :: "handler_env \<Rightarrow> string \<Rightarrow> 'w Scheduler \<Rightarrow> 'w Scheduler go" where
  "move_all e event s = on_queue (MoveAllToActiveOrBackoffQueue (he_now e) (he_order e s) event) s"

section \<open>Volumes, services and storage\<close>

definition onPvAdd :: "handler_env \<Rightarrow> 'w Scheduler \<Rightarrow> 'w Scheduler go" where
  "onPvAdd e s = move_all e ''PvAdd'' s"

definition onPvUpdate :: "handler_env \<Rightarrow> 'w Scheduler \<Rightarrow> 'w Scheduler go" where
  "onPvUpdate e s = move_all e ''PvUpdate'' s"

definition onPvcAdd :: "handler_env \<Rightarrow> 'w Scheduler \<Rightarrow> 'w Scheduler go" where
  "onPvcAdd e s = move_all e ''PvcAdd'' s"

definition onPvcUpdate :: "handler_env \<Rightarrow> 'w Scheduler \<Rightarrow> 'w Scheduler go" where
  "onPvcUpdate e s = move_all e ''PvcUpdate'' s"

text \<open>The argument is the binding mode of a storage class; \<open>None\<close> for another object.\<close>

definition onStorageClassAdd :: "handler_env \<Rightarrow> string option option \<Rightarrow> 'w Scheduler \<Rightarrow> 'w Scheduler go" where
  "onStorageClassAdd e sc s =
     (case sc of
        None \<Rightarrow> Some s
      | Some mode \<Rightarrow> if mode = Some ''WaitForFirstConsumer'' then move_all e ''StorageClassAdd'' s else Some s)"

definition onServiceAdd :: "handler_env \<Rightarrow> 'w Scheduler \<Rightarrow> 'w Scheduler go" where
  "onServiceAdd e s = move_all e ''ServiceAdd'' s"

definition onServiceUpdate :: "handler_env \<Rightarrow> 'w Scheduler \<Rightarrow> 'w Scheduler go" where
  "onServiceUpdate e s = move_all e ''ServiceUpdate'' s"

definition onServiceDelete :: "handler_env \<Rightarrow> 'w Scheduler \<Rightarrow> 'w Scheduler go" where
  "onServiceDelete e s = move_all e ''ServiceDelete'' s"

definition onCSINodeAdd :: "handler_env \<Rightarrow> 'w Scheduler \<Rightarrow> 'w Scheduler go" where
  "onCSINodeAdd e s = move_all e ''CSINodeAdd'' s"

definition onCSINodeUpdate :: "handler_env \<Rightarrow> 'w Scheduler \<Rightarrow> 'w Scheduler go" where
  "onCSINodeUpdate e s = move_all e ''CSINodeUpdate'' s"

section \<open>Nodes\<close>

definition nodeAllocatableChanged :: "node \<Rightarrow> node \<Rightarrow> bool" where
  "nodeAllocatableChanged newNode oldNode \<longleftrightarrow> map_of (n_Allocatable oldNode) \<noteq> map_of (n_Allocatable newNode)"

definition nodeLabelsChanged :: "node \<Rightarrow> node \<Rightarrow> bool" where
  "nodeLabelsChanged newNode oldNode \<longleftrightarrow> n_Labels oldNode \<noteq> n_Labels newNode"

definition nodeTaintsChanged :: "node \<Rightarrow> node \<Rightarrow> bool" where
  "nodeTaintsChanged newNode oldNode \<longleftrightarrow> n_Taints newNode \<noteq> n_Taints oldNode"

definition condition_statuses :: "(string \<times> string) list \<Rightarrow> (string \<rightharpoonup> string)" where
  "condition_statuses conditions = fold (\<lambda>(t, status) m. m(t \<mapsto> status)) conditions Map.empty"

definition nodeConditionsChanged :: "node \<Rightarrow> node \<Rightarrow> bool" where
  "nodeConditionsChanged newNode oldNode \<longleftrightarrow> condition_statuses (n_Conditions oldNode) \<noteq> condition_statuses (n_Conditions newNode)"

definition nodeSpecUnschedulableChanged :: "node \<Rightarrow> node \<Rightarrow> bool" where
  "nodeSpecUnschedulableChanged newNode oldNode \<longleftrightarrow> n_Unschedulable newNode \<noteq> n_Unschedulable oldNode \<and> \<not> n_Unschedulable newNode"

definition nodeSchedulingPropertiesChange :: "node \<Rightarrow> node \<Rightarrow> string" where
  "nodeSchedulingPropertiesChange newNode oldNode =
     (if nodeSpecUnschedulableChanged newNode oldNode then ''NodeSpecUnschedulableChange''
      else if nodeAllocatableChanged newNode oldNode then ''NodeAllocatableChange''
      else if nodeLabelsChanged newNode oldNode then ''NodeLabelChange''
      else if nodeTaintsChanged newNode oldNode then ''NodeTaintChange''
      else if nodeConditionsChanged newNode oldNode then ''NodeConditionChange''
      else [])"

definition addNodeToCache :: "'w sched_config \<Rightarrow> handler_env \<Rightarrow> event_obj \<Rightarrow> 'w Scheduler \<Rightarrow> 'w Scheduler go" where
  "addNodeToCache cfg e obj s =
     (case obj of
        NodeObj node \<Rightarrow>
          do {
            s1 \<leftarrow> on_cache (\<lambda>c. Some (sc_AddNode (cf_gates cfg) c node, None)) s;
            move_all e ''NodeAdd'' s1
          }
      | _ \<Rightarrow> Some s)"

definition updateNodeInCache :: "'w sched_config \<Rightarrow> handler_env \<Rightarrow> event_obj \<Rightarrow> event_obj \<Rightarrow> 'w Scheduler \<Rightarrow> 'w Scheduler go" where
  "updateNodeInCache cfg e oldObj newObj s =
     (case oldObj of
        NodeObj oldNode \<Rightarrow>
          (case newObj of
             NodeObj newNode \<Rightarrow>
               do {
                 s1 \<leftarrow> on_cache (\<lambda>c. map_option (\<lambda>c'. (c', None)) (sc_UpdateNode (cf_gates cfg) c oldNode newNode)) s;
                 let event = nodeSchedulingPropertiesChange newNode oldNode;
                 if event \<noteq> [] then move_all e event s1 else Some s1
               }
           | _ \<Rightarrow> Some s)
      | _ \<Rightarrow> Some s)"

definition deleteNodeFromCache :: "'w sched_config \<Rightarrow> event_obj \<Rightarrow> 'w Scheduler \<Rightarrow> 'w Scheduler go" where
  "deleteNodeFromCache cfg obj s =
     (case obj of
        NodeObj node \<Rightarrow> on_cache (\<lambda>c. Some (sc_RemoveNode (cf_gates cfg) c node)) s
      | Tombstone _ (NodeObj node) \<Rightarrow> on_cache (\<lambda>c. Some (sc_RemoveNode (cf_gates cfg) c node)) s
      | _ \<Rightarrow> Some s)"

section \<open>Pods\<close>

text \<open>A pod that is not assigned to a node yet goes to the queue.\<close>

definition addPodToSchedulingQueue :: "'w sched_config \<Rightarrow> handler_env \<Rightarrow> event_obj \<Rightarrow> 'w Scheduler \<Rightarrow> 'w Scheduler go" where
  "addPodToSchedulingQueue cfg e obj s =
     (case obj of
        PodObj pod \<Rightarrow> on_queue (\<lambda>p. map_option fst (pq_Add (cf_go cfg) (he_now e) pod p)) s
      | _ \<Rightarrow> None)"

definition updatePodInSchedulingQueue :: "'w sched_config \<Rightarrow> handler_env \<Rightarrow> event_obj \<Rightarrow> event_obj \<Rightarrow> 'w Scheduler \<Rightarrow> 'w Scheduler go" where
  "updatePodInSchedulingQueue cfg e oldObj newObj s =
     (case oldObj of
        PodObj oldPod \<Rightarrow>
          (case newObj of
             PodObj newPod \<Rightarrow>
               (if p_ResourceVersion oldPod = p_ResourceVersion newPod then Some s
                else if skipPodUpdate (sd_SchedulerCache s) newPod then Some s
                else on_queue (\<lambda>p. map_option fst (pq_Update (cf_go cfg) (he_now e) (Some oldPod) newPod p)) s)
           | _ \<Rightarrow> None)
      | _ \<Rightarrow> None)"

definition event_pod :: "event_obj \<Rightarrow> pod option" where
  "event_pod obj = (case obj of PodObj pod \<Rightarrow> Some pod | Tombstone _ (PodObj pod) \<Rightarrow> Some pod | _ \<Rightarrow> None)"

definition deletePodFromSchedulingQueue :: "'w sched_config \<Rightarrow> event_obj \<Rightarrow> 'w Scheduler \<Rightarrow> 'w Scheduler go" where
  "deletePodFromSchedulingQueue cfg obj s =
     (case event_pod obj of
        None \<Rightarrow> Some s
      | Some pod \<Rightarrow>
          do {
            s1 \<leftarrow> on_queue (pq_Delete pod) s;
            Some (case frameworkForPod cfg pod of
                Inl err \<Rightarrow> s1
              | Inr fwk \<Rightarrow>
                  s1\<lparr>sd_waitingPods := (sd_waitingPods s1)(p_SchedulerName pod := RejectWaitingPod (p_UID pod) (sd_waitingPods s1 (p_SchedulerName pod)))\<rparr>)
          })"

definition addPodToCache :: "'w sched_config \<Rightarrow> handler_env \<Rightarrow> event_obj \<Rightarrow> 'w Scheduler \<Rightarrow> 'w Scheduler go" where
  "addPodToCache cfg e obj s =
     (case obj of
        PodObj pod \<Rightarrow>
          do {
            s1 \<leftarrow> on_cache (\<lambda>c. sc_AddPod (cf_gates cfg) c pod) s;
            on_queue (AssignedPodAdded (cf_go cfg) (he_nsLister e) (he_now e) (he_order e s1) pod) s1
          }
      | _ \<Rightarrow> Some s)"

definition deletePodFromCache :: "'w sched_config \<Rightarrow> handler_env \<Rightarrow> event_obj \<Rightarrow> 'w Scheduler \<Rightarrow> 'w Scheduler go" where
  "deletePodFromCache cfg e obj s =
     (case event_pod obj of
        None \<Rightarrow> Some s
      | Some pod \<Rightarrow>
          do {
            s1 \<leftarrow> on_cache (\<lambda>c. sc_RemovePod (cf_gates cfg) c pod) s;
            move_all e ''AssignedPodDelete'' s1
          })"

definition updatePodInCache :: "'w sched_config \<Rightarrow> handler_env \<Rightarrow> event_obj \<Rightarrow> event_obj \<Rightarrow> 'w Scheduler \<Rightarrow> 'w Scheduler go" where
  "updatePodInCache cfg e oldObj newObj s =
     (case oldObj of
        PodObj oldPod \<Rightarrow>
          (case newObj of
             PodObj newPod \<Rightarrow>
               (if p_UID oldPod \<noteq> p_UID newPod then
                  do {
                    s1 \<leftarrow> deletePodFromCache cfg e oldObj s;
                    addPodToCache cfg e newObj s1
                  }
                else
                  do {
                    s1 \<leftarrow> on_cache (\<lambda>c. sc_UpdatePod (cf_gates cfg) c oldPod newPod) s;
                    on_queue (AssignedPodUpdated (cf_go cfg) (he_nsLister e) (he_now e) (he_order e s1) newPod) s1
                  })
           | _ \<Rightarrow> Some s)
      | _ \<Rightarrow> Some s)"

section \<open>Registration\<close>

definition assignedPod :: "pod \<Rightarrow> bool" where
  "assignedPod pod \<longleftrightarrow> length (p_NodeName pod) \<noteq> 0"

definition responsibleForPod :: "'w sched_config \<Rightarrow> pod \<Rightarrow> bool" where
  "responsibleForPod cfg pod \<longleftrightarrow> cf_Profiles cfg (p_SchedulerName pod) \<noteq> None"

text \<open>The handlers that \<open>addAllEventHandlers\<close> registers with the pod and the node informer.\<close>

definition cache_handler :: "'w sched_config \<Rightarrow> handler_env \<Rightarrow> 'w Scheduler ResourceEventHandler" where
  "cache_handler cfg e =
     FilteringResourceEventHandler (\<lambda>obj. case event_pod obj of Some pod \<Rightarrow> assignedPod pod | None \<Rightarrow> False)
       \<lparr>eh_OnAdd = addPodToCache cfg e, eh_OnUpdate = updatePodInCache cfg e, eh_OnDelete = deletePodFromCache cfg e\<rparr>"

definition queue_handler :: "'w sched_config \<Rightarrow> handler_env \<Rightarrow> 'w Scheduler ResourceEventHandler" where
  "queue_handler cfg e =
     FilteringResourceEventHandler (\<lambda>obj. case event_pod obj of Some pod \<Rightarrow> \<not> assignedPod pod \<and> responsibleForPod cfg pod | None \<Rightarrow> False)
       \<lparr>eh_OnAdd = addPodToSchedulingQueue cfg e, eh_OnUpdate = updatePodInSchedulingQueue cfg e, eh_OnDelete = deletePodFromSchedulingQueue cfg\<rparr>"

definition node_handler :: "'w sched_config \<Rightarrow> handler_env \<Rightarrow> 'w Scheduler ResourceEventHandler" where
  "node_handler cfg e = \<lparr>eh_OnAdd = addNodeToCache cfg e, eh_OnUpdate = updateNodeInCache cfg e, eh_OnDelete = deleteNodeFromCache cfg\<rparr>"

end
