(* ===== verification/Cache_Refinement.thy ===== *)
theory Cache_Refinement
  imports Cache_Histories
begin

text \<open>
  The cache as an abstract object: the states of the pods, the set of assumed pods and the nodes. The abstract operations say what each method of the cache does to these three;
  the counters, lists, trees and sums of the concrete cache are hidden. The theory shows that the cache implements the abstract object.
\<close>

section \<open>The abstract cache\<close>

record cache_view =
  cv_states :: "string \<rightharpoonup> podState"
  cv_assumed :: "string set"
  cv_nodes :: "string \<rightharpoonup> node"

definition view_of :: "schedulerCache \<Rightarrow> cache_view" where
  "view_of c = \<lparr>cv_states = sc_podStates c, cv_assumed = sc_assumedPods c, cv_nodes = node_at (imap c)\<rparr>"

fun view_step :: "int \<Rightarrow> sc_op \<Rightarrow> cache_view \<Rightarrow> cache_view" where
  "view_step ttl (ScAssume pod) v =
     (if p_UID pod \<noteq> [] \<and> cv_states v (p_UID pod) = None
      then v\<lparr>cv_states := (cv_states v)(p_UID pod \<mapsto> \<lparr>ps_pod = pod, ps_deadline = None, ps_bindingFinished = False\<rparr>),
             cv_assumed := insert (p_UID pod) (cv_assumed v)\<rparr>
      else v)"
| "view_step ttl (ScFinishBinding pod now) v =
     (case cv_states v (p_UID pod) of
        Some st \<Rightarrow>
          if p_UID pod \<noteq> [] \<and> p_UID pod \<in> cv_assumed v
          then v\<lparr>cv_states := (cv_states v)(p_UID pod \<mapsto> st\<lparr>ps_bindingFinished := True, ps_deadline := Some (now + ttl)\<rparr>)\<rparr>
          else v
      | None \<Rightarrow> v)"
| "view_step ttl (ScForget pod) v =
     (case cv_states v (p_UID pod) of
        Some st \<Rightarrow>
          if p_UID pod \<noteq> [] \<and> p_UID pod \<in> cv_assumed v \<and> p_NodeName (ps_pod st) = p_NodeName pod
          then v\<lparr>cv_states := (cv_states v)(p_UID pod := None), cv_assumed := cv_assumed v - {p_UID pod}\<rparr>
          else v
      | None \<Rightarrow> v)"
| "view_step ttl (ScAddPod pod) v =
     (if p_UID pod = [] then v
      else
        case cv_states v (p_UID pod) of
          None \<Rightarrow> v\<lparr>cv_states := (cv_states v)(p_UID pod \<mapsto> \<lparr>ps_pod = pod, ps_deadline = None, ps_bindingFinished = False\<rparr>)\<rparr>
        | Some st \<Rightarrow>
            if p_UID pod \<in> cv_assumed v
            then v\<lparr>cv_states := (cv_states v)(p_UID pod \<mapsto> st\<lparr>ps_deadline := None, ps_pod := pod\<rparr>), cv_assumed := cv_assumed v - {p_UID pod}\<rparr>
            else v)"
| "view_step ttl (ScUpdatePod oldPod newPod) v =
     (case cv_states v (p_UID oldPod) of
        Some st \<Rightarrow>
          if p_UID oldPod \<noteq> [] \<and> p_UID oldPod \<notin> cv_assumed v
          then v\<lparr>cv_states := (cv_states v)(p_UID oldPod \<mapsto> st\<lparr>ps_pod := newPod\<rparr>)\<rparr>
          else v
      | None \<Rightarrow> v)"
| "view_step ttl (ScRemovePod pod) v =
     (if p_UID pod \<noteq> [] \<and> p_UID pod \<notin> cv_assumed v then v\<lparr>cv_states := (cv_states v)(p_UID pod := None)\<rparr> else v)"
| "view_step ttl (ScCleanup order now) v =
     v\<lparr>cv_states := (\<lambda>key. if key \<in> cv_assumed v \<and> expired now (cv_states v key) then None else cv_states v key),
       cv_assumed := {key \<in> cv_assumed v. \<not> expired now (cv_states v key)}\<rparr>"
| "view_step ttl (ScAddNode node) v = v\<lparr>cv_nodes := (cv_nodes v)(n_Name node \<mapsto> node)\<rparr>"
| "view_step ttl (ScUpdateNode oldNode newNode) v = v\<lparr>cv_nodes := (cv_nodes v)(n_Name newNode \<mapsto> newNode)\<rparr>"
| "view_step ttl (ScRemoveNode node) v = v\<lparr>cv_nodes := (cv_nodes v)(n_Name node := None)\<rparr>"
| "view_step ttl ScOtherGeneration v = v"

section \<open>Every operation implements its abstract one\<close>

lemma view_of_simps [simp]: "cv_states (view_of c) = sc_podStates c" "cv_assumed (view_of c) = sc_assumedPods c" "cv_nodes (view_of c) = node_at (imap c)"
  by (simp_all add: view_of_def)

lemma view_eqI:
  assumes "sc_podStates c = cv_states v" "sc_assumedPods c = cv_assumed v" "node_at (imap c) = cv_nodes v"
  shows "view_of c = v"
  using assms by (simp add: view_of_def)

lemma view_assume:
  assumes inv: "sc_inv g c" and r: "sc_AssumePod g c pod = Some (c', err)"
  shows "view_of c' = view_step (sc_ttl c) (ScAssume pod) (view_of c) \<and> sc_ttl c' = sc_ttl c"
proof (cases "p_UID pod \<noteq> [] \<and> sc_podStates c (p_UID pod) = None")
  case True
  let ?st = "\<lparr>ps_pod = pod, ps_deadline = None, ps_bindingFinished = False\<rparr>"
  have W: "work_inv g c" "pods_ok (podset (imap c)) (sc_podStates c)" using inv by (simp_all add: sc_inv_iff)
  have "same_pods c (sc_addPod g c pod)" "node_at (imap (sc_addPod g c pod)) = node_at (imap c)"
    using add_new_pod [OF W, of pod ?st] True by simp_all
  moreover have "c' = (sc_addPod g c pod)\<lparr>sc_podStates := (sc_podStates (sc_addPod g c pod))(p_UID pod \<mapsto> ?st),
      sc_assumedPods := insert (p_UID pod) (sc_assumedPods (sc_addPod g c pod))\<rparr>"
    using True r by (simp add: sc_AssumePod_def GetPodKey_def Let_def)
  ultimately show ?thesis using True by (auto intro: view_eqI simp: same_pods_def pod_fields_only)
next
  case False
  then have "c' = c" using r by (auto simp: sc_AssumePod_def GetPodKey_def split: if_splits)
  then show ?thesis using False by auto
qed

lemma view_finish: "view_of (fst (sc_finishBinding c pod now)) = view_step (sc_ttl c) (ScFinishBinding pod now) (view_of c) \<and> sc_ttl (fst (sc_finishBinding c pod now)) = sc_ttl c"
  by (auto intro!: view_eqI simp: sc_finishBinding_def GetPodKey_def pod_fields_only split: option.split)

lemma view_forget:
  assumes inv: "sc_inv g c" and k: "known_spec c pod" and r: "sc_ForgetPod g c pod = Some (c', err)"
  shows "view_of c' = view_step (sc_ttl c) (ScForget pod) (view_of c) \<and> sc_ttl c' = sc_ttl c"
proof (cases "\<exists>st. p_UID pod \<noteq> [] \<and> sc_podStates c (p_UID pod) = Some st \<and> p_NodeName (ps_pod st) = p_NodeName pod \<and> p_UID pod \<in> sc_assumedPods c")
  case True
  then obtain st where st: "p_UID pod \<noteq> []" "sc_podStates c (p_UID pod) = Some st" "p_NodeName (ps_pod st) = p_NodeName pod"
    "p_UID pod \<in> sc_assumedPods c" by blast
  have "same_spec (ps_pod st) pod" using k st(2) by (simp add: known_spec_def)
  then obtain c1 where c1: "sc_removePod g c pod = Some (c1, None)" "same_pods c c1" "node_at (imap c1) = node_at (imap c)"
    using remove_state_pod [OF inv st(2) refl] st(3) by auto
  then have "c' = c1\<lparr>sc_assumedPods := sc_assumedPods c1 - {p_UID pod}, sc_podStates := (sc_podStates c1)(p_UID pod := None)\<rparr>"
    using st r by (simp add: sc_ForgetPod_def GetPodKey_def)
  then show ?thesis using c1 st by (auto intro: view_eqI simp: same_pods_def pod_fields_only)
next
  case False
  then have "c' = c" using r by (auto simp: sc_ForgetPod_def GetPodKey_def split: if_splits option.splits)
  then show ?thesis using False by (auto split: option.split)
qed
lemma view_add:
  assumes inv: "sc_inv g c" and k: "known_spec c pod" and r: "sc_AddPod g c pod = Some (c', err)"
  shows "view_of c' = view_step (sc_ttl c) (ScAddPod pod) (view_of c) \<and> sc_ttl c' = sc_ttl c"
proof (cases "p_UID pod = []")
  case True
  then show ?thesis using r by (auto simp: sc_AddPod_def GetPodKey_def)
next
  case uid: False
  have W: "work_inv g c" and P: "pods_ok (podset (imap c)) (sc_podStates c)" using inv by (simp_all add: sc_inv_iff)
  show ?thesis
  proof (cases "sc_podStates c (p_UID pod)")
    case None
    let ?st = "\<lparr>ps_pod = pod, ps_deadline = None, ps_bindingFinished = False\<rparr>"
    have "same_pods c (sc_addPod g c pod)" "node_at (imap (sc_addPod g c pod)) = node_at (imap c)"
      using add_new_pod [OF W P None uid, of ?st] by simp_all
    then show ?thesis using uid None r by (auto intro!: view_eqI simp: sc_AddPod_def GetPodKey_def Let_def same_pods_def pod_fields_only)
  next
    case (Some st)
    consider (added) "p_UID pod \<notin> sc_assumedPods c" | (here) "p_UID pod \<in> sc_assumedPods c" "p_NodeName (ps_pod st) = p_NodeName pod"
      | (there) "p_UID pod \<in> sc_assumedPods c" "p_NodeName (ps_pod st) \<noteq> p_NodeName pod" by blast
    then show ?thesis
    proof cases
      case there
      let ?st = "st\<lparr>ps_deadline := None, ps_pod := pod\<rparr>"
      obtain c1 where c1: "sc_removePod g c (ps_pod st) = Some (c1, None)" "work_inv g c1" "same_pods c c1" "node_at (imap c1) = node_at (imap c)"
        "pods_ok (podset (imap c1)) ((sc_podStates c)(p_UID pod := None))"
        using remove_state_pod [OF inv Some pods_ok_stateD(2) [OF P Some]] by auto
      have "same_pods c1 (sc_addPod g c1 pod)" "node_at (imap (sc_addPod g c1 pod)) = node_at (imap c1)"
        using add_new_pod [OF c1(2,5) _ uid, of ?st] by simp_all
      then show ?thesis using there uid Some r c1(1,3,4)
        by (auto intro!: view_eqI simp: sc_AddPod_def GetPodKey_def same_pods_def pod_fields_only)
    qed (use uid Some r in \<open>auto intro!: view_eqI simp: sc_AddPod_def GetPodKey_def pod_fields_only\<close>)
  qed
qed

lemma view_update:
  assumes inv: "sc_inv g c" and k: "known_update c oldPod newPod" and r: "sc_UpdatePod g c oldPod newPod = Some (c', err)"
  shows "view_of c' = view_step (sc_ttl c) (ScUpdatePod oldPod newPod) (view_of c) \<and> sc_ttl c' = sc_ttl c"
proof (cases "\<exists>st. p_UID oldPod \<noteq> [] \<and> sc_podStates c (p_UID oldPod) = Some st \<and> p_UID oldPod \<notin> sc_assumedPods c")
  case True
  then obtain st where st: "p_UID oldPod \<noteq> []" "sc_podStates c (p_UID oldPod) = Some st" "p_UID oldPod \<notin> sc_assumedPods c" by blast
  let ?st = "st\<lparr>ps_pod := newPod\<rparr>"
  have kn: "p_UID newPod = p_UID oldPod" "same_spec (ps_pod st) oldPod" "p_NodeName oldPod = p_NodeName (ps_pod st)"
    "p_NodeName (ps_pod st) = p_NodeName newPod"
    using k st by (auto simp: known_update_def known_spec_def known_node_def)
  obtain c1 where c1: "sc_removePod g c oldPod = Some (c1, None)" "work_inv g c1" "same_pods c c1" "node_at (imap c1) = node_at (imap c)"
    "pods_ok (podset (imap c1)) ((sc_podStates c)(p_UID oldPod := None))"
    using remove_state_pod [OF inv st(2) refl] kn by auto
  have "same_pods c1 (sc_addPod g c1 newPod)" "node_at (imap (sc_addPod g c1 newPod)) = node_at (imap c1)"
    using add_new_pod [OF c1(2,5), of newPod ?st] kn(1) st(1) by simp_all
  moreover have "c' = (sc_addPod g c1 newPod)\<lparr>sc_podStates := (sc_podStates (sc_addPod g c1 newPod))(p_UID oldPod \<mapsto> ?st)\<rparr>"
    using st kn(4) c1(1) r by (simp add: sc_UpdatePod_def GetPodKey_def sc_updatePod_def)
  ultimately show ?thesis using st c1(3,4) by (auto intro!: view_eqI simp: same_pods_def pod_fields_only)
next
  case False
  then have "c' = c" using r by (auto simp: sc_UpdatePod_def GetPodKey_def split: if_splits option.splits)
  then show ?thesis using False by (auto split: option.split)
qed

lemma view_remove:
  assumes inv: "sc_inv g c" and k: "known_node c pod" and r: "sc_RemovePod g c pod = Some (c', err)"
  shows "view_of c' = view_step (sc_ttl c) (ScRemovePod pod) (view_of c) \<and> sc_ttl c' = sc_ttl c"
proof (cases "\<exists>st. p_UID pod \<noteq> [] \<and> sc_podStates c (p_UID pod) = Some st \<and> p_UID pod \<notin> sc_assumedPods c")
  case True
  then obtain st where st: "p_UID pod \<noteq> []" "sc_podStates c (p_UID pod) = Some st" "p_UID pod \<notin> sc_assumedPods c" by blast
  have nm: "p_NodeName (ps_pod st) = p_NodeName pod" using k st by (simp add: known_node_def)
  have uid: "p_UID (ps_pod st) = p_UID pod" using inv st pods_ok_stateD(2) by (auto simp: sc_inv_def)
  obtain c1 where c1: "sc_removePod g c (ps_pod st) = Some (c1, None)" "same_pods c c1" "node_at (imap c1) = node_at (imap c)"
    using remove_state_pod [OF inv st(2) uid] by auto
  then have "c' = c1\<lparr>sc_podStates := (sc_podStates c1)(p_UID pod := None)\<rparr>" using st nm r by (simp add: sc_RemovePod_def GetPodKey_def)
  then show ?thesis using c1 st by (auto intro!: view_eqI simp: same_pods_def pod_fields_only)
next
  case False
  then have "c' = c" using r by (auto simp: sc_RemovePod_def GetPodKey_def split: if_splits option.splits)
  then show ?thesis using False by (auto intro!: view_eqI simp: fun_upd_idem)
qed

lemma cleanup_nodes:
  "sc_inv g c \<Longrightarrow> distinct keys \<Longrightarrow> set keys \<subseteq> sc_assumedPods c \<Longrightarrow> cleanupAssumedPods g keys now c = Some c' \<Longrightarrow>
    node_at (imap c') = node_at (imap c) \<and> sc_ttl c' = sc_ttl c"
proof (induction keys arbitrary: c)
  case (Cons key keys)
  obtain st where st: "sc_podStates c key = Some st" using Cons.prems by (auto simp: sc_inv_def assumed_ok_def)
  have uid: "p_UID (ps_pod st) = key" using Cons.prems(1) st pods_ok_stateD(2) by (auto simp: sc_inv_def)
  obtain c1 where c1: "sc_removePod g c (ps_pod st) = Some (c1, None)" "same_pods c c1" "node_at (imap c1) = node_at (imap c)"
    using remove_state_pod [OF Cons.prems(1) st uid] by auto
  obtain c2 where c2: "expirePod g c key st = Some (c2, None)" "sc_inv g c2" "sc_assumedPods c2 = sc_assumedPods c - {key}"
    using expirePod_ok [OF Cons.prems(1) st] by blast
  have e: "node_at (imap c2) = node_at (imap c)" "sc_ttl c2 = sc_ttl c"
    using c1 c2(1) by (auto simp: expirePod_def same_pods_def pod_fields_only)
  have "set keys \<subseteq> sc_assumedPods c2" using Cons.prems(2,3) c2(3) by auto
  then show ?case using Cons.IH [OF c2(2)] Cons.IH [OF Cons.prems(1)] Cons.prems(2,3,4) st c2(1) e by (auto split: if_splits option.splits)
qed simp

lemma step_view:
  assumes inv: "sc_inv g c" and al: "sc_allowed x c" and r: "sc_step g x c = Some (c', err)"
  shows "view_of c' = view_step (sc_ttl c) x (view_of c) \<and> sc_ttl c' = sc_ttl c"
proof (cases x)
  case (ScAssume pod)
  have "sc_AssumePod g c pod = Some (c', err)" using r ScAssume by simp
  from view_assume [OF inv this] show ?thesis unfolding ScAssume .
next
  case (ScFinishBinding pod now)
  have "c' = fst (sc_finishBinding c pod now)" using r ScFinishBinding by simp
  then show ?thesis unfolding ScFinishBinding using view_finish [of c pod now] by (simp only:)
next
  case (ScForget pod)
  have "known_spec c pod" "sc_ForgetPod g c pod = Some (c', err)" using al r ScForget by simp_all
  from view_forget [OF inv this] show ?thesis unfolding ScForget .
next
  case (ScAddPod pod)
  have "known_spec c pod" "sc_AddPod g c pod = Some (c', err)" using al r ScAddPod by simp_all
  from view_add [OF inv this] show ?thesis unfolding ScAddPod .
next
  case (ScUpdatePod oldPod newPod)
  have "known_update c oldPod newPod" "sc_UpdatePod g c oldPod newPod = Some (c', err)" using al r ScUpdatePod by simp_all
  from view_update [OF inv this] show ?thesis unfolding ScUpdatePod .
next
  case (ScRemovePod pod)
  have "known_node c pod" "sc_RemovePod g c pod = Some (c', err)" using al r ScRemovePod by simp_all
  from view_remove [OF inv this] show ?thesis unfolding ScRemovePod .
next
  case (ScCleanup order now)
  have o: "distinct order" "set order \<subseteq> sc_assumedPods c" "set order = sc_assumedPods c" "cleanupAssumedPods g order now c = Some c'"
    using al r ScCleanup by (auto split: option.splits)
  show ?thesis using cleanup_effect [OF inv o(1,2), of now] cleanup_nodes [OF inv o(1,2,4)] o(3,4) unfolding ScCleanup
    by (auto intro!: view_eqI)
next
  case (ScAddNode node)
  then show ?thesis using AddNode_ok [OF inv, of node] al r by (auto intro!: view_eqI simp: same_pods_def)
next
  case (ScUpdateNode oldNode newNode)
  then obtain nd where "node_at (imap c) (n_Name newNode) = Some nd" "GetZoneKey nd = GetZoneKey oldNode" "n_Name oldNode = n_Name newNode" using al by auto
  from UpdateNode_ok [OF inv this] show ?thesis using r ScUpdateNode by (auto intro!: view_eqI simp: same_pods_def)
next
  case (ScRemoveNode node)
  have "GetZoneKey nd = GetZoneKey node" if "node_at (imap c) (n_Name node) = Some nd" for nd using al ScRemoveNode that by simp
  moreover have "c' = fst (sc_RemoveNode g c node)" using r ScRemoveNode by simp
  ultimately show ?thesis using RemoveNode_ok [OF inv, of node] ScRemoveNode by (auto intro!: view_eqI simp: same_pods_def)
next
  case ScOtherGeneration
  have im: "imap (c\<lparr>sc_gen := n\<rparr>) = imap c" for n by (simp add: imap_def fun_eq_iff)
  have c': "c' = c\<lparr>sc_gen := nextGeneration (sc_gen c)\<rparr>" using r ScOtherGeneration by simp
  have "view_of c' = view_of c" unfolding c' view_of_def im by simp
  then show ?thesis unfolding ScOtherGeneration c' by simp
qed

section \<open>The refinement\<close>

text \<open>C40: The cache implements the abstract cache: after any history, every call that the scheduler and its event handlers may make returns without a panic, and it changes the states
  of the pods, the set of assumed pods and the nodes exactly as the abstract operation does. In particular an assumed pod stays assumed until its event arrives, it is forgotten or it expires after
  its binding finished.\<close>

theorem cache_refines_view:
  assumes "sc_reachable g c" "sc_allowed x c"
  shows "\<exists>c' err. sc_step g x c = Some (c', err) \<and> view_of c' = view_step (sc_ttl c) x (view_of c)"
  using sc_step_ok [OF sc_reachable_inv [OF assms(1)] assms(2)] step_view [OF sc_reachable_inv [OF assms(1)] assms(2)] by blast

theorem cache_refines_view_witness:
  "\<exists>c' err. sc_step sample_gates (ScFinishBinding (sample_pod ''a'' 80 100) 5) assumed_cache = Some (c', err) \<and> cv_assumed (view_of c') = {''a''} \<and>
     map_option ps_deadline (cv_states (view_of c') ''a'') = Some (Some 35)"
proof -
  have s: "sc_assumedPods assumed_cache = {''a''}" "sc_podStates assumed_cache ''a'' \<noteq> None" "sc_ttl assumed_cache = 30"
    "p_UID (sample_pod ''a'' 80 100) = ''a''"
    by (simp_all add: assumed_cache_def sc_AssumePod_def GetPodKey_def sample_pod_def Let_def newSchedulerCache_def sc_addPod_def ensure_node_def put_info_def
        moveNodeInfoToHead_def split: prod.split)
  then obtain st where st: "sc_podStates assumed_cache ''a'' = Some st" by blast
  have "sc_allowed (ScFinishBinding (sample_pod ''a'' 80 100) 5) assumed_cache" by simp
  from cache_refines_view [OF assumed_reachable this] obtain c' err where
    c': "sc_step sample_gates (ScFinishBinding (sample_pod ''a'' 80 100) 5) assumed_cache = Some (c', err)"
      "view_of c' = view_step (sc_ttl assumed_cache) (ScFinishBinding (sample_pod ''a'' 80 100) 5) (view_of assumed_cache)" by blast
  have "cv_assumed (view_of c') = {''a''}" "map_option ps_deadline (cv_states (view_of c') ''a'') = Some (Some 35)"
    unfolding c'(2) by (simp_all add: s st del: view_of_simps(3))
  then show ?thesis using c'(1) by blast
qed

end
