(* ===== verification/Scheduler_System.thy ===== *)
theory Scheduler_System
  imports Event_Handlers Cache_Refinement Schedule_Correct Queue_Histories
begin

text \<open>
  The scheduler as a whole: the loop of \<open>Run\<close>, the binding goroutines, the listeners of the informers, the timers and plugins that decide about waiting pods and the periodic goroutines
  of cache and queue, interleaved in any order.

  Each registered handler gets the events of its informer in order, in a goroutine of its own; \<open>sy_pods\<close> and \<open>sy_nodes\<close> record what the handlers of assigned pods and of nodes have been told.
  The informer's store, which the lister reads, changes independently of them. The theory states what the environment keeps to and shows that the queue and the
  cache stay well formed under the events; \<open>System_Correct\<close> adds the cycles.
\<close>

section \<open>Events\<close>

text \<open>\<open>Deleted\<close> carries the last state and whether it comes as a tombstone.\<close>

datatype 'o informer_event = Added 'o | Updated 'o 'o | Deleted 'o bool

fun deliver :: "('o \<Rightarrow> event_obj) \<Rightarrow> 's ResourceEventHandler \<Rightarrow> 'o informer_event \<Rightarrow> 's \<Rightarrow> 's go" where
  "deliver obj h (Added x) s = eh_OnAdd h (obj x) s"
| "deliver obj h (Updated x y) s = eh_OnUpdate h (obj x) (obj y) s"
| "deliver obj h (Deleted x tombstone) s = eh_OnDelete h (if tombstone then Tombstone [] (obj x) else obj x) s"

fun track :: "('o \<Rightarrow> 'k) \<Rightarrow> 'o informer_event \<Rightarrow> ('k \<rightharpoonup> 'o) \<Rightarrow> ('k \<rightharpoonup> 'o)" where
  "track key (Added x) v = v(key x \<mapsto> x)"
| "track key (Updated x y) v = v(key y \<mapsto> y)"
| "track key (Deleted x tombstone) v = v(key x := None)"

datatype sys_event =
    RunCycle int choices
  | RunBinding nat int choices
  | SetPod "string \<times> string" "pod option"
  | CacheEvent handler_env "pod informer_event"
  | QueueEvent handler_env "pod informer_event"
  | NodeEvent handler_env "node informer_event"
  | OtherEvent handler_env string
  | PermitEvent string string wait_event
  | CleanupEvent "string list" int
  | FlushBackoff int
  | FlushLeftover handler_env
  | DrawGeneration

record 'w system =
  sy_sched :: "'w Scheduler"
  sy_main :: "'w stage"
  sy_binding :: "'w stage list"
  sy_pods :: "string \<times> string \<rightharpoonup> pod"
  sy_nodes :: "string \<rightharpoonup> node"

text \<open>\<open>scheduleOne\<close> is called again when it has returned; at the stage \<open>WaitPermit\<close> the cycle goes on in a goroutine. A step that would block changes nothing.\<close>

definition main_step :: "'w sched_config \<Rightarrow> int \<Rightarrow> choices \<Rightarrow> 'w system \<Rightarrow> 'w system go" where
  "main_step cfg now ch sys =
     (case sy_main sys of
        Done \<Rightarrow> Some (sys\<lparr>sy_main := NextPod\<rparr>)
      | stage \<Rightarrow>
          do {
            r \<leftarrow> cycle_step cfg now ch stage (sy_sched sys);
            Some (case r of
                None \<Rightarrow> sys
              | Some (s, WaitPermit c) \<Rightarrow> sys\<lparr>sy_sched := s, sy_main := Done, sy_binding := sy_binding sys @ [WaitPermit c]\<rparr>
              | Some (s, stage') \<Rightarrow> sys\<lparr>sy_sched := s, sy_main := stage'\<rparr>)
          })"

definition binding_step :: "'w sched_config \<Rightarrow> nat \<Rightarrow> int \<Rightarrow> choices \<Rightarrow> 'w system \<Rightarrow> 'w system go" where
  "binding_step cfg i now ch sys =
     (if i < length (sy_binding sys) then
        do {
          r \<leftarrow> cycle_step cfg now ch (sy_binding sys ! i) (sy_sched sys);
          Some (case r of
              None \<Rightarrow> sys
            | Some (s, stage') \<Rightarrow> sys\<lparr>sy_sched := s, sy_binding := (sy_binding sys)[i := stage']\<rparr>)
        }
      else Some sys)"

definition on_sched :: "('w Scheduler \<Rightarrow> 'w Scheduler go) \<Rightarrow> 'w system \<Rightarrow> 'w system go" where
  "on_sched f sys = map_option (\<lambda>s. sys\<lparr>sy_sched := s\<rparr>) (f (sy_sched sys))"

definition permit_event :: "string \<Rightarrow> string \<Rightarrow> wait_event \<Rightarrow> 'w Scheduler \<Rightarrow> 'w Scheduler" where
  "permit_event profile uid ev s =
     s\<lparr>sd_waitingPods := (sd_waitingPods s)(profile := (\<lambda>u. if u = uid then map_option (wp_event ev) (sd_waitingPods s profile u) else sd_waitingPods s profile u))\<rparr>"

fun sys_step :: "'w sched_config \<Rightarrow> sys_event \<Rightarrow> 'w system \<Rightarrow> 'w system go" where
  "sys_step cfg (RunCycle now ch) sys = main_step cfg now ch sys"
| "sys_step cfg (RunBinding i now ch) sys = binding_step cfg i now ch sys"
| "sys_step cfg (SetPod key pod) sys = on_sched (\<lambda>s. Some (s\<lparr>sd_podLister := (sd_podLister s)(key := pod)\<rparr>)) sys"
| "sys_step cfg (CacheEvent e ev) sys =
     map_option (\<lambda>sys. sys\<lparr>sy_pods := track pod_id ev (sy_pods sys)\<rparr>) (on_sched (deliver PodObj (cache_handler cfg e) ev) sys)"
| "sys_step cfg (QueueEvent e ev) sys = on_sched (deliver PodObj (queue_handler cfg e) ev) sys"
| "sys_step cfg (NodeEvent e ev) sys =
     map_option (\<lambda>sys. sys\<lparr>sy_nodes := track n_Name ev (sy_nodes sys)\<rparr>) (on_sched (deliver NodeObj (node_handler cfg e) ev) sys)"
| "sys_step cfg (OtherEvent e event) sys = on_sched (move_all e event) sys"
| "sys_step cfg (PermitEvent profile uid ev) sys = on_sched (\<lambda>s. Some (permit_event profile uid ev s)) sys"
| "sys_step cfg (CleanupEvent order now) sys =
     on_sched (on_cache (\<lambda>c. map_option (\<lambda>c'. (c', None)) (cleanupAssumedPods (cf_gates cfg) order now c))) sys"
| "sys_step cfg (FlushBackoff now) sys = on_sched (on_queue (flushBackoffQCompleted now)) sys"
| "sys_step cfg (FlushLeftover e) sys = on_sched (\<lambda>s. on_queue (flushUnschedulableQLeftover (he_now e) (he_order e s)) s) sys"
| "sys_step cfg DrawGeneration sys = on_sched (on_cache (\<lambda>c. Some (c\<lparr>sc_gen := nextGeneration (sc_gen c)\<rparr>, None))) sys"

section \<open>The environment\<close>

text \<open>The API server never reuses a UID: the pods that have one UID have one name and one specification, those of \<open>objs\<close> for the UID. Names are valid.\<close>

definition coherent :: "(string \<Rightarrow> pod) \<Rightarrow> pod \<Rightarrow> bool" where
  "coherent objs p \<longleftrightarrow> p_UID p \<noteq> [] \<and> valid_id (pod_id p) \<and> pod_id p = pod_id (objs (p_UID p)) \<and> same_spec p (objs (p_UID p))"

text \<open>An informer tells a handler about an object before it updates or deletes it, with the state it told last. A pod that is assigned stays on its node. The last state of a
  deleted object has the UID and the node, or the zone, that were told last.\<close>

fun pod_event_ok :: "(string \<Rightarrow> pod) \<Rightarrow> (string \<times> string \<rightharpoonup> pod) \<Rightarrow> pod informer_event \<Rightarrow> bool" where
  "pod_event_ok objs pods (Added p) \<longleftrightarrow> coherent objs p \<and> pods (pod_id p) = None"
| "pod_event_ok objs pods (Updated old new) \<longleftrightarrow> coherent objs new \<and> pods (pod_id new) = Some old \<and>
     (p_UID new = p_UID old \<and> assignedPod old \<longrightarrow> p_NodeName new = p_NodeName old)"
| "pod_event_ok objs pods (Deleted p tombstone) \<longleftrightarrow>
     (\<exists>old. pods (pod_id p) = Some old \<and> p_UID p = p_UID old \<and> p_NodeName p = p_NodeName old)"

fun node_event_ok :: "(string \<rightharpoonup> node) \<Rightarrow> node informer_event \<Rightarrow> bool" where
  "node_event_ok nodes (Added n) \<longleftrightarrow> nodes (n_Name n) = None"
| "node_event_ok nodes (Updated old new) \<longleftrightarrow> n_Name old = n_Name new \<and> nodes (n_Name new) = Some old"
| "node_event_ok nodes (Deleted n tombstone) \<longleftrightarrow> (\<exists>old. nodes (n_Name n) = Some old \<and> GetZoneKey old = GetZoneKey n)"

text \<open>The events of the queue's handler need no history.\<close>

fun queue_event_ok :: "(string \<Rightarrow> pod) \<Rightarrow> pod informer_event \<Rightarrow> bool" where
  "queue_event_ok objs (Added p) \<longleftrightarrow> coherent objs p"
| "queue_event_ok objs (Updated old new) \<longleftrightarrow> coherent objs old \<and> coherent objs new \<and> pod_id old = pod_id new"
| "queue_event_ok objs (Deleted p tombstone) \<longleftrightarrow> coherent objs p"

definition env_ok :: "handler_env \<Rightarrow> bool" where
  "env_ok e \<longleftrightarrow> (\<forall>m. finite (dom m) \<longrightarrow> range_order (he_range e m) m)"

text \<open>A cycle runs with choices that fit the score plugins, on fewer than \<open>2 ^ 31\<close> nodes.\<close>

definition cycle_ok :: "'w sched_config \<Rightarrow> choices \<Rightarrow> 'w system \<Rightarrow> bool" where
  "cycle_ok cfg ch sys \<longleftrightarrow>
     (\<forall>name fwk. cf_Profiles cfg name = Some fwk \<longrightarrow> scoring_ok ch (fst fwk)) \<and> card (live (imap (sd_SchedulerCache (sy_sched sys)))) < 2 ^ 31"

fun event_ok :: "'w sched_config \<Rightarrow> (string \<Rightarrow> pod) \<Rightarrow> sys_event \<Rightarrow> 'w system \<Rightarrow> bool" where
  "event_ok cfg objs (RunCycle now ch) sys \<longleftrightarrow> cycle_ok cfg ch sys"
| "event_ok cfg objs (RunBinding i now ch) sys \<longleftrightarrow> True"
| "event_ok cfg objs (SetPod key pod) sys \<longleftrightarrow> (case pod of None \<Rightarrow> True | Some p \<Rightarrow> coherent objs p \<and> pod_id p = key)"
| "event_ok cfg objs (CacheEvent e ev) sys \<longleftrightarrow> env_ok e \<and> pod_event_ok objs (sy_pods sys) ev"
| "event_ok cfg objs (QueueEvent e ev) sys \<longleftrightarrow> env_ok e \<and> queue_event_ok objs ev"
| "event_ok cfg objs (NodeEvent e ev) sys \<longleftrightarrow> env_ok e \<and> node_event_ok (sy_nodes sys) ev"
| "event_ok cfg objs (OtherEvent e event) sys \<longleftrightarrow> env_ok e"
| "event_ok cfg objs (PermitEvent profile uid ev) sys \<longleftrightarrow> True"
| "event_ok cfg objs (CleanupEvent order now) sys \<longleftrightarrow> distinct order \<and> set order = sc_assumedPods (sd_SchedulerCache (sy_sched sys))"
| "event_ok cfg objs (FlushBackoff now) sys \<longleftrightarrow> True"
| "event_ok cfg objs (FlushLeftover e) sys \<longleftrightarrow> env_ok e"
| "event_ok cfg objs DrawGeneration sys \<longleftrightarrow> True"

text \<open>The configuration: profiles have filter plugins, the orders are orders, and no error says that a node was not found.\<close>

definition config_ok :: "'w sched_config \<Rightarrow> bool" where
  "config_ok cfg \<longleftrightarrow> map_orders (cf_snapshot cfg) \<and> (\<forall>name fwk. cf_Profiles cfg name = Some fwk \<longrightarrow> HasFilterPlugins (fst fwk)) \<and>
     (\<forall>err. cf_nodeNotFound cfg err = None)"

text \<open>A new scheduler: an empty cache, an empty queue and the snapshot not taken.\<close>

definition new_scheduler :: "(QueuedPodInfo \<Rightarrow> QueuedPodInfo \<Rightarrow> bool) \<Rightarrow> 'w system \<Rightarrow> bool" where
  "new_scheduler lessFn sys \<longleftrightarrow>
     (\<exists>gen ttl period. 0 \<le> gen \<and> sd_SchedulerCache (sy_sched sys) = newSchedulerCache gen ttl period) \<and>
     gs_nodeInfoSnapshot (sd_Algorithm (sy_sched sys)) = NewEmptySnapshot \<and> extenders_ok (gs_extenders (sd_Algorithm (sy_sched sys))) \<and>
     (\<exists>initial maxDuration cem. sd_SchedulingQueue (sy_sched sys) = NewPriorityQueue lessFn initial maxDuration None cem) \<and>
     sd_podLister (sy_sched sys) = Map.empty \<and> sy_main sys = Done \<and> sy_binding sys = [] \<and> sy_pods sys = Map.empty \<and> sy_nodes sys = Map.empty"

inductive sys_reachable ::
  "'w sched_config \<Rightarrow> (string \<Rightarrow> pod) \<Rightarrow> (QueuedPodInfo \<Rightarrow> QueuedPodInfo \<Rightarrow> bool) \<Rightarrow> 'w system \<Rightarrow> bool"
  for cfg objs lessFn where
  sys_new: "new_scheduler lessFn sys \<Longrightarrow> sys_reachable cfg objs lessFn sys"
| sys_next: "sys_reachable cfg objs lessFn sys \<Longrightarrow> event_ok cfg objs ev sys \<Longrightarrow> sys_step cfg ev sys = Some sys' \<Longrightarrow> sys_reachable cfg objs lessFn sys'"

section \<open>The queue\<close>

definition pods_in :: "queue_view \<Rightarrow> pod set" where
  "pods_in v = (\<lambda>e. qp_Pod (snd e)) ` ran v"

definition queue_ok ::
  "(string \<Rightarrow> pod) \<Rightarrow> go_orders \<Rightarrow> (QueuedPodInfo \<Rightarrow> QueuedPodInfo \<Rightarrow> bool) \<Rightarrow> PriorityQueue \<Rightarrow> bool" where
  "queue_ok objs go lessFn p \<longleftrightarrow> pq_reachable go lessFn op_ok p \<and> (\<forall>pod\<in>pods_in (pq_view p). coherent objs pod)"

text \<open>The pods that an operation puts into the queue.\<close>

fun op_pods :: "pq_op \<Rightarrow> pod set" where
  "op_pods (OpAdd now pod) = {pod}"
| "op_pods (OpAddUnschedulable now x cycle) = {qp_Pod x}"
| "op_pods (OpUpdate now old new) = {new}"
| "op_pods _ = {}"

lemma new_info_pod [simp]: "pi_Pod (PodInfo_Update go i pod) = pod" "pi_Pod (full_NewPodInfo go pod) = pod" "qp_Pod (fst (newQueuedPodInfo go now p pod ps)) = pod"
  "qp_Pod (fst (updatePod go x pod p)) = pod"
  by (auto simp: PodInfo_Update_def full_NewPodInfo_def parsed_PodInfo_def newQueuedPodInfo_def updatePod_def Let_def split: option.split prod.split)

lemma update_entry_pod [simp]: "qp_Pod (snd (update_entry go now old new p)) = new"
  by (auto simp: update_entry_def Let_def split: option.splits)

lemma pods_in_upd: "pods_in (v(i \<mapsto> e)) \<subseteq> insert (qp_Pod (snd e)) (pods_in v)" "pods_in (v(i := None)) \<subseteq> pods_in v"
  unfolding pods_in_def ran_def by (auto split: if_splits)

lemma pods_in_kept: "(\<And>i e. v' i = Some e \<Longrightarrow> \<exists>w. v i = Some (w, snd e)) \<Longrightarrow> pods_in v' \<subseteq> pods_in v"
  unfolding pods_in_def ran_def by force

lemma pods_in_moves: "pods_in (flush_view f v) \<subseteq> pods_in v" "pods_in (move_view s d v) \<subseteq> pods_in v"
  by (rule pods_in_kept; auto simp: flush_view_def move_view_def split: option.splits prod.splits place.splits)+

lemma op_spec_pods: "op_spec go lessFn p op v v' \<Longrightarrow> pods_in v' \<subseteq> pods_in v \<union> op_pods op"
proof (cases op)
  case OpPop
  assume "op_spec go lessFn p op v v'"
  then have "v' = v \<or> (\<exists>i. v' = v(i := None))" using OpPop by (auto split: if_splits)
  then show ?thesis using pods_in_upd(2) [of v] by blast
next
  case (OpUpdate now old new)
  assume "op_spec go lessFn p op v v'"
  then show ?thesis using OpUpdate pods_in_upd(1) [of v "pod_id new" "update_entry go now old new p"] by auto
next
  case (OpAdd now pod)
  assume "op_spec go lessFn p op v v'"
  then show ?thesis using OpAdd pods_in_upd(1) [of v "pod_id pod" "(Active, fst (newQueuedPodInfo go now p pod []))"] by auto
next
  case (OpAddUnschedulable now x cycle)
  assume "op_spec go lessFn p op v v'"
  then show ?thesis using OpAddUnschedulable pods_in_upd(1) [of v "qid x" "(if cycle \<le> pq_moveRequestCycle p then Backoff else Unschedulable, x\<lparr>qp_Timestamp := now\<rparr>)"]
    by (auto split: if_splits)
next
  case (OpDelete pod)
  assume "op_spec go lessFn p op v v'"
  then show ?thesis using OpDelete pods_in_upd(2) [of v] by auto
qed (use pods_in_moves in fastforce)+

lemma queue_inv: "queue_ok objs go lessFn p \<Longrightarrow> strict_weak_order lessFn \<Longrightarrow> pq_inv lessFn p"
  by (auto simp: queue_ok_def intro: reachable_inv)

lemma queue_op:
  assumes q: "queue_ok objs go lessFn p" and less: "strict_weak_order lessFn" and op: "op_ok p op" "\<And>pod. pod \<in> op_pods op \<Longrightarrow> coherent objs pod"
  shows "\<exists>p'. pq_exec go op p = Some p' \<and> queue_ok objs go lessFn p' \<and> op_spec go lessFn p op (pq_view p) (pq_view p')"
proof -
  obtain p' where p': "pq_exec go op p = Some p'" "op_result go lessFn op p p'" using exec_ok [OF queue_inv [OF q less] op(1)] by blast
  have s: "op_spec go lessFn p op (pq_view p) (pq_view p')" using p'(2) by (simp add: op_result_def)
  have r: "pq_reachable go lessFn op_ok p'" using q op(1) p'(1) by (auto simp: queue_ok_def intro: queue_step)
  have "coherent objs pod" if "pod \<in> pods_in (pq_view p')" for pod
    using op_spec_pods [OF s] that q op(2) by (auto simp: queue_ok_def)
  then show ?thesis using p'(1) s r by (auto simp: queue_ok_def)
qed

lemma env_order: "queue_ok objs go lessFn (sd_SchedulingQueue s) \<Longrightarrow> strict_weak_order lessFn \<Longrightarrow> env_ok e \<Longrightarrow>
    range_order (he_order e s) (us_podInfoMap (pq_unschedulableQ (sd_SchedulingQueue s)))"
  using queue_inv by (auto simp: env_ok_def pq_inv_def us_ok_def)

text \<open>A state that only differs in the queue.\<close>

definition only_queue :: "'w Scheduler \<Rightarrow> 'w Scheduler \<Rightarrow> bool" where
  "only_queue s s' \<longleftrightarrow> s' = s\<lparr>sd_SchedulingQueue := sd_SchedulingQueue s'\<rparr>"

lemma on_queue_op:
  assumes "queue_ok objs go lessFn (sd_SchedulingQueue s)" "strict_weak_order lessFn" "op_ok (sd_SchedulingQueue s) op" "\<And>pod. pod \<in> op_pods op \<Longrightarrow> coherent objs pod"
    "f (sd_SchedulingQueue s) = pq_exec go op (sd_SchedulingQueue s)"
  shows "\<exists>s'. on_queue f s = Some s' \<and> only_queue s s' \<and> queue_ok objs go lessFn (sd_SchedulingQueue s')"
  using queue_op [OF assms(1,2,3,4)] assms(5) by (auto simp: on_queue_def only_queue_def)

lemma move_all_ok:
  assumes "queue_ok objs go lessFn (sd_SchedulingQueue s)" "strict_weak_order lessFn" "env_ok e"
  shows "\<exists>s'. move_all e event s = Some s' \<and> only_queue s s' \<and> queue_ok objs go lessFn (sd_SchedulingQueue s')"
  unfolding move_all_def by (rule on_queue_op [where op = "OpMoveAll (he_now e) (he_order e s) event", OF assms(1,2)]) (use env_order [OF assms] in auto)

lemma assigned_ok:
  assumes "queue_ok objs go lessFn (sd_SchedulingQueue s)" "strict_weak_order lessFn" "env_ok e"
  shows "\<exists>s'. on_queue (AssignedPodAdded go (he_nsLister e) (he_now e) (he_order e s) pod) s = Some s' \<and> only_queue s s' \<and> queue_ok objs go lessFn (sd_SchedulingQueue s')"
    "\<exists>s'. on_queue (AssignedPodUpdated go (he_nsLister e) (he_now e) (he_order e s) pod) s = Some s' \<and> only_queue s s' \<and> queue_ok objs go lessFn (sd_SchedulingQueue s')"
proof -
  have r: "op_ok (sd_SchedulingQueue s) (OpAssignedAdded (he_nsLister e) (he_now e) (he_order e s) pod)"
    "op_ok (sd_SchedulingQueue s) (OpAssignedUpdated (he_nsLister e) (he_now e) (he_order e s) pod)" using env_order [OF assms] by simp_all
  show "\<exists>s'. on_queue (AssignedPodAdded go (he_nsLister e) (he_now e) (he_order e s) pod) s = Some s' \<and> only_queue s s' \<and> queue_ok objs go lessFn (sd_SchedulingQueue s')"
    using on_queue_op [OF assms(1,2) r(1)] by simp
  show "\<exists>s'. on_queue (AssignedPodUpdated go (he_nsLister e) (he_now e) (he_order e s) pod) s = Some s' \<and> only_queue s s' \<and> queue_ok objs go lessFn (sd_SchedulingQueue s')"
    using on_queue_op [OF assms(1,2) r(2)] by simp
qed

lemma queue_handler_ok:
  assumes q: "queue_ok objs (cf_go cfg) lessFn (sd_SchedulingQueue s)" and less: "strict_weak_order lessFn" and ev: "queue_event_ok objs ev"
  shows "\<exists>s'. deliver PodObj (queue_handler cfg e) ev s = Some s' \<and> queue_ok objs (cf_go cfg) lessFn (sd_SchedulingQueue s') \<and>
    s' = s\<lparr>sd_SchedulingQueue := sd_SchedulingQueue s', sd_waitingPods := sd_waitingPods s'\<rparr>"
proof -
  let ?ok = "\<lambda>s'. queue_ok objs (cf_go cfg) lessFn (sd_SchedulingQueue s') \<and> s' = s\<lparr>sd_SchedulingQueue := sd_SchedulingQueue s', sd_waitingPods := sd_waitingPods s'\<rparr>"
  have add: "\<exists>s'. addPodToSchedulingQueue cfg e (PodObj p) s = Some s' \<and> ?ok s'" if "coherent objs p" for p
    using on_queue_op [OF q less, of "OpAdd (he_now e) p"] that by (fastforce simp: addPodToSchedulingQueue_def coherent_def only_queue_def)
  have del: "\<exists>s'. deletePodFromSchedulingQueue cfg obj s = Some s' \<and> ?ok s'" if c: "coherent objs p" and obj: "event_pod obj = Some p" for p obj
  proof -
    obtain s' where "on_queue (pq_Delete p) s = Some s'" "only_queue s s'" "queue_ok objs (cf_go cfg) lessFn (sd_SchedulingQueue s')"
      using on_queue_op [OF q less, of "OpDelete p" "pq_Delete p"] c by (auto simp: coherent_def)
    then show ?thesis using obj by (auto simp: deletePodFromSchedulingQueue_def only_queue_def split: sum.split)
  qed
  have upd: "\<exists>s'. updatePodInSchedulingQueue cfg e (PodObj old) (PodObj new) s = Some s' \<and> ?ok s'" if c: "coherent objs new" "pod_id old = pod_id new" for old new
  proof -
    obtain s' where "on_queue (\<lambda>p. map_option fst (pq_Update (cf_go cfg) (he_now e) (Some old) new p)) s = Some s'" "only_queue s s'"
        "queue_ok objs (cf_go cfg) lessFn (sd_SchedulingQueue s')"
      using on_queue_op [OF q less, of "OpUpdate (he_now e) old new" "\<lambda>p. map_option fst (pq_Update (cf_go cfg) (he_now e) (Some old) new p)"] c by (auto simp: coherent_def)
    then show ?thesis using q by (auto simp: updatePodInSchedulingQueue_def only_queue_def)
  qed
  show ?thesis
  proof (cases ev)
    case (Added p)
    then show ?thesis using add [of p] ev q by (auto simp: queue_handler_def FilteringResourceEventHandler_def)
  next
    case (Updated old new)
    then show ?thesis using add [of new] upd [of new old] del [of old "PodObj old"] ev q
      by (auto simp: queue_handler_def FilteringResourceEventHandler_def Let_def event_pod_def)
  next
    case (Deleted p t)
    then show ?thesis using del [of p "if t then Tombstone [] (PodObj p) else PodObj p"] ev q
      by (auto simp: queue_handler_def FilteringResourceEventHandler_def event_pod_def)
  qed
qed

section \<open>The cache and what its handlers were told\<close>

definition told :: "(string \<times> string \<rightharpoonup> pod) \<Rightarrow> string \<Rightarrow> pod \<Rightarrow> bool" where
  "told pods u p \<longleftrightarrow> p_UID p = u \<and> assignedPod p \<and> pods (pod_id p) = Some p"

text \<open>The pods that are confirmed, that is known and not assumed, are those that the handler was told about.\<close>

definition pods_agree :: "(string \<Rightarrow> pod) \<Rightarrow> cache_view \<Rightarrow> (string \<times> string \<rightharpoonup> pod) \<Rightarrow> bool" where
  "pods_agree objs v pods \<longleftrightarrow>
     (\<forall>u st. cv_states v u = Some st \<longrightarrow> p_UID (ps_pod st) = u \<and> coherent objs (ps_pod st)) \<and>
     (\<forall>k p. pods k = Some p \<longrightarrow> pod_id p = k \<and> coherent objs p) \<and>
     (\<forall>u p. u \<notin> cv_assumed v \<and> map_option ps_pod (cv_states v u) = Some p \<longleftrightarrow> told pods u p) \<and>
     cv_assumed v \<subseteq> dom (cv_states v)"

lemma pods_agreeD:
  assumes "pods_agree objs v pods"
  shows "\<And>u st. cv_states v u = Some st \<Longrightarrow> p_UID (ps_pod st) = u \<and> coherent objs (ps_pod st)" "\<And>k p. pods k = Some p \<Longrightarrow> pod_id p = k \<and> coherent objs p"
    "\<And>u p. u \<notin> cv_assumed v \<and> map_option ps_pod (cv_states v u) = Some p \<longleftrightarrow> told pods u p" "cv_assumed v \<subseteq> dom (cv_states v)"
  using assms unfolding pods_agree_def by blast+

text \<open>One entry changes, in the states and in what was told.\<close>

lemma agree_change:
  assumes ag: "pods_agree objs v pods"
    and v': "\<And>u. u \<noteq> k \<Longrightarrow> cv_states v' u = cv_states v u" "\<And>u. u \<noteq> k \<Longrightarrow> u \<in> cv_assumed v' \<longleftrightarrow> u \<in> cv_assumed v"
    and pods': "\<And>i p. pods' i = Some p \<Longrightarrow> pod_id p = i \<and> coherent objs p" "\<And>u p. u \<noteq> k \<Longrightarrow> told pods' u p \<longleftrightarrow> told pods u p"
    and here: "\<And>st. cv_states v' k = Some st \<Longrightarrow> p_UID (ps_pod st) = k \<and> coherent objs (ps_pod st)"
      "\<And>p. k \<notin> cv_assumed v' \<and> map_option ps_pod (cv_states v' k) = Some p \<longleftrightarrow> told pods' k p" "k \<in> cv_assumed v' \<Longrightarrow> cv_states v' k \<noteq> None"
  shows "pods_agree objs v' pods'"
  unfolding pods_agree_def
proof (intro conjI allI impI subsetI)
  note D = pods_agreeD [OF ag]
  show "p_UID (ps_pod st) = u" "coherent objs (ps_pod st)" if "cv_states v' u = Some st" for u st
    using D(1) [of u st] here(1) [of st] v'(1) [of u] that by (cases "u = k"; simp)+
  show "pod_id p = i" "coherent objs p" if "pods' i = Some p" for i p using pods'(1) [OF that] by simp_all
  show "u \<notin> cv_assumed v' \<and> map_option ps_pod (cv_states v' u) = Some p \<longleftrightarrow> told pods' u p" for u p
    using D(3) [of u p] here(2) [of p] v' [of u] pods'(2) [of u p] by (cases "u = k"; simp)
  show "u \<in> dom (cv_states v')" if "u \<in> cv_assumed v'" for u
    using that D(4) here(3) v' [of u] by (cases "u = k"; force)
qed

lemma coherent_spec: "coherent objs p \<Longrightarrow> coherent objs q \<Longrightarrow> p_UID p = p_UID q \<Longrightarrow> same_spec p q \<and> pod_id p = pod_id q"
  by (auto simp: coherent_def intro: same_spec_trans same_spec_sym)

lemma known_coherent: "pods_agree objs (view_of c) pods \<Longrightarrow> coherent objs pod \<Longrightarrow> known_spec c pod"
  using pods_agreeD(1) [of objs "view_of c" pods] coherent_spec by (fastforce simp: known_spec_def)

text \<open>A pod that is told at its name is told under its UID only.\<close>

lemma told_at:
  assumes "pods_agree objs v pods" "coherent objs p" "told pods (p_UID p) q"
  shows "pods (pod_id p) = Some q"
proof -
  have "pods (pod_id q) = Some q" "p_UID q = p_UID p" using assms(3) by (simp_all add: told_def)
  moreover from this have "pod_id q = pod_id p" using coherent_spec [OF _ assms(2), of q] pods_agreeD(2) [OF assms(1)] by blast
  ultimately show ?thesis by simp
qed

lemma told_upd:
  assumes "\<And>q. pods i = Some q \<Longrightarrow> p_UID q = k \<or> \<not> assignedPod q" "\<And>p. x = Some p \<Longrightarrow> p_UID p = k \<or> \<not> assignedPod p" "u \<noteq> k"
  shows "told (pods(i := x)) u p \<longleftrightarrow> told pods u p"
  using assms by (cases "pod_id p = i") (auto simp: told_def)

lemma tracked_ok: "pods_agree objs v pods \<Longrightarrow> coherent objs p \<Longrightarrow> (pods(pod_id p \<mapsto> p)) i = Some q \<Longrightarrow> pod_id q = i \<and> coherent objs q"
  by (cases "i = pod_id p") (simp, metis fun_upd_other pods_agreeD(2))

lemma agree_add:
  assumes ag: "pods_agree objs v pods" and p: "coherent objs p" "assignedPod p" "\<And>old. pods (pod_id p) = Some old \<Longrightarrow> \<not> assignedPod old"
  shows "pods_agree objs (view_step ttl (ScAddPod p) v) (pods(pod_id p \<mapsto> p))"
proof -
  let ?u = "p_UID p" and ?v = "view_step ttl (ScAddPod p) v"
  have uid: "?u \<noteq> []" using p(1) by (simp add: coherent_def)
  have fresh: "\<not> told pods ?u q" for q using told_at [OF ag p(1), of q] p(3) [of q] by (auto simp: told_def)
  have as: "cv_states v ?u = None \<and> ?u \<notin> cv_assumed v \<or> cv_states v ?u \<noteq> None \<and> ?u \<in> cv_assumed v"
    using pods_agreeD(3) [OF ag, of ?u] pods_agreeD(4) [OF ag] fresh by (cases "cv_states v ?u") auto
  then have v': "map_option ps_pod (cv_states ?v ?u) = Some p" "?u \<notin> cv_assumed ?v" "\<And>u. u \<noteq> ?u \<Longrightarrow> cv_states ?v u = cv_states v u"
    "\<And>u. u \<noteq> ?u \<Longrightarrow> u \<in> cv_assumed ?v \<longleftrightarrow> u \<in> cv_assumed v"
    using uid by (cases "cv_states v ?u"; auto)+
  have here: "told (pods(pod_id p \<mapsto> p)) ?u q \<longleftrightarrow> q = p" for q using p(2) fresh [of q] by (auto simp: told_def split: if_splits)
  show ?thesis
  proof (rule agree_change [OF ag v'(3,4) tracked_ok [OF ag p(1)]])
    show "told (pods(pod_id p \<mapsto> p)) u q \<longleftrightarrow> told pods u q" if "u \<noteq> ?u" for u q by (rule told_upd [OF _ _ that]) (use p(3) in simp_all)
    show "?u \<notin> cv_assumed ?v \<and> map_option ps_pod (cv_states ?v ?u) = Some q \<longleftrightarrow> told (pods(pod_id p \<mapsto> p)) ?u q" for q
      unfolding here v'(1) using v'(2) by blast
  qed (use v'(1,2) p(1) in auto)
qed

lemma told_confirmed:
  assumes "pods_agree objs v pods" "pods i = Some p" "assignedPod p"
  shows "\<exists>st. cv_states v (p_UID p) = Some st \<and> ps_pod st = p" "p_UID p \<notin> cv_assumed v"
proof -
  have "told pods (p_UID p) p" using assms pods_agreeD(2) [OF assms(1,2)] by (simp add: told_def)
  then have "p_UID p \<notin> cv_assumed v \<and> map_option ps_pod (cv_states v (p_UID p)) = Some p" using pods_agreeD(3) [OF assms(1)] by blast
  then show "\<exists>st. cv_states v (p_UID p) = Some st \<and> ps_pod st = p" "p_UID p \<notin> cv_assumed v" by auto
qed

lemma agree_remove:
  assumes ag: "pods_agree objs v pods" and old: "pods i = Some old" "assignedPod old" and p: "p_UID p = p_UID old"
  shows "pods_agree objs (view_step ttl (ScRemovePod p) v) (pods(i := None))"
proof -
  let ?u = "p_UID old"
  define w where "w = view_step ttl (ScRemovePod p) v"
  note O = pods_agreeD(2) [OF ag old(1)] told_confirmed [OF ag old]
  have uid: "?u \<noteq> []" using O(1) by (simp add: coherent_def)
  have v': "cv_states w = (cv_states v)(?u := None)" "cv_assumed w = cv_assumed v" using uid O(3) by (simp_all add: p w_def)
  have gone: "\<not> told (pods(i := None)) ?u q" for q
  proof
    assume t: "told (pods(i := None)) ?u q"
    then have "pods (pod_id q) = Some q" "pod_id q \<noteq> i" "p_UID q = ?u" by (auto simp: told_def split: if_splits)
    then show False using O(1) coherent_spec [of objs q old] pods_agreeD(2) [OF ag, of "pod_id q" q] by metis
  qed
  show ?thesis unfolding w_def [symmetric]
  proof (rule agree_change [OF ag, of ?u])
    show "told (pods(i := None)) u q \<longleftrightarrow> told pods u q" if "u \<noteq> ?u" for u q by (rule told_upd [OF _ _ that]) (use old in simp_all)
    show "?u \<notin> cv_assumed w \<and> map_option ps_pod (cv_states w ?u) = Some q \<longleftrightarrow> told (pods(i := None)) ?u q" for q using gone [of q] by (simp add: v')
    show "pod_id q = k \<and> coherent objs q" if "(pods(i := None)) k = Some q" for k q
      using that pods_agreeD(2) [OF ag, of k q] by (cases "k = i") simp_all
  qed (use O(3) in \<open>simp_all add: v'\<close>)
qed

lemma agree_update:
  assumes ag: "pods_agree objs v pods" and old: "pods (pod_id new) = Some old" "assignedPod old" "assignedPod new"
    and new: "coherent objs new" "p_UID new = p_UID old"
  shows "pods_agree objs (view_step ttl (ScUpdatePod old new) v) (pods(pod_id new \<mapsto> new))"
proof -
  let ?u = "p_UID old" and ?pods = "pods(pod_id new \<mapsto> new)"
  define w where "w = view_step ttl (ScUpdatePod old new) v"
  note O = told_confirmed [OF ag old(1,2)]
  have uid: "?u \<noteq> []" using new by (simp add: coherent_def)
  obtain st where st: "cv_states v ?u = Some st" using O(1) by blast
  have v': "cv_states w = (cv_states v)(?u \<mapsto> st\<lparr>ps_pod := new\<rparr>)" "cv_assumed w = cv_assumed v" using uid O(2) st by (simp_all add: w_def)
  have here: "told ?pods ?u q \<longleftrightarrow> q = new" for q
  proof
    assume t: "told ?pods ?u q"
    have q: "?pods (pod_id q) = Some q" "p_UID q = p_UID new" using t new(2) by (simp_all add: told_def)
    then have "coherent objs q" using tracked_ok [OF ag new(1)] by blast
    then have "pod_id q = pod_id new" using coherent_spec [OF _ new(1) q(2)] by blast
    then show "q = new" using q(1) by simp
  qed (use old(3) new in \<open>simp add: told_def\<close>)
  show ?thesis unfolding w_def [symmetric]
  proof (rule agree_change [OF ag, of ?u _ "pods(pod_id new \<mapsto> new)"])
    show "told ?pods u q \<longleftrightarrow> told pods u q" if "u \<noteq> ?u" for u q by (rule told_upd [OF _ _ that]) (use old new in simp_all)
    show "?u \<notin> cv_assumed w \<and> map_option ps_pod (cv_states w ?u) = Some q \<longleftrightarrow> told ?pods ?u q" for q unfolding here v' using O(2) by auto
    show "pod_id q = k \<and> coherent objs q" if "?pods k = Some q" for k q by (rule tracked_ok [OF ag new(1) that])
  qed (use O(2) new in \<open>simp_all add: v'\<close>)
qed

text \<open>Pods that are not assigned do not matter.\<close>

lemma agree_other:
  assumes ag: "pods_agree objs v pods" and old: "\<And>q. pods i = Some q \<Longrightarrow> \<not> assignedPod q"
    and x: "\<And>p. x = Some p \<Longrightarrow> pod_id p = i \<and> coherent objs p \<and> \<not> assignedPod p"
  shows "pods_agree objs v (pods(i := x))"
proof (rule agree_change [OF ag, of "[]"])
  have t: "told (pods(i := x)) u q \<longleftrightarrow> told pods u q" for u q using old x by (cases "pod_id q = i") (auto simp: told_def)
  show "told (pods(i := x)) u q \<longleftrightarrow> told pods u q" for u q by (rule t)
  show "[] \<notin> cv_assumed v \<and> map_option ps_pod (cv_states v []) = Some q \<longleftrightarrow> told (pods(i := x)) [] q" for q unfolding t by (rule pods_agreeD(3) [OF ag])
  show "pod_id q = k \<and> coherent objs q" if "(pods(i := x)) k = Some q" for k q
    using that x [of q] pods_agreeD(2) [OF ag, of k q] by (cases "k = i") simp_all
  show "p_UID (ps_pod st) = [] \<and> coherent objs (ps_pod st)" if "cv_states v [] = Some st" for st using pods_agreeD(1) [OF ag that] .
  show "cv_states v [] \<noteq> None" if "[] \<in> cv_assumed v" using pods_agreeD(4) [OF ag] that by auto
qed simp_all

text \<open>What the cycles and the cleanup do concerns assumed pods.\<close>

lemma agree_assumed:
  assumes ag: "pods_agree objs v pods"
    and other: "\<And>u. u \<notin> cv_assumed v \<Longrightarrow> cv_states v u \<noteq> None \<Longrightarrow> cv_states v' u = cv_states v u \<and> u \<notin> cv_assumed v'"
    and same: "\<And>u st. cv_states v' u = Some st \<Longrightarrow> u \<in> cv_assumed v' \<or> cv_states v u = Some st \<and> u \<notin> cv_assumed v"
    and ok: "\<And>u st. cv_states v' u = Some st \<Longrightarrow> p_UID (ps_pod st) = u \<and> coherent objs (ps_pod st)" and dom: "cv_assumed v' \<subseteq> dom (cv_states v')"
  shows "pods_agree objs v' pods"
proof -
  have "u \<notin> cv_assumed v' \<and> map_option ps_pod (cv_states v' u) = Some p \<longleftrightarrow> u \<notin> cv_assumed v \<and> map_option ps_pod (cv_states v u) = Some p" for u p
    using other [of u] same [of u] by auto
  then show ?thesis using ag ok dom unfolding pods_agree_def by simp
qed

lemma agree_assume: "pods_agree objs v pods \<Longrightarrow> coherent objs p \<Longrightarrow> pods_agree objs (view_step ttl (ScAssume p) v) pods"
  using pods_agreeD(1,4) [of objs v pods]
  by (cases "p_UID p \<noteq> [] \<and> cv_states v (p_UID p) = None") (auto intro!: agree_assumed [of objs v pods] split: if_splits)

lemma agree_finish: "pods_agree objs v pods \<Longrightarrow> pods_agree objs (view_step ttl (ScFinishBinding p now) v) pods"
  using pods_agreeD(1,4) [of objs v pods]
  by (auto intro!: agree_assumed [of objs v pods] split: if_splits option.split)

lemma agree_forget: "pods_agree objs v pods \<Longrightarrow> pods_agree objs (view_step ttl (ScForget p) v) pods"
  using pods_agreeD(1,4) [of objs v pods]
  by (auto intro!: agree_assumed [of objs v pods] split: if_splits option.split)

lemma agree_cleanup: "pods_agree objs v pods \<Longrightarrow> pods_agree objs (view_step ttl (ScCleanup order now) v) pods"
  using pods_agreeD(1,4) [of objs v pods]
  by (auto intro!: agree_assumed [of objs v pods] split: if_splits)

lemma agree_nodes: "pods_agree objs (v\<lparr>cv_nodes := ns\<rparr>) pods \<longleftrightarrow> pods_agree objs v pods"
  by (simp add: pods_agree_def)

end
