(* ===== verification/Spec2Isabelle.thy ===== *)
theory Spec2Isabelle
  imports Scheduler_Heap Rate_Limiting_Queue Delta_FIFO_Correct Cache_Histories Pod_Nominator Score_Correct Scheduler_System
begin

text \<open>
  A verification library for parts of Kubernetes: the data structures that carry objects from the
  API server's watch streams to the controllers and to the scheduler, the scheduler's cache and
  queue, and the label selectors and name checks that all components share. File names are
  relative to \<open>src/\<close>; \<open>apimachinery\<close>, \<open>client-go\<close>, \<open>component-helpers\<close> and \<open>api\<close> are
  below \<open>staging/src/k8s.io/\<close>.

  \<^bold>\<open>How Go is modelled.\<close> A struct is a record, an enumeration a datatype, a pointer that may be nil an
  option. A step that may panic has a result of type \<open>'a go\<close> whose \<open>None\<close> is the panic, and an error
  value is an option or a sum. Methods that hold a lock are atomic functions on the state;
  goroutines are step relations or sequences of operations in any order. Ranging over a map takes
  the order as an argument, and so does an unstable sort. Integers that can overflow wrap at 64 bits
  (\<open>wrap64\<close> on \<open>int\<close>, or words); times are integers, read once per call. Where aliasing matters
  there is an explicit store (\<open>Delaying_Queue\<close>, \<open>Cache_Snapshot\<close>, the list in \<open>Node_List\<close>) or a copy
  with its address (\<open>Scheduling_Queue\<close>). \<open>K8s_Prelude\<close> holds this vocabulary and the shared lemmas.

  \<^bold>\<open>The parts.\<close>

  \<^item> Heaps. \<open>Container_Heap\<close> is the algorithm of Go's \<open>container/heap\<close> over an interface, with a
    locale \<open>heap_interface\<close> for the collections it sorts. \<open>Keyed_Queue\<close> is the contract of a
    priority queue with keys; \<open>Scheduler_Heap\<close> (\<open>pkg/scheduler/internal/heap/heap.go\<close>) implements
    it: the map and the slice stay in step, draining gives the order, and the operations refine a map.

  \<^item> Work queues (\<open>client-go/util/workqueue\<close>). \<open>Work_Queue\<close> is the queue of \<open>queue.go\<close> with its producers and
    workers: no item is lost or processed twice at once, in order of arrival. \<open>Rate_Limiter\<close> is
    \<open>default_rate_limiters.go\<close> (with the float arithmetic and its overflow), \<open>Delaying_Queue\<close> the waiting loop of
    \<open>delaying_queue.go\<close> (no early and no lost item), and \<open>Rate_Limiting_Queue\<close> their composition.

  \<^item> Object caches (\<open>client-go/tools/cache\<close>). \<open>Thread_Safe_Store\<close> is the indexed store: the incremental
    indices answer what a search would. \<open>Delta_FIFO\<close> and \<open>Delta_FIFO_Correct\<close> are the queue of changes:
    its invariant, what \<open>Replace\<close> queues, the merging of deletions and \<open>HasSynced\<close>.

  \<^item> Names and selectors (\<open>apimachinery/pkg\<close>). \<open>Regexp\<close> and \<open>Name_Validation\<close> (\<open>util/validation\<close>) compile and match the
    regular expressions of the source; the accepted strings are characterised. \<open>Label_Selectors\<close> and
    \<open>Selector_Parser\<close> are \<open>labels/selector.go\<close>, \<open>labels/labels.go\<close> and the conversions of
    \<open>apis/meta/v1/helpers.go\<close>; \<open>Selector_Correct\<close> shows that the parser ends on every string and reads
    back what the printer prints, and what an API selector means.

  \<^item> The scheduler's view of the cluster (\<open>pkg/scheduler\<close>). \<open>Api_Types\<close> has the API objects that it reads,
    \<open>Node_Info\<close> (\<open>framework/types.go\<close>) the accounting of a node, \<open>Node_Tree\<close> the round robin over zones, \<open>Node_List\<close> the
    doubly linked list, \<open>Scheduler_Cache\<close> and \<open>Cache_Snapshot\<close> (\<open>internal/cache\<close>) the cache and the incremental snapshot.
    \<open>Cache_Correct\<close>, \<open>Snapshot_Correct\<close> and \<open>Cache_Histories\<close> show that no history of events panics and that the snapshot is
    the cache.

  \<^item> The scheduling queue (\<open>internal/queue\<close>). \<open>Pod_Info\<close> has pods with parsed affinity and the cluster events,
    \<open>Scheduling_Queue\<close> the queue with its three parts and the nominator. \<open>Queue_Places\<close> and \<open>Queue_Correct\<close> describe the queue as one
    map and each operation by its effect; \<open>Queue_Histories\<close> and \<open>Pod_Nominator\<close> draw the consequences for all histories.

  \<^bold>\<open>How the parts interact.\<close> The informers fill the stores from the DeltaFIFO, the event handlers feed the scheduler's cache and
  queue, the controllers' work queues hold keys of the stores. The interfaces are locales, each interpreted on the
  model: \<open>heap_interface\<close> by the two heaps, \<open>keyed_queue\<close> by the scheduler's heap (which the scheduling queue uses), \<open>work_queue\<close> by the work
  queue (which the delaying queue uses), \<open>rate_limiter\<close> by the limiters, \<open>key_lister_getter\<close> by the store behind the DeltaFIFO.

  \<^bold>\<open>Recursion.\<close> Loops are structural or have a termination proof; no fuel is used. The loops of the parser,
  of the listing of the node tree, of the snapshot update and of the flush of the backoff queue are partial functions, and the theorems about them state that
  they return.

  \<^bold>\<open>Hypotheses.\<close> Orders for maps list every key once (\<open>range_order\<close>); a sort returns a sorted permutation (\<open>sorts_by_key\<close>); less
  functions are strict weak orders; event handlers deliver what informers deliver (a pod is added before it is
  updated, names pass the API server's validation). Each theorem with hypotheses has a witness at a concrete state.

  \<^bold>\<open>Not modelled.\<close> The API server, etcd, the controllers' reconciliation, the kubelet, volumes, the network proxy, command line tools, cloud
  providers and generated code: they are I/O over external services or struct plumbing, and the properties that
  matter there rest on code outside the repository. Of the modelled files: metrics other than the gauges, logging, the
  goroutines that call a method periodically, checks of IP addresses (\<open>net.ParseIP\<close>), \<open>ConvertSelectorToLabelsMap\<close> (Unicode trimming), and the text
  of error messages beyond their kind.
\<close>

end
